(* ===== verification/Prelude.thy ===== *)
theory Prelude
  imports Main "HOL-Library.Word" "HOL-Library.Sublist"
begin

text \<open>
  Shared vocabulary of the development: the faults a C++ handler can end in, the result type
  \<open>'a res\<close> with its sequencing operator, the rules that let the simplifier compute with it, and
  \<open>std::map\<close> as an association list sorted by key.
\<close>

section \<open>Results and faults\<close>

text \<open>
  A handler either returns or stops the process: a null pointer is dereferenced, an
  \<open>RTC_DCHECK\<close> fails in a build that has them on, a \<open>std::out_of_range\<close> escapes,
  a vector is indexed past its end, a signed operation overflows (undefined behaviour), a divisor
  is 0, memory is read or written outside its block, an allocation is refused, \<open>std::terminate\<close> runs,
  or a loop does not end.
\<close>

datatype fault =
    Null_deref | Check_failed | Out_of_range | Index_fault | No_return | Overflow | Div_zero | Bad_memory | Bad_alloc | Terminated

type_synonym 'a res = "fault + 'a"

definition bindR :: "'a res \<Rightarrow> ('a \<Rightarrow> 'b res) \<Rightarrow> 'b res" where
  "bindR m f = (case m of Inl e \<Rightarrow> Inl e | Inr x \<Rightarrow> f x)"

definition dcheck :: "bool \<Rightarrow> bool \<Rightarrow> 's \<Rightarrow> 's res" where
  "dcheck on c s = (if on \<and> \<not> c then Inl Check_failed else Inr s)"

text \<open>The result of a signed 32-bit operation.\<close>

definition i32 :: "int \<Rightarrow> int res" where
  "i32 x = (if - (2 ^ 31) \<le> x \<and> x < 2 ^ 31 then Inr x else Inl Overflow)"

text \<open>The result of a signed 64-bit operation.\<close>

definition in_i64 :: "int \<Rightarrow> bool" where
  "in_i64 x \<longleftrightarrow> - (2 ^ 63) \<le> x \<and> x < 2 ^ 63"

definition i64 :: "int \<Rightarrow> int res" where
  "i64 x = (if in_i64 x then Inr x else Inl Overflow)"

text \<open>
  \<open>resP P m\<close>: if \<open>m\<close> returns, its value satisfies \<open>P\<close>.  \<open>resT P m\<close>: \<open>m\<close> returns, and its value
  satisfies \<open>P\<close>.  Both distribute over \<open>bindR\<close>, so a handler's obligation is computed from the
  obligations of the calls it makes.
\<close>

definition resP :: "('a \<Rightarrow> bool) \<Rightarrow> 'a res \<Rightarrow> bool" where
  "resP P m = (case m of Inl e \<Rightarrow> True | Inr x \<Rightarrow> P x)"

definition resT :: "('a \<Rightarrow> bool) \<Rightarrow> 'a res \<Rightarrow> bool" where
  "resT P m = (case m of Inl e \<Rightarrow> False | Inr x \<Rightarrow> P x)"

named_theorems res_simps "computing with results"
named_theorems res_intros "obligations of results"

lemma bindR_Inr [simp, res_simps]: "bindR (Inr x) f = f x"
  by (simp add: bindR_def)

lemma bindR_Inl [simp, res_simps]: "bindR (Inl e) f = Inl e"
  by (simp add: bindR_def)

lemma bindR_eq_Inr: "bindR m f = Inr y \<longleftrightarrow> (\<exists>x. m = Inr x \<and> f x = Inr y)"
  by (cases m) auto

lemma bindR_eq_Inl: "bindR m f = Inl e \<longleftrightarrow> m = Inl e \<or> (\<exists>x. m = Inr x \<and> f x = Inl e)"
  by (cases m) auto

lemma bindR_assoc: "bindR (bindR m f) g = bindR m (\<lambda>x. bindR (f x) g)"
  by (cases m) auto

lemma bindR_cong [fundef_cong]:
  "m = m' \<Longrightarrow> (\<And>x. m' = Inr x \<Longrightarrow> f x = f' x) \<Longrightarrow> bindR m f = bindR m' f'"
  by (cases m') auto

lemma dcheck_True [simp, res_simps]: "dcheck on True s = Inr s"
  by (simp add: dcheck_def)

lemma dcheck_off [simp, res_simps]: "dcheck False c s = Inr s"
  by (simp add: dcheck_def)

lemma dcheck_eq_Inr: "dcheck on c s = Inr t \<longleftrightarrow> (on \<longrightarrow> c) \<and> t = s"
  by (auto simp: dcheck_def)

lemma resP_Inr [simp, res_simps]: "resP P (Inr x) = P x"
  by (simp add: resP_def)

lemma resP_Inl [simp, res_simps]: "resP P (Inl e)"
  by (simp add: resP_def)

lemma resT_Inr [simp, res_simps]: "resT P (Inr x) = P x"
  by (simp add: resT_def)

lemma resT_Inl [simp, res_simps]: "\<not> resT P (Inl e)"
  by (simp add: resT_def)

lemma resP_bindR [res_simps]: "resP P (bindR m f) = resP (\<lambda>x. resP P (f x)) m"
  by (cases m) auto

lemma resT_bindR [res_simps]: "resT P (bindR m f) = resT (\<lambda>x. resT P (f x)) m"
  by (cases m) auto

lemma resP_dcheck [simp, res_simps]: "resP P (dcheck on c s) = (on \<and> \<not> c \<or> P s)"
  by (auto simp: dcheck_def)

lemma resP_bind_dcheck: "resP P (bindR (dcheck on c s) f) = (on \<and> \<not> c \<or> resP P (f s))"
  by (auto simp: dcheck_def)

lemma resT_dcheck [simp, res_simps]: "resT P (dcheck on c s) = ((on \<longrightarrow> c) \<and> P s)"
  by (simp add: dcheck_def)

lemma resP_if [res_simps]: "resP P (if b then m else n) = (if b then resP P m else resP P n)"
  by simp

lemma resP_mono: "resP P m \<Longrightarrow> (\<And>x. m = Inr x \<Longrightarrow> P x \<Longrightarrow> Q x) \<Longrightarrow> resP Q m"
  by (cases m) auto

lemma resT_mono: "resT P m \<Longrightarrow> (\<And>x. m = Inr x \<Longrightarrow> P x \<Longrightarrow> Q x) \<Longrightarrow> resT Q m"
  by (cases m) auto

lemma resP_D: "resP P m \<Longrightarrow> m = Inr x \<Longrightarrow> P x"
  by simp

lemma resP_I: "(\<And>x. m = Inr x \<Longrightarrow> P x) \<Longrightarrow> resP P m"
  by (cases m) auto

lemma resT_iff: "resT P m \<longleftrightarrow> (\<exists>x. m = Inr x \<and> P x)"
  by (cases m) auto

lemma resT_imp_resP: "resT P m \<Longrightarrow> resP P m"
  by (cases m) auto

lemma resP_bindI: "resP P m \<Longrightarrow> (\<And>x. P x \<Longrightarrow> resP Q (f x)) \<Longrightarrow> resP Q (bindR m f)"
  by (cases m) auto

lemma resP_bind2:
  "resP (\<lambda>(a, b). P a b) m \<Longrightarrow> (\<And>a b. P a b \<Longrightarrow> resP Q (f a b)) \<Longrightarrow>
     resP Q (bindR m (\<lambda>(a, b). f a b))"
  by (cases m) auto

lemma resT_bindI: "resT P m \<Longrightarrow> (\<And>x. P x \<Longrightarrow> resT Q (f x)) \<Longrightarrow> resT Q (bindR m f)"
  by (cases m) auto

section \<open>Prefixes\<close>

text \<open>Where a predicate never turns true again, the longest prefix of it holds all elements with it.\<close>

lemma set_prefix:
  "sorted_wrt (\<lambda>a b. P b \<longrightarrow> P a) xs \<Longrightarrow> set (takeWhile P xs) = {x \<in> set xs. P x}"
  "sorted_wrt (\<lambda>a b. P b \<longrightarrow> P a) xs \<Longrightarrow> set (dropWhile P xs) = {x \<in> set xs. \<not> P x}"
  by (induction xs) auto

lemma prefix_nth:
  "sorted_wrt (\<lambda>a b. P b \<longrightarrow> P a) xs \<Longrightarrow> i < length xs \<Longrightarrow> P (xs ! i) \<longleftrightarrow> i < length (takeWhile P xs)"
  by (induction xs arbitrary: i) (auto simp: nth_Cons' gr0_conv_Suc)

lemma length_prefix: "length (takeWhile P xs) + length (dropWhile P xs) = length xs"
  by (metis length_append takeWhile_dropWhile_id)

lemma sorted_down_closed:
  "sorted xs \<Longrightarrow> sorted_wrt (\<lambda>a b. b \<le> v \<longrightarrow> a \<le> v) xs" "sorted xs \<Longrightarrow> sorted_wrt (\<lambda>a b. b < v \<longrightarrow> a < v) xs"
  for v :: "'a::linorder"
  by (auto elim!: sorted_wrt_mono_rel [rotated])

section \<open>Ordered maps\<close>

text \<open>
  \<open>std::map\<close> iterates in key order, so it is an association list with strictly increasing keys;
  \<open>smap_put\<close> is \<open>m[k] = v\<close> and \<open>smap_erase\<close> is \<open>m.erase(k)\<close>.
\<close>

fun smap_put :: "'k::linorder \<Rightarrow> 'v \<Rightarrow> ('k \<times> 'v) list \<Rightarrow> ('k \<times> 'v) list" where
  "smap_put k v [] = [(k, v)]"
| "smap_put k v ((k', v') # m) =
     (if k < k' then (k, v) # (k', v') # m
      else if k = k' then (k, v) # m
      else (k', v') # smap_put k v m)"

fun smap_erase :: "'k::linorder \<Rightarrow> ('k \<times> 'v) list \<Rightarrow> ('k \<times> 'v) list" where
  "smap_erase k [] = []"
| "smap_erase k ((k', v') # m) = (if k = k' then m else (k', v') # smap_erase k m)"

definition smap_ok :: "('k::linorder \<times> 'v) list \<Rightarrow> bool" where
  "smap_ok m \<longleftrightarrow> sorted_wrt (<) (map fst m)"

lemma smap_ok_Nil [simp]: "smap_ok []"
  by (simp add: smap_ok_def)

lemma smap_ok_Cons: "smap_ok ((k, v) # m) \<longleftrightarrow> (\<forall>k' \<in> fst ` set m. k < k') \<and> smap_ok m"
  by (simp add: smap_ok_def)

lemma smap_keys_put: "fst ` set (smap_put k v m) = insert k (fst ` set m)"
  by (induction k v m rule: smap_put.induct) auto

lemma smap_erase_subset: "set (smap_erase k m) \<subseteq> set m"
  by (induction k m rule: smap_erase.induct) auto

lemma smap_put_ok: "smap_ok m \<Longrightarrow> smap_ok (smap_put k v m)"
  by (induction k v m rule: smap_put.induct) (auto simp: smap_ok_Cons smap_keys_put)

lemma smap_erase_ok: "smap_ok m \<Longrightarrow> smap_ok (smap_erase k m)"
  by (induction k m rule: smap_erase.induct)
    (auto simp: smap_ok_Cons dest: subsetD [OF smap_erase_subset])

lemma smap_lookup_put: "smap_ok m \<Longrightarrow> map_of (smap_put k v m) = (map_of m)(k \<mapsto> v)"
  by (induction k v m rule: smap_put.induct) (auto simp: smap_ok_Cons fun_eq_iff)

lemma smap_lookup_erase: "smap_ok m \<Longrightarrow> map_of (smap_erase k m) = (map_of m)(k := None)"
proof (induction k m rule: smap_erase.induct)
  case (2 k k' v' m)
  then have "k = k' \<Longrightarrow> map_of m k' = None"
    by (auto simp: smap_ok_Cons map_of_eq_None_iff)
  with 2 show ?case by (auto simp: smap_ok_Cons fun_eq_iff)
qed simp

text \<open>What the client of an ordered map relies on, as an interface.\<close>

locale ordered_map =
  fixes put :: "'k::linorder \<Rightarrow> 'v \<Rightarrow> 'm \<Rightarrow> 'm"
    and erase :: "'k \<Rightarrow> 'm \<Rightarrow> 'm"
    and lookup :: "'m \<Rightarrow> 'k \<Rightarrow> 'v option"
    and invar :: "'m \<Rightarrow> bool"
  assumes lookup_put: "invar m \<Longrightarrow> lookup (put k v m) = (lookup m)(k \<mapsto> v)"
    and lookup_erase: "invar m \<Longrightarrow> lookup (erase k m) = (lookup m)(k := None)"
    and invar_put: "invar m \<Longrightarrow> invar (put k v m)"
    and invar_erase: "invar m \<Longrightarrow> invar (erase k m)"
begin

lemma lookup_put_erase: "invar m \<Longrightarrow> lookup (erase k (put k v m)) = (lookup m)(k := None)"
  by (simp add: lookup_put lookup_erase invar_put)

lemma dom_put: "invar m \<Longrightarrow> dom (lookup (put k v m)) = insert k (dom (lookup m))"
  by (simp add: lookup_put)

lemma dom_erase: "invar m \<Longrightarrow> dom (lookup (erase k m)) = dom (lookup m) - {k}"
  by (simp add: lookup_erase)

lemma foldr_put:
  "invar m \<Longrightarrow> invar (foldr (\<lambda>(k, v). put k v) kvs m) \<and>
     lookup (foldr (\<lambda>(k, v). put k v) kvs m) = lookup m ++ map_of kvs"
  by (induction kvs) (auto simp: invar_put lookup_put)

end

interpretation smap: ordered_map smap_put smap_erase map_of smap_ok
  by unfold_locales
    (auto simp: smap_lookup_put smap_lookup_erase smap_put_ok smap_erase_ok)

section \<open>Comparators\<close>

text \<open>A comparison as the library asks for it: not less is a total preorder.\<close>

definition total_preorder :: "('a \<Rightarrow> 'a \<Rightarrow> bool) \<Rightarrow> bool" where
  "total_preorder ge \<longleftrightarrow> (\<forall>a b. ge a b \<or> ge b a) \<and> (\<forall>a b c. ge a b \<and> ge b c \<longrightarrow> ge a c)"

lemma total_preorder_refl: "total_preorder ge \<Longrightarrow> ge a a"
  unfolding total_preorder_def by blast

lemma total_preorder_cases: "total_preorder ge \<Longrightarrow> \<not> ge a b \<Longrightarrow> ge b a"
  unfolding total_preorder_def by blast

lemma total_preorder_trans: "total_preorder ge \<Longrightarrow> ge a b \<Longrightarrow> ge b c \<Longrightarrow> ge a c"
  unfolding total_preorder_def by blast

definition strict_weak :: "('k \<Rightarrow> 'k \<Rightarrow> bool) \<Rightarrow> bool" where
  "strict_weak lt \<longleftrightarrow> total_preorder (\<lambda>a b. \<not> lt a b)"

section \<open>Encoders\<close>

text \<open>
  An encoder and its decoder, as an interface: what was encoded is read back, so the encoder is
  injective and a sequence of encoded values decodes to the sequence.
\<close>

fun mapR :: "('a \<Rightarrow> 'b res) \<Rightarrow> 'a list \<Rightarrow> 'b list res" where
  "mapR f [] = Inr []"
| "mapR f (x # xs) = bindR (f x) (\<lambda>y. bindR (mapR f xs) (\<lambda>ys. Inr (y # ys)))"

lemma mapR_Inr: "(\<And>x. x \<in> set xs \<Longrightarrow> f x = Inr (g x)) \<Longrightarrow> mapR f xs = Inr (map g xs)"
  by (induction xs) simp_all

locale codec =
  fixes enc :: "'a \<Rightarrow> 'b res" and dec :: "'b \<Rightarrow> 'a res" and ok :: "'a \<Rightarrow> bool"
  assumes dec_enc: "ok x \<Longrightarrow> bindR (enc x) dec = Inr x"
begin

lemma enc_returns: "ok x \<Longrightarrow> \<exists>y. enc x = Inr y \<and> dec y = Inr x"
  using dec_enc [of x] by (auto simp: bindR_eq_Inr)

lemma enc_inj: "ok x \<Longrightarrow> ok y \<Longrightarrow> enc x = enc y \<Longrightarrow> x = y"
  by (metis dec_enc sum.inject(2))

lemma dec_enc_all: "list_all ok xs \<Longrightarrow> bindR (mapR enc xs) (mapR dec) = Inr xs"
proof (induction xs)
  case (Cons x xs)
  then obtain y where "enc x = Inr y" "dec y = Inr x" using enc_returns [of x] by auto
  moreover from Cons obtain ys where "mapR enc xs = Inr ys" "mapR dec ys = Inr xs"
    by (auto simp: bindR_eq_Inr)
  ultimately show ?case by simp
qed simp

end

section \<open>Growing sequences\<close>

text \<open>
  A container that is appended to, as an interface over the list of its elements: appending
  returns, keeps the invariant and adds the elements at the end, up to a size limit.  Then so
  does any sequence of appends.
\<close>

fun foldR :: "('x \<Rightarrow> 's \<Rightarrow> 's res) \<Rightarrow> 'x list \<Rightarrow> 's \<Rightarrow> 's res" where
  "foldR f [] s = Inr s"
| "foldR f (x # xs) s = bindR (f x s) (foldR f xs)"

locale growing_sequence =
  fixes add :: "'a list \<Rightarrow> 'b \<Rightarrow> 'b res" and content :: "'b \<Rightarrow> 'a list" and inv :: "'b \<Rightarrow> bool" and limit :: nat
  assumes add_ok: "inv b \<Longrightarrow> length (content b) + length xs \<le> limit \<Longrightarrow>
    resT (\<lambda>b'. inv b' \<and> content b' = content b @ xs) (add xs b)"
begin

lemma add_all:
  "inv b \<Longrightarrow> length (content b) + length (concat xss) \<le> limit \<Longrightarrow>
     resT (\<lambda>b'. inv b' \<and> content b' = content b @ concat xss) (foldR add xss b)"
proof (induction xss arbitrary: b)
  case (Cons xs xss)
  then have "resT (\<lambda>b'. inv b' \<and> content b' = content b @ xs) (add xs b)"
    by (intro add_ok) simp_all
  then obtain b1 where b1: "add xs b = Inr b1" "inv b1" "content b1 = content b @ xs"
    by (auto simp: resT_iff)
  with Cons.IH [of b1] Cons.prems(2) show ?case by simp
qed simp

end

end
