(* ===== verification/Cpp_String.thy ===== *)
theory Cpp_String
  imports Prelude
begin

text \<open>
  The parts of the C and C++ standard libraries the signalling client parses and prints with:
  \<open>std::string::find\<close> and \<open>substr\<close>, \<open>c_str\<close>, \<open>atoi\<close> (saturating at the ends of \<open>int\<close>, as the
  C runtime of the target platform does), the conversions between \<open>int\<close> and a 64-bit
  \<open>size_t\<close>, \<open>printf\<close>'s \<open>%i\<close>/\<open>%zu\<close> and the truncation of \<open>snprintf\<close>.  \<open>npos\<close> is \<open>None\<close>.
\<close>

section \<open>Searching and slicing\<close>

fun find_at :: "nat \<Rightarrow> string \<Rightarrow> string \<Rightarrow> nat option" where
  "find_at i pat [] = (if pat = [] then Some i else None)"
| "find_at i pat (c # cs) =
     (if prefix pat (c # cs) then Some i else find_at (Suc i) pat cs)"

definition str_find :: "string \<Rightarrow> string \<Rightarrow> nat \<Rightarrow> nat option" where
  "str_find s pat pos = (if pos \<le> length s then find_at pos pat (drop pos s) else None)"

definition str_substr :: "string \<Rightarrow> nat \<Rightarrow> nat \<Rightarrow> string res" where
  "str_substr s pos n = (if pos \<le> length s then Inr (take n (drop pos s)) else Inl Out_of_range)"

definition str_substr_from :: "string \<Rightarrow> nat \<Rightarrow> string res" where
  "str_substr_from s pos = (if pos \<le> length s then Inr (drop pos s) else Inl Out_of_range)"

definition c_str :: "string \<Rightarrow> string" where
  "c_str s = takeWhile (\<lambda>c. c \<noteq> CHR 0x00) s"

lemma find_at_Some:
  "find_at i pat s = Some j \<longleftrightarrow>
     (\<exists>k. j = i + k \<and> k \<le> length s \<and> prefix pat (drop k s) \<and>
          (\<forall>m < k. \<not> prefix pat (drop m s)))"
proof (induction i pat s arbitrary: j rule: find_at.induct)
  case (1 i pat)
  then show ?case by auto
next
  case (2 i pat c cs)
  show ?case (is "?L = ?R")
  proof (cases "prefix pat (c # cs)")
    case True
    show ?thesis
    proof
      assume ?L
      with True show ?R by (intro exI [of _ 0]) auto
    next
      assume ?R
      then obtain k where "j = i + k" and "\<forall>m < k. \<not> prefix pat (drop m (c # cs))" by blast
      with True have "k = 0" by (metis drop_0 neq0_conv)
      with \<open>j = i + k\<close> True show ?L by simp
    qed
  next
    case False
    have shift: "(\<forall>m < Suc k. \<not> prefix pat (drop m (c # cs))) \<longleftrightarrow>
        (\<forall>m < k. \<not> prefix pat (drop m cs))" for k
      using False by (auto simp: less_Suc_eq_0_disj)
    show ?thesis
    proof
      assume ?L
      with False "2" obtain k where "j = Suc i + k" "k \<le> length cs" "prefix pat (drop k cs)"
        "\<forall>m < k. \<not> prefix pat (drop m cs)" by auto
      then show ?R by (intro exI [of _ "Suc k"]) (simp add: shift del: all_simps)
    next
      assume ?R
      then obtain k where k: "j = i + k" "k \<le> length (c # cs)" "prefix pat (drop k (c # cs))"
        "\<forall>m < k. \<not> prefix pat (drop m (c # cs))" by blast
      with False obtain k' where "k = Suc k'" by (cases k) auto
      with k False "2" show ?L by (auto simp: shift)
    qed
  qed
qed

lemma all_le_Suc: "(\<forall>k \<le> Suc n. P k) \<longleftrightarrow> P 0 \<and> (\<forall>k \<le> n. P (Suc k))"
  by (metis Suc_le_mono bot_nat_0.extremum not0_implies_Suc)

lemma find_at_None:
  "find_at i pat s = None \<longleftrightarrow> (\<forall>k \<le> length s. \<not> prefix pat (drop k s))"
  by (induction i pat s rule: find_at.induct) (simp_all add: all_le_Suc)

text \<open>\<open>find\<close> returns the first match at or after \<open>pos\<close>, and \<open>npos\<close> exactly when there is none.\<close>

lemma str_find_Some:
  "str_find s pat pos = Some j \<longleftrightarrow>
     pos \<le> j \<and> j \<le> length s \<and> prefix pat (drop j s) \<and>
     (\<forall>m. pos \<le> m \<and> m < j \<longrightarrow> \<not> prefix pat (drop m s))"
  (is "?L = ?R")
proof
  assume ?L
  then have le: "pos \<le> length s" and "find_at pos pat (drop pos s) = Some j"
    by (auto simp: str_find_def split: if_splits)
  then obtain k where "j = pos + k" "k \<le> length s - pos" "prefix pat (drop (k + pos) s)"
    "\<forall>m < k. \<not> prefix pat (drop (m + pos) s)"
    by (auto simp: find_at_Some)
  moreover have "\<not> prefix pat (drop m s)" if "pos \<le> m" "m < j" for m
    using that calculation(1,4) by (auto dest!: spec [of _ "m - pos"])
  ultimately show ?R using le by (auto simp: add.commute)
next
  assume R: ?R
  then have "find_at pos pat (drop pos s) = Some j"
    unfolding find_at_Some by (intro exI [of _ "j - pos"]) (auto simp: add.commute)
  with R show ?L by (simp add: str_find_def)
qed

lemma str_find_bounds: "str_find s pat pos = Some j \<Longrightarrow> pos \<le> j \<and> j + length pat \<le> length s"
  by (auto simp: str_find_Some dest!: prefix_length_le)

lemma str_find_None:
  "str_find s pat pos = None \<longleftrightarrow> (\<forall>j. pos \<le> j \<and> j \<le> length s \<longrightarrow> \<not> prefix pat (drop j s))"
  (is "?L = ?R")
proof
  assume L: ?L
  show ?R
  proof (intro allI impI)
    fix j
    assume j: "pos \<le> j \<and> j \<le> length s"
    with L have "find_at pos pat (drop pos s) = None"
      by (simp add: str_find_def split: if_splits)
    then have "\<not> prefix pat (drop (j - pos) (drop pos s))"
      unfolding find_at_None using j by (metis diff_le_mono length_drop)
    with j show "\<not> prefix pat (drop j s)" by simp
  qed
next
  assume R: ?R
  show ?L
  proof (cases "str_find s pat pos")
    case (Some j)
    then have "pos \<le> j \<and> j \<le> length s" and "prefix pat (drop j s)"
      by (simp_all add: str_find_Some)
    with R show ?thesis by blast
  qed simp
qed

section \<open>Numbers\<close>

definition INT_MAX :: int where "INT_MAX = 2147483647"
definition INT_MIN :: int where "INT_MIN = -2147483648"

definition is_space :: "char \<Rightarrow> bool" where
  "is_space c \<longleftrightarrow> c = CHR '' '' \<or> (9 \<le> (of_char c :: nat) \<and> (of_char c :: nat) \<le> 13)"

definition is_digit :: "char \<Rightarrow> bool" where
  "is_digit c \<longleftrightarrow> 48 \<le> (of_char c :: nat) \<and> (of_char c :: nat) \<le> 57"

definition digit_val :: "char \<Rightarrow> nat" where
  "digit_val c = of_char c - 48"

definition digit_chr :: "nat \<Rightarrow> char" where
  "digit_chr n = char_of (48 + n)"

definition digits_val :: "string \<Rightarrow> nat" where
  "digits_val ds = foldl (\<lambda>a c. 10 * a + digit_val c) 0 ds"

definition clamp_int :: "int \<Rightarrow> int" where
  "clamp_int x = max INT_MIN (min INT_MAX x)"

definition atoi :: "string \<Rightarrow> int" where
  "atoi s =
     (let s = dropWhile is_space s
      in case s of
           [] \<Rightarrow> 0
         | c # r \<Rightarrow>
             if c = CHR ''-'' then clamp_int (- int (digits_val (takeWhile is_digit r)))
             else if c = CHR ''+'' then clamp_int (int (digits_val (takeWhile is_digit r)))
             else clamp_int (int (digits_val (takeWhile is_digit s))))"

fun show_nat :: "nat \<Rightarrow> string" where
  "show_nat n = (if n < 10 then [digit_chr n] else show_nat (n div 10) @ [digit_chr (n mod 10)])"

declare show_nat.simps [simp del]

definition show_int :: "int \<Rightarrow> string" where
  "show_int i = (if i < 0 then CHR ''-'' # show_nat (nat (- i)) else show_nat (nat i))"

definition snprintf :: "nat \<Rightarrow> string \<Rightarrow> string" where
  "snprintf n s = take (n - 1) s"

type_synonym size_t = "64 word"

definition size_of_int :: "int \<Rightarrow> size_t" where
  "size_of_int i = of_int i"

definition int_of_size :: "size_t \<Rightarrow> int" where
  "int_of_size w = sint (ucast w :: 32 word)"

lemma digit_val_chr: "n < 10 \<Longrightarrow> digit_val (digit_chr n) = n"
  by (simp add: digit_val_def digit_chr_def)

lemma is_digit_chr: "n < 10 \<Longrightarrow> is_digit (digit_chr n)"
  by (simp add: is_digit_def digit_chr_def)

lemma is_digit_not_space: "is_digit c \<Longrightarrow> \<not> is_space c"
  by (auto simp: is_digit_def is_space_def)

lemma is_digit_not_sign: "is_digit c \<Longrightarrow> c \<noteq> CHR ''-'' \<and> c \<noteq> CHR ''+''"
  by (auto simp: is_digit_def)

lemma digits_val_append: "digits_val (xs @ [c]) = 10 * digits_val xs + digit_val c"
  by (simp add: digits_val_def)

lemma show_nat_digits: "\<forall>c \<in> set (show_nat n). is_digit c"
proof (induction n rule: show_nat.induct)
  case (1 n)
  then show ?case by (subst show_nat.simps) (auto simp: is_digit_chr)
qed

lemma show_nat_nonempty: "show_nat n \<noteq> []"
  by (subst show_nat.simps) simp

lemma digits_val_show_nat: "digits_val (show_nat n) = n"
proof (induction n rule: show_nat.induct)
  case (1 n)
  then show ?case
    by (subst show_nat.simps) (simp add: digits_val_append digit_val_chr, simp add: digits_val_def digit_val_chr)
qed

lemma takeWhile_digits:
  "\<forall>c \<in> set ds. is_digit c \<Longrightarrow> rest = [] \<or> \<not> is_digit (hd rest) \<Longrightarrow>
     takeWhile is_digit (ds @ rest) = ds"
  by (induction ds) (auto simp: takeWhile_eq_Nil_iff)

lemma clamp_int_id: "INT_MIN \<le> x \<Longrightarrow> x \<le> INT_MAX \<Longrightarrow> clamp_int x = x"
  by (simp add: clamp_int_def)

lemma clamp_int_bounds: "INT_MIN \<le> clamp_int x \<and> clamp_int x \<le> INT_MAX"
  by (simp add: clamp_int_def INT_MIN_def INT_MAX_def)

text \<open>\<open>atoi\<close> always yields an \<open>int\<close>, and reads back what \<open>%i\<close> printed, whatever follows.\<close>

lemma atoi_bounds: "INT_MIN \<le> atoi s \<and> atoi s \<le> INT_MAX"
  using clamp_int_bounds
  by (auto simp: atoi_def Let_def INT_MIN_def INT_MAX_def split: list.splits)

lemma atoi_digits:
  assumes "ds \<noteq> []" "\<forall>c \<in> set ds. is_digit c" "rest = [] \<or> \<not> is_digit (hd rest)"
  shows "atoi (ds @ rest) = clamp_int (int (digits_val ds))"
proof -
  obtain d ds' where ds: "ds = d # ds'" and d: "is_digit d"
    using assms(1,2) by (cases ds) auto
  from d have "dropWhile is_space (ds @ rest) = ds @ rest"
    by (simp add: ds is_digit_not_space)
  then show ?thesis
    using takeWhile_digits [OF assms(2,3)] is_digit_not_sign [OF d]
    by (simp add: atoi_def ds)
qed

lemma atoi_show_nat:
  assumes "int n \<le> INT_MAX" "rest = [] \<or> \<not> is_digit (hd rest)"
  shows "atoi (show_nat n @ rest) = int n"
proof -
  have "atoi (show_nat n @ rest) = clamp_int (int n)"
    using atoi_digits [OF show_nat_nonempty show_nat_digits assms(2)]
    by (simp add: digits_val_show_nat)
  with assms(1) show ?thesis by (simp add: clamp_int_id INT_MIN_def)
qed

lemma atoi_show_int:
  assumes "INT_MIN \<le> i" "i \<le> INT_MAX" "rest = [] \<or> \<not> is_digit (hd rest)"
  shows "atoi (show_int i @ rest) = i"
proof (cases "i < 0")
  case True
  have "atoi (CHR ''-'' # show_nat (nat (- i)) @ rest) = clamp_int (- int (nat (- i)))"
    using takeWhile_digits [OF show_nat_digits assms(3)]
    by (simp add: atoi_def is_space_def digits_val_show_nat)
  with True assms(1) show ?thesis
    by (simp add: show_int_def clamp_int_id INT_MAX_def)
next
  case False
  with assms(2,3) show ?thesis by (simp add: show_int_def atoi_show_nat)
qed

lemma int_of_size_of_int:
  assumes "INT_MIN \<le> i" "i \<le> INT_MAX"
  shows "int_of_size (size_of_int i) = i"
proof -
  have "signed_take_bit 31 i = i"
    using assms by (simp add: signed_take_bit_int_eq_self_iff INT_MIN_def INT_MAX_def)
  then show ?thesis
    by (simp add: int_of_size_def size_of_int_def unsigned_of_int signed_of_int
        signed_take_bit_take_bit)
qed

lemma unat_of_nat_size: "m < 2 ^ 64 \<Longrightarrow> unat (of_nat m :: size_t) = m"
  by (simp add: unat_of_nat)

lemma snprintf_length: "0 < n \<Longrightarrow> length (snprintf n s) < n"
  by (simp add: snprintf_def)

lemma snprintf_fits: "length s < n \<Longrightarrow> snprintf n s = s"
  by (simp add: snprintf_def)

end
