(* ===== verification/Signal_Parse.thy ===== *)
theory Signal_Parse
  imports Cpp_String
begin

text \<open>
  The text handling of \<open>PeerConnectionClient\<close> (src/PjWebrtc/peer_connection_client.cc): header
  values, the status line, peer-list entries and the request lines the client prints.  Out
  parameters are results; an out parameter the code leaves alone on a branch is passed in.
\<close>

section \<open>Parsing\<close>

definition GetHeaderValue_size :: "string \<Rightarrow> nat \<Rightarrow> string \<Rightarrow> size_t option" where
  "GetHeaderValue_size data eoh pattern =
     (case str_find data pattern 0 of
        None \<Rightarrow> None
      | Some found \<Rightarrow>
          if found < eoh
          then Some (size_of_int (atoi (c_str (drop (found + length pattern) data))))
          else None)"

definition GetHeaderValue_string :: "string \<Rightarrow> nat \<Rightarrow> string \<Rightarrow> string option" where
  "GetHeaderValue_string data eoh pattern =
     (case str_find data pattern 0 of
        None \<Rightarrow> None
      | Some found \<Rightarrow>
          if found < eoh
          then let begn = found + length pattern;
                   endd = (case str_find data [CHR 0x0D, CHR 0x0A] begn of None \<Rightarrow> eoh | Some e \<Rightarrow> e)
               in Some (take (if begn \<le> endd then endd - begn else length data) (drop begn data))
          else None)"

definition GetResponseStatus :: "string \<Rightarrow> int" where
  "GetResponseStatus response =
     (case str_find response '' '' 0 of
        None \<Rightarrow> - 1
      | Some pos \<Rightarrow> atoi (c_str (drop (pos + 1) response)))"

definition ParseEntry :: "bool \<Rightarrow> string \<Rightarrow> string \<Rightarrow> int \<Rightarrow> (bool \<times> string \<times> int \<times> bool) res" where
  "ParseEntry dchecks entry name ident =
     bindR (dcheck dchecks (entry \<noteq> []) ()) (\<lambda>_.
       Inr (case str_find entry '','' 0 of
              None \<Rightarrow> (name \<noteq> [], name, ident, False)
            | Some sep \<Rightarrow>
                let ident' = atoi (c_str (drop (sep + 1) entry));
                    name' = take sep entry;
                    connected = (case str_find entry '','' (sep + 1) of
                                   None \<Rightarrow> False
                                 | Some sep' \<Rightarrow> atoi (c_str (drop (sep' + 1) entry)) \<noteq> 0)
                in (name' \<noteq> [], name', ident', connected)))"

section \<open>Printing\<close>

definition CRLF :: string where "CRLF = [CHR 0x0D, CHR 0x0A]"
definition CRLF2 :: string where "CRLF2 = CRLF @ CRLF"

definition kByeMessage :: string where "kByeMessage = ''BYE''"
definition kReconnectDelay :: int where "kReconnectDelay = 2000"

definition sign_in_request :: "string \<Rightarrow> string" where
  "sign_in_request name = snprintf 1024 (''GET /sign_in?'' @ c_str name @ '' HTTP/1.0'' @ CRLF2)"

definition message_headers :: "int \<Rightarrow> int \<Rightarrow> nat \<Rightarrow> string" where
  "message_headers my_id peer_id len =
     snprintf 1024
       (''POST /message?peer_id='' @ show_int my_id @ ''&to='' @ show_int peer_id @ '' HTTP/1.0'' @ CRLF @
        ''Content-Length: '' @ show_nat len @ CRLF @
        ''Content-Type: text/plain'' @ CRLF @ CRLF)"

definition sign_out_request :: "int \<Rightarrow> string" where
  "sign_out_request my_id =
     snprintf 1024 (''GET /sign_out?peer_id='' @ show_int my_id @ '' HTTP/1.0'' @ CRLF2)"

definition wait_request :: "int \<Rightarrow> string" where
  "wait_request my_id =
     snprintf 1024 (''GET /wait?peer_id='' @ show_int my_id @ '' HTTP/1.0'' @ CRLF2)"

end
