(* ===== verification/Client.thy ===== *)
theory Client
  imports Signal_Parse
begin

text \<open>
  \<open>PeerConnectionClient\<close> (src/PjWebrtc/peer_connection_client.cc and .h): the signalling client
  and its two sockets.  The state is the extensible record \<open>client\<close>, so that the window and the
  conductor lay their fields beside it; the observer's callbacks are functions on the whole
  state.  What the sockets, the resolver and the socket address answer during one event is the
  record \<open>net\<close>; a \<open>Close\<close>d socket is \<open>CS_CLOSED\<close>, and what leaves the client is appended to
  \<open>net_log\<close>.
\<close>

section \<open>State\<close>

datatype ConnState = CS_CLOSED | CS_CONNECTING | CS_CONNECTED

datatype State =
  NOT_CONNECTED | RESOLVING | SIGNING_IN | CONNECTED | SIGNING_OUT_WAITING | SIGNING_OUT

datatype sock = Control | Hanging

type_synonym address = "string \<times> int"
type_synonym Peers = "(int \<times> string) list"

datatype net_op = Sent sock string | Posted_retry int

record client =
  callback :: bool
  server_address :: address
  resolver :: bool
  control_socket :: "ConnState option"
  hanging_get :: "ConnState option"
  onconnect_data :: string
  control_data :: string
  notification_data :: string
  client_name :: string
  peers :: Peers
  state :: State
  my_id :: int
  retries :: nat
  net_log :: "net_op list"

text \<open>
  \<open>connect_to k a\<close>: the value \<open>Connect\<close> returns and the state it leaves the socket in;
  \<open>recv_chunks k\<close>: the blocks \<open>Recv\<close> delivers before it returns a value below 1;
  \<open>send_to k d\<close>: what \<open>Send\<close> returns; \<open>resolve_error\<close>, \<open>resolved_address\<close>: the resolver's answer.
\<close>

record net =
  dchecks_on :: bool
  is_unresolved :: "address \<Rightarrow> bool"
  connect_to :: "sock \<Rightarrow> address \<Rightarrow> int \<times> ConnState"
  recv_chunks :: "sock \<Rightarrow> string list"
  send_to :: "sock \<Rightarrow> string \<Rightarrow> int"
  resolve_error :: int
  resolved_address :: address

record 's observer =
  OnSignedIn :: "'s \<Rightarrow> 's res"
  OnDisconnected :: "'s \<Rightarrow> 's res"
  OnPeerConnected :: "int \<Rightarrow> string \<Rightarrow> 's \<Rightarrow> 's res"
  OnPeerDisconnected :: "int \<Rightarrow> 's \<Rightarrow> 's res"
  OnPeerMessage :: "int \<Rightarrow> string \<Rightarrow> 's \<Rightarrow> 's res"
  OnMessageSent :: "int \<Rightarrow> 's \<Rightarrow> 's res"
  OnServerConnectionFailure :: "'s \<Rightarrow> 's res"

definition SOCKET_ERROR :: int where "SOCKET_ERROR = - 1"
definition kDefaultServerPort :: int where "kDefaultServerPort = 8888"
definition WSAECONNREFUSED :: int where "WSAECONNREFUSED = 10061"

definition client_init :: client where
  "client_init =
     \<lparr>callback = False, server_address = ([], 0), resolver = False,
      control_socket = None, hanging_get = None,
      onconnect_data = [], control_data = [], notification_data = [], client_name = [],
      peers = [], state = NOT_CONNECTED, my_id = - 1, retries = 0, net_log = []\<rparr>"

definition client_destroy :: "('a client_scheme) \<Rightarrow> ('a client_scheme)" where
  "client_destroy s = s\<lparr>retries := 0\<rparr>"

definition is_connected :: "('a client_scheme) \<Rightarrow> bool" where
  "is_connected s \<longleftrightarrow> my_id s \<noteq> - 1"

definition RegisterObserver :: "bool \<Rightarrow> ('a client_scheme) \<Rightarrow> ('a client_scheme) res" where
  "RegisterObserver dchecks s =
     bindR (dcheck dchecks (\<not> callback s) s) (\<lambda>s. Inr (s\<lparr>callback := True\<rparr>))"

text \<open>A callback through \<open>callback_\<close>, and a method call through a socket pointer.\<close>

definition notify :: "(('a client_scheme) \<Rightarrow> ('a client_scheme) res) \<Rightarrow>
    ('a client_scheme) \<Rightarrow> ('a client_scheme) res" where
  "notify f s = (if callback s then f s else Inl Null_deref)"

definition get_sock :: "sock \<Rightarrow> ('a client_scheme) \<Rightarrow> ConnState option" where
  "get_sock k s = (case k of Control \<Rightarrow> control_socket s | Hanging \<Rightarrow> hanging_get s)"

definition put_sock :: "sock \<Rightarrow> ConnState \<Rightarrow> ('a client_scheme) \<Rightarrow> ('a client_scheme)" where
  "put_sock k c s =
     (case k of Control \<Rightarrow> s\<lparr>control_socket := Some c\<rparr> | Hanging \<Rightarrow> s\<lparr>hanging_get := Some c\<rparr>)"

definition sock_GetState :: "sock \<Rightarrow> ('a client_scheme) \<Rightarrow> ConnState res" where
  "sock_GetState k s = (case get_sock k s of None \<Rightarrow> Inl Null_deref | Some c \<Rightarrow> Inr c)"

definition sock_Close :: "sock \<Rightarrow> ('a client_scheme) \<Rightarrow> ('a client_scheme) res" where
  "sock_Close k s = bindR (sock_GetState k s) (\<lambda>_. Inr (put_sock k CS_CLOSED s))"

definition sock_Connect :: "net \<Rightarrow> sock \<Rightarrow> ('a client_scheme) \<Rightarrow> (int \<times> ('a client_scheme)) res" where
  "sock_Connect E k s =
     bindR (sock_GetState k s) (\<lambda>_.
       let (err, c) = connect_to E k (server_address s) in Inr (err, put_sock k c s))"

definition buf_of :: "sock \<Rightarrow> ('a client_scheme) \<Rightarrow> string" where
  "buf_of k s = (case k of Control \<Rightarrow> control_data s | Hanging \<Rightarrow> notification_data s)"

definition put_buf :: "sock \<Rightarrow> string \<Rightarrow> ('a client_scheme) \<Rightarrow> ('a client_scheme)" where
  "put_buf k d s = (case k of Control \<Rightarrow> s\<lparr>control_data := d\<rparr> | Hanging \<Rightarrow> s\<lparr>notification_data := d\<rparr>)"

section \<open>Connecting and signing out\<close>

definition Close :: "('a client_scheme) \<Rightarrow> ('a client_scheme) res" where
  "Close s =
     bindR (sock_Close Control s) (\<lambda>s.
     bindR (sock_Close Hanging s) (\<lambda>s.
       Inr (s\<lparr>onconnect_data := [], peers := [], resolver := False,
              my_id := - 1, state := NOT_CONNECTED\<rparr>)))"

definition ConnectControlSocket :: "net \<Rightarrow> ('a client_scheme) \<Rightarrow> (bool \<times> ('a client_scheme)) res" where
  "ConnectControlSocket E s =
     bindR (sock_GetState Control s) (\<lambda>c.
     bindR (dcheck (dchecks_on E) (c = CS_CLOSED) s) (\<lambda>s.
     bindR (sock_Connect E Control s) (\<lambda>(err, s).
       if err = SOCKET_ERROR then bindR (Close s) (\<lambda>s. Inr (False, s))
       else Inr (True, s))))"

definition InitSocketSignals :: "net \<Rightarrow> ('a client_scheme) \<Rightarrow> ('a client_scheme) res" where
  "InitSocketSignals E s =
     bindR (dcheck (dchecks_on E) (control_socket s \<noteq> None) s) (\<lambda>s.
     bindR (dcheck (dchecks_on E) (hanging_get s \<noteq> None) s) (\<lambda>s.
       if control_socket s = None \<or> hanging_get s = None then Inl Null_deref else Inr s))"

definition DoConnect :: "net \<Rightarrow> ('a client_scheme) observer \<Rightarrow> ('a client_scheme) \<Rightarrow> ('a client_scheme) res" where
  "DoConnect E obs s =
     bindR (InitSocketSignals E
              (s\<lparr>control_socket := Some CS_CLOSED, hanging_get := Some CS_CLOSED\<rparr>)) (\<lambda>s.
     let s = s\<lparr>onconnect_data := sign_in_request (client_name s)\<rparr>
     in bindR (ConnectControlSocket E s) (\<lambda>(ret, s).
          if ret then Inr (s\<lparr>state := SIGNING_IN\<rparr>)
          else notify (OnServerConnectionFailure obs) s))"

definition SetPort :: "net \<Rightarrow> int \<Rightarrow> ('a client_scheme) \<Rightarrow> ('a client_scheme) res" where
  "SetPort E port s =
     bindR (dcheck (dchecks_on E) (0 \<le> port \<and> port < 65536) s) (\<lambda>s.
       Inr (s\<lparr>server_address := (fst (server_address s), port mod 65536)\<rparr>))"

definition Connect :: "net \<Rightarrow> ('a client_scheme) observer \<Rightarrow> string \<Rightarrow> int \<Rightarrow> string \<Rightarrow>
    ('a client_scheme) \<Rightarrow> ('a client_scheme) res" where
  "Connect E obs server port name s =
     bindR (dcheck (dchecks_on E) (server \<noteq> []) s) (\<lambda>s.
     bindR (dcheck (dchecks_on E) (name \<noteq> []) s) (\<lambda>s.
       if state s \<noteq> NOT_CONNECTED then notify (OnServerConnectionFailure obs) s
       else if server = [] \<or> name = [] then notify (OnServerConnectionFailure obs) s
       else
         let port = (if port \<le> 0 then kDefaultServerPort else port)
         in bindR (SetPort E port (s\<lparr>server_address := (server, snd (server_address s))\<rparr>)) (\<lambda>s.
            let s = s\<lparr>client_name := name\<rparr>
            in if is_unresolved E (server_address s)
               then Inr (s\<lparr>state := RESOLVING, resolver := True\<rparr>)
               else DoConnect E obs s)))"

definition OnResolveResult :: "net \<Rightarrow> ('a client_scheme) observer \<Rightarrow> ('a client_scheme) \<Rightarrow> ('a client_scheme) res" where
  "OnResolveResult E obs s =
     (if \<not> resolver s then Inl Null_deref
      else if resolve_error E \<noteq> 0 then
        bindR (notify (OnServerConnectionFailure obs) s) (\<lambda>s.
          if resolver s then Inr (s\<lparr>resolver := False, state := NOT_CONNECTED\<rparr>) else Inl Null_deref)
      else DoConnect E obs (s\<lparr>server_address := resolved_address E\<rparr>))"

definition SendToPeer :: "net \<Rightarrow> int \<Rightarrow> string \<Rightarrow> ('a client_scheme) \<Rightarrow> (bool \<times> ('a client_scheme)) res" where
  "SendToPeer E peer_id message s =
     (if state s \<noteq> CONNECTED then Inr (False, s)
      else
        bindR (dcheck (dchecks_on E) (is_connected s) s) (\<lambda>s.
        bindR (if dchecks_on E then bindR (sock_GetState Control s) (\<lambda>c. dcheck True (c = CS_CLOSED) s)
               else Inr s) (\<lambda>s.
          if \<not> is_connected s \<or> peer_id = - 1 then Inr (False, s)
          else ConnectControlSocket E
                 (s\<lparr>onconnect_data := message_headers (my_id s) peer_id (length message) @ message\<rparr>))))"

definition SendHangUp :: "net \<Rightarrow> int \<Rightarrow> ('a client_scheme) \<Rightarrow> (bool \<times> ('a client_scheme)) res" where
  "SendHangUp E peer_id s = SendToPeer E peer_id kByeMessage s"

definition IsSendingMessage :: "('a client_scheme) \<Rightarrow> bool res" where
  "IsSendingMessage s =
     (if state s = CONNECTED then bindR (sock_GetState Control s) (\<lambda>c. Inr (c \<noteq> CS_CLOSED))
      else Inr False)"

definition SignOut :: "net \<Rightarrow> ('a client_scheme) \<Rightarrow> (bool \<times> ('a client_scheme)) res" where
  "SignOut E s =
     (if state s = NOT_CONNECTED \<or> state s = SIGNING_OUT then Inr (True, s)
      else
        bindR (sock_GetState Hanging s) (\<lambda>h.
        bindR (if h \<noteq> CS_CLOSED then sock_Close Hanging s else Inr s) (\<lambda>s.
        bindR (sock_GetState Control s) (\<lambda>c.
          if c = CS_CLOSED then
            let s = s\<lparr>state := SIGNING_OUT\<rparr>
            in if my_id s \<noteq> - 1
               then ConnectControlSocket E (s\<lparr>onconnect_data := sign_out_request (my_id s)\<rparr>)
               else Inr (True, s)
          else Inr (True, s\<lparr>state := SIGNING_OUT_WAITING\<rparr>)))))"

end
