(* ===== verification/Client_Handlers.thy ===== *)
theory Client_Handlers
  imports Client
begin

text \<open>
  The socket and timer handlers of \<open>PeerConnectionClient\<close>.  Each takes the answers \<open>E\<close> of the
  network during the event and the observer \<open>obs\<close>, and runs the observer's callbacks where the
  code does, on the whole state.
\<close>

section \<open>Socket events\<close>

definition OnConnect :: "net \<Rightarrow> sock \<Rightarrow> ('a client_scheme) \<Rightarrow> ('a client_scheme) res" where
  "OnConnect E k s =
     bindR (dcheck (dchecks_on E) (onconnect_data s \<noteq> []) s) (\<lambda>s.
     let sent = size_of_int (send_to E k (onconnect_data s));
         data = onconnect_data s;
         s = s\<lparr>net_log := net_log s @ [Sent k data]\<rparr>
     in bindR (dcheck (dchecks_on E) (sent = of_nat (length data)) s) (\<lambda>s.
          Inr (s\<lparr>onconnect_data := []\<rparr>)))"

definition OnHangingGetConnect :: "net \<Rightarrow> sock \<Rightarrow> ('a client_scheme) \<Rightarrow> ('a client_scheme) res" where
  "OnHangingGetConnect E k s =
     (let buffer = wait_request (my_id s);
          sent = send_to E k buffer
      in dcheck (dchecks_on E) (sent = int (length buffer))
           (s\<lparr>net_log := net_log s @ [Sent k buffer]\<rparr>))"

definition OnClose :: "net \<Rightarrow> ('a client_scheme) observer \<Rightarrow> sock \<Rightarrow> int \<Rightarrow>
    ('a client_scheme) \<Rightarrow> ('a client_scheme) res" where
  "OnClose E obs k err s =
     bindR (sock_Close k s) (\<lambda>s.
       if err \<noteq> WSAECONNREFUSED then
         (if k = Hanging then
            (if state s = CONNECTED then
               bindR (sock_Close Hanging s) (\<lambda>s.
               bindR (sock_Connect E Hanging s) (\<lambda>(_, s). Inr s))
             else Inr s)
          else notify (OnMessageSent obs err) s)
       else if k = Control then
         Inr (s\<lparr>retries := Suc (retries s), net_log := net_log s @ [Posted_retry kReconnectDelay]\<rparr>)
       else bindR (Close s) (notify (OnDisconnected obs)))"

definition OnMessage :: "net \<Rightarrow> ('a client_scheme) observer \<Rightarrow> ('a client_scheme) \<Rightarrow> ('a client_scheme) res" where
  "OnMessage E obs s = DoConnect E obs s"

section \<open>Reading a response\<close>

fun recv_loop :: "string list \<Rightarrow> string \<Rightarrow> string" where
  "recv_loop [] data = data"
| "recv_loop (chunk # chunks) data =
     (if chunk = [] then data else recv_loop chunks (data @ chunk))"

definition ReadIntoBuffer :: "net \<Rightarrow> ('a client_scheme) observer \<Rightarrow> sock \<Rightarrow> size_t \<Rightarrow>
    ('a client_scheme) \<Rightarrow> (bool \<times> size_t \<times> ('a client_scheme)) res" where
  "ReadIntoBuffer E obs k content_length s =
     (let data = recv_loop (recv_chunks E k) (buf_of k s);
          s = put_buf k data s
      in case str_find data CRLF2 0 of
           None \<Rightarrow> Inr (False, content_length, s)
         | Some i \<Rightarrow>
             (case GetHeaderValue_size data i (CRLF @ ''Content-Length: '') of
                None \<Rightarrow> Inr (False, content_length, s)
              | Some content_length \<Rightarrow>
                  let total_response_size = of_nat (i + 4) + content_length
                  in if of_nat (length data) \<ge> total_response_size then
                       (if GetHeaderValue_string data i (CRLF @ ''Connection: '') = Some ''close'' then
                          bindR (sock_Close k s) (\<lambda>s.
                          bindR (OnClose E obs k 0 s) (\<lambda>s. Inr (True, content_length, s)))
                        else Inr (True, content_length, s))
                     else Inr (False, content_length, s)))"

definition ParseServerResponse :: "net \<Rightarrow> ('a client_scheme) observer \<Rightarrow> string \<Rightarrow>
    ('a client_scheme) \<Rightarrow> ((size_t \<times> nat) option \<times> ('a client_scheme)) res" where
  "ParseServerResponse E obs response s =
     (if GetResponseStatus (c_str response) \<noteq> 200 then
        bindR (Close s) (\<lambda>s.
        bindR (notify (OnDisconnected obs) s) (\<lambda>s. Inr (None, s)))
      else
        (case str_find response CRLF2 0 of
           None \<Rightarrow> bindR (dcheck (dchecks_on E) False s) (\<lambda>s. Inr (None, s))
         | Some eoh \<Rightarrow>
             Inr (Some ((case GetHeaderValue_size response eoh (CRLF @ ''Pragma: '') of
                           None \<Rightarrow> size_of_int (- 1)
                         | Some peer_id \<Rightarrow> peer_id), eoh), s)))"

section \<open>The control socket\<close>

text \<open>
  The loop over the peer list of the first response.  \<open>data\<close> is \<open>control_data_\<close>, which no
  callback touches while the loop runs.
\<close>

definition add_peer :: "net \<Rightarrow> ('a client_scheme) observer \<Rightarrow> string \<Rightarrow> ('a client_scheme) \<Rightarrow> ('a client_scheme) res" where
  "add_peer E obs entry s =
     bindR (ParseEntry (dchecks_on E) entry [] 0) (\<lambda>(ok, name, ident, connected).
       if ok \<and> ident \<noteq> my_id s then
         notify (OnPeerConnected obs ident name) (s\<lparr>peers := smap_put ident name (peers s)\<rparr>)
       else Inr s)"

function read_peers :: "net \<Rightarrow> ('a client_scheme) observer \<Rightarrow> string \<Rightarrow> nat \<Rightarrow>
    ('a client_scheme) \<Rightarrow> ('a client_scheme) res" where
  "read_peers E obs data pos s =
     (if pos < length data then
        (case str_find data [CHR 0x0A] pos of
           None \<Rightarrow> Inr s
         | Some eol \<Rightarrow>
             bindR (add_peer E obs (take (eol - pos) (drop pos data)) s) (\<lambda>s.
               read_peers E obs data (eol + 1) s))
      else Inr s)"
  by pat_completeness auto
termination
  by (relation "measure (\<lambda>(E, obs, data, pos, s). length data - pos)")
    (auto dest!: str_find_bounds)

declare read_peers.simps [simp del]

definition accept_sign_in :: "net \<Rightarrow> ('a client_scheme) observer \<Rightarrow> size_t \<Rightarrow> size_t \<Rightarrow> nat \<Rightarrow>
    ('a client_scheme) \<Rightarrow> ('a client_scheme) res" where
  "accept_sign_in E obs content_length peer_id eoh s =
     bindR (dcheck (dchecks_on E) (state s = SIGNING_IN) s) (\<lambda>s.
     let s = s\<lparr>my_id := int_of_size peer_id\<rparr>
     in bindR (dcheck (dchecks_on E) (my_id s \<noteq> - 1) s) (\<lambda>s.
        bindR (if content_length \<noteq> 0 then read_peers E obs (control_data s) (eoh + 4) s
               else Inr s) (\<lambda>s.
        bindR (dcheck (dchecks_on E) (is_connected s) s)
          (notify (OnSignedIn obs)))))"

definition read_control_response :: "net \<Rightarrow> ('a client_scheme) observer \<Rightarrow> size_t \<Rightarrow> size_t \<Rightarrow> nat \<Rightarrow>
    ('a client_scheme) \<Rightarrow> ('a client_scheme) res" where
  "read_control_response E obs content_length peer_id eoh s =
     (if my_id s = - 1 then accept_sign_in E obs content_length peer_id eoh s
      else if state s = SIGNING_OUT then bindR (Close s) (notify (OnDisconnected obs))
      else if state s = SIGNING_OUT_WAITING then bindR (SignOut E s) (\<lambda>(_, s). Inr s)
      else Inr s)"

definition open_hanging_get :: "net \<Rightarrow> ('a client_scheme) \<Rightarrow> ('a client_scheme) res" where
  "open_hanging_get E s =
     (if state s = SIGNING_IN then
        bindR (if dchecks_on E
               then bindR (sock_GetState Hanging s) (\<lambda>c. dcheck True (c = CS_CLOSED) s)
               else Inr s) (\<lambda>s.
        bindR (sock_Connect E Hanging (s\<lparr>state := CONNECTED\<rparr>)) (\<lambda>(_, s). Inr s))
      else Inr s)"

definition OnRead :: "net \<Rightarrow> ('a client_scheme) observer \<Rightarrow> ('a client_scheme) \<Rightarrow> ('a client_scheme) res" where
  "OnRead E obs s =
     bindR (ReadIntoBuffer E obs Control 0 s) (\<lambda>(complete, content_length, s).
       if complete then
         bindR (ParseServerResponse E obs (control_data s) s) (\<lambda>(ok, s).
         bindR (case ok of
                  None \<Rightarrow> Inr s
                | Some (peer_id, eoh) \<Rightarrow> read_control_response E obs content_length peer_id eoh s) (\<lambda>s.
           open_hanging_get E (s\<lparr>control_data := []\<rparr>)))
       else Inr s)"

section \<open>The hanging get\<close>

definition OnMessageFromPeer :: "('a client_scheme) observer \<Rightarrow> int \<Rightarrow> string \<Rightarrow>
    ('a client_scheme) \<Rightarrow> ('a client_scheme) res" where
  "OnMessageFromPeer obs peer_id message s =
     (if length message = length kByeMessage \<and> message = kByeMessage
      then notify (OnPeerDisconnected obs peer_id) s
      else notify (OnPeerMessage obs peer_id message) s)"

definition read_notification :: "net \<Rightarrow> ('a client_scheme) observer \<Rightarrow> size_t \<Rightarrow> nat \<Rightarrow>
    ('a client_scheme) \<Rightarrow> ('a client_scheme) res" where
  "read_notification E obs peer_id eoh s =
     bindR (str_substr_from (notification_data s) (eoh + 4)) (\<lambda>body.
       if my_id s = int_of_size peer_id then
         bindR (ParseEntry (dchecks_on E) body [] 0) (\<lambda>(ok, name, ident, connected).
           if ok then
             (if connected then
                notify (OnPeerConnected obs ident name) (s\<lparr>peers := smap_put ident name (peers s)\<rparr>)
              else notify (OnPeerDisconnected obs ident) (s\<lparr>peers := smap_erase ident (peers s)\<rparr>))
           else Inr s)
       else OnMessageFromPeer obs (int_of_size peer_id) body s)"

definition OnHangingGetRead :: "net \<Rightarrow> ('a client_scheme) observer \<Rightarrow> ('a client_scheme) \<Rightarrow> ('a client_scheme) res" where
  "OnHangingGetRead E obs s =
     bindR (ReadIntoBuffer E obs Hanging 0 s) (\<lambda>(complete, content_length, s).
     bindR (if complete then
              bindR (ParseServerResponse E obs (notification_data s) s) (\<lambda>(ok, s).
              bindR (case ok of
                       None \<Rightarrow> Inr s
                     | Some (peer_id, eoh) \<Rightarrow> read_notification E obs peer_id eoh s) (\<lambda>s.
                Inr (s\<lparr>notification_data := []\<rparr>)))
            else Inr s) (\<lambda>s.
     bindR (sock_GetState Hanging s) (\<lambda>c.
       if c = CS_CLOSED \<and> state s = CONNECTED
       then bindR (sock_Connect E Hanging s) (\<lambda>(_, s). Inr s)
       else Inr s)))"

end
