(* ===== verification/Client_Inv.thy ===== *)
theory Client_Inv
  imports Client_Handlers
begin

text \<open>
  The well-formedness invariant of the signalling client, and its preservation by every
  operation and handler under any observer that keeps the contract \<open>client_observer\<close>: the
  callbacks leave the client alone, but for the message callback, which may sign out.
\<close>

section \<open>Invariant\<close>

definition has_sockets :: "('a client_scheme) \<Rightarrow> bool" where
  "has_sockets s \<longleftrightarrow> control_socket s \<noteq> None \<and> hanging_get s \<noteq> None"

text \<open>
  Both sockets exist or neither; they exist in every state past the resolver; a control socket
  that is being connected has its request ready; the peer map is ordered; and in a build with
  checks a client in state \<open>CONNECTED\<close> has an id.  \<open>Q\<close> is whatever the rest of the process keeps
  about the fields laid beside the client's.
\<close>

definition client_inv :: "('a \<Rightarrow> bool) \<Rightarrow> bool \<Rightarrow> ('a client_scheme) \<Rightarrow> bool" where
  "client_inv Q d s \<longleftrightarrow>
     callback s \<and>
     (control_socket s = None \<longleftrightarrow> hanging_get s = None) \<and>
     (state s \<notin> {NOT_CONNECTED, RESOLVING} \<longrightarrow> has_sockets s) \<and>
     (state s = RESOLVING \<longrightarrow> resolver s) \<and>
     (control_socket s = Some CS_CONNECTING \<longrightarrow> onconnect_data s \<noteq> []) \<and>
     smap_ok (peers s) \<and>
     (d \<and> state s = CONNECTED \<longrightarrow> my_id s \<noteq> - 1) \<and>
     Q (client.more s)"

definition client_same :: "('a client_scheme) \<Rightarrow> ('a client_scheme) \<Rightarrow> bool" where
  "client_same s t \<longleftrightarrow> client.truncate s = client.truncate t"

lemmas client_same_iff = client_same_def client.truncate_def

lemma client_same_refl [simp]: "client_same s s"
  by (simp add: client_same_def)

lemma client_same_sym: "client_same s t \<Longrightarrow> client_same t s"
  by (simp add: client_same_def)

lemma client_same_trans: "client_same s t \<Longrightarrow> client_same t u \<Longrightarrow> client_same s u"
  by (simp add: client_same_def)

lemma client_same_more [simp]: "client_same s (s\<lparr>client.more := m\<rparr>)"
  by (simp add: client_same_iff)

lemma client_same_inv: "client_same s t \<Longrightarrow> Q (client.more t) \<Longrightarrow> client_inv Q d s \<Longrightarrow> client_inv Q d t"
  by (simp add: client_same_iff client_inv_def has_sockets_def)

lemma client_same_fields:
  "client_same s t \<Longrightarrow> state t = state s"
  "client_same s t \<Longrightarrow> my_id t = my_id s"
  "client_same s t \<Longrightarrow> peers t = peers s"
  "client_same s t \<Longrightarrow> callback t = callback s"
  "client_same s t \<Longrightarrow> control_socket t = control_socket s"
  "client_same s t \<Longrightarrow> hanging_get t = hanging_get s"
  "client_same s t \<Longrightarrow> net_log t = net_log s"
  by (simp_all add: client_same_iff)

named_theorems sock_defs "the socket and buffer accessors"

declare sock_GetState_def [sock_defs] get_sock_def [sock_defs] put_sock_def [sock_defs]
  sock_Close_def [sock_defs] sock_Connect_def [sock_defs] buf_of_def [sock_defs]
  put_buf_def [sock_defs]

section \<open>Operations that run no callback\<close>

lemma Close_inv: "client_inv Q d s \<Longrightarrow> resP (client_inv Q d) (Close s)"
  by (simp add: Close_def sock_defs res_simps client_inv_def has_sockets_def split: option.splits)

lemma Close_result:
  "Close s = Inr t \<Longrightarrow>
     state t = NOT_CONNECTED \<and> my_id t = - 1 \<and> peers t = [] \<and> onconnect_data t = [] \<and>
     \<not> resolver t \<and> control_socket t = Some CS_CLOSED \<and> hanging_get t = Some CS_CLOSED \<and>
     callback t = callback s \<and> net_log t = net_log s"
  by (auto simp: Close_def sock_defs bindR_eq_Inr split: option.splits)

lemma Close_total: "has_sockets s \<Longrightarrow> \<exists>t. Close s = Inr t"
  by (auto simp: Close_def sock_defs has_sockets_def)

lemma ConnectControlSocket_eq:
  "control_socket s = Some c \<Longrightarrow> hanging_get s = Some h \<Longrightarrow>
   ConnectControlSocket E s =
     (if dchecks_on E \<and> c \<noteq> CS_CLOSED then Inl Check_failed
      else let (err, c') = connect_to E Control (server_address s)
           in if err = SOCKET_ERROR
              then Inr (False, s\<lparr>control_socket := Some CS_CLOSED, hanging_get := Some CS_CLOSED,
                                 onconnect_data := [], peers := [], resolver := False,
                                 my_id := - 1, state := NOT_CONNECTED\<rparr>)
              else Inr (True, s\<lparr>control_socket := Some c'\<rparr>))"
  by (simp add: ConnectControlSocket_def Close_def sock_defs dcheck_def Let_def split: prod.splits)

lemma ConnectControlSocket_null: "control_socket s = None \<Longrightarrow> ConnectControlSocket E s = Inl Null_deref"
  by (simp add: ConnectControlSocket_def sock_defs)

lemma ConnectControlSocket_inv:
  assumes "client_inv Q d s" "onconnect_data s \<noteq> []"
  shows "resP (\<lambda>(b, s'). client_inv Q d s' \<and> has_sockets s' \<and>
      (b \<longrightarrow> state s' = state s \<and> my_id s' = my_id s) \<and>
      (\<not> b \<longrightarrow> state s' = NOT_CONNECTED)) (ConnectControlSocket E s)"
proof (cases "control_socket s")
  case None
  then show ?thesis by (simp add: ConnectControlSocket_null)
next
  case (Some c)
  with assms(1) obtain h where "hanging_get s = Some h"
    by (auto simp: client_inv_def)
  with Some assms show ?thesis
    by (simp add: ConnectControlSocket_eq Let_def client_inv_def has_sockets_def split: prod.splits)
qed

lemma sign_out_request_nonempty: "sign_out_request i \<noteq> []"
  by (simp add: sign_out_request_def snprintf_def)

lemma sign_in_request_nonempty: "sign_in_request n \<noteq> []"
  by (simp add: sign_in_request_def snprintf_def)

lemma message_headers_nonempty: "message_headers i j n \<noteq> []"
  by (simp add: message_headers_def snprintf_def)

lemma ConnectControlSocket_inv1:
  "client_inv Q d s \<Longrightarrow> onconnect_data s \<noteq> [] \<Longrightarrow>
     resP (\<lambda>(b, s'). client_inv Q d s') (ConnectControlSocket E s)"
  by (rule resP_mono [OF ConnectControlSocket_inv]) auto

text \<open>Updates the invariant allows.\<close>

lemma client_inv_onconnect:
  "client_inv Q d s \<Longrightarrow> x \<noteq> [] \<Longrightarrow> client_inv Q d (s\<lparr>onconnect_data := x\<rparr>)"
  by (simp add: client_inv_def has_sockets_def)

lemma client_inv_signing_out:
  "client_inv Q d s \<Longrightarrow> has_sockets s \<Longrightarrow> x \<in> {SIGNING_IN, SIGNING_OUT, SIGNING_OUT_WAITING} \<Longrightarrow>
     client_inv Q d (s\<lparr>state := x\<rparr>)"
  by (auto simp: client_inv_def has_sockets_def)

lemma client_inv_close_sock: "client_inv Q d s \<Longrightarrow> resP (client_inv Q d) (sock_Close k s)"
  by (cases k) (auto simp: sock_defs client_inv_def has_sockets_def split: option.splits)

lemma client_inv_hanging_connect:
  "client_inv Q d s \<Longrightarrow> resP (\<lambda>(e, s'). client_inv Q d s') (sock_Connect E Hanging s)"
  by (auto simp: sock_defs client_inv_def has_sockets_def split: option.splits prod.splits)

lemma SendToPeer_inv:
  assumes "client_inv Q d s"
  shows "resP (\<lambda>(b, s'). client_inv Q d s') (SendToPeer E p m s)"
proof -
  have "resP (\<lambda>(b, s'). client_inv Q d s') (ConnectControlSocket E
      (s\<lparr>onconnect_data := message_headers (my_id s) p (length m) @ m\<rparr>))"
    by (rule ConnectControlSocket_inv1)
      (simp_all add: client_inv_onconnect assms message_headers_nonempty)
  with assms show ?thesis
    by (simp add: SendToPeer_def res_simps sock_defs split: option.splits)
qed

lemma SignOut_inv:
  assumes "client_inv Q d s"
  shows "resP (\<lambda>(b, s'). client_inv Q d s') (SignOut E s)"
proof (cases "has_sockets s")
  case False
  with assms show ?thesis
    by (auto simp: SignOut_def sock_defs has_sockets_def client_inv_def)
next
  case True
  then obtain c h where ch: "control_socket s = Some c" "hanging_get s = Some h"
    by (auto simp: has_sockets_def)
  let ?t = "s\<lparr>hanging_get := Some CS_CLOSED\<rparr>"
  have t: "client_inv Q d ?t" "has_sockets ?t"
    using assms True by (simp_all add: client_inv_def has_sockets_def)
  have conn: "resP (\<lambda>(b, s'). client_inv Q d s') (ConnectControlSocket E
      (u\<lparr>state := SIGNING_OUT, onconnect_data := sign_out_request i\<rparr>))"
    if "client_inv Q d u" "has_sockets u" for u :: "'a client_scheme" and i
    by (rule ConnectControlSocket_inv1)
      (simp_all add: client_inv_onconnect client_inv_signing_out that sign_out_request_nonempty)
  show ?thesis
    using assms True t conn [OF assms True] conn [OF t]
    by (simp add: SignOut_def sock_defs ch Let_def client_inv_signing_out)
qed

section \<open>The observer's contract\<close>

definition quiet :: "('a \<Rightarrow> bool) \<Rightarrow> ('a client_scheme) \<Rightarrow> ('a client_scheme) \<Rightarrow> bool" where
  "quiet Q s t \<longleftrightarrow> client_same s t \<and> Q (client.more t)"

locale client_observer =
  fixes obs :: "('a client_scheme) observer"
    and Q :: "'a \<Rightarrow> bool"
  assumes signed_in: "Q (client.more s) \<Longrightarrow> resP (quiet Q s) (OnSignedIn obs s)"
    and disconnected: "Q (client.more s) \<Longrightarrow> resP (quiet Q s) (OnDisconnected obs s)"
    and peer_connected: "Q (client.more s) \<Longrightarrow> resP (quiet Q s) (OnPeerConnected obs i n s)"
    and peer_disconnected: "Q (client.more s) \<Longrightarrow> resP (quiet Q s) (OnPeerDisconnected obs i s)"
    and message_sent: "Q (client.more s) \<Longrightarrow> resP (quiet Q s) (OnMessageSent obs e s)"
    and failure: "Q (client.more s) \<Longrightarrow> resP (quiet Q s) (OnServerConnectionFailure obs s)"
    and message_inv: "client_inv Q d s \<Longrightarrow> resP (client_inv Q d) (OnPeerMessage obs i m s)"
begin

lemma inv_more: "client_inv Q d s \<Longrightarrow> Q (client.more s)"
  by (simp add: client_inv_def)

lemma notify_quiet: "resP (quiet Q s) (f s) \<Longrightarrow> resP (quiet Q s) (notify f s)"
  by (simp add: notify_def)

lemma notify_quiet_inv:
  "resP (quiet Q s) (f s) \<Longrightarrow> client_inv Q d s \<Longrightarrow> resP (client_inv Q d) (notify f s)"
  by (rule resP_mono [OF notify_quiet]) (auto simp: quiet_def intro: client_same_inv)

lemma quiet_inv:
  assumes "client_inv Q d s"
  shows "resP (client_inv Q d) (notify (OnSignedIn obs) s)"
    and "resP (client_inv Q d) (notify (OnDisconnected obs) s)"
    and "resP (client_inv Q d) (notify (OnPeerConnected obs i n) s)"
    and "resP (client_inv Q d) (notify (OnPeerDisconnected obs i) s)"
    and "resP (client_inv Q d) (notify (OnMessageSent obs e) s)"
    and "resP (client_inv Q d) (notify (OnServerConnectionFailure obs) s)"
  using inv_more [OF assms] assms
  by (auto intro!: notify_quiet_inv intro: signed_in disconnected peer_connected peer_disconnected
      message_sent failure)

lemma notify_message_inv: "client_inv Q d s \<Longrightarrow> resP (client_inv Q d) (notify (OnPeerMessage obs i m) s)"
  by (simp add: notify_def message_inv)

lemma DoConnect_inv:
  assumes "client_inv Q d s"
  shows "resP (client_inv Q d) (DoConnect E obs s)"
proof -
  let ?s = "s\<lparr>control_socket := Some CS_CLOSED, hanging_get := Some CS_CLOSED,
      onconnect_data := sign_in_request (client_name s)\<rparr>"
  have inv: "client_inv Q d ?s"
    using assms by (simp add: client_inv_def has_sockets_def)
  have "resP (client_inv Q d)
      (bindR (ConnectControlSocket E ?s)
        (\<lambda>(ret, s). if ret then Inr (s\<lparr>state := SIGNING_IN\<rparr>)
           else notify (OnServerConnectionFailure obs) s))"
    unfolding resP_bindR
    by (rule resP_mono [OF ConnectControlSocket_inv [OF inv]])
      (auto simp: sign_in_request_nonempty client_inv_signing_out quiet_inv)
  then show ?thesis
    by (simp add: DoConnect_def InitSocketSignals_def)
qed

lemma Connect_inv:
  assumes "client_inv Q d s"
  shows "resP (client_inv Q d) (Connect E obs server port name s)"
proof -
  have addr: "client_inv Q d (s\<lparr>server_address := a, client_name := n\<rparr>)" for a n
    using assms by (simp add: client_inv_def has_sockets_def)
  have res: "client_inv Q d (s\<lparr>server_address := a, client_name := n, state := RESOLVING, resolver := True\<rparr>)"
    for a n
    using assms by (simp add: client_inv_def has_sockets_def)
  show ?thesis
    using assms addr res DoConnect_inv
    by (simp add: Connect_def SetPort_def res_simps Let_def quiet_inv)
qed

lemma OnResolveResult_inv:
  assumes "client_inv Q d s"
  shows "resP (client_inv Q d) (OnResolveResult E obs s)"
proof -
  have fin: "client_inv Q d (t\<lparr>resolver := False, state := NOT_CONNECTED\<rparr>)"
    if "client_inv Q d t" for t :: "'a client_scheme"
    using that by (simp add: client_inv_def has_sockets_def)
  have "client_inv Q d (s\<lparr>server_address := a\<rparr>)" for a
    using assms by (simp add: client_inv_def has_sockets_def)
  moreover have "resP (client_inv Q d)
      (bindR (notify (OnServerConnectionFailure obs) s)
        (\<lambda>s. if resolver s then Inr (s\<lparr>resolver := False, state := NOT_CONNECTED\<rparr>) else Inl Null_deref))"
    by (rule resP_bindI [where P = "client_inv Q d"]) (simp_all add: quiet_inv assms fin)
  ultimately show ?thesis
    by (simp add: OnResolveResult_def DoConnect_inv)
qed

lemma OnConnect_inv:
  "client_inv Q d s \<Longrightarrow> control_socket s = Some CS_CONNECTED \<Longrightarrow>
     resP (client_inv Q d) (OnConnect E Control s)"
  by (simp add: OnConnect_def res_simps Let_def client_inv_def has_sockets_def)

lemma OnHangingGetConnect_inv: "client_inv Q d s \<Longrightarrow> resP (client_inv Q d) (OnHangingGetConnect E k s)"
  by (simp add: OnHangingGetConnect_def Let_def client_inv_def has_sockets_def)

lemma OnClose_inv:
  assumes "client_inv Q d s"
  shows "resP (client_inv Q d) (OnClose E obs k err s)"
proof -
  have reopen: "resP (client_inv Q d)
      (bindR (sock_Close Hanging t) (\<lambda>s. bindR (sock_Connect E Hanging s) (\<lambda>(_, s). Inr s)))"
    if "client_inv Q d t" for t :: "'a client_scheme"
    by (rule resP_bindI [OF client_inv_close_sock [OF that]], rule resP_bindI [OF client_inv_hanging_connect])
      (auto)
  have post: "client_inv Q d (t\<lparr>retries := n, net_log := l\<rparr>)"
    if "client_inv Q d t" for t :: "'a client_scheme" and n l
    using that by (simp add: client_inv_def has_sockets_def)
  have "resP (client_inv Q d) (bindR (Close t) (notify (OnDisconnected obs)))"
    if "client_inv Q d t" for t :: "'a client_scheme"
    by (rule resP_bindI [OF Close_inv [OF that]]) (simp add: quiet_inv)
  with reopen post show ?thesis
    unfolding OnClose_def
    by (intro resP_bindI [OF client_inv_close_sock [OF assms]])
      (simp add: quiet_inv)
qed

lemma put_buf_inv: "client_inv Q d s \<Longrightarrow> client_inv Q d (put_buf k x s)"
  by (cases k) (simp_all add: put_buf_def client_inv_def has_sockets_def)

lemma ReadIntoBuffer_inv:
  assumes "client_inv Q d s"
  shows "resP (\<lambda>(c, l, s'). client_inv Q d s') (ReadIntoBuffer E obs k l0 s)"
proof -
  have close: "resP (\<lambda>(c, l, s'). client_inv Q d s')
      (bindR (sock_Close k t) (\<lambda>s. bindR (OnClose E obs k 0 s) (\<lambda>s. Inr (True, l, s))))"
    if "client_inv Q d t" for t :: "'a client_scheme" and l
    by (rule resP_bindI [OF client_inv_close_sock [OF that]], rule resP_bindI [OF OnClose_inv]) simp_all
  show ?thesis
    unfolding ReadIntoBuffer_def Let_def
    by (auto simp: put_buf_inv assms intro!: close split: option.split)
qed

end

lemma ConnectControlSocket_state:
  "ConnectControlSocket E s = Inr (b, t) \<Longrightarrow> state t = (if b then state s else NOT_CONNECTED)"
  by (auto simp: ConnectControlSocket_def sock_defs bindR_eq_Inr dcheck_def dest!: Close_result
      split: if_splits option.splits prod.splits)

lemma SignOut_state:
  "SignOut E s = Inr (b, t) \<Longrightarrow> state t \<in> {NOT_CONNECTED, SIGNING_OUT, SIGNING_OUT_WAITING}"
  by (cases "hanging_get s"; cases "control_socket s")
    (auto simp: SignOut_def sock_defs Let_def dest!: ConnectControlSocket_state split: if_splits)

section \<open>The read handlers\<close>

text \<open>
  What holds while a response is worked off: the client may still be signing in, but then it
  already has its id (in a build with checks).
\<close>

definition reading_inv :: "('a \<Rightarrow> bool) \<Rightarrow> bool \<Rightarrow> ('a client_scheme) \<Rightarrow> bool" where
  "reading_inv Q d s \<longleftrightarrow> client_inv Q d s \<and> (d \<and> state s = SIGNING_IN \<longrightarrow> my_id s \<noteq> - 1)"

lemma reading_inv_put_peer:
  "reading_inv Q d s \<Longrightarrow> reading_inv Q d (s\<lparr>peers := smap_put i n (peers s)\<rparr>)"
  by (simp add: reading_inv_def client_inv_def has_sockets_def smap_put_ok)

lemma client_inv_put_peer: "client_inv Q d s \<Longrightarrow> client_inv Q d (s\<lparr>peers := smap_put i n (peers s)\<rparr>)"
  by (simp add: client_inv_def has_sockets_def smap_put_ok)

lemma client_inv_erase_peer: "client_inv Q d s \<Longrightarrow> client_inv Q d (s\<lparr>peers := smap_erase i (peers s)\<rparr>)"
  by (simp add: client_inv_def has_sockets_def smap_erase_ok)

lemma client_inv_clear:
  "client_inv Q d (s\<lparr>control_data := x\<rparr>) \<longleftrightarrow> client_inv Q d s"
  "client_inv Q d (s\<lparr>notification_data := x\<rparr>) \<longleftrightarrow> client_inv Q d s"
  by (simp_all add: client_inv_def has_sockets_def)

lemma Close_reading: "client_inv Q d s \<Longrightarrow> resP (reading_inv Q d) (Close s)"
proof (rule resP_I)
  fix t
  assume s: "client_inv Q d s" and t: "Close s = Inr t"
  from resP_D [OF Close_inv [OF s] t] Close_result [OF t] show "reading_inv Q d t"
    by (simp add: reading_inv_def)
qed

context client_observer
begin

lemma notify_quiet_reading:
  assumes "resP (quiet Q s) (f s)" "reading_inv Q d s"
  shows "resP (reading_inv Q d) (notify f s)"
  by (rule resP_mono [OF notify_quiet [of s f, OF assms(1)]])
    (use assms(2) in \<open>auto simp: quiet_def reading_inv_def client_same_fields intro: client_same_inv\<close>)

lemma reading_more: "reading_inv Q d s \<Longrightarrow> Q (client.more s)"
  by (simp add: reading_inv_def client_inv_def)

lemma quiet_reading:
  assumes "reading_inv Q d s"
  shows "resP (reading_inv Q d) (notify (OnSignedIn obs) s)"
    and "resP (reading_inv Q d) (notify (OnDisconnected obs) s)"
    and "resP (reading_inv Q d) (notify (OnPeerConnected obs i n) s)"
  using reading_more [OF assms] assms
  by (auto intro!: notify_quiet_reading intro: signed_in disconnected peer_connected)

lemma add_peer_reading: "reading_inv Q d s \<Longrightarrow> resP (reading_inv Q d) (add_peer E obs entry s)"
  by (simp add: add_peer_def ParseEntry_def res_simps quiet_reading
      reading_inv_put_peer Let_def split: option.split)

lemma read_peers_reading:
  "reading_inv Q d s \<Longrightarrow> resP (reading_inv Q d) (read_peers E obs data pos s)"
proof (induction "length data - pos" arbitrary: pos s rule: less_induct)
  case less
  show ?case
  proof (cases "pos < length data")
    case False
    with less.prems show ?thesis by (subst read_peers.simps) simp
  next
    case True
    note unfold = read_peers.simps [of E obs data pos s]
    show ?thesis
    proof (cases "str_find data [CHR 0x0A] pos")
      case None
      with True less.prems show ?thesis by (simp add: unfold)
    next
      case (Some eol)
      then have "length data - (eol + 1) < length data - pos"
        using True str_find_bounds [OF Some] by auto
      then have "resP (reading_inv Q d) (read_peers E obs data (eol + 1) t)" if "reading_inv Q d t" for t
        using less.hyps that by blast
      then have "resP (reading_inv Q d) (bindR (add_peer E obs (take (eol - pos) (drop pos data)) s)
          (\<lambda>s. read_peers E obs data (eol + 1) s))"
        by (rule resP_bindI [OF add_peer_reading [OF less.prems]])
      with True Some show ?thesis by (simp add: unfold)
    qed
  qed
qed

lemma ParseServerResponse_reading:
  assumes "client_inv Q d s"
  shows "resP (\<lambda>(ok, s'). client_inv Q d s' \<and> (ok = None \<and> dchecks_on E \<longrightarrow> state s' = NOT_CONNECTED) \<and>
      (ok \<noteq> None \<longrightarrow> s' = s)) (ParseServerResponse E obs r s)" (is "resP ?Q _")
proof (cases "GetResponseStatus (c_str r) = 200")
  case True
  with assms show ?thesis
    by (cases "str_find r CRLF2 0") (auto simp: ParseServerResponse_def dcheck_def)
next
  case False
  have gone: "resP ?Q (bindR (notify (OnDisconnected obs) t) (\<lambda>s. Inr (None, s)))"
    if t: "client_inv Q d t" "state t = NOT_CONNECTED" for t :: "'a client_scheme"
  proof -
    have "resP (\<lambda>u. client_inv Q d u \<and> state u = NOT_CONNECTED) (notify (OnDisconnected obs) t)"
      by (rule resP_mono [OF notify_quiet [of t "OnDisconnected obs", OF disconnected [OF inv_more [OF t(1)]]]])
        (use t in \<open>auto simp: quiet_def client_same_fields intro: client_same_inv\<close>)
    then show ?thesis by (rule resP_bindI) simp
  qed
  have "resP (\<lambda>t. client_inv Q d t \<and> state t = NOT_CONNECTED) (Close s)"
    by (rule resP_mono [OF Close_inv [OF assms]]) (simp add: Close_result)
  then have "resP ?Q (bindR (Close s) (\<lambda>s. bindR (notify (OnDisconnected obs) s) (\<lambda>s. Inr (None, s))))"
    by (rule resP_bindI) (use gone in blast)
  with False show ?thesis by (simp add: ParseServerResponse_def)
qed

lemma accept_sign_in_reading:
  assumes "client_inv Q (dchecks_on E) s"
  shows "resP (reading_inv Q (dchecks_on E)) (accept_sign_in E obs l p eoh s)"
proof -
  let ?d = "dchecks_on E"
  let ?s = "s\<lparr>my_id := int_of_size p\<rparr>"
  have "resP (reading_inv Q ?d)
      (bindR (if l \<noteq> 0 then read_peers E obs (control_data ?s) (eoh + 4) ?s else Inr ?s)
        (\<lambda>s. bindR (dcheck ?d (is_connected s) s) (notify (OnSignedIn obs))))"
    if "?d \<longrightarrow> int_of_size p \<noteq> - 1"
  proof (rule resP_bindI [where P = "reading_inv Q ?d"])
    have "reading_inv Q ?d ?s"
      using assms that by (simp add: reading_inv_def client_inv_def has_sockets_def)
    then show "resP (reading_inv Q ?d) (if l \<noteq> 0 then read_peers E obs (control_data ?s) (eoh + 4) ?s else Inr ?s)"
      using read_peers_reading by simp
  qed (simp add: res_simps quiet_reading)
  then show ?thesis
    unfolding accept_sign_in_def Let_def
    by (cases "?d \<longrightarrow> int_of_size p \<noteq> - 1") (auto simp: dcheck_def)
qed

lemma read_control_response_reading:
  assumes "client_inv Q (dchecks_on E) s"
  shows "resP (reading_inv Q (dchecks_on E)) (read_control_response E obs l p eoh s)"
proof -
  let ?d = "dchecks_on E"
  have close: "resP (reading_inv Q ?d) (bindR (Close s) (notify (OnDisconnected obs)))"
    by (rule resP_bindI [OF Close_reading [OF assms]]) (simp add: quiet_reading)
  have out: "resP (reading_inv Q ?d) (bindR (SignOut E s) (\<lambda>(_, s). Inr s))"
  proof (rule resP_bindI [where P = "\<lambda>(b, t). reading_inv Q ?d t"])
    show "resP (\<lambda>(b, t). reading_inv Q ?d t) (SignOut E s)"
      by (rule resP_mono [OF SignOut_inv [OF assms]])
        (auto simp: reading_inv_def dest: SignOut_state)
  qed auto
  from close out assms accept_sign_in_reading [OF assms] show ?thesis
    by (simp add: read_control_response_def reading_inv_def)
qed

lemma open_hanging_get_inv:
  assumes "reading_inv Q d s"
  shows "resP (client_inv Q d) (open_hanging_get E s)"
proof (cases "state s = SIGNING_IN")
  case True
  with assms have "client_inv Q d (s\<lparr>state := CONNECTED\<rparr>)"
    by (simp add: reading_inv_def client_inv_def has_sockets_def)
  then have "resP (client_inv Q d) (bindR (sock_Connect E Hanging (s\<lparr>state := CONNECTED\<rparr>)) (\<lambda>(_, s). Inr s))"
    by (intro resP_bindI [OF client_inv_hanging_connect]) auto
  with True show ?thesis
    by (cases "get_sock Hanging s") (auto simp: open_hanging_get_def sock_GetState_def dcheck_def)
next
  case False
  with assms show ?thesis
    by (simp add: open_hanging_get_def reading_inv_def)
qed

lemma OnRead_inv:
  assumes "client_inv Q (dchecks_on E) s"
  shows "resP (client_inv Q (dchecks_on E)) (OnRead E obs s)"
proof -
  let ?d = "dchecks_on E"
  have work: "resP (client_inv Q ?d)
      (bindR (ParseServerResponse E obs r t) (\<lambda>(ok, s).
         bindR (case ok of None \<Rightarrow> Inr s
                | Some (p, eoh) \<Rightarrow> read_control_response E obs l p eoh s)
           (\<lambda>s. open_hanging_get E (s\<lparr>control_data := []\<rparr>))))"
    if t: "client_inv Q ?d t" for t :: "'a client_scheme" and l r
  proof (rule resP_bindI [OF ParseServerResponse_reading [OF t]], clarify)
    fix ok :: "(size_t \<times> nat) option" and u :: "'a client_scheme"
    assume u: "client_inv Q ?d u" "ok = None \<and> ?d \<longrightarrow> state u = NOT_CONNECTED"
    have "resP (reading_inv Q ?d)
        (case ok of None \<Rightarrow> Inr u | Some (p, eoh) \<Rightarrow> read_control_response E obs l p eoh u)"
      using u read_control_response_reading [OF u(1)]
      by (auto simp: reading_inv_def split: option.split)
    then show "resP (client_inv Q ?d) (bindR (case ok of None \<Rightarrow> Inr u
          | Some (p, eoh) \<Rightarrow> read_control_response E obs l p eoh u)
        (\<lambda>s. open_hanging_get E (s\<lparr>control_data := []\<rparr>)))"
      by (rule resP_bindI) (rule open_hanging_get_inv, simp add: reading_inv_def client_inv_clear)
  qed
  show ?thesis
    unfolding OnRead_def
    by (rule resP_bindI [OF ReadIntoBuffer_inv [OF assms]]) (auto simp: work)
qed

lemma OnMessageFromPeer_inv:
  "client_inv Q d s \<Longrightarrow> resP (client_inv Q d) (OnMessageFromPeer obs i m s)"
  by (simp add: OnMessageFromPeer_def quiet_inv notify_message_inv)

lemma read_notification_inv:
  assumes "client_inv Q d s"
  shows "resP (client_inv Q d) (read_notification E obs p eoh s)"
  using assms
  by (auto simp: read_notification_def str_substr_from_def ParseEntry_def res_simps Let_def
      quiet_inv client_inv_put_peer
      client_inv_erase_peer OnMessageFromPeer_inv split: option.split)

lemma OnHangingGetRead_inv:
  assumes "client_inv Q d s"
  shows "resP (client_inv Q d) (OnHangingGetRead E obs s)"
proof -
  have work: "resP (client_inv Q d)
      (bindR (ParseServerResponse E obs r t) (\<lambda>(ok, s).
         bindR (case ok of None \<Rightarrow> Inr s | Some (p, eoh) \<Rightarrow> read_notification E obs p eoh s)
           (\<lambda>s. Inr (s\<lparr>notification_data := []\<rparr>))))"
    if t: "client_inv Q d t" for t :: "'a client_scheme" and r
  proof (rule resP_bindI [OF ParseServerResponse_reading [OF t]], clarify)
    fix ok :: "(size_t \<times> nat) option" and u :: "'a client_scheme"
    assume u: "client_inv Q d u"
    have "resP (client_inv Q d) (case ok of None \<Rightarrow> Inr u | Some (p, eoh) \<Rightarrow> read_notification E obs p eoh u)"
      using u read_notification_inv [OF u] by (auto split: option.split)
    then show "resP (client_inv Q d)
        (bindR (case ok of None \<Rightarrow> Inr u | Some (p, eoh) \<Rightarrow> read_notification E obs p eoh u)
          (\<lambda>s. Inr (s\<lparr>notification_data := []\<rparr>)))"
      by (rule resP_bindI) (simp add: client_inv_clear)
  qed
  have tail: "resP (client_inv Q d)
      (bindR (sock_GetState Hanging t) (\<lambda>c.
         if c = CS_CLOSED \<and> state t = CONNECTED
         then bindR (sock_Connect E Hanging t) (\<lambda>(_, s). Inr s) else Inr t))"
    if "client_inv Q d t" for t :: "'a client_scheme"
    using that client_inv_hanging_connect [OF that, of E]
    by (cases "get_sock Hanging t")
      (auto simp: sock_GetState_def intro!: resP_bindI [OF client_inv_hanging_connect])
  show ?thesis
    unfolding OnHangingGetRead_def
  proof (rule resP_bindI [OF ReadIntoBuffer_inv [OF assms]], clarify)
    fix c l and t :: "'a client_scheme"
    assume "client_inv Q d t"
    then have "resP (client_inv Q d)
        (if c then bindR (ParseServerResponse E obs (notification_data t) t) (\<lambda>(ok, s).
            bindR (case ok of None \<Rightarrow> Inr s | Some (p, eoh) \<Rightarrow> read_notification E obs p eoh s)
              (\<lambda>s. Inr (s\<lparr>notification_data := []\<rparr>)))
         else Inr t)"
      by (simp add: work)
    then show "resP (client_inv Q d)
        (bindR (if c then bindR (ParseServerResponse E obs (notification_data t) t) (\<lambda>(ok, s).
            bindR (case ok of None \<Rightarrow> Inr s | Some (p, eoh) \<Rightarrow> read_notification E obs p eoh s)
              (\<lambda>s. Inr (s\<lparr>notification_data := []\<rparr>)))
         else Inr t)
          (\<lambda>s. bindR (sock_GetState Hanging s) (\<lambda>c.
             if c = CS_CLOSED \<and> state s = CONNECTED
             then bindR (sock_Connect E Hanging s) (\<lambda>(_, s). Inr s) else Inr s)))"
      by (rule resP_bindI) (rule tail)
  qed
qed

end

end
