(* ===== verification/Main_Window.thy ===== *)
theory Main_Window
  imports Client_Inv
begin

text \<open>
  \<open>MainWnd\<close> (src/PjWebrtc/main_wnd.cc and .h): the window's state, laid beside the client's.
  The Win32 controls are opaque: the list box is the list of messages it was sent, and what the
  system answers is the record \<open>win\<close>; drawing, moving and posting is appended to \<open>gui_log\<close>.
  \<open>msg_queue\<close> is the thread's queue of \<open>UI_THREAD_CALLBACK\<close> messages.  A message box is taken to be
  dismissed at once: the events that its modal loop would dispatch while it is open are not modelled.
\<close>

section \<open>State\<close>

datatype UI = CONNECT_TO_SERVER | LIST_PEERS | STREAMING

datatype ctl = LABEL1 | EDIT1 | LABEL2 | EDIT2 | BUTTON | LISTBOX

datatype ui_data = Null_data | Text_data string | Track_data nat

datatype lb_msg =
  LB_RESETCONTENT | LB_ADDSTRING string | LB_SETITEMDATA int int | LB_SETCURSEL int

datatype gui_op =
    Show ctl | Hide ctl | Move ctl int int int int | Set_text ctl string | Set_focus ctl
  | Invalidate | Post_button_click | Post_listbox_dblclk | Message_box string string bool
  | Add_sink nat | Remove_sink nat | Post_quit | Default_proc
  | Fill_black int int | Fill_window_color | Draw_text string | Blit int int
  | Focus_window "nat option"
  | Draw_remote int int int int | Draw_thumb int int int int int int

record renderer =
  rendered_track :: nat
  biWidth :: int
  biHeight :: int
  biSizeImage :: "32 word"
  image :: "nat option"

record wnd = client +
  ui :: UI
  hwnd :: bool
  attached :: bool
  wnd_callback :: bool
  destroyed :: bool
  nested_msg :: bool
  wnd_server :: string
  wnd_port :: string
  auto_connect :: bool
  auto_call :: bool
  local_renderer :: "renderer option"
  remote_renderer :: "renderer option"
  listbox :: "lb_msg list"
  msg_queue :: "(int \<times> ui_data) list"
  gui_log :: "gui_op list"

type_synonym rect = "int \<times> int \<times> int \<times> int"

record win =
  os_is_window :: bool
  class_ok :: bool
  create_ok :: bool
  client_size :: "int \<times> int"
  logical_area :: "int \<times> int"
  text_rect :: "ctl \<Rightarrow> string \<Rightarrow> rect"
  ctl_client_rect :: "ctl \<Rightarrow> rect"
  ctl_window_rect :: "ctl \<Rightarrow> rect"
  ctl_text :: "ctl \<Rightarrow> string"
  lb_addstring :: "lb_msg list \<Rightarrow> string \<Rightarrow> int"
  lb_getcount :: "lb_msg list \<Rightarrow> int"
  lb_setcursel :: "lb_msg list \<Rightarrow> int \<Rightarrow> int"
  lb_getcursel :: "lb_msg list \<Rightarrow> int"
  lb_getitemdata :: "lb_msg list \<Rightarrow> int \<Rightarrow> int"

record 's wnd_observer =
  StartLogin_cb :: "string \<Rightarrow> int \<Rightarrow> 's \<Rightarrow> 's res"
  DisconnectFromServer_cb :: "'s \<Rightarrow> 's res"
  ConnectToPeer_cb :: "int \<Rightarrow> 's \<Rightarrow> 's res"
  DisconnectFromCurrentPeer_cb :: "'s \<Rightarrow> 's res"
  UIThreadCallback_cb :: "int \<Rightarrow> ui_data \<Rightarrow> 's \<Rightarrow> 's res"
  Close_cb :: "'s \<Rightarrow> 's res"

definition LB_ERR :: int where "LB_ERR = - 1"

definition c_div :: "int \<Rightarrow> int \<Rightarrow> int" where
  "c_div a b = sgn a * sgn b * (\<bar>a\<bar> div \<bar>b\<bar>)"

definition gui :: "gui_op list \<Rightarrow> ('a wnd_scheme) \<Rightarrow> ('a wnd_scheme)" where
  "gui ops s = s\<lparr>gui_log := gui_log s @ ops\<rparr>"

definition MainWnd_init :: "string \<Rightarrow> int \<Rightarrow> bool \<Rightarrow> bool \<Rightarrow> wnd" where
  "MainWnd_init server port connect call =
     client.extend client_init
       (wnd.fields CONNECT_TO_SERVER False False False False False
          (c_str server) (snprintf 10 (show_int port)) connect call None None [] [] [])"

definition IsWindow :: "win \<Rightarrow> ('a wnd_scheme) \<Rightarrow> bool" where
  "IsWindow W s \<longleftrightarrow> hwnd s \<and> os_is_window W"

definition MainWnd_RegisterObserver :: "('a wnd_scheme) \<Rightarrow> ('a wnd_scheme)" where
  "MainWnd_RegisterObserver s = s\<lparr>wnd_callback := True\<rparr>"

section \<open>Layout\<close>

definition CalculateWindowSizeForText :: "win \<Rightarrow> ctl \<Rightarrow> string \<Rightarrow> size_t \<times> size_t" where
  "CalculateWindowSizeForText W c text =
     (case (text_rect W c text, ctl_client_rect W c, ctl_window_rect W c) of
        ((t_left, t_top, t_right, t_bottom), (c_left, c_top, c_right, c_bottom),
         (w_left, w_top, w_right, w_bottom)) \<Rightarrow>
          (size_of_int (t_right - t_left) + size_of_int ((w_right - w_left) - (c_right - c_left)),
           size_of_int (t_bottom - t_top) + size_of_int ((w_bottom - w_top) - (c_bottom - c_top))))"

definition connect_windows :: "(ctl \<times> string) list" where
  "connect_windows =
     [(LABEL1, ''Server''), (EDIT1, ''XXXyyyYYYgggXXXyyyYYYggg''), (LABEL2, '':''),
      (EDIT2, ''XyXyX''), (BUTTON, ''Connect'')]"

definition kSeparator :: size_t where "kSeparator = 5"

fun place_windows :: "win \<Rightarrow> size_t \<Rightarrow> size_t \<Rightarrow> (ctl \<times> string) list \<Rightarrow> gui_op list" where
  "place_windows W x y [] = []"
| "place_windows W x y ((c, text) # cs) =
     (let (width, height) = CalculateWindowSizeForText W c text;
          top = y - height div 2
      in [Move c (int_of_size x) (int_of_size top) (int_of_size width) (int_of_size height)]
         @ (if hd text \<noteq> CHR ''X'' then [Set_text c text] else [])
         @ [Show c]
         @ place_windows W (x + (kSeparator + width)) y cs)"

definition total_width :: "win \<Rightarrow> size_t" where
  "total_width W =
     foldl (\<lambda>t (c, text). t + fst (CalculateWindowSizeForText W c text))
       (of_nat (length connect_windows - 1) * kSeparator) connect_windows"

definition LayoutConnectUI :: "win \<Rightarrow> bool \<Rightarrow> ('a wnd_scheme) \<Rightarrow> ('a wnd_scheme)" where
  "LayoutConnectUI W show_it s =
     (if show_it then
        let (right, bottom) = client_size W;
            x = size_of_int (c_div right 2) - total_width W div 2;
            y = size_of_int (c_div bottom 2)
        in gui (place_windows W x y connect_windows) s
      else gui (map (\<lambda>(c, _). Hide c) connect_windows) s)"

definition LayoutPeerListUI :: "win \<Rightarrow> bool \<Rightarrow> ('a wnd_scheme) \<Rightarrow> ('a wnd_scheme)" where
  "LayoutPeerListUI W show_it s =
     (if show_it then
        let (right, bottom) = client_size W
        in gui [Move LISTBOX 0 0 right bottom, Show LISTBOX] s
      else gui [Hide LISTBOX, Invalidate] s)"

section \<open>Switching the user interface\<close>

definition SwitchToConnectUI :: "net \<Rightarrow> win \<Rightarrow> ('a wnd_scheme) \<Rightarrow> ('a wnd_scheme) res" where
  "SwitchToConnectUI E W s =
     bindR (dcheck (dchecks_on E) (IsWindow W s) s) (\<lambda>s.
       let s = LayoutPeerListUI W False s;
           s = LayoutConnectUI W True (s\<lparr>ui := CONNECT_TO_SERVER\<rparr>);
           s = gui [Set_focus EDIT1] s
       in Inr (if auto_connect s then gui [Post_button_click] s else s))"

definition AddListBoxItem :: "win \<Rightarrow> string \<Rightarrow> int \<Rightarrow> ('a wnd_scheme) \<Rightarrow> ('a wnd_scheme)" where
  "AddListBoxItem W str item_data s =
     (let index = lb_addstring W (listbox s) (c_str str)
      in s\<lparr>listbox := listbox s @ [LB_ADDSTRING (c_str str), LB_SETITEMDATA index item_data]\<rparr>)"

definition call_last_peer :: "win \<Rightarrow> Peers \<Rightarrow> ('a wnd_scheme) \<Rightarrow> ('a wnd_scheme)" where
  "call_last_peer W ps s =
     (if auto_call s \<and> ps \<noteq> [] then
        let count = lb_getcount W (listbox s)
        in if count \<noteq> LB_ERR then
             let selection = lb_setcursel W (listbox s) (count - 1);
                 s = s\<lparr>listbox := listbox s @ [LB_SETCURSEL (count - 1)]\<rparr>
             in if selection \<noteq> LB_ERR then gui [Post_listbox_dblclk] s else s
           else s
      else s)"

definition SwitchToPeerList :: "win \<Rightarrow> Peers \<Rightarrow> ('a wnd_scheme) \<Rightarrow> ('a wnd_scheme)" where
  "SwitchToPeerList W ps s =
     (let s = LayoutConnectUI W False s;
          s = s\<lparr>listbox := listbox s @ [LB_RESETCONTENT]\<rparr>;
          s = AddListBoxItem W ''List of currently connected peers:'' (- 1) s;
          s = fold (\<lambda>(i, name). AddListBoxItem W name i) ps s;
          s = LayoutPeerListUI W True (s\<lparr>ui := LIST_PEERS\<rparr>);
          s = gui [Set_focus LISTBOX] s
      in call_last_peer W ps s)"

definition SwitchToStreamingUI :: "win \<Rightarrow> ('a wnd_scheme) \<Rightarrow> ('a wnd_scheme)" where
  "SwitchToStreamingUI W s =
     (LayoutPeerListUI W False (LayoutConnectUI W False s))\<lparr>ui := STREAMING\<rparr>"

definition MessageBox :: "string \<Rightarrow> string \<Rightarrow> bool \<Rightarrow> ('a wnd_scheme) \<Rightarrow> ('a wnd_scheme)" where
  "MessageBox caption text is_error s = gui [Message_box caption text is_error] s"

definition QueueUIThreadCallback :: "int \<Rightarrow> ui_data \<Rightarrow> ('a wnd_scheme) \<Rightarrow> ('a wnd_scheme)" where
  "QueueUIThreadCallback msg_id data s = s\<lparr>msg_queue := msg_queue s @ [(msg_id, data)]\<rparr>"

section \<open>Video renderers\<close>

definition bytes_per_pixel :: int where "bytes_per_pixel = 4"

text \<open>The product is computed in \<open>int\<close> and then stored as a \<open>DWORD\<close>.\<close>

definition image_size :: "int \<Rightarrow> int \<Rightarrow> 32 word res" where
  "image_size width height =
     bindR (i32 (width * height)) (\<lambda>area. bindR (i32 (area * bytes_per_pixel)) (\<lambda>n. Inr (of_int n)))"

definition VideoRenderer_new :: "int \<Rightarrow> int \<Rightarrow> nat \<Rightarrow> renderer res" where
  "VideoRenderer_new width height track =
     bindR (i32 (- height)) (\<lambda>negated. bindR (image_size width height) (\<lambda>size.
       Inr \<lparr>rendered_track = track, biWidth = width, biHeight = negated, biSizeImage = size, image = None\<rparr>))"

definition VideoRenderer_SetSize :: "int \<Rightarrow> int \<Rightarrow> renderer \<Rightarrow> renderer res" where
  "VideoRenderer_SetSize width height r =
     (if width = biWidth r \<and> height = biHeight r then Inr r
      else bindR (i32 (- height)) (\<lambda>negated. bindR (image_size width height) (\<lambda>size.
        Inr (r\<lparr>biWidth := width, biHeight := negated, biSizeImage := size, image := Some (unat size)\<rparr>))))"

text \<open>
  The pixels of a frame: its size after \<open>ToI420\<close>, and after \<open>I420Buffer::Rotate\<close> when its
  rotation is not 0.  The result is the renderer and the number of bytes written to \<open>image_\<close>.
\<close>

record video_frame =
  frame_size :: "int \<times> int"
  frame_rotation :: int
  rotated_size :: "int \<times> int"

definition VideoRenderer_OnFrame :: "bool \<Rightarrow> video_frame \<Rightarrow> renderer \<Rightarrow> (renderer \<times> int) res" where
  "VideoRenderer_OnFrame dchecks f r =
     (let (width, height) = (if frame_rotation f \<noteq> 0 then rotated_size f else frame_size f)
      in bindR (VideoRenderer_SetSize width height r) (\<lambda>r.
         bindR (dcheck dchecks (image r \<noteq> None) r) (\<lambda>r.
         bindR (i32 (biWidth r * 32)) (\<lambda>bits.
           case image r of
             None \<Rightarrow> Inl Null_deref
           | Some _ \<Rightarrow> Inr (r, height * c_div bits 8)))))"

definition StartLocalRenderer :: "nat \<Rightarrow> ('a wnd_scheme) \<Rightarrow> ('a wnd_scheme) res" where
  "StartLocalRenderer track s =
     bindR (VideoRenderer_new 1 1 track) (\<lambda>renderer. Inr
       (gui ([Add_sink track] @ (case local_renderer s of None \<Rightarrow> [] | Some r \<Rightarrow> [Remove_sink (rendered_track r)]))
         (s\<lparr>local_renderer := Some renderer\<rparr>)))"

definition StopLocalRenderer :: "('a wnd_scheme) \<Rightarrow> ('a wnd_scheme)" where
  "StopLocalRenderer s =
     gui (case local_renderer s of None \<Rightarrow> [] | Some r \<Rightarrow> [Remove_sink (rendered_track r)])
       (s\<lparr>local_renderer := None\<rparr>)"

definition StartRemoteRenderer :: "nat \<Rightarrow> ('a wnd_scheme) \<Rightarrow> ('a wnd_scheme) res" where
  "StartRemoteRenderer track s =
     bindR (VideoRenderer_new 1 1 track) (\<lambda>renderer. Inr
       (gui ([Add_sink track] @ (case remote_renderer s of None \<Rightarrow> [] | Some r \<Rightarrow> [Remove_sink (rendered_track r)]))
         (s\<lparr>remote_renderer := Some renderer\<rparr>)))"

definition StopRemoteRenderer :: "('a wnd_scheme) \<Rightarrow> ('a wnd_scheme)" where
  "StopRemoteRenderer s =
     gui (case remote_renderer s of None \<Rightarrow> [] | Some r \<Rightarrow> [Remove_sink (rendered_track r)])
       (s\<lparr>remote_renderer := None\<rparr>)"

end
