(* ===== verification/Window_Events.thy ===== *)
theory Window_Events
  imports Main_Window
begin

text \<open>
  The event side of \<open>MainWnd\<close>: creation, painting, the default action, window messages with the
  messages nested in them, the pre-translation of thread messages, and the search of the Tab key
  through the sibling windows.
\<close>

section \<open>Creation and painting\<close>

definition CreateChildWindows :: "('a wnd_scheme) \<Rightarrow> ('a wnd_scheme)" where
  "CreateChildWindows s = gui [Set_text EDIT1 (c_str (wnd_server s)), Set_text EDIT2 (c_str (wnd_port s))] s"

definition RegisterWindowClass :: "net \<Rightarrow> win \<Rightarrow> bool \<Rightarrow> bool res" where
  "RegisterWindowClass E W registered =
     (if registered then Inr True
      else bindR (dcheck (dchecks_on E) (class_ok W) ()) (\<lambda>_. Inr (class_ok W)))"

definition MainWnd_Create :: "net \<Rightarrow> win \<Rightarrow> bool \<Rightarrow> ('a wnd_scheme) \<Rightarrow> (bool \<times> ('a wnd_scheme)) res" where
  "MainWnd_Create E W registered s =
     bindR (dcheck (dchecks_on E) (\<not> hwnd s) s) (\<lambda>s.
     bindR (RegisterWindowClass E W registered) (\<lambda>ok.
       if \<not> ok then Inr (False, s)
       else
         let s = s\<lparr>hwnd := create_ok W, attached := create_ok W\<rparr>
         in bindR (SwitchToConnectUI E W (CreateChildWindows s)) (\<lambda>s. Inr (hwnd s, s))))"

text \<open>\<open>OnPaint\<close>: the remote image centred with the local one as a thumbnail, or a text while no
  remote image has arrived, or the plain background.\<close>

definition paint_video :: "win \<Rightarrow> renderer \<Rightarrow> renderer \<Rightarrow> gui_op list" where
  "paint_video W rr lr =
     (let (right, bottom) = client_size W;
          (lx, ly) = logical_area W;
          height = \<bar>biHeight rr\<bar>;
          width = biWidth rr;
          x = c_div lx 2 - c_div width 2;
          y = c_div ly 2 - c_div height 2;
          thumb_width = c_div (biWidth lr) 4;
          thumb_height = c_div \<bar>biHeight lr\<bar> 4
      in [Fill_black lx ly, Draw_remote x y width height]
         @ (if right > 200 \<and> bottom > 200
            then [Draw_thumb (lx - thumb_width - 10) (ly - thumb_height - 10)
                    thumb_width thumb_height (biWidth lr) (- biHeight lr)]
            else [])
         @ [Blit lx ly])"

definition kConnecting :: string where "kConnecting = ''Connecting... ''"
definition kNoVideoStreams :: string where "kNoVideoStreams = ''(no video streams either way)''"
definition kNoIncomingStream :: string where "kNoIncomingStream = ''(no incoming video)''"

definition OnPaint :: "win \<Rightarrow> ('a wnd_scheme) \<Rightarrow> ('a wnd_scheme)" where
  "OnPaint W s =
     (case (ui s, remote_renderer s, local_renderer s) of
        (STREAMING, Some rr, Some lr) \<Rightarrow>
          (case image rr of
             Some _ \<Rightarrow> gui (paint_video W rr lr) s
           | None \<Rightarrow>
               let (right, bottom) = client_size W
               in gui [Fill_black right bottom,
                       Draw_text (kConnecting @
                         (if image lr = None then kNoVideoStreams else kNoIncomingStream))] s)
      | _ \<Rightarrow> gui [Fill_window_color] s)"

section \<open>Actions and messages\<close>

definition MAX_PATH :: nat where "MAX_PATH = 260"

definition GetWindowText :: "win \<Rightarrow> ctl \<Rightarrow> string" where
  "GetWindowText W c = c_str (take (MAX_PATH - 1) (ctl_text W c))"

text \<open>An \<open>LRESULT\<close> has 64 bits; passed as an \<open>int\<close> it keeps the lower 32.\<close>

definition int_of_lresult :: "int \<Rightarrow> int" where
  "int_of_lresult r = signed_take_bit 31 r"

definition OnDefaultAction :: "win \<Rightarrow> ('a wnd_scheme) wnd_observer \<Rightarrow> ('a wnd_scheme) \<Rightarrow> ('a wnd_scheme) res" where
  "OnDefaultAction W cb s =
     (if \<not> wnd_callback s then Inr s
      else
        (case ui s of
           CONNECT_TO_SERVER \<Rightarrow>
             let server = GetWindowText W EDIT1;
                 port_str = GetWindowText W EDIT2;
                 port = (if length port_str \<noteq> 0 then atoi (c_str port_str) else 0)
             in StartLogin_cb cb server port s
         | LIST_PEERS \<Rightarrow>
             let sel = lb_getcursel W (listbox s)
             in if sel \<noteq> LB_ERR then
                  let peer_id = lb_getitemdata W (listbox s) sel
                  in if peer_id \<noteq> - 1 \<and> wnd_callback s then ConnectToPeer_cb cb (int_of_lresult peer_id) s else Inr s
                else Inr s
         | STREAMING \<Rightarrow> Inr (gui [Message_box ''Yeah'' ''OK!'' False] s)))"

datatype wmsg =
    WM_CREATE | WM_ERASEBKGND | WM_PAINT | WM_SETFOCUS | WM_SIZE | WM_CTLCOLORSTATIC
  | WM_COMMAND "ctl option" int
  | WM_CLOSE | WM_NCDESTROY | WM_OTHER

definition BN_CLICKED :: int where "BN_CLICKED = 0"
definition LBN_DBLCLK :: int where "LBN_DBLCLK = 2"

definition OnWndMessage :: "win \<Rightarrow> ('a wnd_scheme) wnd_observer \<Rightarrow> wmsg \<Rightarrow>
    ('a wnd_scheme) \<Rightarrow> (bool \<times> ('a wnd_scheme)) res" where
  "OnWndMessage W cb m s =
     (case m of
        WM_ERASEBKGND \<Rightarrow> Inr (True, s)
      | WM_PAINT \<Rightarrow> Inr (True, OnPaint W s)
      | WM_SETFOCUS \<Rightarrow>
          Inr (True, if ui s = CONNECT_TO_SERVER then gui [Set_focus EDIT1] s
                     else if ui s = LIST_PEERS then gui [Set_focus LISTBOX] s
                     else s)
      | WM_SIZE \<Rightarrow>
          Inr (False, if ui s = CONNECT_TO_SERVER then LayoutConnectUI W True s
                      else if ui s = LIST_PEERS then LayoutPeerListUI W True s
                      else s)
      | WM_CTLCOLORSTATIC \<Rightarrow> Inr (True, s)
      | WM_COMMAND src code \<Rightarrow>
          bindR (if src = Some BUTTON then
                   (if code = BN_CLICKED then OnDefaultAction W cb s else Inr s)
                 else if src = Some LISTBOX then
                   (if code = LBN_DBLCLK then OnDefaultAction W cb s else Inr s)
                 else Inr s) (\<lambda>s. Inr (True, s))
      | WM_CLOSE \<Rightarrow> bindR (if wnd_callback s then Close_cb cb s else Inr s) (\<lambda>s. Inr (False, s))
      | _ \<Rightarrow> Inr (False, s))"

text \<open>
  \<open>WndProc\<close>.  \<open>DefWindowProc\<close> may deliver further messages to the same window before it returns
  (closing it delivers its destruction), so a delivery is a message with the deliveries nested in
  its default handling.
\<close>

datatype delivery = Deliver wmsg "delivery list"

fun WndProc :: "win \<Rightarrow> ('a wnd_scheme) wnd_observer \<Rightarrow> delivery \<Rightarrow> ('a wnd_scheme) \<Rightarrow> ('a wnd_scheme) res"
and WndProcs :: "win \<Rightarrow> ('a wnd_scheme) wnd_observer \<Rightarrow> delivery list \<Rightarrow> ('a wnd_scheme) \<Rightarrow> ('a wnd_scheme) res"
where
  "WndProc W cb (Deliver m ds) s =
     (let s = (if \<not> attached s \<and> m = WM_CREATE then s\<lparr>hwnd := True, attached := True\<rparr> else s)
      in if \<not> attached s then WndProcs W cb ds (gui [Default_proc] s)
         else
           let prev_nested_msg = nested_msg s
           in bindR (OnWndMessage W cb m (s\<lparr>nested_msg := True\<rparr>)) (\<lambda>(handled, s).
              bindR (if m = WM_NCDESTROY then Inr (s\<lparr>destroyed := True\<rparr>)
                     else if \<not> handled then WndProcs W cb ds (gui [Default_proc] s)
                     else Inr s) (\<lambda>s.
                let s = (if destroyed s \<and> \<not> prev_nested_msg
                         then (gui [Post_quit] s)\<lparr>hwnd := False, destroyed := False\<rparr>
                         else s)
                in Inr (s\<lparr>nested_msg := prev_nested_msg\<rparr>))))"
| "WndProcs W cb [] s = Inr s"
| "WndProcs W cb (d # ds) s = bindR (WndProc W cb d s) (\<lambda>s. WndProcs W cb ds s)"

section \<open>Thread messages and keys\<close>

datatype key = VK_TAB | VK_RETURN | VK_ESCAPE | VK_OTHER

datatype tmsg = WM_CHAR key | UI_THREAD_CALLBACK int ui_data | TM_OTHER

text \<open>
  The windows the Tab key searches: \<open>sibling\<close> is \<open>GetWindow(., next_cmd)\<close>, \<open>loop_around\<close> is
  \<open>GetWindow(., loop_around_cmd)\<close>, \<open>stops\<close> says a window is visible and has \<open>WS_TABSTOP\<close>; \<open>None\<close> is
  the null handle.  The loop need not end, so not returning is the result \<open>None\<close>.
\<close>

record tab_env =
  sibling :: "nat option \<Rightarrow> nat option"
  loop_around :: "nat option \<Rightarrow> nat option"
  stops :: "nat option \<Rightarrow> bool"

partial_function (option) tab_search :: "tab_env \<Rightarrow> nat option \<Rightarrow> nat option option" where
  "tab_search T focus =
     (let next = sibling T focus
      in if stops T next then Some next
         else if next = None then
           (let next = loop_around T focus
            in if stops T next then Some next else tab_search T next)
         else tab_search T next)"

definition HandleTabbing :: "tab_env \<Rightarrow> nat option \<Rightarrow> ('a wnd_scheme) \<Rightarrow> ('a wnd_scheme) res" where
  "HandleTabbing T focus s =
     (case tab_search T focus of
        None \<Rightarrow> Inl No_return
      | Some next \<Rightarrow> Inr (gui [Focus_window next] s))"

definition PreTranslateMessage :: "win \<Rightarrow> tab_env \<Rightarrow> nat option \<Rightarrow> ('a wnd_scheme) wnd_observer \<Rightarrow> tmsg \<Rightarrow>
    ('a wnd_scheme) \<Rightarrow> (bool \<times> ('a wnd_scheme)) res" where
  "PreTranslateMessage W T focus cb m s =
     (case m of
        WM_CHAR VK_TAB \<Rightarrow> bindR (HandleTabbing T focus s) (\<lambda>s. Inr (True, s))
      | WM_CHAR VK_RETURN \<Rightarrow> bindR (OnDefaultAction W cb s) (\<lambda>s. Inr (True, s))
      | WM_CHAR VK_ESCAPE \<Rightarrow>
          bindR (if wnd_callback s then
                   (if ui s = STREAMING then DisconnectFromCurrentPeer_cb cb s
                    else DisconnectFromServer_cb cb s)
                 else Inr s) (\<lambda>s. Inr (False, s))
      | WM_CHAR VK_OTHER \<Rightarrow> Inr (False, s)
      | UI_THREAD_CALLBACK msg_id data \<Rightarrow>
          if wnd_callback s then bindR (UIThreadCallback_cb cb msg_id data s) (\<lambda>s. Inr (True, s))
          else Inl Null_deref
      | TM_OTHER \<Rightarrow> Inr (False, s))"

end
