(* ===== verification/Window_Frame.thy ===== *)
theory Window_Frame
  imports Window_Events
begin

text \<open>
  What the window's operations leave alone: \<open>display s t\<close> says \<open>t\<close> is \<open>s\<close> but for the interface on
  show, the list box and the drawing log.  Every \<open>SwitchTo...\<close>, layout and painting operation is
  such a step, so it keeps the client, the message queue and whatever is laid beside the window.
\<close>

definition display :: "('a wnd_scheme) \<Rightarrow> ('a wnd_scheme) \<Rightarrow> bool" where
  "display s t \<longleftrightarrow> t\<lparr>ui := ui s, listbox := listbox s, gui_log := gui_log s\<rparr> = s"

lemma display_refl [simp]: "display s s"
  by (simp add: display_def)

lemma display_trans:
  assumes "display s t" "display t u"
  shows "display s u"
proof -
  have "u\<lparr>ui := ui s, listbox := listbox s, gui_log := gui_log s\<rparr>
      = (u\<lparr>ui := ui t, listbox := listbox t, gui_log := gui_log t\<rparr>)
          \<lparr>ui := ui s, listbox := listbox s, gui_log := gui_log s\<rparr>" by simp
  with assms show ?thesis by (simp add: display_def)
qed

lemma display_gui [simp]: "display s (gui ops s)"
  by (simp add: display_def gui_def)

lemma display_upds [simp]:
  "display s (s\<lparr>ui := u\<rparr>)" "display s (s\<lparr>listbox := l\<rparr>)" "display s (s\<lparr>gui_log := g\<rparr>)"
  by (simp_all add: display_def)

lemma display_AddListBoxItem: "display s (AddListBoxItem W str i s)"
  by (simp add: AddListBoxItem_def Let_def)

lemma display_add_items: "display s (fold (\<lambda>(i, name). AddListBoxItem W name i) ps s)"
proof (induction ps arbitrary: s)
  case (Cons p ps)
  then show ?case
    by (cases p) (auto intro: display_trans [OF display_AddListBoxItem])
qed simp

lemma display_LayoutConnectUI: "display s (LayoutConnectUI W b s)"
  by (cases "client_size W") (simp add: LayoutConnectUI_def Let_def)

lemma display_LayoutPeerListUI: "display s (LayoutPeerListUI W b s)"
  by (cases "client_size W") (simp add: LayoutPeerListUI_def)

lemma display_SwitchToStreamingUI: "display s (SwitchToStreamingUI W s)"
  unfolding SwitchToStreamingUI_def
  by (rule display_trans [OF display_trans [OF display_LayoutConnectUI display_LayoutPeerListUI] display_upds(1)])

lemma display_call_last_peer: "display s (call_last_peer W ps s)"
  by (simp add: call_last_peer_def Let_def display_trans [OF display_upds(2) display_gui])

lemma display_SwitchToPeerList: "display s (SwitchToPeerList W ps s)"
proof -
  let ?a = "LayoutConnectUI W False s"
  let ?b = "?a\<lparr>listbox := listbox ?a @ [LB_RESETCONTENT]\<rparr>"
  let ?c = "fold (\<lambda>(i, name). AddListBoxItem W name i) ps
      (AddListBoxItem W ''List of currently connected peers:'' (- 1) ?b)"
  let ?d = "gui [Set_focus LISTBOX] (LayoutPeerListUI W True (?c\<lparr>ui := LIST_PEERS\<rparr>))"
  have "display s ?c"
    by (rule display_trans [OF display_LayoutConnectUI], rule display_trans [OF display_upds(2)],
        rule display_trans [OF display_AddListBoxItem], rule display_add_items)
  then have "display s ?d"
    by (rule display_trans)
      (rule display_trans [OF display_upds(1)], rule display_trans [OF display_LayoutPeerListUI],
       rule display_gui)
  then have "display s (call_last_peer W ps ?d)"
    by (rule display_trans) (rule display_call_last_peer)
  then show ?thesis by (simp add: SwitchToPeerList_def Let_def)
qed

lemma display_SwitchToConnectUI: "resP (display s) (SwitchToConnectUI E W s)"
proof -
  let ?a = "LayoutPeerListUI W False s"
  let ?b = "LayoutConnectUI W True (?a\<lparr>ui := CONNECT_TO_SERVER\<rparr>)"
  have "display s (gui ops ?b)" for ops
    by (rule display_trans [OF display_LayoutPeerListUI], rule display_trans [OF display_upds(1)],
        rule display_trans [OF display_LayoutConnectUI], rule display_gui)
  then show ?thesis
    by (simp add: SwitchToConnectUI_def res_simps Let_def display_trans [OF _ display_gui])
qed

lemma display_MessageBox: "display s (MessageBox c x e s)"
  by (simp add: MessageBox_def)

lemma display_OnPaint: "display s (OnPaint W s)"
  by (auto simp: OnPaint_def Let_def split: UI.split option.split prod.splits)

lemma display_field:
  assumes "display s t"
    and "f (t\<lparr>ui := ui s, listbox := listbox s, gui_log := gui_log s\<rparr>) = f t"
  shows "f t = f s"
  using assms by (metis display_def)

lemma display_client_same: "display s t \<Longrightarrow> client_same s t"
  unfolding client_same_def by (rule sym, erule display_field) (simp add: client.truncate_def)

lemma display_fields:
  assumes "display s t"
  shows "hwnd t = hwnd s" "wnd_callback t = wnd_callback s" "msg_queue t = msg_queue s"
    "local_renderer t = local_renderer s" "remote_renderer t = remote_renderer s"
    "nested_msg t = nested_msg s" "destroyed t = destroyed s" "attached t = attached s"
    "auto_call t = auto_call s" "wnd.more t = wnd.more s"
  by (rule display_field [OF assms], simp)+

text \<open>The peer list is on show after \<open>SwitchToPeerList\<close>, the login fields after \<open>SwitchToConnectUI\<close>.\<close>

lemma ui_gui [simp]: "ui (gui ops s) = ui s"
  by (simp add: gui_def)

lemma ui_Layout [simp]: "ui (LayoutConnectUI W b s) = ui s" "ui (LayoutPeerListUI W b s) = ui s"
  by (cases "client_size W", simp add: LayoutConnectUI_def LayoutPeerListUI_def Let_def)+

lemma ui_SwitchToPeerList: "ui (SwitchToPeerList W ps s) = LIST_PEERS"
  by (simp add: SwitchToPeerList_def call_last_peer_def Let_def)

lemma ui_SwitchToConnectUI: "resP (\<lambda>t. ui t = CONNECT_TO_SERVER) (SwitchToConnectUI E W s)"
  by (simp add: SwitchToConnectUI_def res_simps Let_def)

lemma ui_SwitchToStreamingUI: "ui (SwitchToStreamingUI W s) = STREAMING"
  by (simp add: SwitchToStreamingUI_def)

end
