(* ===== verification/Conductor.thy ===== *)
theory Conductor
  imports Window_Frame
begin

text \<open>
  \<open>Conductor\<close> (src/PjWebrtc/conductor.cc and .h): it drives one \<open>PeerConnection\<close>, is the
  observer of the signalling client and of the window, and turns descriptions and candidates
  into JSON messages and back.  The WebRTC and JSON libraries are parameters, the record \<open>rtc\<close>: a
  peer connection is the list of calls made on it, what it answers is a function of that list; a
  parsed JSON value is what its getters return.
\<close>

section \<open>State and parameters\<close>

datatype SdpType = kOffer | kPrAnswer | kAnswer | kRollback

record candidate =
  sdp_mid :: string
  sdp_mline_index :: int
  candidate_string :: "string option"

record description =
  desc_type :: SdpType
  desc_string :: string

datatype track = Audio_track | Video_track int

datatype pc_call =
    Created bool string
  | AddTrack track "string list"
  | CreateOffer
  | CreateAnswer
  | SetLocalDescription description
  | SetRemoteDescription "(SdpType \<times> string) option"
  | AddIceCandidate candidate

type_synonym pc = "pc_call list"

datatype jfield = JString string | JInt int

record json =
  json_string :: "string \<Rightarrow> string option"
  json_int :: "string \<Rightarrow> int option"

record rtc =
  factory_ok :: bool
  pc_ok :: "bool \<Rightarrow> string \<Rightarrow> bool"
  pc_senders :: "pc \<Rightarrow> (track \<times> string list) list"
  num_devices :: "int option"
  vcm_ok :: "int \<Rightarrow> bool"
  track_id :: "track \<Rightarrow> nat"
  json_parse :: "string \<Rightarrow> json option"
  json_write :: "(string \<times> jfield) list \<Rightarrow> string"
  sdp_type_from_string :: "string \<Rightarrow> SdpType option"
  sdp_type_to_string :: "SdpType \<Rightarrow> string"
  sdp_ok :: "SdpType \<Rightarrow> string \<Rightarrow> bool"
  candidate_ok :: "string \<Rightarrow> int \<Rightarrow> string \<Rightarrow> bool"
  track_is_video :: "nat \<Rightarrow> bool"
  connection_string :: string
  peer_name :: string

record conductor = wnd +
  peer_id :: int
  loopback :: bool
  peer_connection :: "pc option"
  peer_connection_factory :: bool
  pending_messages :: "string list"
  login_server :: string

type_synonym world = "net \<times> win \<times> rtc"

definition PEER_CONNECTION_CLOSED :: int where "PEER_CONNECTION_CLOSED = 2"
definition SEND_MESSAGE_TO_PEER :: int where "SEND_MESSAGE_TO_PEER = 3"
definition NEW_TRACK_ADDED :: int where "NEW_TRACK_ADDED = 4"
definition TRACK_REMOVED :: int where "TRACK_REMOVED = 5"

definition kCandidateSdpMidName :: string where "kCandidateSdpMidName = ''sdpMid''"
definition kCandidateSdpMlineIndexName :: string where "kCandidateSdpMlineIndexName = ''sdpMLineIndex''"
definition kCandidateSdpName :: string where "kCandidateSdpName = ''candidate''"
definition kSessionDescriptionTypeName :: string where "kSessionDescriptionTypeName = ''type''"
definition kSessionDescriptionSdpName :: string where "kSessionDescriptionSdpName = ''sdp''"
definition kStreamId :: string where "kStreamId = ''stream_id''"

definition Conductor_new :: "bool \<Rightarrow> wnd \<Rightarrow> conductor res" where
  "Conductor_new dchecks w =
     bindR (RegisterObserver dchecks
              (wnd.extend w (conductor.fields (- 1) False None False [] []))) (\<lambda>s.
       Inr (MainWnd_RegisterObserver s))"

definition connection_active :: "('a conductor_scheme) \<Rightarrow> bool" where
  "connection_active s \<longleftrightarrow> peer_connection s \<noteq> None"

text \<open>A method call on \<open>peer_connection_\<close> appends to its history, or dereferences null.\<close>

definition pc_call :: "pc_call \<Rightarrow> ('a conductor_scheme) \<Rightarrow> ('a conductor_scheme) res" where
  "pc_call c s =
     (case peer_connection s of
        None \<Rightarrow> Inl Null_deref
      | Some pc \<Rightarrow> Inr (s\<lparr>peer_connection := Some (pc @ [c])\<rparr>))"

section \<open>Peer connection life cycle\<close>

definition DeletePeerConnection :: "('a conductor_scheme) \<Rightarrow> ('a conductor_scheme)" where
  "DeletePeerConnection s =
     (StopRemoteRenderer (StopLocalRenderer s))
       \<lparr>peer_connection := None, peer_connection_factory := False, peer_id := - 1, loopback := False\<rparr>"

definition CreatePeerConnection :: "world \<Rightarrow> bool \<Rightarrow> ('a conductor_scheme) \<Rightarrow> (bool \<times> ('a conductor_scheme)) res" where
  "CreatePeerConnection G dtls s =
     (case G of (E, W, R) \<Rightarrow>
        bindR (dcheck (dchecks_on E) (peer_connection_factory s) s) (\<lambda>s.
        bindR (dcheck (dchecks_on E) (peer_connection s = None) s) (\<lambda>s.
          if \<not> peer_connection_factory s then Inl Null_deref
          else if pc_ok R dtls (connection_string R)
               then Inr (True, s\<lparr>peer_connection := Some [Created dtls (connection_string R)]\<rparr>)
               else Inr (False, s\<lparr>peer_connection := None\<rparr>))))"

text \<open>\<open>CapturerTrackSource::Create\<close>: the loop over the capture devices, from index 1.\<close>

function find_capturer :: "rtc \<Rightarrow> int \<Rightarrow> int \<Rightarrow> int option" where
  "find_capturer R i n = (if i < n then (if vcm_ok R i then Some i else find_capturer R (i + 1) n) else None)"
  by pat_completeness auto
termination
  by (relation "measure (\<lambda>(R, i, n). nat (n - i))") auto

declare find_capturer.simps [simp del]

definition CapturerTrackSource_Create :: "rtc \<Rightarrow> int option" where
  "CapturerTrackSource_Create R =
     (case num_devices R of None \<Rightarrow> None | Some n \<Rightarrow> find_capturer R 1 n)"

definition AddTracks :: "world \<Rightarrow> ('a conductor_scheme) \<Rightarrow> ('a conductor_scheme) res" where
  "AddTracks G s =
     (case G of (E, W, R) \<Rightarrow>
        (case peer_connection s of
           None \<Rightarrow> Inl Null_deref
         | Some pc \<Rightarrow>
             if pc_senders R pc \<noteq> [] then Inr s
             else if \<not> peer_connection_factory s then Inl Null_deref
             else
               bindR (pc_call (AddTrack Audio_track [kStreamId]) s) (\<lambda>s.
               bindR (case CapturerTrackSource_Create R of
                        Some device \<Rightarrow>
                          bindR (StartLocalRenderer (track_id R (Video_track device)) s)
                            (pc_call (AddTrack (Video_track device) [kStreamId]))
                      | None \<Rightarrow> Inr s) (\<lambda>s.
                 Inr (SwitchToStreamingUI W s)))))"

definition InitializePeerConnection :: "world \<Rightarrow> ('a conductor_scheme) \<Rightarrow> (bool \<times> ('a conductor_scheme)) res" where
  "InitializePeerConnection G s =
     (case G of (E, W, R) \<Rightarrow>
        bindR (dcheck (dchecks_on E) (\<not> peer_connection_factory s) s) (\<lambda>s.
        bindR (dcheck (dchecks_on E) (peer_connection s = None) s) (\<lambda>s.
          let s = s\<lparr>peer_connection_factory := factory_ok R\<rparr>
          in if \<not> peer_connection_factory s then
               Inr (False, DeletePeerConnection
                 (MessageBox ''Error'' ''Failed to initialize PeerConnectionFactory'' True s))
             else
               bindR (CreatePeerConnection G True s) (\<lambda>(ok, s).
               bindR (AddTracks G
                        (if ok then s
                         else DeletePeerConnection (MessageBox ''Error'' ''CreatePeerConnection failed'' True s))) (\<lambda>s.
                 Inr (peer_connection s \<noteq> None, s))))))"

definition ReinitializePeerConnectionForLoopback ::
    "world \<Rightarrow> ('a conductor_scheme) \<Rightarrow> (bool \<times> ('a conductor_scheme)) res" where
  "ReinitializePeerConnectionForLoopback G s =
     (case G of (E, W, R) \<Rightarrow>
        (case peer_connection s of
           None \<Rightarrow> Inl Null_deref
         | Some pc \<Rightarrow>
             let senders = pc_senders R pc
             in bindR (CreatePeerConnection G False (s\<lparr>loopback := True, peer_connection := None\<rparr>)) (\<lambda>(ok, s).
                bindR (if ok then
                         bindR (fold (\<lambda>(t, ids) m. bindR m (pc_call (AddTrack t ids))) senders (Inr s))
                           (pc_call CreateOffer)
                       else Inr s) (\<lambda>s.
                  Inr (peer_connection s \<noteq> None, s)))))"

definition EnsureStreamingUI :: "world \<Rightarrow> ('a conductor_scheme) \<Rightarrow> ('a conductor_scheme) res" where
  "EnsureStreamingUI G s =
     (case G of (E, W, R) \<Rightarrow>
        bindR (dcheck (dchecks_on E) (peer_connection s \<noteq> None) s) (\<lambda>s.
          Inr (if IsWindow W s \<and> ui s \<noteq> STREAMING then SwitchToStreamingUI W s else s)))"

section \<open>Messages to the peer\<close>

definition SendMessage :: "string \<Rightarrow> ('a conductor_scheme) \<Rightarrow> ('a conductor_scheme)" where
  "SendMessage json_object s = QueueUIThreadCallback SEND_MESSAGE_TO_PEER (Text_data json_object) s"

definition OnIceCandidate :: "world \<Rightarrow> candidate \<Rightarrow> ('a conductor_scheme) \<Rightarrow> ('a conductor_scheme) res" where
  "OnIceCandidate G c s =
     (case G of (E, W, R) \<Rightarrow>
        if loopback s then
          pc_call (AddIceCandidate c) s
        else
          (case candidate_string c of
             None \<Rightarrow> Inr s
           | Some sdp \<Rightarrow>
               Inr (SendMessage (json_write R
                 [(kCandidateSdpMidName, JString (sdp_mid c)),
                  (kCandidateSdpMlineIndexName, JInt (sdp_mline_index c)),
                  (kCandidateSdpName, JString sdp)]) s)))"

definition OnSuccess :: "world \<Rightarrow> description \<Rightarrow> ('a conductor_scheme) \<Rightarrow> ('a conductor_scheme) res" where
  "OnSuccess G desc s =
     (case G of (E, W, R) \<Rightarrow>
        bindR (pc_call (SetLocalDescription desc) s) (\<lambda>s.
        let sdp = desc_string desc
        in if loopback s then
             pc_call (SetRemoteDescription (if sdp_ok R kAnswer sdp then Some (kAnswer, sdp) else None)) s
           else
             Inr (SendMessage (json_write R
               [(kSessionDescriptionTypeName, JString (sdp_type_to_string R (desc_type desc))),
                (kSessionDescriptionSdpName, JString sdp)]) s)))"

definition OnFailure :: "('a conductor_scheme) \<Rightarrow> ('a conductor_scheme)" where
  "OnFailure s = s"

definition OnAddTrack :: "nat \<Rightarrow> ('a conductor_scheme) \<Rightarrow> ('a conductor_scheme)" where
  "OnAddTrack t s = QueueUIThreadCallback NEW_TRACK_ADDED (Track_data t) s"

definition OnRemoveTrack :: "nat \<Rightarrow> ('a conductor_scheme) \<Rightarrow> ('a conductor_scheme)" where
  "OnRemoveTrack t s = QueueUIThreadCallback TRACK_REMOVED (Track_data t) s"

end
