(* ===== verification/Conductor_Events.thy ===== *)
theory Conductor_Events
  imports Conductor
begin

text \<open>
  The callbacks of \<open>Conductor\<close>: as observer of the signalling client (\<open>conductor_observer\<close>), and
  as observer of the window (\<open>conductor_callbacks\<close>).
\<close>

section \<open>Observer of the signalling client\<close>

definition Conductor_OnSignedIn :: "world \<Rightarrow> ('a conductor_scheme) \<Rightarrow> ('a conductor_scheme) res" where
  "Conductor_OnSignedIn G s = (case G of (E, W, R) \<Rightarrow> Inr (SwitchToPeerList W (peers s) s))"

definition Conductor_OnDisconnected :: "world \<Rightarrow> ('a conductor_scheme) \<Rightarrow> ('a conductor_scheme) res" where
  "Conductor_OnDisconnected G s =
     (case G of (E, W, R) \<Rightarrow>
        let s = DeletePeerConnection s
        in if IsWindow W s then SwitchToConnectUI E W s else Inr s)"

definition Conductor_OnPeerConnected :: "world \<Rightarrow> int \<Rightarrow> string \<Rightarrow> ('a conductor_scheme) \<Rightarrow> ('a conductor_scheme) res" where
  "Conductor_OnPeerConnected G ident name s =
     (case G of (E, W, R) \<Rightarrow>
        Inr (if ui s = LIST_PEERS then SwitchToPeerList W (peers s) s else s))"

definition Conductor_OnPeerDisconnected :: "world \<Rightarrow> int \<Rightarrow> ('a conductor_scheme) \<Rightarrow> ('a conductor_scheme) res" where
  "Conductor_OnPeerDisconnected G ident s =
     (case G of (E, W, R) \<Rightarrow>
        Inr (if ident = peer_id s then QueueUIThreadCallback PEER_CONNECTION_CLOSED Null_data s
             else if ui s = LIST_PEERS then SwitchToPeerList W (peers s) s
             else s))"

definition Conductor_OnMessageSent :: "int \<Rightarrow> ('a conductor_scheme) \<Rightarrow> ('a conductor_scheme) res" where
  "Conductor_OnMessageSent err s = Inr (QueueUIThreadCallback SEND_MESSAGE_TO_PEER Null_data s)"

definition Conductor_OnServerConnectionFailure :: "('a conductor_scheme) \<Rightarrow> ('a conductor_scheme) res" where
  "Conductor_OnServerConnectionFailure s =
     Inr (MessageBox ''Error'' (c_str (''Failed to connect to '' @ login_server s)) True s)"

text \<open>A session description: \<open>type_str\<close> is the message's non-empty type.\<close>

definition receive_description :: "world \<Rightarrow> json \<Rightarrow> string \<Rightarrow> ('a conductor_scheme) \<Rightarrow> ('a conductor_scheme) res" where
  "receive_description G j type_str s =
     (case G of (E, W, R) \<Rightarrow>
        if type_str = ''offer-loopback'' then
          bindR (ReinitializePeerConnectionForLoopback G s) (\<lambda>(ok, s).
            if \<not> ok then bindR (SignOut E (DeletePeerConnection s)) (\<lambda>(_, s). Inr s)
            else Inr s)
        else
          (case sdp_type_from_string R type_str of
             None \<Rightarrow> Inr s
           | Some typ \<Rightarrow>
               (case json_string j kSessionDescriptionSdpName of
                  None \<Rightarrow> Inr s
                | Some sdp \<Rightarrow>
                    if \<not> sdp_ok R typ sdp then Inr s
                    else
                      bindR (pc_call (SetRemoteDescription (Some (typ, sdp))) s) (\<lambda>s.
                        if typ = kOffer then pc_call CreateAnswer s else Inr s))))"

definition receive_candidate :: "world \<Rightarrow> json \<Rightarrow> ('a conductor_scheme) \<Rightarrow> ('a conductor_scheme) res" where
  "receive_candidate G j s =
     (case G of (E, W, R) \<Rightarrow>
        (case (json_string j kCandidateSdpMidName, json_int j kCandidateSdpMlineIndexName,
               json_string j kCandidateSdpName) of
           (Some mid, Some mline, Some sdp) \<Rightarrow>
             if \<not> candidate_ok R mid mline sdp then Inr s
             else pc_call (AddIceCandidate
                    \<lparr>sdp_mid = mid, sdp_mline_index = mline, candidate_string = Some sdp\<rparr>) s
         | _ \<Rightarrow> Inr s))"

definition receive_json :: "world \<Rightarrow> string \<Rightarrow> ('a conductor_scheme) \<Rightarrow> ('a conductor_scheme) res" where
  "receive_json G message s =
     (case G of (E, W, R) \<Rightarrow>
        (case json_parse R message of
           None \<Rightarrow> Inr s
         | Some j \<Rightarrow>
             let type_str = (case json_string j kSessionDescriptionTypeName of None \<Rightarrow> [] | Some t \<Rightarrow> t)
             in if type_str \<noteq> [] then receive_description G j type_str s
                else receive_candidate G j s))"

definition Conductor_OnMessageFromPeer :: "world \<Rightarrow> int \<Rightarrow> string \<Rightarrow> ('a conductor_scheme) \<Rightarrow> ('a conductor_scheme) res" where
  "Conductor_OnMessageFromPeer G pid message s =
     (case G of (E, W, R) \<Rightarrow>
        bindR (dcheck (dchecks_on E) (peer_id s = pid \<or> peer_id s = - 1) s) (\<lambda>s.
        bindR (dcheck (dchecks_on E) (message \<noteq> []) s) (\<lambda>s.
          if peer_connection s = None then
            bindR (dcheck (dchecks_on E) (peer_id s = - 1) s) (\<lambda>s.
            bindR (InitializePeerConnection G (s\<lparr>peer_id := pid\<rparr>)) (\<lambda>(ok, s).
              if \<not> ok then bindR (SignOut E s) (\<lambda>(_, s). Inr s)
              else receive_json G message s))
          else if pid \<noteq> peer_id s then dcheck (dchecks_on E) (peer_id s \<noteq> - 1) s
          else receive_json G message s)))"

definition conductor_observer :: "world \<Rightarrow> ('a conductor_scheme) observer" where
  "conductor_observer G =
     \<lparr>OnSignedIn = Conductor_OnSignedIn G,
      OnDisconnected = Conductor_OnDisconnected G,
      OnPeerConnected = Conductor_OnPeerConnected G,
      OnPeerDisconnected = Conductor_OnPeerDisconnected G,
      OnPeerMessage = Conductor_OnMessageFromPeer G,
      OnMessageSent = Conductor_OnMessageSent,
      OnServerConnectionFailure = Conductor_OnServerConnectionFailure\<rparr>"

section \<open>Observer of the window\<close>

definition StartLogin :: "world \<Rightarrow> string \<Rightarrow> int \<Rightarrow> ('a conductor_scheme) \<Rightarrow> ('a conductor_scheme) res" where
  "StartLogin G server port s =
     (case G of (E, W, R) \<Rightarrow>
        if is_connected s then Inr s
        else Connect E (conductor_observer G) server port (peer_name R) (s\<lparr>login_server := server\<rparr>))"

definition DisconnectFromServer :: "world \<Rightarrow> ('a conductor_scheme) \<Rightarrow> ('a conductor_scheme) res" where
  "DisconnectFromServer G s =
     (case G of (E, W, R) \<Rightarrow>
        if is_connected s then bindR (SignOut E s) (\<lambda>(_, s). Inr s) else Inr s)"

definition ConnectToPeer :: "world \<Rightarrow> int \<Rightarrow> ('a conductor_scheme) \<Rightarrow> ('a conductor_scheme) res" where
  "ConnectToPeer G pid s =
     (case G of (E, W, R) \<Rightarrow>
        bindR (dcheck (dchecks_on E) (peer_id s = - 1) s) (\<lambda>s.
        bindR (dcheck (dchecks_on E) (pid \<noteq> - 1) s) (\<lambda>s.
          if peer_connection s \<noteq> None then
            Inr (MessageBox ''Error'' ''We only support connecting to one peer at a time'' True s)
          else
            bindR (InitializePeerConnection G s) (\<lambda>(ok, s).
              if ok then pc_call CreateOffer (s\<lparr>peer_id := pid\<rparr>)
              else Inr (MessageBox ''Error'' ''Failed to initialize PeerConnection'' True s)))))"

definition DisconnectFromCurrentPeer :: "world \<Rightarrow> ('a conductor_scheme) \<Rightarrow> ('a conductor_scheme) res" where
  "DisconnectFromCurrentPeer G s =
     (case G of (E, W, R) \<Rightarrow>
        bindR (if peer_connection s \<noteq> None then
                 bindR (SendHangUp E (peer_id s) s) (\<lambda>(_, s). Inr (DeletePeerConnection s))
               else Inr s) (\<lambda>s.
          Inr (if IsWindow W s then SwitchToPeerList W (peers s) s else s)))"

definition Conductor_Close :: "world \<Rightarrow> ('a conductor_scheme) \<Rightarrow> ('a conductor_scheme) res" where
  "Conductor_Close G s =
     (case G of (E, W, R) \<Rightarrow>
        bindR (SignOut E s) (\<lambda>(_, s). Inr (DeletePeerConnection s)))"

definition peer_connection_closed :: "world \<Rightarrow> ('a conductor_scheme) \<Rightarrow> ('a conductor_scheme) res" where
  "peer_connection_closed G s =
     (case G of (E, W, R) \<Rightarrow>
        let s = DeletePeerConnection s
        in if IsWindow W s then
             (if is_connected s then Inr (SwitchToPeerList W (peers s) s)
              else SwitchToConnectUI E W s)
           else DisconnectFromServer G s)"

definition send_pending :: "world \<Rightarrow> ('a conductor_scheme) \<Rightarrow> ('a conductor_scheme) res" where
  "send_pending G s =
     (case G of (E, W, R) \<Rightarrow>
        (case pending_messages s of
           [] \<Rightarrow> Inr s
         | msg # rest \<Rightarrow>
             bindR (IsSendingMessage s) (\<lambda>sending.
               if sending then Inr s
               else
                 bindR (SendToPeer E (peer_id s) msg (s\<lparr>pending_messages := rest\<rparr>)) (\<lambda>(ok, s).
                   if \<not> ok \<and> peer_id s \<noteq> - 1 then DisconnectFromServer G s else Inr s))))"

definition send_message_to_peer :: "world \<Rightarrow> ui_data \<Rightarrow> ('a conductor_scheme) \<Rightarrow> ('a conductor_scheme) res" where
  "send_message_to_peer G data s =
     (let s = (case data of Text_data m \<Rightarrow> s\<lparr>pending_messages := pending_messages s @ [m]\<rparr> | _ \<Rightarrow> s)
      in bindR (send_pending G s) (\<lambda>s.
           Inr (if peer_connection s = None then s\<lparr>peer_id := - 1\<rparr> else s)))"

definition UIThreadCallback :: "world \<Rightarrow> int \<Rightarrow> ui_data \<Rightarrow> ('a conductor_scheme) \<Rightarrow> ('a conductor_scheme) res" where
  "UIThreadCallback G msg_id data s =
     (case G of (E, W, R) \<Rightarrow>
        if msg_id = PEER_CONNECTION_CLOSED then peer_connection_closed G s
        else if msg_id = SEND_MESSAGE_TO_PEER then send_message_to_peer G data s
        else if msg_id = NEW_TRACK_ADDED then
          (case data of
             Track_data t \<Rightarrow> (if track_is_video R t then StartRemoteRenderer t s else Inr s)
           | _ \<Rightarrow> Inl Null_deref)
        else if msg_id = TRACK_REMOVED then
          (case data of Track_data t \<Rightarrow> Inr s | _ \<Rightarrow> Inl Null_deref)
        else dcheck (dchecks_on E) False s)"

definition conductor_callbacks :: "world \<Rightarrow> ('a conductor_scheme) wnd_observer" where
  "conductor_callbacks G =
     \<lparr>StartLogin_cb = StartLogin G,
      DisconnectFromServer_cb = DisconnectFromServer G,
      ConnectToPeer_cb = ConnectToPeer G,
      DisconnectFromCurrentPeer_cb = DisconnectFromCurrentPeer G,
      UIThreadCallback_cb = UIThreadCallback G,
      Close_cb = Conductor_Close G\<rparr>"

end
