(* ===== verification/App.thy ===== *)
theory App
  imports Conductor_Events
begin

text \<open>
  The whole process (src/PjWebrtc/main.cc): its start, and the events its message loop delivers,
  as a step relation.  Every event may see different answers of the world; only the build (with
  or without checks) is fixed.
\<close>

section \<open>Start\<close>

record flags =
  flag_server :: string
  flag_port :: int
  flag_autoconnect :: bool
  flag_autocall :: bool

definition default_flags :: flags where
  "default_flags =
     \<lparr>flag_server = ''localhost'', flag_port = kDefaultServerPort,
      flag_autoconnect = False, flag_autocall = False\<rparr>"

text \<open>\<open>Inr (Inl code)\<close>: \<open>wWinMain\<close> returns before its loop; \<open>Inr (Inr s)\<close>: the loop starts in \<open>s\<close>.\<close>

definition wWinMain_start :: "net \<Rightarrow> win \<Rightarrow> flags \<Rightarrow> (int + conductor) res" where
  "wWinMain_start E W f =
     (if flag_port f < 1 \<or> flag_port f > 65535 then Inr (Inl (- 1))
      else
        bindR (MainWnd_Create E W False
                 (MainWnd_init (c_str (flag_server f)) (flag_port f) (flag_autoconnect f) (flag_autocall f))) (\<lambda>(ok, w).
          if \<not> ok then bindR (dcheck (dchecks_on E) False ()) (\<lambda>_. Inr (Inl (- 1)))
          else bindR (Conductor_new (dchecks_on E) w) (\<lambda>s. Inr (Inr s))))"

section \<open>Events\<close>

inductive app_step :: "bool \<Rightarrow> conductor \<Rightarrow> conductor \<Rightarrow> bool" for d where
  thread_message: "\<lbrakk>dchecks_on E = d; msg_queue s = (i, x) # q;
      PreTranslateMessage W T f (conductor_callbacks (E, W, R)) (UI_THREAD_CALLBACK i x) (s\<lparr>msg_queue := q\<rparr>)
        = Inr (b, t)\<rbrakk> \<Longrightarrow> app_step d s t"
| key_message: "\<lbrakk>dchecks_on E = d;
      PreTranslateMessage W T f (conductor_callbacks (E, W, R)) (WM_CHAR k) s = Inr (b, t)\<rbrakk> \<Longrightarrow> app_step d s t"
| window_message: "\<lbrakk>dchecks_on E = d; WndProc W (conductor_callbacks (E, W, R)) m s = Inr t\<rbrakk> \<Longrightarrow> app_step d s t"
| control_connected: "\<lbrakk>dchecks_on E = d; control_socket s = Some CS_CONNECTING;
      OnConnect E Control (s\<lparr>control_socket := Some CS_CONNECTED\<rparr>) = Inr t\<rbrakk> \<Longrightarrow> app_step d s t"
| hanging_connected: "\<lbrakk>dchecks_on E = d; hanging_get s = Some CS_CONNECTING;
      OnHangingGetConnect E Hanging (s\<lparr>hanging_get := Some CS_CONNECTED\<rparr>) = Inr t\<rbrakk> \<Longrightarrow> app_step d s t"
| control_readable: "\<lbrakk>dchecks_on E = d; control_socket s = Some CS_CONNECTED;
      OnRead E (conductor_observer (E, W, R)) s = Inr t\<rbrakk> \<Longrightarrow> app_step d s t"
| hanging_readable: "\<lbrakk>dchecks_on E = d; hanging_get s = Some CS_CONNECTED;
      OnHangingGetRead E (conductor_observer (E, W, R)) s = Inr t\<rbrakk> \<Longrightarrow> app_step d s t"
| socket_closed: "\<lbrakk>dchecks_on E = d; get_sock k s \<noteq> None;
      OnClose E (conductor_observer (E, W, R)) k err s = Inr t\<rbrakk> \<Longrightarrow> app_step d s t"
| resolved: "\<lbrakk>dchecks_on E = d; resolver s;
      OnResolveResult E (conductor_observer (E, W, R)) s = Inr t\<rbrakk> \<Longrightarrow> app_step d s t"
| retry_timer: "\<lbrakk>dchecks_on E = d; retries s = Suc n;
      OnMessage E (conductor_observer (E, W, R)) (s\<lparr>retries := n\<rparr>) = Inr t\<rbrakk> \<Longrightarrow> app_step d s t"
| description_made: "\<lbrakk>dchecks_on E = d; OnSuccess (E, W, R) desc s = Inr t\<rbrakk> \<Longrightarrow> app_step d s t"
| candidate_found: "\<lbrakk>dchecks_on E = d; OnIceCandidate (E, W, R) c s = Inr t\<rbrakk> \<Longrightarrow> app_step d s t"
| track_added: "t = OnAddTrack n s \<Longrightarrow> app_step d s t"
| track_removed: "t = OnRemoveTrack n s \<Longrightarrow> app_step d s t"

inductive app_reach :: "bool \<Rightarrow> conductor \<Rightarrow> bool" for d where
  app_start: "dchecks_on E = d \<Longrightarrow> wWinMain_start E W f = Inr (Inr s) \<Longrightarrow> app_reach d s"
| app_next: "app_reach d s \<Longrightarrow> app_step d s t \<Longrightarrow> app_reach d t"

end
