(* ===== verification/Window_Inv.thy ===== *)
theory Window_Inv
  imports Window_Frame
begin

text \<open>
  What the window asks of its observer, as the locale \<open>window_observer\<close>: every callback keeps an
  invariant \<open>P\<close> that looks neither at what is on show nor at the window's own flags.  Then every
  window message, with the messages nested in it, and every thread message keeps \<open>P\<close>.
\<close>

definition chrome :: "('a wnd_scheme) \<Rightarrow> ('a wnd_scheme) \<Rightarrow> bool" where
  "chrome s t \<longleftrightarrow>
     t\<lparr>ui := ui s, listbox := listbox s, gui_log := gui_log s, hwnd := hwnd s,
       attached := attached s, nested_msg := nested_msg s, destroyed := destroyed s\<rparr> = s"

lemma chrome_upds [simp]:
  "chrome s (s\<lparr>hwnd := h, attached := a\<rparr>)" "chrome s (s\<lparr>nested_msg := n\<rparr>)"
  "chrome s (s\<lparr>destroyed := n\<rparr>)" "chrome s (s\<lparr>hwnd := h, destroyed := n\<rparr>)"
  by (simp_all add: chrome_def)

lemma display_chrome:
  assumes "display s t"
  shows "chrome s t"
proof -
  have "t\<lparr>ui := ui s, listbox := listbox s, gui_log := gui_log s\<rparr> = s"
    using assms by (simp add: display_def)
  then have "(t\<lparr>ui := ui s, listbox := listbox s, gui_log := gui_log s\<rparr>)
      \<lparr>hwnd := hwnd s, attached := attached s, nested_msg := nested_msg s, destroyed := destroyed s\<rparr> = s"
    by simp
  then show ?thesis by (simp add: chrome_def)
qed

lemma chrome_field:
  assumes "chrome s t"
    and "f (t\<lparr>ui := ui s, listbox := listbox s, gui_log := gui_log s, hwnd := hwnd s,
       attached := attached s, nested_msg := nested_msg s, destroyed := destroyed s\<rparr>) = f t"
  shows "f t = f s"
  using assms by (metis chrome_def)

lemma chrome_client_same: "chrome s t \<Longrightarrow> client_same s t"
  unfolding client_same_def by (rule sym, erule chrome_field) (simp add: client.truncate_def)

lemma chrome_fields:
  assumes "chrome s t"
  shows "wnd_callback t = wnd_callback s" "msg_queue t = msg_queue s"
    "local_renderer t = local_renderer s" "remote_renderer t = remote_renderer s"
    "wnd.more t = wnd.more s"
  by (rule chrome_field [OF assms], simp)+

locale window_observer =
  fixes cb :: "('a wnd_scheme) wnd_observer"
    and P :: "('a wnd_scheme) \<Rightarrow> bool"
  assumes chrome_inv: "chrome s t \<Longrightarrow> P s \<Longrightarrow> P t"
    and start_login: "P s \<Longrightarrow> resP P (StartLogin_cb cb server port s)"
    and disconnect_from_server: "P s \<Longrightarrow> resP P (DisconnectFromServer_cb cb s)"
    and connect_to_peer: "P s \<Longrightarrow> resP P (ConnectToPeer_cb cb i s)"
    and disconnect_from_peer: "P s \<Longrightarrow> resP P (DisconnectFromCurrentPeer_cb cb s)"
    and thread_callback: "P s \<Longrightarrow> resP P (UIThreadCallback_cb cb n x s)"
    and close: "P s \<Longrightarrow> resP P (Close_cb cb s)"
begin

lemma display_inv: "display s t \<Longrightarrow> P s \<Longrightarrow> P t"
  by (rule chrome_inv [OF display_chrome])

lemma gui_inv: "P s \<Longrightarrow> P (gui ops s)"
  by (rule display_inv [OF display_gui])

lemma OnDefaultAction_inv: "P s \<Longrightarrow> resP P (OnDefaultAction W cb s)"
  by (auto simp: OnDefaultAction_def Let_def start_login connect_to_peer gui_inv split: UI.split)

lemma OnWndMessage_inv: "P s \<Longrightarrow> resP (\<lambda>(b, t). P t) (OnWndMessage W cb m s)"
  by (cases m)
    (auto simp: OnWndMessage_def resP_bindR OnDefaultAction_inv close gui_inv
      display_inv [OF display_OnPaint] display_inv [OF display_LayoutConnectUI]
      display_inv [OF display_LayoutPeerListUI])

lemma deliver_inv:
  "c = cb \<Longrightarrow> P s \<Longrightarrow> resP P (WndProc W c d s)"
  "c = cb \<Longrightarrow> P s \<Longrightarrow> resP P (WndProcs W c ds s)"
proof (induction W c d s and W c ds s rule: WndProc_WndProcs.induct)
  case (1 W c m ds s)
  note [simp] = \<open>c = cb\<close>
  let ?s = "if \<not> attached s \<and> m = WM_CREATE then s\<lparr>hwnd := True, attached := True\<rparr> else s"
  have s: "P ?s"
    using chrome_inv [OF chrome_upds(1) 1(4)] 1(4) by simp
  show ?case
  proof (cases "attached ?s")
    case False
    with 1(1) [OF refl] gui_inv [OF s] show ?thesis
      by (simp add: Let_def)
  next
    case True
    let ?n = "?s\<lparr>nested_msg := True\<rparr>"
    have finish: "resP P (Inr ((if destroyed t \<and> \<not> nested_msg ?s
        then (gui [Post_quit] t)\<lparr>hwnd := False, destroyed := False\<rparr> else t)
        \<lparr>nested_msg := nested_msg ?s\<rparr>))" if "P t" for t
      using that chrome_inv [OF chrome_upds(4) gui_inv [OF that]] chrome_inv [OF chrome_upds(2)]
      by simp
    have inner: "resP P (if m = WM_NCDESTROY then Inr (t\<lparr>destroyed := True\<rparr>)
          else if \<not> handled then WndProcs W cb ds (gui [Default_proc] t) else Inr t)"
      if "P t" "OnWndMessage W cb m ?n = Inr (handled, t)" for handled t
      using that 1(2) [OF refl _ refl, of "(handled, t)" handled t] True gui_inv [OF that(1)]
        chrome_inv [OF chrome_upds(3) that(1)]
      by simp
    have "P ?n"
      using s chrome_inv [of ?s ?n] by (simp only: chrome_upds)
    then have inv: "resP (\<lambda>(b, t). P t) (OnWndMessage W cb m ?n)"
      by (rule OnWndMessage_inv)
    show ?thesis
    proof (cases "OnWndMessage W cb m ?n")
      case (Inl e)
      with True show ?thesis by (simp add: Let_def)
    next
      case (Inr x)
      obtain handled t where x: "x = (handled, t)" by (cases x)
      then have t: "P t" using inv Inr by simp
      have "resP P (bindR (if m = WM_NCDESTROY then Inr (t\<lparr>destroyed := True\<rparr>)
          else if \<not> handled then WndProcs W cb ds (gui [Default_proc] t) else Inr t)
        (\<lambda>t. Inr ((if destroyed t \<and> \<not> nested_msg ?s
          then (gui [Post_quit] t)\<lparr>hwnd := False, destroyed := False\<rparr> else t)
          \<lparr>nested_msg := nested_msg ?s\<rparr>)))"
        using inner [OF t] Inr x by (intro resP_bindI [OF _ finish]) simp
      with True Inr x show ?thesis by (simp only: WndProc.simps Let_def if_False not_not bindR_Inr prod.case \<open>c = cb\<close>) simp
    qed
  qed
next
  case (3 W c d ds s)
  then show ?case by (cases "WndProc W cb d s") auto
qed simp

lemmas WndProc_inv = deliver_inv(1) [OF refl]

lemma PreTranslateMessage_inv:
  "P s \<Longrightarrow> resP (\<lambda>(b, t). P t) (PreTranslateMessage W T focus cb m s)"
  by (auto simp: PreTranslateMessage_def HandleTabbing_def resP_bindR OnDefaultAction_inv gui_inv
      disconnect_from_peer disconnect_from_server thread_callback
      split: tmsg.split key.split option.split)

end

end
