(* ===== verification/Conductor_Inv.thy ===== *)
theory Conductor_Inv
  imports App Window_Inv
begin

text \<open>
  The conductor's invariant, the proof that the conductor keeps the client's observer contract
  (the interpretation \<open>conductor\<close> of \<open>client_observer\<close>), and the invariants of every reachable
  state of the process.
\<close>

section \<open>Invariant\<close>

text \<open>
  Without a peer connection there is no factory, no loopback mode and no local renderer; with
  one, there is its factory.
\<close>

definition conductor_inv :: "('a conductor_scheme) \<Rightarrow> bool" where
  "conductor_inv s \<longleftrightarrow>
     (peer_connection s = None \<longrightarrow>
        \<not> peer_connection_factory s \<and> \<not> loopback s \<and> local_renderer s = None) \<and>
     (peer_connection s \<noteq> None \<longrightarrow> peer_connection_factory s)"

text \<open>The same, as a predicate on the fields laid beside the client's.\<close>

definition conductor_Q where
  "conductor_Q m \<longleftrightarrow> conductor_inv (client.extend client_init m :: conductor)"

lemma conductor_Q_more [simp]: "conductor_Q (client.more s) = conductor_inv (s :: conductor)"
  by (cases s) (simp add: conductor_Q_def conductor_inv_def client.extend_def client_init_def)

text \<open>\<open>keeps s t\<close>: the client, and what \<open>conductor_inv\<close> says, is as before.\<close>

definition keeps :: "('a conductor_scheme) \<Rightarrow> ('a conductor_scheme) \<Rightarrow> bool" where
  "keeps s t \<longleftrightarrow> client_same s t \<and> (peer_connection t = None \<longleftrightarrow> peer_connection s = None) \<and>
     peer_connection_factory t = peer_connection_factory s \<and> loopback t = loopback s \<and>
     (peer_connection s = None \<longrightarrow> local_renderer t = local_renderer s)"

lemma keeps_refl [simp]: "keeps s s"
  by (simp add: keeps_def)

lemma keeps_trans: "keeps s t \<Longrightarrow> keeps t u \<Longrightarrow> keeps s u"
  by (auto simp: keeps_def intro: client_same_trans)

lemma keeps_inv: "keeps s t \<Longrightarrow> conductor_inv s \<Longrightarrow> conductor_inv t"
  by (auto simp: keeps_def conductor_inv_def)

lemma display_conductor_fields:
  assumes "display s t"
  shows "peer_connection t = peer_connection s" "peer_connection_factory t = peer_connection_factory s"
    "loopback t = loopback s" "peer_id t = peer_id s" "pending_messages t = pending_messages s"
    "login_server t = login_server s"
  by (rule display_field [OF assms], simp)+

lemma display_keeps: "display s t \<Longrightarrow> keeps s t"
  using display_conductor_fields [of s t] display_fields(4) [of s t] display_client_same [of s t]
  by (simp add: keeps_def)

lemma keeps_queue: "keeps s (QueueUIThreadCallback i x s)"
  by (simp add: keeps_def QueueUIThreadCallback_def client_same_iff)

lemma keeps_StartLocalRenderer:
  "peer_connection s \<noteq> None \<Longrightarrow> resP (\<lambda>u. keeps s u \<and> peer_connection u \<noteq> None) (StartLocalRenderer t s)"
  by (auto simp: keeps_def StartLocalRenderer_def gui_def client_same_iff bindR_eq_Inr intro!: resP_I)

lemma keeps_StartRemoteRenderer: "resP (keeps s) (StartRemoteRenderer t s)"
  by (auto simp: keeps_def StartRemoteRenderer_def gui_def client_same_iff bindR_eq_Inr intro!: resP_I)

lemma keeps_pc_call: "resP (keeps s) (pc_call c s)"
  by (simp add: keeps_def pc_call_def client_same_iff split: option.split)

lemma keeps_upd:
  "keeps s (s\<lparr>peer_id := i\<rparr>)" "keeps s (s\<lparr>pending_messages := p\<rparr>)" "keeps s (s\<lparr>login_server := l\<rparr>)"
  by (simp_all add: keeps_def client_same_iff)

lemma DeletePeerConnection_props:
  "client_same s (DeletePeerConnection s)" "conductor_inv (DeletePeerConnection s)"
  "peer_connection (DeletePeerConnection s) = None" "peer_id (DeletePeerConnection s) = - 1"
  "pending_messages (DeletePeerConnection s) = pending_messages s"
  "local_renderer (DeletePeerConnection s) = None" "remote_renderer (DeletePeerConnection s) = None"
  "msg_queue (DeletePeerConnection s) = msg_queue s"
  "login_server (DeletePeerConnection s) = login_server s" "ui (DeletePeerConnection s) = ui s"
  by (auto simp: DeletePeerConnection_def StopRemoteRenderer_def StopLocalRenderer_def gui_def
      client_same_iff conductor_inv_def split: option.splits)


section \<open>The peer connection's operations\<close>

text \<open>\<open>calm s t\<close>: the client is as before and the conductor's invariant holds.\<close>

definition calm :: "('a conductor_scheme) \<Rightarrow> ('a conductor_scheme) \<Rightarrow> bool" where
  "calm s t \<longleftrightarrow> client_same s t \<and> conductor_inv t"

lemma calm_refl: "conductor_inv s \<Longrightarrow> calm s s"
  by (simp add: calm_def)

lemma calm_trans: "calm s t \<Longrightarrow> calm t u \<Longrightarrow> calm s u"
  by (auto simp: calm_def intro: client_same_trans)

lemma keeps_calm: "keeps s t \<Longrightarrow> conductor_inv s \<Longrightarrow> calm s t"
  by (simp add: calm_def keeps_inv) (simp add: keeps_def)

lemma display_calm: "display s t \<Longrightarrow> conductor_inv s \<Longrightarrow> calm s t"
  by (simp add: keeps_calm display_keeps)

lemma calm_keeps_trans: "calm s t \<Longrightarrow> keeps t u \<Longrightarrow> calm s u"
  using calm_trans keeps_calm calm_def by blast

lemma calm_display_trans: "calm s t \<Longrightarrow> display t u \<Longrightarrow> calm s u"
  by (simp add: calm_keeps_trans display_keeps)

lemma client_same_calm_trans: "client_same s t \<Longrightarrow> calm t u \<Longrightarrow> calm s u"
  by (auto simp: calm_def intro: client_same_trans)

lemma calm_DeletePeerConnection: "client_same s t \<Longrightarrow> calm s (DeletePeerConnection t)"
  using DeletePeerConnection_props(1,2) [of t] client_same_trans by (auto simp: calm_def)

lemma pc_call_calm: "conductor_inv s \<Longrightarrow> resP (\<lambda>t. calm s t \<and> peer_connection t \<noteq> None) (pc_call c s)"
  by (auto simp: calm_def pc_call_def client_same_iff conductor_inv_def split: option.split)

lemma pc_call_calm': "calm s t \<Longrightarrow> resP (\<lambda>u. calm s u \<and> peer_connection u \<noteq> None) (pc_call c t)"
  by (rule resP_mono [OF pc_call_calm]) (auto simp: calm_def intro: client_same_trans)

lemma AddTracks_calm:
  assumes "conductor_inv s"
  shows "resP (\<lambda>t. calm s t \<and> peer_connection t \<noteq> None) (AddTracks G s)"
proof -
  obtain E W R where G: "G = (E, W, R)" by (cases G) auto
  have streaming: "calm s (SwitchToStreamingUI W t) \<and> peer_connection (SwitchToStreamingUI W t) \<noteq> None"
    if "calm s t" "peer_connection t \<noteq> None" for t
    using that display_conductor_fields(1) [OF display_SwitchToStreamingUI [of t W]]
    by (simp add: calm_display_trans [OF _ display_SwitchToStreamingUI])
  have video: "resP (\<lambda>u. calm s u \<and> peer_connection u \<noteq> None)
      (case CapturerTrackSource_Create R of
         Some device \<Rightarrow> bindR (StartLocalRenderer (track_id R (Video_track device)) t)
                          (pc_call (AddTrack (Video_track device) [kStreamId]))
       | None \<Rightarrow> Inr t)"
    if "calm s t" "peer_connection t \<noteq> None" for t
  proof -
    have "resP (\<lambda>u. calm s u \<and> peer_connection u \<noteq> None)
        (bindR (StartLocalRenderer x t) (pc_call (AddTrack (Video_track device) [kStreamId])))" for x device
      by (rule resP_bindI [OF keeps_StartLocalRenderer [OF that(2)]])
        (use pc_call_calm' [OF calm_keeps_trans [OF that(1)]] in blast)
    with that show ?thesis by (cases "CapturerTrackSource_Create R") simp_all
  qed
  have work: "resP (\<lambda>t. calm s t \<and> peer_connection t \<noteq> None)
      (bindR (pc_call (AddTrack Audio_track [kStreamId]) s) (\<lambda>s.
        bindR (case CapturerTrackSource_Create R of
                 Some device \<Rightarrow> bindR (StartLocalRenderer (track_id R (Video_track device)) s)
                                  (pc_call (AddTrack (Video_track device) [kStreamId]))
               | None \<Rightarrow> Inr s) (\<lambda>s. Inr (SwitchToStreamingUI W s))))"
    by (rule resP_bindI [OF pc_call_calm [OF assms]], rule resP_bindI [OF video])
      (use streaming in auto)
  show ?thesis
    using work assms by (auto simp: AddTracks_def G calm_refl split: option.split)
qed

lemma CreatePeerConnection_props:
  assumes "peer_connection_factory s"
  shows "resP (\<lambda>(ok, t). client_same s t \<and> peer_connection_factory t \<and> (ok \<longleftrightarrow> peer_connection t \<noteq> None))
    (CreatePeerConnection G dtls s)"
  using assms by (cases G) (simp add: CreatePeerConnection_def res_simps client_same_iff)

lemma calm_connected:
  "client_same s t \<Longrightarrow> peer_connection t \<noteq> None \<Longrightarrow> peer_connection_factory t \<Longrightarrow> calm s t"
  by (simp add: calm_def conductor_inv_def)

text \<open>
  \<open>InitializePeerConnection\<close> answers whether there is a connection, and leaves the client alone.
\<close>

lemma InitializePeerConnection_calm:
  "resP (\<lambda>(ok, t). calm s t \<and> (ok \<longleftrightarrow> peer_connection t \<noteq> None)) (InitializePeerConnection G s)"
proof -
  obtain E W R where G: "G = (E, W, R)" by (cases G) auto
  let ?s = "s\<lparr>peer_connection_factory := True\<rparr>"
  let ?Q = "\<lambda>(ok, t). calm s t \<and> (ok \<longleftrightarrow> peer_connection t \<noteq> None)"
  have gone: "calm s (DeletePeerConnection (MessageBox c m b t))" if "client_same s t" for c m b t
    using that display_client_same [OF display_MessageBox] calm_DeletePeerConnection client_same_trans by blast
  have tracks: "resP ?Q (bindR (AddTracks G u) (\<lambda>s. Inr (peer_connection s \<noteq> None, s)))" if "calm s u" for u
    by (rule resP_bindI [OF AddTracks_calm]) (use that in \<open>auto simp: calm_def intro: client_same_trans\<close>)
  have "resP ?Q (bindR (CreatePeerConnection G True ?s) (\<lambda>(ok, s).
      bindR (AddTracks G (if ok then s
        else DeletePeerConnection (MessageBox ''Error'' ''CreatePeerConnection failed'' True s))) (\<lambda>s.
        Inr (peer_connection s \<noteq> None, s))))"
  proof (rule resP_bind2 [OF CreatePeerConnection_props])
    fix ok t
    assume t: "client_same ?s t \<and> peer_connection_factory t \<and> (ok \<longleftrightarrow> peer_connection t \<noteq> None)"
    have same: "client_same s t"
      by (rule client_same_trans [OF _ t [THEN conjunct1]]) (simp add: client_same_iff)
    show "resP ?Q (bindR (AddTracks G (if ok then t
        else DeletePeerConnection (MessageBox ''Error'' ''CreatePeerConnection failed'' True t))) (\<lambda>s.
        Inr (peer_connection s \<noteq> None, s)))"
      by (rule tracks) (use t same gone in \<open>simp add: calm_connected\<close>)
  qed simp
  moreover have "calm s (DeletePeerConnection (MessageBox c m b (s\<lparr>peer_connection_factory := f\<rparr>)))" for c m b f
    by (rule gone) (simp add: client_same_iff)
  ultimately show ?thesis
    by (cases "factory_ok R")
      (simp_all add: InitializePeerConnection_def G resP_bind_dcheck Let_def DeletePeerConnection_props)
qed

lemma add_senders_calm:
  "resP (calm s) m \<Longrightarrow> resP (calm s) (fold (\<lambda>(t, ids) m. bindR m (pc_call (AddTrack t ids))) senders m)"
proof (induction senders arbitrary: m)
  case (Cons x xs)
  have "resP (calm s) (bindR m (pc_call (AddTrack (fst x) (snd x))))"
    by (rule resP_bindI [OF Cons.prems]) (rule resP_mono [OF pc_call_calm'], auto)
  with Cons.IH show ?case by (simp add: case_prod_beta)
qed simp

lemma ReinitializePeerConnectionForLoopback_calm:
  assumes "conductor_inv s"
  shows "resP (\<lambda>(ok, t). client_same s t \<and> (ok \<longrightarrow> conductor_inv t)) (ReinitializePeerConnectionForLoopback G s)"
proof -
  obtain E W R where G: "G = (E, W, R)" by (cases G) auto
  let ?s = "s\<lparr>loopback := True, peer_connection := None\<rparr>"
  let ?Q = "\<lambda>(ok, t). client_same s t \<and> (ok \<longrightarrow> conductor_inv t)"
  have "resP ?Q (bindR (CreatePeerConnection G False ?s) (\<lambda>(ok, s).
      bindR (if ok then bindR (fold (\<lambda>(t, ids) m. bindR m (pc_call (AddTrack t ids))) senders (Inr s))
               (pc_call CreateOffer) else Inr s) (\<lambda>s. Inr (peer_connection s \<noteq> None, s))))"
    if "peer_connection_factory s" for senders
  proof (rule resP_bind2 [OF CreatePeerConnection_props])
    fix ok t
    assume t: "client_same ?s t \<and> peer_connection_factory t \<and> (ok \<longleftrightarrow> peer_connection t \<noteq> None)"
    have same: "client_same s t"
      by (rule client_same_trans [OF _ t [THEN conjunct1]]) (simp add: client_same_iff)
    show "resP ?Q (bindR (if ok then bindR (fold (\<lambda>(t, ids) m. bindR m (pc_call (AddTrack t ids))) senders (Inr t))
        (pc_call CreateOffer) else Inr t) (\<lambda>s. Inr (peer_connection s \<noteq> None, s)))"
    proof (cases ok)
      case True
      with t same have "resP (calm s) (Inr t)" by (simp add: calm_connected)
      then have "resP (calm s) (bindR (fold (\<lambda>(t, ids) m. bindR m (pc_call (AddTrack t ids))) senders (Inr t))
          (pc_call CreateOffer))"
        by (rule resP_bindI [OF add_senders_calm]) (rule resP_mono [OF pc_call_calm'], auto)
      then have "resP ?Q (bindR (bindR (fold (\<lambda>(t, ids) m. bindR m (pc_call (AddTrack t ids))) senders (Inr t))
          (pc_call CreateOffer)) (\<lambda>s. Inr (peer_connection s \<noteq> None, s)))"
        by (rule resP_bindI) (auto simp: calm_def)
      with True show ?thesis by simp
    next
      case False
      with t same show ?thesis by simp
    qed
  qed (use that in simp)
  with assms show ?thesis
    by (auto simp: ReinitializePeerConnectionForLoopback_def G conductor_inv_def Let_def split: option.split)
qed


section \<open>The client's observer\<close>

lemma calm_quiet: "calm s t \<longleftrightarrow> quiet conductor_Q s (t :: conductor)"
  by (simp add: calm_def quiet_def)

lemma calm_eq: "calm s = quiet conductor_Q (s :: conductor)"
  by (simp add: fun_eq_iff calm_quiet)

lemma calm_client_inv: "client_inv conductor_Q d s \<Longrightarrow> calm s t \<Longrightarrow> client_inv conductor_Q d t"
  by (rule client_same_inv) (simp_all add: calm_def)

lemma client_inv_conductor: "client_inv conductor_Q d s \<Longrightarrow> conductor_inv s"
  by (simp add: client_inv_def)

lemma SwitchToConnectUI_calm: "conductor_inv s \<Longrightarrow> resP (calm s) (SwitchToConnectUI E W s)"
  by (rule resP_mono [OF display_SwitchToConnectUI]) (rule display_calm)

lemma OnSignedIn_calm: "conductor_inv s \<Longrightarrow> resP (calm s) (Conductor_OnSignedIn G s)"
  by (cases G) (simp add: Conductor_OnSignedIn_def display_calm display_SwitchToPeerList)

lemma OnDisconnected_calm: "resP (calm s) (Conductor_OnDisconnected G s)"
proof -
  obtain E W R where G: "G = (E, W, R)" by (cases G) auto
  have "calm s (DeletePeerConnection s)"
    by (simp add: calm_DeletePeerConnection)
  then show ?thesis
    using resP_mono [OF SwitchToConnectUI_calm [OF DeletePeerConnection_props(2)], of E W s "calm s"]
      calm_trans
    by (auto simp: Conductor_OnDisconnected_def G Let_def)
qed

lemma OnPeerConnected_calm: "conductor_inv s \<Longrightarrow> resP (calm s) (Conductor_OnPeerConnected G i n s)"
  by (cases G) (simp add: Conductor_OnPeerConnected_def display_calm display_SwitchToPeerList)

lemma OnPeerDisconnected_calm: "conductor_inv s \<Longrightarrow> resP (calm s) (Conductor_OnPeerDisconnected G i s)"
  by (cases G)
    (simp add: Conductor_OnPeerDisconnected_def display_calm display_SwitchToPeerList
      keeps_calm [OF keeps_queue] calm_refl)

lemma OnMessageSent_calm: "conductor_inv s \<Longrightarrow> resP (calm s) (Conductor_OnMessageSent e s)"
  by (simp add: Conductor_OnMessageSent_def keeps_calm [OF keeps_queue])

lemma OnServerConnectionFailure_calm:
  "conductor_inv s \<Longrightarrow> resP (calm s) (Conductor_OnServerConnectionFailure s)"
  by (simp add: Conductor_OnServerConnectionFailure_def display_calm display_MessageBox)

lemma SignOut_conductor: "client_inv conductor_Q d s \<Longrightarrow>
    resP (client_inv conductor_Q d) (bindR (SignOut E s) (\<lambda>(_, s). Inr s))"
  by (rule resP_bind2 [OF SignOut_inv]) auto

lemma receive_description_inv:
  assumes "client_inv conductor_Q d s"
  shows "resP (client_inv conductor_Q d) (receive_description G j ty s)"
proof -
  obtain E W R where G: "G = (E, W, R)" by (cases G) auto
  have inv: "conductor_inv s" using assms by (rule client_inv_conductor)
  have call: "resP (client_inv conductor_Q d) (pc_call c t)" if "client_inv conductor_Q d t" for c t
    by (rule resP_mono [OF pc_call_calm [OF client_inv_conductor [OF that]]])
      (use calm_client_inv [OF that] in blast)
  have loop: "resP (client_inv conductor_Q d) (bindR (ReinitializePeerConnectionForLoopback G s) (\<lambda>(ok, s).
      if \<not> ok then bindR (SignOut E (DeletePeerConnection s)) (\<lambda>(_, s). Inr s) else Inr s))"
  proof (rule resP_bind2 [OF ReinitializePeerConnectionForLoopback_calm [OF inv]])
    fix ok t
    assume t: "client_same s t \<and> (ok \<longrightarrow> conductor_inv t)"
    then have "client_inv conductor_Q d (DeletePeerConnection t)"
      by (intro calm_client_inv [OF assms] calm_DeletePeerConnection) simp
    then show "resP (client_inv conductor_Q d)
        (if \<not> ok then bindR (SignOut E (DeletePeerConnection t)) (\<lambda>(_, s). Inr s) else Inr t)"
      using t SignOut_conductor calm_client_inv [OF assms, of t] by (simp add: calm_def)
  qed
  have sdp: "resP (client_inv conductor_Q d)
      (bindR (pc_call c s) (\<lambda>s. if b then pc_call CreateAnswer s else Inr s))" for c b
    by (rule resP_bindI [OF call [OF assms]]) (simp add: call)
  show ?thesis
    using loop sdp assms by (auto simp: receive_description_def G split: option.split)
qed

lemma receive_json_inv:
  assumes "client_inv conductor_Q d s"
  shows "resP (client_inv conductor_Q d) (receive_json G m s)"
proof -
  obtain E W R where G: "G = (E, W, R)" by (cases G) auto
  have "resP (client_inv conductor_Q d) (pc_call c s)" for c
    by (rule resP_mono [OF pc_call_calm [OF client_inv_conductor [OF assms]]])
      (use calm_client_inv [OF assms] in blast)
  then have "resP (client_inv conductor_Q d) (receive_candidate G j s)" for j
    using assms by (auto simp: receive_candidate_def G split: option.split)
  then show ?thesis
    using assms receive_description_inv [OF assms]
    by (auto simp: receive_json_def G Let_def split: option.split)
qed

lemma Conductor_OnMessageFromPeer_inv:
  assumes "client_inv conductor_Q d s"
  shows "resP (client_inv conductor_Q d) (Conductor_OnMessageFromPeer G i m s)"
proof -
  obtain E W R where G: "G = (E, W, R)" by (cases G) auto
  let ?s = "s\<lparr>peer_id := i\<rparr>"
  have s: "client_inv conductor_Q d ?s"
    by (rule calm_client_inv [OF assms], rule keeps_calm [OF keeps_upd(1)], rule client_inv_conductor [OF assms])
  have "resP (client_inv conductor_Q d) (bindR (InitializePeerConnection G ?s) (\<lambda>(ok, s).
      if \<not> ok then bindR (SignOut E s) (\<lambda>(_, s). Inr s) else receive_json G m s))"
  proof (rule resP_bind2 [OF InitializePeerConnection_calm])
    fix ok t
    assume "calm ?s t \<and> (ok \<longleftrightarrow> peer_connection t \<noteq> None)"
    then have "client_inv conductor_Q d t"
      using calm_client_inv [OF s] by blast
    then show "resP (client_inv conductor_Q d)
        (if \<not> ok then bindR (SignOut E t) (\<lambda>(_, s). Inr s) else receive_json G m t)"
      by (simp add: SignOut_conductor receive_json_inv)
  qed
  with assms receive_json_inv [OF assms] show ?thesis
    by (simp only: Conductor_OnMessageFromPeer_def G prod.case resP_bind_dcheck resP_dcheck split: if_split)
      blast
qed

text \<open>The conductor keeps the contract the client's handlers rest on.\<close>

interpretation conductor: client_observer "conductor_observer G :: conductor observer" conductor_Q for G
proof unfold_locales
  fix s :: conductor and i n e
  assume "conductor_Q (client.more s)"
  then have s: "conductor_inv s" by simp
  note [simp] = conductor_observer_def calm_eq [symmetric]
  show "resP (quiet conductor_Q s) (OnSignedIn (conductor_observer G) s)"
    by (simp add: OnSignedIn_calm [OF s])
  show "resP (quiet conductor_Q s) (OnDisconnected (conductor_observer G) s)"
    by (simp add: OnDisconnected_calm)
  show "resP (quiet conductor_Q s) (OnPeerConnected (conductor_observer G) i n s)"
    by (simp add: OnPeerConnected_calm [OF s])
  show "resP (quiet conductor_Q s) (OnPeerDisconnected (conductor_observer G) i s)"
    by (simp add: OnPeerDisconnected_calm [OF s])
  show "resP (quiet conductor_Q s) (OnMessageSent (conductor_observer G) e s)"
    by (simp add: OnMessageSent_calm [OF s])
  show "resP (quiet conductor_Q s) (OnServerConnectionFailure (conductor_observer G) s)"
    by (simp add: OnServerConnectionFailure_calm [OF s])
qed (simp add: conductor_observer_def Conductor_OnMessageFromPeer_inv)

section \<open>The window's observer\<close>

abbreviation process_inv :: "bool \<Rightarrow> conductor \<Rightarrow> bool" where
  "process_inv \<equiv> client_inv conductor_Q"

lemma process_inv_Delete: "process_inv d s \<Longrightarrow> process_inv d (DeletePeerConnection s)"
  by (erule calm_client_inv) (simp add: calm_DeletePeerConnection)

lemma process_inv_keeps: "process_inv d s \<Longrightarrow> keeps s t \<Longrightarrow> process_inv d t"
  using calm_client_inv keeps_calm client_inv_conductor by blast

lemma process_inv_display: "process_inv d s \<Longrightarrow> display s t \<Longrightarrow> process_inv d t"
  by (rule process_inv_keeps [OF _ display_keeps])

lemma process_inv_pc_call: "process_inv d s \<Longrightarrow> resP (process_inv d) (pc_call c s)"
  by (rule resP_mono [OF pc_call_calm [OF client_inv_conductor]]) (use calm_client_inv in blast)+

lemma StartLogin_inv: "process_inv d s \<Longrightarrow> resP (process_inv d) (StartLogin G server port s)"
  by (cases G) (simp add: StartLogin_def conductor.Connect_inv process_inv_keeps [OF _ keeps_upd(3)])

lemma DisconnectFromServer_inv: "process_inv d s \<Longrightarrow> resP (process_inv d) (DisconnectFromServer G s)"
  by (cases G) (simp add: DisconnectFromServer_def SignOut_conductor)

lemma ConnectToPeer_inv:
  assumes "process_inv d s"
  shows "resP (process_inv d) (ConnectToPeer G i s)"
proof -
  obtain E W R where G: "G = (E, W, R)" by (cases G) auto
  have "resP (process_inv d) (bindR (InitializePeerConnection G s) (\<lambda>(ok, s).
      if ok then pc_call CreateOffer (s\<lparr>peer_id := i\<rparr>)
      else Inr (MessageBox ''Error'' ''Failed to initialize PeerConnection'' True s)))"
  proof (rule resP_bind2 [OF InitializePeerConnection_calm])
    fix ok t
    assume "calm s t \<and> (ok \<longleftrightarrow> peer_connection t \<noteq> None)"
    then have "process_inv d t" using calm_client_inv [OF assms] by blast
    then show "resP (process_inv d) (if ok then pc_call CreateOffer (t\<lparr>peer_id := i\<rparr>)
        else Inr (MessageBox ''Error'' ''Failed to initialize PeerConnection'' True t))"
      by (simp add: process_inv_pc_call process_inv_keeps [OF _ keeps_upd(1)]
          process_inv_display [OF _ display_MessageBox])
  qed
  then show ?thesis
    using process_inv_display [OF assms display_MessageBox]
    by (simp add: ConnectToPeer_def G resP_bind_dcheck)
qed

lemma DisconnectFromCurrentPeer_inv:
  assumes "process_inv d s"
  shows "resP (process_inv d) (DisconnectFromCurrentPeer G s)"
proof -
  obtain E W R where G: "G = (E, W, R)" by (cases G) auto
  have hang: "resP (process_inv d) (if peer_connection s \<noteq> None then
      bindR (SendHangUp E (peer_id s) s) (\<lambda>(_, s). Inr (DeletePeerConnection s)) else Inr s)"
    using assms resP_bind2 [OF SendToPeer_inv [OF assms, of E "peer_id s" kByeMessage],
        of "process_inv d" "\<lambda>_ s. Inr (DeletePeerConnection s)"]
    by (simp add: SendHangUp_def process_inv_Delete)
  show ?thesis
    unfolding DisconnectFromCurrentPeer_def G prod.case
    by (rule resP_bindI [OF hang]) (simp add: process_inv_display [OF _ display_SwitchToPeerList])
qed

lemma Conductor_Close_inv: "process_inv d s \<Longrightarrow> resP (process_inv d) (Conductor_Close G s)"
  by (cases G) (auto simp: Conductor_Close_def process_inv_Delete intro!: resP_bind2 [OF SignOut_inv])

lemma send_pending_inv:
  assumes "process_inv d s"
  shows "resP (process_inv d) (send_pending G s)"
proof -
  obtain E W R where G: "G = (E, W, R)" by (cases G) auto
  have send: "resP (process_inv d) (bindR (SendToPeer E (peer_id s) msg (s\<lparr>pending_messages := rest\<rparr>))
      (\<lambda>(ok, s). if \<not> ok \<and> peer_id s \<noteq> - 1 then DisconnectFromServer G s else Inr s))" for msg rest
    by (rule resP_bind2 [OF SendToPeer_inv [OF process_inv_keeps [OF assms keeps_upd(2)]]])
      (simp add: DisconnectFromServer_inv)
  show ?thesis
    using assms send unfolding G
    by (cases "IsSendingMessage s") (auto simp: send_pending_def split: list.split)
qed

lemma UIThreadCallback_inv:
  assumes "process_inv d s"
  shows "resP (process_inv d) (UIThreadCallback G n x s)"
proof -
  obtain E W R where G: "G = (E, W, R)" by (cases G) auto
  let ?s = "DeletePeerConnection s"
  have del: "process_inv d ?s" using assms by (rule process_inv_Delete)
  have ui: "resP (process_inv d) (SwitchToConnectUI E W ?s)"
    by (rule resP_mono [OF display_SwitchToConnectUI]) (rule process_inv_display [OF del])
  have closed: "resP (process_inv d) (peer_connection_closed G s)"
    using ui DisconnectFromServer_inv [OF del] process_inv_display [OF del display_SwitchToPeerList]
    by (simp add: peer_connection_closed_def G Let_def)
  have "process_inv d (s\<lparr>pending_messages := p\<rparr>)" for p
    by (rule process_inv_keeps [OF assms keeps_upd(2)])
  then have "process_inv d (case x of Text_data m \<Rightarrow> s\<lparr>pending_messages := pending_messages s @ [m]\<rparr> | _ \<Rightarrow> s)"
    using assms by (cases x) simp_all
  then have "resP (process_inv d) (send_message_to_peer G x s)"
    unfolding send_message_to_peer_def Let_def
    by (rule resP_bindI [OF send_pending_inv]) (simp add: process_inv_keeps [OF _ keeps_upd(1)])
  moreover have "resP (process_inv d) (StartRemoteRenderer t s)" for t
    by (rule resP_mono [OF keeps_StartRemoteRenderer]) (rule process_inv_keeps [OF assms])
  ultimately show ?thesis
    using closed assms by (simp add: UIThreadCallback_def G split: ui_data.split)
qed

lemma chrome_keeps:
  assumes "chrome s t"
  shows "keeps s t"
proof -
  have "wnd.more t = wnd.more s" "local_renderer t = local_renderer s"
    using chrome_fields [OF assms] by auto
  then show ?thesis
    using chrome_client_same [OF assms]
    by (cases s; cases t) (simp add: keeps_def)
qed

interpretation window: window_observer "conductor_callbacks G" "process_inv d" for G d
  by unfold_locales
    (simp_all add: conductor_callbacks_def process_inv_keeps [OF _ chrome_keeps] StartLogin_inv
      DisconnectFromServer_inv ConnectToPeer_inv DisconnectFromCurrentPeer_inv UIThreadCallback_inv
      Conductor_Close_inv)

end
