(* ===== verification/App_Inv.thy ===== *)
theory App_Inv
  imports Conductor_Inv
begin

text \<open>
  Every reachable state of the process satisfies the joint invariant of the client and the
  conductor; case and simplification rules for the step relation.
\<close>

inductive_cases app_stepE: "app_step d s t"
inductive_cases app_reachE: "app_reach d s"

inductive_simps app_step_simps: "app_step d s t"

lemma process_inv_queue: "process_inv d s \<Longrightarrow> process_inv d (s\<lparr>msg_queue := q\<rparr>)"
  by (erule process_inv_keeps) (simp add: keeps_def client_same_iff)

lemma process_inv_sockets:
  "process_inv d s \<Longrightarrow> control_socket s \<noteq> None \<Longrightarrow> process_inv d (s\<lparr>control_socket := Some CS_CONNECTED\<rparr>)"
  "process_inv d s \<Longrightarrow> hanging_get s \<noteq> None \<Longrightarrow> process_inv d (s\<lparr>hanging_get := Some c\<rparr>)"
  "process_inv d s \<Longrightarrow> process_inv d (s\<lparr>retries := n\<rparr>)"
  by (auto simp: client_inv_def has_sockets_def conductor_Q_def client.extend_def conductor_inv_def)

lemma app_step_inv:
  assumes "app_step d s t" "process_inv d s"
  shows "process_inv d t"
  using assms(1)
proof (cases rule: app_step.cases)
  case (thread_message E i x q W T f R b)
  have "resP (\<lambda>(b, t). process_inv d t) (Inr (b, t))"
    unfolding thread_message(3) [symmetric]
    by (rule window.PreTranslateMessage_inv [OF process_inv_queue [OF assms(2)]])
  then show ?thesis by simp
next
  case (key_message E W T f R k b)
  have "resP (\<lambda>(b, t). process_inv d t) (Inr (b, t))"
    unfolding key_message(2) [symmetric] by (rule window.PreTranslateMessage_inv [OF assms(2)])
  then show ?thesis by simp
next
  case (window_message E W R m)
  show ?thesis
    by (rule resP_D [OF window.WndProc_inv [OF assms(2)] window_message(2)])
next
  case (control_connected E)
  then have "process_inv d (s\<lparr>control_socket := Some CS_CONNECTED\<rparr>)"
    by (simp add: process_inv_sockets assms(2))
  then show ?thesis
    by (rule resP_D [OF conductor.OnConnect_inv control_connected(3)]) simp
next
  case (hanging_connected E)
  then have "process_inv d (s\<lparr>hanging_get := Some CS_CONNECTED\<rparr>)"
    by (simp add: process_inv_sockets assms(2))
  then show ?thesis
    by (rule resP_D [OF conductor.OnHangingGetConnect_inv hanging_connected(3)])
next
  case (control_readable E W R)
  show ?thesis
    by (rule resP_D [OF _ control_readable(3)], use conductor.OnRead_inv assms(2) control_readable(1) in blast)
next
  case (hanging_readable E W R)
  show ?thesis
    by (rule resP_D [OF conductor.OnHangingGetRead_inv [OF assms(2)] hanging_readable(3)])
next
  case (socket_closed E k W R err)
  show ?thesis
    by (rule resP_D [OF conductor.OnClose_inv [OF assms(2)] socket_closed(3)])
next
  case (resolved E W R)
  show ?thesis
    by (rule resP_D [OF conductor.OnResolveResult_inv [OF assms(2)] resolved(3)])
next
  case (retry_timer E n W R)
  have "process_inv d (s\<lparr>retries := n\<rparr>)"
    by (rule process_inv_sockets(3) [OF assms(2)])
  then show ?thesis
    by (rule resP_D [OF conductor.DoConnect_inv retry_timer(3) [unfolded OnMessage_def]])
next
  case (description_made E W R desc)
  have "resP (process_inv d) (OnSuccess (E, W, R) desc s)"
    unfolding OnSuccess_def Let_def prod.case
    by (rule resP_bindI [OF process_inv_pc_call [OF assms(2)]])
      (simp add: process_inv_pc_call SendMessage_def process_inv_keeps [OF _ keeps_queue])
  then show ?thesis by (rule resP_D [OF _ description_made(2)])
next
  case (candidate_found E W R c)
  have "resP (process_inv d) (OnIceCandidate (E, W, R) c s)"
    using assms(2)
    by (simp add: OnIceCandidate_def process_inv_pc_call SendMessage_def
        process_inv_keeps [OF _ keeps_queue] split: option.split)
  then show ?thesis by (rule resP_D [OF _ candidate_found(2)])
next
  case (track_added n)
  then show ?thesis
    by (simp add: OnAddTrack_def process_inv_keeps [OF assms(2) keeps_queue])
next
  case (track_removed n)
  then show ?thesis
    by (simp add: OnRemoveTrack_def process_inv_keeps [OF assms(2) keeps_queue])
qed

lemma start_inv:
  assumes "wWinMain_start E W f = Inr (Inr s)"
  shows "process_inv d s"
proof -
  let ?w = "MainWnd_init (c_str (flag_server f)) (flag_port f) (flag_autoconnect f) (flag_autocall f)"
  obtain w where w: "MainWnd_Create E W False ?w = Inr (True, w)" "Conductor_new (dchecks_on E) w = Inr s"
    using assms by (auto simp: wWinMain_start_def bindR_eq_Inr split: if_splits)
  let ?u = "CreateChildWindows (?w\<lparr>hwnd := create_ok W, attached := create_ok W\<rparr>)"
  have "SwitchToConnectUI E W ?u = Inr w"
    using w(1) by (auto simp: MainWnd_Create_def bindR_eq_Inr dcheck_eq_Inr Let_def split: if_splits)
  then have "display ?u w"
    by (rule resP_D [OF display_SwitchToConnectUI])
  then have "client_same ?u w" "local_renderer w = local_renderer ?u"
    by (rule display_client_same, rule display_fields(4))
  then have w_eq: "client_same ?w w" "local_renderer w = local_renderer ?w"
    by (simp_all add: CreateChildWindows_def gui_def client_same_iff)
  have "s = (wnd.extend w (conductor.fields (- 1) False None False [] []))\<lparr>callback := True, wnd_callback := True\<rparr>"
    using w(2) by (auto simp: Conductor_new_def RegisterObserver_def MainWnd_RegisterObserver_def bindR_eq_Inr dcheck_eq_Inr)
  then have "client_same (client_init\<lparr>callback := True\<rparr>) (client.truncate s)" "conductor_inv s"
    using w_eq
    by (simp_all add: client_same_iff conductor_inv_def wnd.defs conductor.defs MainWnd_init_def client.defs)
  then show ?thesis
    by (simp add: client_inv_def client_same_iff client.truncate_def client_init_def)
qed

lemma reach_inv: "app_reach d s \<Longrightarrow> process_inv d s"
  by (induction rule: app_reach.induct) (use start_inv app_step_inv in blast)+

end
