(* ===== verification/App_Sample.thy ===== *)
theory App_Sample
  imports App_Inv
begin

text \<open>
  One concrete world: a network whose connections are pending until an event says otherwise, a
  window whose text extents are empty and whose edit fields hold the default server and port,
  and a WebRTC library that makes every object it is asked for.  The states of a process in this
  world, from its start to a pending sign-in, are where properties are tried on an input.
\<close>

definition sample_net :: "bool \<Rightarrow> net" where
  "sample_net d =
     \<lparr>dchecks_on = d, is_unresolved = (\<lambda>a. a = (''slow'', 8888)),
      connect_to = (\<lambda>k a. (0, CS_CONNECTING)),
      recv_chunks = (\<lambda>k. []), send_to = (\<lambda>k x. int (length x)), resolve_error = 0,
      resolved_address = (''10.0.0.1'', 8888)\<rparr>"

definition sample_win :: "string \<Rightarrow> win" where
  "sample_win server =
     \<lparr>os_is_window = True, class_ok = True, create_ok = True, client_size = (640, 480),
      logical_area = (640, 480), text_rect = (\<lambda>c x. (0, 0, 0, 0)), ctl_client_rect = (\<lambda>c. (0, 0, 0, 0)),
      ctl_window_rect = (\<lambda>c. (0, 0, 0, 0)),
      ctl_text = (\<lambda>c. if c = EDIT1 then server else if c = EDIT2 then ''8888'' else []),
      lb_addstring = (\<lambda>l x. int (length l)), lb_getcount = (\<lambda>l. int (length l)),
      lb_setcursel = (\<lambda>l i. i), lb_getcursel = (\<lambda>l. 0), lb_getitemdata = (\<lambda>l i. i)\<rparr>"

definition sample_rtc :: rtc where
  "sample_rtc =
     \<lparr>factory_ok = True, pc_ok = (\<lambda>b c. True), pc_senders = (\<lambda>p. []), num_devices = Some 2,
      vcm_ok = (\<lambda>i. True), track_id = (\<lambda>t. 0), json_parse = (\<lambda>x. None), json_write = (\<lambda>fs. ''{}''),
      sdp_type_from_string = (\<lambda>x. None), sdp_type_to_string = (\<lambda>x. ''offer''),
      sdp_ok = (\<lambda>t x. True), candidate_ok = (\<lambda>m i x. True), track_is_video = (\<lambda>t. True),
      connection_string = ''stun:stun.l.google.com:19302'', peer_name = ''user@host''\<rparr>"

definition sample_world :: "bool \<Rightarrow> string \<Rightarrow> world" where
  "sample_world d server = (sample_net d, sample_win server, sample_rtc)"

lemma sample_net_simps [simp]:
  "dchecks_on (sample_net d) = d" "is_unresolved (sample_net d) a = (a = (''slow'', 8888))"
  "connect_to (sample_net d) k a = (0, CS_CONNECTING)" "recv_chunks (sample_net d) k = []"
  "send_to (sample_net d) k x = int (length x)"
  by (simp_all add: sample_net_def)

section \<open>The start of the process\<close>

text \<open>What the process is when its loop starts: shown, observed, and not connected.\<close>

definition started :: "conductor \<Rightarrow> bool" where
  "started s \<longleftrightarrow>
     client_same (client_init\<lparr>callback := True\<rparr>) (client.truncate s) \<and>
     ui s = CONNECT_TO_SERVER \<and> hwnd s \<and> attached s \<and> wnd_callback s \<and> \<not> nested_msg s \<and>
     \<not> destroyed s \<and> msg_queue s = [] \<and> local_renderer s = None \<and> remote_renderer s = None \<and>
     peer_connection s = None \<and> peer_id s = - 1 \<and> pending_messages s = []"

lemma wWinMain_started:
  assumes "class_ok W" "create_ok W" "os_is_window W" "1 \<le> flag_port f" "flag_port f \<le> 65535"
  shows "\<exists>s. wWinMain_start E W f = Inr (Inr s) \<and> started s"
proof -
  let ?w = "MainWnd_init (c_str (flag_server f)) (flag_port f) (flag_autoconnect f) (flag_autocall f)"
  let ?u = "CreateChildWindows (?w\<lparr>hwnd := True, attached := True\<rparr>)"
  have "IsWindow W ?u"
    using assms by (simp add: IsWindow_def CreateChildWindows_def gui_def)
  then obtain w where w: "SwitchToConnectUI E W ?u = Inr w" "ui w = CONNECT_TO_SERVER"
    by (auto simp: SwitchToConnectUI_def Let_def)
  have disp: "display ?u w"
    by (rule resP_D [OF display_SwitchToConnectUI w(1)])
  note f = display_fields [OF disp]
  have create: "MainWnd_Create E W False ?w = Inr (True, w)"
    using assms w f(1)
    by (simp add: MainWnd_Create_def RegisterWindowClass_def MainWnd_init_def client.defs wnd.defs
        CreateChildWindows_def gui_def)
  let ?s = "(wnd.extend w (conductor.fields (- 1) False None False [] []))
      \<lparr>callback := True, wnd_callback := True\<rparr>"
  have "client_same ?u w" by (rule display_client_same [OF disp])
  then have same: "client_same client_init (client.truncate w)"
    by (simp add: client_same_iff CreateChildWindows_def gui_def MainWnd_init_def client.defs client_init_def)
  then have "Conductor_new (dchecks_on E) w = Inr ?s"
    by (simp add: Conductor_new_def RegisterObserver_def MainWnd_RegisterObserver_def client_same_iff
        client_init_def client.truncate_def wnd.defs)
  with create assms have "wWinMain_start E W f = Inr (Inr ?s)"
    by (simp add: wWinMain_start_def)
  moreover have "started ?s"
    using same w f
    by (simp add: started_def client_same_iff client.truncate_def wnd.defs conductor.defs
        CreateChildWindows_def gui_def MainWnd_init_def client.defs client_init_def)
  ultimately show ?thesis by blast
qed

section \<open>A login in the sample world\<close>

lemma sample_texts [simp]:
  "GetWindowText (sample_win ''localhost'') EDIT1 = ''localhost''"
  "GetWindowText (sample_win ''slow'') EDIT1 = ''slow''"
  "GetWindowText (sample_win x) EDIT2 = ''8888''"
  by (simp_all add: GetWindowText_def sample_win_def MAX_PATH_def c_str_def)

lemma atoi_8888 [simp]: "atoi (c_str ''8888'') = 8888"
  by (simp add: c_str_def atoi_def is_space_def is_digit_def digits_val_def digit_val_def clamp_int_def
      INT_MIN_def INT_MAX_def)

lemma click_StartLogin:
  assumes "started s" "server \<noteq> []" "GetWindowText (sample_win server) EDIT1 = server"
  shows "WndProc (sample_win server) cb (Deliver (WM_COMMAND (Some BUTTON) BN_CLICKED) []) s =
     bindR (StartLogin_cb cb server 8888 (s\<lparr>nested_msg := True\<rparr>)) (\<lambda>t.
       Inr ((if destroyed t then (gui [Post_quit] t)\<lparr>hwnd := False, destroyed := False\<rparr> else t)
              \<lparr>nested_msg := False\<rparr>))"
proof -
  have "OnWndMessage (sample_win server) cb (WM_COMMAND (Some BUTTON) BN_CLICKED) (s\<lparr>nested_msg := True\<rparr>)
      = bindR (StartLogin_cb cb server 8888 (s\<lparr>nested_msg := True\<rparr>)) (\<lambda>s. Inr (True, s))"
    using assms by (simp add: OnWndMessage_def OnDefaultAction_def started_def Let_def)
  with assms(1) show ?thesis
    by (simp add: started_def Let_def bindR_assoc)
qed

text \<open>With a server that resolves at once, the login leaves the sign-in request waiting.\<close>

lemma sample_login:
  "\<exists>s. app_reach d s \<and> state s = SIGNING_IN \<and> my_id s = - 1 \<and> callback s \<and>
     control_socket s = Some CS_CONNECTING \<and> hanging_get s = Some CS_CLOSED \<and>
     onconnect_data s = sign_in_request ''user@host'' \<and> peers s = [] \<and> control_data s = []"
proof -
  let ?W = "sample_win ''localhost''" and ?m = "Deliver (WM_COMMAND (Some BUTTON) BN_CLICKED) []"
  obtain s where s: "wWinMain_start (sample_net d) ?W default_flags = Inr (Inr s)" "started s"
    using wWinMain_started [of ?W default_flags "sample_net d"]
    by (auto simp: sample_win_def default_flags_def kDefaultServerPort_def)
  have reach: "app_reach d s"
    by (rule app_start [OF sample_net_simps(1) s(1)])
  have "client_same (client_init\<lparr>callback := True\<rparr>) (client.truncate s)" "\<not> destroyed s"
    using s(2) by (simp_all add: started_def)
  then have "\<exists>t. WndProc ?W (conductor_callbacks (sample_net d, ?W, sample_rtc)) ?m s = Inr t \<and>
     state t = SIGNING_IN \<and> my_id t = - 1 \<and> callback t \<and>
     control_socket t = Some CS_CONNECTING \<and> hanging_get t = Some CS_CLOSED \<and>
     onconnect_data t = sign_in_request ''user@host'' \<and> peers t = [] \<and> control_data t = []"
    using s(2)
    by (simp add: click_StartLogin conductor_callbacks_def StartLogin_def is_connected_def Connect_def
        SetPort_def DoConnect_def InitSocketSignals_def ConnectControlSocket_def sock_defs
        client_same_iff client.truncate_def client_init_def Let_def sample_rtc_def kDefaultServerPort_def
        SOCKET_ERROR_def del: WndProc.simps)
  then obtain t where "WndProc ?W (conductor_callbacks (sample_net d, ?W, sample_rtc)) ?m s = Inr t"
     "state t = SIGNING_IN \<and> my_id t = - 1 \<and> callback t \<and>
     control_socket t = Some CS_CONNECTING \<and> hanging_get t = Some CS_CLOSED \<and>
     onconnect_data t = sign_in_request ''user@host'' \<and> peers t = [] \<and> control_data t = []"
    by blast
  with app_next [OF reach window_message [OF sample_net_simps(1)]] show ?thesis by blast
qed

text \<open>With a server that has to be looked up, the login leaves the resolver running.\<close>

lemma sample_lookup:
  "\<exists>s. app_reach d s \<and> state s = RESOLVING \<and> hanging_get s = None \<and> attached s \<and> wnd_callback s"
proof -
  let ?W = "sample_win ''slow''" and ?m = "Deliver (WM_COMMAND (Some BUTTON) BN_CLICKED) []"
  obtain s where s: "wWinMain_start (sample_net d) ?W default_flags = Inr (Inr s)" "started s"
    using wWinMain_started [of ?W default_flags "sample_net d"]
    by (auto simp: sample_win_def default_flags_def kDefaultServerPort_def)
  have reach: "app_reach d s"
    by (rule app_start [OF sample_net_simps(1) s(1)])
  have "client_same (client_init\<lparr>callback := True\<rparr>) (client.truncate s)" "\<not> destroyed s"
    "attached s" "wnd_callback s"
    using s(2) by (simp_all add: started_def)
  then have "\<exists>t. WndProc ?W (conductor_callbacks (sample_net d, ?W, sample_rtc)) ?m s = Inr t \<and>
     state t = RESOLVING \<and> hanging_get t = None \<and> attached t \<and> wnd_callback t"
    using s(2)
    by (simp add: click_StartLogin conductor_callbacks_def StartLogin_def is_connected_def Connect_def
        SetPort_def client_same_iff client.truncate_def client_init_def Let_def sample_rtc_def
        kDefaultServerPort_def del: WndProc.simps)
  then obtain t where "WndProc ?W (conductor_callbacks (sample_net d, ?W, sample_rtc)) ?m s = Inr t"
     "state t = RESOLVING \<and> hanging_get t = None \<and> attached t \<and> wnd_callback t" by blast
  with app_next [OF reach window_message [OF sample_net_simps(1)]] show ?thesis by blast
qed

section \<open>A call in progress\<close>

text \<open>A conductor signed in as 7 and in a call with peer 3, with one message waiting.\<close>

definition sample_call :: conductor where
  "sample_call =
     (wnd.extend (MainWnd_init ''localhost'' 8888 False False)
        (conductor.fields 3 False (Some [Created True ''stun'']) True [''first''] ''localhost''))
       \<lparr>callback := True, wnd_callback := True, state := CONNECTED, my_id := 7,
        control_socket := Some CS_CLOSED, hanging_get := Some CS_CONNECTED\<rparr>"

lemma sample_call_simps [simp]:
  "callback sample_call" "state sample_call = CONNECTED" "my_id sample_call = 7" "peer_id sample_call = 3"
  "peer_connection sample_call = Some [Created True ''stun'']" "loopback sample_call = False"
  "control_socket sample_call = Some CS_CLOSED" "hanging_get sample_call = Some CS_CONNECTED"
  "pending_messages sample_call = [''first'']" "msg_queue sample_call = []"
  "server_address sample_call = ([], 0)"
  by (simp_all add: sample_call_def MainWnd_init_def client.defs wnd.defs conductor.defs client_init_def)

end
