(* ===== verification/Signal_Props.thy ===== *)
theory Signal_Props
  imports Signal_Parse
begin

text \<open>
  What the client's parsers recover from what is printed: the framing of its own requests, the
  entries of a peer list, and the bound its fixed request buffer puts on a name.
\<close>

section \<open>Searching for a pattern whose first character is rare\<close>

lemma find_at_skip:
  "p \<notin> set xs \<Longrightarrow> find_at i (p # ps) (xs @ ys) = find_at (i + length xs) (p # ps) ys"
  by (induction xs arbitrary: i) auto

lemma find_at_here: "prefix pat ys \<Longrightarrow> find_at i pat ys = Some i"
  by (cases ys) auto

lemma find_at_miss:
  "\<not> prefix pat (c # ys) \<Longrightarrow> find_at i pat (c # ys) = find_at (Suc i) pat ys"
  by simp

lemma str_find_0: "str_find s pat 0 = find_at 0 pat s"
  by (simp add: str_find_def)

lemma not_in_show_nat: "\<not> is_digit c \<Longrightarrow> c \<notin> set (show_nat n)"
  using show_nat_digits by blast

lemma not_in_show_int: "\<not> is_digit c \<Longrightarrow> c \<noteq> CHR ''-'' \<Longrightarrow> c \<notin> set (show_int n)"
  by (auto simp: show_int_def dest: not_in_show_nat)

lemma not_digits [simp]:
  "\<not> is_digit (CHR 0x0D)" "\<not> is_digit (CHR 0x0A)" "\<not> is_digit (CHR 0x00)" "\<not> is_digit (CHR '','')"
  by (simp_all add: is_digit_def)

lemma length_show_nat: "n < 10 ^ Suc k \<Longrightarrow> length (show_nat n) \<le> Suc k"
proof (induction k arbitrary: n)
  case 0
  then show ?case by (subst show_nat.simps) simp
next
  case (Suc k)
  then have "n div 10 < 10 ^ Suc k" by (simp add: less_mult_imp_div_less)
  with Suc.IH [of "n div 10"] show ?case by (subst show_nat.simps) simp
qed

lemma length_show_int:
  assumes "INT_MIN \<le> i" "i \<le> INT_MAX"
  shows "length (show_int i) \<le> 11"
proof -
  have "nat (- i) < 10 ^ Suc 9" "nat i < 10 ^ Suc 9"
    using assms by (simp_all add: INT_MIN_def INT_MAX_def nat_less_iff)
  then have "length (show_nat (nat (- i))) \<le> 10" "length (show_nat (nat i)) \<le> 10"
    using length_show_nat [of _ 9] by auto
  then show ?thesis by (simp add: show_int_def)
qed

lemma c_str_digits:
  "CHR 0x00 \<notin> set ds \<Longrightarrow> c_str (ds @ rest) = ds @ c_str rest"
  by (induction ds) (auto simp: c_str_def)

lemma c_str_hd: "\<not> is_digit (CHR 0x00) \<Longrightarrow> rest = [] \<or> \<not> is_digit (hd rest) \<Longrightarrow>
    c_str rest = [] \<or> \<not> is_digit (hd (c_str rest))"
  by (cases rest) (auto simp: c_str_def)

text \<open>\<open>atoi\<close> of a pointer into a string that goes on.\<close>

lemma atoi_c_str_int:
  assumes "INT_MIN \<le> i" "i \<le> INT_MAX" "rest = [] \<or> \<not> is_digit (hd rest)"
  shows "atoi (c_str (show_int i @ rest)) = i"
  using assms atoi_show_int [OF assms(1,2) c_str_hd [OF _ assms(3)]]
  by (simp add: c_str_digits not_in_show_int)

lemma atoi_c_str_nat:
  assumes "int n \<le> INT_MAX" "rest = [] \<or> \<not> is_digit (hd rest)"
  shows "atoi (c_str (show_nat n @ rest)) = int n"
  using assms atoi_show_nat [OF assms(1) c_str_hd [OF _ assms(2)]]
  by (simp add: c_str_digits not_in_show_nat)

section \<open>The framing of a message to a peer\<close>

lemma message_headers_text:
  assumes "INT_MIN \<le> i" "i \<le> INT_MAX" "INT_MIN \<le> j" "j \<le> INT_MAX" "int n \<le> INT_MAX"
  shows "message_headers i j n =
     (''POST /message?peer_id='' @ show_int i @ ''&to='' @ show_int j @ '' HTTP/1.0'') @ CRLF @
      ''Content-Length: '' @ show_nat n @ CRLF @ ''Content-Type: text/plain'' @ CRLF2"
proof -
  have "length (show_int i) \<le> 11" "length (show_int j) \<le> 11" "length (show_nat n) \<le> 11"
    using assms length_show_int length_show_nat [of n 10]
    by (auto simp: INT_MAX_def)
  then show ?thesis
    unfolding message_headers_def by (subst snprintf_fits) (simp_all add: CRLF_def CRLF2_def)
qed

text \<open>
  C4. A message the client sends is framed so that the client's own reader finds its end of
  headers and its body length: the first blank line of the request is the one that ends the
  headers, and the \<open>Content-Length\<close> read back is the length that was printed.
\<close>

theorem request_framing:
  assumes "INT_MIN \<le> i" "i \<le> INT_MAX" "INT_MIN \<le> j" "j \<le> INT_MAX" "int n \<le> INT_MAX"
  shows "str_find (message_headers i j n @ body) CRLF2 0 = Some (length (message_headers i j n) - 4) \<and>
     GetHeaderValue_size (message_headers i j n @ body) (length (message_headers i j n) - 4)
       (CRLF @ ''Content-Length: '') = Some (of_nat n)"
proof -
  let ?b = "''Content-Length: '' @ show_nat n @ CRLF @ ''Content-Type: text/plain'' @ CRLF2"
  obtain a where h: "message_headers i j n = a @ CRLF @ ?b" and free: "CHR 0x0D \<notin> set a"
    using message_headers_text [OF assms] by (simp add: not_in_show_int)
  have blank: "find_at k CRLF2 (CRLF @ ?b @ body) = Some (k + length (CRLF @ ?b) - 4)" for k
    by (simp add: CRLF_def CRLF2_def find_at_skip not_in_show_nat)
  have len: "find_at k (CRLF @ ''Content-Length: '') (CRLF @ ?b @ body) = Some k" for k
    by (rule find_at_here) (simp add: CRLF_def)
  have "str_find (a @ CRLF @ ?b @ body) CRLF2 0 = Some (length (a @ CRLF @ ?b) - 4)"
    using blank [of "length a"] find_at_skip [OF free, of 0 "[CHR 0x0A, CHR 0x0D, CHR 0x0A]"]
    by (simp add: str_find_0 CRLF2_def CRLF_def)
  moreover have "str_find (a @ CRLF @ ?b @ body) (CRLF @ ''Content-Length: '') 0 = Some (length a)"
    using len [of "length a"] find_at_skip [OF free, of 0 "CHR 0x0A # ''Content-Length: ''"]
    by (simp add: str_find_0 CRLF_def)
  moreover have "atoi (c_str (show_nat n @ CRLF @ ''Content-Type: text/plain'' @ CRLF2 @ body)) = int n"
    by (rule atoi_c_str_nat) (simp_all add: assms(5) CRLF_def)
  ultimately show ?thesis
    by (simp add: h GetHeaderValue_size_def size_of_int_def CRLF_def CRLF2_def)
qed

theorem request_framing_witness:
  "str_find (message_headers 3 5 2 @ ''hi'') CRLF2 0 = Some (length (message_headers 3 5 2) - 4)"
  using request_framing [of 3 5 2 "''hi''"] by (simp add: INT_MIN_def INT_MAX_def)

section \<open>Peer-list entries\<close>

definition peer_entry :: "string \<Rightarrow> int \<Rightarrow> bool \<Rightarrow> string" where
  "peer_entry name i c = name @ '','' @ show_int i @ (if c then '',1'' else '',0'')"

lemma find_comma: "CHR '','' \<notin> set xs \<Longrightarrow> str_find (xs @ '','' @ ys) '','' 0 = Some (length xs)"
  using find_at_skip [of "CHR '',''" xs 0 "[]" "'','' @ ys"] by (simp add: str_find_0)

lemma ParseEntry_entry:
  assumes "name \<noteq> []" "CHR '','' \<notin> set name" "INT_MIN \<le> i" "i \<le> INT_MAX"
  shows "ParseEntry d (peer_entry name i c) name0 i0 = Inr (True, name, i, c)"
proof -
  let ?flag = "if c then ''1'' else ''0''"
  let ?rest = "show_int i @ '','' @ ?flag"
  have e: "peer_entry name i c = name @ '','' @ ?rest"
    by (simp add: peer_entry_def)
  have first: "str_find (name @ '','' @ ?rest) '','' 0 = Some (length name)"
    using find_comma [OF assms(2)] by simp
  have "find_at (Suc (length name)) '','' ?rest = Some (Suc (length name) + length (show_int i))"
    using find_at_skip [of "CHR '',''" "show_int i"] by (simp add: not_in_show_int find_at_here)
  then have second: "str_find (name @ '','' @ ?rest) '','' (length name + 1)
      = Some (length name + 1 + length (show_int i))"
    by (simp add: str_find_def)
  have "atoi (c_str ?rest) = i"
    by (rule atoi_c_str_int [OF assms(3,4)]) simp
  moreover have "atoi (c_str ?flag) \<noteq> 0 \<longleftrightarrow> c"
    by (simp add: c_str_def atoi_def is_space_def is_digit_def digits_val_def digit_val_def
        clamp_int_def INT_MIN_def INT_MAX_def)
  ultimately show ?thesis
    using assms(1) first second by (simp add: ParseEntry_def e Let_def)
qed

text \<open>
  An entry of a peer list in the documented form \<open><name>,<id>,<connected>\<close> is read back as it
  was written, whatever the out parameters held, for a non-empty name without a comma and an id
  that is an \<open>int\<close>.
\<close>

theorem ParseEntry_peer_entry:
  assumes "name \<noteq> []" "CHR '','' \<notin> set name" "INT_MIN \<le> i" "i \<le> INT_MAX"
  shows "ParseEntry d (peer_entry name i c) name0 i0 = Inr (True, name, i, c)"
  by (rule ParseEntry_entry [OF assms])

theorem ParseEntry_peer_entry_witness:
  "ParseEntry True (peer_entry ''bob@pc'' 12 True) [] 0 = Inr (True, ''bob@pc'', 12, True)"
  using ParseEntry_peer_entry [of "''bob@pc''" 12 True True] by (simp add: INT_MIN_def INT_MAX_def)

section \<open>The sign-in request\<close>

lemma count_take: "count_list (take k xs) x \<le> count_list xs x"
  by (metis append_take_drop_id count_list_append le_add1)

lemma count_take2: "count_list (take a xs @ take b ys) x \<le> count_list xs x + count_list ys x"
  by (simp add: add_mono count_take)

lemma suffix_CRLF2_count: "suffix CRLF2 r \<Longrightarrow> 2 \<le> count_list r (CHR 0x0A)"
  by (auto simp: suffix_def CRLF2_def CRLF_def)

text \<open>
  C5. The request buffer of \<open>DoConnect\<close> holds 1023 characters: for a name without line feeds the
  sign-in request ends with the blank line HTTP needs exactly when the name has at most 997
  characters; a longer name silently loses it.
\<close>

theorem sign_in_terminated:
  assumes "CHR 0x0A \<notin> set (c_str name)"
  shows "suffix CRLF2 (sign_in_request name) \<longleftrightarrow> length (c_str name) \<le> 997"
proof
  let ?p = "''GET /sign_in?'' @ c_str name"
  assume suf: "suffix CRLF2 (sign_in_request name)"
  show "length (c_str name) \<le> 997"
  proof (rule ccontr)
    assume "\<not> length (c_str name) \<le> 997"
    then have k: "1023 - length ?p \<le> 12" by simp
    let ?q = "'' HTTP/1.0'' @ CRLF2"
    have "sign_in_request name = take 1023 (?p @ ?q)"
      by (simp add: sign_in_request_def snprintf_def)
    also have "\<dots> = take 1023 ?p @ take (1023 - length ?p) ?q"
      by (rule take_append)
    also have "take (1023 - length ?p) ?q = take (1023 - length ?p) (take 12 ?q)"
      using k by (simp only: take_take min_absorb1)
    finally have "count_list (sign_in_request name) (CHR 0x0A) \<le>
        count_list ?p (CHR 0x0A) + count_list (take 12 ?q) (CHR 0x0A)"
      by (simp only: count_take2)
    also have "\<dots> = 1"
      using assms by (simp add: CRLF2_def CRLF_def count_list_0_iff)
    finally show False using suffix_CRLF2_count [OF suf] by simp
  qed
next
  assume "length (c_str name) \<le> 997"
  then have "sign_in_request name = ''GET /sign_in?'' @ c_str name @ '' HTTP/1.0'' @ CRLF2"
    unfolding sign_in_request_def by (subst snprintf_fits) (simp_all add: CRLF2_def CRLF_def)
  then show "suffix CRLF2 (sign_in_request name)"
    by (simp add: suffix_def CRLF2_def CRLF_def)
qed

theorem sign_in_terminated_witness: "suffix CRLF2 (sign_in_request ''bob@pc'')"
  using sign_in_terminated [of "''bob@pc''"] by (simp add: c_str_def)

end
