(* ===== verification/Client_Props.thy ===== *)
theory Client_Props
  imports Client_Inv Signal_Props
begin

text \<open>
  Functional properties of the signalling client: what its handlers do on each branch, against
  reference definitions where the code is a loop over text.
\<close>

section \<open>The peer list of the first response\<close>

text \<open>The lines of a text that are ended by a line feed.\<close>

fun ended_lines :: "string \<Rightarrow> string \<Rightarrow> string list" where
  "ended_lines acc [] = []"
| "ended_lines acc (c # cs) =
     (if c = CHR 0x0A then acc # ended_lines [] cs else ended_lines (acc @ [c]) cs)"

definition add_peers :: "net \<Rightarrow> ('a client_scheme) observer \<Rightarrow> string list \<Rightarrow>
    ('a client_scheme) \<Rightarrow> ('a client_scheme) res" where
  "add_peers E obs ls s = foldl (\<lambda>m l. bindR m (add_peer E obs l)) (Inr s) ls"

lemma foldl_bind_Inl: "foldl (\<lambda>m l. bindR m (f l)) (Inl e) ls = Inl e"
  by (induction ls) auto

lemma add_peers_Nil [simp]: "add_peers E obs [] s = Inr s"
  by (simp add: add_peers_def)

lemma add_peers_Cons: "add_peers E obs (l # ls) s = bindR (add_peer E obs l s) (add_peers E obs ls)"
  by (cases "add_peer E obs l s") (simp_all add: add_peers_def foldl_bind_Inl)

lemma ended_lines_none: "CHR 0x0A \<notin> set cs \<Longrightarrow> ended_lines acc cs = []"
  by (induction cs arbitrary: acc) auto

lemma ended_lines_split:
  "CHR 0x0A \<notin> set l \<Longrightarrow> ended_lines acc (l @ CHR 0x0A # cs) = (acc @ l) # ended_lines [] cs"
  by (induction l arbitrary: acc) auto

lemma prefix_single: "prefix [c] (drop j s) \<longleftrightarrow> j < length s \<and> s ! j = c"
  by (cases "j < length s") (auto simp: Cons_nth_drop_Suc [symmetric])

lemma read_peers_lines_eq:
  "read_peers E obs data pos s = add_peers E obs (ended_lines [] (drop pos data)) s"
proof (induction E obs data pos s rule: read_peers.induct)
  case (1 E obs data pos s)
  show ?case
  proof (cases "str_find data [CHR 0x0A] pos")
    case None
    have "CHR 0x0A \<notin> set (drop pos data)"
    proof
      assume "CHR 0x0A \<in> set (drop pos data)"
      then obtain k where "k < length data - pos" "data ! (pos + k) = CHR 0x0A"
        by (auto simp: in_set_conv_nth)
      with None show False
        by (auto simp: str_find_None prefix_single dest!: spec [of _ "pos + k"])
    qed
    with None show ?thesis by (subst read_peers.simps) (simp add: ended_lines_none)
  next
    case (Some eol)
    then have e: "pos \<le> eol" "eol < length data" "data ! eol = CHR 0x0A"
      "\<And>m. pos \<le> m \<Longrightarrow> m < eol \<Longrightarrow> data ! m \<noteq> CHR 0x0A"
      by (auto simp: str_find_Some prefix_single)
    let ?l = "take (eol - pos) (drop pos data)"
    have "drop pos data = ?l @ drop eol data"
      using e(1) by (metis append_take_drop_id drop_drop le_add_diff_inverse2)
    also have "drop eol data = CHR 0x0A # drop (eol + 1) data"
      using e by (metis Cons_nth_drop_Suc Suc_eq_plus1)
    finally have split: "drop pos data = ?l @ CHR 0x0A # drop (eol + 1) data" .
    have "CHR 0x0A \<notin> set ?l"
      using e(1,2,4) by (auto simp: in_set_conv_nth)
    then have "ended_lines [] (drop pos data) = ?l # ended_lines [] (drop (eol + 1) data)"
      using ended_lines_split [of ?l "[]" "drop (eol + 1) data"] split by simp
    moreover have "read_peers E obs data pos s
        = bindR (add_peer E obs ?l s) (read_peers E obs data (eol + 1))"
      using Some e by (subst read_peers.simps) simp
    ultimately show ?thesis
      using 1 Some e by (simp add: add_peers_Cons cong: bindR_cong)
  qed
qed

text \<open>
  C6. The loop of \<open>OnRead\<close> over the body of the first response handles exactly the lines the body
  ends with a line feed, each once and in order; an unfinished last line is dropped.
\<close>

theorem read_peers_lines:
  "read_peers E obs data pos s = add_peers E obs (ended_lines [] (drop pos data)) s"
  by (rule read_peers_lines_eq)

section \<open>Reading a whole response\<close>

text \<open>A response in the form the signalling server gives it.\<close>

definition server_response :: "int \<Rightarrow> string \<Rightarrow> string" where
  "server_response i body =
     ''HTTP/1.1 200 Added'' @ CRLF @ ''Connection: close'' @ CRLF @
     ''Content-Length: '' @ show_nat (length body) @ CRLF @ ''Pragma: '' @ show_int i @ CRLF2 @ body"

definition response_eoh :: "int \<Rightarrow> string \<Rightarrow> nat" where
  "response_eoh i body = length (server_response i body) - length body - 4"

lemma find_at_prefix: "find_at i pat (xs @ ys) = Some j \<Longrightarrow> j + length pat \<le> i + length xs + length ys"
  by (auto simp: find_at_Some dest!: prefix_length_le)

lemma response_parts:
  "server_response i body = ''HTTP/1.1 200 Added'' @ CRLF @ ''Connection: close'' @ CRLF @
     ''Content-Length: '' @ show_nat (length body) @ CRLF @ ''Pragma: '' @ show_int i @ CRLF2 @ body"
  "response_eoh i body = 65 + length (show_nat (length body)) + length (show_int i)"
  by (simp_all add: server_response_def response_eoh_def CRLF_def CRLF2_def)

lemma response_length: "length (server_response i body) = response_eoh i body + 4 + length body"
  by (simp add: response_parts CRLF_def CRLF2_def)

lemma drop_prefix: "s = xs @ ys \<Longrightarrow> n = length xs \<Longrightarrow> drop n s = ys"
  by simp

lemma response_body: "drop (response_eoh i body + 4) (server_response i body) = body"
proof -
  let ?h = "''HTTP/1.1 200 Added'' @ CRLF @ ''Connection: close'' @ CRLF @
     ''Content-Length: '' @ show_nat (length body) @ CRLF @ ''Pragma: '' @ show_int i @ CRLF2"
  have "server_response i body = ?h @ body" by (simp add: response_parts)
  moreover have "response_eoh i body + 4 = length ?h" by (simp add: response_parts CRLF_def CRLF2_def)
  ultimately show ?thesis by (rule drop_prefix)
qed

lemma response_blank: "str_find (server_response i body) CRLF2 0 = Some (response_eoh i body)"
  by (simp add: response_parts str_find_0 CRLF_def CRLF2_def find_at_skip not_in_show_nat not_in_show_int)

lemma response_status: "GetResponseStatus (c_str (server_response i body)) = 200"
  by (simp add: GetResponseStatus_def response_parts CRLF_def c_str_def str_find_0 atoi_def is_space_def
      is_digit_def digits_val_def digit_val_def clamp_int_def INT_MIN_def INT_MAX_def)

lemma response_content_length:
  assumes "int (length body) \<le> INT_MAX"
  shows "GetHeaderValue_size (server_response i body) (response_eoh i body) (CRLF @ ''Content-Length: '')
    = Some (of_nat (length body))"
proof -
  have "atoi (c_str (show_nat (length body) @ CRLF @ ''Pragma: '' @ show_int i @ CRLF2 @ body)) = int (length body)"
    by (rule atoi_c_str_nat) (simp_all add: assms CRLF_def)
  then show ?thesis
    by (simp add: GetHeaderValue_size_def response_parts str_find_0 CRLF_def CRLF2_def size_of_int_def)
qed

lemma response_peer_id:
  assumes "INT_MIN \<le> i" "i \<le> INT_MAX"
  shows "GetHeaderValue_size (server_response i body) (response_eoh i body) (CRLF @ ''Pragma: '')
    = Some (size_of_int i)"
proof -
  have "atoi (c_str (show_int i @ CRLF2 @ body)) = i"
    by (rule atoi_c_str_int [OF assms]) (simp add: CRLF_def CRLF2_def)
  then show ?thesis
    by (simp add: GetHeaderValue_size_def response_parts str_find_0 CRLF_def CRLF2_def find_at_skip
        not_in_show_nat)
qed

lemma response_connection:
  "GetHeaderValue_string (server_response i body) (response_eoh i body) (CRLF @ ''Connection: '') = Some ''close''"
  by (simp add: GetHeaderValue_string_def response_parts str_find_def CRLF_def CRLF2_def)

lemma ReadIntoBuffer_response:
  assumes "recv_loop (recv_chunks E k) (buf_of k s) = server_response i body"
    and "int (length body) \<le> INT_MAX"
  shows "ReadIntoBuffer E obs k n s =
    bindR (sock_Close k (put_buf k (server_response i body) s)) (\<lambda>s.
      bindR (OnClose E obs k 0 s) (\<lambda>s. Inr (True, of_nat (length body), s)))"
proof -
  have "unat (of_nat (response_eoh i body + 4) + of_nat (length body) :: size_t)
      \<le> unat (of_nat (length (server_response i body)) :: size_t)"
    by (simp add: response_length flip: of_nat_add)
  then show ?thesis
    using assms
    by (simp add: ReadIntoBuffer_def Let_def response_blank response_content_length response_connection
        word_le_nat_alt)
qed

lemma ParseServerResponse_response:
  assumes "INT_MIN \<le> i" "i \<le> INT_MAX"
  shows "ParseServerResponse E obs (server_response i body) s
    = Inr (Some (size_of_int i, response_eoh i body), s)"
  using assms by (simp add: ParseServerResponse_def response_status response_blank response_peer_id)

section \<open>A list of peers\<close>

type_synonym listing = "(string \<times> int \<times> bool) list"

definition well_formed :: "listing \<Rightarrow> bool" where
  "well_formed es \<longleftrightarrow> (\<forall>(n, i, c) \<in> set es.
     n \<noteq> [] \<and> CHR '','' \<notin> set n \<and> CHR 0x0A \<notin> set n \<and> INT_MIN \<le> i \<and> i \<le> INT_MAX)"

definition listing_text :: "listing \<Rightarrow> string" where
  "listing_text es = concat (map (\<lambda>(n, i, c). peer_entry n i c @ [CHR 0x0A]) es)"

definition listed_peers :: "int \<Rightarrow> listing \<Rightarrow> Peers \<Rightarrow> Peers" where
  "listed_peers me es ps = fold (\<lambda>(n, i, c) m. if i \<noteq> me then smap_put i n m else m) es ps"

text \<open>Who is known after a listing: everyone on it but the client itself, a later line winning.\<close>

definition directory :: "int \<Rightarrow> listing \<Rightarrow> int \<Rightarrow> string option" where
  "directory me es = map_of (rev (map (\<lambda>(n, i, c). (i, n)) (filter (\<lambda>(n, i, c). i \<noteq> me) es)))"

lemma well_formed_Cons:
  "well_formed ((n, i, c) # es) \<longleftrightarrow> n \<noteq> [] \<and> CHR '','' \<notin> set n \<and> CHR 0x0A \<notin> set n \<and>
     INT_MIN \<le> i \<and> i \<le> INT_MAX \<and> well_formed es"
  by (simp add: well_formed_def)

lemma listed_peers_Cons:
  "listed_peers me ((n, i, c) # es) ps = listed_peers me es (if i \<noteq> me then smap_put i n ps else ps)"
  by (simp add: listed_peers_def)

lemma listed_peers_map:
  "smap_ok ps \<Longrightarrow> smap_ok (listed_peers me es ps) \<and> map_of (listed_peers me es ps) = map_of ps ++ directory me es"
proof (induction es arbitrary: ps)
  case Nil
  then show ?case by (simp add: listed_peers_def directory_def)
next
  case (Cons e es)
  obtain n i c where e: "e = (n, i, c)" by (cases e)
  let ?ps = "if i \<noteq> me then smap_put i n ps else ps"
  have "smap_ok ?ps" using Cons.prems by (simp add: smap.invar_put)
  with Cons.IH [of ?ps] show ?case
    using Cons.prems
    by (auto simp: e listed_peers_Cons directory_def smap.lookup_put map_add_def fun_eq_iff split: option.split)
qed

lemma listing_text_empty: "listing_text es = [] \<longleftrightarrow> es = []"
  by (cases es) (auto simp: listing_text_def)

lemma listed_peers_Nil [simp]: "listed_peers me [] ps = ps"
  by (simp add: listed_peers_def)

lemma ended_lines_listing: "well_formed es \<Longrightarrow>
    ended_lines [] (listing_text es) = map (\<lambda>(n, i, c). peer_entry n i c) es"
proof (induction es)
  case Nil
  then show ?case by (simp add: listing_text_def)
next
  case (Cons e es)
  obtain n i c where e: "e = (n, i, c)" by (cases e)
  have "CHR 0x0A \<notin> set (peer_entry n i c)"
    using Cons.prems by (simp add: e well_formed_Cons peer_entry_def not_in_show_int)
  then have "ended_lines [] (peer_entry n i c @ CHR 0x0A # listing_text es)
      = peer_entry n i c # ended_lines [] (listing_text es)"
    by (simp add: ended_lines_split)
  with Cons show ?case by (simp add: e well_formed_Cons listing_text_def)
qed

lemma open_hanging_get_eq:
  "state s = SIGNING_IN \<Longrightarrow> hanging_get s = Some CS_CLOSED \<Longrightarrow>
     open_hanging_get E s = Inr (s\<lparr>state := CONNECTED,
       hanging_get := Some (snd (connect_to E Hanging (server_address s)))\<rparr>)"
  by (simp add: open_hanging_get_def sock_defs dcheck_def split: prod.split)

lemma client_same_resT: "resT (client_same t) m \<Longrightarrow> client_same s t \<Longrightarrow> resT (client_same s) m"
  by (cases m) (auto intro: client_same_trans)

section \<open>Observers that return\<close>

text \<open>
  Beside the contract of \<open>client_observer\<close>: the callbacks of the sign-in path return.
\<close>

locale returning_observer = client_observer +
  assumes signed_in_returns: "resT (client_same s) (OnSignedIn obs s)"
    and peer_connected_returns: "resT (client_same s) (OnPeerConnected obs i n s)"
    and message_sent_returns: "resT (client_same s) (OnMessageSent obs e s)"
    and disconnected_returns: "resT (client_same s) (OnDisconnected obs s)"
begin

lemma notify_returns: "callback s \<Longrightarrow> resT P (f s) \<Longrightarrow> resT P (notify f s)"
  by (simp add: notify_def)

lemma client_same_peers: "client_same s t \<Longrightarrow> client_same (s\<lparr>peers := p\<rparr>) (t\<lparr>peers := p\<rparr>)"
  by (simp add: client_same_iff)

lemma add_peer_entry:
  assumes "callback s" "well_formed [(n, i, c)]"
  shows "resT (client_same (s\<lparr>peers := if i \<noteq> my_id s then smap_put i n (peers s) else peers s\<rparr>))
    (add_peer E obs (peer_entry n i c) s)"
proof -
  have "ParseEntry d (peer_entry n i c) name0 i0 = Inr (True, n, i, c)" for d name0 i0
    using ParseEntry_entry assms(2) by (simp add: well_formed_def)
  then show ?thesis
    using assms(1) peer_connected_returns [of "s\<lparr>peers := smap_put i n (peers s)\<rparr>" i n]
    by (simp add: add_peer_def notify_def)
qed

lemma add_peers_listing:
  "callback s \<Longrightarrow> well_formed es \<Longrightarrow>
     resT (client_same (s\<lparr>peers := listed_peers (my_id s) es (peers s)\<rparr>))
       (add_peers E obs (map (\<lambda>(n, i, c). peer_entry n i c) es) s)"
proof (induction es arbitrary: s)
  case Nil
  then show ?case by (simp add: listed_peers_def)
next
  case (Cons e es)
  obtain n i c where e: "e = (n, i, c)" by (cases e)
  let ?s = "s\<lparr>peers := if i \<noteq> my_id s then smap_put i n (peers s) else peers s\<rparr>"
  have "resT (client_same ?s) (add_peer E obs (peer_entry n i c) s)"
    using Cons.prems by (intro add_peer_entry) (simp_all add: e well_formed_def)
  then obtain t where t: "add_peer E obs (peer_entry n i c) s = Inr t" "client_same ?s t"
    by (auto simp: resT_iff)
  let ?p = "listed_peers (my_id t) es (peers t)"
  have "resT (client_same (t\<lparr>peers := ?p\<rparr>)) (add_peers E obs (map (\<lambda>(n, i, c). peer_entry n i c) es) t)"
    using Cons.IH [of t] Cons.prems client_same_fields(4) [OF t(2)] by (simp add: e well_formed_Cons)
  moreover have "client_same (s\<lparr>peers := ?p\<rparr>) (t\<lparr>peers := ?p\<rparr>)"
    using client_same_peers [OF t(2), of ?p] by simp
  ultimately have "resT (client_same (s\<lparr>peers := ?p\<rparr>))
      (add_peers E obs (map (\<lambda>(n, i, c). peer_entry n i c) es) t)"
    by (rule client_same_resT)
  moreover have "?p = listed_peers (my_id s) (e # es) (peers s)"
    using client_same_fields [OF t(2)] by (simp add: e listed_peers_Cons)
  ultimately show ?case
    using t(1) by (simp add: e add_peers_Cons)
qed

text \<open>
  The first response: the client takes its id and the listed peers from it, and opens the
  hanging get.
\<close>

lemma accept_sign_in_listing:
  assumes s: "callback s" "state s = SIGNING_IN" "my_id s = - 1"
    and resp: "control_data s = server_response i (listing_text es)" "well_formed es"
    and len: "int (length (listing_text es)) \<le> INT_MAX"
    and i: "INT_MIN \<le> i" "i \<le> INT_MAX" "i \<noteq> - 1"
  shows "resT (client_same (s\<lparr>my_id := i, peers := listed_peers i es (peers s)\<rparr>))
    (accept_sign_in E obs (of_nat (length (listing_text es))) (size_of_int i)
       (response_eoh i (listing_text es)) s)"
proof -
  let ?body = "listing_text es" and ?s = "s\<lparr>my_id := i\<rparr>"
  let ?s' = "?s\<lparr>peers := listed_peers i es (peers s)\<rparr>"
  have "of_nat (length ?body) = (0 :: size_t) \<longleftrightarrow> length ?body = 0"
    using len by (simp add: word_of_nat_eq_0_iff INT_MAX_def) (auto dest: dvd_imp_le)
  moreover note response_body [of i ?body]
  ultimately have "resT (client_same ?s')
      (if of_nat (length ?body) \<noteq> (0 :: size_t)
       then read_peers E obs (control_data s) (response_eoh i ?body + 4) ?s else Inr ?s)"
    using add_peers_listing [of ?s es E] s(1) resp
    by (cases "es = []") (simp_all add: read_peers_lines_eq ended_lines_listing listing_text_empty)
  then obtain t where t: "(if of_nat (length ?body) \<noteq> (0 :: size_t)
       then read_peers E obs (control_data s) (response_eoh i ?body + 4) ?s else Inr ?s) = Inr t"
    "client_same ?s' t" by (auto simp: resT_iff)
  have "callback t" "is_connected t"
    using client_same_fields [OF t(2)] s i by (simp_all add: is_connected_def)
  moreover have "resT (client_same ?s') (OnSignedIn obs t)"
    by (rule client_same_resT [OF signed_in_returns t(2)])
  ultimately show ?thesis
    using t(1) s i
    by (cases "of_nat (length ?body) = (0 :: size_t)")
      (simp_all add: accept_sign_in_def int_of_size_of_int notify_def Let_def)
qed

lemma OnRead_sign_in:
  assumes s: "callback s" "state s = SIGNING_IN" "my_id s = - 1"
    and socks: "control_socket s = Some c" "hanging_get s = Some CS_CLOSED"
    and data: "recv_loop (recv_chunks E Control) (control_data s) = server_response i (listing_text es)"
    and es: "well_formed es" "int (length (listing_text es)) \<le> INT_MAX"
    and i: "INT_MIN \<le> i" "i \<le> INT_MAX" "i \<noteq> - 1"
  shows "resT (client_same (s\<lparr>my_id := i, peers := listed_peers i es (peers s), control_data := [],
      control_socket := Some CS_CLOSED, state := CONNECTED,
      hanging_get := Some (snd (connect_to E Hanging (server_address s)))\<rparr>)) (OnRead E obs s)"
proof -
  let ?r = "server_response i (listing_text es)"
  let ?s = "s\<lparr>control_data := ?r, control_socket := Some CS_CLOSED\<rparr>"
  obtain t where t: "OnMessageSent obs 0 ?s = Inr t" "client_same ?s t"
    using message_sent_returns [of ?s 0] by (auto simp: resT_iff)
  have read: "ReadIntoBuffer E obs Control 0 s = Inr (True, of_nat (length (listing_text es)), t)"
    using data es(2) s(1) socks t(1)
    by (simp add: ReadIntoBuffer_response buf_of_def put_buf_def sock_defs OnClose_def notify_def WSAECONNREFUSED_def)
  note tf = client_same_fields [OF t(2)]
  have buf: "control_data t = ?r"
    using t(2) by (simp add: client_same_iff)
  obtain u where u: "accept_sign_in E obs (of_nat (length (listing_text es))) (size_of_int i)
      (response_eoh i (listing_text es)) t = Inr u"
    "client_same (t\<lparr>my_id := i, peers := listed_peers i es (peers t)\<rparr>) u"
    using accept_sign_in_listing [of t i es E] s es i tf buf by (auto simp: resT_iff)
  have same: "client_same (s\<lparr>my_id := i, peers := listed_peers i es (peers s), control_data := ?r,
      control_socket := Some CS_CLOSED\<rparr>) u"
    using t(2) u(2) by (auto simp: client_same_iff)
  have "state u = SIGNING_IN" "hanging_get u = Some CS_CLOSED" "server_address u = server_address s"
    using same s socks by (auto simp: client_same_iff)
  then have opened: "open_hanging_get E (u\<lparr>control_data := []\<rparr>) = Inr (u\<lparr>control_data := [],
      state := CONNECTED, hanging_get := Some (snd (connect_to E Hanging (server_address s)))\<rparr>)"
    by (simp add: open_hanging_get_eq)
  have "OnRead E obs s = open_hanging_get E (u\<lparr>control_data := []\<rparr>)"
    using s i tf buf u(1) read
    by (simp add: OnRead_def ParseServerResponse_response read_control_response_def)
  then show ?thesis
    unfolding opened using same by (auto simp: client_same_iff)
qed

text \<open>
  Asked to sign out during a request, the client waits for the answer to that request; having read
  it, it connects with the sign-out request, or is closed when the connection is refused at once.
\<close>

lemma OnRead_sign_out_waiting:
  assumes s: "callback s" "state s = SIGNING_OUT_WAITING" "my_id s \<noteq> - 1"
    and socks: "control_socket s = Some c" "hanging_get s = Some CS_CLOSED"
    and data: "recv_loop (recv_chunks E Control) (control_data s) = server_response i body"
    and len: "int (length body) \<le> INT_MAX" "INT_MIN \<le> i" "i \<le> INT_MAX"
  shows "resT (client_same
     (if fst (connect_to E Control (server_address s)) = SOCKET_ERROR
      then s\<lparr>my_id := - 1, peers := [], control_data := [], onconnect_data := [],
        control_socket := Some CS_CLOSED, resolver := False, state := NOT_CONNECTED\<rparr>
      else s\<lparr>control_data := [], onconnect_data := sign_out_request (my_id s), state := SIGNING_OUT,
        control_socket := Some (snd (connect_to E Control (server_address s)))\<rparr>)) (OnRead E obs s)"
proof -
  let ?r = "server_response i body"
  let ?s = "s\<lparr>control_data := ?r, control_socket := Some CS_CLOSED\<rparr>"
  obtain t where t: "OnMessageSent obs 0 ?s = Inr t" "client_same ?s t"
    using message_sent_returns [of ?s 0] by (auto simp: resT_iff)
  have read: "ReadIntoBuffer E obs Control 0 s = Inr (True, of_nat (length body), t)"
    using data len s(1) socks t(1)
    by (simp add: ReadIntoBuffer_response buf_of_def put_buf_def sock_defs OnClose_def notify_def WSAECONNREFUSED_def)
  have tf: "state t = SIGNING_OUT_WAITING" "my_id t = my_id s" "control_socket t = Some CS_CLOSED"
    "hanging_get t = Some CS_CLOSED" "control_data t = ?r" "server_address t = server_address s"
    using t(2) s socks by (auto simp: client_same_iff)
  obtain err c' where connect: "connect_to E Control (server_address s) = (err, c')" by fastforce
  have "read_control_response E obs (of_nat (length body)) (size_of_int i) (response_eoh i body) t =
     Inr (if err = SOCKET_ERROR
          then t\<lparr>control_socket := Some CS_CLOSED, hanging_get := Some CS_CLOSED, onconnect_data := [],
                 peers := [], resolver := False, my_id := - 1, state := NOT_CONNECTED\<rparr>
          else t\<lparr>state := SIGNING_OUT, onconnect_data := sign_out_request (my_id s), control_socket := Some c'\<rparr>)"
    using s tf connect
    by (simp add: read_control_response_def SignOut_def sock_defs ConnectControlSocket_eq)
  then have "OnRead E obs s = Inr
     (if err = SOCKET_ERROR
      then t\<lparr>control_socket := Some CS_CLOSED, hanging_get := Some CS_CLOSED, onconnect_data := [],
             peers := [], resolver := False, my_id := - 1, state := NOT_CONNECTED, control_data := []\<rparr>
      else t\<lparr>state := SIGNING_OUT, onconnect_data := sign_out_request (my_id s), control_socket := Some c',
             control_data := []\<rparr>)"
    using read tf len
    by (simp add: OnRead_def ParseServerResponse_response open_hanging_get_def)
  with t(2) socks connect show ?thesis
    by (cases "err = SOCKET_ERROR") (auto simp: client_same_iff)
qed

text \<open>
  The answer to the sign-out request: the client closes both sockets and forgets its id and peers.
\<close>

lemma OnRead_sign_out:
  assumes s: "callback s" "state s = SIGNING_OUT" "my_id s \<noteq> - 1"
    and socks: "control_socket s = Some c" "hanging_get s = Some h"
    and data: "recv_loop (recv_chunks E Control) (control_data s) = server_response i body"
    and len: "int (length body) \<le> INT_MAX" "INT_MIN \<le> i" "i \<le> INT_MAX"
  shows "resT (client_same (s\<lparr>my_id := - 1, peers := [], control_data := [], onconnect_data := [],
      control_socket := Some CS_CLOSED, hanging_get := Some CS_CLOSED, resolver := False,
      state := NOT_CONNECTED\<rparr>)) (OnRead E obs s)"
proof -
  let ?r = "server_response i body"
  let ?s = "s\<lparr>control_data := ?r, control_socket := Some CS_CLOSED\<rparr>"
  obtain t where t: "OnMessageSent obs 0 ?s = Inr t" "client_same ?s t"
    using message_sent_returns [of ?s 0] by (auto simp: resT_iff)
  have read: "ReadIntoBuffer E obs Control 0 s = Inr (True, of_nat (length body), t)"
    using data len s(1) socks t(1)
    by (simp add: ReadIntoBuffer_response buf_of_def put_buf_def sock_defs OnClose_def notify_def WSAECONNREFUSED_def)
  let ?t = "t\<lparr>control_socket := Some CS_CLOSED, hanging_get := Some CS_CLOSED, onconnect_data := [],
      peers := [], resolver := False, my_id := - 1, state := NOT_CONNECTED\<rparr>"
  obtain u where u: "OnDisconnected obs ?t = Inr u" "client_same ?t u"
    using disconnected_returns [of ?t] by (auto simp: resT_iff)
  note tf = client_same_fields [OF t(2)]
  have close: "Close t = Inr ?t"
    using tf socks by (simp add: Close_def sock_defs)
  have buf: "control_data t = ?r"
    using t(2) by (simp add: client_same_iff)
  have "state u = NOT_CONNECTED"
    using u(2) by (auto simp: client_same_iff)
  moreover have "callback ?t" using tf s by simp
  ultimately have "OnRead E obs s = Inr (u\<lparr>control_data := []\<rparr>)"
    using read buf len s tf close u(1)
    by (simp add: OnRead_def ParseServerResponse_response read_control_response_def open_hanging_get_def notify_def)
  then show ?thesis
    using t(2) u(2) by (auto simp: client_same_iff)
qed

end

section \<open>A negative content length\<close>





end
