(* ===== verification/App_Props.thy ===== *)
theory App_Props
  imports App_Sample Client_Props
begin

text \<open>
  Properties of the assembled process: sign-in end to end, what is sent on a connected socket,
  the order of messages to the peer, the round trip of descriptions and candidates between two
  conductors, and the two paths on which the process dereferences a null pointer.
\<close>

section \<open>The conductor's callbacks return\<close>

lemma display_resT: "resT (client_same s) (Inr t)" if "display s t"
  using that by (simp add: display_client_same)

interpretation conductor_returns: returning_observer "conductor_observer G :: conductor observer" conductor_Q for G
proof unfold_locales
  fix s :: conductor and i n e
  show "resT (client_same s) (OnSignedIn (conductor_observer G) s)"
    by (cases G) (simp add: conductor_observer_def Conductor_OnSignedIn_def display_client_same display_SwitchToPeerList)
  show "resT (client_same s) (OnPeerConnected (conductor_observer G) i n s)"
    by (cases G) (simp add: conductor_observer_def Conductor_OnPeerConnected_def display_client_same display_SwitchToPeerList)
  show "resT (client_same s) (OnMessageSent (conductor_observer G) e s)"
    by (simp add: conductor_observer_def Conductor_OnMessageSent_def QueueUIThreadCallback_def client_same_iff)
  obtain E W R where G: "G = (E, W, R)" by (cases G) auto
  let ?s = "DeletePeerConnection s"
  have "resT (client_same ?s) (if IsWindow W ?s then SwitchToConnectUI E W ?s else Inr ?s)"
    using resP_mono [OF display_SwitchToConnectUI display_client_same, of E W ?s]
    by (auto simp: SwitchToConnectUI_def Let_def resT_iff)
  then show "resT (client_same s) (OnDisconnected (conductor_observer G) s)"
    unfolding conductor_observer_def observer.simps Conductor_OnDisconnected_def G prod.case Let_def
    by (rule client_same_resT) (rule DeletePeerConnection_props(1))
qed

section \<open>Signing in\<close>

text \<open>
  C2. When the complete first response has arrived, in the form the signalling server gives it,
  the process returns from its read handler connected: under the id of the \<open>Pragma\<close> header, with
  exactly the listed peers (itself left out, a later line winning over an earlier one) added to
  those it knew, its buffer empty, the control socket closed and the hanging get being opened.
\<close>

theorem sign_in_completes:
  fixes s :: conductor
  assumes "callback s" "state s = SIGNING_IN" "my_id s = - 1" "smap_ok (peers s)"
    and "control_socket s = Some c" "hanging_get s = Some CS_CLOSED"
    and "recv_loop (recv_chunks E Control) (control_data s) = server_response i (listing_text es)"
    and "well_formed es" "int (length (listing_text es)) \<le> INT_MAX"
    and "INT_MIN \<le> i" "i \<le> INT_MAX" "i \<noteq> - 1"
  shows "\<exists>t. OnRead E (conductor_observer G) s = Inr t \<and> state t = CONNECTED \<and> my_id t = i \<and>
    map_of (peers t) = map_of (peers s) ++ directory i es \<and> control_data t = [] \<and>
    control_socket t = Some CS_CLOSED \<and>
    hanging_get t = Some (snd (connect_to E Hanging (server_address s)))"
  using conductor_returns.OnRead_sign_in [OF assms(1-3,5-12), of G] listed_peers_map [OF assms(4), of i es]
  by (auto simp: resT_iff client_same_iff)

theorem sign_in_completes_witness:
  "\<exists>s t. app_reach True s \<and> OnRead ((sample_net True)\<lparr>recv_chunks := (\<lambda>k. [server_response 7 (listing_text [(''bob'', 3, True)])])\<rparr>)
     (conductor_observer (sample_world True ''localhost'')) s = Inr t \<and> state t = CONNECTED \<and> my_id t = 7 \<and> map_of (peers t) 3 = Some ''bob''"
proof -
  obtain s where s: "app_reach True s" "state s = SIGNING_IN" "my_id s = - 1" "callback s"
     "control_socket s = Some CS_CONNECTING" "hanging_get s = Some CS_CLOSED" "peers s = []" "control_data s = []"
    using sample_login by blast
  have "well_formed [(''bob'', 3, True)]"
    by (simp add: well_formed_def INT_MIN_def INT_MAX_def)
  moreover have "int (length (listing_text [(''bob'', 3, True)])) \<le> INT_MAX"
    by (simp add: listing_text_def peer_entry_def show_int_def show_nat.simps INT_MAX_def)
  moreover have "recv_loop [server_response 7 x] [] = server_response 7 x" for x
    by simp
  ultimately obtain t where "OnRead ((sample_net True)\<lparr>recv_chunks := (\<lambda>k. [server_response 7 (listing_text [(''bob'', 3, True)])])\<rparr>)
     (conductor_observer (sample_world True ''localhost'')) s = Inr t \<and> state t = CONNECTED \<and> my_id t = 7 \<and>
     map_of (peers t) = map_of (peers s) ++ directory 7 [(''bob'', 3, True)]"
    using sign_in_completes [of s CS_CONNECTING "(sample_net True)\<lparr>recv_chunks := (\<lambda>k. [server_response 7 (listing_text [(''bob'', 3, True)])])\<rparr>"
        7 "[(''bob'', 3, True)]" "sample_world True ''localhost''"] s
    by (auto simp: INT_MIN_def INT_MAX_def)
  with s(1,7) show ?thesis by (auto simp: directory_def)
qed

section \<open>Sending\<close>

text \<open>
  C3. In every reachable state a control socket that is being connected has a request to send:
  when it connects and the network takes the whole request, the handler passes both its checks,
  sends exactly that request, and is left with nothing to send.
\<close>

theorem reachable_connect_sends:
  assumes "app_reach d s" "control_socket s = Some CS_CONNECTING"
    and "send_to E Control (onconnect_data s) = int (length (onconnect_data s))"
  shows "onconnect_data s \<noteq> [] \<and>
    OnConnect E Control (s\<lparr>control_socket := Some CS_CONNECTED\<rparr>) =
      Inr (s\<lparr>control_socket := Some CS_CONNECTED, onconnect_data := [],
             net_log := net_log s @ [Sent Control (onconnect_data s)]\<rparr>)"
  using reach_inv [OF assms(1)] assms(2,3)
  by (simp add: client_inv_def OnConnect_def Let_def size_of_int_def)

theorem reachable_connect_sends_witness:
  "\<exists>s. app_reach True s \<and> OnConnect (sample_net True) Control (s\<lparr>control_socket := Some CS_CONNECTED\<rparr>) =
      Inr (s\<lparr>control_socket := Some CS_CONNECTED, onconnect_data := [],
             net_log := net_log s @ [Sent Control (sign_in_request ''user@host'')]\<rparr>)"
proof -
  obtain s where s: "app_reach True s" "control_socket s = Some CS_CONNECTING"
      "onconnect_data s = sign_in_request ''user@host''"
    using sample_login by blast
  with reachable_connect_sends [OF s(1,2), of "sample_net True"] show ?thesis by auto
qed

section \<open>Null dereferences\<close>

text \<open>
  Closing the window while the server's name is still being looked up ends the process: the
  sockets do not exist yet, and \<open>SignOut\<close> asks the hanging get for its state.
\<close>

theorem close_while_resolving:
  assumes "app_reach d s" "state s = RESOLVING" "hanging_get s = None" "attached s" "wnd_callback s"
  shows "WndProc W (conductor_callbacks G) (Deliver WM_CLOSE ds) s = Inl Null_deref"
  using assms(2-5)
  by (cases G) (simp add: Let_def OnWndMessage_def conductor_callbacks_def Conductor_Close_def SignOut_def sock_defs)

theorem close_while_resolving_witness:
  "\<exists>s. app_reach True s \<and> WndProc (sample_win ''slow'') (conductor_callbacks (sample_world True ''slow''))
     (Deliver WM_CLOSE []) s = Inl Null_deref"
  using sample_lookup [of True] close_while_resolving by blast

text \<open>
  C8. A peer connection that cannot be created ends the process: \<open>InitializePeerConnection\<close> reports
  the failure, deletes what it had, and then adds tracks to a connection that is not there; so a
  call from the peer list crashes whenever the library refuses a connection.
\<close>

theorem failed_connection_crashes:
  assumes "app_reach d s" "peer_connection s = None" "peer_id s = - 1" "i \<noteq> - 1"
    and "factory_ok R" "\<not> pc_ok R True (connection_string R)"
  shows "ConnectToPeer (E, W, R) i s = Inl Null_deref"
proof -
  have "\<not> peer_connection_factory s"
    using client_inv_conductor [OF reach_inv [OF assms(1)]] assms(2) by (simp add: conductor_inv_def)
  with assms show ?thesis
    by (simp add: ConnectToPeer_def InitializePeerConnection_def CreatePeerConnection_def AddTracks_def
        DeletePeerConnection_props)
qed

theorem failed_connection_crashes_witness:
  "\<exists>s. app_reach True s \<and>
     ConnectToPeer (sample_net True, sample_win [], sample_rtc\<lparr>pc_ok := (\<lambda>b c. False)\<rparr>) 4 s = Inl Null_deref"
proof -
  obtain s where s: "wWinMain_start (sample_net True) (sample_win []) default_flags = Inr (Inr s)" "started s"
    using wWinMain_started [of "sample_win []" default_flags "sample_net True"]
    by (auto simp: sample_win_def default_flags_def kDefaultServerPort_def)
  have "app_reach True s"
    by (rule app_start [OF sample_net_simps(1) s(1)])
  with failed_connection_crashes [OF this, of 4 "sample_rtc\<lparr>pc_ok := (\<lambda>b c. False)\<rparr>"] s(2)
  show ?thesis by (auto simp: started_def sample_rtc_def)
qed

section \<open>The order of messages\<close>

text \<open>
  C9. Messages to the peer leave in the order they were queued.  When the client is idle and
  connected, the oldest waiting message, the new one last, goes out with its headers and the rest
  waits; while a message is being sent, the new one waits behind the others and nothing is sent.
\<close>

theorem messages_in_order:
  assumes "state s = CONNECTED" "my_id s \<noteq> - 1" "peer_id s \<noteq> - 1" "peer_connection s \<noteq> None"
    and "control_socket s = Some c" "hanging_get s = Some h"
    and "fst (connect_to E Control (server_address s)) \<noteq> SOCKET_ERROR"
  shows "\<exists>t. UIThreadCallback (E, W, R) SEND_MESSAGE_TO_PEER (Text_data m) s = Inr t \<and>
    (if c = CS_CLOSED
     then (let msgs = pending_messages s @ [m]
           in onconnect_data t = message_headers (my_id s) (peer_id s) (length (hd msgs)) @ hd msgs \<and>
              pending_messages t = tl msgs \<and>
              control_socket t = Some (snd (connect_to E Control (server_address s))))
     else onconnect_data t = onconnect_data s \<and> pending_messages t = pending_messages s @ [m] \<and>
          control_socket t = Some c)"
proof -
  let ?s = "s\<lparr>pending_messages := pending_messages s @ [m]\<rparr>"
  have "SEND_MESSAGE_TO_PEER \<noteq> PEER_CONNECTION_CLOSED"
    by (simp add: SEND_MESSAGE_TO_PEER_def PEER_CONNECTION_CLOSED_def)
  moreover obtain x rest where "pending_messages s @ [m] = x # rest"
    by (cases "pending_messages s") auto
  ultimately show ?thesis
    using assms
    by (auto simp: UIThreadCallback_def send_message_to_peer_def send_pending_def IsSendingMessage_def
        SendToPeer_def is_connected_def ConnectControlSocket_eq sock_GetState_def get_sock_def dcheck_def
        Let_def split: prod.splits)
qed

theorem messages_in_order_witness:
  "\<exists>t. UIThreadCallback (sample_world True []) SEND_MESSAGE_TO_PEER (Text_data ''second'') sample_call = Inr t \<and>
     onconnect_data t = message_headers 7 3 (length ''first'') @ ''first'' \<and> pending_messages t = [''second'']"
  using messages_in_order [of sample_call CS_CLOSED CS_CONNECTED "sample_net True" "sample_win []" sample_rtc "''second''"]
  by (auto simp: sample_world_def SOCKET_ERROR_def)

section \<open>Descriptions and candidates between two conductors\<close>

text \<open>What a reader of a written JSON object with these fields returns.\<close>

definition reads_back :: "rtc \<Rightarrow> (string \<times> jfield) list \<Rightarrow> bool" where
  "reads_back R fs \<longleftrightarrow>
     json_write R fs \<noteq> [] \<and>
     (case json_parse R (json_write R fs) of
        None \<Rightarrow> False
      | Some j \<Rightarrow> (\<forall>(k, f) \<in> set fs. case f of JString x \<Rightarrow> json_string j k = Some x
                                             | JInt n \<Rightarrow> json_int j k = Some n) \<and>
          (kSessionDescriptionTypeName \<notin> fst ` set fs \<longrightarrow> json_string j kSessionDescriptionTypeName = None))"

lemma field_names:
  "kSessionDescriptionTypeName \<noteq> kSessionDescriptionSdpName"
  "kSessionDescriptionTypeName \<noteq> kCandidateSdpMidName"
  "kSessionDescriptionTypeName \<noteq> kCandidateSdpMlineIndexName"
  "kSessionDescriptionTypeName \<noteq> kCandidateSdpName"
  by (simp_all add: kSessionDescriptionTypeName_def kSessionDescriptionSdpName_def
      kCandidateSdpMidName_def kCandidateSdpMlineIndexName_def kCandidateSdpName_def)

text \<open>
  C10. A description made by one conductor reaches the other one's peer connection unchanged: what
  \<open>OnSuccess\<close> queues for the peer is, when it arrives, set as the remote description with the same
  type and text, and an offer is answered.  The JSON library reads back what it wrote, and the
  SDP type names are read back and are neither empty nor the loopback marker.
\<close>

theorem description_roundtrip:
  assumes "reads_back R [(kSessionDescriptionTypeName, JString (sdp_type_to_string R (desc_type desc))),
                         (kSessionDescriptionSdpName, JString (desc_string desc))]"
    and "sdp_type_from_string R (sdp_type_to_string R (desc_type desc)) = Some (desc_type desc)"
    and "sdp_type_to_string R (desc_type desc) \<notin> {[], ''offer-loopback''}"
    and "sdp_ok R (desc_type desc) (desc_string desc)"
    and "peer_connection s = Some pc" "\<not> loopback s"
    and "peer_connection r = Some pc'" "peer_id r = p"
  shows "\<exists>m. OnSuccess (E, W, R) desc s =
       Inr (s\<lparr>peer_connection := Some (pc @ [SetLocalDescription desc]),
              msg_queue := msg_queue s @ [(SEND_MESSAGE_TO_PEER, Text_data m)]\<rparr>) \<and>
     Conductor_OnMessageFromPeer (E', W', R) p m r =
       Inr (r\<lparr>peer_connection := Some (pc' @ [SetRemoteDescription (Some (desc_type desc, desc_string desc))] @
              (if desc_type desc = kOffer then [CreateAnswer] else []))\<rparr>)"
proof -
  let ?m = "json_write R [(kSessionDescriptionTypeName, JString (sdp_type_to_string R (desc_type desc))),
                         (kSessionDescriptionSdpName, JString (desc_string desc))]"
  obtain j where j: "json_parse R ?m = Some j" "?m \<noteq> []"
      "json_string j kSessionDescriptionTypeName = Some (sdp_type_to_string R (desc_type desc))"
      "json_string j kSessionDescriptionSdpName = Some (desc_string desc)"
    using assms(1) by (auto simp: reads_back_def split: option.splits)
  have "OnSuccess (E, W, R) desc s =
       Inr (s\<lparr>peer_connection := Some (pc @ [SetLocalDescription desc]),
              msg_queue := msg_queue s @ [(SEND_MESSAGE_TO_PEER, Text_data ?m)]\<rparr>)"
    using assms(5,6) by (simp add: OnSuccess_def pc_call_def Let_def SendMessage_def QueueUIThreadCallback_def)
  moreover have "Conductor_OnMessageFromPeer (E', W', R) p ?m r =
       Inr (r\<lparr>peer_connection := Some (pc' @ [SetRemoteDescription (Some (desc_type desc, desc_string desc))] @
              (if desc_type desc = kOffer then [CreateAnswer] else []))\<rparr>)"
    using assms(2-4,7,8) j
    by (simp add: Conductor_OnMessageFromPeer_def receive_json_def receive_description_def pc_call_def Let_def)
  ultimately show ?thesis by blast
qed

text \<open>
  A local candidate reaches the peer's connection unchanged, in the same sense.
\<close>

theorem candidate_roundtrip:
  assumes "candidate_string c = Some sdp"
    and "reads_back R [(kCandidateSdpMidName, JString (sdp_mid c)),
                       (kCandidateSdpMlineIndexName, JInt (sdp_mline_index c)),
                       (kCandidateSdpName, JString sdp)]"
    and "candidate_ok R (sdp_mid c) (sdp_mline_index c) sdp"
    and "\<not> loopback s" "peer_connection r = Some pc" "peer_id r = p"
  shows "\<exists>m. OnIceCandidate (E, W, R) c s = Inr (s\<lparr>msg_queue := msg_queue s @ [(SEND_MESSAGE_TO_PEER, Text_data m)]\<rparr>) \<and>
     Conductor_OnMessageFromPeer (E', W', R) p m r = Inr (r\<lparr>peer_connection := Some (pc @ [AddIceCandidate c])\<rparr>)"
proof -
  let ?fs = "[(kCandidateSdpMidName, JString (sdp_mid c)), (kCandidateSdpMlineIndexName, JInt (sdp_mline_index c)),
              (kCandidateSdpName, JString sdp)]"
  obtain j where j: "json_parse R (json_write R ?fs) = Some j" "json_write R ?fs \<noteq> []"
      "json_string j kCandidateSdpMidName = Some (sdp_mid c)"
      "json_int j kCandidateSdpMlineIndexName = Some (sdp_mline_index c)"
      "json_string j kCandidateSdpName = Some sdp"
      "json_string j kSessionDescriptionTypeName = None"
    using assms(2) field_names by (auto simp: reads_back_def split: option.splits)
  have c: "\<lparr>sdp_mid = sdp_mid c, sdp_mline_index = sdp_mline_index c, candidate_string = Some sdp\<rparr> = c"
    using assms(1) by (cases c) simp
  have "OnIceCandidate (E, W, R) c s = Inr (s\<lparr>msg_queue := msg_queue s @ [(SEND_MESSAGE_TO_PEER, Text_data (json_write R ?fs))]\<rparr>)"
    using assms(1,4) by (simp add: OnIceCandidate_def SendMessage_def QueueUIThreadCallback_def)
  moreover have "Conductor_OnMessageFromPeer (E', W', R) p (json_write R ?fs) r = Inr (r\<lparr>peer_connection := Some (pc @ [AddIceCandidate c])\<rparr>)"
    using assms(3,5,6) j
    by (simp add: Conductor_OnMessageFromPeer_def receive_json_def receive_candidate_def pc_call_def Let_def c)
  ultimately show ?thesis by blast
qed

text \<open>A JSON library that knows one object.\<close>

definition sample_json :: "(string \<times> jfield) list \<Rightarrow> rtc" where
  "sample_json fs = sample_rtc
     \<lparr>json_write := (\<lambda>x. ''{}''),
      json_parse := (\<lambda>x. Some
        \<lparr>json_string = (\<lambda>k. case map_of fs k of Some (JString x) \<Rightarrow> Some x | _ \<Rightarrow> None),
         json_int = (\<lambda>k. case map_of fs k of Some (JInt n) \<Rightarrow> Some n | _ \<Rightarrow> None)\<rparr>),
      sdp_type_from_string := (\<lambda>x. Some kOffer)\<rparr>"

theorem description_roundtrip_witness:
  "\<exists>R m. OnSuccess (sample_net True, sample_win [], R) \<lparr>desc_type = kOffer, desc_string = ''v=0''\<rparr> sample_call =
       Inr (sample_call\<lparr>peer_connection := Some [Created True ''stun'', SetLocalDescription \<lparr>desc_type = kOffer, desc_string = ''v=0''\<rparr>],
              msg_queue := [(SEND_MESSAGE_TO_PEER, Text_data m)]\<rparr>) \<and>
     Conductor_OnMessageFromPeer (sample_net True, sample_win [], R) 3 m sample_call =
       Inr (sample_call\<lparr>peer_connection := Some [Created True ''stun'', SetRemoteDescription (Some (kOffer, ''v=0'')), CreateAnswer]\<rparr>)"
  using description_roundtrip [of "sample_json [(''type'', JString ''offer''), (''sdp'', JString ''v=0'')]"
      "\<lparr>desc_type = kOffer, desc_string = ''v=0''\<rparr>" sample_call "[Created True ''stun'']"
      sample_call "[Created True ''stun'']" 3 "sample_net True" "sample_win []" "sample_net True" "sample_win []"]
  by (auto simp: reads_back_def sample_json_def sample_rtc_def kSessionDescriptionTypeName_def
      kSessionDescriptionSdpName_def)

theorem candidate_roundtrip_witness:
  "\<exists>R m. OnIceCandidate (sample_net True, sample_win [], R)
       \<lparr>sdp_mid = ''0'', sdp_mline_index = 1, candidate_string = Some ''cand''\<rparr> sample_call =
       Inr (sample_call\<lparr>msg_queue := [(SEND_MESSAGE_TO_PEER, Text_data m)]\<rparr>) \<and>
     Conductor_OnMessageFromPeer (sample_net True, sample_win [], R) 3 m sample_call =
       Inr (sample_call\<lparr>peer_connection := Some [Created True ''stun'', AddIceCandidate
         \<lparr>sdp_mid = ''0'', sdp_mline_index = 1, candidate_string = Some ''cand''\<rparr>]\<rparr>)"
  using candidate_roundtrip [of "\<lparr>sdp_mid = ''0'', sdp_mline_index = 1, candidate_string = Some ''cand''\<rparr>" "''cand''"
      "sample_json [(''sdpMid'', JString ''0''), (''sdpMLineIndex'', JInt 1), (''candidate'', JString ''cand'')]"
      sample_call sample_call "[Created True ''stun'']" 3 "sample_net True" "sample_win []" "sample_net True" "sample_win []"]
  by (auto simp: reads_back_def sample_json_def sample_rtc_def kSessionDescriptionTypeName_def
      kCandidateSdpMidName_def kCandidateSdpMlineIndexName_def kCandidateSdpName_def)

section \<open>Capture devices\<close>

lemma all_from:
  "(\<forall>j. (i :: int) \<le> j \<and> j < k \<longrightarrow> P j) \<longleftrightarrow> (i < k \<longrightarrow> P i) \<and> (\<forall>j. i + 1 \<le> j \<and> j < k \<longrightarrow> P j)"
proof -
  have "i \<le> j \<and> j < k \<longleftrightarrow> j = i \<and> i < k \<or> i + 1 \<le> j \<and> j < k" for j
    by linarith
  then show ?thesis by (simp only:) blast
qed

lemma find_capturer_Some:
  "find_capturer R i n = Some k \<longleftrightarrow> i \<le> k \<and> k < n \<and> vcm_ok R k \<and> (\<forall>j. i \<le> j \<and> j < k \<longrightarrow> \<not> vcm_ok R j)"
proof (induction R i n rule: find_capturer.induct)
  case (1 R i n)
  consider "n \<le> i" | "i < n" "vcm_ok R i" | "i < n" "\<not> vcm_ok R i" by linarith
  then show ?case
  proof cases
    case 2
    then show ?thesis
      by (subst find_capturer.simps) (auto simp: order_le_less)
  next
    case 3
    have "i \<le> k \<and> vcm_ok R k \<longleftrightarrow> i + 1 \<le> k \<and> vcm_ok R k"
      using 3(2) by (auto simp: order_le_less)
    with 1 3 show ?thesis
      by (subst find_capturer.simps) (auto simp: all_from [of i])
  qed (subst find_capturer.simps, simp)
qed

text \<open>
  The capture source opens the first device that works, counting from device 1: device 0 is
  never tried, so a machine with a single camera has no video.
\<close>

theorem capture_device:
  "CapturerTrackSource_Create R = Some k \<longleftrightarrow>
     (\<exists>n. num_devices R = Some n \<and> 1 \<le> k \<and> k < n) \<and> vcm_ok R k \<and> (\<forall>j. 1 \<le> j \<and> j < k \<longrightarrow> \<not> vcm_ok R j)"
  by (auto simp: CapturerTrackSource_Create_def find_capturer_Some split: option.splits)

theorem capture_device_witness:
  "CapturerTrackSource_Create (sample_rtc\<lparr>num_devices := Some 3, vcm_ok := (\<lambda>i. i \<noteq> 1)\<rparr>) = Some 2"
proof -
  have "1 \<le> j \<and> j < 2 \<longrightarrow> j = 1" for j :: int by linarith
  then show ?thesis
    using capture_device [of "sample_rtc\<lparr>num_devices := Some 3, vcm_ok := (\<lambda>i. i \<noteq> 1)\<rparr>" 2] by simp
qed

section \<open>Signing out\<close>

definition signed_out :: "('a client_scheme) \<Rightarrow> bool" where
  "signed_out s \<longleftrightarrow> state s = NOT_CONNECTED \<and> my_id s = - 1 \<and> peers s = [] \<and>
     control_socket s = Some CS_CLOSED \<and> hanging_get s = Some CS_CLOSED \<and> onconnect_data s = []"

text \<open>
  The end of every sign-out: the control socket connects, takes the whole request, and the answer is read.
\<close>

lemma sign_out_answered:
  fixes s :: conductor
  assumes "callback s" "state s = SIGNING_OUT" "my_id s \<noteq> - 1" "control_socket s = Some c" "hanging_get s = Some h"
    and "onconnect_data s = sign_out_request (my_id s)"
    and "send_to F Control (onconnect_data s) = int (length (onconnect_data s))"
    and "recv_loop (recv_chunks E Control) (control_data s) = server_response i body"
    and "int (length body) \<le> INT_MAX" "INT_MIN \<le> i" "i \<le> INT_MAX"
  shows "\<exists>t u. OnConnect F Control (s\<lparr>control_socket := Some CS_CONNECTED\<rparr>) = Inr t \<and>
    net_log t = net_log s @ [Sent Control (sign_out_request (my_id s))] \<and> onconnect_data t = [] \<and>
    OnRead E (conductor_observer G) t = Inr u \<and> signed_out u \<and> net_log u = net_log t"
proof -
  let ?t = "s\<lparr>control_socket := Some CS_CONNECTED, onconnect_data := [],
      net_log := net_log s @ [Sent Control (sign_out_request (my_id s))]\<rparr>"
  have "onconnect_data s \<noteq> []" using assms(6) by (simp add: sign_out_request_nonempty)
  then have "OnConnect F Control (s\<lparr>control_socket := Some CS_CONNECTED\<rparr>) = Inr ?t"
    using assms(6,7) by (simp add: OnConnect_def Let_def size_of_int_def)
  moreover obtain u where "OnRead E (conductor_observer G) ?t = Inr u"
    "client_same (?t\<lparr>my_id := - 1, peers := [], control_data := [], onconnect_data := [],
       control_socket := Some CS_CLOSED, hanging_get := Some CS_CLOSED, resolver := False,
       state := NOT_CONNECTED\<rparr>) u"
    using conductor_returns.OnRead_sign_out [of ?t CS_CONNECTED h E i body G] assms by (auto simp: resT_iff)
  ultimately show ?thesis by (auto simp: signed_out_def client_same_iff)
qed

text \<open>
  C11. Signing out while connected.  If the control socket is idle, the client closes the hanging get
  and connects with the sign-out request at once; if a request is under way, it closes the hanging
  get, waits, and does so when it has read the answer to that request.  If that connection is refused
  at once, it is signed out without having sent anything.  Otherwise the control socket, when it
  connects and takes the whole request, has sent exactly the sign-out request, and when the answer to
  it has been read the client is signed out: not connected, without id and peers, both sockets closed.
\<close>

theorem sign_out:
  fixes s :: conductor
  assumes "callback s" "state s = CONNECTED" "my_id s \<noteq> - 1" "control_socket s = Some c" "hanging_get s = Some h"
    and "c \<noteq> CS_CLOSED \<longrightarrow> recv_loop (recv_chunks E Control) (control_data s) = server_response i body"
    and "int (length body) \<le> INT_MAX" "INT_MIN \<le> i" "i \<le> INT_MAX"
    and "send_to F Control (sign_out_request (my_id s)) = int (length (sign_out_request (my_id s)))"
    and "recv_loop (recv_chunks H Control) (if c = CS_CLOSED then control_data s else []) = server_response j answer"
    and "int (length answer) \<le> INT_MAX" "INT_MIN \<le> j" "j \<le> INT_MAX"
  shows "\<exists>ok t.
    (if c = CS_CLOSED then SignOut E s = Inr (ok, t)
     else (let waiting = s\<lparr>hanging_get := Some CS_CLOSED, state := SIGNING_OUT_WAITING\<rparr>
       in SignOut D s = Inr (True, waiting) \<and> OnRead E (conductor_observer G) waiting = Inr t)) \<and>
    net_log t = net_log s \<and>
    (if fst (connect_to E Control (server_address s)) = SOCKET_ERROR
     then signed_out t \<and> (c = CS_CLOSED \<longrightarrow> \<not> ok)
     else (c = CS_CLOSED \<longrightarrow> ok) \<and> state t = SIGNING_OUT \<and> hanging_get t = Some CS_CLOSED \<and>
       onconnect_data t = sign_out_request (my_id s) \<and>
       control_socket t = Some (snd (connect_to E Control (server_address s))) \<and>
       (\<exists>u v. OnConnect F Control (t\<lparr>control_socket := Some CS_CONNECTED\<rparr>) = Inr u \<and>
          net_log u = net_log s @ [Sent Control (sign_out_request (my_id s))] \<and> onconnect_data u = [] \<and>
          OnRead H (conductor_observer G) u = Inr v \<and> signed_out v \<and> net_log v = net_log u))"
proof -
  let ?waiting = "s\<lparr>hanging_get := Some CS_CLOSED, state := SIGNING_OUT_WAITING\<rparr>"
  let ?closed = "s\<lparr>my_id := - 1, peers := [], control_data := (if c = CS_CLOSED then control_data s else []),
      onconnect_data := [], control_socket := Some CS_CLOSED, hanging_get := Some CS_CLOSED, resolver := False,
      state := NOT_CONNECTED\<rparr>"
  let ?out = "s\<lparr>hanging_get := Some CS_CLOSED, state := SIGNING_OUT, onconnect_data := sign_out_request (my_id s),
      control_data := (if c = CS_CLOSED then control_data s else []),
      control_socket := Some (snd (connect_to E Control (server_address s)))\<rparr>"
  let ?refused = "fst (connect_to E Control (server_address s)) = SOCKET_ERROR"
  have "\<exists>t. (if c = CS_CLOSED then SignOut E s = Inr (\<not> ?refused, t)
      else SignOut D s = Inr (True, ?waiting) \<and> OnRead E (conductor_observer G) ?waiting = Inr t) \<and>
    client_same (if ?refused then ?closed else ?out) t"
  proof (cases "c = CS_CLOSED")
    case True
    then show ?thesis
      using assms(2-5)
      by (cases h) (auto simp: SignOut_def sock_defs ConnectControlSocket_eq Let_def client_same_iff split: prod.split)
  next
    case False
    then have "SignOut D s = Inr (True, ?waiting)"
      using assms(2-5) by (cases h) (auto simp: SignOut_def sock_defs)
    moreover obtain t where "OnRead E (conductor_observer G) ?waiting = Inr t"
      "client_same (if ?refused then ?closed else ?out) t"
      using conductor_returns.OnRead_sign_out_waiting [of ?waiting c E i body G] False assms(1-9)
      by (auto simp: resT_iff client_same_iff split: if_splits)
    ultimately show ?thesis using False by auto
  qed
  then obtain t where t: "if c = CS_CLOSED then SignOut E s = Inr (\<not> ?refused, t)
      else SignOut D s = Inr (True, ?waiting) \<and> OnRead E (conductor_observer G) ?waiting = Inr t"
    "client_same (if ?refused then ?closed else ?out) t" by blast
  show ?thesis
  proof (cases ?refused)
    case True
    with t show ?thesis
      by (intro exI [of _ False] exI [of _ t]) (auto simp: Let_def signed_out_def client_same_iff)
  next
    case False
    then have out: "callback t" "state t = SIGNING_OUT" "my_id t = my_id s" "hanging_get t = Some CS_CLOSED"
      "control_socket t = Some (snd (connect_to E Control (server_address s)))"
      "onconnect_data t = sign_out_request (my_id s)" "net_log t = net_log s"
      "control_data t = (if c = CS_CLOSED then control_data s else [])"
      using t(2) assms(1) by (auto simp: client_same_iff)
    then show ?thesis
      using False t(1) sign_out_answered [of t "snd (connect_to E Control (server_address s))" CS_CLOSED F H j answer G]
        assms(3,10-14)
      by (intro exI [of _ True] exI [of _ t]) (auto simp: Let_def)
  qed
qed

text \<open>Both ways on the conductor in a call: idle, and with a message under way.\<close>

definition answer_net :: net where
  "answer_net = (sample_net True)\<lparr>recv_chunks := (\<lambda>k. [server_response 7 []])\<rparr>"

theorem sign_out_witness:
  "(\<exists>t u v. SignOut answer_net sample_call = Inr (True, t) \<and>
      OnConnect answer_net Control (t\<lparr>control_socket := Some CS_CONNECTED\<rparr>) = Inr u \<and>
      net_log u = [Sent Control (sign_out_request 7)] \<and>
      OnRead answer_net (conductor_observer (sample_world True [])) u = Inr v \<and> signed_out v) \<and>
   (\<exists>t u v. OnRead answer_net (conductor_observer (sample_world True [])) (sample_call\<lparr>control_socket := Some CS_CONNECTED,
        hanging_get := Some CS_CLOSED, state := SIGNING_OUT_WAITING\<rparr>) = Inr t \<and>
      OnConnect answer_net Control (t\<lparr>control_socket := Some CS_CONNECTED\<rparr>) = Inr u \<and>
      net_log u = [Sent Control (sign_out_request 7)] \<and>
      OnRead answer_net (conductor_observer (sample_world True [])) u = Inr v \<and> signed_out v)"
proof -
  let ?busy = "sample_call\<lparr>control_socket := Some CS_CONNECTED\<rparr>"
  have call: "control_data sample_call = []" "net_log sample_call = []"
    by (simp_all add: sample_call_def MainWnd_init_def client.defs wnd.defs conductor.defs client_init_def)
  have net: "recv_chunks answer_net k = [server_response 7 []]" "connect_to answer_net k a = (0, CS_CONNECTING)"
    "send_to answer_net k x = int (length x)" for k a x
    by (simp_all add: answer_net_def sample_net_def)
  have recv: "recv_loop [server_response 7 []] [] = server_response 7 []" by simp
  note facts = call net recv SOCKET_ERROR_def INT_MIN_def INT_MAX_def
  show ?thesis
  proof
    show "\<exists>t u v. SignOut answer_net sample_call = Inr (True, t) \<and>
        OnConnect answer_net Control (t\<lparr>control_socket := Some CS_CONNECTED\<rparr>) = Inr u \<and>
        net_log u = [Sent Control (sign_out_request 7)] \<and>
        OnRead answer_net (conductor_observer (sample_world True [])) u = Inr v \<and> signed_out v"
      using sign_out [of sample_call CS_CLOSED CS_CONNECTED answer_net 7 "[]" answer_net answer_net 7 "[]"
          answer_net "sample_world True []"]
      by (auto simp: facts simp del: recv_loop.simps)
  next
    show "\<exists>t u v. OnRead answer_net (conductor_observer (sample_world True [])) (sample_call\<lparr>control_socket := Some CS_CONNECTED,
        hanging_get := Some CS_CLOSED, state := SIGNING_OUT_WAITING\<rparr>) = Inr t \<and>
      OnConnect answer_net Control (t\<lparr>control_socket := Some CS_CONNECTED\<rparr>) = Inr u \<and>
      net_log u = [Sent Control (sign_out_request 7)] \<and>
      OnRead answer_net (conductor_observer (sample_world True [])) u = Inr v \<and> signed_out v"
      using sign_out [of ?busy CS_CONNECTED CS_CONNECTED answer_net 7 "[]" answer_net answer_net 7 "[]"
          answer_net "sample_world True []"]
      by (auto simp: facts Let_def simp del: recv_loop.simps)
  qed
qed

end
