(* ===== verification/Window_Props.thy ===== *)
theory Window_Props
  imports Window_Inv
begin

text \<open>
  Properties of the window: the Tab key's search as the first hit of an iteration, and the bounds
  of the image a frame is converted into.
\<close>

section \<open>The Tab key\<close>

definition tab_step :: "tab_env \<Rightarrow> nat option \<Rightarrow> nat option" where
  "tab_step T w = (if sibling T w = None then loop_around T w else sibling T w)"

definition tab_hit :: "tab_env \<Rightarrow> nat option \<Rightarrow> nat option option" where
  "tab_hit T w =
     (if stops T (sibling T w) then Some (sibling T w)
      else if sibling T w = None \<and> stops T (loop_around T w) then Some (loop_around T w)
      else None)"

lemma tab_search_unfold:
  "tab_search T w = (case tab_hit T w of Some n \<Rightarrow> Some n | None \<Rightarrow> tab_search T (tab_step T w))"
  by (subst tab_search.simps) (simp add: tab_hit_def tab_step_def Let_def)

text \<open>The first hit of the walk from \<open>w\<close>.\<close>

definition tab_first :: "tab_env \<Rightarrow> nat option \<Rightarrow> nat option \<Rightarrow> bool" where
  "tab_first T w n \<longleftrightarrow>
     (\<exists>k. tab_hit T ((tab_step T ^^ k) w) = Some n \<and> (\<forall>j < k. tab_hit T ((tab_step T ^^ j) w) = None))"

lemma tab_first_here: "tab_hit T w = Some n \<Longrightarrow> tab_first T w n"
  unfolding tab_first_def by (intro exI [of _ 0]) simp

lemma tab_first_step: "tab_hit T w = None \<Longrightarrow> tab_first T (tab_step T w) n \<Longrightarrow> tab_first T w n"
proof -
  assume none: "tab_hit T w = None" and "tab_first T (tab_step T w) n"
  then obtain k where k: "tab_hit T ((tab_step T ^^ Suc k) w) = Some n"
      "\<forall>j < k. tab_hit T ((tab_step T ^^ Suc j) w) = None"
    by (auto simp: tab_first_def funpow_Suc_right simp del: funpow.simps)
  have "\<forall>j < Suc k. tab_hit T ((tab_step T ^^ j) w) = None"
    using k(2) none by (simp only: All_less_Suc2) simp
  with k(1) show ?thesis unfolding tab_first_def by blast
qed

lemma tab_search_reaches:
  "tab_hit T ((tab_step T ^^ k) w) = Some n \<Longrightarrow> \<forall>j < k. tab_hit T ((tab_step T ^^ j) w) = None \<Longrightarrow>
     tab_search T w = Some n"
proof (induction k arbitrary: w)
  case 0
  then show ?case by (subst tab_search_unfold) simp
next
  case (Suc k)
  have "\<forall>j < k. tab_hit T ((tab_step T ^^ Suc j) w) = None" "tab_hit T w = None"
    using Suc.prems(2) by (auto simp only: All_less_Suc2 funpow_0)
  then have "tab_search T (tab_step T w) = Some n"
    using Suc.prems(1) by (intro Suc.IH) (simp_all add: funpow_Suc_right del: funpow.simps)
  with \<open>tab_hit T w = None\<close> show ?case by (subst tab_search_unfold) simp
qed

lemma tab_search_hit:
  assumes "tab_search T w = Some n"
  shows "tab_first T w n"
proof (rule tab_search.raw_induct [where P = tab_first, OF _ assms])
  fix f T w n
  assume IH: "\<And>T w n. f T w = Some n \<Longrightarrow> tab_first T w n"
    and body: "(let next = sibling T w
      in if stops T next then Some next
         else if next = None then
           (let next = loop_around T w in if stops T next then Some next else f T next)
         else f T next) = Some n"
  show "tab_first T w n"
  proof (cases "tab_hit T w")
    case None
    then have "f T (tab_step T w) = Some n"
      using body by (auto simp: tab_hit_def tab_step_def Let_def split: if_splits)
    with None IH show ?thesis by (blast intro: tab_first_step)
  next
    case (Some m)
    then have "m = n"
      using body by (auto simp: tab_hit_def Let_def split: if_splits)
    with Some show ?thesis by (simp add: tab_first_here)
  qed
qed

text \<open>
  C12. The search of the Tab key ends at a window exactly when walking from the focused window, to
  the next sibling or around at the end, meets a visible window with a tab stop, and it ends at
  the first one met; when the walk never meets one, the loop does not end.
\<close>

theorem tab_search_spec:
  "tab_search T w = Some n \<longleftrightarrow>
     (\<exists>k. tab_hit T ((tab_step T ^^ k) w) = Some n \<and> (\<forall>j < k. tab_hit T ((tab_step T ^^ j) w) = None))"
  using tab_search_reaches [of T _ w n] tab_search_hit [of T w n] unfolding tab_first_def by blast

theorem tab_search_spec_witness:
  "tab_search \<lparr>sibling = map_option Suc, loop_around = (\<lambda>w. None), stops = (\<lambda>w. w = Some 3)\<rparr> (Some 0) = Some (Some 3)"
proof -
  let ?T = "\<lparr>sibling = map_option Suc, loop_around = (\<lambda>w. None), stops = (\<lambda>w. w = Some 3)\<rparr> :: tab_env"
  have walk: "(tab_step ?T ^^ k) (Some 0) = Some k" for k
    by (induction k) (simp_all add: tab_step_def)
  have "tab_hit ?T ((tab_step ?T ^^ 2) (Some 0)) = Some (Some 3)"
    by (simp only: walk) (simp add: tab_hit_def)
  moreover have "\<forall>j < 2. tab_hit ?T ((tab_step ?T ^^ j) (Some 0)) = None"
    by (simp only: walk) (simp add: tab_hit_def)
  ultimately show ?thesis unfolding tab_search_spec by blast
qed

text \<open>
  When no window is visible that has a tab stop, as while the peer list or the video is shown, a
  press of the Tab key hangs the process.
\<close>

theorem tab_hangs:
  assumes "\<forall>w. \<not> stops T w"
  shows "PreTranslateMessage W T focus cb (WM_CHAR VK_TAB) s = Inl No_return"
proof -
  have "tab_search T focus = None"
    using assms tab_search_hit [of T focus] by (cases "tab_search T focus") (auto simp: tab_first_def tab_hit_def split: if_splits)
  then show ?thesis by (simp add: PreTranslateMessage_def HandleTabbing_def)
qed

theorem tab_hangs_witness:
  "\<forall>W cb. PreTranslateMessage W \<lparr>sibling = (\<lambda>w. None), loop_around = (\<lambda>w. Some 0), stops = (\<lambda>w. False)\<rparr>
     (Some 0) cb (WM_CHAR VK_TAB) (MainWnd_init ''localhost'' 8888 False False) = Inl No_return"
  by (intro allI tab_hangs) simp

section \<open>The image of a frame\<close>

text \<open>The size a frame is drawn at.\<close>

definition shown_size :: "video_frame \<Rightarrow> int \<times> int" where
  "shown_size f = (if frame_rotation f \<noteq> 0 then rotated_size f else frame_size f)"

lemma image_size_eq:
  assumes "0 < w" "0 < h"
  shows "image_size w h = (if 4 * w * h < 2 ^ 31 then Inr (of_int (4 * w * h)) else Inl Overflow)"
proof -
  have "0 < w * h" using assms by simp
  then show ?thesis by (auto simp: image_size_def i32_def bytes_per_pixel_def mult.commute mult.left_commute)
qed

text \<open>
  C13. A frame of positive size is converted, into a fresh buffer even when its size has not
  changed (the stored height is negated, the test compares it with a positive one), exactly when the
  image has less than \<open>2\<^sup>31\<close> bytes and a row less than \<open>2\<^sup>31\<close> bits; then the bytes written are
  the whole buffer.  Of every larger frame the size or the stride overflows a signed integer.
\<close>

theorem frame_fits:
  assumes "shown_size f = (w, h)" "0 < w" "0 < h" "biHeight r \<le> 0"
  shows "if 4 * w * h < 2 ^ 31 \<and> 32 * w < 2 ^ 31
    then \<exists>r' n len. VideoRenderer_OnFrame d f r = Inr (r', n) \<and> n = 4 * w * h \<and>
      image r' = Some len \<and> int len = n \<and> biSizeImage r' = of_int n \<and> biWidth r' = w \<and> biHeight r' = - h
    else VideoRenderer_OnFrame d f r = Inl Overflow"
proof -
  have set: "VideoRenderer_SetSize w h r = bindR (i32 (- h)) (\<lambda>negated. bindR (image_size w h) (\<lambda>size.
      Inr (r\<lparr>biWidth := w, biHeight := negated, biSizeImage := size, image := Some (unat size)\<rparr>)))"
    using assms(3,4) by (simp add: VideoRenderer_SetSize_def)
  have frame: "VideoRenderer_OnFrame d f r = bindR (VideoRenderer_SetSize w h r) (\<lambda>r.
      bindR (dcheck d (image r \<noteq> None) r) (\<lambda>r. bindR (i32 (biWidth r * 32)) (\<lambda>bits.
        case image r of None \<Rightarrow> Inl Null_deref | Some _ \<Rightarrow> Inr (r, h * c_div bits 8))))"
    using assms(1) by (simp add: VideoRenderer_OnFrame_def shown_size_def split: if_splits)
  have area: "h \<le> w * h" using assms(2,3) by simp
  show ?thesis
  proof (cases "4 * w * h < 2 ^ 31")
    case True
    then have small: "h < 2147483648" using area by (simp add: mult.commute [of w])
    then have h: "i32 (- h) = Inr (- h)" using assms(3) by (simp add: i32_def)
    have "int (unat (of_int (4 * w * h) :: 32 word)) = 4 * w * h mod 2 ^ 32"
      by (simp only: uint_nat [symmetric] uint_word_of_int) simp
    also have "\<dots> = 4 * w * h" using True assms(2,3) by (intro mod_pos_pos_trivial) simp_all
    finally have "int (unat (of_int (4 * w * h) :: 32 word)) = 4 * w * h" .
    moreover have "c_div (w * 32) 8 = 4 * w" using assms(2) by (simp add: c_div_def abs_mult sgn_mult)
    ultimately show ?thesis
      using True assms(2,3) small by (simp add: frame set h image_size_eq [OF assms(2,3)] i32_def mult.commute)
  next
    case False
    then show ?thesis
      by (auto simp: frame set image_size_eq [OF assms(2,3)] i32_def)
  qed
qed

theorem frame_fits_witness:
  "(\<exists>r' n. VideoRenderer_OnFrame True \<lparr>frame_size = (640, 480), frame_rotation = 0, rotated_size = (480, 640)\<rparr>
     \<lparr>rendered_track = 0, biWidth = 1, biHeight = - 1, biSizeImage = 4, image = None\<rparr> = Inr (r', n) \<and> n = 1228800) \<and>
   VideoRenderer_OnFrame True \<lparr>frame_size = (32768, 16384), frame_rotation = 0, rotated_size = (16384, 32768)\<rparr>
     \<lparr>rendered_track = 0, biWidth = 1, biHeight = - 1, biSizeImage = 4, image = None\<rparr> = Inl Overflow"
  using frame_fits [of "\<lparr>frame_size = (640, 480), frame_rotation = 0, rotated_size = (480, 640)\<rparr>" 640 480
      "\<lparr>rendered_track = 0, biWidth = 1, biHeight = - 1, biSizeImage = 4, image = None\<rparr>" True]
    frame_fits [of "\<lparr>frame_size = (32768, 16384), frame_rotation = 0, rotated_size = (16384, 32768)\<rparr>" 32768 16384
      "\<lparr>rendered_track = 0, biWidth = 1, biHeight = - 1, biSizeImage = 4, image = None\<rparr>" True]
  by (auto simp: shown_size_def)

end
