(* ===== verification/Byte_IO.thy ===== *)
theory Byte_IO
  imports Prelude
begin

text \<open>
  Integers as bytes: \<open>ByteReader\<close> and \<open>ByteWriter\<close> of modules/rtp_rtcp/source/byte_io.h, and the
  accessors of rtc_base/byte_order.h on the little-endian target.  \<open>B\<close> is the number of bytes, the
  type \<open>'a\<close> the integer type \<open>T\<close>; a signed \<open>T\<close> is the same word read with \<open>sint\<close>.
\<close>

unbundle bit_operations_syntax

type_synonym byte = "8 word"

section \<open>Generic readers and writers\<close>

definition InternalReadBigEndian :: "nat \<Rightarrow> byte list \<Rightarrow> 'a::len word" where
  "InternalReadBigEndian B data =
     foldl (\<lambda>val i. val OR push_bit ((B - 1 - i) * 8) (ucast (data ! i))) 0 [0..<B]"

definition InternalReadLittleEndian :: "nat \<Rightarrow> byte list \<Rightarrow> 'a::len word" where
  "InternalReadLittleEndian B data =
     foldl (\<lambda>val i. val OR push_bit (i * 8) (ucast (data ! i))) 0 [0..<B]"

definition WriteBigEndian :: "nat \<Rightarrow> byte list \<Rightarrow> 'a::len word \<Rightarrow> byte list" where
  "WriteBigEndian B data val =
     foldl (\<lambda>d i. d[i := ucast (drop_bit ((B - 1 - i) * 8) val)]) data [0..<B]"

definition WriteLittleEndian :: "nat \<Rightarrow> byte list \<Rightarrow> 'a::len word \<Rightarrow> byte list" where
  "WriteLittleEndian B data val =
     foldl (\<lambda>d i. d[i := ucast (drop_bit (i * 8) val)]) data [0..<B]"

text \<open>
  \<open>SignExtend\<close>.  The mask is computed in \<open>int\<close>, so for four bytes or more of a wider type the
  shift is undefined, \<open>None\<close>; the mask is then converted to the wider unsigned type.
\<close>

definition SignExtend :: "nat \<Rightarrow> 'a::len word \<Rightarrow> 'a word option" where
  "SignExtend B val =
     (let kMsb = (ucast (drop_bit ((B - 1) * 8) val) :: byte)
      in if kMsb AND 0x80 \<noteq> 0 then
           (let s = (B mod (LENGTH('a) div 8)) * 8
            in if s < 31 then Some (NOT (of_int (2 ^ s - 1)) OR val) else None)
         else Some val)"

definition ReinterpretAsSigned :: "'a::len word \<Rightarrow> 'a word" where
  "ReinterpretAsSigned unsigned_val =
     (let mask = push_bit (LENGTH('a) - 1) 1
      in if unsigned_val AND mask \<noteq> 0 then (unsigned_val AND NOT mask) OR mask else unsigned_val)"

definition ReadBigEndian_signed :: "nat \<Rightarrow> byte list \<Rightarrow> 'a::len word option" where
  "ReadBigEndian_signed B data =
     (let unsigned_val = InternalReadBigEndian B data
      in map_option ReinterpretAsSigned
           (if B < LENGTH('a) div 8 then SignExtend B unsigned_val else Some unsigned_val))"

definition ReadLittleEndian_signed :: "nat \<Rightarrow> byte list \<Rightarrow> 'a::len word option" where
  "ReadLittleEndian_signed B data =
     (let unsigned_val = InternalReadLittleEndian B data
      in map_option ReinterpretAsSigned
           (if B < LENGTH('a) div 8 then SignExtend B unsigned_val else Some unsigned_val))"

definition ReinterpretAsUnsigned :: "'a::len word \<Rightarrow> 'a word" where
  "ReinterpretAsUnsigned val = val"

definition WriteBigEndian_signed :: "nat \<Rightarrow> byte list \<Rightarrow> 'a::len word \<Rightarrow> byte list" where
  "WriteBigEndian_signed B data val = WriteBigEndian B data (ReinterpretAsUnsigned val)"

definition WriteLittleEndian_signed :: "nat \<Rightarrow> byte list \<Rightarrow> 'a::len word \<Rightarrow> byte list" where
  "WriteLittleEndian_signed B data val = WriteLittleEndian B data (ReinterpretAsUnsigned val)"

section \<open>The specialisations for 1, 2, 4 and 8 bytes\<close>

definition ReadBigEndian1 :: "byte list \<Rightarrow> byte" where
  "ReadBigEndian1 data = data ! 0"

definition WriteBigEndian1 :: "byte list \<Rightarrow> byte \<Rightarrow> byte list" where
  "WriteBigEndian1 data val = data[0 := val]"

definition ReadBigEndian2 :: "byte list \<Rightarrow> 'a::len word" where
  "ReadBigEndian2 data = ucast (push_bit 8 (ucast (data ! 0) :: 32 word) OR ucast (data ! 1))"

definition ReadLittleEndian2 :: "byte list \<Rightarrow> 'a::len word" where
  "ReadLittleEndian2 data = ucast (ucast (data ! 0) OR push_bit 8 (ucast (data ! 1) :: 32 word))"

definition WriteBigEndian2 :: "byte list \<Rightarrow> 'a::len word \<Rightarrow> byte list" where
  "WriteBigEndian2 data val = data[0 := ucast (drop_bit 8 val), 1 := ucast val]"

definition WriteLittleEndian2 :: "byte list \<Rightarrow> 'a::len word \<Rightarrow> byte list" where
  "WriteLittleEndian2 data val = data[0 := ucast val, 1 := ucast (drop_bit 8 val)]"

definition Get :: "byte list \<Rightarrow> nat \<Rightarrow> 'a::len word" where
  "Get data index = ucast (data ! index)"

definition ReadBigEndian4 :: "byte list \<Rightarrow> 'a::len word" where
  "ReadBigEndian4 data =
     push_bit 24 (Get data 0) OR push_bit 16 (Get data 1) OR push_bit 8 (Get data 2) OR Get data 3"

definition ReadLittleEndian4 :: "byte list \<Rightarrow> 'a::len word" where
  "ReadLittleEndian4 data =
     Get data 0 OR push_bit 8 (Get data 1) OR push_bit 16 (Get data 2) OR push_bit 24 (Get data 3)"

definition WriteBigEndian4 :: "byte list \<Rightarrow> 'a::len word \<Rightarrow> byte list" where
  "WriteBigEndian4 data val =
     data[0 := ucast (drop_bit 24 val), 1 := ucast (drop_bit 16 val), 2 := ucast (drop_bit 8 val),
          3 := ucast val]"

definition WriteLittleEndian4 :: "byte list \<Rightarrow> 'a::len word \<Rightarrow> byte list" where
  "WriteLittleEndian4 data val =
     data[0 := ucast val, 1 := ucast (drop_bit 8 val), 2 := ucast (drop_bit 16 val),
          3 := ucast (drop_bit 24 val)]"

definition ReadBigEndian8 :: "byte list \<Rightarrow> 'a::len word" where
  "ReadBigEndian8 data =
     push_bit 56 (Get data 0) OR push_bit 48 (Get data 1) OR push_bit 40 (Get data 2) OR
     push_bit 32 (Get data 3) OR push_bit 24 (Get data 4) OR push_bit 16 (Get data 5) OR
     push_bit 8 (Get data 6) OR Get data 7"

definition ReadLittleEndian8 :: "byte list \<Rightarrow> 'a::len word" where
  "ReadLittleEndian8 data =
     Get data 0 OR push_bit 8 (Get data 1) OR push_bit 16 (Get data 2) OR push_bit 24 (Get data 3) OR
     push_bit 32 (Get data 4) OR push_bit 40 (Get data 5) OR push_bit 48 (Get data 6) OR
     push_bit 56 (Get data 7)"

definition WriteBigEndian8 :: "byte list \<Rightarrow> 'a::len word \<Rightarrow> byte list" where
  "WriteBigEndian8 data val =
     data[0 := ucast (drop_bit 56 val), 1 := ucast (drop_bit 48 val), 2 := ucast (drop_bit 40 val),
          3 := ucast (drop_bit 32 val), 4 := ucast (drop_bit 24 val), 5 := ucast (drop_bit 16 val),
          6 := ucast (drop_bit 8 val), 7 := ucast val]"

definition WriteLittleEndian8 :: "byte list \<Rightarrow> 'a::len word \<Rightarrow> byte list" where
  "WriteLittleEndian8 data val =
     data[0 := ucast val, 1 := ucast (drop_bit 8 val), 2 := ucast (drop_bit 16 val),
          3 := ucast (drop_bit 24 val), 4 := ucast (drop_bit 32 val), 5 := ucast (drop_bit 40 val),
          6 := ucast (drop_bit 48 val), 7 := ucast (drop_bit 56 val)]"

section \<open>Bits of what is read and written\<close>

lemma bit_foldl_or:
  fixes f :: "nat \<Rightarrow> 'a::len word"
  shows "bit (foldl (\<lambda>v i. v OR f i) w xs) n \<longleftrightarrow> bit w n \<or> (\<exists>i \<in> set xs. bit (f i) n)"
  by (induction xs arbitrary: w) (auto simp: bit_or_iff)

lemma bit_ucast_byte: "bit (ucast (b :: byte) :: 'a::len word) n \<longleftrightarrow> n < LENGTH('a) \<and> bit b n"
  by (simp add: bit_ucast_iff)

lemma byte_bit_less: "bit (b :: byte) n \<Longrightarrow> n < 8"
  using bit_imp_le_length by fastforce

lemma bit_shifted_byte:
  "bit (push_bit (k * 8) (ucast (b :: byte)) :: 'a::len word) n \<longleftrightarrow> n < LENGTH('a) \<and> n div 8 = k \<and> bit b (n mod 8)"
proof (cases "k * 8 \<le> n \<and> n < k * 8 + 8")
  case True
  then have "n div 8 = k" "n - k * 8 = n mod 8"
    by (auto simp: minus_mult_div_eq_mod [symmetric] div_nat_eqI mult.commute)
  with True show ?thesis
    by (auto simp: bit_push_bit_iff bit_ucast_byte)
next
  case False
  then have "n div 8 \<noteq> k" by auto
  with False show ?thesis
    by (auto simp: bit_push_bit_iff bit_ucast_byte dest: byte_bit_less)
qed

lemma bit_InternalReadBigEndian:
  "bit (InternalReadBigEndian B data :: 'a::len word) n \<longleftrightarrow>
     n < LENGTH('a) \<and> n < 8 * B \<and> bit (data ! (B - 1 - n div 8)) (n mod 8)"
proof -
  have "(\<exists>i \<in> {0..<B}. n div 8 = B - 1 - i \<and> bit (data ! i) (n mod 8)) \<longleftrightarrow>
      n < 8 * B \<and> bit (data ! (B - 1 - n div 8)) (n mod 8)"
  proof
    assume "\<exists>i \<in> {0..<B}. n div 8 = B - 1 - i \<and> bit (data ! i) (n mod 8)"
    then obtain i where i: "i < B" "n div 8 = B - 1 - i" "bit (data ! i) (n mod 8)" by auto
    then have "B - 1 - n div 8 = i" "n div 8 < B" by auto
    with i(3) show "n < 8 * B \<and> bit (data ! (B - 1 - n div 8)) (n mod 8)" by auto
  next
    assume "n < 8 * B \<and> bit (data ! (B - 1 - n div 8)) (n mod 8)"
    then show "\<exists>i \<in> {0..<B}. n div 8 = B - 1 - i \<and> bit (data ! i) (n mod 8)"
      by (intro bexI [of _ "B - 1 - n div 8"]) auto
  qed
  then show ?thesis
    by (auto simp: InternalReadBigEndian_def bit_foldl_or bit_shifted_byte)
qed

lemma bit_InternalReadLittleEndian:
  "bit (InternalReadLittleEndian B data :: 'a::len word) n \<longleftrightarrow>
     n < LENGTH('a) \<and> n < 8 * B \<and> bit (data ! (n div 8)) (n mod 8)"
  by (auto simp: InternalReadLittleEndian_def bit_foldl_or bit_shifted_byte)

lemma foldl_update_nth:
  "distinct is \<Longrightarrow> \<forall>i \<in> set is. i < length d \<Longrightarrow>
     foldl (\<lambda>d i. d[i := f i]) d is ! k = (if k \<in> set is then f k else d ! k) \<and>
     length (foldl (\<lambda>d i. d[i := f i]) d is) = length d"
  by (induction "is" arbitrary: d) (auto simp: nth_list_update)

lemma WriteBigEndian_nth:
  assumes "B \<le> length data"
  shows "length (WriteBigEndian B data val) = length data"
    and "WriteBigEndian B data val ! k = (if k < B then ucast (drop_bit ((B - 1 - k) * 8) val) else data ! k)"
  using foldl_update_nth [of "[0..<B]" data "\<lambda>i. ucast (drop_bit ((B - 1 - i) * 8) val)"] assms
  by (simp_all add: WriteBigEndian_def)

lemma WriteLittleEndian_nth:
  assumes "B \<le> length data"
  shows "length (WriteLittleEndian B data val) = length data"
    and "WriteLittleEndian B data val ! k = (if k < B then ucast (drop_bit (k * 8) val) else data ! k)"
  using foldl_update_nth [of "[0..<B]" data "\<lambda>i. ucast (drop_bit (i * 8) val)"] assms
  by (simp_all add: WriteLittleEndian_def)

end
