(* ===== verification/Byte_Props.thy ===== *)
theory Byte_Props
  imports Byte_IO
begin

text \<open>
  Reading back what was written, the sign of short integers, and the specialised readers and
  writers as instances of the generic loops.
\<close>

unbundle bit_operations_syntax

section \<open>Round trips\<close>

lemma read_write_big:
  assumes "B \<le> length data"
  shows "(InternalReadBigEndian B (WriteBigEndian B data val) :: 'a word) = take_bit (8 * B) (val :: 'a::len word)"
proof (rule bit_word_eqI)
  fix n
  have "B - 1 - (B - 1 - n div 8) = n div 8" "n div 8 * 8 + n mod 8 = n" if "n < 8 * B"
    using that by auto
  then show "bit (InternalReadBigEndian B (WriteBigEndian B data val) :: 'a word) n \<longleftrightarrow> bit (take_bit (8 * B) val) n"
    if "n < LENGTH('a)"
    using that assms
    by (auto simp: bit_InternalReadBigEndian WriteBigEndian_nth bit_take_bit_iff bit_ucast_iff bit_drop_bit_eq)
qed

lemma read_write_little:
  assumes "B \<le> length data"
  shows "(InternalReadLittleEndian B (WriteLittleEndian B data val) :: 'a word) = take_bit (8 * B) (val :: 'a::len word)"
proof (rule bit_word_eqI)
  fix n
  have "n div 8 * 8 + n mod 8 = n" "n < 8 * B \<Longrightarrow> n div 8 < B" by auto
  then show "bit (InternalReadLittleEndian B (WriteLittleEndian B data val) :: 'a word) n \<longleftrightarrow> bit (take_bit (8 * B) val) n"
    if "n < LENGTH('a)"
    using that assms
    by (auto simp: bit_InternalReadLittleEndian WriteLittleEndian_nth bit_take_bit_iff bit_ucast_iff bit_drop_bit_eq)
qed

text \<open>
  C19. Reading \<open>B\<close> bytes in the order they were written gives the low \<open>8 B\<close> bits of the value, in
  either byte order, and writing changes no byte beyond the first \<open>B\<close>.
\<close>

theorem byte_roundtrip:
  fixes val :: "'a::len word"
  assumes "B \<le> length data"
  shows "(InternalReadBigEndian B (WriteBigEndian B data val) :: 'a word) = take_bit (8 * B) val \<and>
    (InternalReadLittleEndian B (WriteLittleEndian B data val) :: 'a word) = take_bit (8 * B) val \<and>
    drop B (WriteBigEndian B data val) = drop B data \<and> drop B (WriteLittleEndian B data val) = drop B data"
  using assms
  by (auto simp: read_write_big read_write_little WriteBigEndian_nth WriteLittleEndian_nth intro!: nth_equalityI)

theorem byte_roundtrip_witness:
  "InternalReadBigEndian 3 (WriteBigEndian 3 [0, 0, 0, 9] (0x01020304 :: 32 word)) = (0x020304 :: 32 word)"
  using byte_roundtrip [of 3 "[0, 0, 0, 9]" "0x01020304 :: 32 word"] by simp

text \<open>The big-endian reader is the little-endian one on the reversed bytes.\<close>

lemma read_big_rev:
  "length data = B \<Longrightarrow> (InternalReadBigEndian B data :: 'a::len word) = InternalReadLittleEndian B (rev data)"
proof (rule bit_word_eqI)
  fix n assume "length data = B"
  then show "bit (InternalReadBigEndian B data :: 'a word) n \<longleftrightarrow> bit (InternalReadLittleEndian B (rev data) :: 'a word) n"
    by (cases "n < 8 * B") (auto simp: bit_InternalReadBigEndian bit_InternalReadLittleEndian rev_nth)
qed

section \<open>The specialised readers and writers\<close>

lemmas upt_bytes = upt_rec [of 0] upt_rec [of "Suc _"]

lemma upt_eval: "[0..<2] = [0, 1]" "[0..<4] = [0, 1, 2, 3]" "[0..<8] = [0, 1, 2, 3, 4, 5, 6, 7]"
  by (simp_all add: upt_rec)

text \<open>
  The unrolled specialisations for two, four and eight bytes read and write what the generic
  loops do.
\<close>

theorem specialised_bytes:
  fixes val :: "'a::len word"
  shows "ReadBigEndian2 data = (InternalReadBigEndian 2 data :: 16 word) \<and>
    ReadLittleEndian2 data = (InternalReadLittleEndian 2 data :: 16 word) \<and>
    ReadBigEndian4 data = (InternalReadBigEndian 4 data :: 'a word) \<and>
    ReadLittleEndian4 data = (InternalReadLittleEndian 4 data :: 'a word) \<and>
    ReadBigEndian8 data = (InternalReadBigEndian 8 data :: 'a word) \<and>
    ReadLittleEndian8 data = (InternalReadLittleEndian 8 data :: 'a word) \<and>
    WriteBigEndian2 data val = WriteBigEndian 2 data val \<and>
    WriteLittleEndian2 data val = WriteLittleEndian 2 data val \<and>
    WriteBigEndian4 data val = WriteBigEndian 4 data val \<and>
    WriteLittleEndian4 data val = WriteLittleEndian 4 data val \<and>
    WriteBigEndian8 data val = WriteBigEndian 8 data val \<and>
    WriteLittleEndian8 data val = WriteLittleEndian 8 data val"
proof (intro conjI)
  show "ReadBigEndian2 data = (InternalReadBigEndian 2 data :: 16 word)"
    by (rule bit_word_eqI)
      (auto simp: ReadBigEndian2_def InternalReadBigEndian_def upt_eval bit_or_iff bit_push_bit_iff bit_ucast_iff)
  show "ReadLittleEndian2 data = (InternalReadLittleEndian 2 data :: 16 word)"
    by (rule bit_word_eqI)
      (auto simp: ReadLittleEndian2_def InternalReadLittleEndian_def upt_eval bit_or_iff bit_push_bit_iff bit_ucast_iff)
qed (simp_all add: ReadBigEndian4_def ReadLittleEndian4_def ReadBigEndian8_def ReadLittleEndian8_def
    InternalReadBigEndian_def InternalReadLittleEndian_def upt_eval Get_def or.assoc
    WriteBigEndian2_def WriteBigEndian4_def WriteBigEndian8_def WriteLittleEndian2_def
    WriteLittleEndian4_def WriteLittleEndian8_def WriteBigEndian_def WriteLittleEndian_def)

section \<open>Signed integers\<close>

lemma ReinterpretAsSigned_id: "ReinterpretAsSigned v = (v :: 'a::len word)"
proof -
  have "(v AND NOT m) OR m = v" if "v AND m \<noteq> 0" "m = push_bit (LENGTH('a) - 1) 1" for m
  proof (rule bit_word_eqI)
    fix n assume n: "n < LENGTH('a)"
    have "bit v (LENGTH('a) - 1)"
    proof (rule ccontr)
      assume "\<not> bit v (LENGTH('a) - 1)"
      with that show False by (simp add: and_exp_eq_0_iff_not_bit)
    qed
    then show "bit ((v AND NOT m) OR m) n \<longleftrightarrow> bit v n"
      using that(2) n by (auto simp: bit_and_iff bit_or_iff bit_not_iff bit_exp_iff)
  qed
  then show ?thesis by (simp add: ReinterpretAsSigned_def Let_def)
qed

text \<open>The top bit of the bytes read decides.\<close>

lemma top_bit:
  assumes "0 < B" "8 * B \<le> LENGTH('a::len)"
  shows "(ucast (drop_bit ((B - 1) * 8) (v :: 'a word)) :: byte) AND 0x80 \<noteq> 0 \<longleftrightarrow> bit v (8 * B - 1)"
proof -
  have "(w :: byte) AND 2 ^ 7 \<noteq> 0 \<longleftrightarrow> bit w 7" for w
    by (simp only: and_exp_eq_0_iff_not_bit not_not)
  then have "(w :: byte) AND 0x80 \<noteq> 0 \<longleftrightarrow> bit w 7" for w by simp
  moreover have "(B - 1) * 8 + 7 = 8 * B - 1" using assms(1) by (cases B) auto
  ultimately show ?thesis
    using assms by (simp add: bit_ucast_iff bit_drop_bit_eq)
qed

lemma of_int_mask: "(of_int (2 ^ s - 1) :: 'a::len word) = mask s"
  by (simp add: mask_eq_exp_minus_1)

lemma SignExtend_take:
  fixes val :: "'a::len word"
  assumes "0 < B" "8 dvd LENGTH('a)" "B < LENGTH('a) div 8"
  shows "SignExtend B (take_bit (8 * B) val) =
    (if bit val (8 * B - 1) \<and> 31 \<le> 8 * B then None else Some (signed_take_bit (8 * B - 1) val))"
proof -
  have len: "8 * B < LENGTH('a)" using assms(2,3) by (auto elim!: dvdE)
  have "bit (take_bit (8 * B) val) (8 * B - 1) \<longleftrightarrow> bit val (8 * B - 1)"
    using assms(1) by (simp add: bit_take_bit_iff)
  moreover have "NOT (mask (8 * B)) OR take_bit (8 * B) val = signed_take_bit (8 * B - 1) val"
    if "bit val (8 * B - 1)"
    using that assms(1) by (intro bit_word_eqI)
      (auto simp: bit_or_iff bit_not_iff bit_mask_iff bit_take_bit_iff bit_signed_take_bit_iff min_def not_less
        dest: le_antisym)
  moreover have "take_bit (8 * B) val = signed_take_bit (8 * B - 1) val" if "\<not> bit val (8 * B - 1)"
  proof (rule bit_word_eqI)
    fix n assume n: "n < LENGTH('a)"
    have "bit val n \<longrightarrow> n \<noteq> 8 * B - 1" using that by auto
    with n show "bit (take_bit (8 * B) val) n \<longleftrightarrow> bit (signed_take_bit (8 * B - 1) val) n"
      using that assms(1) by (auto simp: bit_take_bit_iff bit_signed_take_bit_iff min_def)
  qed
  ultimately show ?thesis
    using top_bit [OF assms(1), of "take_bit (8 * B) val"] len assms(3)
    by (simp add: SignExtend_def mask_eq_exp_minus_1 Let_def mult.commute not_less)
qed

text \<open>
  A signed integer written in \<open>B\<close> bytes is read back with its sign when \<open>B\<close> is the whole type
  or at most three bytes: a value that fits \<open>B\<close> bytes is read back as it was.
\<close>

theorem signed_roundtrip:
  fixes val :: "'a::len word"
  assumes "0 < B" "B \<le> length data" "8 dvd LENGTH('a)" "B = LENGTH('a) div 8 \<or> B \<le> 3 \<and> B < LENGTH('a) div 8"
    and "- (2 ^ (8 * B - 1)) \<le> sint val" "sint val < 2 ^ (8 * B - 1)"
  shows "ReadBigEndian_signed B (WriteBigEndian_signed B data val) = Some val \<and>
    ReadLittleEndian_signed B (WriteLittleEndian_signed B data val) = Some val"
proof -
  have same: "signed_take_bit (8 * B - 1) val = val" if "8 * B \<le> LENGTH('a)"
  proof -
    have eq: "signed_take_bit (8 * B - 1) (sint val) = sint val"
      using assms(5,6) by (simp add: signed_take_bit_int_eq_self_iff)
    show ?thesis
    proof (rule bit_word_eqI)
      fix n assume "n < LENGTH('a)"
      then show "bit (signed_take_bit (8 * B - 1) val) n \<longleftrightarrow> bit val n"
        using arg_cong [OF eq, of "\<lambda>x. bit x n"] that assms(1)
        by (auto simp: bit_signed_take_bit_iff bit_sint_iff min_def split: if_splits)
    qed
  qed
  have len: "8 * B \<le> LENGTH('a)" using assms(3,4) by (auto elim!: dvdE)
  have "take_bit (8 * B) val = val" if "B = LENGTH('a) div 8"
    using that assms(3) by (auto intro!: bit_word_eqI simp: bit_take_bit_iff)
  then show ?thesis
    using assms(1-4) same [OF len] SignExtend_take [of B val]
    by (auto simp: ReadBigEndian_signed_def ReadLittleEndian_signed_def WriteBigEndian_signed_def
        WriteLittleEndian_signed_def ReinterpretAsUnsigned_def read_write_big read_write_little Let_def
        ReinterpretAsSigned_id)
qed

theorem signed_roundtrip_witness:
  "ReadBigEndian_signed 3 (WriteBigEndian_signed 3 [0, 0, 0] (- 5 :: 32 word)) = Some (- 5 :: 32 word)"
  using signed_roundtrip [of 3 "[0, 0, 0]" "- 5 :: 32 word"] by simp

text \<open>
  Reading a negative number of four to seven bytes into a 64-bit integer shifts the \<open>int\<close> 1 by
  32 bits or more, which C++ leaves undefined.
\<close>

theorem signed_read_undefined:
  fixes val :: "64 word"
  assumes "4 \<le> B" "B < 8" "B \<le> length data" "bit val (8 * B - 1)"
  shows "(ReadBigEndian_signed B (WriteBigEndian_signed B data val) :: 64 word option) = None"
  using assms SignExtend_take [of B val]
  by (simp add: ReadBigEndian_signed_def WriteBigEndian_signed_def ReinterpretAsUnsigned_def read_write_big Let_def)

theorem signed_read_undefined_witness:
  "(ReadBigEndian_signed 5 (WriteBigEndian_signed 5 [0, 0, 0, 0, 0] (- 1 :: 64 word)) :: 64 word option) = None"
  using signed_read_undefined [of 5 "[0, 0, 0, 0, 0]" "- 1"] by simp

end
