(* ===== verification/Seq_Num.thy ===== *)
theory Seq_Num
  imports Prelude
begin

text \<open>
  Wrapping sequence numbers: rtc_base/numerics/mod_ops.h, rtc_base/numerics/sequence_number_util.h
  and modules/include/module_common_types_public.h.  \<open>'a\<close> is the unsigned type \<open>T\<close>, \<open>M\<close> the modulus,
  0 standing for the whole type.  Types narrower than \<open>int\<close> are promoted to it before they are
  subtracted.  The unwrapped numbers are \<open>int64_t\<close>, whose overflow is a fault.
\<close>

unbundle bit_operations_syntax

section \<open>Modular arithmetic\<close>

definition Add :: "bool \<Rightarrow> 'a::len word \<Rightarrow> 'a word \<Rightarrow> 'a word \<Rightarrow> 'a word res" where
  "Add dchecks M a b =
     bindR (dcheck dchecks (a < M) ()) (\<lambda>_.
       let t = M - b mod M; r = a - t
       in Inr (if t > a then r + M else r))"

definition Subtract :: "bool \<Rightarrow> 'a::len word \<Rightarrow> 'a word \<Rightarrow> 'a word \<Rightarrow> 'a word res" where
  "Subtract dchecks M a b =
     bindR (dcheck dchecks (a < M) ()) (\<lambda>_.
       let sub = b mod M
       in Inr (if a < sub then M - (sub - a) else a - sub))"

text \<open>With modulus 0 the differences are those of the type and nothing is checked.\<close>

definition ForwardDiff :: "bool \<Rightarrow> 'a::len word \<Rightarrow> 'a word \<Rightarrow> 'a word \<Rightarrow> 'a word res" where
  "ForwardDiff dchecks M a b =
     (if M > 0 then
        bindR (dcheck dchecks (a < M) ()) (\<lambda>_. bindR (dcheck dchecks (b < M) ()) (\<lambda>_.
          Inr (if a \<le> b then b - a else M - (a - b))))
      else Inr (b - a))"

definition ReverseDiff :: "bool \<Rightarrow> 'a::len word \<Rightarrow> 'a word \<Rightarrow> 'a word \<Rightarrow> 'a word res" where
  "ReverseDiff dchecks M a b =
     (if M > 0 then
        bindR (dcheck dchecks (a < M) ()) (\<lambda>_. bindR (dcheck dchecks (b < M) ()) (\<lambda>_.
          Inr (if b \<le> a then a - b else M - (b - a))))
      else Inr (a - b))"

definition MinDiff :: "bool \<Rightarrow> 'a::len word \<Rightarrow> 'a word \<Rightarrow> 'a word \<Rightarrow> 'a word res" where
  "MinDiff dchecks M a b =
     bindR (ForwardDiff dchecks M a b) (\<lambda>f. bindR (ReverseDiff dchecks M a b) (\<lambda>r. Inr (min f r)))"

section \<open>Order of sequence numbers\<close>

text \<open>\<open>a - b == c\<close> after the promotion of narrow types.\<close>

definition minus_eq :: "'a::len word \<Rightarrow> 'a word \<Rightarrow> 'a word \<Rightarrow> bool" where
  "minus_eq a b c = (if LENGTH('a) < 32 then uint a - uint b = uint c else a - b = c)"

definition AheadOrAt_mod :: "bool \<Rightarrow> 'a::len word \<Rightarrow> 'a word \<Rightarrow> 'a word \<Rightarrow> bool res" where
  "AheadOrAt_mod dchecks M a b =
     (let maxDist = M div 2
      in bindR (if M AND 1 = 0 then bindR (MinDiff dchecks M a b) (\<lambda>m. Inr (m = maxDist)) else Inr False) (\<lambda>opposite.
           if opposite then Inr (b < a)
           else bindR (ForwardDiff dchecks M b a) (\<lambda>f. Inr (f \<le> maxDist))))"

definition AheadOrAt_full :: "bool \<Rightarrow> 'a::len word \<Rightarrow> 'a word \<Rightarrow> bool res" where
  "AheadOrAt_full dchecks a b =
     (let maxDist = (- 1) div 2 + 1
      in if minus_eq a b maxDist then Inr (b < a)
         else bindR (ForwardDiff dchecks 0 b a) (\<lambda>f. Inr (f < maxDist)))"

definition AheadOrAt :: "bool \<Rightarrow> 'a::len word \<Rightarrow> 'a word \<Rightarrow> 'a word \<Rightarrow> bool res" where
  "AheadOrAt dchecks M a b = (if M > 0 then AheadOrAt_mod dchecks M a b else AheadOrAt_full dchecks a b)"

definition AheadOf :: "bool \<Rightarrow> 'a::len word \<Rightarrow> 'a word \<Rightarrow> 'a word \<Rightarrow> bool res" where
  "AheadOf dchecks M a b = (if a \<noteq> b then AheadOrAt dchecks M a b else Inr False)"

definition AscendingSeqNumComp :: "bool \<Rightarrow> 'a::len word \<Rightarrow> 'a word \<Rightarrow> 'a word \<Rightarrow> bool res" where
  "AscendingSeqNumComp dchecks M a b = AheadOf dchecks M a b"

definition DescendingSeqNumComp :: "bool \<Rightarrow> 'a::len word \<Rightarrow> 'a word \<Rightarrow> 'a word \<Rightarrow> bool res" where
  "DescendingSeqNumComp dchecks M a b = AheadOf dchecks M b a"

section \<open>Unwrapping\<close>

record 'a seq_unwrapper =
  last_unwrapped :: int
  last_seq :: "'a option"

definition SeqNumUnwrapper_new :: "'a::len word seq_unwrapper" where
  "SeqNumUnwrapper_new = \<lparr>last_unwrapped = 0, last_seq = None\<rparr>"

text \<open>
  \<open>last_unwrapped_\<close> is an \<open>int64_t\<close>.  \<open>T\<close> is narrower than that, as a \<open>static_assert\<close> asks: its numbers
  and the circle are values of the type.
\<close>

definition SeqNumUnwrapper_Unwrap ::
    "bool \<Rightarrow> 'a::len word \<Rightarrow> 'a word \<Rightarrow> 'a word seq_unwrapper \<Rightarrow> (int \<times> 'a word seq_unwrapper) res" where
  "SeqNumUnwrapper_Unwrap dchecks M value s =
     bindR (case last_seq s of
              None \<Rightarrow> Inr (uint value)
            | Some prev \<Rightarrow>
                bindR (ForwardDiff dchecks M prev value) (\<lambda>f.
                bindR (i64 (last_unwrapped s + uint f)) (\<lambda>u.
                bindR (AheadOrAt dchecks M value prev) (\<lambda>ahead.
                  if \<not> ahead then i64 (u - (if M = 0 then uint (- 1 :: 'a word) + 1 else uint M)) else Inr u))))
       (\<lambda>u. Inr (u, \<lparr>last_unwrapped = u, last_seq = Some value\<rparr>))"

definition IsNewer :: "'a::len word \<Rightarrow> 'a word \<Rightarrow> bool" where
  "IsNewer value prev_value =
     (let kBreakpoint = drop_bit 1 (- 1) + 1
      in if minus_eq value prev_value kBreakpoint then value > prev_value
         else value \<noteq> prev_value \<and> value - prev_value < kBreakpoint)"

text \<open>The state of \<open>Unwrapper<U>\<close> is its \<open>last_value_\<close>.\<close>

definition UnwrapWithoutUpdate :: "'a::len word \<Rightarrow> int option \<Rightarrow> int res" where
  "UnwrapWithoutUpdate value last_value =
     (case last_value of
        None \<Rightarrow> Inr (uint value)
      | Some prev \<Rightarrow>
          let kMaxPlusOne = uint (- 1 :: 'a word) + 1;
              cropped_last = (of_int prev :: 'a word);
              delta = (if LENGTH('a) < 32 then uint value - uint cropped_last else uint (value - cropped_last))
          in bindR (if IsNewer value cropped_last then Inr (if delta < 0 then delta + kMaxPlusOne else delta)
                    else if delta > 0 then
                      bindR (i64 (prev + delta)) (\<lambda>sum. bindR (i64 (sum - kMaxPlusOne)) (\<lambda>back.
                        Inr (if back \<ge> 0 then delta - kMaxPlusOne else delta)))
                    else Inr delta)
               (\<lambda>delta. i64 (prev + delta)))"

definition UpdateLast :: "int \<Rightarrow> int option \<Rightarrow> int option" where
  "UpdateLast v last_value = Some v"

definition Unwrap :: "'a::len word \<Rightarrow> int option \<Rightarrow> (int \<times> int option) res" where
  "Unwrap value last_value =
     bindR (UnwrapWithoutUpdate value last_value) (\<lambda>unwrapped. Inr (unwrapped, UpdateLast unwrapped last_value))"

definition IsNewerSequenceNumber :: "16 word \<Rightarrow> 16 word \<Rightarrow> bool" where
  "IsNewerSequenceNumber sequence_number prev_sequence_number = IsNewer sequence_number prev_sequence_number"

definition IsNewerTimestamp :: "32 word \<Rightarrow> 32 word \<Rightarrow> bool" where
  "IsNewerTimestamp timestamp prev_timestamp = IsNewer timestamp prev_timestamp"

definition LatestSequenceNumber :: "16 word \<Rightarrow> 16 word \<Rightarrow> 16 word" where
  "LatestSequenceNumber n1 n2 = (if IsNewerSequenceNumber n1 n2 then n1 else n2)"

definition LatestTimestamp :: "32 word \<Rightarrow> 32 word \<Rightarrow> 32 word" where
  "LatestTimestamp t1 t2 = (if IsNewerTimestamp t1 t2 then t1 else t2)"

section \<open>Values of the differences and the order\<close>

text \<open>What the operations return where their checks hold.\<close>

definition forward_diff :: "'a::len word \<Rightarrow> 'a word \<Rightarrow> 'a word \<Rightarrow> 'a word" where
  "forward_diff M a b = (if M > 0 then (if a \<le> b then b - a else M - (a - b)) else b - a)"

definition reverse_diff :: "'a::len word \<Rightarrow> 'a word \<Rightarrow> 'a word \<Rightarrow> 'a word" where
  "reverse_diff M a b = (if M > 0 then (if b \<le> a then a - b else M - (b - a)) else a - b)"

definition min_diff :: "'a::len word \<Rightarrow> 'a word \<Rightarrow> 'a word \<Rightarrow> 'a word" where
  "min_diff M a b = min (forward_diff M a b) (reverse_diff M a b)"

definition ahead_or_at_mod :: "'a::len word \<Rightarrow> 'a word \<Rightarrow> 'a word \<Rightarrow> bool" where
  "ahead_or_at_mod M a b =
     (let maxDist = M div 2
      in if M AND 1 = 0 \<and> min_diff M a b = maxDist then b < a
         else forward_diff M b a \<le> maxDist)"

definition ahead_or_at_full :: "'a::len word \<Rightarrow> 'a word \<Rightarrow> bool" where
  "ahead_or_at_full a b =
     (let maxDist = (- 1) div 2 + 1
      in if minus_eq a b maxDist then b < a else forward_diff 0 b a < maxDist)"

definition ahead_or_at :: "'a::len word \<Rightarrow> 'a word \<Rightarrow> 'a word \<Rightarrow> bool" where
  "ahead_or_at M a b = (if M > 0 then ahead_or_at_mod M a b else ahead_or_at_full a b)"

definition ahead_of :: "'a::len word \<Rightarrow> 'a word \<Rightarrow> 'a word \<Rightarrow> bool" where
  "ahead_of M a b \<longleftrightarrow> a \<noteq> b \<and> ahead_or_at M a b"

text \<open>The numbers a modulus allows.\<close>

definition on_circle :: "'a::len word \<Rightarrow> 'a word \<Rightarrow> bool" where
  "on_circle M a \<longleftrightarrow> M = 0 \<or> a < M"

lemma diff_values:
  assumes "d \<longrightarrow> on_circle M a \<and> on_circle M b"
  shows "ForwardDiff d M a b = Inr (forward_diff M a b)" "ReverseDiff d M a b = Inr (reverse_diff M a b)"
    "MinDiff d M a b = Inr (min_diff M a b)"
  using assms
  by (auto simp: MinDiff_def ForwardDiff_def ReverseDiff_def forward_diff_def reverse_diff_def min_diff_def on_circle_def dcheck_def)

lemma order_values:
  assumes "d \<longrightarrow> on_circle M a \<and> on_circle M b"
  shows "AheadOrAt d M a b = Inr (ahead_or_at M a b)" "AheadOf d M a b = Inr (ahead_of M a b)"
proof -
  have sym: "d \<longrightarrow> on_circle M b \<and> on_circle M a" using assms by blast
  have full: "ForwardDiff d 0 b a = Inr (forward_diff 0 b a)" by (rule diff_values) (simp add: on_circle_def)
  show *: "AheadOrAt d M a b = Inr (ahead_or_at M a b)"
    by (simp add: AheadOrAt_def AheadOrAt_mod_def AheadOrAt_full_def ahead_or_at_def ahead_or_at_mod_def
        ahead_or_at_full_def Let_def diff_values [OF assms] diff_values [OF sym] full)
  show "AheadOf d M a b = Inr (ahead_of M a b)" by (simp add: AheadOf_def ahead_of_def *)
qed

text \<open>With checks on, a number off the circle stops the process.\<close>

lemma off_circle:
  "\<not> (on_circle M a \<and> on_circle M b) \<Longrightarrow> ForwardDiff True M a b = Inl Check_failed \<and> ReverseDiff True M a b = Inl Check_failed"
  by (auto simp: ForwardDiff_def ReverseDiff_def on_circle_def dcheck_def word_neq_0_conv)

section \<open>The arithmetic in integers\<close>

lemma uint_minus: "uint (a - b :: 'a::len word) = (if b \<le> a then uint a - uint b else uint a - uint b + 2 ^ LENGTH('a))"
  by (simp add: uint_sub_if' word_le_def)

lemma uint_bounded: "0 \<le> uint (a :: 'a::len word) \<and> uint a < 2 ^ LENGTH('a)"
  by (simp add: uint_lt2p)

text \<open>The size of the circle.\<close>

definition circle :: "'a::len word \<Rightarrow> int" where
  "circle M = (if M = 0 then 2 ^ LENGTH('a) else uint M)"

lemma forward_diff_mod:
  assumes "M = 0 \<or> a < M \<and> b < M"
  shows "uint (forward_diff M a b) = (uint b - uint a) mod circle (M :: 'a::len word)"
proof (cases "M = 0")
  case True
  have "uint (b - a) = (uint b - uint a) mod 2 ^ LENGTH('a)"
    by (simp add: uint_word_ariths)
  with True show ?thesis by (simp add: forward_diff_def circle_def)
next
  case False
  then have M: "0 < M" "a < M" "b < M" using assms by (auto simp: word_neq_0_conv)
  then have ui: "0 \<le> uint a" "uint a < uint M" "0 \<le> uint b" "uint b < uint M"
    by (simp_all add: word_less_def)
  show ?thesis
  proof (cases "a \<le> b")
    case True
    then have d: "uint (b - a) = uint b - uint a" "0 \<le> uint b - uint a"
      by (simp_all add: uint_minus word_le_def)
    then have "(uint b - uint a) mod uint M = uint b - uint a"
      by (intro mod_pos_pos_trivial) (use ui d in linarith)+
    with True M False \<open>uint (b - a) = uint b - uint a\<close> show ?thesis
      by (simp add: forward_diff_def circle_def)
  next
    case False2: False
    then have d: "uint (a - b) = uint a - uint b" "uint b < uint a"
      by (simp_all add: uint_minus word_le_def)
    then have "uint (a - b) \<le> uint M" using ui by linarith
    then have "a - b \<le> M" by (simp add: word_le_def)
    then have e: "uint (M - (a - b)) = uint M - (uint a - uint b)"
      using d by (simp add: uint_minus)
    have "(uint b - uint a) mod uint M = uint b - uint a + uint M"
    proof -
      have "(uint b - uint a) mod uint M = (uint b - uint a + uint M) mod uint M" by simp
      also have "\<dots> = uint b - uint a + uint M"
        by (rule mod_pos_pos_trivial) (use d ui in linarith)+
      finally show ?thesis .
    qed
    with e False2 M False show ?thesis by (simp add: forward_diff_def circle_def)
  qed
qed

lemma reverse_diff_forward: "reverse_diff M a b = forward_diff M b a"
  by (simp add: reverse_diff_def forward_diff_def)

end
