(* ===== verification/Seq_Props.thy ===== *)
theory Seq_Props
  imports Seq_Num
begin

text \<open>
  The order of wrapping sequence numbers in integer arithmetic, and the unwrappers as the inverse
  of wrapping: a sequence that never jumps by half the circle or more is recovered exactly.
\<close>

unbundle bit_operations_syntax

lemma circle_pos: "0 < circle M"
  by (auto simp: circle_def word_neq_0_conv word_less_def)

lemma uint_word_half: "uint (M div 2 :: 'a::len word) = uint M div 2"
proof (cases "LENGTH('a) = 1")
  case True
  then have "uint M < 2" using uint_bounded [of M] by simp
  moreover have "0 \<le> uint M" by simp
  ultimately have "uint M div 2 = 0" by linarith
  with True show ?thesis by (simp add: uint_div_distrib)
next
  case False
  then have "(2 :: int) < 2 ^ LENGTH('a)"
    by (metis One_nat_def len_gt_0 less_SucE nat_neq_iff not_less_eq numeral_One one_less_numeral_iff power_one_right power_strict_increasing semiring_norm(76))
  with False show ?thesis by (simp add: uint_div_distrib)
qed

lemma even_word: "M AND 1 = 0 \<longleftrightarrow> even (uint (M :: 'a::len word))"
  using and_exp_eq_0_iff_not_bit [of M 0] bit_uint_iff [of M 0] by (simp add: bit_0)

text \<open>How far \<open>a\<close> is ahead of \<open>b\<close> on the circle.\<close>

definition ahead_by :: "'a::len word \<Rightarrow> 'a word \<Rightarrow> 'a word \<Rightarrow> int" where
  "ahead_by M a b = (uint a - uint b) mod circle M"

lemma ahead_by_range: "0 \<le> ahead_by M a b" "ahead_by M a b < circle M"
  by (simp_all add: ahead_by_def circle_pos)

lemma forward_diff_ahead: "on_circle M a \<Longrightarrow> on_circle M b \<Longrightarrow> uint (forward_diff M b a) = ahead_by M a b"
  unfolding ahead_by_def on_circle_def by (rule forward_diff_mod) auto

lemma on_circle_range: "on_circle M a \<Longrightarrow> 0 \<le> uint a \<and> uint a < circle M"
  by (auto simp: on_circle_def circle_def uint_bounded word_less_def)

lemma ahead_by_sym:
  assumes "on_circle M a" "on_circle M b" "a \<noteq> b"
  shows "ahead_by M b a = circle M - ahead_by M a b"
proof -
  have "(uint a - uint b) mod circle M \<noteq> 0"
  proof
    assume "(uint a - uint b) mod circle M = 0"
    then have "uint a mod circle M = uint b mod circle M"
      by (simp add: mod_eq_dvd_iff mod_0_imp_dvd)
    then have "uint a = uint b"
      using on_circle_range [OF assms(1)] on_circle_range [OF assms(2)] by simp
    with assms(3) show False by (simp add: word_uint_eq_iff)
  qed
  then show ?thesis
    using zmod_zminus1_eq_if [of "uint a - uint b" "circle M"] by (simp add: ahead_by_def)
qed

lemma ahead_by_self: "ahead_by M a a = 0"
  by (simp add: ahead_by_def)

text \<open>
  At or ahead: less than half way round, or exactly half way round and the larger number.
\<close>

lemma ahead_or_at_mod_spec:
  assumes "0 < M" "on_circle M a" "on_circle M b"
  shows "ahead_or_at_mod M a b \<longleftrightarrow>
    2 * ahead_by M a b < circle M \<or> 2 * ahead_by M a b = circle M \<and> b < a"
proof -
  let ?d = "ahead_by M a b" and ?h = "uint M div 2"
  have c: "circle M = uint M" using assms(1) by (auto simp: circle_def)
  have f: "uint (forward_diff M b a) = ?d" "uint (forward_diff M a b) = ahead_by M b a"
    using assms by (simp_all add: forward_diff_ahead)
  have le: "forward_diff M b a \<le> M div 2 \<longleftrightarrow> ?d \<le> ?h"
    by (simp add: word_le_def f uint_word_half)
  show ?thesis
  proof (cases "even (uint M)")
    case True
    have "min_diff M a b = M div 2 \<longleftrightarrow> 2 * ?d = uint M"
    proof (cases "a = b")
      case True
      then have "uint (min_diff M a b) = 0" "?d = 0"
        using assms(1) by (simp_all add: min_diff_def reverse_diff_forward forward_diff_def ahead_by_self)
      moreover have "0 < uint M" using assms(1) by (simp add: word_less_def)
      ultimately show ?thesis
        using \<open>even (uint M)\<close> by (auto simp: word_uint_eq_iff uint_word_half elim!: evenE)
    next
      case False
      then have "ahead_by M b a = uint M - ?d" using ahead_by_sym assms(2,3) c by metis
      then have "uint (min_diff M a b) = min (uint M - ?d) ?d"
        using f by (simp add: min_diff_def reverse_diff_forward min_def word_le_def)
      then have "min_diff M a b = M div 2 \<longleftrightarrow> min (uint M - ?d) ?d = ?h"
        by (simp add: word_uint_eq_iff uint_word_half)
      then show ?thesis using \<open>even (uint M)\<close> by (auto simp: min_def)
    qed
    with True le c show ?thesis
      by (auto simp: ahead_or_at_mod_def Let_def even_word)
  next
    case False
    then have "uint M = 2 * ?h + 1" by (simp add: odd_two_times_div_two_succ)
    then have "?d \<le> ?h \<longleftrightarrow> 2 * ?d < uint M" "2 * ?d \<noteq> uint M" by presburger+
    with False le c show ?thesis by (simp add: ahead_or_at_mod_def Let_def even_word)
  qed
qed

lemma half_type:
  fixes x :: "'a::len word"
  assumes "uint x = uint (- 1 :: 'a word) div 2"
  shows "uint (x + 1) = 2 ^ (LENGTH('a) - 1)"
proof -
  have N: "(2 :: int) ^ LENGTH('a) = 2 * 2 ^ (LENGTH('a) - 1)"
    by (simp flip: power_Suc)
  have pos: "(0 :: int) < 2 ^ (LENGTH('a) - 1)" by simp
  have "uint x = (2 * 2 ^ (LENGTH('a) - 1) - 1) div 2"
    using assms by (simp only: unsigned_minus_1_eq_mask mask_eq_exp_minus_1 N)
  also have "\<dots> = 2 ^ (LENGTH('a) - 1) - 1" by presburger
  finally have x: "uint x = 2 ^ (LENGTH('a) - 1) - 1" .
  have "uint (x + 1) = (uint x + 1) mod 2 ^ LENGTH('a)"
    by (simp add: uint_word_ariths)
  also have "\<dots> = 2 ^ (LENGTH('a) - 1) mod 2 ^ LENGTH('a)"
    by (simp add: x)
  also have "\<dots> = 2 ^ (LENGTH('a) - 1)"
    by (rule mod_pos_pos_trivial) (use N pos in linarith)+
  finally show ?thesis .
qed

lemma uint_drop_half: "uint (drop_bit 1 x :: 'a::len word) = uint x div 2"
  by (simp only: drop_bit_eq_div power_one_right uint_word_half)

text \<open>The comparison with the middle of the type, with or without the promotion to \<open>int\<close>.\<close>

lemma full_circle_order:
  fixes a b h :: "'a::len word"
  assumes h: "uint h = 2 ^ (LENGTH('a) - 1)"
  shows "(if minus_eq a b h then b < a else a - b < h) \<longleftrightarrow>
     2 * ahead_by 0 a b < 2 ^ LENGTH('a) \<or> 2 * ahead_by 0 a b = 2 ^ LENGTH('a) \<and> b < a"
proof -
  let ?d = "ahead_by 0 a b"
  have N: "(2 :: int) ^ LENGTH('a) = 2 * uint h"
    unfolding h by (simp flip: power_Suc)
  have d: "uint (a - b) = ?d"
    by (simp add: ahead_by_def circle_def uint_word_ariths)
  have cases: "?d = (if b \<le> a then uint a - uint b else uint a - uint b + 2 * uint h)"
    unfolding d [symmetric] by (simp add: uint_minus N)
  have lt: "a - b < h \<longleftrightarrow> ?d < uint h" and wide: "a - b = h \<longleftrightarrow> ?d = uint h"
    by (simp_all add: word_less_def word_uint_eq_iff d)
  have le: "b \<le> a \<longleftrightarrow> uint b \<le> uint a" "b < a \<longleftrightarrow> uint b < uint a"
    by (simp_all add: word_le_def word_less_def)
  have pos: "0 < uint h" by (simp add: h)
  have narrow: "uint a - uint b = uint h \<Longrightarrow> ?d = uint h \<and> b < a"
    using cases le pos by auto
  have conv: "?d = uint h \<Longrightarrow> b < a \<Longrightarrow> uint a - uint b = uint h"
    using cases le by auto
  show ?thesis
    using narrow conv pos by (auto simp: minus_eq_def lt wide N)
qed

lemma ahead_or_at_full_spec:
  fixes a b :: "'a::len word"
  shows "ahead_or_at_full a b \<longleftrightarrow>
     2 * ahead_by 0 a b < circle (0 :: 'a word) \<or> 2 * ahead_by 0 a b = circle (0 :: 'a word) \<and> b < a"
proof -
  define h where "h = ((- 1) div 2 + 1 :: 'a word)"
  have "uint h = 2 ^ (LENGTH('a) - 1)"
    unfolding h_def by (rule half_type [OF uint_word_half])
  moreover have "forward_diff 0 b a = a - b" "circle (0 :: 'a word) = 2 ^ LENGTH('a)"
    by (simp_all add: forward_diff_def circle_def)
  ultimately show ?thesis
    unfolding ahead_or_at_full_def Let_def h_def [symmetric]
    by (simp only: full_circle_order)
qed

lemma IsNewer_ahead_of: "IsNewer a b = ahead_of 0 a (b :: 'a::len word)"
proof -
  define h where "h = (drop_bit 1 (- 1) + 1 :: 'a word)"
  have h: "uint h = 2 ^ (LENGTH('a) - 1)"
    unfolding h_def by (rule half_type [OF uint_drop_half])
  have "IsNewer a b \<longleftrightarrow> a \<noteq> b \<and> (if minus_eq a b h then b < a else a - b < h)"
    unfolding IsNewer_def Let_def h_def [symmetric] by auto
  moreover have "circle (0 :: 'a word) = 2 ^ LENGTH('a)"
    by (simp add: circle_def)
  ultimately show ?thesis
    by (simp only: full_circle_order [OF h] ahead_of_def ahead_or_at_def ahead_or_at_full_spec less_irrefl if_False)
qed

lemma other_way:
  fixes c d :: int
  shows "(2 * (c - d) < c \<or> 2 * (c - d) = c \<and> \<not> p) \<longleftrightarrow> \<not> (2 * d < c \<or> 2 * d = c \<and> p)"
  by auto

lemma ahead_or_at_spec:
  "on_circle M a \<Longrightarrow> on_circle M b \<Longrightarrow>
     ahead_or_at (M :: 'a::len word) a b \<longleftrightarrow> 2 * ahead_by M a b < circle M \<or> 2 * ahead_by M a b = circle M \<and> b < a"
  by (cases "M = 0") (simp_all add: ahead_or_at_def ahead_or_at_full_spec ahead_or_at_mod_spec word_neq_0_conv)

text \<open>
  A number is at or ahead of another exactly when it is less than half the circle further on,
  or exactly half and the larger of the two; so of two different numbers exactly one is ahead.
\<close>

theorem sequence_order:
  fixes M :: "'a::len word"
  assumes "M = 0 \<or> a < M \<and> b < M"
  shows "AheadOrAt d M a b = Inr (2 * ((uint a - uint b) mod circle M) < circle M \<or>
      2 * ((uint a - uint b) mod circle M) = circle M \<and> b < a) \<and>
    (a \<noteq> b \<longrightarrow> (\<exists>ahead. AheadOf d M a b = Inr ahead \<and> AheadOf d M b a = Inr (\<not> ahead))) \<and>
    AheadOf d M a a = Inr False"
proof -
  have on: "on_circle M a" "on_circle M b" using assms by (auto simp: on_circle_def)
  have "ahead_of M a b \<noteq> ahead_of M b a" if "a \<noteq> b"
  proof -
    have "a < b \<longleftrightarrow> \<not> b < a" using that by auto
    with that not_sym [OF that] show ?thesis
      by (simp only: ahead_of_def ahead_or_at_spec [OF on] ahead_or_at_spec [OF on(2,1)] ahead_by_sym [OF on that]
          other_way simp_thms)
  qed
  then show ?thesis
    using ahead_or_at_spec [OF on] on
    by (auto simp: order_values ahead_of_def ahead_by_def)
qed

theorem sequence_order_witness: "AheadOrAt True (0 :: 16 word) 2 65534 = Inr True"
  using sequence_order [of "0 :: 16 word" 2 65534 True] by (simp add: circle_def)

section \<open>Unwrapping\<close>

text \<open>
  What an unwrapper is for: \<open>xs\<close> is a walk on the integers whose steps are shorter than half the
  circle; \<open>xs\<close> wrapped is what arrives.
\<close>

definition short_steps :: "int \<Rightarrow> int list \<Rightarrow> bool" where
  "short_steps c xs \<longleftrightarrow> successively (\<lambda>x y. 2 * \<bar>y - x\<bar> < c) xs"

fun unwrap_all :: "bool \<Rightarrow> 'a::len word \<Rightarrow> 'a word list \<Rightarrow> 'a word seq_unwrapper \<Rightarrow> int list res" where
  "unwrap_all d M [] s = Inr []"
| "unwrap_all d M (v # vs) s =
     bindR (SeqNumUnwrapper_Unwrap d M v s) (\<lambda>(u, s). bindR (unwrap_all d M vs s) (\<lambda>us. Inr (u # us)))"

definition wrap :: "'a::len word \<Rightarrow> int \<Rightarrow> 'a word" where
  "wrap M x = of_int (x mod circle M)"

lemma uint_wrap: "uint (wrap M x :: 'a::len word) = x mod circle M"
proof -
  have "0 \<le> x mod circle M" "x mod circle M < circle M"
    using circle_pos [of M] by simp_all
  moreover have "circle M \<le> 2 ^ LENGTH('a)"
    using less_imp_le [OF uint_lt2p [of M]] by (simp add: circle_def)
  ultimately show ?thesis
    by (simp add: wrap_def uint_word_of_int)
qed

lemma on_circle_wrap: "on_circle M (wrap M x)"
proof (cases "M = 0")
  case False
  then have "circle M = uint M" by (simp add: circle_def)
  with circle_pos [of M] show ?thesis by (simp add: on_circle_def word_less_def uint_wrap)
qed (simp add: on_circle_def)

text \<open>The nearest number with the right remainder.\<close>

lemma step_recovered:
  fixes c d :: int
  assumes "0 < c" "2 * \<bar>d\<bar> < c"
  shows "d mod c = (if 0 \<le> d then d else d + c)"
proof (cases "0 \<le> d")
  case True
  with assms show ?thesis by (simp add: mod_pos_pos_trivial)
next
  case False
  have "d mod c = (d + c) mod c" by simp
  also have "\<dots> = d + c" by (rule mod_pos_pos_trivial) (use assms False in linarith)+
  finally show ?thesis using False by simp
qed

text \<open>\<open>int64_t\<close> holds the number, and the number a circle further on.\<close>

definition room64 :: "int \<Rightarrow> int \<Rightarrow> bool" where
  "room64 c x \<longleftrightarrow> - (2 ^ 63) \<le> x \<and> x + c < 2 ^ 63"

lemma SeqNumUnwrapper_step:
  assumes "2 * \<bar>y - x\<bar> < circle M" "last_seq s = Some (wrap M x)" "last_unwrapped s = x" "room64 (circle M) x" "room64 (circle M) y"
  shows "SeqNumUnwrapper_Unwrap d M (wrap M y) s = Inr (y, \<lparr>last_unwrapped = y, last_seq = Some (wrap M y)\<rparr>)"
proof -
  let ?up = "if 0 \<le> y - x then y - x else y - x + circle M"
  have ahead: "ahead_by M (wrap M y) (wrap M x) = ?up"
    using step_recovered [OF circle_pos assms(1)] by (simp add: ahead_by_def uint_wrap mod_diff_eq)
  have "uint (forward_diff M (wrap M x) (wrap M y)) = ahead_by M (wrap M y) (wrap M x)"
    by (simp add: forward_diff_ahead on_circle_wrap)
  moreover have "ahead_or_at M (wrap M y) (wrap M x) \<longleftrightarrow> 0 \<le> y - x"
    using assms(1) by (auto simp: ahead_or_at_spec on_circle_wrap ahead)
  moreover have "(if M = 0 then uint (- 1 :: 'a word) + 1 else uint M) = circle M"
    for M :: "'a::len word"
    by (simp add: circle_def unsigned_minus_1_eq_mask mask_eq_exp_minus_1)
  moreover have "i64 (x + ?up) = Inr (x + ?up)" "i64 y = Inr y"
    using assms(4,5) circle_pos [of M] by (auto simp: room64_def i64_def in_i64_def)
  ultimately show ?thesis
    using assms(2,3) ahead
    by (simp add: SeqNumUnwrapper_Unwrap_def diff_values order_values on_circle_wrap)
qed

lemma unwrap_all_from:
  "short_steps (circle M) (x # xs) \<Longrightarrow> list_all (room64 (circle M)) (x # xs) \<Longrightarrow>
     last_seq s = Some (wrap M x) \<Longrightarrow> last_unwrapped s = x \<Longrightarrow> unwrap_all d M (map (wrap M) xs) s = Inr xs"
proof (induction xs arbitrary: x s)
  case (Cons y ys)
  then have "2 * \<bar>y - x\<bar> < circle M" "short_steps (circle M) (y # ys)" "room64 (circle M) x" "room64 (circle M) y"
    by (simp_all add: short_steps_def)
  with Cons SeqNumUnwrapper_step [OF this(1) Cons.prems(3,4) this(3,4), of d] show ?case by simp
qed simp

text \<open>
  C20. Unwrapping recovers a sequence of numbers from their wrapped values, for every unsigned type
  the \<open>static_assert\<close> admits and every modulus, in either build: if the first number is on the circle (it is
  returned as it came), no step is half the circle or more, and no number comes within a circle of
  the upper end of \<open>int64_t\<close> or below its lower end, then \<open>SeqNumUnwrapper\<close> returns exactly the
  numbers, and no operation overflows.
\<close>

theorem unwrap_recovers:
  fixes M :: "'a::len word"
  assumes "LENGTH('a) < 63" "short_steps (circle M) (x # xs)" "0 \<le> x" "x < circle M"
    and "\<forall>y \<in> set xs. - (2 ^ 63) \<le> y \<and> y + circle M < 2 ^ 63"
  shows "unwrap_all d M (map (wrap M) (x # xs)) SeqNumUnwrapper_new = Inr (x # xs)"
proof -
  have "circle M \<le> 2 ^ LENGTH('a)" using less_imp_le [OF uint_lt2p [of M]] by (simp add: circle_def)
  also have "(2 :: int) ^ LENGTH('a) \<le> 2 ^ 62" using assms(1) by (intro power_increasing) auto
  finally have "room64 (circle M) x"
    using assms(3,4) by (simp add: room64_def)
  with assms(5) have "list_all (room64 (circle M)) (x # xs)"
    by (simp add: list_all_iff room64_def)
  from unwrap_all_from [OF assms(2) this] show ?thesis
    using assms(3,4) by (simp add: SeqNumUnwrapper_Unwrap_def SeqNumUnwrapper_new_def uint_wrap)
qed

theorem unwrap_recovers_witness:
  "unwrap_all True (0 :: 16 word) (map (wrap 0) [65530, 65540, 98000, 130000, 131000]) SeqNumUnwrapper_new
     = Inr [65530, 65540, 98000, 130000, 131000]"
  by (rule unwrap_recovers) (simp_all add: short_steps_def circle_def)

section \<open>The RTP unwrappers\<close>

lemma wrap_full: "circle (0 :: 'a::len word) = 2 ^ LENGTH('a)" "wrap (0 :: 'a word) x = of_int x"
proof -
  show "circle (0 :: 'a::len word) = 2 ^ LENGTH('a)" by (simp add: circle_def)
  then have "wrap (0 :: 'a word) x = of_int (uint (of_int x :: 'a word))"
    by (simp add: wrap_def uint_word_of_int)
  then show "wrap (0 :: 'a word) x = of_int x" by simp
qed

text \<open>The difference of two wrapped numbers, before it is corrected.\<close>

lemma delta_bounds:
  fixes c p q e m :: int
  assumes "p - q = e + m" "0 \<le> p" "p < c" "0 \<le> q" "q < c" "2 * e < c" "- c < 2 * e"
  shows "- (2 * c) < m" and "m < 2 * c"
  using assms by simp_all

lemma delta_cases:
  fixes p q e c :: int
  assumes "0 \<le> p" "p < c" "0 \<le> q" "q < c"
  shows "p - q = e + c \<Longrightarrow> e < 0" and "p - q = e - c \<Longrightarrow> 0 < e"
  using assms by simp_all

lemma raw_delta:
  fixes x y c :: int
  assumes "0 < c" "2 * \<bar>y - x\<bar> < c"
  shows "y mod c - x mod c = y - x \<or> y mod c - x mod c = (if 0 \<le> y - x then y - x - c else y - x + c)"
proof -
  have "(y mod c - x mod c) mod c = (y - x) mod c" by (simp add: mod_diff_eq)
  moreover have r: "0 \<le> y mod c" "y mod c < c" "0 \<le> x mod c" "x mod c < c"
    using assms(1) by simp_all
  ultimately obtain k where k: "y mod c - x mod c = y - x + c * k"
    by (metis mod_eqE)
  have d: "2 * (y - x) < c" "- c < 2 * (y - x)" using assms(2) by (simp_all add: abs_if split: if_splits)
  have "c * (- 2) < c * k" and "c * k < c * 2"
    using delta_bounds [OF k r d] by (simp_all add: mult.commute)
  then have "- 2 < k" and "k < 2"
    unfolding mult_less_cancel_left_pos [OF assms(1)] .
  then have "k = 0 \<or> k = 1 \<or> k = - 1" by linarith
  then show ?thesis
    using delta_cases [OF r, of "y - x"] k d by auto
qed

lemma UnwrapWithoutUpdate_step:
  assumes "2 * \<bar>y - x\<bar> < 2 ^ LENGTH('a::len)" "0 \<le> y" "LENGTH('a) \<le> 32" "x + 2 ^ LENGTH('a) < 2 ^ 63"
  shows "UnwrapWithoutUpdate (of_int y :: 'a word) (Some x) = Inr y"
proof -
  let ?c = "(2 :: int) ^ LENGTH('a)" and ?v = "of_int y :: 'a word" and ?p = "of_int x :: 'a word"
  let ?D = "uint ?v - uint ?p"
  have c: "0 < ?c" by simp
  have D: "?D = y - x \<or> ?D = (if 0 \<le> y - x then y - x - ?c else y - x + ?c)"
    using raw_delta [OF c assms(1)] by (simp add: uint_word_of_int)
  have ahead: "ahead_by 0 ?v ?p = (if 0 \<le> y - x then y - x else y - x + ?c)"
    using step_recovered [OF c assms(1)]
    by (simp add: ahead_by_def wrap_full uint_word_of_int mod_diff_eq)
  have full: "uint (?v - ?p) = ahead_by 0 ?v ?p"
    by (simp add: ahead_by_def wrap_full uint_word_ariths)
  have max: "uint (- 1 :: 'a word) + 1 = ?c"
    by (simp add: unsigned_minus_1_eq_mask mask_eq_exp_minus_1)
  have same: "?v = ?p \<longleftrightarrow> y = x"
  proof
    assume "?v = ?p"
    then have "?D = 0" by simp
    with D assms(1) show "y = x" by (auto split: if_splits)
  qed simp
  have newer: "IsNewer ?v ?p \<longleftrightarrow> x < y"
    using same assms(1) ahead
    by (auto simp: IsNewer_ahead_of ahead_of_def ahead_or_at_spec on_circle_def wrap_full)
  define delta where "delta = (if LENGTH('a) < 32 then ?D else uint (?v - ?p))"
  have delta: "delta = y - x \<or> delta = (if 0 \<le> y - x then y - x - ?c else y - x + ?c)"
    using D full ahead by (auto simp: delta_def)
  have zero: "delta = 0" if "y = x"
    using that by (simp add: delta_def)
  have "?c \<le> 2 ^ 32" using assms(3) by (intro power_increasing) auto
  then have low: "- (2 ^ 63) \<le> x - ?c" using assms(1,2) by (simp add: abs_if split: if_splits)
  have fits: "i64 z = Inr z" if "x - ?c \<le> z" "z \<le> x + ?c" for z
    using that assms(4) low by (simp add: i64_def in_i64_def)
  have small: "\<bar>delta\<bar> \<le> ?c" using delta assms(1) by (auto split: if_splits)
  have "UnwrapWithoutUpdate ?v (Some x) = bindR
      (if x < y then Inr (if delta < 0 then delta + ?c else delta)
       else if delta > 0 then bindR (i64 (x + delta)) (\<lambda>sum. bindR (i64 (sum - ?c)) (\<lambda>back.
              Inr (if back \<ge> 0 then delta - ?c else delta)))
       else Inr delta) (\<lambda>delta. i64 (x + delta))"
    unfolding UnwrapWithoutUpdate_def option.case Let_def max newer delta_def by (rule refl)
  also have "\<dots> = i64 (x +
      (if x < y then (if delta < 0 then delta + ?c else delta)
       else if delta > 0 \<and> x + delta - ?c \<ge> 0 then delta - ?c else delta))"
    using small by (auto simp: fits)
  also have "\<dots> = i64 y"
    using delta zero assms(1,2) by (cases "y = x") (auto split: if_splits)
  also have "\<dots> = Inr y" using assms(1) by (intro fits) (simp_all add: abs_if split: if_splits)
  finally show ?thesis .
qed

text \<open>
  The RTP sequence-number and timestamp unwrapper: from a number that has been unwrapped, a
  number less than half the circle away and not negative is recovered from its low bits, without
  and with updating the state, unless \<open>int64_t\<close> may be exceeded; the first number is taken as it is.
\<close>

theorem unwrapper_recovers:
  assumes "2 * \<bar>y - x\<bar> < 2 ^ LENGTH('a::len)" "0 \<le> y" "LENGTH('a) \<le> 32" "x + 2 ^ LENGTH('a) < 2 ^ 63"
  shows "UnwrapWithoutUpdate (of_int y :: 'a word) (Some x) = Inr y \<and>
    Unwrap (of_int y :: 'a word) (Some x) = Inr (y, Some y) \<and>
    Unwrap (v :: 'a word) None = Inr (uint v, Some (uint v))"
  using UnwrapWithoutUpdate_step [OF assms]
  by (simp add: Unwrap_def UpdateLast_def Let_def) (simp add: UnwrapWithoutUpdate_def)

theorem unwrapper_recovers_witness:
  "Unwrap (4464 :: 16 word) (Some 65000) = Inr (70000, Some 70000)"
proof -
  have low: "(of_int 70000 :: 16 word) = 4464" by simp
  show ?thesis
    using unwrapper_recovers [of 70000 65000 "0 :: 16 word"] unfolding low by simp
qed

text \<open>
  \<open>IsNewer\<close> is the same order as \<open>ahead_of\<close> on the whole type, and it is no strict weak order,
  as its comment warns: three sequence numbers can each be newer than the next, round in a circle.
\<close>

theorem newer_is_not_transitive:
  "(\<forall>a b. IsNewerSequenceNumber a b = ahead_of 0 a b) \<and> (\<forall>a b. IsNewerTimestamp a b = ahead_of 0 a b) \<and>
   IsNewerSequenceNumber 22000 0 \<and> IsNewerSequenceNumber 44000 22000 \<and> IsNewerSequenceNumber 0 44000"
  using ahead_or_at_spec [of "0 :: 16 word"]
  by (simp add: IsNewerSequenceNumber_def IsNewerTimestamp_def IsNewer_ahead_of ahead_of_def on_circle_def
      ahead_by_def circle_def)

end
