(* ===== verification/Units.thy ===== *)
theory Units
  imports Prelude "HOL-Library.Signed_Division"
begin

text \<open>
  The value types of rtc_base/units/unit_base.h and the units of api/units built on it.  A unit is
  an \<open>int64_t\<close> whose two ends stand for the infinities.  \<open>d\<close> says whether the build has
  \<open>RTC_DCHECK\<close>s, \<open>os\<close> is the unit's \<open>one_sided\<close>.  Signed arithmetic that leaves \<open>int64_t\<close> is the
  fault \<open>Overflow\<close>.  The template argument \<open>T\<close> of the conversions is \<open>int64_t\<close>, its default; the
  floating-point overloads are not modelled, except for the rounding through \<open>double\<close> that the
  division by an integer makes.
\<close>

section \<open>Checked integer arithmetic\<close>

definition i64_div :: "int \<Rightarrow> int \<Rightarrow> int res" where
  "i64_div a b = (if b = 0 then Inl Div_zero else i64 (a sdiv b))"

text \<open>\<open>rtc::dchecked_cast<int64_t>\<close>: without checks the value is cut to 64 bits.\<close>

definition dchecked_cast :: "bool \<Rightarrow> int \<Rightarrow> int res" where
  "dchecked_cast d v = bindR (dcheck d (in_i64 v) ()) (\<lambda>_. Inr (signed_take_bit 63 v))"

section \<open>UnitBase\<close>

text \<open>The parameter \<open>'u\<close> is the unit, so that two units are not confused.\<close>

datatype 'u quantity = Quantity (raw: int)

definition PlusInfinityVal :: int where
  "PlusInfinityVal = 2 ^ 63 - 1"

definition MinusInfinityVal :: int where
  "MinusInfinityVal = - (2 ^ 63)"

definition Zero :: "'u quantity" where
  "Zero = Quantity 0"

definition PlusInfinity :: "'u quantity" where
  "PlusInfinity = Quantity PlusInfinityVal"

definition MinusInfinity :: "'u quantity" where
  "MinusInfinity = Quantity MinusInfinityVal"

definition IsZero :: "'u quantity \<Rightarrow> bool" where
  "IsZero x \<longleftrightarrow> raw x = 0"

definition IsInfinite :: "'u quantity \<Rightarrow> bool" where
  "IsInfinite x \<longleftrightarrow> raw x = PlusInfinityVal \<or> raw x = MinusInfinityVal"

definition IsFinite :: "'u quantity \<Rightarrow> bool" where
  "IsFinite x \<longleftrightarrow> \<not> IsInfinite x"

definition IsPlusInfinity :: "'u quantity \<Rightarrow> bool" where
  "IsPlusInfinity x \<longleftrightarrow> raw x = PlusInfinityVal"

definition IsMinusInfinity :: "'u quantity \<Rightarrow> bool" where
  "IsMinusInfinity x \<longleftrightarrow> raw x = MinusInfinityVal"

definition unit_le :: "'u quantity \<Rightarrow> 'u quantity \<Rightarrow> bool" where
  "unit_le a b \<longleftrightarrow> raw a \<le> raw b"

definition unit_lt :: "'u quantity \<Rightarrow> 'u quantity \<Rightarrow> bool" where
  "unit_lt a b \<longleftrightarrow> raw a < raw b"

instantiation quantity :: (type) linorder
begin

definition less_eq_quantity :: "'a quantity \<Rightarrow> 'a quantity \<Rightarrow> bool" where
  "less_eq_quantity = unit_le"

definition less_quantity :: "'a quantity \<Rightarrow> 'a quantity \<Rightarrow> bool" where
  "less_quantity = unit_lt"

instance
  by standard (auto simp: less_eq_quantity_def less_quantity_def unit_le_def unit_lt_def quantity.expand)

end

definition FromValue :: "bool \<Rightarrow> bool \<Rightarrow> int \<Rightarrow> 'u quantity res" where
  "FromValue d os value =
     bindR (dcheck d (os \<longrightarrow> 0 \<le> value) ()) (\<lambda>_.
     bindR (dcheck d (value > MinusInfinityVal) ()) (\<lambda>_.
     bindR (dcheck d (value < PlusInfinityVal) ()) (\<lambda>_.
     bindR (dchecked_cast d value) (\<lambda>v. Inr (Quantity v)))))"

definition FromFraction :: "bool \<Rightarrow> bool \<Rightarrow> int \<Rightarrow> int \<Rightarrow> 'u quantity res" where
  "FromFraction d os denominator value =
     bindR (dcheck d (os \<longrightarrow> 0 \<le> value) ()) (\<lambda>_.
     bindR (i64_div MinusInfinityVal denominator) (\<lambda>low.
     bindR (dcheck d (value > low) ()) (\<lambda>_.
     bindR (i64_div PlusInfinityVal denominator) (\<lambda>high.
     bindR (dcheck d (value < high) ()) (\<lambda>_.
     bindR (i64 (value * denominator)) (\<lambda>v.
     bindR (dchecked_cast d v) (\<lambda>v. Inr (Quantity v))))))))"

definition ToValue :: "bool \<Rightarrow> 'u quantity \<Rightarrow> int res" where
  "ToValue d x = bindR (dcheck d (IsFinite x) ()) (\<lambda>_. dchecked_cast d (raw x))"

definition ToValueOr :: "'u quantity \<Rightarrow> int \<Rightarrow> int" where
  "ToValueOr x fallback_value = (if IsFinite x then raw x else fallback_value)"

definition DivRoundPositiveToNearest :: "int \<Rightarrow> int \<Rightarrow> int res" where
  "DivRoundPositiveToNearest n d =
     bindR (i64_div d 2) (\<lambda>h. bindR (i64 (n + h)) (\<lambda>s. i64_div s d))"

definition DivRoundToNearest :: "int \<Rightarrow> int \<Rightarrow> int res" where
  "DivRoundToNearest n d =
     bindR (if n \<ge> 0 then i64_div d 2 else bindR (i64 (- d)) (\<lambda>m. i64_div m 2)) (\<lambda>h.
     bindR (i64 (n + h)) (\<lambda>s. i64_div s d))"

definition ToFraction :: "bool \<Rightarrow> bool \<Rightarrow> int \<Rightarrow> 'u quantity \<Rightarrow> int res" where
  "ToFraction d os denominator x =
     bindR (dcheck d (IsFinite x) ()) (\<lambda>_.
       if os then bindR (DivRoundPositiveToNearest (raw x) denominator) (dchecked_cast d)
       else bindR (DivRoundToNearest (raw x) denominator) (dchecked_cast d))"

definition ToFractionOr :: "bool \<Rightarrow> int \<Rightarrow> 'u quantity \<Rightarrow> int \<Rightarrow> int res" where
  "ToFractionOr os denominator x fallback_value =
     (if IsFinite x
      then (if os then DivRoundPositiveToNearest (raw x) denominator
            else DivRoundToNearest (raw x) denominator)
      else Inr fallback_value)"

definition ToMultiple :: "bool \<Rightarrow> int \<Rightarrow> 'u quantity \<Rightarrow> int res" where
  "ToMultiple d Factor x =
     bindR (if d then
              bindR (ToValue d x) (\<lambda>v. bindR (i64_div MinusInfinityVal Factor) (\<lambda>low. dcheck d (v \<ge> low) ()))
            else Inr ()) (\<lambda>_.
     bindR (if d then
              bindR (ToValue d x) (\<lambda>v. bindR (i64_div PlusInfinityVal Factor) (\<lambda>high. dcheck d (v \<le> high) ()))
            else Inr ()) (\<lambda>_.
     bindR (ToValue d x) (\<lambda>v. bindR (i64 (v * Factor)) (dchecked_cast d))))"

section \<open>RelativeUnit\<close>

definition Clamped :: "'u quantity \<Rightarrow> 'u quantity \<Rightarrow> 'u quantity \<Rightarrow> 'u quantity" where
  "Clamped min_value max_value x =
     (let m = (if unit_lt max_value x then max_value else x)
      in if unit_lt min_value m then m else min_value)"

definition Clamp :: "'u quantity \<Rightarrow> 'u quantity \<Rightarrow> 'u quantity \<Rightarrow> 'u quantity" where
  "Clamp min_value max_value x = Clamped min_value max_value x"

definition plus_unit :: "bool \<Rightarrow> bool \<Rightarrow> 'u quantity \<Rightarrow> 'u quantity \<Rightarrow> 'u quantity res" where
  "plus_unit d os x other =
     (if IsPlusInfinity x \<or> IsPlusInfinity other then
        bindR (dcheck d (\<not> IsMinusInfinity x) ()) (\<lambda>_.
        bindR (dcheck d (\<not> IsMinusInfinity other) ()) (\<lambda>_. Inr PlusInfinity))
      else if IsMinusInfinity x \<or> IsMinusInfinity other then
        bindR (dcheck d (\<not> IsPlusInfinity x) ()) (\<lambda>_.
        bindR (dcheck d (\<not> IsPlusInfinity other) ()) (\<lambda>_. Inr MinusInfinity))
      else bindR (ToValue d x) (\<lambda>a. bindR (ToValue d other) (\<lambda>b. bindR (i64 (a + b)) (FromValue d os))))"

definition minus_unit :: "bool \<Rightarrow> bool \<Rightarrow> 'u quantity \<Rightarrow> 'u quantity \<Rightarrow> 'u quantity res" where
  "minus_unit d os x other =
     (if IsPlusInfinity x \<or> IsMinusInfinity other then
        bindR (dcheck d (\<not> IsMinusInfinity x) ()) (\<lambda>_.
        bindR (dcheck d (\<not> IsPlusInfinity other) ()) (\<lambda>_. Inr PlusInfinity))
      else if IsMinusInfinity x \<or> IsPlusInfinity other then
        bindR (dcheck d (\<not> IsPlusInfinity x) ()) (\<lambda>_.
        bindR (dcheck d (\<not> IsMinusInfinity other) ()) (\<lambda>_. Inr MinusInfinity))
      else bindR (ToValue d x) (\<lambda>a. bindR (ToValue d other) (\<lambda>b. bindR (i64 (a - b)) (FromValue d os))))"

definition plus_assign :: "bool \<Rightarrow> bool \<Rightarrow> 'u quantity \<Rightarrow> 'u quantity \<Rightarrow> 'u quantity res" where
  "plus_assign d os x other = plus_unit d os x other"

definition minus_assign :: "bool \<Rightarrow> bool \<Rightarrow> 'u quantity \<Rightarrow> 'u quantity \<Rightarrow> 'u quantity res" where
  "minus_assign d os x other = minus_unit d os x other"

definition times_unit :: "bool \<Rightarrow> bool \<Rightarrow> 'u quantity \<Rightarrow> int \<Rightarrow> 'u quantity res" where
  "times_unit d os x scalar =
     bindR (ToValue d x) (\<lambda>v. bindR (i64 (v * scalar)) (FromValue d os))"

definition scalar_times_unit :: "bool \<Rightarrow> bool \<Rightarrow> int \<Rightarrow> 'u quantity \<Rightarrow> 'u quantity res" where
  "scalar_times_unit d os scalar other = times_unit d os other scalar"

text \<open>
  The division by an integer is \<open>std::round\<close> of the integer quotient, which goes through
  \<open>double\<close>: above \<open>2\<^sup>53\<close> the quotient is rounded to a multiple of a power of two, ties to even.
\<close>

definition to_double :: "int \<Rightarrow> int" where
  "to_double x =
     (let n = \<bar>x\<bar>; k = 2 ^ (nat (int (length (takeWhile (\<lambda>i. 2 ^ i \<le> n) [0..<64])) - 53));
          q = n div k; r = n mod k;
          q' = (if 2 * r > k \<or> 2 * r = k \<and> odd q then q + 1 else q)
      in sgn x * (q' * k))"

definition divide_unit :: "bool \<Rightarrow> bool \<Rightarrow> 'u quantity \<Rightarrow> int \<Rightarrow> 'u quantity res" where
  "divide_unit d os x scalar =
     bindR (ToValue d x) (\<lambda>v. bindR (i64_div v scalar) (\<lambda>q.
     bindR (dcheck d (in_i64 (to_double q)) ()) (\<lambda>_.
       if in_i64 (to_double q) then FromValue d os (to_double q) else Inl Overflow)))"

definition RoundTo :: "bool \<Rightarrow> bool \<Rightarrow> 'u quantity \<Rightarrow> 'u quantity \<Rightarrow> 'u quantity res" where
  "RoundTo d os resolution x =
     bindR (dcheck d (IsFinite x) ()) (\<lambda>_.
     bindR (dcheck d (IsFinite resolution) ()) (\<lambda>_.
     bindR (dcheck d (raw resolution > 0) ()) (\<lambda>_.
     bindR (i64_div (raw resolution) 2) (\<lambda>h.
     bindR (i64 (raw x + h)) (\<lambda>s.
     bindR (i64_div s (raw resolution)) (\<lambda>q.
       times_unit d os (Quantity q) (raw resolution)))))))"

definition RoundUpTo :: "bool \<Rightarrow> bool \<Rightarrow> 'u quantity \<Rightarrow> 'u quantity \<Rightarrow> 'u quantity res" where
  "RoundUpTo d os resolution x =
     bindR (dcheck d (IsFinite x) ()) (\<lambda>_.
     bindR (dcheck d (IsFinite resolution) ()) (\<lambda>_.
     bindR (dcheck d (raw resolution > 0) ()) (\<lambda>_.
     bindR (i64 (raw x + raw resolution)) (\<lambda>s.
     bindR (i64 (s - 1)) (\<lambda>s.
     bindR (i64_div s (raw resolution)) (\<lambda>q.
       times_unit d os (Quantity q) (raw resolution)))))))"

definition RoundDownTo :: "bool \<Rightarrow> bool \<Rightarrow> 'u quantity \<Rightarrow> 'u quantity \<Rightarrow> 'u quantity res" where
  "RoundDownTo d os resolution x =
     bindR (dcheck d (IsFinite x) ()) (\<lambda>_.
     bindR (dcheck d (IsFinite resolution) ()) (\<lambda>_.
     bindR (dcheck d (raw resolution > 0) ()) (\<lambda>_.
     bindR (i64_div (raw x) (raw resolution)) (\<lambda>q.
       times_unit d os (Quantity q) (raw resolution)))))"

end
