(* ===== verification/Api_Units.thy ===== *)
theory Api_Units
  imports Units
begin

text \<open>
  The units of api/units: \<open>Timestamp\<close>, \<open>TimeDelta\<close> (microseconds), \<open>DataSize\<close> (bytes), \<open>DataRate\<close>
  (bits per second) and \<open>Frequency\<close> (millihertz), with the operations between them.  Each unit is
  \<open>quantity\<close> at a tag of its own.
\<close>

datatype timestamp_tag = Timestamp_tag
datatype time_delta_tag = TimeDelta_tag
datatype data_size_tag = DataSize_tag
datatype data_rate_tag = DataRate_tag
datatype frequency_tag = Frequency_tag

type_synonym Timestamp = "timestamp_tag quantity"
type_synonym TimeDelta = "time_delta_tag quantity"
type_synonym DataSize = "data_size_tag quantity"
type_synonym DataRate = "data_rate_tag quantity"
type_synonym Frequency = "frequency_tag quantity"

section \<open>Timestamp\<close>

definition Timestamp_one_sided :: bool where
  "Timestamp_one_sided = True"

definition Timestamp_Seconds :: "bool \<Rightarrow> int \<Rightarrow> Timestamp res" where
  "Timestamp_Seconds d value = FromFraction d Timestamp_one_sided 1000000 value"

definition Timestamp_Millis :: "bool \<Rightarrow> int \<Rightarrow> Timestamp res" where
  "Timestamp_Millis d value = FromFraction d Timestamp_one_sided 1000 value"

definition Timestamp_Micros :: "bool \<Rightarrow> int \<Rightarrow> Timestamp res" where
  "Timestamp_Micros d value = FromValue d Timestamp_one_sided value"

definition Timestamp_seconds :: "bool \<Rightarrow> Timestamp \<Rightarrow> int res" where
  "Timestamp_seconds d x = ToFraction d Timestamp_one_sided 1000000 x"

definition Timestamp_ms :: "bool \<Rightarrow> Timestamp \<Rightarrow> int res" where
  "Timestamp_ms d x = ToFraction d Timestamp_one_sided 1000 x"

definition Timestamp_us :: "bool \<Rightarrow> Timestamp \<Rightarrow> int res" where
  "Timestamp_us d x = ToValue d x"

definition Timestamp_seconds_or :: "Timestamp \<Rightarrow> int \<Rightarrow> int res" where
  "Timestamp_seconds_or x fallback_value = ToFractionOr Timestamp_one_sided 1000000 x fallback_value"

definition Timestamp_ms_or :: "Timestamp \<Rightarrow> int \<Rightarrow> int res" where
  "Timestamp_ms_or x fallback_value = ToFractionOr Timestamp_one_sided 1000 x fallback_value"

definition Timestamp_us_or :: "Timestamp \<Rightarrow> int \<Rightarrow> int" where
  "Timestamp_us_or x fallback_value = ToValueOr x fallback_value"

definition Timestamp_plus :: "bool \<Rightarrow> Timestamp \<Rightarrow> TimeDelta \<Rightarrow> Timestamp res" where
  "Timestamp_plus d x delta =
     (if IsPlusInfinity x \<or> IsPlusInfinity delta then
        bindR (dcheck d (\<not> IsMinusInfinity x) ()) (\<lambda>_.
        bindR (dcheck d (\<not> IsMinusInfinity delta) ()) (\<lambda>_. Inr PlusInfinity))
      else if IsMinusInfinity x \<or> IsMinusInfinity delta then
        bindR (dcheck d (\<not> IsPlusInfinity x) ()) (\<lambda>_.
        bindR (dcheck d (\<not> IsPlusInfinity delta) ()) (\<lambda>_. Inr MinusInfinity))
      else bindR (Timestamp_us d x) (\<lambda>a. bindR (ToValue d delta) (\<lambda>b.
           bindR (i64 (a + b)) (Timestamp_Micros d))))"

definition Timestamp_minus_delta :: "bool \<Rightarrow> Timestamp \<Rightarrow> TimeDelta \<Rightarrow> Timestamp res" where
  "Timestamp_minus_delta d x delta =
     (if IsPlusInfinity x \<or> IsMinusInfinity delta then
        bindR (dcheck d (\<not> IsMinusInfinity x) ()) (\<lambda>_.
        bindR (dcheck d (\<not> IsPlusInfinity delta) ()) (\<lambda>_. Inr PlusInfinity))
      else if IsMinusInfinity x \<or> IsPlusInfinity delta then
        bindR (dcheck d (\<not> IsPlusInfinity x) ()) (\<lambda>_.
        bindR (dcheck d (\<not> IsMinusInfinity delta) ()) (\<lambda>_. Inr MinusInfinity))
      else bindR (Timestamp_us d x) (\<lambda>a. bindR (ToValue d delta) (\<lambda>b.
           bindR (i64 (a - b)) (Timestamp_Micros d))))"

section \<open>TimeDelta\<close>

definition TimeDelta_one_sided :: bool where
  "TimeDelta_one_sided = False"

definition TimeDelta_Seconds :: "bool \<Rightarrow> int \<Rightarrow> TimeDelta res" where
  "TimeDelta_Seconds d value = FromFraction d TimeDelta_one_sided 1000000 value"

definition TimeDelta_Millis :: "bool \<Rightarrow> int \<Rightarrow> TimeDelta res" where
  "TimeDelta_Millis d value = FromFraction d TimeDelta_one_sided 1000 value"

definition TimeDelta_Micros :: "bool \<Rightarrow> int \<Rightarrow> TimeDelta res" where
  "TimeDelta_Micros d value = FromValue d TimeDelta_one_sided value"

definition TimeDelta_seconds :: "bool \<Rightarrow> TimeDelta \<Rightarrow> int res" where
  "TimeDelta_seconds d x = ToFraction d TimeDelta_one_sided 1000000 x"

definition TimeDelta_ms :: "bool \<Rightarrow> TimeDelta \<Rightarrow> int res" where
  "TimeDelta_ms d x = ToFraction d TimeDelta_one_sided 1000 x"

definition TimeDelta_us :: "bool \<Rightarrow> TimeDelta \<Rightarrow> int res" where
  "TimeDelta_us d x = ToValue d x"

definition TimeDelta_ns :: "bool \<Rightarrow> TimeDelta \<Rightarrow> int res" where
  "TimeDelta_ns d x = ToMultiple d 1000 x"

definition TimeDelta_seconds_or :: "TimeDelta \<Rightarrow> int \<Rightarrow> int res" where
  "TimeDelta_seconds_or x fallback_value = ToFractionOr TimeDelta_one_sided 1000000 x fallback_value"

definition TimeDelta_ms_or :: "TimeDelta \<Rightarrow> int \<Rightarrow> int res" where
  "TimeDelta_ms_or x fallback_value = ToFractionOr TimeDelta_one_sided 1000 x fallback_value"

definition TimeDelta_us_or :: "TimeDelta \<Rightarrow> int \<Rightarrow> int" where
  "TimeDelta_us_or x fallback_value = ToValueOr x fallback_value"

definition TimeDelta_Abs :: "bool \<Rightarrow> TimeDelta \<Rightarrow> TimeDelta res" where
  "TimeDelta_Abs d x =
     bindR (TimeDelta_us d x) (\<lambda>us.
       if us < 0 then bindR (TimeDelta_us d x) (\<lambda>us. bindR (i64 (- us)) (TimeDelta_Micros d))
       else Inr x)"

definition Timestamp_minus :: "bool \<Rightarrow> Timestamp \<Rightarrow> Timestamp \<Rightarrow> TimeDelta res" where
  "Timestamp_minus d x other =
     (if IsPlusInfinity x \<or> IsMinusInfinity other then
        bindR (dcheck d (\<not> IsMinusInfinity x) ()) (\<lambda>_.
        bindR (dcheck d (\<not> IsPlusInfinity other) ()) (\<lambda>_. Inr PlusInfinity))
      else if IsMinusInfinity x \<or> IsPlusInfinity other then
        bindR (dcheck d (\<not> IsPlusInfinity x) ()) (\<lambda>_.
        bindR (dcheck d (\<not> IsMinusInfinity other) ()) (\<lambda>_. Inr MinusInfinity))
      else bindR (Timestamp_us d x) (\<lambda>a. bindR (Timestamp_us d other) (\<lambda>b.
           bindR (i64 (a - b)) (TimeDelta_Micros d))))"

definition Timestamp_minus_assign :: "bool \<Rightarrow> Timestamp \<Rightarrow> TimeDelta \<Rightarrow> Timestamp res" where
  "Timestamp_minus_assign d x delta = Timestamp_minus_delta d x delta"

definition Timestamp_plus_assign :: "bool \<Rightarrow> Timestamp \<Rightarrow> TimeDelta \<Rightarrow> Timestamp res" where
  "Timestamp_plus_assign d x delta = Timestamp_plus d x delta"

section \<open>DataSize\<close>

definition DataSize_one_sided :: bool where
  "DataSize_one_sided = True"

definition DataSize_Bytes :: "bool \<Rightarrow> int \<Rightarrow> DataSize res" where
  "DataSize_Bytes d value = FromValue d DataSize_one_sided value"

definition DataSize_Infinity :: DataSize where
  "DataSize_Infinity = PlusInfinity"

definition DataSize_bytes :: "bool \<Rightarrow> DataSize \<Rightarrow> int res" where
  "DataSize_bytes d x = ToValue d x"

definition DataSize_bytes_or :: "DataSize \<Rightarrow> int \<Rightarrow> int" where
  "DataSize_bytes_or x fallback_value = ToValueOr x fallback_value"

section \<open>Frequency\<close>

definition Frequency_one_sided :: bool where
  "Frequency_one_sided = True"

definition Frequency_MilliHertz :: "bool \<Rightarrow> int \<Rightarrow> Frequency res" where
  "Frequency_MilliHertz d value = FromValue d Frequency_one_sided value"

definition Frequency_Hertz :: "bool \<Rightarrow> int \<Rightarrow> Frequency res" where
  "Frequency_Hertz d value = FromFraction d Frequency_one_sided 1000 value"

definition Frequency_KiloHertz :: "bool \<Rightarrow> int \<Rightarrow> Frequency res" where
  "Frequency_KiloHertz d value = FromFraction d Frequency_one_sided 1000000 value"

definition Frequency_hertz :: "bool \<Rightarrow> Frequency \<Rightarrow> int res" where
  "Frequency_hertz d x = ToFraction d Frequency_one_sided 1000 x"

definition Frequency_millihertz :: "bool \<Rightarrow> Frequency \<Rightarrow> int res" where
  "Frequency_millihertz d x = ToValue d x"

definition check :: "bool \<Rightarrow> unit res" where
  "check c = (if c then Inr () else Inl Check_failed)"

definition Frequency_of_interval :: "bool \<Rightarrow> int \<Rightarrow> TimeDelta \<Rightarrow> Frequency res" where
  "Frequency_of_interval d nominator interval =
     (let kKiloPerMicro = 1000 * 1000000 in
      bindR (dcheck d (nominator \<le> PlusInfinityVal sdiv kKiloPerMicro) ()) (\<lambda>_.
      bindR (check (IsFinite interval)) (\<lambda>_.
      bindR (check (\<not> IsZero interval)) (\<lambda>_.
      bindR (i64 (nominator * kKiloPerMicro)) (\<lambda>n.
      bindR (TimeDelta_us d interval) (\<lambda>us.
      bindR (i64_div n us) (Frequency_MilliHertz d)))))))"

definition TimeDelta_of_frequency :: "bool \<Rightarrow> int \<Rightarrow> Frequency \<Rightarrow> TimeDelta res" where
  "TimeDelta_of_frequency d nominator frequency =
     (let kMegaPerMilli = 1000000 * 1000 in
      bindR (dcheck d (nominator \<le> PlusInfinityVal sdiv kMegaPerMilli) ()) (\<lambda>_.
      bindR (check (IsFinite frequency)) (\<lambda>_.
      bindR (check (\<not> IsZero frequency)) (\<lambda>_.
      bindR (i64 (nominator * kMegaPerMilli)) (\<lambda>n.
      bindR (Frequency_millihertz d frequency) (\<lambda>mhz.
      bindR (i64_div n mhz) (TimeDelta_Micros d)))))))"

section \<open>DataRate\<close>

definition DataRate_one_sided :: bool where
  "DataRate_one_sided = True"

definition DataRate_BitsPerSec :: "bool \<Rightarrow> int \<Rightarrow> DataRate res" where
  "DataRate_BitsPerSec d value = FromValue d DataRate_one_sided value"

definition DataRate_BytesPerSec :: "bool \<Rightarrow> int \<Rightarrow> DataRate res" where
  "DataRate_BytesPerSec d value = FromFraction d DataRate_one_sided 8 value"

definition DataRate_KilobitsPerSec :: "bool \<Rightarrow> int \<Rightarrow> DataRate res" where
  "DataRate_KilobitsPerSec d value = FromFraction d DataRate_one_sided 1000 value"

definition DataRate_Infinity :: DataRate where
  "DataRate_Infinity = PlusInfinity"

definition DataRate_bps :: "bool \<Rightarrow> DataRate \<Rightarrow> int res" where
  "DataRate_bps d x = ToValue d x"

definition DataRate_bytes_per_sec :: "bool \<Rightarrow> DataRate \<Rightarrow> int res" where
  "DataRate_bytes_per_sec d x = ToFraction d DataRate_one_sided 8 x"

definition DataRate_kbps :: "bool \<Rightarrow> DataRate \<Rightarrow> int res" where
  "DataRate_kbps d x = ToFraction d DataRate_one_sided 1000 x"

definition DataRate_bps_or :: "DataRate \<Rightarrow> int \<Rightarrow> int" where
  "DataRate_bps_or x fallback_value = ToValueOr x fallback_value"

definition DataRate_kbps_or :: "DataRate \<Rightarrow> int \<Rightarrow> int res" where
  "DataRate_kbps_or x fallback_value = ToFractionOr DataRate_one_sided 1000 x fallback_value"

text \<open>The checks of the two conversions evaluate \<open>size.bytes()\<close>, which has a check of its own.\<close>

definition Microbits :: "bool \<Rightarrow> DataSize \<Rightarrow> int res" where
  "Microbits d sz =
     bindR (if d then bindR (DataSize_bytes d sz) (\<lambda>b. dcheck d (b \<le> PlusInfinityVal sdiv 8000000) ())
            else Inr ()) (\<lambda>_.
     bindR (DataSize_bytes d sz) (\<lambda>b. i64 (b * 8000000)))"

definition MillibytePerSec :: "bool \<Rightarrow> DataRate \<Rightarrow> int res" where
  "MillibytePerSec d rate =
     bindR (if d then bindR (DataRate_bps d rate) (\<lambda>b. dcheck d (b \<le> PlusInfinityVal sdiv (1000 div 8)) ())
            else Inr ()) (\<lambda>_.
     bindR (DataRate_bps d rate) (\<lambda>b. i64 (b * (1000 div 8))))"

definition size_over_duration :: "bool \<Rightarrow> DataSize \<Rightarrow> TimeDelta \<Rightarrow> DataRate res" where
  "size_over_duration d sz duration =
     bindR (Microbits d sz) (\<lambda>m. bindR (TimeDelta_us d duration) (\<lambda>us.
     bindR (i64_div m us) (DataRate_BitsPerSec d)))"

definition size_over_rate :: "bool \<Rightarrow> DataSize \<Rightarrow> DataRate \<Rightarrow> TimeDelta res" where
  "size_over_rate d sz rate =
     bindR (Microbits d sz) (\<lambda>m. bindR (DataRate_bps d rate) (\<lambda>bps.
     bindR (i64_div m bps) (TimeDelta_Micros d)))"

definition rate_times_duration :: "bool \<Rightarrow> DataRate \<Rightarrow> TimeDelta \<Rightarrow> DataSize res" where
  "rate_times_duration d rate duration =
     bindR (DataRate_bps d rate) (\<lambda>bps. bindR (TimeDelta_us d duration) (\<lambda>us.
     bindR (i64 (bps * us)) (\<lambda>microbits.
     bindR (i64 (microbits + 4000000)) (\<lambda>s.
     bindR (i64_div s 8000000) (DataSize_Bytes d)))))"

definition duration_times_rate :: "bool \<Rightarrow> TimeDelta \<Rightarrow> DataRate \<Rightarrow> DataSize res" where
  "duration_times_rate d duration rate = rate_times_duration d rate duration"

definition rate_over_frequency :: "bool \<Rightarrow> DataRate \<Rightarrow> Frequency \<Rightarrow> DataSize res" where
  "rate_over_frequency d rate frequency =
     bindR (Frequency_millihertz d frequency) (\<lambda>millihertz.
     bindR (MillibytePerSec d rate) (\<lambda>m.
     bindR (i64_div m millihertz) (DataSize_Bytes d)))"

definition rate_over_size :: "bool \<Rightarrow> DataRate \<Rightarrow> DataSize \<Rightarrow> Frequency res" where
  "rate_over_size d rate sz =
     bindR (MillibytePerSec d rate) (\<lambda>m. bindR (DataSize_bytes d sz) (\<lambda>b.
     bindR (i64_div m b) (Frequency_MilliHertz d)))"

definition size_times_frequency :: "bool \<Rightarrow> DataSize \<Rightarrow> Frequency \<Rightarrow> DataRate res" where
  "size_times_frequency d sz frequency =
     bindR (if d \<and> \<not> IsZero frequency then
              bindR (DataSize_bytes d sz) (\<lambda>b. bindR (Frequency_millihertz d frequency) (\<lambda>f.
              bindR (i64_div (PlusInfinityVal sdiv 8) f) (\<lambda>limit. dcheck d (b \<le> limit) ())))
            else Inr ()) (\<lambda>_.
     bindR (DataSize_bytes d sz) (\<lambda>b. bindR (i64 (b * 8)) (\<lambda>bits.
     bindR (Frequency_millihertz d frequency) (\<lambda>f. bindR (i64 (bits * f)) (\<lambda>millibits_per_second.
     bindR (i64 (millibits_per_second + 500)) (\<lambda>s.
     bindR (i64_div s 1000) (DataRate_BitsPerSec d)))))))"

definition frequency_times_size :: "bool \<Rightarrow> Frequency \<Rightarrow> DataSize \<Rightarrow> DataRate res" where
  "frequency_times_size d frequency sz = size_times_frequency d sz frequency"

end
