(* ===== verification/Units_Props.thy ===== *)
theory Units_Props
  imports Api_Units
begin

text \<open>
  The units as numbers with two infinities: addition and subtraction, rounding, conversions, and
  where the code leaves \<open>int64_t\<close> or rounds the wrong way.
\<close>

section \<open>Arithmetic helpers\<close>

lemma sdiv_nonneg: "0 \<le> a \<Longrightarrow> 0 < b \<Longrightarrow> a sdiv b = a div (b :: int)"
  by (cases "a = 0") (simp_all add: signed_divide_int_def)

lemma sdiv_neg: "0 < b \<Longrightarrow> (- a) sdiv b = - (a sdiv (b :: int))"
  by (simp add: signed_divide_int_def sgn_minus)

lemma i64_in: "in_i64 x \<Longrightarrow> i64 x = Inr x"
  by (simp add: i64_def)

lemma i64_eq: "i64 x = Inr y \<longleftrightarrow> in_i64 x \<and> y = x"
  by (auto simp: i64_def)

lemma i64_div_in: "b \<noteq> 0 \<Longrightarrow> in_i64 (a sdiv b) \<Longrightarrow> i64_div a b = Inr (a sdiv b)"
  by (simp add: i64_div_def i64_in)

lemma dchecked_cast_in: "in_i64 v \<Longrightarrow> dchecked_cast d v = Inr v"
  by (simp add: dchecked_cast_def in_i64_def signed_take_bit_int_eq_self)

definition valid :: "'u quantity \<Rightarrow> bool" where
  "valid x \<longleftrightarrow> in_i64 (raw x)"

text \<open>What a finite value is, as a range.\<close>

definition inside :: "int \<Rightarrow> bool" where
  "inside v \<longleftrightarrow> MinusInfinityVal < v \<and> v < PlusInfinityVal"

lemma inside_in: "inside v \<Longrightarrow> in_i64 v"
  by (simp add: inside_def in_i64_def MinusInfinityVal_def PlusInfinityVal_def)

lemma finite_iff: "valid x \<Longrightarrow> IsFinite x \<longleftrightarrow> inside (raw x)"
  by (auto simp: valid_def in_i64_def inside_def IsFinite_def IsInfinite_def MinusInfinityVal_def PlusInfinityVal_def)

lemma ToValue_finite: "valid x \<Longrightarrow> IsFinite x \<Longrightarrow> ToValue d x = Inr (raw x)"
  by (simp add: ToValue_def valid_def dchecked_cast_in)

lemma FromValue_in: "inside v \<Longrightarrow> (os \<Longrightarrow> 0 \<le> v) \<Longrightarrow> FromValue d os v = Inr (Quantity v)"
  by (simp add: FromValue_def inside_in dchecked_cast_in) (simp add: inside_def)

lemma FromValue_checked:
  "FromValue True os v = (if inside v \<and> (os \<longrightarrow> 0 \<le> v) then Inr (Quantity v) else Inl Check_failed)"
proof (cases "inside v \<and> (os \<longrightarrow> 0 \<le> v)")
  case False
  then show ?thesis by (auto simp: FromValue_def dcheck_def inside_def)
qed (simp add: FromValue_in)

section \<open>Numbers with infinities\<close>

datatype ext = NegInf | Fin int | PosInf

definition meaning :: "'u quantity \<Rightarrow> ext" where
  "meaning x = (if IsPlusInfinity x then PosInf else if IsMinusInfinity x then NegInf else Fin (raw x))"

fun ext_plus :: "ext \<Rightarrow> ext \<Rightarrow> ext option" where
  "ext_plus (Fin a) (Fin b) = Some (Fin (a + b))"
| "ext_plus PosInf NegInf = None"
| "ext_plus NegInf PosInf = None"
| "ext_plus PosInf y = Some PosInf"
| "ext_plus x PosInf = Some PosInf"
| "ext_plus NegInf y = Some NegInf"
| "ext_plus x NegInf = Some NegInf"

fun ext_minus :: "ext \<Rightarrow> ext" where
  "ext_minus (Fin a) = Fin (- a)"
| "ext_minus PosInf = NegInf"
| "ext_minus NegInf = PosInf"

definition representable :: "bool \<Rightarrow> ext \<Rightarrow> bool" where
  "representable os e = (case e of Fin v \<Rightarrow> inside v \<and> (os \<longrightarrow> 0 \<le> v) | _ \<Rightarrow> True)"

definition unit_of :: "ext \<Rightarrow> 'u quantity" where
  "unit_of e = (case e of NegInf \<Rightarrow> MinusInfinity | Fin v \<Rightarrow> Quantity v | PosInf \<Rightarrow> PlusInfinity)"

lemma infinities_differ: "PlusInfinityVal \<noteq> MinusInfinityVal" "MinusInfinityVal \<noteq> PlusInfinityVal"
  by (simp_all add: MinusInfinityVal_def PlusInfinityVal_def)

lemma valid_cases:
  assumes "valid x"
  obtains "x = PlusInfinity" "meaning x = PosInf" | "x = MinusInfinity" "meaning x = NegInf"
    | v where "x = Quantity v" "inside v" "meaning x = Fin v"
proof (cases x)
  case (Quantity v)
  consider "v = PlusInfinityVal" | "v = MinusInfinityVal" | "inside v"
    using assms Quantity by (fastforce simp: valid_def in_i64_def inside_def MinusInfinityVal_def PlusInfinityVal_def)
  then show ?thesis
    by cases (auto intro: that simp: Quantity meaning_def IsPlusInfinity_def IsMinusInfinity_def
        PlusInfinity_def MinusInfinity_def infinities_differ inside_def)
qed

lemma meaning_simps [simp]:
  "meaning PlusInfinity = PosInf" "meaning MinusInfinity = NegInf" "inside v \<Longrightarrow> meaning (Quantity v) = Fin v"
  by (auto simp: meaning_def IsPlusInfinity_def IsMinusInfinity_def PlusInfinity_def MinusInfinity_def
      infinities_differ inside_def)

lemma valid_simps [simp]: "valid PlusInfinity" "valid MinusInfinity" "inside v \<Longrightarrow> valid (Quantity v)"
  by (simp_all add: valid_def PlusInfinity_def MinusInfinity_def inside_in)
    (simp_all add: in_i64_def MinusInfinityVal_def PlusInfinityVal_def)

lemma infinity_simps [simp]:
  "IsPlusInfinity PlusInfinity" "\<not> IsPlusInfinity MinusInfinity" "IsMinusInfinity MinusInfinity"
  "\<not> IsMinusInfinity PlusInfinity" "inside v \<Longrightarrow> \<not> IsPlusInfinity (Quantity v)"
  "inside v \<Longrightarrow> \<not> IsMinusInfinity (Quantity v)" "inside v \<Longrightarrow> IsFinite (Quantity v)"
  by (auto simp: IsPlusInfinity_def IsMinusInfinity_def PlusInfinity_def MinusInfinity_def
      infinities_differ inside_def IsFinite_def IsInfinite_def)

lemma unit_of_simps [simp]:
  "unit_of PosInf = PlusInfinity" "unit_of NegInf = MinusInfinity" "unit_of (Fin v) = Quantity v"
  by (simp_all add: unit_of_def)

definition checked :: "bool \<Rightarrow> ext option \<Rightarrow> 'u quantity res" where
  "checked os e = (case e of
     None \<Rightarrow> Inl Check_failed
   | Some e \<Rightarrow> if representable os e then Inr (unit_of e) else Inl Check_failed)"

lemma i64_then_FromValue:
  "bindR (i64 v) (FromValue True os) = Inr z \<longleftrightarrow> checked os (Some (Fin v)) = Inr z"
  by (auto simp: i64_def FromValue_checked checked_def representable_def dest: inside_in)

lemma plus_unit_checked:
  assumes "valid x" "valid y"
  shows "plus_unit True os x y = Inr z \<longleftrightarrow> checked os (ext_plus (meaning x) (meaning y)) = Inr z"
  using assms(1)
  by (cases rule: valid_cases; cases rule: valid_cases [OF assms(2)])
    (simp_all add: plus_unit_def ToValue_finite i64_then_FromValue, auto simp: checked_def representable_def dcheck_def)

lemma minus_unit_checked:
  assumes "valid x" "valid y"
  shows "minus_unit True os x y = Inr z \<longleftrightarrow>
     checked os (ext_plus (meaning x) (ext_minus (meaning y))) = Inr z"
  using assms(1)
  by (cases rule: valid_cases; cases rule: valid_cases [OF assms(2)])
    (simp_all add: minus_unit_def ToValue_finite i64_then_FromValue, auto simp: checked_def representable_def dcheck_def)

text \<open>
  C21. Addition and subtraction of a unit, in a build with checks, are addition and subtraction of
  numbers with infinities: the operation returns exactly when the sum is defined and
  representable (not negative for a one-sided unit), and then returns that sum.
\<close>

theorem unit_arithmetic:
  fixes x y z :: "'u quantity"
  assumes "valid x" "valid y"
  shows "(plus_unit True os x y = Inr z \<longleftrightarrow>
      (\<exists>e. ext_plus (meaning x) (meaning y) = Some e \<and> representable os e \<and> z = unit_of e)) \<and>
    (minus_unit True os x y = Inr z \<longleftrightarrow>
      (\<exists>e. ext_plus (meaning x) (ext_minus (meaning y)) = Some e \<and> representable os e \<and> z = unit_of e))"
  unfolding plus_unit_checked [OF assms] minus_unit_checked [OF assms]
  by (auto simp: checked_def split: option.splits if_splits)

theorem unit_arithmetic_witness:
  "plus_unit True True (Quantity 7 :: DataSize) (Quantity 5) = Inr (Quantity 12) \<and>
   minus_unit True True (Quantity 5 :: DataSize) (Quantity 7) \<noteq> Inr (Quantity (- 2))"
  using unit_arithmetic [of "Quantity 7 :: DataSize" "Quantity 5" True "Quantity 12"]
    unit_arithmetic [of "Quantity 5 :: DataSize" "Quantity 7" True "Quantity (- 2)"]
  by (simp add: inside_def MinusInfinityVal_def PlusInfinityVal_def representable_def)

section \<open>Rounding\<close>

lemma times_finite:
  "inside (q * r) \<Longrightarrow> (os \<Longrightarrow> 0 \<le> q * r) \<Longrightarrow> inside q \<Longrightarrow>
     times_unit d os (Quantity q) r = Inr (Quantity (q * r))"
  by (simp add: times_unit_def ToValue_finite i64_in inside_in FromValue_in)

lemma between_inside: "inside a \<Longrightarrow> inside b \<Longrightarrow> a \<le> q \<Longrightarrow> q \<le> b \<Longrightarrow> inside q"
  by (simp add: inside_def)

lemma inside_0: "inside 0"
  by (simp add: inside_def MinusInfinityVal_def PlusInfinityVal_def)

lemma multiple_bounds:
  fixes x r :: int
  assumes "0 < r" "0 \<le> x"
  shows "0 \<le> x div r" "x div r * r \<le> x" "x < x div r * r + r" "x div r \<le> x div r * r"
proof -
  show "0 \<le> x div r" using assms by (simp add: pos_imp_zdiv_nonneg_iff)
  then show "x div r \<le> x div r * r" using assms(1) by (simp add: mult_le_cancel_left1)
  have "x div r * r + x mod r = x" "0 \<le> x mod r" "x mod r < r" using assms(1) by simp_all
  then show "x div r * r \<le> x" "x < x div r * r + r" by linarith+
qed

text \<open>All three roundings add an offset to the value, divide and multiply.\<close>

lemma rounding_step:
  fixes x r k :: int
  assumes "0 < r" "0 \<le> x" "0 \<le> k" "inside (x + k)"
  shows "bindR (i64_div (x + k) r) (\<lambda>q. times_unit d os (Quantity q :: 'u quantity) r) = Inr (Quantity ((x + k) div r * r))"
proof -
  let ?q = "(x + k) div r"
  have b: "0 \<le> ?q" "?q * r \<le> x + k" "?q \<le> ?q * r"
    using multiple_bounds [of r "x + k"] assms by simp_all
  then have "0 \<le> ?q * r" by linarith
  then have "inside (?q * r)" using between_inside [OF inside_0 assms(4)] b by simp
  moreover have "inside ?q" using between_inside [OF inside_0 assms(4)] b by simp
  ultimately show ?thesis
    using \<open>0 \<le> ?q * r\<close> assms(1-3)
    by (simp add: i64_div_in sdiv_nonneg inside_in times_finite)
qed

lemma rounding_shapes:
  assumes "inside x" "inside r" "0 < r"
  shows "RoundTo d os (Quantity r) (Quantity x :: 'u quantity) =
      bindR (i64 (x + r div 2)) (\<lambda>s. bindR (i64_div s r) (\<lambda>q. times_unit d os (Quantity q) r))"
    and "RoundUpTo d os (Quantity r) (Quantity x :: 'u quantity) =
      bindR (i64 (x + r)) (\<lambda>s. bindR (i64 (s - 1)) (\<lambda>s. bindR (i64_div s r) (\<lambda>q. times_unit d os (Quantity q) r)))"
    and "RoundDownTo d os (Quantity r) (Quantity x :: 'u quantity) =
      bindR (i64_div (x + 0) r) (\<lambda>q. times_unit d os (Quantity q) r)"
proof -
  have "0 \<le> r div 2" "r div 2 \<le> r" using assms(3) by simp_all
  then have "in_i64 (r div 2)" using between_inside [OF inside_0 assms(2)] inside_in by simp
  then have "i64_div r 2 = Inr (r div 2)"
    using assms(3) by (simp add: i64_div_in sdiv_nonneg)
  then show "RoundTo d os (Quantity r) (Quantity x :: 'u quantity) =
      bindR (i64 (x + r div 2)) (\<lambda>s. bindR (i64_div s r) (\<lambda>q. times_unit d os (Quantity q) r))"
    using assms by (simp add: RoundTo_def)
qed (use assms in \<open>simp_all add: RoundUpTo_def RoundDownTo_def\<close>)

lemma nearest_bounds:
  fixes p x r :: int
  assumes "p \<le> x + r div 2" "x + r div 2 < p + r"
  shows "2 * (p - x) \<le> r \<and> 2 * (x - p) < r"
  using assms by presburger

text \<open>
  For values that are not negative, \<open>RoundDownTo\<close>, \<open>RoundUpTo\<close> and \<open>RoundTo\<close> return the
  largest multiple of the resolution below, the smallest above and the nearest one, ties upwards,
  as long as value plus resolution is finite.
\<close>

theorem rounding:
  fixes x r :: int
  assumes "0 \<le> x" "0 < r" "inside (x + r)"
  shows "\<exists>down up near. RoundDownTo d os (Quantity r) (Quantity x :: 'u quantity) = Inr (Quantity (down * r)) \<and>
    down * r \<le> x \<and> x < down * r + r \<and>
    RoundUpTo d os (Quantity r) (Quantity x :: 'u quantity) = Inr (Quantity (up * r)) \<and>
    x \<le> up * r \<and> up * r < x + r \<and>
    RoundTo d os (Quantity r) (Quantity x :: 'u quantity) = Inr (Quantity (near * r)) \<and>
    2 * (near * r - x) \<le> r \<and> 2 * (x - near * r) < r"
proof -
  have i: "inside x" "inside r" "inside (x + (r - 1))" "inside (x + r div 2)"
    using between_inside [OF inside_0 assms(3)] assms(1,2) by simp_all
  note shapes = rounding_shapes [OF i(1,2) assms(2), of d os, where 'u = 'u]
  have "RoundDownTo d os (Quantity r) (Quantity x :: 'u quantity) = Inr (Quantity (x div r * r))"
    using rounding_step [OF assms(2,1) order.refl, of d os, where 'u = 'u] i(1) shapes(3) by simp
  moreover have "RoundUpTo d os (Quantity r) (Quantity x :: 'u quantity) = Inr (Quantity ((x + (r - 1)) div r * r))"
    using rounding_step [OF assms(2,1) _ i(3), of d os, where 'u = 'u] assms(2) shapes(2) i(3) assms(3)
    by (simp add: i64_in inside_in add_diff_eq)
  moreover have "RoundTo d os (Quantity r) (Quantity x :: 'u quantity) = Inr (Quantity ((x + r div 2) div r * r))"
    using rounding_step [OF assms(2,1) _ i(4), of d os, where 'u = 'u] assms(2) shapes(1) i(4)
    by (simp add: i64_in inside_in)
  moreover note multiple_bounds [OF assms(2,1)]
  moreover have "(x + (r - 1)) div r * r \<le> x + (r - 1)" "x + (r - 1) < (x + (r - 1)) div r * r + r"
    using multiple_bounds [OF assms(2), of "x + (r - 1)"] assms(1,2) by simp_all
  moreover have n: "(x + r div 2) div r * r \<le> x + r div 2" "x + r div 2 < (x + r div 2) div r * r + r"
    using multiple_bounds [OF assms(2), of "x + r div 2"] assms(1,2) by simp_all
  moreover note nearest_bounds [OF n]
  ultimately show ?thesis
    by (intro exI conjI) (assumption | linarith)+
qed

theorem rounding_witness:
  "\<exists>near. RoundTo True False (Quantity 10) (Quantity 25 :: TimeDelta) = Inr (Quantity (near * 10)) \<and>
     2 * (near * 10 - 25) \<le> 10 \<and> 2 * (25 - near * 10) < (10 :: int)"
  using rounding [of 25 10 True False] by (auto simp: inside_def MinusInfinityVal_def PlusInfinityVal_def)

text \<open>
  Negative multiples of the resolution, which need no rounding, are changed by \<open>RoundTo\<close> and
  \<open>RoundUpTo\<close> (the division truncates towards 0): \<open>- k r\<close> becomes \<open>- (k - 1) r\<close> when
  \<open>r\<close> is at least 2.
\<close>

theorem negative_rounding:
  fixes k r :: int
  assumes "1 \<le> k" "2 \<le> r" "inside (- (k * r))" "inside r"
  shows "RoundTo d False (Quantity r) (Quantity (- (k * r)) :: TimeDelta) = Inr (Quantity (- ((k - 1) * r))) \<and>
    RoundUpTo d False (Quantity r) (Quantity (- (k * r)) :: TimeDelta) = Inr (Quantity (- ((k - 1) * r)))"
proof -
  have neg: "bindR (i64_div (- (k * r) + h) r) (\<lambda>q. times_unit d False (Quantity q :: TimeDelta) r) =
      Inr (Quantity (- ((k - 1) * r)))" if h: "1 \<le> h" "h < r" for h
  proof -
    define m where "m = k * r - h"
    have m: "m = (k - 1) * r + (r - h)" by (simp add: m_def algebra_simps)
    have kr: "0 \<le> (k - 1) * r" using assms(1,2) by simp
    then have m0: "0 \<le> m" "m \<le> k * r" using m h by (simp_all add: m_def)
    have "m div r = k - 1"
      unfolding m using h assms(2) by (simp add: div_pos_pos_trivial)
    then have q: "(- m) sdiv r = - (k - 1)"
      using sdiv_neg [of r m] sdiv_nonneg [of m r] m0 assms(2) by simp
    have small: "inside v" if "- (k * r) \<le> v" "v \<le> 0" for v
      using assms(3) inside_0 that by (rule between_inside)
    have "k - 1 \<le> (k - 1) * r" using assms(1,2) by (simp add: mult_le_cancel_left1)
    moreover have "(k - 1) * r \<le> k * r" using assms(2) by (simp add: mult_right_mono)
    ultimately have in_q: "inside (- (k - 1))" "inside (- ((k - 1) * r))"
      using kr assms(1) by (simp_all add: small)
    have step: "i64_div (- m) r = Inr (- (k - 1))"
      using i64_div_in [of r "- m"] q inside_in [OF in_q(1)] assms(2) by simp
    have "times_unit d False (Quantity (- (k - 1)) :: TimeDelta) r = Inr (Quantity (- ((k - 1) * r)))"
      using times_finite [of "- (k - 1)" r False d] in_q unfolding mult_minus_left by blast
    moreover have "- (k * r) + h = - m" by (simp add: m_def)
    ultimately show ?thesis
      by (simp only: step bindR_Inr)
  qed
  have b: "0 < k * r" "r \<le> k * r" using assms(1,2) by simp_all
  have "0 < r div 2" "r div 2 < r" using assms(2) by simp_all
  moreover have ii: "inside (- (k * r) + h)" if "0 \<le> h" "h \<le> r" for h
    using assms(3) inside_0 by (rule between_inside) (use that b in linarith)+
  ultimately show ?thesis
    using rounding_shapes [OF assms(3,4), of d False, where 'u = time_delta_tag] assms(2,4) neg [of "r div 2"] neg [of "r - 1"]
      ii [of "r div 2"] ii [of r] ii [of "r - 1"]
    by (simp add: i64_in inside_in add_diff_eq)
qed

theorem negative_rounding_witness:
  "RoundTo True False (Quantity 1000) (Quantity (- 3000) :: TimeDelta) = Inr (Quantity (- 2000))"
  using negative_rounding [of 3 1000 True] by (simp add: inside_def MinusInfinityVal_def PlusInfinityVal_def)

section \<open>Conversions\<close>

lemma div_le_self: "0 \<le> a \<Longrightarrow> 0 < c \<Longrightarrow> a div c \<le> (a :: int)"
  using zdiv_mono2 [of a 1 c] by simp

lemma in_i64_magnitude: "0 \<le> a \<Longrightarrow> a \<le> PlusInfinityVal \<Longrightarrow> in_i64 a \<and> in_i64 (- a)"
  by (simp add: in_i64_def PlusInfinityVal_def)

lemma limits:
  assumes "0 < c"
  shows "PlusInfinityVal sdiv c = PlusInfinityVal div c" "MinusInfinityVal sdiv c = - (2 ^ 63 div c)"
    "in_i64 (PlusInfinityVal sdiv c)" "in_i64 (MinusInfinityVal sdiv c)"
proof -
  show p: "PlusInfinityVal sdiv c = PlusInfinityVal div c"
    by (rule sdiv_nonneg [OF _ assms]) (simp add: PlusInfinityVal_def)
  show m: "MinusInfinityVal sdiv c = - (2 ^ 63 div c)"
    using sdiv_neg [OF assms, of "2 ^ 63"] sdiv_nonneg [OF _ assms, of "2 ^ 63"]
    by (simp add: MinusInfinityVal_def)
  have q: "0 \<le> PlusInfinityVal div c" "PlusInfinityVal div c \<le> PlusInfinityVal"
      "0 \<le> 2 ^ 63 div c" "2 ^ 63 div c \<le> 2 ^ 63"
    using assms div_le_self [of PlusInfinityVal c] div_le_self [of "2 ^ 63" c]
    by (simp_all add: PlusInfinityVal_def pos_imp_zdiv_nonneg_iff)
  show "in_i64 (PlusInfinityVal sdiv c)" "in_i64 (MinusInfinityVal sdiv c)"
    unfolding p m in_i64_def using q by (simp_all add: PlusInfinityVal_def)
qed

text \<open>The range of a value that is multiplied by \<open>c\<close>: there is room for one more \<open>c\<close>.\<close>

definition fraction_range :: "int \<Rightarrow> int \<Rightarrow> bool" where
  "fraction_range c v \<longleftrightarrow> \<bar>v * c\<bar> + c \<le> PlusInfinityVal"

lemma fraction_range_limits:
  assumes "0 < c" "fraction_range c v"
  shows "MinusInfinityVal sdiv c < v" "v < PlusInfinityVal sdiv c" "inside (v * c)" "in_i64 (v * c)"
proof -
  have r: "(v + 1) * c \<le> PlusInfinityVal" "(1 - v) * c \<le> PlusInfinityVal"
    using assms(2) by (simp_all add: fraction_range_def algebra_simps)
  have "v + 1 \<le> PlusInfinityVal div c"
    using r(1) assms(1) zdiv_mono1 [OF r(1) assms(1)] by simp
  moreover have "1 - v \<le> PlusInfinityVal div c"
    using r(2) assms(1) zdiv_mono1 [OF r(2) assms(1)] by simp
  moreover have "PlusInfinityVal div c \<le> 2 ^ 63 div c"
    by (rule zdiv_mono1) (use assms(1) in \<open>simp_all add: PlusInfinityVal_def\<close>)
  ultimately show "MinusInfinityVal sdiv c < v" "v < PlusInfinityVal sdiv c"
    unfolding limits [OF assms(1)] by linarith+
  show i: "inside (v * c)"
    using assms unfolding fraction_range_def inside_def MinusInfinityVal_def PlusInfinityVal_def
    by (simp add: abs_if split: if_splits)
  show "in_i64 (v * c)" by (rule inside_in [OF i])
qed

lemma FromFraction_in:
  assumes "0 < c" "fraction_range c v" "os \<Longrightarrow> 0 \<le> v"
  shows "FromFraction d os c v = Inr (Quantity (v * c))"
  using assms fraction_range_limits [OF assms(1,2)] limits(3,4) [OF assms(1)]
  by (simp add: FromFraction_def i64_div_in i64_in dchecked_cast_in)

text \<open>Rounding the magnitude; the sign is put back.\<close>

lemma div_round_magnitude:
  assumes "0 < c" "\<bar>n\<bar> + c \<le> PlusInfinityVal"
  shows "DivRoundToNearest n c = Inr (sgn n * ((\<bar>n\<bar> + c div 2) div c))"
    and "0 \<le> n \<Longrightarrow> DivRoundPositiveToNearest n c = Inr ((n + c div 2) div c)"
proof -
  have h: "0 \<le> c div 2" "c div 2 \<le> c" using assms(1) by simp_all
  have in_h: "in_i64 (c div 2)" "in_i64 (- c)" "in_i64 (- (c div 2))"
    using in_i64_magnitude [of "c div 2"] in_i64_magnitude [of c] h assms abs_ge_zero [of n] by linarith+
  have half: "i64_div c 2 = Inr (c div 2)"
    using assms(1) in_h(1) by (simp add: i64_div_in sdiv_nonneg)
  have neg_half: "i64_div (- c) 2 = Inr (- (c div 2))"
    using assms(1) in_h(3) by (simp add: i64_div_in sdiv_neg sdiv_nonneg)
  let ?m = "\<bar>n\<bar> + c div 2"
  have m: "0 \<le> ?m" "?m \<le> PlusInfinityVal" using h assms(2) by linarith+
  then have q: "0 \<le> ?m div c" "?m div c \<le> PlusInfinityVal"
    using assms(1) div_le_self [of ?m c] by (simp_all add: pos_imp_zdiv_nonneg_iff)
  have in_m: "in_i64 ?m" "in_i64 (- ?m)" "in_i64 (?m div c)" "in_i64 (- (?m div c))"
    using in_i64_magnitude [OF m] in_i64_magnitude [OF q] by simp_all
  have quot: "?m sdiv c = ?m div c" "(- ?m) sdiv c = - (?m div c)"
    using sdiv_neg [OF assms(1), of ?m] sdiv_nonneg [OF m(1) assms(1)] by simp_all
  then have up: "i64_div ?m c = Inr (?m div c)" and down: "i64_div (- ?m) c = Inr (- (?m div c))"
    using assms(1) in_m i64_div_in [of c ?m] i64_div_in [of c "- ?m"] by simp_all
  show "DivRoundPositiveToNearest n c = Inr ((n + c div 2) div c)" if "0 \<le> n"
    using that half up in_m(1) by (simp add: DivRoundPositiveToNearest_def i64_in)
  show "DivRoundToNearest n c = Inr (sgn n * ((\<bar>n\<bar> + c div 2) div c))"
  proof (cases "0 \<le> n")
    case True
    have "n = 0 \<Longrightarrow> (c div 2) div c = 0" using h assms(1) by (simp add: div_pos_pos_trivial)
    with True half up in_m(1) show ?thesis
      by (auto simp: DivRoundToNearest_def i64_in sgn_if)
  next
    case False
    then have "n + - (c div 2) = - ?m" by simp
    with False neg_half down in_m(2) in_h(2) show ?thesis
      by (simp add: DivRoundToNearest_def i64_in)
  qed
qed

lemma div_round_exact:
  assumes "0 < c" "fraction_range c v"
  shows "DivRoundToNearest (v * c) c = Inr v"
    and "0 \<le> v \<Longrightarrow> DivRoundPositiveToNearest (v * c) c = Inr v"
proof -
  have r: "\<bar>v * c\<bar> + c \<le> PlusInfinityVal" using assms(2) by (simp add: fraction_range_def)
  have "c div 2 div c = 0" using assms(1) by (simp add: div_pos_pos_trivial)
  then have q: "(\<bar>v\<bar> * c + c div 2) div c = \<bar>v\<bar>" using assms(1) by simp
  show "DivRoundToNearest (v * c) c = Inr v"
    using div_round_magnitude(1) [OF assms(1) r] q assms(1)
    by (simp add: abs_mult sgn_mult sgn_mult_abs)
  show "DivRoundPositiveToNearest (v * c) c = Inr v" if "0 \<le> v"
    using div_round_magnitude(2) [OF assms(1) r] q assms(1) that by simp
qed

lemma fraction_roundtrip:
  assumes "0 < c" "fraction_range c v" "os \<Longrightarrow> 0 \<le> v"
  shows "bindR (FromFraction d os c v) (ToFraction d os c) = Inr v"
proof -
  have "in_i64 v"
    using fraction_range_limits(1,2) [OF assms(1,2)] limits(3,4) [OF assms(1)]
    unfolding in_i64_def by linarith
  then show ?thesis
    using div_round_exact [OF assms(1,2)] assms fraction_range_limits(3) [OF assms(1,2)]
    by (simp add: FromFraction_in ToFraction_def dchecked_cast_in)
qed

interpretation fraction: codec "FromFraction d os c" "ToFraction d os c"
    "\<lambda>v. 0 < c \<and> fraction_range c v \<and> (os \<longrightarrow> 0 \<le> v)" for d os c
  by unfold_locales (simp add: fraction_roundtrip)

text \<open>A list of measurements survives the conversion too.\<close>

lemma fractions_roundtrip:
  "0 < c \<Longrightarrow> list_all (\<lambda>v. fraction_range c v \<and> (os \<longrightarrow> 0 \<le> v)) vs \<Longrightarrow>
     bindR (mapR (FromFraction d os c) vs) (mapR (ToFraction d os c)) = Inr vs"
  by (rule fraction.dec_enc_all) (simp add: list_all_iff)

lemma readers:
  "TimeDelta_seconds d = ToFraction d TimeDelta_one_sided 1000000"
  "TimeDelta_ms d = ToFraction d TimeDelta_one_sided 1000"
  "Timestamp_seconds d = ToFraction d Timestamp_one_sided 1000000"
  "Timestamp_ms d = ToFraction d Timestamp_one_sided 1000"
  "DataRate_kbps d = ToFraction d DataRate_one_sided 1000"
  "DataRate_bytes_per_sec d = ToFraction d DataRate_one_sided 8"
  "Frequency_hertz d = ToFraction d Frequency_one_sided 1000"
  by (simp_all add: fun_eq_iff TimeDelta_seconds_def TimeDelta_ms_def Timestamp_seconds_def Timestamp_ms_def
      DataRate_kbps_def DataRate_bytes_per_sec_def Frequency_hertz_def)

text \<open>
  What is put in in seconds, milliseconds, kilobits or bytes per second, or hertz is read back
  in the same unit, for values of magnitude up to \<open>9 * 10\<^sup>12\<close> (not negative but for a
  \<open>TimeDelta\<close>).
\<close>

theorem conversion_roundtrip:
  assumes "\<bar>v\<bar> \<le> 9 * 10 ^ 12"
  shows "bindR (TimeDelta_Seconds d v) (TimeDelta_seconds d) = Inr v \<and>
    bindR (TimeDelta_Millis d v) (TimeDelta_ms d) = Inr v \<and>
    (0 \<le> v \<longrightarrow>
      bindR (Timestamp_Seconds d v) (Timestamp_seconds d) = Inr v \<and>
      bindR (Timestamp_Millis d v) (Timestamp_ms d) = Inr v \<and>
      bindR (DataRate_KilobitsPerSec d v) (DataRate_kbps d) = Inr v \<and>
      bindR (DataRate_BytesPerSec d v) (DataRate_bytes_per_sec d) = Inr v \<and>
      bindR (Frequency_Hertz d v) (Frequency_hertz d) = Inr v)"
proof -
  have "fraction_range 1000000 v" "fraction_range 1000 v" "fraction_range 8 v"
    using assms by (simp_all add: fraction_range_def PlusInfinityVal_def abs_mult)
  then show ?thesis
    by (simp add: TimeDelta_Seconds_def TimeDelta_Millis_def Timestamp_Seconds_def Timestamp_Millis_def
        DataRate_KilobitsPerSec_def DataRate_BytesPerSec_def Frequency_Hertz_def readers fraction.dec_enc TimeDelta_one_sided_def)
qed

theorem conversion_roundtrip_witness:
  "bindR (Timestamp_Millis True 1600000000000) (Timestamp_ms True) = Inr 1600000000000"
  using conversion_roundtrip [of 1600000000000 True] by simp

section \<open>Sizes, rates and durations\<close>

lemma ToValue_inside: "inside v \<Longrightarrow> ToValue d (Quantity v) = Inr v"
  by (simp add: ToValue_finite)

lemma in_i64_between: "0 \<le> v \<Longrightarrow> v < 2 ^ 63 \<Longrightarrow> in_i64 v"
  by (simp add: in_i64_def)

lemma inside_between: "0 \<le> v \<Longrightarrow> v < 2 ^ 63 - 1 \<Longrightarrow> inside v"
  by (simp add: inside_def PlusInfinityVal_def MinusInfinityVal_def)

lemma Microbits_in:
  assumes "0 \<le> b" "b * 8000000 < 2 ^ 63"
  shows "Microbits d (Quantity b) = Inr (b * 8000000)"
proof -
  have "b \<le> PlusInfinityVal sdiv 8000000"
    using assms by (simp add: limits(1) PlusInfinityVal_def)
  moreover have "inside b" "in_i64 (b * 8000000)"
    using assms by (simp_all add: inside_between in_i64_between)
  ultimately show ?thesis
    by (simp add: Microbits_def DataSize_bytes_def ToValue_inside i64_in)
qed

lemma size_over_duration_in:
  assumes "0 \<le> b" "b * 8000000 < 2 ^ 63 - 1" "0 < us" "us < 2 ^ 63 - 1"
  shows "size_over_duration d (Quantity b) (Quantity us) = Inr (Quantity (b * 8000000 div us))"
proof -
  let ?m = "b * 8000000"
  have q: "0 \<le> ?m div us" "?m div us \<le> ?m"
    using assms div_le_self [of ?m us] by (simp_all add: pos_imp_zdiv_nonneg_iff)
  have "?m div us < 2 ^ 63 - 1" using q(2) assms(2) by linarith
  then have "inside (?m div us)" "in_i64 (?m sdiv us)"
    using q(1) assms by (simp_all add: inside_between in_i64_between sdiv_nonneg)
  then show ?thesis
    using assms q(1) Microbits_in [of b d]
    by (simp add: size_over_duration_def TimeDelta_us_def ToValue_inside inside_between i64_div_in sdiv_nonneg
        DataRate_BitsPerSec_def FromValue_in)
qed

lemma rate_times_duration_in:
  assumes "0 \<le> bps" "bps < 2 ^ 63 - 1" "0 \<le> us" "us < 2 ^ 63 - 1"
  shows "rate_times_duration d (Quantity bps) (Quantity us) =
    (if bps * us + 4000000 < 2 ^ 63 then Inr (Quantity ((bps * us + 4000000) div 8000000)) else Inl Overflow)"
proof -
  have pos: "0 \<le> bps * us" using assms by simp
  show ?thesis
  proof (cases "bps * us + 4000000 < 2 ^ 63")
    case True
    let ?q = "(bps * us + 4000000) div 8000000"
    have q: "0 \<le> ?q" "?q < 2 ^ 63 - 1"
      using pos True by (simp_all add: pos_imp_zdiv_nonneg_iff)
    have "in_i64 (bps * us)" "in_i64 (bps * us + 4000000)" "in_i64 ?q" "inside ?q"
      using pos True q by (simp_all add: in_i64_between inside_between)
    with True show ?thesis
      using assms pos q(1)
      by (simp add: rate_times_duration_def DataRate_bps_def TimeDelta_us_def ToValue_inside inside_between i64_in
          i64_div_in sdiv_nonneg DataSize_Bytes_def FromValue_in)
  next
    case False
    then have "\<not> (in_i64 (bps * us) \<and> in_i64 (bps * us + 4000000))"
      by (simp add: in_i64_def)
    with False show ?thesis
      using assms
      by (simp add: rate_times_duration_def DataRate_bps_def TimeDelta_us_def ToValue_inside inside_between)
        (auto simp: i64_def)
  qed
qed

text \<open>
  For an interval of up to four seconds, the size sent at the rate \<open>size / duration\<close> during
  \<open>duration\<close> is exactly \<open>size\<close>: what the truncating division loses, the rounding
  multiplication restores.
\<close>

theorem size_roundtrip:
  assumes "0 \<le> b" "b * 8000000 + 4000000 < 2 ^ 63" "0 < us" "us \<le> 4000000"
  shows "bindR (size_over_duration d (Quantity b) (Quantity us)) (\<lambda>rate. rate_times_duration d rate (Quantity us))
    = Inr (Quantity b)"
proof -
  define r where "r = b * 8000000 div us"
  have r: "0 \<le> r" "r * us \<le> b * 8000000" "b * 8000000 < r * us + us" "r \<le> r * us"
    using multiple_bounds [of us "b * 8000000"] assms by (simp_all add: r_def)
  then have "r < 2 ^ 63 - 1" "r * us + 4000000 < 2 ^ 63" using assms(2) by linarith+
  moreover have "(r * us + 4000000) div 8000000 = b"
    using r assms(3,4) by (intro int_div_pos_eq [of _ _ _ "r * us + 4000000 - b * 8000000"]) simp_all
  ultimately show ?thesis
    using assms r size_over_duration_in [of b us d] rate_times_duration_in [of r us d]
    by (simp flip: r_def)
qed

theorem size_roundtrip_witness:
  "bindR (size_over_duration True (Quantity 1200) (Quantity 16667)) (\<lambda>rate. rate_times_duration True rate (Quantity 16667))
     = Inr (Quantity 1200)"
  by (rule size_roundtrip) simp_all

text \<open>
  The product of a rate and a duration has no check against overflow: for finite values it
  leaves \<open>int64_t\<close>, undefined behaviour, exactly when bits per second times microseconds plus
  4000000 reaches \<open>2\<^sup>63\<close>; the size over a duration, in contrast, fails its check first.
\<close>

theorem rate_overflow:
  assumes "0 \<le> bps" "bps < 2 ^ 63 - 1" "0 \<le> us" "us < 2 ^ 63 - 1" "0 \<le> b" "b < 2 ^ 63 - 1"
  shows "(rate_times_duration d (Quantity bps) (Quantity us) = Inl Overflow \<longleftrightarrow> 2 ^ 63 \<le> bps * us + 4000000) \<and>
    size_over_duration True (Quantity b) (Quantity us) \<noteq> Inl Overflow"
proof
  show "rate_times_duration d (Quantity bps) (Quantity us) = Inl Overflow \<longleftrightarrow> 2 ^ 63 \<le> bps * us + 4000000"
    using rate_times_duration_in [OF assms(1-4), of d] by auto
  show "size_over_duration True (Quantity b) (Quantity us) \<noteq> Inl Overflow"
  proof (cases "b \<le> PlusInfinityVal sdiv 8000000")
    case False
    then show ?thesis
      using assms by (simp add: size_over_duration_def Microbits_def DataSize_bytes_def ToValue_inside inside_between
          dcheck_def)
  next
    case True
    then have m: "b * 8000000 < 2 ^ 63 - 1" by (simp add: limits(1) PlusInfinityVal_def)
    show ?thesis
    proof (cases "us = 0")
      case True
      with m assms show ?thesis
        by (simp add: size_over_duration_def Microbits_in TimeDelta_us_def ToValue_inside inside_0 i64_div_def)
    next
      case False
      with size_over_duration_in [OF assms(5) m, of us True] assms show ?thesis by simp
    qed
  qed
qed

theorem rate_overflow_witness:
  "rate_times_duration True (Quantity (10 * 10 ^ 9)) (Quantity (1000 * 10 ^ 6)) = Inl Overflow"
  using rate_overflow [of "10 * 10 ^ 9" "1000 * 10 ^ 6" 0 True] by simp

section \<open>Division through double\<close>

lemma to_double_small:
  assumes "\<bar>q\<bar> < 2 ^ 53"
  shows "to_double q = q"
proof -
  let ?P = "\<lambda>i :: nat. 2 ^ i \<le> \<bar>q\<bar>"
  have "[0..<64] = [0..<53] @ 53 # [54..<64]"
    by (simp add: upt_conv_Cons upt_eq_Cons_conv flip: upt_add_eq_append)
  then have "takeWhile ?P [0..<64] = takeWhile ?P [0..<53]"
    using assms by (simp only:) (rule takeWhile_tail, simp)
  then have "length (takeWhile ?P [0..<64]) \<le> 53"
    using length_takeWhile_le [of ?P "[0..<53]"] by simp
  then have "nat (int (length (takeWhile ?P [0..<64])) - 53) = 0" by simp
  then show ?thesis
    by (simp add: to_double_def Let_def sgn_mult_abs)
qed

text \<open>
  Dividing a unit by an integer truncates, and is exact as long as the quotient is below
  \<open>2\<^sup>53\<close> in magnitude; beyond, the detour over \<open>double\<close> changes the value even for the divisor 1.
\<close>

theorem unit_division:
  assumes "inside x" "n \<noteq> 0" "\<bar>x sdiv n\<bar> < 2 ^ 53" "os \<longrightarrow> 0 \<le> x sdiv n"
  shows "divide_unit d os (Quantity x :: 'u quantity) n = Inr (Quantity (x sdiv n)) \<and>
    divide_unit d os (Quantity (2 ^ 53 + 1) :: 'u quantity) 1 = Inr (Quantity (2 ^ 53))"
proof
  have q: "in_i64 (x sdiv n)" "inside (x sdiv n)"
    using assms(3) by (simp_all add: in_i64_def inside_def PlusInfinityVal_def MinusInfinityVal_def abs_if split: if_splits)
  then show "divide_unit d os (Quantity x :: 'u quantity) n = Inr (Quantity (x sdiv n))"
    using assms by (simp add: divide_unit_def ToValue_inside i64_div_in to_double_small FromValue_in)
  have "to_double (2 ^ 53 + 1) = 2 ^ 53" by code_simp
  then show "divide_unit d os (Quantity (2 ^ 53 + 1) :: 'u quantity) 1 = Inr (Quantity (2 ^ 53))"
    by (simp add: divide_unit_def ToValue_inside inside_between i64_div_in in_i64_between FromValue_in)
qed

theorem unit_division_witness:
  "divide_unit True False (Quantity (- 7) :: TimeDelta) 2 = Inr (Quantity (- 3))"
  using unit_division [of "- 7" 2 False True, where 'u = time_delta_tag] by (simp add: inside_def PlusInfinityVal_def MinusInfinityVal_def)

end
