(* ===== verification/Rtc_Buffer.thy ===== *)
theory Rtc_Buffer
  imports Prelude
begin

text \<open>
  \<open>rtc::BufferT\<close> of rtc_base/buffer.h.  A heap block is a list of cells, \<open>None\<close> for a cell that was
  never written; \<open>data_\<close> is \<open>None\<close> for the null pointer.  \<open>released\<close> is a history variable: the
  blocks the buffer has given back, as they were when they were freed.  \<open>d\<close> says whether the build
  has \<open>RTC_DCHECK\<close>s, \<open>zof\<close> is \<open>ZeroOnFree\<close> and \<open>z\<close> the value of a zeroed cell.  Sizes are
  \<open>size_t\<close> of 64 bits; \<open>sz\<close> is \<open>sizeof(T)\<close>, and \<open>new T[n]\<close> refuses more than
  \<open>PTRDIFF_MAX\<close> bytes.
\<close>

type_synonym 'a cells = "'a option list"

record 'a buffer =
  bsize :: nat
  bcap :: nat
  bdata :: "'a cells option"
  released :: "'a cells list"

definition size_add :: "nat \<Rightarrow> nat \<Rightarrow> nat" where
  "size_add a b = (a + b) mod 2 ^ 64"

definition PTRDIFF_MAX :: nat where
  "PTRDIFF_MAX = 2 ^ 63 - 1"

definition new_array :: "nat \<Rightarrow> nat \<Rightarrow> 'a cells res" where
  "new_array sz n = (if sz * n \<le> PTRDIFF_MAX then Inr (replicate n None) else Inl Bad_alloc)"

text \<open>Writing \<open>xs\<close> at an offset of a block: \<open>std::memcpy\<close> and \<open>ExplicitZeroMemory\<close>.\<close>

definition write_cells :: "'a cells option \<Rightarrow> nat \<Rightarrow> 'a cells \<Rightarrow> 'a cells option res" where
  "write_cells p off xs =
     (if xs = [] then Inr p
      else case p of
        None \<Rightarrow> Inl Bad_memory
      | Some cs \<Rightarrow>
          if off + length xs \<le> length cs
          then Inr (Some (take off cs @ xs @ drop (off + length xs) cs))
          else Inl Bad_memory)"

definition IsConsistent :: "'a buffer \<Rightarrow> bool" where
  "IsConsistent b \<longleftrightarrow> (bdata b \<noteq> None \<or> bcap b = 0) \<and> bcap b \<ge> bsize b"

section \<open>Construction\<close>

definition BufferT_empty :: "bool \<Rightarrow> 'a buffer res" where
  "BufferT_empty d =
     (let b = \<lparr>bsize = 0, bcap = 0, bdata = None, released = []\<rparr> in dcheck d (IsConsistent b) b)"

definition BufferT_sized :: "nat \<Rightarrow> bool \<Rightarrow> nat \<Rightarrow> nat \<Rightarrow> 'a buffer res" where
  "BufferT_sized sz d size_arg capacity =
     (let cap = max size_arg capacity in
      bindR (if cap > 0 then bindR (new_array sz cap) (\<lambda>cs. Inr (Some cs)) else Inr None) (\<lambda>p.
        let b = \<lparr>bsize = size_arg, bcap = cap, bdata = p, released = []\<rparr> in dcheck d (IsConsistent b) b))"

definition BufferT_copy :: "nat \<Rightarrow> bool \<Rightarrow> 'a cells \<Rightarrow> nat \<Rightarrow> 'a buffer res" where
  "BufferT_copy sz d data capacity =
     bindR (BufferT_sized sz d (length data) capacity) (\<lambda>b.
     bindR (write_cells (bdata b) 0 data) (\<lambda>p. Inr (b\<lparr>bdata := p\<rparr>)))"

text \<open>\<open>delete[]\<close> of the block behind a pointer.\<close>

definition release :: "'a cells option \<Rightarrow> 'a cells list" where
  "release p = (case p of None \<Rightarrow> [] | Some cs \<Rightarrow> [cs])"

definition OnMovedFrom :: "bool \<Rightarrow> 'a buffer \<Rightarrow> 'a buffer res" where
  "OnMovedFrom d b =
     bindR (dcheck d (bdata b = None) ()) (\<lambda>_. Inr (b\<lparr>bsize := (if d then 1 else 0), bcap := 0\<rparr>))"

text \<open>The moved-to and the moved-from buffer.\<close>

definition BufferT_move :: "bool \<Rightarrow> 'a buffer \<Rightarrow> ('a buffer \<times> 'a buffer) res" where
  "BufferT_move d buf =
     bindR (dcheck d (IsConsistent buf) ()) (\<lambda>_.
       let b = \<lparr>bsize = bsize buf, bcap = bcap buf, bdata = bdata buf, released = []\<rparr> in
       bindR (dcheck d (IsConsistent b) ()) (\<lambda>_.
       bindR (OnMovedFrom d (buf\<lparr>bdata := None\<rparr>)) (\<lambda>buf'. Inr (b, buf'))))"

section \<open>Memory\<close>

definition MaybeZeroCompleteBuffer :: "bool \<Rightarrow> 'a \<Rightarrow> 'a buffer \<Rightarrow> 'a buffer res" where
  "MaybeZeroCompleteBuffer zof z b =
     (if zof \<and> bcap b > 0
      then bindR (write_cells (bdata b) 0 (replicate (bcap b) (Some z))) (\<lambda>p. Inr (b\<lparr>bdata := p\<rparr>))
      else Inr b)"

definition ZeroTrailingData :: "bool \<Rightarrow> 'a \<Rightarrow> nat \<Rightarrow> 'a buffer \<Rightarrow> 'a buffer res" where
  "ZeroTrailingData d z count b =
     bindR (dcheck d (IsConsistent b) ()) (\<lambda>_.
     bindR (dcheck d (count \<le> bcap b - bsize b) ()) (\<lambda>_.
     bindR (write_cells (bdata b) (bsize b) (replicate count (Some z))) (\<lambda>p. Inr (b\<lparr>bdata := p\<rparr>))))"

definition BufferT_destroy :: "bool \<Rightarrow> 'a \<Rightarrow> 'a buffer \<Rightarrow> 'a buffer res" where
  "BufferT_destroy zof z b =
     bindR (MaybeZeroCompleteBuffer zof z b) (\<lambda>b.
       Inr (b\<lparr>bdata := None, released := released b @ release (bdata b)\<rparr>))"

definition BufferT_move_assign ::
    "bool \<Rightarrow> bool \<Rightarrow> 'a \<Rightarrow> 'a buffer \<Rightarrow> 'a buffer \<Rightarrow> ('a buffer \<times> 'a buffer) res" where
  "BufferT_move_assign d zof z buf b =
     bindR (dcheck d (IsConsistent buf) ()) (\<lambda>_.
     bindR (MaybeZeroCompleteBuffer zof z b) (\<lambda>b.
       let b' = b\<lparr>bsize := bsize buf, bcap := bcap buf, bdata := bdata buf,
                   released := released b @ release (bdata b)\<rparr>
       in bindR (OnMovedFrom d (buf\<lparr>bdata := None\<rparr>)) (\<lambda>buf'. Inr (b', buf'))))"

definition EnsureCapacityWithHeadroom ::
    "nat \<Rightarrow> bool \<Rightarrow> bool \<Rightarrow> 'a \<Rightarrow> nat \<Rightarrow> bool \<Rightarrow> 'a buffer \<Rightarrow> 'a buffer res" where
  "EnsureCapacityWithHeadroom sz d zof z capacity extra_headroom b =
     bindR (dcheck d (IsConsistent b) ()) (\<lambda>_.
       if capacity \<le> bcap b then Inr b
       else
         let new_capacity = (if extra_headroom then max capacity (size_add (bcap b) (bcap b div 2)) else capacity)
         in bindR (new_array sz new_capacity) (\<lambda>new_data.
            bindR (case bdata b of None \<Rightarrow> Inr (Some new_data)
                   | Some cs \<Rightarrow> write_cells (Some new_data) 0 (take (bsize b) cs)) (\<lambda>p.
            bindR (MaybeZeroCompleteBuffer zof z b) (\<lambda>b.
              let b' = b\<lparr>bdata := p, bcap := new_capacity, released := released b @ release (bdata b)\<rparr>
              in dcheck d (IsConsistent b') b'))))"

definition EnsureCapacity :: "nat \<Rightarrow> bool \<Rightarrow> bool \<Rightarrow> 'a \<Rightarrow> nat \<Rightarrow> 'a buffer \<Rightarrow> 'a buffer res" where
  "EnsureCapacity sz d zof z capacity b = EnsureCapacityWithHeadroom sz d zof z capacity False b"

definition SetSize :: "nat \<Rightarrow> bool \<Rightarrow> bool \<Rightarrow> 'a \<Rightarrow> nat \<Rightarrow> 'a buffer \<Rightarrow> 'a buffer res" where
  "SetSize sz d zof z size_arg b =
     (let old_size = bsize b in
      bindR (EnsureCapacityWithHeadroom sz d zof z size_arg True b) (\<lambda>b.
        let b = b\<lparr>bsize := size_arg\<rparr>
        in if zof \<and> bsize b < old_size then ZeroTrailingData d z (old_size - bsize b) b else Inr b))"

definition Clear :: "bool \<Rightarrow> bool \<Rightarrow> 'a \<Rightarrow> 'a buffer \<Rightarrow> 'a buffer res" where
  "Clear d zof z b =
     bindR (MaybeZeroCompleteBuffer zof z b) (\<lambda>b.
       let b = b\<lparr>bsize := 0\<rparr> in dcheck d (IsConsistent b) b)"

definition buffer_swap :: "'a buffer \<Rightarrow> 'a buffer \<Rightarrow> 'a buffer \<times> 'a buffer" where
  "buffer_swap a b =
     (a\<lparr>bsize := bsize b, bcap := bcap b, bdata := bdata b\<rparr>,
      b\<lparr>bsize := bsize a, bcap := bcap a, bdata := bdata a\<rparr>)"

section \<open>Contents\<close>

definition AppendData :: "nat \<Rightarrow> bool \<Rightarrow> bool \<Rightarrow> 'a \<Rightarrow> 'a cells \<Rightarrow> 'a buffer \<Rightarrow> 'a buffer res" where
  "AppendData sz d zof z data b =
     bindR (dcheck d (IsConsistent b) ()) (\<lambda>_.
       let new_size = size_add (bsize b) (length data) in
       bindR (EnsureCapacityWithHeadroom sz d zof z new_size True b) (\<lambda>b.
       bindR (write_cells (bdata b) (bsize b) data) (\<lambda>p.
         let b = b\<lparr>bdata := p, bsize := new_size\<rparr> in dcheck d (IsConsistent b) b)))"

definition SetData :: "nat \<Rightarrow> bool \<Rightarrow> bool \<Rightarrow> 'a \<Rightarrow> 'a cells \<Rightarrow> 'a buffer \<Rightarrow> 'a buffer res" where
  "SetData sz d zof z data b =
     bindR (dcheck d (IsConsistent b) ()) (\<lambda>_.
       let old_size = bsize b in
       bindR (AppendData sz d zof z data (b\<lparr>bsize := 0\<rparr>)) (\<lambda>b.
         if zof \<and> bsize b < old_size then ZeroTrailingData d z (old_size - bsize b) b else Inr b))"

text \<open>
  The versions with a \<open>setter\<close>: it is given the cells of the view and returns them as it leaves sz
  them, with the number it says it wrote.  A view that leaves sz its block is a memory fault.
\<close>

type_synonym 'a setter = "'a cells \<Rightarrow> 'a cells \<times> nat"

definition AppendData_setter ::
    "nat \<Rightarrow> bool \<Rightarrow> bool \<Rightarrow> 'a \<Rightarrow> nat \<Rightarrow> 'a setter \<Rightarrow> 'a buffer \<Rightarrow> (nat \<times> 'a buffer) res" where
  "AppendData_setter sz d zof z max_elements setter b =
     bindR (dcheck d (IsConsistent b) ()) (\<lambda>_.
       let old_size = bsize b in
       bindR (SetSize sz d zof z (size_add old_size max_elements) b) (\<lambda>b.
       bindR (dcheck d (IsConsistent b) ()) (\<lambda>_.
         let cs = (case bdata b of None \<Rightarrow> [] | Some cs \<Rightarrow> cs) in
         if length cs < old_size + max_elements then Inl Bad_memory
         else
           let (view, written) = setter (take max_elements (drop old_size cs)) in
           bindR (write_cells (bdata b) old_size view) (\<lambda>p.
             if written \<le> max_elements
             then let b = b\<lparr>bdata := p, bsize := old_size + written\<rparr>
                  in bindR (dcheck d (IsConsistent b) ()) (\<lambda>_. Inr (written, b))
             else Inl Check_failed))))"

definition SetData_setter ::
    "nat \<Rightarrow> bool \<Rightarrow> bool \<Rightarrow> 'a \<Rightarrow> nat \<Rightarrow> 'a setter \<Rightarrow> 'a buffer \<Rightarrow> (nat \<times> 'a buffer) res" where
  "SetData_setter sz d zof z max_elements setter b =
     bindR (dcheck d (IsConsistent b) ()) (\<lambda>_.
       let old_size = bsize b in
       bindR (AppendData_setter sz d zof z max_elements setter (b\<lparr>bsize := 0\<rparr>)) (\<lambda>(written, b).
         if zof \<and> bsize b < old_size
         then bindR (ZeroTrailingData d z (old_size - bsize b) b) (\<lambda>b. Inr (written, b))
         else Inr (written, b)))"

section \<open>Reading\<close>

definition buffer_at :: "bool \<Rightarrow> nat \<Rightarrow> 'a buffer \<Rightarrow> 'a option res" where
  "buffer_at d index b =
     bindR (dcheck d (index < bsize b) ()) (\<lambda>_.
     bindR (dcheck d (IsConsistent b) ()) (\<lambda>_.
       case bdata b of None \<Rightarrow> Inl Bad_memory
       | Some cs \<Rightarrow> if index < length cs then Inr (cs ! index) else Inl Bad_memory))"

definition buffer_empty :: "bool \<Rightarrow> 'a buffer \<Rightarrow> bool res" where
  "buffer_empty d b = bindR (dcheck d (IsConsistent b) ()) (\<lambda>_. Inr (bsize b = 0))"

definition buffer_size :: "bool \<Rightarrow> 'a buffer \<Rightarrow> nat res" where
  "buffer_size d b = bindR (dcheck d (IsConsistent b) ()) (\<lambda>_. Inr (bsize b))"

definition buffer_capacity :: "bool \<Rightarrow> 'a buffer \<Rightarrow> nat res" where
  "buffer_capacity d b = bindR (dcheck d (IsConsistent b) ()) (\<lambda>_. Inr (bcap b))"

definition buffer_eq :: "bool \<Rightarrow> 'a buffer \<Rightarrow> 'a buffer \<Rightarrow> bool res" where
  "buffer_eq d b buf =
     bindR (dcheck d (IsConsistent b) ()) (\<lambda>_.
       if bsize b \<noteq> bsize buf then Inr False
       else Inr (take (bsize b) (case bdata b of None \<Rightarrow> [] | Some cs \<Rightarrow> cs) =
                 take (bsize b) (case bdata buf of None \<Rightarrow> [] | Some cs \<Rightarrow> cs)))"

end
