(* ===== verification/Buffer_Props.thy ===== *)
theory Buffer_Props
  imports Rtc_Buffer
begin

text \<open>
  \<open>BufferT\<close> implements a growing sequence, whatever the reallocations; a \<open>ZeroOnFree\<close> buffer never
  gives back memory that holds data.
\<close>

section \<open>Well-formed buffers\<close>

definition cells :: "'a buffer \<Rightarrow> 'a cells" where
  "cells b = (case bdata b of None \<Rightarrow> [] | Some cs \<Rightarrow> cs)"

definition contents :: "'a buffer \<Rightarrow> 'a cells" where
  "contents b = take (bsize b) (cells b)"

text \<open>
  The sizes for which no allocation is refused: growing by half from \<open>2\<^sup>62\<close> bytes at most, \<open>most sz\<close>
  elements, needs at most \<open>3 * 2\<^sup>61\<close>.
\<close>

definition most :: "nat \<Rightarrow> nat" where
  "most sz = 2 ^ 62 div sz"

lemma most_bytes: "n \<le> most sz \<Longrightarrow> sz * n \<le> 2 ^ 62"
  unfolding most_def by (rule order_trans [OF mult_le_mono2 times_div_less_eq_dividend])

lemma most_le: "n \<le> most sz \<Longrightarrow> n \<le> 2 ^ 62"
  unfolding most_def by (rule order_trans [OF _ div_le_dividend])

definition buf_ok :: "nat \<Rightarrow> 'a buffer \<Rightarrow> bool" where
  "buf_ok sz b \<longleftrightarrow> bsize b \<le> bcap b \<and> sz * bcap b \<le> 3 * 2 ^ 61 \<and> length (cells b) = bcap b \<and>
     (bdata b = None \<longleftrightarrow> bcap b = 0)"

text \<open>With \<open>ZeroOnFree\<close>: unused cells hold no data, and what was freed was zeroed.\<close>

definition spare_clean :: "'a \<Rightarrow> 'a buffer \<Rightarrow> bool" where
  "spare_clean z b \<longleftrightarrow> set (drop (bsize b) (cells b)) \<subseteq> {None, Some z}"

definition freed_clean :: "'a \<Rightarrow> 'a buffer \<Rightarrow> bool" where
  "freed_clean z b \<longleftrightarrow> (\<forall>cs \<in> set (released b). set cs \<subseteq> {Some z})"

definition clean :: "'a \<Rightarrow> 'a buffer \<Rightarrow> bool" where
  "clean z b \<longleftrightarrow> spare_clean z b \<and> freed_clean z b"

lemmas clean_defs = clean_def spare_clean_def freed_clean_def

lemma buf_ok_consistent: "buf_ok sz b \<Longrightarrow> IsConsistent b"
  by (auto simp: buf_ok_def IsConsistent_def)

lemma length_contents: "buf_ok sz b \<Longrightarrow> length (contents b) = bsize b"
  by (simp add: buf_ok_def contents_def)

lemma write_cells_in:
  "off + length xs \<le> length cs \<Longrightarrow>
     write_cells (Some cs) off xs = Inr (Some (take off cs @ xs @ drop (off + length xs) cs))"
  by (simp add: write_cells_def)

lemma write_nothing [simp]: "write_cells p off [] = Inr p"
  by (simp add: write_cells_def)

lemma buf_ok_cases:
  assumes "buf_ok sz b"
  obtains "bdata b = None" "bcap b = 0" "bsize b = 0" "cells b = []"
    | cs where "bdata b = Some cs" "cells b = cs" "length cs = bcap b" "0 < bcap b"
  using assms by (cases "bdata b") (auto simp: buf_ok_def cells_def)

lemma MaybeZero_ok:
  assumes "buf_ok sz b"
  shows "MaybeZeroCompleteBuffer zof z b =
    Inr (if zof then b\<lparr>bdata := map_option (\<lambda>cs. replicate (length cs) (Some z)) (bdata b)\<rparr> else b)"
  using assms
proof (cases rule: buf_ok_cases)
  case (2 cs)
  then show ?thesis by (simp add: MaybeZeroCompleteBuffer_def write_cells_in)
qed (simp add: MaybeZeroCompleteBuffer_def)

lemma release_zeroed:
  "cs \<in> set (release (map_option (\<lambda>cs. replicate (length cs) (Some z)) p)) \<Longrightarrow> set cs \<subseteq> {Some z}"
  by (cases p) (auto simp: release_def)

section \<open>Growing\<close>

text \<open>What making room for \<open>c\<close> elements does.\<close>

definition made_room :: "nat \<Rightarrow> bool \<Rightarrow> 'a \<Rightarrow> nat \<Rightarrow> 'a buffer \<Rightarrow> 'a buffer \<Rightarrow> bool" where
  "made_room sz zof z c b b' \<longleftrightarrow> buf_ok sz b' \<and> bsize b' = bsize b \<and> contents b' = contents b \<and> c \<le> bcap b' \<and>
     bcap b \<le> bcap b' \<and> (zof \<and> freed_clean z b \<longrightarrow> freed_clean z b') \<and>
     (if c \<le> bcap b then b' = b else spare_clean z b')"

lemma made_room_clean: "made_room sz zof z c b b' \<Longrightarrow> zof \<Longrightarrow> clean z b \<Longrightarrow> clean z b'"
  by (auto simp: made_room_def clean_def split: if_splits)

lemma grow_capacity:
  assumes "c \<le> most sz" "cap < c"
  shows "sz * max c (size_add cap (cap div 2)) \<le> 3 * 2 ^ 61 \<and> c \<le> max c (size_add cap (cap div 2))"
proof -
  have "size_add cap (cap div 2) \<le> cap + cap div 2" by (simp add: size_add_def)
  then have "2 * max c (size_add cap (cap div 2)) \<le> 3 * c" using assms(2) by simp
  then have "sz * (2 * max c (size_add cap (cap div 2))) \<le> sz * (3 * c)" by (rule mult_le_mono2)
  then have "2 * (sz * max c (size_add cap (cap div 2))) \<le> 3 * (sz * c)" by (simp only: ac_simps)
  also have "\<dots> \<le> 3 * 2 ^ 62" using most_bytes [OF assms(1)] by (rule mult_le_mono2)
  finally show ?thesis by simp
qed

lemma EnsureCapacity_room:
  assumes "buf_ok sz b" "if extra then c \<le> most sz else sz * c \<le> 3 * 2 ^ 61"
  shows "resT (made_room sz zof z c b) (EnsureCapacityWithHeadroom sz d zof z c extra b)"
proof (cases "c \<le> bcap b")
  case True
  with assms(1) show ?thesis
    by (simp add: EnsureCapacityWithHeadroom_def buf_ok_consistent made_room_def)
next
  case False
  define new where "new = (if extra then max c (size_add (bcap b) (bcap b div 2)) else c)"
  have new: "c \<le> new" "sz * new \<le> 3 * 2 ^ 61"
    using grow_capacity [of c sz "bcap b"] assms(2) False by (auto simp: new_def split: if_splits)
  have alloc: "new_array sz new = Inr (replicate new None)"
    using new(2) by (simp add: new_array_def PTRDIFF_MAX_def)
  define p where "p = contents b @ replicate (new - bsize b) None"
  have sz: "bsize b \<le> bcap b" using assms(1) by (simp add: buf_ok_def)
  have len: "length p = new" using sz new(1) False by (simp add: p_def length_contents [OF assms(1)])
  have copied: "(case bdata b of None \<Rightarrow> Inr (Some (replicate new None))
      | Some cs \<Rightarrow> write_cells (Some (replicate new None)) 0 (take (bsize b) cs)) = Inr (Some p)"
    using assms(1)
  proof (cases rule: buf_ok_cases)
    case (2 cs)
    then show ?thesis
      using sz new(1) False by (simp add: p_def contents_def write_cells_in)
  qed (simp add: p_def contents_def)
  define m where "m = (if zof then b\<lparr>bdata := map_option (\<lambda>cs. replicate (length cs) (Some z)) (bdata b)\<rparr> else b)"
  define b' where "b' = m\<lparr>bdata := Some p, bcap := new, released := released m @ release (bdata m)\<rparr>"
  have m: "bsize m = bsize b" "bcap m = bcap b" "released m = released b" by (simp_all add: m_def)
  have cells': "cells b' = p" "bsize b' = bsize b" "bcap b' = new" by (simp_all add: b'_def m cells_def)
  have buf_ok': "buf_ok sz b'"
    using new False sz len cells' by (auto simp: buf_ok_def b'_def)
  have con: "contents b' = contents b"
    using length_contents [OF assms(1)] by (simp add: contents_def [of b'] cells' p_def)
  have spare: "spare_clean z b'"
    by (auto simp: spare_clean_def cells' p_def length_contents [OF assms(1)])
  have "freed_clean z b'" if "zof" "freed_clean z b"
  proof -
    have "released b' = released b @ release (map_option (\<lambda>cs. replicate (length cs) (Some z)) (bdata b))"
      using that(1) by (simp add: b'_def m_def)
    with that(2) show ?thesis
      using release_zeroed [of _ z "bdata b"] by (auto simp: freed_clean_def)
  qed
  with buf_ok' con cells' new False spare have "made_room sz zof z c b b'"
    by (auto simp: made_room_def)
  moreover have "EnsureCapacityWithHeadroom sz d zof z c extra b = Inr b'"
    using False buf_ok_consistent [OF assms(1)] buf_ok_consistent [OF buf_ok']
    by (simp add: EnsureCapacityWithHeadroom_def Let_def alloc copied MaybeZero_ok [OF assms(1)]
        flip: new_def m_def b'_def)
  ultimately show ?thesis by simp
qed

lemma ZeroTrailing_ok:
  assumes "buf_ok sz b" "n \<le> bcap b - bsize b"
  shows "ZeroTrailingData d z n b = Inr (b\<lparr>bdata := map_option
      (\<lambda>cs. take (bsize b) cs @ replicate n (Some z) @ drop (bsize b + n) cs) (bdata b)\<rparr>)"
  using assms(1)
proof (cases rule: buf_ok_cases)
  case (2 cs)
  moreover have "bsize b + n \<le> bcap b" using assms by (auto simp: buf_ok_def)
  ultimately show ?thesis
    using assms by (cases "n = 0") (simp_all add: ZeroTrailingData_def buf_ok_consistent write_cells_in)
qed (use assms in \<open>simp add: ZeroTrailingData_def buf_ok_consistent\<close>)

section \<open>Operations\<close>

text \<open>An operation that leaves the buffer well-formed, clean, and with contents that satisfy \<open>P\<close>.\<close>

definition leaves :: "nat \<Rightarrow> bool \<Rightarrow> 'a \<Rightarrow> 'a buffer \<Rightarrow> ('a cells \<Rightarrow> bool) \<Rightarrow> 'a buffer \<Rightarrow> bool" where
  "leaves sz zof z b P b' \<longleftrightarrow> buf_ok sz b' \<and> P (contents b') \<and> (zof \<and> clean z b \<longrightarrow> clean z b')"

lemma append_cells:
  assumes "buf_ok sz b" "bsize b + length xs \<le> bcap b"
  defines "b' \<equiv> b\<lparr>bdata := map_option (\<lambda>cs. take (bsize b) cs @ xs @ drop (bsize b + length xs) cs) (bdata b),
    bsize := bsize b + length xs\<rparr>"
  shows "write_cells (bdata b) (bsize b) xs = Inr (bdata b')" and "buf_ok sz b'" and "contents b' = contents b @ xs"
    and "drop (bsize b + length xs) (cells b') = drop (bsize b + length xs) (cells b)"
proof -
  have none: "bdata b = None \<Longrightarrow> xs = []" using assms(1,2) by (auto simp: buf_ok_def)
  show "write_cells (bdata b) (bsize b) xs = Inr (bdata b')"
    using assms(1)
  proof (cases rule: buf_ok_cases)
    case (2 cs)
    then show ?thesis using assms(2) by (cases "xs = []") (simp_all add: b'_def write_cells_in)
  qed (use none in \<open>simp add: b'_def\<close>)
  have c: "cells b' = take (bsize b) (cells b) @ xs @ drop (bsize b + length xs) (cells b)"
    using assms(1,2) by (cases "bdata b") (auto simp: cells_def b'_def buf_ok_def)
  have s: "bsize b' = bsize b + length xs" by (simp add: b'_def)
  show "buf_ok sz b'" using assms(1,2) c by (auto simp: buf_ok_def b'_def)
  show "contents b' = contents b @ xs"
    using assms(1,2) s c by (auto simp: contents_def buf_ok_def)
  show "drop (bsize b + length xs) (cells b') = drop (bsize b + length xs) (cells b)"
    using assms(1,2) c by (auto simp: buf_ok_def)
qed

text \<open>What appending does, down to the cells when the block is kept.\<close>

definition appended :: "nat \<Rightarrow> bool \<Rightarrow> 'a \<Rightarrow> 'a cells \<Rightarrow> 'a buffer \<Rightarrow> 'a buffer \<Rightarrow> bool" where
  "appended sz zof z xs b b' \<longleftrightarrow> buf_ok sz b' \<and> contents b' = contents b @ xs \<and>
     bsize b' = bsize b + length xs \<and> (zof \<and> freed_clean z b \<longrightarrow> freed_clean z b') \<and>
     bcap b \<le> bcap b' \<and>
     (drop (bsize b + length xs) (cells b') = drop (bsize b + length xs) (cells b) \<or> spare_clean z b')"

lemma appended_clean: "appended sz zof z xs b b' \<Longrightarrow> zof \<Longrightarrow> clean z b \<Longrightarrow> clean z b'"
  using set_drop_subset_set_drop [of "bsize b" "bsize b + length xs" "cells b"]
  by (auto simp: appended_def clean_defs)

lemma appended_ok: "appended sz zof z xs b b' \<Longrightarrow> buf_ok sz b'"
  by (simp add: appended_def)

lemma AppendData_cells:
  assumes "buf_ok sz b" "bsize b + length xs \<le> most sz"
  shows "resT (appended sz zof z xs b) (AppendData sz d zof z xs b)"
proof -
  have n: "size_add (bsize b) (length xs) = bsize b + length xs"
    using most_le [OF assms(2)] by (simp add: size_add_def)
  have "resT (made_room sz zof z (bsize b + length xs) b)
      (EnsureCapacityWithHeadroom sz d zof z (bsize b + length xs) True b)"
    by (rule EnsureCapacity_room) (use assms in simp_all)
  then obtain b1 where b1: "EnsureCapacityWithHeadroom sz d zof z (bsize b + length xs) True b = Inr b1"
      and r: "made_room sz zof z (bsize b + length xs) b b1"
    by (auto simp: resT_iff)
  define b2 where "b2 = b1\<lparr>bdata := map_option (\<lambda>cs. take (bsize b1) cs @ xs @ drop (bsize b1 + length xs) cs) (bdata b1),
    bsize := bsize b1 + length xs\<rparr>"
  have w1: "buf_ok sz b1" "bsize b1 + length xs \<le> bcap b1" using r by (simp_all add: made_room_def)
  note a = append_cells [OF this, folded b2_def]
  have s2: "bsize b2 = bsize b + length xs" "bcap b2 = bcap b1" "released b2 = released b1"
    using r by (simp_all add: b2_def made_room_def)
  have "drop (bsize b2) (cells b2) = drop (bsize b2) (cells b1)"
    using a(4) s2 r by (simp add: made_room_def)
  moreover have "spare_clean z b2" if "\<not> bsize b + length xs \<le> bcap b"
  proof -
    have "set (drop (bsize b) (cells b1)) \<subseteq> {None, Some z}"
      using r that by (auto simp: made_room_def spare_clean_def)
    then show ?thesis
      using set_drop_subset_set_drop [of "bsize b" "bsize b + length xs" "cells b1"] a(4) s2(1) r
      by (simp add: spare_clean_def made_room_def)
  qed
  ultimately have "appended sz zof z xs b b2"
    using r a(2,3) s2 by (auto simp: appended_def made_room_def freed_clean_def split: if_splits)
  moreover have "write_cells (bdata b1) (bsize b) xs = Inr (bdata b2)"
      "b1\<lparr>bdata := bdata b2, bsize := bsize b + length xs\<rparr> = b2"
    using a(1) r by (simp_all add: made_room_def b2_def)
  then have "AppendData sz d zof z xs b = Inr b2"
    using buf_ok_consistent [OF assms(1)] buf_ok_consistent [OF a(2)] r
    by (simp add: AppendData_def n b1 made_room_def)
  ultimately show ?thesis by simp
qed

lemma AppendData_spec:
  assumes "buf_ok sz b" "bsize b + length xs \<le> most sz"
  shows "resT (leaves sz zof z b (\<lambda>cs. cs = contents b @ xs)) (AppendData sz d zof z xs b)"
  using AppendData_cells [OF assms, of zof z d] appended_clean [of sz zof z xs b]
  by (auto simp: resT_iff leaves_def appended_def)

lemma shrink_ok:
  assumes "buf_ok sz b" "n \<le> bsize b"
  shows "buf_ok sz (b\<lparr>bsize := n\<rparr>)" "contents (b\<lparr>bsize := n\<rparr>) = take n (contents b)" "cells (b\<lparr>bsize := n\<rparr>) = cells b"
  using assms by (auto simp: buf_ok_def contents_def cells_def)

text \<open>Zeroing the cells that a shorter size frees makes the buffer clean again.\<close>

lemma zero_freed:
  assumes "buf_ok sz b" "bsize b \<le> old" "old \<le> bcap b"
  shows "resT (\<lambda>b'. buf_ok sz b' \<and> contents b' = contents b \<and> (clean z (b\<lparr>bsize := old\<rparr>) \<longrightarrow> clean z b'))
    (ZeroTrailingData d z (old - bsize b) b)"
proof -
  let ?n = "old - bsize b"
  define b' where "b' = b\<lparr>bdata := map_option
      (\<lambda>cs. take (bsize b) cs @ replicate ?n (Some z) @ drop (bsize b + ?n) cs) (bdata b)\<rparr>"
  have "?n \<le> bcap b - bsize b" using assms(3) by simp
  then have z: "ZeroTrailingData d z ?n b = Inr b'"
    using ZeroTrailing_ok [OF assms(1)] by (simp add: b'_def)
  have c: "cells b' = take (bsize b) (cells b) @ replicate ?n (Some z) @ drop old (cells b)"
    using assms(1-3) by (cases "bdata b") (auto simp: cells_def b'_def buf_ok_def)
  have s: "bsize b \<le> length (cells b)" "length (cells b) = bcap b" using assms(1) by (auto simp: buf_ok_def)
  have "buf_ok sz b'" using assms c by (auto simp: buf_ok_def b'_def)
  moreover have "contents b' = contents b"
    using s by (simp add: contents_def c) (simp add: b'_def)
  moreover have "drop (bsize b') (cells b') = replicate ?n (Some z) @ drop old (cells b)" "released b' = released b"
    using s by (simp add: c) (simp_all add: b'_def)
  then have "clean z b'" if "clean z (b\<lparr>bsize := old\<rparr>)" using that by (auto simp: clean_defs cells_def)
  ultimately show ?thesis by (simp add: z)
qed

lemma SetSize_spec:
  assumes "buf_ok sz b" "n \<le> most sz"
  shows "resT (leaves sz zof z b (\<lambda>cs. length cs = n \<and> take (bsize b) cs = take n (contents b)))
    (SetSize sz d zof z n b)"
proof -
  have "resT (made_room sz zof z n b) (EnsureCapacityWithHeadroom sz d zof z n True b)"
    by (rule EnsureCapacity_room) (use assms in simp_all)
  then obtain b1 where b1: "EnsureCapacityWithHeadroom sz d zof z n True b = Inr b1"
      and r: "made_room sz zof z n b b1"
    by (auto simp: resT_iff)
  let ?b2 = "b1\<lparr>bsize := n\<rparr>"
  have b2: "buf_ok sz ?b2" "cells ?b2 = cells b1" using r by (auto simp: made_room_def buf_ok_def cells_def)
  have len: "length (contents ?b2) = n" by (simp add: length_contents [OF b2(1)])
  have con: "take (bsize b) (contents ?b2) = take n (contents b)"
  proof -
    have "take (bsize b) (contents ?b2) = take n (take (bsize b) (cells b1))"
      using b2(2) by (simp add: contents_def min.commute)
    also have "take (bsize b) (cells b1) = contents b"
      using r by (auto simp: made_room_def contents_def)
    finally show ?thesis .
  qed
  show ?thesis
  proof (cases "zof \<and> n < bsize b")
    case True
    then have same: "b1 = b" using r assms(1) by (auto simp: made_room_def buf_ok_def)
    have "resT (\<lambda>b'. buf_ok sz b' \<and> contents b' = contents ?b2 \<and> (clean z b \<longrightarrow> clean z b'))
        (ZeroTrailingData d z (bsize b - n) ?b2)"
      using zero_freed [OF b2(1), of "bsize b" z d] True same assms(1) by (auto simp: buf_ok_def)
    with len con True b1 show ?thesis
      by (auto simp: SetSize_def resT_iff leaves_def)
  next
    case False
    have "clean z ?b2" if "zof" "clean z b"
    proof -
      have "set (drop n (cells b1)) \<subseteq> set (drop (bsize b) (cells b1))"
        using that(1) False by (simp add: set_drop_subset_set_drop)
      with made_room_clean [OF r that] r show ?thesis by (auto simp: clean_defs made_room_def cells_def)
    qed
    with False len con b2 r show ?thesis
      by (auto simp: SetSize_def b1 leaves_def made_room_def)
  qed
qed

text \<open>The common tail of both versions of \<open>SetData\<close>: appending to size 0, then zeroing what was freed.\<close>

lemma set_tail:
  assumes "buf_ok sz b" "appended sz zof z xs (b\<lparr>bsize := 0\<rparr>) b1"
  shows "resT (leaves sz zof z b (\<lambda>cs. cs = xs))
    (if zof \<and> bsize b1 < bsize b then ZeroTrailingData d z (bsize b - bsize b1) b1 else Inr b1)"
proof -
  let ?b0 = "b\<lparr>bsize := 0\<rparr>"
  have b0: "buf_ok sz ?b0" "contents ?b0 = []" "cells ?b0 = cells b" "freed_clean z ?b0 = freed_clean z b"
    using shrink_ok [OF assms(1), of 0] by (simp_all add: freed_clean_def)
  have ok1: "buf_ok sz b1" "contents b1 = xs" "bsize b1 = length xs" "bcap b \<le> bcap b1" "bsize b \<le> bcap b"
    using assms b0 by (auto simp: appended_def buf_ok_def)
  have tail: "drop (length xs) (cells b1) = drop (length xs) (cells b) \<or> spare_clean z b1"
    using assms(2) b0(3) by (simp add: appended_def)
  have freed: "zof \<Longrightarrow> clean z b \<Longrightarrow> freed_clean z b1"
    using assms(2) b0(4) by (simp add: appended_def clean_def)
  show ?thesis
  proof (cases "zof \<and> length xs < bsize b")
    case True
    have "spare_clean z (b1\<lparr>bsize := bsize b\<rparr>)" if "clean z b"
      using tail
    proof
      assume "drop (length xs) (cells b1) = drop (length xs) (cells b)"
      then have "drop (bsize b) (cells b1) = drop (bsize b) (cells b)"
        using True by (metis drop_drop le_add_diff_inverse2 less_imp_le)
      with that show ?thesis by (simp add: clean_defs cells_def)
    next
      assume "spare_clean z b1"
      moreover have "set (drop (bsize b) (cells b1)) \<subseteq> set (drop (length xs) (cells b1))"
        using True by (simp add: set_drop_subset_set_drop)
      ultimately show ?thesis using ok1(3) by (auto simp: spare_clean_def cells_def)
    qed
    then have "clean z (b1\<lparr>bsize := bsize b\<rparr>)" if "clean z b"
      using that True freed by (simp add: clean_def freed_clean_def)
    moreover have "resT (\<lambda>b'. buf_ok sz b' \<and> contents b' = contents b1 \<and> (clean z (b1\<lparr>bsize := bsize b\<rparr>) \<longrightarrow> clean z b'))
        (ZeroTrailingData d z (bsize b - bsize b1) b1)"
      by (rule zero_freed [OF ok1(1)]) (use True ok1 in simp_all)
    ultimately show ?thesis
      using True ok1 by (auto simp: resT_iff leaves_def)
  next
    case False
    have "clean z b1" if "zof" "clean z b"
    proof -
      have "set (drop (length xs) (cells b)) \<subseteq> set (drop (bsize b) (cells b))"
        using that(1) False by (simp add: set_drop_subset_set_drop)
      with that tail ok1(3) freed show ?thesis by (auto simp: clean_def spare_clean_def)
    qed
    then have "leaves sz zof z b (\<lambda>cs. cs = xs) b1" using ok1 by (simp add: leaves_def)
    moreover have "(zof \<and> bsize b1 < bsize b) = False" using False ok1(3) by simp
    ultimately show ?thesis by (simp only: if_False resT_Inr)
  qed
qed

lemma SetData_spec:
  assumes "buf_ok sz b" "length xs \<le> most sz"
  shows "resT (leaves sz zof z b (\<lambda>cs. cs = xs)) (SetData sz d zof z xs b)"
proof -
  let ?b0 = "b\<lparr>bsize := 0\<rparr>"
  have "resT (appended sz zof z xs ?b0) (AppendData sz d zof z xs ?b0)"
    by (rule AppendData_cells [OF shrink_ok(1) [OF assms(1)]]) (use assms(2) in simp_all)
  then obtain b1 where b1: "AppendData sz d zof z xs ?b0 = Inr b1" and r: "appended sz zof z xs ?b0 b1"
    by (auto simp: resT_iff)
  with set_tail [OF assms(1) r, of d] buf_ok_consistent [OF assms(1)] show ?thesis
    by (simp add: SetData_def Let_def)
qed

text \<open>
  A setter that keeps to its contract: it returns the view it was given, written at the front,
  with the number of elements it wrote.
\<close>

definition good_setter :: "nat \<Rightarrow> 'a setter \<Rightarrow> bool" where
  "good_setter n setter \<longleftrightarrow> (\<forall>v. length v = n \<longrightarrow>
     length (fst (setter v)) = n \<and> snd (setter v) \<le> n \<and>
     drop (snd (setter v)) (fst (setter v)) = drop (snd (setter v)) v)"

lemma drop_past_prefix: "xs = a @ v @ t \<Longrightarrow> length a = k \<Longrightarrow> w \<le> length v \<Longrightarrow> drop (k + w) xs = drop w v @ t"
  by simp

lemma drop_past_written:
  assumes "take m xs = p @ v" "drop m xs = drop m ys" "take k ys = p" "length p = k" "length v = n" "m = k + n"
    "w \<le> n" "length (take n (drop k ys)) = n" "drop w v = drop w (take n (drop k ys))"
  shows "drop (k + w) xs = drop (k + w) ys"
proof -
  have x: "xs = p @ v @ drop (k + n) ys"
    using assms(1,2,6) append_take_drop_id [of m xs] by simp
  have y: "ys = p @ take n (drop k ys) @ drop (k + n) ys"
    using assms(3) by (metis append_take_drop_id drop_drop add.commute)
  have "drop (k + w) xs = drop w v @ drop (k + n) ys"
    by (rule drop_past_prefix [OF x assms(4)]) (use assms(5,7) in simp)
  moreover have "drop (k + w) ys = drop w (take n (drop k ys)) @ drop (k + n) ys"
    by (rule drop_past_prefix [OF y assms(4)]) (use assms(7,8) in simp)
  ultimately show ?thesis using assms(9) by simp
qed

lemma AppendData_setter_cells:
  assumes "buf_ok sz b" "bsize b + n \<le> most sz" "good_setter n setter"
  shows "resT (\<lambda>(written, b'). \<exists>v. length v = n \<and> written = snd (setter v) \<and>
      appended sz zof z (take written (fst (setter v))) b b') (AppendData_setter sz d zof z n setter b)"
proof -
  have sz: "size_add (bsize b) n = bsize b + n"
    using most_le [OF assms(2)] by (simp add: size_add_def)
  have "resT (made_room sz zof z (bsize b + n) b) (EnsureCapacityWithHeadroom sz d zof z (bsize b + n) True b)"
    by (rule EnsureCapacity_room) (use assms in simp_all)
  then obtain b1 where b1: "EnsureCapacityWithHeadroom sz d zof z (bsize b + n) True b = Inr b1"
      and r: "made_room sz zof z (bsize b + n) b b1"
    by (auto simp: resT_iff)
  have ok1: "buf_ok sz b1" "bsize b1 = bsize b" "contents b1 = contents b" "bsize b + n \<le> bcap b1" "bcap b \<le> bcap b1"
    using r by (simp_all add: made_room_def)
  let ?b2 = "b1\<lparr>bsize := bsize b + n\<rparr>"
  have ok2: "buf_ok sz ?b2" "cells ?b2 = cells b1" using ok1 by (auto simp: buf_ok_def cells_def)
  have set_size: "SetSize sz d zof z (size_add (bsize b) n) b = Inr ?b2"
    by (simp add: SetSize_def sz b1)
  let ?v = "take n (drop (bsize b) (cells b1))"
  obtain v' w where sv: "setter ?v = (v', w)" by fastforce
  have len1: "length (cells b1) = bcap b1" using ok1(1) by (simp add: buf_ok_def)
  have lv: "length ?v = n" using len1 ok1(4) by simp
  then have g: "length v' = n" "w \<le> n" "drop w v' = drop w ?v"
    using spec [OF assms(3) [unfolded good_setter_def], of ?v] sv by simp_all
  define b3 where "b3 = b1\<lparr>bdata := map_option (\<lambda>cs. take (bsize b1) cs @ v' @ drop (bsize b1 + length v') cs) (bdata b1),
    bsize := bsize b1 + length v'\<rparr>"
  have room: "bsize b1 + length v' \<le> bcap b1" using ok1 g by simp
  note a = append_cells [OF ok1(1) room, folded b3_def]
  define b4 where "b4 = b3\<lparr>bsize := bsize b + w\<rparr>"
  have s3: "bsize b3 = bsize b + n" "bcap b3 = bcap b1" "released b3 = released b1"
    using ok1 g by (simp_all add: b3_def)
  have b4: "buf_ok sz b4" "contents b4 = contents b @ take w v'" "cells b4 = cells b3"
    using shrink_ok [OF a(2), of "bsize b + w"] s3 g a(3) ok1(3) length_contents [OF assms(1)]
    by (simp_all add: b4_def)
  have c3: "drop (bsize b + w) (cells b3) = drop (bsize b + w) (cells b1)"
  proof (rule drop_past_written)
    show "take (bsize b3) (cells b3) = contents b @ v'" using a(3) ok1(3) by (simp add: contents_def)
    show "drop (bsize b3) (cells b3) = drop (bsize b3) (cells b1)" using a(4) s3 ok1 g by simp
    show "take (bsize b) (cells b1) = contents b" using ok1(2,3) by (simp add: contents_def)
  qed (use length_contents [OF assms(1)] g s3 lv in simp_all)
  have "appended sz zof z (take w v') b b4"
    unfolding appended_def
  proof (intro conjI)
    show "drop (bsize b + length (take w v')) (cells b4) = drop (bsize b + length (take w v')) (cells b) \<or> spare_clean z b4"
    proof (cases "bsize b + n \<le> bcap b")
      case True
      with r show ?thesis using c3 b4(3) g by (simp add: made_room_def)
    next
      case False
      then have "set (drop (bsize b) (cells b1)) \<subseteq> {None, Some z}"
        using r by (auto simp: made_room_def spare_clean_def)
      then show ?thesis
        using c3 b4(3) set_drop_subset_set_drop [of "bsize b" "bsize b + w" "cells b1"]
        by (auto simp: spare_clean_def b4_def)
    qed
  qed (use b4 g r s3 in \<open>simp_all add: b4_def made_room_def freed_clean_def\<close>)
  moreover have "write_cells (bdata b1) (bsize b) v' = Inr (bdata b3)" using a(1) ok1(2) by simp
  moreover have "?b2\<lparr>bdata := bdata b3, bsize := bsize b + w\<rparr> = b4" by (simp add: b4_def b3_def)
  ultimately have "AppendData_setter sz d zof z n setter b = Inr (w, b4)" and
      app: "appended sz zof z (take w v') b b4"
    using buf_ok_consistent [OF assms(1)] buf_ok_consistent [OF ok2(1)] buf_ok_consistent [OF b4(1)]
      len1 ok1(4) g(2) sv ok2(2)
    by (simp_all add: AppendData_setter_def set_size cells_def [symmetric] Let_def)
  with lv sv show ?thesis by (auto intro!: exI [of _ ?v])
qed

lemma SetData_setter_spec:
  assumes "buf_ok sz b" "n \<le> most sz" "good_setter n setter"
  shows "resT (\<lambda>(written, b'). leaves sz zof z b (\<lambda>cs. length cs = written) b') (SetData_setter sz d zof z n setter b)"
proof -
  let ?b0 = "b\<lparr>bsize := 0\<rparr>"
  have "resT (\<lambda>(written, b'). \<exists>v. length v = n \<and> written = snd (setter v) \<and>
      appended sz zof z (take written (fst (setter v))) ?b0 b') (AppendData_setter sz d zof z n setter ?b0)"
    by (rule AppendData_setter_cells [OF shrink_ok(1) [OF assms(1)]]) (use assms in simp_all)
  then obtain v b1 where b1: "AppendData_setter sz d zof z n setter ?b0 = Inr (snd (setter v), b1)" "length v = n"
      and r: "appended sz zof z (take (snd (setter v)) (fst (setter v))) ?b0 b1"
    by (auto simp: resT_iff)
  have len: "length (take (snd (setter v)) (fst (setter v))) = snd (setter v)"
    using assms(3) b1(2) by (simp add: good_setter_def)
  have "resT (leaves sz zof z b (\<lambda>cs. cs = take (snd (setter v)) (fst (setter v))))
      (if zof \<and> bsize b1 < bsize b then ZeroTrailingData d z (bsize b - bsize b1) b1 else Inr b1)"
    by (rule set_tail [OF assms(1) r])
  with b1 len buf_ok_consistent [OF assms(1)] show ?thesis
    by (auto simp: SetData_setter_def Let_def leaves_def resT_iff split: if_splits)
qed

lemma Clear_spec:
  assumes "buf_ok sz b"
  shows "resT (\<lambda>b'. leaves sz zof z b (\<lambda>cs. cs = []) b' \<and> bcap b' = bcap b) (Clear d zof z b)"
proof -
  define b' where "b' = (if zof then b\<lparr>bdata := map_option (\<lambda>cs. replicate (length cs) (Some z)) (bdata b)\<rparr> else b)\<lparr>bsize := 0\<rparr>"
  have ok: "buf_ok sz b'" "contents b' = []" "bcap b' = bcap b"
    using assms by (cases "bdata b"; simp add: buf_ok_def b'_def contents_def cells_def)+
  moreover have "clean z b'" if "zof" "clean z b"
    using that by (cases "bdata b") (auto simp: clean_defs b'_def cells_def)
  ultimately show ?thesis
    using buf_ok_consistent [OF ok(1)]
    by (simp add: Clear_def MaybeZero_ok [OF assms] leaves_def flip: b'_def)
qed

lemma EnsureCapacity_spec:
  assumes "buf_ok sz b" "sz * n \<le> 3 * 2 ^ 61"
  shows "resT (\<lambda>b'. leaves sz zof z b (\<lambda>cs. cs = contents b) b' \<and> n \<le> bcap b' \<and> bcap b \<le> bcap b') (EnsureCapacity sz d zof z n b)"
  using EnsureCapacity_room [of sz b False n zof z d] assms made_room_clean [of sz zof z n b]
  by (auto simp: EnsureCapacity_def resT_iff leaves_def made_room_def)

lemma release_ok:
  assumes "buf_ok sz b" "MaybeZeroCompleteBuffer True z b = Inr b'" "freed_clean z b"
  shows "\<forall>cs \<in> set (released b' @ release (bdata b')). set cs \<subseteq> {Some z}"
proof
  fix cs
  assume "cs \<in> set (released b' @ release (bdata b'))"
  then have "cs \<in> set (released b) \<or> cs \<in> set (release (map_option (\<lambda>cs. replicate (length cs) (Some z)) (bdata b)))"
    using assms(1,2) by (auto simp: MaybeZero_ok)
  then show "set cs \<subseteq> {Some z}"
    using assms(3) release_zeroed [of cs z "bdata b"] by (auto simp: freed_clean_def)
qed

lemma BufferT_move_assign_spec:
  assumes "buf_ok sz b" "buf_ok sz buf" "BufferT_move_assign d zof z buf b = Inr (b', buf')"
  shows "buf_ok sz b' \<and> contents b' = contents buf \<and> bdata buf' = None \<and> released buf' = released buf \<and>
    (zof \<and> clean z b \<and> clean z buf \<longrightarrow> clean z b')"
proof -
  obtain b1 where b1: "MaybeZeroCompleteBuffer zof z b = Inr b1"
    using MaybeZero_ok [OF assms(1)] by auto
  have b': "b' = b1\<lparr>bsize := bsize buf, bcap := bcap buf, bdata := bdata buf, released := released b1 @ release (bdata b1)\<rparr>"
      and "bdata buf' = None" "released buf' = released buf"
    using assms(3) buf_ok_consistent [OF assms(2)]
    by (auto simp: BufferT_move_assign_def b1 OnMovedFrom_def Let_def)
  have "cells b' = cells buf" by (simp add: b' cells_def)
  moreover have "freed_clean z b'" if "zof" "clean z b"
    using release_ok [OF assms(1), of z b1] b1 that by (auto simp: b' clean_def freed_clean_def)
  ultimately show ?thesis
    using assms(2) \<open>bdata buf' = None\<close> \<open>released buf' = released buf\<close>
    by (simp add: buf_ok_def contents_def clean_def spare_clean_def b')
qed

section \<open>The buffer as a growing sequence\<close>

interpretation buffer: growing_sequence "AppendData sz d zof z" contents "buf_ok sz" "most sz" for sz d zof z
proof
  fix b :: "'a buffer" and xs :: "'a cells"
  assume "buf_ok sz b" "length (contents b) + length xs \<le> most sz"
  then show "resT (\<lambda>b'. buf_ok sz b' \<and> contents b' = contents b @ xs) (AppendData sz d zof z xs b)"
    using AppendData_spec [of sz b xs zof z d] by (simp add: length_contents resT_iff leaves_def) blast
qed

text \<open>
  C22. A well-formed buffer is a sequence: up to \<open>2\<^sup>62\<close> bytes every operation returns, in builds
  with and without checks, and appending adds at the end, \<open>SetData\<close> replaces, \<open>SetSize\<close> keeps the
  common part, \<open>EnsureCapacity\<close> keeps the elements and reaches the capacity, \<open>Clear\<close> empties the
  buffer without giving up capacity; any number of appends to a new buffer concatenates.
\<close>

theorem buffer_is_sequence:
  fixes b :: "'a buffer"
  assumes "buf_ok sz b" "bsize b + length xs \<le> most sz" "n \<le> most sz" "length (concat xss) \<le> most sz"
  shows "resT (\<lambda>b'. buf_ok sz b' \<and> contents b' = contents b @ xs) (AppendData sz d zof z xs b) \<and>
    resT (\<lambda>b'. buf_ok sz b' \<and> contents b' = xs) (SetData sz d zof z xs b) \<and>
    resT (\<lambda>b'. buf_ok sz b' \<and> length (contents b') = n \<and> take (bsize b) (contents b') = take n (contents b))
      (SetSize sz d zof z n b) \<and>
    resT (\<lambda>b'. buf_ok sz b' \<and> contents b' = contents b \<and> n \<le> bcap b') (EnsureCapacity sz d zof z n b) \<and>
    resT (\<lambda>b'. buf_ok sz b' \<and> contents b' = [] \<and> bcap b' = bcap b) (Clear d zof z b) \<and>
    resT (\<lambda>b'. contents b' = concat xss) (bindR (BufferT_empty d) (foldR (AppendData sz d zof z) xss))"
proof (intro conjI)
  show "resT (\<lambda>b'. buf_ok sz b' \<and> contents b' = contents b @ xs) (AppendData sz d zof z xs b)"
    using AppendData_spec [OF assms(1,2)] by (rule resT_mono) (simp add: leaves_def)
  show "resT (\<lambda>b'. buf_ok sz b' \<and> contents b' = xs) (SetData sz d zof z xs b)"
    using SetData_spec [OF assms(1)] by (rule resT_mono) (use assms(2) in \<open>simp_all add: leaves_def\<close>)
  show "resT (\<lambda>b'. buf_ok sz b' \<and> length (contents b') = n \<and> take (bsize b) (contents b') = take n (contents b))
      (SetSize sz d zof z n b)"
    using SetSize_spec [OF assms(1,3)] by (rule resT_mono) (simp add: leaves_def)
  show "resT (\<lambda>b'. buf_ok sz b' \<and> contents b' = contents b \<and> n \<le> bcap b') (EnsureCapacity sz d zof z n b)"
    using EnsureCapacity_spec [OF assms(1)] by (rule resT_mono) (use most_bytes [OF assms(3)] in \<open>simp_all add: leaves_def\<close>)
  show "resT (\<lambda>b'. buf_ok sz b' \<and> contents b' = [] \<and> bcap b' = bcap b) (Clear d zof z b)"
    using Clear_spec [OF assms(1)] by (rule resT_mono) (simp add: leaves_def)
  let ?e = "\<lparr>bsize = 0, bcap = 0, bdata = None, released = []\<rparr> :: 'a buffer"
  have "buf_ok sz ?e" "contents ?e = []" by (simp_all add: buf_ok_def contents_def cells_def)
  moreover have "0 + length (concat xss) \<le> most sz" using assms(4) by simp
  ultimately have "resT (\<lambda>b'. contents b' = concat xss) (foldR (AppendData sz d zof z) xss ?e)"
    using buffer.add_all [of sz ?e xss d zof z] by (auto simp: resT_iff)
  then show "resT (\<lambda>b'. contents b' = concat xss) (bindR (BufferT_empty d) (foldR (AppendData sz d zof z) xss))"
    by (simp add: BufferT_empty_def IsConsistent_def)
qed

theorem buffer_is_sequence_witness:
  "resT (\<lambda>b. contents b = map Some [1, 2, 3, 4, 5 :: nat])
     (bindR (BufferT_empty True) (foldR (AppendData 4 True False 0) [map Some [1, 2], map Some [3, 4, 5]]))"
  using buffer_is_sequence [of 4 "\<lparr>bsize = 0, bcap = 0, bdata = None, released = []\<rparr>" "[]" 0
      "[map Some [1, 2], map Some [3, 4, 5 :: nat]]" True False 0]
  by (simp add: buf_ok_def cells_def most_def)

section \<open>No data in freed memory\<close>

text \<open>
  The life of a \<open>ZeroOnFree\<close> buffer: every way to build one, and every operation, with sizes up to
  \<open>2\<^sup>62\<close> bytes and setters that keep to their contract.
\<close>

inductive buffer_reach :: "nat \<Rightarrow> bool \<Rightarrow> 'a \<Rightarrow> 'a buffer \<Rightarrow> bool" for sz d z where
  make: "BufferT_empty d = Inr b \<Longrightarrow> buffer_reach sz d z b"
| make_sized: "BufferT_sized sz d n c = Inr b \<Longrightarrow> max n c \<le> most sz \<Longrightarrow> buffer_reach sz d z b"
| make_copy: "BufferT_copy sz d xs c = Inr b \<Longrightarrow> max (length xs) c \<le> most sz \<Longrightarrow> buffer_reach sz d z b"
| append: "buffer_reach sz d z b \<Longrightarrow> bsize b + length xs \<le> most sz \<Longrightarrow> AppendData sz d True z xs b = Inr b' \<Longrightarrow>
    buffer_reach sz d z b'"
| append_setter: "buffer_reach sz d z b \<Longrightarrow> bsize b + n \<le> most sz \<Longrightarrow> good_setter n f \<Longrightarrow>
    AppendData_setter sz d True z n f b = Inr (w, b') \<Longrightarrow> buffer_reach sz d z b'"
| set: "buffer_reach sz d z b \<Longrightarrow> length xs \<le> most sz \<Longrightarrow> SetData sz d True z xs b = Inr b' \<Longrightarrow> buffer_reach sz d z b'"
| set_setter: "buffer_reach sz d z b \<Longrightarrow> n \<le> most sz \<Longrightarrow> good_setter n f \<Longrightarrow>
    SetData_setter sz d True z n f b = Inr (w, b') \<Longrightarrow> buffer_reach sz d z b'"
| resize: "buffer_reach sz d z b \<Longrightarrow> n \<le> most sz \<Longrightarrow> SetSize sz d True z n b = Inr b' \<Longrightarrow> buffer_reach sz d z b'"
| reserve: "buffer_reach sz d z b \<Longrightarrow> n \<le> most sz \<Longrightarrow> EnsureCapacity sz d True z n b = Inr b' \<Longrightarrow> buffer_reach sz d z b'"
| clear: "buffer_reach sz d z b \<Longrightarrow> Clear d True z b = Inr b' \<Longrightarrow> buffer_reach sz d z b'"
| assign: "buffer_reach sz d z b \<Longrightarrow> buffer_reach sz d z buf \<Longrightarrow> BufferT_move_assign d True z buf b = Inr (b', buf') \<Longrightarrow>
    buffer_reach sz d z b'"
| move: "buffer_reach sz d z buf \<Longrightarrow> BufferT_move d buf = Inr (b, buf') \<Longrightarrow> buffer_reach sz d z b"
| swap: "buffer_reach sz d z a \<Longrightarrow> buffer_reach sz d z b \<Longrightarrow> buffer_swap a b = (a', b') \<Longrightarrow> buffer_reach sz d z a'"

lemma BufferT_sized_eq:
  assumes "BufferT_sized sz d n c = Inr b" "max n c \<le> most sz"
  shows "b = \<lparr>bsize = n, bcap = max n c, bdata = (if max n c > 0 then Some (replicate (max n c) None) else None),
    released = []\<rparr>"
proof -
  have "sz * max n c \<le> PTRDIFF_MAX" using most_bytes [OF assms(2)] by (simp add: PTRDIFF_MAX_def)
  then show ?thesis
    using assms(1) by (auto simp: BufferT_sized_def new_array_def dcheck_eq_Inr Let_def bindR_eq_Inr split: if_splits)
qed

lemma BufferT_sized_ok: "BufferT_sized sz d n c = Inr b \<Longrightarrow> max n c \<le> most sz \<Longrightarrow> buf_ok sz b \<and> clean z b"
  by (frule most_bytes, drule (1) BufferT_sized_eq) (auto simp: buf_ok_def clean_defs cells_def)

lemma BufferT_copy_ok:
  assumes "BufferT_copy sz d xs c = Inr b" "max (length xs) c \<le> most sz"
  shows "buf_ok sz b \<and> clean z b"
proof -
  obtain b0 p where b0: "BufferT_sized sz d (length xs) c = Inr b0" "write_cells (bdata b0) 0 xs = Inr p" "b = b0\<lparr>bdata := p\<rparr>"
    using assms(1) by (auto simp: BufferT_copy_def bindR_eq_Inr)
  note eq = BufferT_sized_eq [OF b0(1) assms(2)]
  show ?thesis
  proof (cases "xs = []")
    case True
    then have "b = b0" using b0(2,3) by (cases b0) simp
    then show ?thesis using BufferT_sized_ok [OF b0(1) assms(2), of z] by simp
  next
    case False
    then have "0 < max (length xs) c" by (simp add: less_max_iff_disj)
    then have "bdata b0 = Some (replicate (max (length xs) c) None)" using eq by simp
    then have "p = Some (xs @ replicate (max (length xs) c - length xs) None)"
      using b0(2) by (simp add: write_cells_in)
    with b0(3) eq most_bytes [OF assms(2)] False show ?thesis by (auto simp: buf_ok_def clean_defs cells_def)
  qed
qed

lemma reach_leaves: "resT (leaves sz True z b P) m \<Longrightarrow> m = Inr b' \<Longrightarrow> clean z b \<Longrightarrow> buf_ok sz b' \<and> clean z b'"
  by (simp add: leaves_def)

lemma reach_clean: "buffer_reach sz d z b \<Longrightarrow> buf_ok sz b \<and> clean z b"
proof (induction rule: buffer_reach.induct)
  case (make b)
  then show ?case
    by (auto simp: BufferT_empty_def dcheck_eq_Inr Let_def buf_ok_def clean_defs cells_def)
next
  case (make_sized n c b)
  then show ?case by (rule BufferT_sized_ok)
next
  case (make_copy xs c b)
  then show ?case by (rule BufferT_copy_ok)
next
  case (append b xs b')
  then show ?case using reach_leaves [OF AppendData_spec [of sz b xs True z d] append.hyps(3)] by simp
next
  case (append_setter b n f w b')
  then show ?case
    using AppendData_setter_cells [of sz b n f True z d] by (auto dest: appended_clean appended_ok)
next
  case (set b xs b')
  then show ?case using reach_leaves [OF SetData_spec [of sz b xs True z d] set.hyps(3)] by simp
next
  case (set_setter b n f w b')
  then show ?case using SetData_setter_spec [of sz b n f True z d] by (simp add: leaves_def)
next
  case (resize b n b')
  then show ?case using reach_leaves [OF SetSize_spec [of sz b n True z d] resize.hyps(3)] by simp
next
  case (reserve b n b')
  then show ?case using EnsureCapacity_spec [of sz b n True z d] most_bytes [of n sz] by (simp add: leaves_def)
next
  case (clear b b')
  then show ?case using Clear_spec [of sz b True z d] by (simp add: leaves_def)
next
  case (assign b buf b' buf')
  then show ?case using BufferT_move_assign_spec [of sz b buf d True z b' buf'] by simp
next
  case (move buf b buf')
  then have "b = \<lparr>bsize = bsize buf, bcap = bcap buf, bdata = bdata buf, released = []\<rparr>"
    by (auto simp: BufferT_move_def bindR_eq_Inr Let_def)
  with move show ?case by (simp add: buf_ok_def clean_defs cells_def)
next
  case (swap a b a' b')
  then show ?case by (auto simp: buffer_swap_def buf_ok_def clean_defs cells_def)
qed

text \<open>
  C23. A \<open>ZeroOnFree\<close> buffer never gives memory back that holds data: in every reachable buffer the
  unused capacity holds nothing but zeros and cells never written, every block freed so far was
  zeroed first, and destroying the buffer zeroes and frees the last one.
\<close>

theorem zero_on_free:
  assumes "buffer_reach sz d z b"
  shows "set (drop (bsize b) (cells b)) \<subseteq> {None, Some z} \<and> (\<forall>cs \<in> set (released b). set cs \<subseteq> {Some z}) \<and>
    resT (\<lambda>b'. bdata b' = None \<and> (\<forall>cs \<in> set (released b'). set cs \<subseteq> {Some z}) \<and>
      (bcap b > 0 \<longrightarrow> released b' = released b @ [replicate (bcap b) (Some z)])) (BufferT_destroy True z b)"
proof (intro conjI)
  have ok: "buf_ok sz b" "clean z b" using reach_clean [OF assms] by simp_all
  then show "set (drop (bsize b) (cells b)) \<subseteq> {None, Some z}" "\<forall>cs \<in> set (released b). set cs \<subseteq> {Some z}"
    by (simp_all add: clean_defs)
  show "resT (\<lambda>b'. bdata b' = None \<and> (\<forall>cs \<in> set (released b'). set cs \<subseteq> {Some z}) \<and>
      (bcap b > 0 \<longrightarrow> released b' = released b @ [replicate (bcap b) (Some z)])) (BufferT_destroy True z b)"
    using ok(1)
  proof (cases rule: buf_ok_cases)
    case 1
    with ok show ?thesis by (simp add: BufferT_destroy_def MaybeZero_ok release_def clean_defs)
  next
    case (2 cs)
    with ok show ?thesis by (auto simp: BufferT_destroy_def MaybeZero_ok release_def clean_defs)
  qed
qed

theorem zero_on_free_witness:
  "\<exists>b. buffer_reach 4 True (0 :: nat) b \<and> released b = [[Some 0, Some 0]] \<and> set (drop (bsize b) (cells b)) \<subseteq> {None, Some 0}"
proof -
  let ?two = "\<lparr>bsize = 2, bcap = 2, bdata = Some [Some 7, Some 9], released = []\<rparr> :: nat buffer"
  let ?three = "\<lparr>bsize = 3, bcap = 3, bdata = Some [Some 7, Some 9, Some 4], released = [[Some 0, Some 0]]\<rparr> :: nat buffer"
  have r: "replicate 2 x = [x, x]" "replicate 3 x = [x, x, x]" for x :: "nat option"
    by (simp_all add: numeral_2_eq_2 numeral_3_eq_3)
  have b0: "BufferT_copy 4 True [Some 7, Some 9] 2 = Inr ?two"
    by (simp add: BufferT_copy_def BufferT_sized_def new_array_def PTRDIFF_MAX_def IsConsistent_def write_cells_def r Let_def)
  have "AppendData 4 True True 0 [Some 4] ?two = Inr ?three"
    by (simp add: AppendData_def size_add_def EnsureCapacityWithHeadroom_def MaybeZeroCompleteBuffer_def release_def
        new_array_def PTRDIFF_MAX_def IsConsistent_def write_cells_def r Let_def)
  then have "buffer_reach 4 True 0 ?three"
    by (intro buffer_reach.append [OF buffer_reach.make_copy [OF b0]]) (simp_all add: most_def)
  with zero_on_free [OF this] show ?thesis by (intro exI [of _ ?three]) simp
qed

text \<open>
  Moving from a buffer hands over its elements; in a build with checks the buffer that was
  moved from fails the check of every later operation except \<open>Clear\<close>, destruction and
  assignment to it, and in a build without checks it is empty.
\<close>

theorem moved_from:
  assumes "buf_ok sz b"
  shows "\<exists>b1 b2. BufferT_move d b = Inr (b1, b2) \<and> contents b1 = contents b \<and> buf_ok sz b1 \<and>
    (d \<longrightarrow> AppendData sz d zof z xs b2 = Inl Check_failed \<and> SetData sz d zof z xs b2 = Inl Check_failed \<and>
      SetSize sz d zof z n b2 = Inl Check_failed \<and> buffer_at d n b2 = Inl Check_failed \<and> buffer_size d b2 = Inl Check_failed) \<and>
    (\<not> d \<longrightarrow> buf_ok sz b2 \<and> contents b2 = []) \<and>
    resT (\<lambda>b'. contents b' = [] \<and> buf_ok sz b') (Clear d zof z b2) \<and> resT (\<lambda>b'. released b' = released b) (BufferT_destroy zof z b2)"
  using buf_ok_consistent [OF assms] assms
  by (auto simp: BufferT_move_def OnMovedFrom_def Let_def AppendData_def SetData_def SetSize_def buffer_at_def
      buffer_size_def EnsureCapacityWithHeadroom_def IsConsistent_def dcheck_def contents_def cells_def buf_ok_def
      Clear_def MaybeZeroCompleteBuffer_def BufferT_destroy_def release_def)

theorem moved_from_witness:
  "\<exists>b1 b2. BufferT_move True \<lparr>bsize = 1, bcap = 1, bdata = Some [Some (7 :: nat)], released = []\<rparr> = Inr (b1, b2) \<and>
     contents b1 = [Some 7] \<and> AppendData 4 True False 0 [] b2 = Inl Check_failed"
  using moved_from [of 4 "\<lparr>bsize = 1, bcap = 1, bdata = Some [Some (7 :: nat)], released = []\<rparr>" True False 0 "[]" 0]
  by (auto simp: buf_ok_def cells_def contents_def)

end
