(* ===== verification/Swap_Queue.thy ===== *)
theory Swap_Queue
  imports Prelude
begin

text \<open>
  \<open>SwapQueue\<close> of rtc_base/swap_queue.h, a ring of slots between one producer and one consumer.
  \<open>Insert\<close> and \<open>Remove\<close> are composed of the steps between which the other thread may run: the
  load of \<open>num_elements_\<close>, the swap with a slot, and the atomic update of \<open>num_elements_\<close> together
  with the index that only the calling thread uses.  \<open>verifier\<close> is the item verifier; \<open>d\<close> says
  whether the build has \<open>RTC_DCHECK\<close>s.
\<close>

record 'a swap_queue =
  next_write_index :: nat
  next_read_index :: nat
  num_elements :: nat
  queue :: "'a list"

definition VerifyQueueSlots :: "bool \<Rightarrow> ('a \<Rightarrow> bool) \<Rightarrow> 'a swap_queue \<Rightarrow> bool res" where
  "VerifyQueueSlots d verifier q =
     bindR (foldR (\<lambda>v u. dcheck d (verifier v) u) (queue q) ()) (\<lambda>_. Inr True)"

text \<open>The constructors differ in what the slots hold: \<open>size\<close> copies of a prototype or of \<open>T()\<close>.\<close>

definition SwapQueue_new :: "bool \<Rightarrow> ('a \<Rightarrow> bool) \<Rightarrow> nat \<Rightarrow> 'a \<Rightarrow> 'a swap_queue res" where
  "SwapQueue_new d verifier n prototype =
     (let q = \<lparr>next_write_index = 0, next_read_index = 0, num_elements = 0, queue = replicate n prototype\<rparr>
      in if d then bindR (VerifyQueueSlots d verifier q) (\<lambda>ok. dcheck d ok q) else Inr q)"

section \<open>The steps of Insert\<close>

definition Insert_full :: "'a swap_queue \<Rightarrow> bool" where
  "Insert_full q \<longleftrightarrow> num_elements q = length (queue q)"

definition Insert_swap :: "'a \<Rightarrow> 'a swap_queue \<Rightarrow> ('a \<times> 'a swap_queue) res" where
  "Insert_swap input q =
     (if next_write_index q < length (queue q)
      then Inr (queue q ! next_write_index q, q\<lparr>queue := (queue q)[next_write_index q := input]\<rparr>)
      else Inl Index_fault)"

definition Insert_publish :: "bool \<Rightarrow> 'a swap_queue \<Rightarrow> 'a swap_queue res" where
  "Insert_publish d q =
     (let old_num_elements = num_elements q;
          q = q\<lparr>num_elements := old_num_elements + 1, next_write_index := next_write_index q + 1\<rparr>;
          q = (if next_write_index q = length (queue q) then q\<lparr>next_write_index := 0\<rparr> else q)
      in bindR (dcheck d (next_write_index q < length (queue q)) ()) (\<lambda>_.
           dcheck d (old_num_elements < length (queue q)) q))"

text \<open>Whether the item was inserted, what \<open>*input\<close> holds afterwards, and the queue.\<close>

definition Insert :: "bool \<Rightarrow> ('a \<Rightarrow> bool) \<Rightarrow> 'a \<Rightarrow> 'a swap_queue \<Rightarrow> (bool \<times> 'a \<times> 'a swap_queue) res" where
  "Insert d verifier input q =
     bindR (dcheck d (verifier input) ()) (\<lambda>_.
       if Insert_full q then Inr (False, input, q)
       else bindR (Insert_swap input q) (\<lambda>(empty, q).
            bindR (Insert_publish d q) (\<lambda>q. Inr (True, empty, q))))"

section \<open>The steps of Remove\<close>

definition Remove_empty :: "'a swap_queue \<Rightarrow> bool" where
  "Remove_empty q \<longleftrightarrow> num_elements q = 0"

definition Remove_swap :: "'a \<Rightarrow> 'a swap_queue \<Rightarrow> ('a \<times> 'a swap_queue) res" where
  "Remove_swap output q =
     (if next_read_index q < length (queue q)
      then Inr (queue q ! next_read_index q, q\<lparr>queue := (queue q)[next_read_index q := output]\<rparr>)
      else Inl Index_fault)"

definition Remove_publish :: "bool \<Rightarrow> 'a swap_queue \<Rightarrow> 'a swap_queue res" where
  "Remove_publish d q =
     (let q = q\<lparr>num_elements := num_elements q - 1, next_read_index := next_read_index q + 1\<rparr>;
          q = (if next_read_index q = length (queue q) then q\<lparr>next_read_index := 0\<rparr> else q)
      in dcheck d (next_read_index q < length (queue q)) q)"

definition Remove :: "bool \<Rightarrow> ('a \<Rightarrow> bool) \<Rightarrow> 'a \<Rightarrow> 'a swap_queue \<Rightarrow> (bool \<times> 'a \<times> 'a swap_queue) res" where
  "Remove d verifier output q =
     bindR (dcheck d (verifier output) ()) (\<lambda>_.
       if Remove_empty q then Inr (False, output, q)
       else bindR (Remove_swap output q) (\<lambda>(full, q).
            bindR (Remove_publish d q) (\<lambda>q. Inr (True, full, q))))"

section \<open>Clear and size\<close>

definition SwapQueue_Clear :: "bool \<Rightarrow> 'a swap_queue \<Rightarrow> 'a swap_queue res" where
  "SwapQueue_Clear d q =
     (let q = q\<lparr>next_read_index := next_read_index q + num_elements q, num_elements := 0\<rparr>;
          q = (if next_read_index q \<ge> length (queue q)
               then q\<lparr>next_read_index := next_read_index q - length (queue q)\<rparr> else q)
      in dcheck d (next_read_index q < length (queue q)) q)"

definition SizeAtLeast :: "'a swap_queue \<Rightarrow> nat" where
  "SizeAtLeast q = num_elements q"

section \<open>Producer and consumer\<close>

text \<open>
  Where each thread is: outside the queue; past the load that said there is room (an item), with
  its item to swap; or past the swap, with what it got in exchange.
\<close>

datatype 'a thread = Idle | Ready 'a | Swapped 'a

text \<open>
  The queue with its two threads.  \<open>sent\<close> are the items the producer has swapped in; \<open>out\<close> has an
  entry for every position the consumer is done with, \<open>Some\<close> item for one it removed and \<open>None\<close>
  for one \<open>Clear\<close> dropped.  Both are history only.
\<close>

record 'a ring =
  ring_queue :: "'a swap_queue"
  producer :: "'a thread"
  consumer :: "'a thread"
  sent :: "'a list"
  out :: "'a option list"

inductive ring_step :: "bool \<Rightarrow> 'a ring \<Rightarrow> 'a ring \<Rightarrow> bool" for d where
  insert_load:
    "producer s = Idle \<Longrightarrow> \<not> Insert_full (ring_queue s) \<Longrightarrow> ring_step d s (s\<lparr>producer := Ready x\<rparr>)"
| insert_swap:
    "producer s = Ready x \<Longrightarrow> Insert_swap x (ring_queue s) = Inr (y, q) \<Longrightarrow>
     ring_step d s (s\<lparr>producer := Swapped y, ring_queue := q, sent := sent s @ [x]\<rparr>)"
| insert_publish:
    "producer s = Swapped y \<Longrightarrow> Insert_publish d (ring_queue s) = Inr q \<Longrightarrow>
     ring_step d s (s\<lparr>producer := Idle, ring_queue := q\<rparr>)"
| remove_load:
    "consumer s = Idle \<Longrightarrow> \<not> Remove_empty (ring_queue s) \<Longrightarrow> ring_step d s (s\<lparr>consumer := Ready y\<rparr>)"
| remove_swap:
    "consumer s = Ready y \<Longrightarrow> Remove_swap y (ring_queue s) = Inr (x, q) \<Longrightarrow>
     ring_step d s (s\<lparr>consumer := Swapped x, ring_queue := q, out := out s @ [Some x]\<rparr>)"
| remove_publish:
    "consumer s = Swapped x \<Longrightarrow> Remove_publish d (ring_queue s) = Inr q \<Longrightarrow>
     ring_step d s (s\<lparr>consumer := Idle, ring_queue := q\<rparr>)"
| clear:
    "consumer s = Idle \<Longrightarrow> SwapQueue_Clear d (ring_queue s) = Inr q \<Longrightarrow>
     ring_step d s (s\<lparr>ring_queue := q, out := out s @ replicate (num_elements (ring_queue s)) None\<rparr>)"

inductive ring_reach :: "bool \<Rightarrow> nat \<Rightarrow> 'a ring \<Rightarrow> bool" for d n where
  start: "SwapQueue_new d (\<lambda>x. True) n x = Inr q \<Longrightarrow>
    ring_reach d n \<lparr>ring_queue = q, producer = Idle, consumer = Idle, sent = [], out = []\<rparr>"
| step: "ring_reach d n s \<Longrightarrow> ring_step d s t \<Longrightarrow> ring_reach d n t"

end
