(* ===== verification/Queue_Props.thy ===== *)
theory Queue_Props
  imports Swap_Queue
begin

text \<open>
  \<open>SwapQueue\<close> as a bounded queue for one thread, and between two threads: every item arrives once
  and in order, and the threads never meet in a slot.
\<close>

section \<open>Ring arithmetic\<close>

lemma next_index: "(if k mod n + 1 = n then 0 else k mod n + 1) = (k + 1) mod (n :: nat)"
  by (simp add: mod_Suc)

lemma mod_differ: "i < j \<Longrightarrow> j - i < n \<Longrightarrow> i mod n \<noteq> j mod (n :: nat)"
  by (metis mod_eq_dvd_iff_nat nat_dvd_not_less less_imp_le zero_less_diff)

lemma wrap_index: "k < n \<Longrightarrow> m \<le> n \<Longrightarrow> (if n \<le> k + m then k + m - n else k + m) = (k + m) mod (n :: nat)"
  by (simp add: mod_if)

section \<open>One thread\<close>

definition put_all :: "('a \<Rightarrow> 'q \<Rightarrow> (bool \<times> 'a \<times> 'q) res) \<Rightarrow> 'a \<Rightarrow> 'q \<Rightarrow> 'q res" where
  "put_all put x q = bindR (put x q) (\<lambda>(ok, y, q). Inr q)"

text \<open>A queue that swaps: it gives something back for what it is given.\<close>

locale bounded_queue =
  fixes put :: "'a \<Rightarrow> 'q \<Rightarrow> (bool \<times> 'a \<times> 'q) res" and get :: "'a \<Rightarrow> 'q \<Rightarrow> (bool \<times> 'a \<times> 'q) res"
    and items :: "'q \<Rightarrow> 'a list" and inv :: "'q \<Rightarrow> bool" and cap :: nat and good :: "'a \<Rightarrow> bool"
  assumes put_ok: "inv q \<Longrightarrow> good x \<Longrightarrow> resT (\<lambda>(ok, y, q'). inv q' \<and> good y \<and>
      (if length (items q) < cap then ok \<and> items q' = items q @ [x] else \<not> ok \<and> y = x \<and> q' = q)) (put x q)"
    and get_ok: "inv q \<Longrightarrow> good y \<Longrightarrow> resT (\<lambda>(ok, x, q'). inv q' \<and> good x \<and>
      (case items q of [] \<Rightarrow> \<not> ok \<and> x = y \<and> q' = q | z # zs \<Rightarrow> ok \<and> x = z \<and> items q' = zs)) (get y q)"
begin

lemma puts_ok:
  "inv q \<Longrightarrow> list_all good xs \<Longrightarrow> length (items q) + length xs \<le> cap \<Longrightarrow>
     resT (\<lambda>q'. inv q' \<and> items q' = items q @ xs) (foldR (put_all put) xs q)"
proof (induction xs arbitrary: q)
  case (Cons x xs)
  then obtain y q1 where q1: "put x q = Inr (True, y, q1)" "inv q1" "items q1 = items q @ [x]"
    using put_ok [of q x] by (auto simp: resT_iff)
  with Cons.IH [of q1] Cons.prems show ?case by (simp add: put_all_def)
qed simp

text \<open>First in, first out: what was put in comes out in order.\<close>

lemma get_after_puts:
  assumes "inv q" "items q = []" "list_all good (x # xs)" "length (x # xs) \<le> cap" "good y"
  shows "resT (\<lambda>(ok, z, q'). ok \<and> z = x \<and> inv q' \<and> items q' = xs) (bindR (foldR (put_all put) (x # xs) q) (get y))"
proof -
  obtain q1 where q1: "foldR (put_all put) (x # xs) q = Inr q1" "inv q1" "items q1 = x # xs"
    using puts_ok [of q "x # xs"] assms by (auto simp: resT_iff)
  with get_ok [of q1 y] assms(5) show ?thesis by (auto simp: resT_iff)
qed

end

definition queue_items :: "'a swap_queue \<Rightarrow> 'a list" where
  "queue_items q = map (\<lambda>i. queue q ! ((next_read_index q + i) mod length (queue q))) [0..<num_elements q]"

definition queue_ok :: "('a \<Rightarrow> bool) \<Rightarrow> nat \<Rightarrow> 'a swap_queue \<Rightarrow> bool" where
  "queue_ok verifier n q \<longleftrightarrow> 0 < n \<and> length (queue q) = n \<and> next_read_index q < n \<and> num_elements q \<le> n \<and>
     next_write_index q = (next_read_index q + num_elements q) mod n \<and> list_all verifier (queue q)"

lemma Insert_ok:
  assumes "queue_ok verifier n q" "verifier x"
  shows "resT (\<lambda>(ok, y, q'). queue_ok verifier n q' \<and> verifier y \<and>
    (if length (queue_items q) < n then ok \<and> queue_items q' = queue_items q @ [x] else \<not> ok \<and> y = x \<and> q' = q))
    (Insert d verifier x q)"
proof (cases "num_elements q < n")
  case False
  with assms show ?thesis by (auto simp: queue_ok_def Insert_def Insert_full_def queue_items_def)
next
  case True
  let ?r = "next_read_index q" and ?m = "num_elements q"
  let ?w = "(?r + ?m) mod n"
  define q' where "q' = \<lparr>next_write_index = (?r + ?m + 1) mod n, next_read_index = ?r, num_elements = ?m + 1,
    queue = (queue q)[?w := x]\<rparr>"
  have q: "length (queue q) = n" "0 < n" "?r < n" "next_write_index q = ?w" "list_all verifier (queue q)"
    using assms(1) by (simp_all add: queue_ok_def)
  have w: "?w < n" using q(2) by simp
  have "Insert d verifier x q = Inr (True, queue q ! ?w, q')"
    using True q w assms(2) next_index [of "?r + ?m" n]
    by (auto simp: Insert_def Insert_full_def Insert_swap_def Insert_publish_def Let_def q'_def split: if_splits)
  moreover have "list_all verifier (queue q')"
    using q(5) assms(2) by (auto simp: q'_def list_all_iff dest: subsetD [OF set_update_subset_insert])
  then have "queue_ok verifier n q'"
    using True q by (simp add: queue_ok_def q'_def)
  moreover have "verifier (queue q ! ?w)" using q w by (simp add: list_all_length)
  moreover have "queue_items q' = queue_items q @ [x]"
  proof -
    have "(queue q)[?w := x] ! ((?r + i) mod n) = queue q ! ((?r + i) mod n)" if "i < ?m" for i
    proof -
      have "(?r + ?m) - (?r + i) < n" using True by linarith
      then have "(?r + i) mod n \<noteq> ?w" using mod_differ [of "?r + i" "?r + ?m" n] that by linarith
      then show ?thesis by (metis nth_list_update_neq)
    qed
    then show ?thesis using q w by (simp add: queue_items_def q'_def)
  qed
  moreover have "length (queue_items q) < n" using True by (simp add: queue_items_def)
  ultimately show ?thesis by simp
qed

lemma Remove_ok:
  assumes "queue_ok verifier n q" "verifier y"
  shows "resT (\<lambda>(ok, x, q'). queue_ok verifier n q' \<and> verifier x \<and>
    (case queue_items q of [] \<Rightarrow> \<not> ok \<and> x = y \<and> q' = q | z # zs \<Rightarrow> ok \<and> x = z \<and> queue_items q' = zs))
    (Remove d verifier y q)"
proof (cases "num_elements q = 0")
  case True
  with assms show ?thesis by (simp add: Remove_def Remove_empty_def queue_items_def)
next
  case False
  let ?r = "next_read_index q" and ?m = "num_elements q"
  define q' where "q' = \<lparr>next_write_index = next_write_index q, next_read_index = (?r + 1) mod n, num_elements = ?m - 1,
    queue = (queue q)[?r := y]\<rparr>"
  have q: "length (queue q) = n" "0 < n" "?r < n" "?m \<le> n" "list_all verifier (queue q)"
      "next_write_index q = (?r + ?m) mod n"
    using assms(1) by (simp_all add: queue_ok_def)
  have "Remove d verifier y q = Inr (True, queue q ! ?r, q')"
    using False q assms(2) next_index [of ?r n]
    by (auto simp: Remove_def Remove_empty_def Remove_swap_def Remove_publish_def Let_def q'_def split: if_splits)
  moreover have "list_all verifier (queue q')"
    using q(5) assms(2) by (auto simp: q'_def list_all_iff dest: subsetD [OF set_update_subset_insert])
  moreover have "((?r + 1) mod n + (?m - 1)) mod n = (?r + ?m) mod n"
    using mod_add_left_eq [of "?r + 1" n "?m - 1"] False by simp
  ultimately have "queue_ok verifier n q'" and "Remove d verifier y q = Inr (True, queue q ! ?r, q')"
    using False q by (auto simp: queue_ok_def q'_def)
  moreover have "verifier (queue q ! ?r)" using q by (simp add: list_all_length)
  moreover have "queue_items q = queue q ! ?r # queue_items q'"
  proof -
    have "?m = Suc (?m - 1)" using False by simp
    then have "[0..<?m] = 0 # map Suc [0..<?m - 1]" by (metis map_Suc_upt upt_conv_Cons zero_less_Suc)
    moreover have "((?r + 1) mod n + i) mod n = (?r + Suc i) mod n" for i
      by (simp add: mod_add_left_eq)
    moreover have "?r \<noteq> (?r + Suc i) mod n" if "i < ?m - 1" for i
      using mod_differ [of ?r "?r + Suc i" n] that q by simp
    ultimately show ?thesis using q by (auto simp: queue_items_def q'_def nth_list_update)
  qed
  ultimately show ?thesis by simp
qed

interpretation swap: bounded_queue "Insert d verifier" "Remove d verifier" queue_items "queue_ok verifier n" n verifier
  for d verifier n
  by unfold_locales (rule Insert_ok Remove_ok; assumption)+


text \<open>
  C24. \<open>SwapQueue\<close> is a bounded first-in first-out queue that swaps: \<open>Insert\<close> adds at the back
  exactly when there is room, \<open>Remove\<close> takes the front exactly when there is one, the item given
  back passes the verifier, neither fails a check, and \<open>n\<close> items inserted into an empty queue
  of size \<open>n\<close> come out from the first on.
\<close>

theorem swap_queue_is_fifo:
  assumes "queue_ok verifier n q" "verifier x"
  shows "resT (\<lambda>(ok, y, q'). queue_ok verifier n q' \<and> verifier y \<and>
      (if length (queue_items q) < n then ok \<and> queue_items q' = queue_items q @ [x] else \<not> ok \<and> y = x \<and> q' = q))
      (Insert d verifier x q) \<and>
    resT (\<lambda>(ok, y, q'). queue_ok verifier n q' \<and> verifier y \<and>
      (case queue_items q of [] \<Rightarrow> \<not> ok \<and> y = x \<and> q' = q | z # zs \<Rightarrow> ok \<and> y = z \<and> queue_items q' = zs))
      (Remove d verifier x q) \<and>
    (queue_items q = [] \<and> list_all verifier (z # zs) \<and> length (z # zs) \<le> n \<longrightarrow>
      resT (\<lambda>(ok, y, q'). ok \<and> y = z \<and> queue_items q' = zs)
        (bindR (foldR (put_all (Insert d verifier)) (z # zs) q) (Remove d verifier x)))"
proof (intro conjI impI)
  assume "queue_items q = [] \<and> list_all verifier (z # zs) \<and> length (z # zs) \<le> n"
  then have "resT (\<lambda>(ok, y, q'). ok \<and> y = z \<and> queue_ok verifier n q' \<and> queue_items q' = zs)
      (bindR (foldR (put_all (Insert d verifier)) (z # zs) q) (Remove d verifier x))"
    using assms by (intro swap.get_after_puts) simp_all
  then show "resT (\<lambda>(ok, y, q'). ok \<and> y = z \<and> queue_items q' = zs)
      (bindR (foldR (put_all (Insert d verifier)) (z # zs) q) (Remove d verifier x))"
    by (rule resT_mono) auto
qed (rule Insert_ok [OF assms] Remove_ok [OF assms])+

theorem swap_queue_is_fifo_witness:
  "resT (\<lambda>(ok, y, q). ok \<and> y = 5 \<and> queue_items q = [6, 7 :: nat])
     (bindR (SwapQueue_new True (\<lambda>x. x < 10) 3 0)
       (\<lambda>q. bindR (foldR (put_all (Insert True (\<lambda>x. x < 10))) [5, 6, 7] q) (Remove True (\<lambda>x. x < 10) 9)))"
proof -
  let ?q = "\<lparr>next_write_index = 0, next_read_index = 0, num_elements = 0, queue = [0, 0, 0 :: nat]\<rparr>"
  have "SwapQueue_new True (\<lambda>x. x < 10) 3 (0 :: nat) = Inr ?q"
    by (simp add: SwapQueue_new_def VerifyQueueSlots_def numeral_3_eq_3)
  moreover have "queue_ok (\<lambda>x. x < 10) 3 ?q" by (simp add: queue_ok_def)
  ultimately show ?thesis
    using swap_queue_is_fifo [of "\<lambda>x. x < 10" 3 ?q 9 True 5 "[6, 7]"] by (simp add: queue_items_def)
qed

section \<open>Two threads\<close>

definition in_flight :: "'a thread \<Rightarrow> nat" where
  "in_flight t = (case t of Swapped x \<Rightarrow> 1 | _ \<Rightarrow> 0)"

lemma in_flight_simps [simp]: "in_flight Idle = 0" "in_flight (Ready x) = 0" "in_flight (Swapped x) = 1"
  by (simp_all add: in_flight_def)

text \<open>
  With \<open>w\<close> positions written and \<open>r\<close> done with: the indices lag by the swaps not yet published,
  the number of elements is what lies between, and the slots between hold what was sent.
\<close>

definition ring_counts :: "nat \<Rightarrow> 'a ring \<Rightarrow> bool" where
  "ring_counts n s \<longleftrightarrow>
     (let q = ring_queue s; w = length (sent s); r = length (out s); p = in_flight (producer s); c = in_flight (consumer s)
      in length (queue q) = n \<and> p \<le> w \<and> c \<le> r \<and> r + p \<le> w \<and> w + c \<le> r + n \<and>
         next_write_index q = (w - p) mod n \<and> next_read_index q = (r - c) mod n \<and>
         num_elements q + r + p = w + c \<and>
         (\<forall>x. producer s = Ready x \<longrightarrow> w + c < r + n) \<and> (\<forall>y. consumer s = Ready y \<longrightarrow> r + p < w))"

definition ring_data :: "nat \<Rightarrow> 'a ring \<Rightarrow> bool" where
  "ring_data n s \<longleftrightarrow>
     (\<forall>i. length (out s) \<le> i \<and> i < length (sent s) \<longrightarrow> queue (ring_queue s) ! (i mod n) = sent s ! i) \<and>
     (\<forall>i < length (out s). out s ! i = None \<or> out s ! i = Some (sent s ! i))"

definition ring_inv :: "nat \<Rightarrow> 'a ring \<Rightarrow> bool" where
  "ring_inv n s \<longleftrightarrow> 0 < n \<and> ring_counts n s \<and> ring_data n s"

lemma Insert_publish_eq:
  assumes "Insert_publish d q = Inr q'" "next_write_index q = k mod length (queue q)"
  shows "q' = q\<lparr>num_elements := num_elements q + 1, next_write_index := (k + 1) mod length (queue q)\<rparr>"
  using assms next_index [of k "length (queue q)"]
  by (auto simp: Insert_publish_def Let_def bindR_eq_Inr dcheck_eq_Inr split: if_splits)

lemma Remove_publish_eq:
  assumes "Remove_publish d q = Inr q'" "next_read_index q = k mod length (queue q)"
  shows "q' = q\<lparr>num_elements := num_elements q - 1, next_read_index := (k + 1) mod length (queue q)\<rparr>"
  using assms next_index [of k "length (queue q)"]
  by (auto simp: Remove_publish_def Let_def dcheck_eq_Inr split: if_splits)

lemma SwapQueue_Clear_eq:
  assumes "SwapQueue_Clear d q = Inr q'" "next_read_index q = k mod length (queue q)" "0 < length (queue q)"
    and "num_elements q \<le> length (queue q)"
  shows "q' = q\<lparr>num_elements := 0, next_read_index := (k + num_elements q) mod length (queue q)\<rparr>"
  using assms wrap_index [of "k mod length (queue q)" "length (queue q)" "num_elements q"]
  by (auto simp: SwapQueue_Clear_def Let_def dcheck_eq_Inr mod_add_left_eq split: if_splits)

lemma ring_inv_insert_swap:
  assumes "producer s = Ready x" "Insert_swap x (ring_queue s) = Inr (y, q)" "ring_inv n s"
  shows "ring_inv n (s\<lparr>producer := Swapped y, ring_queue := q, sent := sent s @ [x]\<rparr>)"
proof -
  let ?w = "length (sent s)"
  have c: "ring_counts n s" "ring_data n s" "0 < n" using assms(3) by (simp_all add: ring_inv_def)
  have cnt: "length (queue (ring_queue s)) = n" "next_write_index (ring_queue s) = ?w mod n"
      "length (out s) \<le> ?w" "?w + in_flight (consumer s) < length (out s) + n"
    using c(1) assms(1) by (simp_all add: ring_counts_def Let_def)
  have q: "q = (ring_queue s)\<lparr>queue := (queue (ring_queue s))[?w mod n := x]\<rparr>"
    using assms(2) cnt c(3) by (auto simp: Insert_swap_def split: if_splits)
  have "queue q ! (i mod n) = (sent s @ [x]) ! i" if "length (out s) \<le> i" "i < Suc ?w" for i
  proof (cases "i = ?w")
    case False
    then have "i mod n \<noteq> ?w mod n" using mod_differ [of i ?w n] that cnt(4) by simp
    with False that c(2) cnt show ?thesis by (simp add: q ring_data_def nth_append)
  qed (use cnt c(3) in \<open>simp add: q\<close>)
  moreover have "out s ! i = None \<or> out s ! i = Some ((sent s @ [x]) ! i)" if "i < length (out s)" for i
    using c(2) that cnt(3) by (simp add: ring_data_def nth_append)
  ultimately have "ring_data n (s\<lparr>producer := Swapped y, ring_queue := q, sent := sent s @ [x]\<rparr>)"
    by (simp add: ring_data_def)
  moreover have "ring_counts n (s\<lparr>producer := Swapped y, ring_queue := q, sent := sent s @ [x]\<rparr>)"
    using c(1) assms(1) cnt(4) by (auto simp: ring_counts_def Let_def q)
  ultimately show ?thesis using c(3) by (simp add: ring_inv_def)
qed

lemma ring_inv_remove_swap:
  assumes "consumer s = Ready y" "Remove_swap y (ring_queue s) = Inr (x, q)" "ring_inv n s"
  shows "ring_inv n (s\<lparr>consumer := Swapped x, ring_queue := q, out := out s @ [Some x]\<rparr>)"
proof -
  let ?r = "length (out s)"
  have c: "ring_counts n s" "ring_data n s" "0 < n" using assms(3) by (simp_all add: ring_inv_def)
  have cnt: "length (queue (ring_queue s)) = n" "next_read_index (ring_queue s) = ?r mod n"
      "?r + in_flight (producer s) < length (sent s)" "length (sent s) \<le> ?r + n"
    using c(1) assms(1) by (simp_all add: ring_counts_def Let_def)
  have q: "q = (ring_queue s)\<lparr>queue := (queue (ring_queue s))[?r mod n := y]\<rparr>" "x = queue (ring_queue s) ! (?r mod n)"
    using assms(2) cnt c(3) by (auto simp: Remove_swap_def split: if_splits)
  have x: "x = sent s ! ?r" using c(2) cnt(3) q(2) by (simp add: ring_data_def)
  have "queue q ! (i mod n) = sent s ! i" if "Suc ?r \<le> i" "i < length (sent s)" for i
  proof -
    have "?r < i" "i - ?r < n" using that cnt(4) by linarith+
    from mod_differ [OF this] that c(2) show ?thesis by (simp add: q(1) ring_data_def)
  qed
  moreover have "(out s @ [Some x]) ! i = None \<or> (out s @ [Some x]) ! i = Some (sent s ! i)" if "i < Suc ?r" for i
    using c(2) that x by (auto simp: ring_data_def nth_append less_Suc_eq)
  ultimately have "ring_data n (s\<lparr>consumer := Swapped x, ring_queue := q, out := out s @ [Some x]\<rparr>)"
    by (simp add: ring_data_def)
  moreover have "ring_counts n (s\<lparr>consumer := Swapped x, ring_queue := q, out := out s @ [Some x]\<rparr>)"
    using c(1) assms(1) cnt(3) by (auto simp: ring_counts_def Let_def q(1))
  ultimately show ?thesis using c(3) by (simp add: ring_inv_def)
qed

lemma ring_inv_remove_publish:
  assumes "consumer s = Swapped x" "Remove_publish d (ring_queue s) = Inr q" "ring_inv n s"
  shows "ring_inv n (s\<lparr>consumer := Idle, ring_queue := q\<rparr>)"
proof -
  have c: "ring_counts n s" "ring_data n s" "0 < n" using assms(3) by (simp_all add: ring_inv_def)
  have cnt: "length (queue (ring_queue s)) = n" "next_read_index (ring_queue s) = (length (out s) - 1) mod n"
      "out s \<noteq> []" "num_elements (ring_queue s) + length (out s) + in_flight (producer s) = length (sent s) + 1"
      "length (out s) + in_flight (producer s) \<le> length (sent s)"
    using c(1) assms(1) by (auto simp: ring_counts_def Let_def)
  have q: "q = (ring_queue s)\<lparr>num_elements := num_elements (ring_queue s) - 1, next_read_index := length (out s) mod n\<rparr>"
    using Remove_publish_eq [OF assms(2), of "length (out s) - 1"] cnt by simp
  show ?thesis
    using c assms(1) cnt(4,5) by (auto simp: ring_inv_def ring_counts_def ring_data_def Let_def q)
qed

lemma ring_inv_clear:
  assumes "consumer s = Idle" "SwapQueue_Clear d (ring_queue s) = Inr q" "ring_inv n s"
  shows "ring_inv n (s\<lparr>ring_queue := q, out := out s @ replicate (num_elements (ring_queue s)) None\<rparr>)"
proof -
  let ?m = "num_elements (ring_queue s)"
  have c: "ring_counts n s" "ring_data n s" "0 < n" using assms(3) by (simp_all add: ring_inv_def)
  have cnt: "length (queue (ring_queue s)) = n" "next_read_index (ring_queue s) = length (out s) mod n"
      "?m + length (out s) + in_flight (producer s) = length (sent s)" "length (sent s) \<le> length (out s) + n"
    using c(1) assms(1) by (simp_all add: ring_counts_def Let_def)
  have q: "q = (ring_queue s)\<lparr>num_elements := 0, next_read_index := (length (out s) + ?m) mod n\<rparr>"
    using SwapQueue_Clear_eq [OF assms(2), of "length (out s)"] cnt c(3) by simp
  have "ring_data n (s\<lparr>ring_queue := q, out := out s @ replicate ?m None\<rparr>)"
    using c(2) by (auto simp: ring_data_def q nth_append)
  moreover have "ring_counts n (s\<lparr>ring_queue := q, out := out s @ replicate ?m None\<rparr>)"
    using c(1) assms(1) cnt by (auto simp: ring_counts_def Let_def q)
  ultimately show ?thesis using c(3) by (simp add: ring_inv_def)
qed

lemma ring_inv_step: "ring_step d s t \<Longrightarrow> ring_inv n s \<Longrightarrow> ring_inv n t"
proof (induction rule: ring_step.induct)
  case (insert_load s x)
  then show ?case
    by (auto simp: ring_inv_def ring_counts_def ring_data_def Let_def Insert_full_def)
next
  case (insert_swap s x y q)
  then show ?case by (intro ring_inv_insert_swap)
next
  case (insert_publish s y q)
  then have c: "ring_counts n s" "ring_data n s" "0 < n" by (simp_all add: ring_inv_def)
  have cnt: "length (queue (ring_queue s)) = n" "next_write_index (ring_queue s) = (length (sent s) - 1) mod n"
      "sent s \<noteq> []"
    using c(1) insert_publish(1) by (auto simp: ring_counts_def Let_def)
  have q: "q = (ring_queue s)\<lparr>num_elements := num_elements (ring_queue s) + 1, next_write_index := length (sent s) mod n\<rparr>"
    using Insert_publish_eq [OF insert_publish(2), of "length (sent s) - 1"] cnt by simp
  show ?case
    using c insert_publish(1) by (auto simp: ring_inv_def ring_counts_def ring_data_def Let_def q)
next
  case (remove_load s y)
  then show ?case
    by (auto simp: ring_inv_def ring_counts_def ring_data_def Let_def Remove_empty_def)
next
  case (remove_swap s y x q)
  then show ?case by (intro ring_inv_remove_swap)
next
  case (remove_publish s x q)
  then show ?case by (intro ring_inv_remove_publish)
next
  case (clear s q)
  then show ?case by (intro ring_inv_clear)
qed

lemma ring_reach_inv: "ring_reach d n s \<Longrightarrow> 0 < n \<Longrightarrow> ring_inv n s"
proof (induction rule: ring_reach.induct)
  case (start x q)
  then have "q = \<lparr>next_write_index = 0, next_read_index = 0, num_elements = 0, queue = replicate n x\<rparr>"
    by (auto simp: SwapQueue_new_def Let_def bindR_eq_Inr dcheck_eq_Inr split: if_splits)
  with start show ?case by (simp add: ring_inv_def ring_counts_def ring_data_def)
next
  case (step s t)
  then show ?case using ring_inv_step by blast
qed

text \<open>
  C25. Between a producer and a consumer on two threads, however their steps interleave, with
  \<open>Clear\<close> at any time the consumer is outside: each position the consumer is done with was either
  dropped or gave exactly the item sent there, in order, and at most \<open>n\<close> are under way; when
  both threads are about to swap, they do so in different slots; and no step faults, neither an
  index nor a check.
\<close>

theorem swap_queue_threads:
  assumes "ring_reach d n s" "0 < n"
  shows "length (out s) \<le> length (sent s) \<and> length (sent s) \<le> length (out s) + n \<and>
    (\<forall>i < length (out s). out s ! i = None \<or> out s ! i = Some (sent s ! i)) \<and>
    (producer s = Ready x \<and> consumer s = Ready y \<longrightarrow>
      next_write_index (ring_queue s) \<noteq> next_read_index (ring_queue s)) \<and>
    (producer s = Ready x \<longrightarrow> resT (\<lambda>_. True) (Insert_swap x (ring_queue s))) \<and>
    (producer s = Swapped x \<longrightarrow> resT (\<lambda>_. True) (Insert_publish d (ring_queue s))) \<and>
    (consumer s = Ready y \<longrightarrow> resT (\<lambda>_. True) (Remove_swap y (ring_queue s))) \<and>
    (consumer s = Swapped y \<longrightarrow> resT (\<lambda>_. True) (Remove_publish d (ring_queue s))) \<and>
    (consumer s = Idle \<longrightarrow> resT (\<lambda>_. True) (SwapQueue_Clear d (ring_queue s)))"
proof -
  have i: "ring_counts n s" "ring_data n s" using ring_reach_inv [OF assms] by (simp_all add: ring_inv_def)
  let ?q = "ring_queue s"
  have c: "length (queue ?q) = n" "length (out s) \<le> length (sent s)" "length (sent s) \<le> length (out s) + n"
      "next_write_index ?q < n" "next_read_index ?q < n" "num_elements ?q \<le> n"
    using i(1) assms(2) by (auto simp: ring_counts_def Let_def)
  have race: "next_write_index ?q \<noteq> next_read_index ?q" if "producer s = Ready x" "consumer s = Ready y"
  proof -
    have "length (out s) < length (sent s)" "length (sent s) - length (out s) < n"
        "next_write_index ?q = length (sent s) mod n" "next_read_index ?q = length (out s) mod n"
      using i(1) that by (auto simp: ring_counts_def Let_def)
    then show ?thesis using mod_differ [of "length (out s)" "length (sent s)" n] by simp
  qed
  have full: "num_elements ?q < n" if "producer s = Swapped x"
    using i(1) that by (auto simp: ring_counts_def Let_def)
  show ?thesis
    using c race full i(2)
    by (auto simp: ring_data_def Insert_swap_def Remove_swap_def Insert_publish_def Remove_publish_def
        SwapQueue_Clear_def Let_def resT_bindR)
qed

theorem swap_queue_threads_witness:
  "\<exists>s. ring_reach True 1 s \<and> sent s = [7 :: nat] \<and> consumer s = Ready 0 \<and>
     resT (\<lambda>_. True) (Remove_swap 0 (ring_queue s))"
proof -
  let ?q = "\<lparr>next_write_index = 0, next_read_index = 0, num_elements = 0, queue = [0 :: nat]\<rparr>"
  let ?s = "\<lparr>ring_queue = ?q, producer = Idle, consumer = Idle, sent = [], out = []\<rparr>"
  have "SwapQueue_new True (\<lambda>x. True) 1 (0 :: nat) = Inr ?q"
    by (simp add: SwapQueue_new_def VerifyQueueSlots_def)
  then have "ring_reach True 1 ?s" by (rule ring_reach.start)
  from ring_reach.step [OF this ring_step.insert_load [where x = 7]]
  have "ring_reach True 1 (?s\<lparr>producer := Ready 7\<rparr>)" by (simp add: Insert_full_def)
  from ring_reach.step [OF this ring_step.insert_swap [where x = 7 and y = 0 and q = "?q\<lparr>queue := [7]\<rparr>"]]
  have "ring_reach True 1 (?s\<lparr>producer := Swapped 0, ring_queue := ?q\<lparr>queue := [7]\<rparr>, sent := [7]\<rparr>)"
    by (simp add: Insert_swap_def)
  from ring_reach.step [OF this ring_step.insert_publish [where y = 0 and q = "?q\<lparr>queue := [7], num_elements := 1\<rparr>"]]
  have "ring_reach True 1 (?s\<lparr>ring_queue := ?q\<lparr>queue := [7], num_elements := 1\<rparr>, sent := [7]\<rparr>)"
    by (simp add: Insert_publish_def Let_def)
  from ring_reach.step [OF this ring_step.remove_load [where y = 0]]
  have r: "ring_reach True 1 (?s\<lparr>ring_queue := ?q\<lparr>queue := [7], num_elements := 1\<rparr>, sent := [7], consumer := Ready 0\<rparr>)"
      (is "ring_reach _ _ ?t")
    by (simp add: Remove_empty_def)
  from swap_queue_threads [OF r, of undefined 0] r show ?thesis by (intro exI [of _ ?t]) simp
qed

end
