(* ===== verification/Moving_Filters.thy ===== *)
theory Moving_Filters
  imports Units
begin

text \<open>
  Filters over a window of samples: \<open>MovingMaxCounter\<close> of rtc_base/numerics/moving_max_counter.h,
  \<open>PercentileFilter\<close> of percentile_filter.h and \<open>MovingMedianFilter\<close> of moving_median_filter.h.
  A \<open>std::multiset\<close> is its elements in order, an iterator into it the position of its element;
  inserting and erasing before an iterator moves its position.  \<open>d\<close> says whether the build has
  \<open>RTC_DCHECK\<close>s.
\<close>

section \<open>MovingMaxCounter\<close>

record 'a max_counter =
  window_length_ms :: int
  max_samples :: "(int \<times> 'a) list"
  last_call_time_ms :: int

definition MovingMaxCounter_new :: "int \<Rightarrow> 'a max_counter" where
  "MovingMaxCounter_new window_length = \<lparr>window_length_ms = window_length, max_samples = [], last_call_time_ms = - (2 ^ 63)\<rparr>"

definition RollWindow :: "bool \<Rightarrow> int \<Rightarrow> 'a max_counter \<Rightarrow> 'a max_counter res" where
  "RollWindow d new_time_ms c =
     bindR (dcheck d (new_time_ms \<ge> last_call_time_ms c) ()) (\<lambda>_.
       let c = (if d then c\<lparr>last_call_time_ms := new_time_ms\<rparr> else c) in
       bindR (i64 (new_time_ms - window_length_ms c)) (\<lambda>window_begin_ms.
         Inr (c\<lparr>max_samples := dropWhile (\<lambda>(t, v). t < window_begin_ms) (max_samples c)\<rparr>)))"

definition MovingMax_Add :: "bool \<Rightarrow> 'a::linorder \<Rightarrow> int \<Rightarrow> 'a max_counter \<Rightarrow> 'a max_counter res" where
  "MovingMax_Add d sample current_time_ms c =
     bindR (RollWindow d current_time_ms c) (\<lambda>c.
       let kept = rev (dropWhile (\<lambda>(t, v). v \<le> sample) (rev (max_samples c)))
       in Inr (if kept = [] \<or> fst (last kept) < current_time_ms
               then c\<lparr>max_samples := kept @ [(current_time_ms, sample)]\<rparr>
               else c\<lparr>max_samples := kept\<rparr>))"

definition MovingMax_Max :: "bool \<Rightarrow> int \<Rightarrow> 'a max_counter \<Rightarrow> ('a option \<times> 'a max_counter) res" where
  "MovingMax_Max d current_time_ms c =
     bindR (RollWindow d current_time_ms c) (\<lambda>c.
       Inr (case max_samples c of [] \<Rightarrow> None | (t, v) # _ \<Rightarrow> Some v, c))"

definition MovingMax_Reset :: "'a max_counter \<Rightarrow> 'a max_counter" where
  "MovingMax_Reset c = c\<lparr>max_samples := []\<rparr>"

section \<open>PercentileFilter\<close>

text \<open>
  Rounding an integer to \<open>b\<close> significant bits, ties to even: conversion to and multiplication in
  \<open>float\<close> with \<open>b = 24\<close>.  A percentile is \<open>m / 2\<^sup>e\<close>, as every \<open>float\<close> of \<open>[0, 1]\<close> is.
\<close>

fun bit_length :: "nat \<Rightarrow> nat" where
  "bit_length n = (if n = 0 then 0 else 1 + bit_length (n div 2))"

declare bit_length.simps [simp del]

definition round_bits :: "nat \<Rightarrow> nat \<Rightarrow> nat" where
  "round_bits b n =
     (let k = 2 ^ (bit_length n - b); q = n div k; r = n mod k
      in (if 2 * r > k \<or> 2 * r = k \<and> odd q then q + 1 else q) * k)"

definition percentile_target :: "nat \<times> nat \<Rightarrow> nat \<Rightarrow> nat" where
  "percentile_target p n = round_bits 24 (fst p * round_bits 24 (n - 1)) div 2 ^ snd p"

record 'a percentile_filter =
  percentile :: "nat \<times> nat"
  pset :: "'a list"
  percentile_it :: nat
  percentile_index :: int

definition PercentileFilter_new :: "nat \<times> nat \<Rightarrow> 'a percentile_filter res" where
  "PercentileFilter_new p =
     (if fst p \<le> 2 ^ snd p
      then Inr \<lparr>percentile = p, pset = [], percentile_it = 0, percentile_index = 0\<rparr>
      else Inl Check_failed)"

text \<open>\<open>std::advance\<close> past either end is undefined.\<close>

definition UpdatePercentileIterator :: "'a percentile_filter \<Rightarrow> 'a percentile_filter res" where
  "UpdatePercentileIterator f =
     (if pset f = [] then Inr f
      else
        let index = int (percentile_target (percentile f) (length (pset f)));
            pos = int (percentile_it f) + (index - percentile_index f)
        in if 0 \<le> pos \<and> pos \<le> int (length (pset f))
           then Inr (f\<lparr>percentile_it := nat pos, percentile_index := index\<rparr>)
           else Inl Index_fault)"

definition deref :: "'a list \<Rightarrow> nat \<Rightarrow> 'a res" where
  "deref xs i = (if i < length xs then Inr (xs ! i) else Inl Index_fault)"

definition PercentileFilter_Insert :: "'a::linorder \<Rightarrow> 'a percentile_filter \<Rightarrow> 'a percentile_filter res" where
  "PercentileFilter_Insert v f =
     (let upper = length (takeWhile (\<lambda>x. x \<le> v) (pset f));
          f = f\<lparr>pset := take upper (pset f) @ v # drop upper (pset f),
                percentile_it := (if upper \<le> percentile_it f then percentile_it f + 1 else percentile_it f)\<rparr>
      in bindR (if length (pset f) = 1 then Inr (f\<lparr>percentile_it := 0, percentile_index := 0\<rparr>)
                else bindR (deref (pset f) (percentile_it f)) (\<lambda>x.
                       Inr (if v < x then f\<lparr>percentile_index := percentile_index f + 1\<rparr> else f)))
           UpdatePercentileIterator)"

definition PercentileFilter_Erase :: "'a::linorder \<Rightarrow> 'a percentile_filter \<Rightarrow> (bool \<times> 'a percentile_filter) res" where
  "PercentileFilter_Erase v f =
     (let it = length (takeWhile (\<lambda>x. x < v) (pset f)) in
      if it = length (pset f) \<or> pset f ! it \<noteq> v then Inr (False, f)
      else
        let rest = take it (pset f) @ drop (it + 1) (pset f) in
        bindR (if it = percentile_it f then Inr (f\<lparr>pset := rest\<rparr>)
               else
                 let f = f\<lparr>pset := rest, percentile_it := (if it < percentile_it f then percentile_it f - 1 else percentile_it f)\<rparr>
                 in bindR (deref (pset f) (percentile_it f)) (\<lambda>x.
                      Inr (if v \<le> x then f\<lparr>percentile_index := percentile_index f - 1\<rparr> else f)))
          (\<lambda>f. bindR (UpdatePercentileIterator f) (\<lambda>f. Inr (True, f))))"

definition GetPercentileValue :: "'a::zero percentile_filter \<Rightarrow> 'a res" where
  "GetPercentileValue f = (if pset f = [] then Inr 0 else deref (pset f) (percentile_it f))"

definition PercentileFilter_Reset :: "'a percentile_filter \<Rightarrow> 'a percentile_filter" where
  "PercentileFilter_Reset f = f\<lparr>pset := [], percentile_it := 0, percentile_index := 0\<rparr>"

section \<open>MovingMedianFilter\<close>

record 'a median_filter =
  median_percentile :: "'a percentile_filter"
  median_samples :: "'a list"
  samples_stored :: nat
  window_size :: nat

definition MovingMedianFilter_new :: "nat \<Rightarrow> 'a median_filter res" where
  "MovingMedianFilter_new window =
     bindR (PercentileFilter_new (1, 1)) (\<lambda>f.
       if window > 0 then Inr \<lparr>median_percentile = f, median_samples = [], samples_stored = 0, window_size = window\<rparr>
       else Inl Check_failed)"

definition MovingMedian_Insert :: "'a::linorder \<Rightarrow> 'a median_filter \<Rightarrow> 'a median_filter res" where
  "MovingMedian_Insert v f =
     bindR (PercentileFilter_Insert v (median_percentile f)) (\<lambda>p.
       let f = f\<lparr>median_percentile := p, median_samples := median_samples f @ [v], samples_stored := samples_stored f + 1\<rparr>
       in if samples_stored f > window_size f
          then bindR (deref (median_samples f) 0) (\<lambda>front.
               bindR (PercentileFilter_Erase front (median_percentile f)) (\<lambda>(ok, p).
                 Inr (f\<lparr>median_percentile := p, median_samples := tl (median_samples f),
                         samples_stored := samples_stored f - 1\<rparr>)))
          else Inr f)"

definition GetFilteredValue :: "'a::zero median_filter \<Rightarrow> 'a res" where
  "GetFilteredValue f = GetPercentileValue (median_percentile f)"

definition MovingMedian_Reset :: "'a median_filter \<Rightarrow> 'a median_filter" where
  "MovingMedian_Reset f =
     f\<lparr>median_percentile := PercentileFilter_Reset (median_percentile f), median_samples := [], samples_stored := 0\<rparr>"

definition GetNumberOfSamplesStored :: "'a median_filter \<Rightarrow> nat" where
  "GetNumberOfSamplesStored f = samples_stored f"

end
