(* ===== verification/Filter_Props.thy ===== *)
theory Filter_Props
  imports Moving_Filters "HOL-Library.Multiset"
begin

text \<open>
  The window filters against their definitions over the whole history: the largest sample of a
  time window, and the median of the last samples.
\<close>

section \<open>The moving maximum\<close>

text \<open>
  The samples kept are a staircase, later and smaller; every sample of the history that is still
  in the window is dominated by one kept that is no older.
\<close>

definition staircase :: "(int \<times> 'a::linorder) list \<Rightarrow> bool" where
  "staircase = sorted_wrt (\<lambda>(s, v) (t, w). s < t \<and> w < v)"

definition dominated :: "int \<Rightarrow> (int \<times> 'a::linorder) list \<Rightarrow> (int \<times> 'a) list \<Rightarrow> bool" where
  "dominated begin hist kept \<longleftrightarrow>
     (\<forall>(s, v) \<in> set hist. begin \<le> s \<longrightarrow> (\<exists>(t, w) \<in> set kept. s \<le> t \<and> v \<le> w))"

definition max_inv :: "(int \<times> 'a::linorder) list \<Rightarrow> int \<Rightarrow> 'a max_counter \<Rightarrow> bool" where
  "max_inv hist now c \<longleftrightarrow>
     staircase (max_samples c) \<and> set (max_samples c) \<subseteq> set hist \<and> (\<forall>(s, v) \<in> set hist. s \<le> now) \<and>
     dominated (now - window_length_ms c) hist (max_samples c) \<and> last_call_time_ms c \<le> now"

lemma staircase_simps [simp]:
  "staircase []" "staircase (x # xs) \<longleftrightarrow> (\<forall>(t, w) \<in> set xs. fst x < t \<and> w < snd x) \<and> staircase xs"
  by (auto simp: staircase_def split: prod.splits)

lemma staircase_append: "staircase (xs @ ys) \<longleftrightarrow> staircase xs \<and> staircase ys \<and>
   (\<forall>(s, v) \<in> set xs. \<forall>(t, w) \<in> set ys. s < t \<and> w < v)"
  by (auto simp: staircase_def sorted_wrt_append)

lemma staircase_dropWhile: "staircase xs \<Longrightarrow> staircase (dropWhile P xs)"
  by (induction xs) auto

lemma set_dropWhile_old:
  "staircase xs \<Longrightarrow> set (dropWhile (\<lambda>(t, v). t < b) xs) = {(t, v) \<in> set xs. b \<le> t}"
  by (subst set_prefix(2)) (auto simp: staircase_def elim!: sorted_wrt_mono_rel [rotated])

lemma dominated_snoc:
  "dominated b hist kept \<Longrightarrow> \<exists>(s, w) \<in> set kept. t \<le> s \<and> v \<le> w \<Longrightarrow> dominated b (hist @ [(t, v)]) kept"
  by (auto simp: dominated_def)

lemma RollWindow_inv:
  assumes "max_inv hist now c" "now \<le> t" "in_i64 (t - window_length_ms c)"
  shows "resT (\<lambda>c'. max_inv hist t c' \<and> window_length_ms c' = window_length_ms c \<and>
    (\<forall>(s, v) \<in> set (max_samples c'). t - window_length_ms c \<le> s)) (RollWindow d t c)"
proof -
  let ?b = "t - window_length_ms c"
  let ?kept = "dropWhile (\<lambda>(t, v). t < ?b) (max_samples c)"
  have st: "staircase (max_samples c)" using assms(1) by (simp add: max_inv_def)
  note kept = set_dropWhile_old [OF st, of ?b]
  have dom: "dominated ?b hist ?kept"
    unfolding dominated_def
  proof (intro ballI, clarify)
    fix s v assume sv: "(s, v) \<in> set hist" "?b \<le> s"
    then have "now - window_length_ms c \<le> s" using assms(2) by simp
    with sv(1) obtain t' w where "(t', w) \<in> set (max_samples c)" "s \<le> t'" "v \<le> w"
      using assms(1) unfolding max_inv_def dominated_def by fast
    with sv(2) show "\<exists>(t, w) \<in> set ?kept. s \<le> t \<and> v \<le> w" by (intro bexI [of _ "(t', w)"]) (auto simp: kept)
  qed
  have "set ?kept \<subseteq> set hist" using assms(1) by (auto simp: kept max_inv_def)
  moreover have "\<forall>(s, v) \<in> set hist. s \<le> t" using assms(1,2) by (force simp: max_inv_def)
  moreover have "last_call_time_ms c \<le> t" using assms(1,2) by (simp add: max_inv_def)
  ultimately show ?thesis
    using dom staircase_dropWhile [OF st] kept assms(3)
    by (auto simp: RollWindow_def i64_def max_inv_def Let_def)
qed

text \<open>Dropping the smaller samples at the end keeps the larger ones.\<close>

lemma larger_prefix:
  "staircase xs \<Longrightarrow> rev (dropWhile (\<lambda>(t, v). v \<le> x) (rev xs)) = takeWhile (\<lambda>(t, v). x < v) xs"
proof (induction xs rule: rev_induct)
  case (snoc y xs)
  show ?case
  proof (cases "snd y \<le> x")
    case True
    with snoc show ?thesis by (auto simp: staircase_append case_prod_beta takeWhile_append not_le)
  next
    case False
    then have "\<forall>z \<in> set xs. x < snd z" using snoc.prems by (force simp: staircase_append case_prod_beta)
    with False show ?thesis by (simp add: case_prod_beta not_le)
  qed
qed simp

lemma set_larger:
  "staircase xs \<Longrightarrow> set (takeWhile (\<lambda>(t, v). x < v) xs) = {(t, v) \<in> set xs. x < v}"
  by (subst set_prefix(1)) (auto simp: staircase_def elim!: sorted_wrt_mono_rel [rotated])

lemma staircase_takeWhile: "staircase xs \<Longrightarrow> staircase (takeWhile P xs)"
  by (metis staircase_append takeWhile_dropWhile_id)

lemma MovingMax_Add_inv:
  assumes "max_inv hist now c" "now \<le> t" "in_i64 (t - window_length_ms c)"
  shows "resT (\<lambda>c'. max_inv (hist @ [(t, v)]) t c' \<and> window_length_ms c' = window_length_ms c)
    (MovingMax_Add d v t c)"
  unfolding MovingMax_Add_def
proof (rule resT_bindI [OF RollWindow_inv [OF assms]])
  fix c' assume c': "max_inv hist t c' \<and> window_length_ms c' = window_length_ms c \<and>
    (\<forall>(s, v) \<in> set (max_samples c'). t - window_length_ms c \<le> s)"
  let ?xs = "max_samples c'"
  let ?kept = "takeWhile (\<lambda>(t, w). v < w) ?xs"
  let ?new = "if ?kept = [] \<or> fst (last ?kept) < t then ?kept @ [(t, v)] else ?kept"
  have st: "staircase ?xs" and sub: "set ?xs \<subseteq> set hist" and le: "\<forall>(s, v) \<in> set hist. s \<le> t"
      and dom: "dominated (t - window_length_ms c) hist ?xs"
    using c' by (auto simp: max_inv_def)
  note kept = set_larger [OF st, of v]
  have stk: "staircase ?kept" using st by (rule staircase_takeWhile)
  have early: "fst z < t" if "z \<in> set ?kept" "?kept = [] \<or> fst (last ?kept) < t" for z
  proof -
    have "?kept \<noteq> []" using that(1) by (metis empty_iff empty_set)
    then obtain ys y where y: "?kept = ys @ [y]" by (metis rev_exhaust)
    with stk have "\<forall>z \<in> set ys. fst z < fst y" by (force simp: staircase_append)
    with y that show ?thesis by force
  qed
  have "staircase ?new"
    using early stk kept by (auto simp: staircase_append)
  moreover have "set ?new \<subseteq> set (hist @ [(t, v)])" using kept sub by auto
  moreover have "dominated (t - window_length_ms c) (hist @ [(t, v)]) ?new"
  proof -
    have new: "\<exists>(s, w) \<in> set ?new. t \<le> s \<and> v \<le> w"
    proof (cases "?kept = [] \<or> fst (last ?kept) < t")
      case False
      then have "last ?kept \<in> set ?kept" by simp
      with kept have "v < snd (last ?kept)" by auto
      with False \<open>last ?kept \<in> set ?kept\<close> show ?thesis by (intro bexI [of _ "last ?kept"]) (auto simp: case_prod_beta)
    qed simp
    have "\<exists>(s', w') \<in> set ?new. s \<le> s' \<and> w \<le> w'"
      if h: "(s, w) \<in> set hist" "t - window_length_ms c \<le> s" for s w
    proof -
      obtain s' w' where s': "(s', w') \<in> set ?xs" "s \<le> s'" "w \<le> w'"
        using dom h unfolding dominated_def by blast
      show ?thesis
      proof (cases "v < w'")
        case True
        with s' kept have "(s', w') \<in> set ?new" by auto
        with s' show ?thesis by blast
      next
        case False
        have "s' \<le> t" using s'(1) sub le by blast
        moreover obtain t2 w2 where "(t2, w2) \<in> set ?new" "t \<le> t2" "v \<le> w2" using new by blast
        ultimately show ?thesis using s' False by (intro bexI [of _ "(t2, w2)"]) auto
      qed
    qed
    then have "dominated (t - window_length_ms c) hist ?new" unfolding dominated_def by blast
    with new show ?thesis by (intro dominated_snoc)
  qed
  ultimately show "resT (\<lambda>c'. max_inv (hist @ [(t, v)]) t c' \<and> window_length_ms c' = window_length_ms c)
      (let kept = rev (dropWhile (\<lambda>(t, w). w \<le> v) (rev ?xs))
       in Inr (if kept = [] \<or> fst (last kept) < t then c'\<lparr>max_samples := kept @ [(t, v)]\<rparr>
               else c'\<lparr>max_samples := kept\<rparr>))"
    using c' le by (auto simp: larger_prefix [OF st] max_inv_def Let_def)
qed

lemma MovingMax_Add_all:
  "max_inv hist now c \<Longrightarrow> sorted (now # map fst xs) \<Longrightarrow> \<forall>(t, v) \<in> set xs. in_i64 (t - window_length_ms c) \<Longrightarrow>
     resT (\<lambda>c'. max_inv (hist @ xs) (last (now # map fst xs)) c' \<and> window_length_ms c' = window_length_ms c)
       (foldR (\<lambda>(t, v). MovingMax_Add d v t) xs c)"
proof (induction xs arbitrary: hist now c)
  case (Cons x xs)
  obtain t v where x: "x = (t, v)" by (cases x)
  with Cons.prems MovingMax_Add_inv [of hist now c t v d] obtain c1 where
    c1: "MovingMax_Add d v t c = Inr c1" "max_inv (hist @ [(t, v)]) t c1" "window_length_ms c1 = window_length_ms c"
    by (auto simp: resT_iff)
  with Cons.IH [OF c1(2)] Cons.prems x show ?case by simp
qed simp

text \<open>
  A \<open>MovingMaxCounter\<close> fed samples in the order of their times answers, at any later time, the
  largest sample not older than the window, and nothing when there is none; no step of it
  overflows or fails a check while the window's begin stays within 64 bits.
\<close>

theorem moving_max:
  assumes "sorted (map fst xs @ [now])"
    and "\<forall>t \<in> set (map fst xs @ [now]). in_i64 t \<and> in_i64 (t - w)"
  shows "resT (\<lambda>(m, c). m = (let vs = map snd (filter (\<lambda>(t, v). now - w \<le> t) xs) in if vs = [] then None else Some (Max (set vs))))
    (bindR (foldR (\<lambda>(t, v). MovingMax_Add d v t) xs (MovingMaxCounter_new w)) (MovingMax_Max d now))"
proof -
  have "max_inv [] (- (2 ^ 63)) (MovingMaxCounter_new w :: 'a max_counter)"
    by (simp add: max_inv_def MovingMaxCounter_new_def dominated_def)
  moreover have "sorted (- (2 ^ 63) # map fst xs)" using assms by (auto simp: in_i64_def sorted_append)
  moreover have "\<forall>(t, v) \<in> set xs. in_i64 (t - window_length_ms (MovingMaxCounter_new w :: 'a max_counter))"
    using assms(2) by (auto simp: MovingMaxCounter_new_def)
  ultimately obtain c where c: "foldR (\<lambda>(t, v). MovingMax_Add d v t) xs (MovingMaxCounter_new w) = Inr c"
      "max_inv xs (last (- (2 ^ 63) # map fst xs)) c" "window_length_ms c = w"
    using MovingMax_Add_all [of "[]" "- (2 ^ 63)" "MovingMaxCounter_new w" xs d]
    by (auto simp: resT_iff MovingMaxCounter_new_def)
  have "last (- (2 ^ 63) # map fst xs) \<le> now"
    using assms by (cases xs rule: rev_cases) (auto simp: in_i64_def sorted_append)
  from RollWindow_inv [OF c(2) this, of d] c(3) assms(2) obtain c' where
    c': "RollWindow d now c = Inr c'" "max_inv xs now c'" "window_length_ms c' = w"
      "\<forall>(s, v) \<in> set (max_samples c'). now - w \<le> s"
    by (auto simp: resT_iff)
  let ?list = "map snd (filter (\<lambda>(t, v). now - w \<le> t) xs)"
  let ?vs = "set ?list"
  have "(case max_samples c' of [] \<Rightarrow> None | (t, v) # _ \<Rightarrow> Some v) = (if ?list = [] then None else Some (Max ?vs))"
  proof (cases "max_samples c'")
    case Nil
    with c'(2,3) have "?list = []" by (auto simp: max_inv_def dominated_def filter_empty_conv)
    with Nil show ?thesis by simp
  next
    case (Cons y ys)
    obtain t v where y: "y = (t, v)" by (cases y)
    with Cons c'(4) have t: "now - w \<le> t" by simp
    have "(t, v) \<in> set xs" using Cons y c'(2) by (auto simp: max_inv_def)
    with t have v: "v \<in> ?vs" by (auto intro!: image_eqI [of _ snd "(t, v)"])
    have top: "w' \<le> v" if "(s, w') \<in> set (max_samples c')" for s w'
      using that Cons y c'(2) by (force simp: max_inv_def)
    have "u \<le> v" if "u \<in> ?vs" for u
    proof -
      from that c'(2,3) obtain s w' where "(s, w') \<in> set (max_samples c')" "u \<le> w'"
        by (fastforce simp: max_inv_def dominated_def)
      with top show ?thesis by fastforce
    qed
    with v have "Max ?vs = v" by (intro Max_eqI) auto
    moreover from v have "?list \<noteq> []" by (metis list.set(1) emptyE)
    ultimately show ?thesis using Cons y by simp
  qed
  moreover have "MovingMax_Max d now c = Inr (case max_samples c' of [] \<Rightarrow> None | (t, v) # _ \<Rightarrow> Some v, c')"
    using c' by (simp add: MovingMax_Max_def)
  ultimately show ?thesis unfolding c(1) bindR_Inr by (simp only: resT_Inr prod.case Let_def)
qed

theorem moving_max_witness:
  "resT (\<lambda>(m, c). m = Some (5 :: int))
    (bindR (foldR (\<lambda>(t, v). MovingMax_Add True v t) [(0, 9), (8, 5), (10, 3)] (MovingMaxCounter_new 10)) (MovingMax_Max True 15))"
proof -
  let ?xs = "[(0, 9), (8, 5), (10, 3)] :: (int \<times> int) list"
  have "sorted (map fst ?xs @ [15])" "\<forall>t \<in> set (map fst ?xs @ [15]). in_i64 t \<and> in_i64 (t - 10)"
    by (simp_all add: in_i64_def)
  from moving_max [OF this, of True] show ?thesis by (simp only: filter.simps) simp
qed

section \<open>The percentile\<close>

text \<open>
  The iterator stands at the index, and the index is the target of the number of elements.  A
  target within the set for every size up to \<open>N\<close> is what the operations rely on.
\<close>

definition percentile_ok :: "nat \<Rightarrow> nat \<times> nat \<Rightarrow> bool" where
  "percentile_ok N p \<longleftrightarrow> (\<forall>n. 0 < n \<and> n \<le> N \<longrightarrow> percentile_target p n < n)"

definition percentile_pos :: "'a percentile_filter \<Rightarrow> nat" where
  "percentile_pos f = (if pset f = [] then 0 else percentile_target (percentile f) (length (pset f)))"

definition percentile_inv :: "'a::linorder percentile_filter \<Rightarrow> bool" where
  "percentile_inv f \<longleftrightarrow> sorted (pset f) \<and> percentile_it f = percentile_pos f \<and> percentile_index f = int (percentile_pos f)"

lemma UpdatePercentileIterator_eq:
  assumes "percentile_index f = int (percentile_it f)" "percentile_pos f \<le> length (pset f)"
    and "pset f = [] \<Longrightarrow> percentile_it f = 0"
  shows "UpdatePercentileIterator f = Inr (f\<lparr>percentile_it := percentile_pos f, percentile_index := int (percentile_pos f)\<rparr>)"
  using assms by (cases "pset f = []") (simp_all add: UpdatePercentileIterator_def percentile_pos_def Let_def)

lemma percentile_pos_less:
  "percentile_ok N (percentile f) \<Longrightarrow> length (pset f) \<le> N \<Longrightarrow> pset f \<noteq> [] \<Longrightarrow> percentile_pos f < length (pset f)"
  by (simp add: percentile_ok_def percentile_pos_def)

lemma percentile_pos_le:
  "percentile_ok N (percentile f) \<Longrightarrow> length (pset f) \<le> N \<Longrightarrow> percentile_pos f \<le> length (pset f)"
  using percentile_pos_less [of N f] by (cases "pset f = []") (auto simp: percentile_pos_def)

lemma remove_sorted:
  assumes "xs = as @ v # bs" "sorted xs"
  shows "mset xs = add_mset v (mset (as @ bs))" "sorted (as @ bs)"
  using assms by (auto simp: sorted_append)

lemma nth_removed:
  assumes "k < length xs" "i < length xs" "k \<noteq> i"
  shows "(take k xs @ drop (k + 1) xs) ! (if k < i then i - 1 else i) = xs ! i"
    "(if k < i then i - 1 else i) < length (take k xs @ drop (k + 1) xs)"
  using assms by (auto simp: nth_append)

lemma sorted_insert_upper:
  assumes "sorted xs"
  shows "sorted (takeWhile (\<lambda>x. x \<le> v) xs @ v # dropWhile (\<lambda>x. x \<le> v) xs)"
  using assms set_prefix [OF sorted_down_closed(1) [OF assms, of v]] sorted_takeWhile [OF assms] sorted_dropWhile [OF assms]
  by (auto simp: sorted_append not_le)

lemma take_drop_prefix:
  "take (length (takeWhile P xs)) xs = takeWhile P xs" "drop (length (takeWhile P xs)) xs = dropWhile P xs"
  by (simp_all add: takeWhile_eq_take [symmetric] dropWhile_eq_drop [symmetric])

lemma PercentileFilter_Insert_ok:
  assumes "percentile_inv f" "percentile_ok N (percentile f)" "length (pset f) < N"
  shows "resT (\<lambda>f'. percentile_inv f' \<and> percentile f' = percentile f \<and> mset (pset f') = add_mset v (mset (pset f)))
    (PercentileFilter_Insert v f)"
proof -
  let ?u = "length (takeWhile (\<lambda>x. x \<le> v) (pset f))"
  let ?xs = "takeWhile (\<lambda>x. x \<le> v) (pset f) @ v # dropWhile (\<lambda>x. x \<le> v) (pset f)"
  let ?it = "if ?u \<le> percentile_it f then percentile_it f + 1 else percentile_it f"
  let ?f = "f\<lparr>pset := ?xs, percentile_it := if pset f = [] then 0 else ?it, percentile_index := int (if pset f = [] then 0 else ?it)\<rparr>"
  have srt: "sorted (pset f)" using assms(1) by (simp add: percentile_inv_def)
  have len: "length ?xs = length (pset f) + 1"
    using length_prefix [of "\<lambda>x. x \<le> v" "pset f"] by simp
  have pos: "percentile_pos ?f < length ?xs"
    using percentile_pos_less [of N ?f] assms(2,3) len by simp
  have ms: "mset ?xs = add_mset v (mset (pset f))"
    using arg_cong [OF takeWhile_dropWhile_id [of "\<lambda>x. x \<le> v" "pset f"], of mset]
    by (simp only: mset_append mset.simps union_mset_add_mset_right)
  have "PercentileFilter_Insert v f = UpdatePercentileIterator ?f"
  proof (cases "pset f = []")
    case False
    then have it: "percentile_it f < length (pset f)" "percentile_index f = int (percentile_it f)"
      using assms percentile_pos_less [of N f] by (auto simp: percentile_inv_def)
    note prefix_nth [OF sorted_down_closed(1) [OF srt, of v] it(1)]
    moreover have "?xs ! ?it = pset f ! percentile_it f"
    proof (cases "?u \<le> percentile_it f")
      case True
      then have "?xs ! ?it = drop ?u (pset f) ! (percentile_it f - ?u)"
        by (simp add: nth_append Suc_diff_le take_drop_prefix)
      with True it(1) show ?thesis by simp
    next
      case below: False
      then show ?thesis by (simp add: nth_append takeWhile_nth)
    qed
    ultimately show ?thesis using False it len
      by (auto simp: PercentileFilter_Insert_def Let_def take_drop_prefix deref_def not_le intro!: arg_cong [of _ _ UpdatePercentileIterator] percentile_filter.equality)
  qed (simp add: PercentileFilter_Insert_def)
  also have "\<dots> = Inr (?f\<lparr>percentile_it := percentile_pos ?f, percentile_index := int (percentile_pos ?f)\<rparr>)"
    using pos by (intro UpdatePercentileIterator_eq) auto
  finally show ?thesis
    using sorted_insert_upper [OF srt] ms
    by (simp add: percentile_inv_def percentile_pos_def)
qed

lemma sorted_found:
  fixes v :: "'a::linorder"
  defines "k xs \<equiv> length (takeWhile (\<lambda>x. x < v) xs)"
  assumes "sorted xs"
  shows "v \<in> set xs \<longleftrightarrow> k xs < length xs \<and> xs ! k xs = v"
proof
  note low = prefix_nth [OF sorted_down_closed(2) [OF assms(2), of v], folded k_def]
  assume "v \<in> set xs"
  then obtain i where i: "i < length xs" "xs ! i = v" by (auto simp: in_set_conv_nth)
  with low [of i] have "k xs \<le> i" by auto
  with i low [of "k xs"] show "k xs < length xs \<and> xs ! k xs = v"
    using sorted_nth_mono [OF assms(2), of "k xs" i] by force
qed (metis nth_mem)

lemma PercentileFilter_Erase_ok:
  assumes "percentile_inv f" "percentile_ok N (percentile f)" "length (pset f) \<le> N"
  shows "resT (\<lambda>(ok, f'). percentile_inv f' \<and> percentile f' = percentile f \<and> (ok \<longleftrightarrow> v \<in> set (pset f)) \<and>
    mset (pset f') = mset (pset f) - {#v#}) (PercentileFilter_Erase v f)"
proof -
  let ?k = "length (takeWhile (\<lambda>x. x < v) (pset f))"
  have srt: "sorted (pset f)" using assms(1) by (simp add: percentile_inv_def)
  note low = prefix_nth [OF sorted_down_closed(2) [OF srt, of v]]
  note found = sorted_found [OF srt, of v]
  show ?thesis
  proof (cases "v \<in> set (pset f)")
    case False
    with found length_takeWhile_le [of "\<lambda>x. x < v" "pset f"] assms(1) show ?thesis
      by (auto simp: PercentileFilter_Erase_def Let_def not_in_iff diff_single_trivial)
  next
    case True
    with found have k: "?k < length (pset f)" "pset f ! ?k = v" by auto
    let ?rest = "take ?k (pset f) @ drop (?k + 1) (pset f)"
    let ?it = "if ?k < percentile_it f then percentile_it f - 1 else percentile_it f"
    let ?f = "f\<lparr>pset := ?rest, percentile_it := ?it, percentile_index := int ?it\<rparr>"
    have "pset f \<noteq> []" using k(1) by (metis list.size(3) not_less_zero)
    from percentile_pos_less [OF assms(2,3) this]
    have it: "percentile_it f < length (pset f)" "percentile_index f = int (percentile_it f)"
      using assms(1) by (simp_all only: percentile_inv_def)
    have split: "pset f = take ?k (pset f) @ v # drop (?k + 1) (pset f)"
      using id_take_nth_drop [OF k(1)] k(2) by simp
    from remove_sorted [OF split srt] have ms: "mset (pset f) = add_mset v (mset ?rest)" and "sorted ?rest" .
    have len: "length (pset f) = Suc (length ?rest)" using k(1) by simp
    have le: "percentile_pos ?f \<le> length ?rest"
      using percentile_pos_le [of N ?f] assms(2,3) unfolding len by simp
    have upd: "UpdatePercentileIterator ?f = Inr (?f\<lparr>percentile_it := percentile_pos ?f, percentile_index := int (percentile_pos ?f)\<rparr>)"
    proof (rule UpdatePercentileIterator_eq)
      assume "pset ?f = []"
      then have "length (pset ?f) = 0" by (rule iffD2 [OF length_0_conv])
      then have "length ?rest = 0" by simp
      with len it(1) show "percentile_it ?f = 0" by simp
    qed (use le in simp_all)
    have "PercentileFilter_Erase v f = bindR (UpdatePercentileIterator ?f) (\<lambda>f. Inr (True, f))"
    proof (cases "?k = percentile_it f")
      case True
      then have "f\<lparr>pset := ?rest\<rparr> = ?f" using it(2) by (auto intro!: percentile_filter.equality)
      with True k show ?thesis by (simp add: PercentileFilter_Erase_def Let_def)
    next
      case False
      have "deref ?rest ?it = Inr (pset f ! percentile_it f)"
        unfolding deref_def using nth_removed [OF k(1) it(1) False] by (simp only: if_True)
      note d = this
      show ?thesis
      proof (cases "?k < percentile_it f")
        case True
        then have "percentile_index f - 1 = int ?it" "v \<le> pset f ! percentile_it f"
          using it low [OF it(1)] by auto
        with d k False True show ?thesis by (simp add: PercentileFilter_Erase_def Let_def)
      next
        case below: False
        then have "f\<lparr>pset := ?rest, percentile_it := ?it\<rparr> = ?f" "\<not> v \<le> pset f ! percentile_it f"
          using it low [OF it(1)] False by (auto intro!: percentile_filter.equality)
        with d k False below show ?thesis by (simp add: PercentileFilter_Erase_def Let_def)
      qed
    qed
    then have "PercentileFilter_Erase v f =
        Inr (True, ?f\<lparr>percentile_it := percentile_pos ?f, percentile_index := int (percentile_pos ?f)\<rparr>)"
      unfolding upd bindR_Inr .
    with \<open>sorted ?rest\<close> ms True show ?thesis
      by (simp add: percentile_inv_def percentile_pos_def)
  qed
qed

section \<open>Rounding to a float\<close>

lemma bit_length_bounds: "n < 2 ^ bit_length n" "0 < n \<Longrightarrow> 2 ^ bit_length n \<le> 2 * n"
proof (induction n rule: bit_length.induct)
  case (1 n)
  have "bit_length n = 1 + bit_length (n div 2)" if "0 < n" using that by (subst bit_length.simps) simp
  with 1 show "n < 2 ^ bit_length n" "0 < n \<Longrightarrow> 2 ^ bit_length n \<le> 2 * n"
    by (cases "n = 0"; cases "n div 2 = 0"; auto simp: bit_length.simps [of 0])+
qed

lemma round_bits_exact: "n < 2 ^ b \<Longrightarrow> round_bits b n = n"
proof (cases "n = 0")
  case False
  assume "n < 2 ^ b"
  with False bit_length_bounds(2) [of n] have "2 ^ bit_length n < (2 :: nat) ^ (b + 1)" by simp
  then have "bit_length n \<le> b" using power_less_imp_less_exp [of "2 :: nat" "bit_length n" "b + 1"] by simp
  then show ?thesis by (simp add: round_bits_def)
qed (simp add: round_bits_def bit_length.simps)

text \<open>Rounding does not pass a number that has a representation.\<close>

lemma round_bits_le:
  assumes "x \<le> 2 ^ e * y" "y < 2 ^ b"
  shows "round_bits b x \<le> 2 ^ e * y"
proof (cases "bit_length x \<le> b")
  case True
  then show ?thesis using assms(1) by (simp add: round_bits_def)
next
  case False
  let ?s = "bit_length x - b" let ?k = "2 ^ ?s :: nat"
  have "0 < x" using False by (cases "x = 0") (simp_all add: bit_length.simps)
  then have "2 ^ bit_length x \<le> 2 * x" by (rule bit_length_bounds)
  also have "\<dots> \<le> 2 * (2 ^ e * y)" using assms(1) by simp
  also have "\<dots> < 2 * (2 ^ e * 2 ^ b)" using assms(2) by simp
  finally have "2 ^ bit_length x < (2 :: nat) ^ (e + b + 1)" by (simp add: power_add)
  then have "?s \<le> e" using power_less_imp_less_exp [of "2 :: nat" "bit_length x" "e + b + 1"] by simp
  then have "?k dvd 2 ^ e * y" by (simp add: le_imp_power_dvd)
  then obtain m where m: "2 ^ e * y = ?k * m" by (rule dvdE)
  with assms(1) have "x \<le> ?k * m" by simp
  show ?thesis
  proof (cases "x = ?k * m")
    case True
    then have dvd: "?k dvd x" by (metis dvd_triv_left)
    then have "x mod ?k = 0" by (rule dvd_imp_mod_0)
    then have "round_bits b x = x div ?k * ?k" by (simp add: round_bits_def Let_def)
    also have "\<dots> = x" using dvd by (rule dvd_div_mult_self)
    finally show ?thesis using assms(1) by simp
  next
    case less: False
    with \<open>x \<le> ?k * m\<close> have "x div ?k < m" by (simp add: div_less_iff_less_mult mult.commute)
    then have "round_bits b x \<le> m * ?k"
      unfolding round_bits_def Let_def by (intro mult_le_mono1) simp
    then show ?thesis by (metis m mult.commute)
  qed
qed

lemma percentile_ok_24:
  assumes "fst p \<le> 2 ^ snd p"
  shows "percentile_ok (2 ^ 24) p"
  unfolding percentile_ok_def
proof (intro allI impI)
  fix n :: nat assume n: "0 < n \<and> n \<le> 2 ^ 24"
  then have less: "n - 1 < 2 ^ 24" by arith
  then have "round_bits 24 (fst p * round_bits 24 (n - 1)) \<le> 2 ^ snd p * (n - 1)"
    using assms less mult_right_mono [OF assms, of "n - 1"] by (intro round_bits_le) (simp_all add: round_bits_exact)
  then have "percentile_target p n \<le> n - 1"
    unfolding percentile_target_def by (metis div_le_mono nonzero_mult_div_cancel_left power_not_zero zero_neq_numeral)
  with n show "percentile_target p n < n" by linarith
qed

lemma median_target: "n \<le> 2 ^ 24 \<Longrightarrow> percentile_target (1, 1) n = (n - 1) div 2"
  by (simp add: percentile_target_def round_bits_exact)

section \<open>The moving median\<close>

definition median_inv :: "'a::linorder list \<Rightarrow> 'a median_filter \<Rightarrow> bool" where
  "median_inv xs f \<longleftrightarrow>
     percentile_inv (median_percentile f) \<and> percentile (median_percentile f) = (1, 1) \<and>
     mset (pset (median_percentile f)) = mset (median_samples f) \<and>
     median_samples f = drop (length xs - window_size f) xs \<and> samples_stored f = length (median_samples f)"

lemma drop_window:
  "length ys < w \<Longrightarrow> ys = drop (n - w) xs \<Longrightarrow> n = length xs \<Longrightarrow> ys @ [v] = drop (Suc n - w) (xs @ [v])"
  "length ys = w \<Longrightarrow> 0 < w \<Longrightarrow> ys = drop (n - w) xs \<Longrightarrow> n = length xs \<Longrightarrow> tl ys @ [v] = drop (Suc n - w) (xs @ [v])"
  by (auto simp: Suc_diff_le tl_drop drop_Suc)

lemma MovingMedian_Insert_ok:
  assumes "median_inv xs f" "0 < window_size f" "window_size f < 2 ^ 24"
  shows "resT (\<lambda>f'. median_inv (xs @ [v]) f' \<and> window_size f' = window_size f) (MovingMedian_Insert v f)"
proof -
  let ?p = "median_percentile f" let ?w = "window_size f"
  have inv: "percentile_inv ?p" "percentile ?p = (1, 1)" "mset (pset ?p) = mset (median_samples f)"
      "median_samples f = drop (length xs - ?w) xs" "samples_stored f = length (median_samples f)"
    using assms(1) by (simp_all add: median_inv_def)
  have ok: "percentile_ok (2 ^ 24) (1, 1)" by (rule percentile_ok_24) simp
  have len: "length (pset ?p) = length (median_samples f)" by (metis inv(3) size_mset)
  have le: "length (median_samples f) \<le> ?w" using inv(4) by simp
  obtain p where p: "PercentileFilter_Insert v ?p = Inr p" "percentile_inv p" "percentile p = (1, 1)"
      "mset (pset p) = add_mset v (mset (pset ?p))"
    using PercentileFilter_Insert_ok [OF inv(1), of "2 ^ 24" v] ok inv(2) len le assms(3) by (auto simp: resT_iff)
  have plen: "length (pset p) = Suc (length (median_samples f))" by (metis p(4) len size_add_mset size_mset)
  show ?thesis
  proof (cases "length (median_samples f) < ?w")
    case True
    have "median_samples f @ [v] = drop (Suc (length xs) - ?w) (xs @ [v])"
      using True inv(4) by (rule drop_window(1)) simp
    with True inv(3,5) p show ?thesis by (simp add: MovingMedian_Insert_def Let_def median_inv_def)
  next
    case False
    with le have full: "length (median_samples f) = ?w" by simp
    with assms(2) obtain y ys where ys: "median_samples f = y # ys" by (cases "median_samples f") auto
    obtain b q where q: "PercentileFilter_Erase y p = Inr (b, q)" "percentile_inv q" "percentile q = (1, 1)"
        "mset (pset q) = mset (pset p) - {#y#}"
      using PercentileFilter_Erase_ok [OF p(2), of "2 ^ 24" y] ok p(3) plen full assms(3) by (auto simp: resT_iff)
    have "mset (pset q) = mset (ys @ [v])" using q(4) p(4) inv(3) ys by simp
    moreover have "ys @ [v] = drop (Suc (length xs) - ?w) (xs @ [v])"
      using drop_window(2) [OF full assms(2) inv(4), of v] ys by simp
    ultimately show ?thesis
      using full inv(3,5) p q ys by (simp add: MovingMedian_Insert_def Let_def median_inv_def deref_def)
  qed
qed

lemma MovingMedian_Insert_all:
  "median_inv xs f \<Longrightarrow> 0 < window_size f \<Longrightarrow> window_size f < 2 ^ 24 \<Longrightarrow>
     resT (\<lambda>f'. median_inv (xs @ ys) f' \<and> window_size f' = window_size f) (foldR MovingMedian_Insert ys f)"
proof (induction ys arbitrary: xs f)
  case (Cons y ys)
  from MovingMedian_Insert_ok [OF Cons.prems, of y] obtain f1 where
    "MovingMedian_Insert y f = Inr f1" "median_inv (xs @ [y]) f1" "window_size f1 = window_size f"
    by (auto simp: resT_iff)
  with Cons.IH [of "xs @ [y]" f1] Cons.prems show ?case by simp
qed simp

lemma GetFilteredValue_ok:
  assumes "median_inv xs f" "window_size f < 2 ^ 24"
  shows "GetFilteredValue f = Inr (if median_samples f = [] then 0
    else sort (median_samples f) ! ((length (median_samples f) - 1) div 2))"
proof -
  let ?p = "median_percentile f"
  have inv: "sorted (pset ?p)" "percentile ?p = (1, 1)" "mset (pset ?p) = mset (median_samples f)"
      "percentile_it ?p = percentile_pos ?p" "length (median_samples f) \<le> window_size f"
    using assms(1) by (simp_all add: median_inv_def percentile_inv_def)
  have eq: "pset ?p = sort (median_samples f)" using inv(1,3) by (metis properties_for_sort)
  show ?thesis
  proof (cases "median_samples f = []")
    case False
    then have "pset ?p \<noteq> []" by (metis eq length_0_conv length_sort)
    then have "percentile_pos ?p = (length (median_samples f) - 1) div 2"
      using eq inv(2,5) assms(2) median_target [of "length (median_samples f)"] by (simp add: percentile_pos_def)
    moreover have "(length (median_samples f) - 1) div 2 < length (median_samples f)" using False by (cases "median_samples f") auto
    ultimately show ?thesis
      using False \<open>pset ?p \<noteq> []\<close> inv(4) eq by (auto simp: GetFilteredValue_def GetPercentileValue_def deref_def)
  qed (use eq in \<open>simp add: GetFilteredValue_def GetPercentileValue_def\<close>)
qed

text \<open>
  C35. A \<open>MovingMedianFilter\<close> with a window below \<open>2\<^sup>24\<close> answers the lower median of the last
  \<open>w\<close> samples (all of them while there are fewer, 0 while there is none), and counts them; no
  iterator of it ever leaves its set.
\<close>

theorem moving_median:
  assumes "0 < w" "w < 2 ^ 24"
  shows "bindR (MovingMedianFilter_new w) (\<lambda>f.
    bindR (foldR MovingMedian_Insert xs f) (\<lambda>f.
    bindR (GetFilteredValue f) (\<lambda>m. Inr (m, GetNumberOfSamplesStored f)))) =
    (let ys = drop (length xs - w) xs in
     Inr (if xs = [] then 0 else sort ys ! ((length ys - 1) div 2), min w (length xs)))"
proof -
  let ?f = "\<lparr>median_percentile = \<lparr>percentile = (1, 1), pset = [], percentile_it = 0, percentile_index = 0\<rparr>,
    median_samples = [], samples_stored = 0, window_size = w\<rparr> :: 'a median_filter"
  have "median_inv [] ?f" by (simp add: median_inv_def percentile_inv_def percentile_pos_def)
  from MovingMedian_Insert_all [OF this, of xs] assms obtain f where
    f: "foldR MovingMedian_Insert xs ?f = Inr f" "median_inv xs f" "window_size f = w"
    by (auto simp: resT_iff)
  have "median_samples f = drop (length xs - w) xs" "samples_stored f = length (median_samples f)"
    using f by (simp_all add: median_inv_def)
  moreover have "MovingMedianFilter_new w = Inr ?f"
    using assms(1) by (simp add: MovingMedianFilter_new_def PercentileFilter_new_def)
  moreover have "length (drop (length xs - w) xs) = min w (length xs)" by simp
  moreover have "drop (length xs - w) xs = [] \<longleftrightarrow> xs = []" using assms(1) by (cases xs) auto
  ultimately show ?thesis
    using f(1,3) assms(2) GetFilteredValue_ok [OF f(2)]
    by (simp only: GetNumberOfSamplesStored_def Let_def bindR_Inr)
qed

theorem moving_median_witness:
  "bindR (MovingMedianFilter_new 3) (\<lambda>f.
    bindR (foldR MovingMedian_Insert [9, 1, 5, 4 :: int] f) (\<lambda>f.
    bindR (GetFilteredValue f) (\<lambda>m. Inr (m, GetNumberOfSamplesStored f)))) = Inr (4, 3)"
  using moving_median [of 3 "[9, 1, 5, 4 :: int]"] by (simp add: Let_def)

text \<open>
  Beyond \<open>2\<^sup>24\<close> elements the size rounds in \<open>float\<close>: the largest of 16777220 elements is looked for
  one position past the end.
\<close>

lemma percentile_past_end:
  assumes "percentile f = (1, 0)" "length (pset f) = 16777220" "percentile_index f = int (percentile_it f)"
  shows "bindR (UpdatePercentileIterator f) GetPercentileValue = Inl Index_fault"
proof -
  have "bit_length 16777219 = 25" by (simp add: bit_length.simps)
  then have "round_bits 24 16777219 = 16777220" by (simp add: round_bits_def)
  moreover have "bit_length 16777220 = 25" by (simp add: bit_length.simps)
  then have "round_bits 24 16777220 = 16777220" by (simp add: round_bits_def)
  ultimately have "percentile_target (1, 0) 16777220 = 16777220" by (simp add: percentile_target_def)
  then show ?thesis
    using assms by (auto simp: UpdatePercentileIterator_def GetPercentileValue_def deref_def Let_def)
qed

end
