(* ===== verification/Qt_Capture.thy ===== *)
theory Qt_Capture
  imports Prelude
begin

text \<open>
  The screen and camera capture of the Qt application: localCapturer.cpp,
  demo_desktop_capture.cpp, desktop_capture_source.cpp, demo_camera_capture.cpp and the window
  QtWidgetsLocalVideo.cpp.  The capture modules, libyuv and the allocation of a picture are
  parameters; a picture is its sizes, and converting into it faults past the end of its block.
\<close>

section \<open>Pictures\<close>

record i420 =
  i420_width :: int
  i420_height :: int
  stride_y :: int
  stride_u :: int
  stride_v :: int

text \<open>
  The record \<open>yuv\<close> is what the picture library does: \<open>I420Buffer::Create(w, h)\<close>, and whether
  \<open>libyuv::ConvertToI420\<close> of a frame of \<open>w\<close> by \<open>h\<close> stays within the planes of the picture it writes.
\<close>

record yuv =
  I420Buffer_Create :: "int \<Rightarrow> int \<Rightarrow> i420"
  ConvertToI420 :: "int \<Rightarrow> int \<Rightarrow> i420 \<Rightarrow> bool"

definition convert_frame :: "yuv \<Rightarrow> int \<Rightarrow> int \<Rightarrow> i420 \<Rightarrow> unit res" where
  "convert_frame L width height b = (if ConvertToI420 L width height b then Inr () else Inl Bad_memory)"

datatype capture_result = SUCCESS | ERROR_TEMPORARY | ERROR_PERMANENT

text \<open>The picture a captured frame of size \<open>w\<close> by \<open>h\<close> is converted into: the old one if its area suffices.\<close>

definition frame_buffer :: "yuv \<Rightarrow> int \<Rightarrow> int \<Rightarrow> i420 option \<Rightarrow> i420 res" where
  "frame_buffer L w h old =
     (case old of
        None \<Rightarrow> Inr (I420Buffer_Create L w h)
      | Some b \<Rightarrow>
          bindR (i32 (i420_width b * i420_height b)) (\<lambda>have.
          bindR (i32 (w * h)) (\<lambda>need.
            Inr (if have < need then I420Buffer_Create L w h else b))))"

section \<open>localCapturer\<close>

text \<open>
  \<open>lc_frames\<close> are the sizes of the frames handed on, \<open>lc_posts\<close> the delays of the messages posted.
\<close>

record local_capturer =
  lc_capturer :: bool
  lc_buffer :: "i420 option"
  lc_frames :: "(int \<times> int) list"
  lc_posts :: "int list"

definition localCapturer_new :: local_capturer where
  "localCapturer_new = \<lparr>lc_capturer = False, lc_buffer = None, lc_frames = [], lc_posts = []\<rparr>"

definition localCapturer_OnCaptureResult ::
    "yuv \<Rightarrow> capture_result \<Rightarrow> (int \<times> int) option \<Rightarrow> local_capturer \<Rightarrow> local_capturer res" where
  "localCapturer_OnCaptureResult L result frame s =
     (if result \<noteq> SUCCESS then Inr s
      else case frame of
        None \<Rightarrow> Inl Null_deref
      | Some (width, height) \<Rightarrow>
          bindR (frame_buffer L width height (lc_buffer s)) (\<lambda>b.
          bindR (convert_frame L width height b) (\<lambda>_.
            Inr (s\<lparr>lc_buffer := Some b, lc_frames := lc_frames s @ [(i420_width b, i420_height b)]\<rparr>))))"

text \<open>\<open>results\<close> are the callbacks the capture module makes while it captures.\<close>

definition localCapturer_CaptureFrame ::
    "yuv \<Rightarrow> (capture_result \<times> (int \<times> int) option) list \<Rightarrow> local_capturer \<Rightarrow> local_capturer res" where
  "localCapturer_CaptureFrame L results s =
     (if \<not> lc_capturer s then Inl Null_deref
      else bindR (foldR (\<lambda>(r, f). localCapturer_OnCaptureResult L r f) results s) (\<lambda>s.
             Inr (s\<lparr>lc_posts := lc_posts s @ [33]\<rparr>)))"

definition startCapturer ::
    "yuv \<Rightarrow> bool \<Rightarrow> (capture_result \<times> (int \<times> int) option) list \<Rightarrow> local_capturer \<Rightarrow> local_capturer res" where
  "startCapturer L created results s =
     (let s = s\<lparr>lc_capturer := created\<rparr>
      in if \<not> lc_capturer s then Inl Null_deref else localCapturer_CaptureFrame L results s)"

definition localCapturer_OnMessage ::
    "yuv \<Rightarrow> nat \<Rightarrow> (capture_result \<times> (int \<times> int) option) list \<Rightarrow> local_capturer \<Rightarrow> local_capturer res" where
  "localCapturer_OnMessage L message_id results s =
     (if message_id = 0 then localCapturer_CaptureFrame L results s else Inr s)"

section \<open>DesktopCapture and its source\<close>

text \<open>
  \<open>AdaptFrameResolution\<close> gives the size to scale to, or drops the frame.  \<open>delivered\<close> are the sizes
  handed to the broadcaster, \<open>sinks\<close> the broadcaster's sinks.
\<close>

datatype capture_thread = No_thread | Joinable | Joined

record desktop_capture =
  dc :: bool
  fps :: nat
  window_title :: string
  capture_thread :: capture_thread
  start_flag :: bool
  dc_buffer :: "i420 option"
  sinks :: "nat list"
  delivered :: "(int \<times> int) list"

record screens =
  screen_capturer_ok :: bool
  screen_sources :: "(int \<times> string) list"
  SelectSource :: "int \<Rightarrow> bool"

definition DesktopCapture_new :: desktop_capture where
  "DesktopCapture_new =
     \<lparr>dc = False, fps = 0, window_title = [], capture_thread = No_thread, start_flag = False,
      dc_buffer = None, sinks = [], delivered = []\<rparr>"

definition DesktopCapture_Init :: "screens \<Rightarrow> nat \<Rightarrow> nat \<Rightarrow> desktop_capture \<Rightarrow> (bool \<times> desktop_capture) res" where
  "DesktopCapture_Init E target_fps capture_screen_index s =
     (let s = s\<lparr>dc := screen_capturer_ok E\<rparr>; sources = screen_sources E
      in if \<not> dc s then Inr (False, s)
         else if capture_screen_index > length sources then Inr (False, s)
         else if capture_screen_index = length sources then Inl Index_fault
         else if \<not> SelectSource E (fst (sources ! capture_screen_index)) then Inl Check_failed
         else Inr (True, s\<lparr>window_title := snd (sources ! capture_screen_index), fps := target_fps\<rparr>))"

definition DesktopCapture_Create :: "screens \<Rightarrow> nat \<Rightarrow> nat \<Rightarrow> desktop_capture option res" where
  "DesktopCapture_Create E target_fps capture_screen_index =
     bindR (DesktopCapture_Init E target_fps capture_screen_index DesktopCapture_new) (\<lambda>(ok, s).
       Inr (if ok then Some s else None))"

definition Source_OnFrame :: "(int \<Rightarrow> int \<Rightarrow> (int \<times> int) option) \<Rightarrow> int \<times> int \<Rightarrow> desktop_capture \<Rightarrow> desktop_capture" where
  "Source_OnFrame AdaptFrameResolution frame s =
     (case AdaptFrameResolution (fst frame) (snd frame) of
        None \<Rightarrow> s
      | Some (out_width, out_height) \<Rightarrow>
          if out_height \<noteq> snd frame \<or> out_width \<noteq> fst frame
          then s\<lparr>delivered := delivered s @ [(out_width, out_height)]\<rparr>
          else s\<lparr>delivered := delivered s @ [frame]\<rparr>)"

definition Source_AddOrUpdateSink :: "nat \<Rightarrow> desktop_capture \<Rightarrow> desktop_capture" where
  "Source_AddOrUpdateSink sink s = (if sink \<in> set (sinks s) then s else s\<lparr>sinks := sinks s @ [sink]\<rparr>)"

definition Source_RemoveSink :: "nat \<Rightarrow> desktop_capture \<Rightarrow> desktop_capture" where
  "Source_RemoveSink sink s = s\<lparr>sinks := removeAll sink (sinks s)\<rparr>"

definition DesktopCapture_OnCaptureResult ::
    "yuv \<Rightarrow> (int \<Rightarrow> int \<Rightarrow> (int \<times> int) option) \<Rightarrow> capture_result \<Rightarrow> (int \<times> int) option \<Rightarrow>
       desktop_capture \<Rightarrow> desktop_capture res" where
  "DesktopCapture_OnCaptureResult L AdaptFrameResolution result frame s =
     (case frame of
        None \<Rightarrow> Inl Null_deref
      | Some (width, height) \<Rightarrow>
          bindR (frame_buffer L width height (dc_buffer s)) (\<lambda>b.
          bindR (convert_frame L width height b) (\<lambda>_.
            Inr (Source_OnFrame AdaptFrameResolution (i420_width b, i420_height b) (s\<lparr>dc_buffer := Some b\<rparr>)))))"

text \<open>A thread object that is still joinable ends the process when it is replaced.\<close>

definition DesktopCapture_StartCapture :: "desktop_capture \<Rightarrow> desktop_capture res" where
  "DesktopCapture_StartCapture s =
     (if start_flag s then Inr s
      else if capture_thread s = Joinable then Inl Terminated
      else Inr (s\<lparr>start_flag := True, capture_thread := Joinable\<rparr>))"

definition capture_iteration ::
    "yuv \<Rightarrow> (int \<Rightarrow> int \<Rightarrow> (int \<times> int) option) \<Rightarrow> (capture_result \<times> (int \<times> int) option) list \<Rightarrow>
       desktop_capture \<Rightarrow> desktop_capture res" where
  "capture_iteration L AdaptFrameResolution results s =
     (if \<not> start_flag s then Inr s
      else if \<not> dc s then Inl Null_deref
      else bindR (foldR (\<lambda>(r, f). DesktopCapture_OnCaptureResult L AdaptFrameResolution r f) results s) (\<lambda>s.
             if fps s = 0 then Inl Div_zero else Inr s))"

definition DesktopCapture_StopCapture :: "desktop_capture \<Rightarrow> desktop_capture" where
  "DesktopCapture_StopCapture s =
     s\<lparr>start_flag := False, capture_thread := (if capture_thread s = Joinable then Joined else capture_thread s)\<rparr>"

definition DesktopCapture_Destory :: "desktop_capture \<Rightarrow> desktop_capture" where
  "DesktopCapture_Destory s = (DesktopCapture_StopCapture s)\<lparr>dc := False\<rparr>"

section \<open>The local video window\<close>

text \<open>
  Captures and subscribers are heap objects, named by numbers: \<open>captures\<close> are the live captures,
  \<open>subscribers\<close> the live subscribers, \<open>next_object\<close> a number not used before.
\<close>

record local_video =
  captures :: "(nat \<times> desktop_capture) list"
  subscribers :: "nat list"
  next_object :: nat
  capturer :: "nat option"
  videoSub :: "nat option"

definition LocalVideo_new :: local_video where
  "LocalVideo_new = \<lparr>captures = [], subscribers = [], next_object = 0, capturer = None, videoSub = None\<rparr>"

definition on_capture :: "nat \<Rightarrow> (desktop_capture \<Rightarrow> desktop_capture) \<Rightarrow> local_video \<Rightarrow> local_video" where
  "on_capture k f s = s\<lparr>captures := map (\<lambda>(i, c). (i, if i = k then f c else c)) (captures s)\<rparr>"

definition delete_capture :: "nat \<Rightarrow> local_video \<Rightarrow> local_video" where
  "delete_capture k s = s\<lparr>captures := filter (\<lambda>(i, c). i \<noteq> k) (captures s)\<rparr>"

definition on_pushButton_clicked_begin :: "screens \<Rightarrow> local_video \<Rightarrow> local_video res" where
  "on_pushButton_clicked_begin E s =
     (let s = (case capturer s of
                 Some k \<Rightarrow> (delete_capture k (on_capture k DesktopCapture_StopCapture s))\<lparr>capturer := None\<rparr>
               | None \<Rightarrow> s)
      in bindR (DesktopCapture_Create E 15 0) (\<lambda>created.
           case created of
             None \<Rightarrow> Inl Null_deref
           | Some c \<Rightarrow>
               bindR (DesktopCapture_StartCapture c) (\<lambda>c.
                 let k = next_object s; sub = k + 1
                 in Inr (s\<lparr>captures := captures s @ [(k, Source_AddOrUpdateSink sub c)], capturer := Some k,
                           subscribers := subscribers s @ [sub], videoSub := Some sub, next_object := k + 2\<rparr>))))"

definition on_pushButton_clicked_end :: "local_video \<Rightarrow> local_video" where
  "on_pushButton_clicked_end s =
     (let s = (case capturer s of
                 Some k \<Rightarrow>
                   let s = (case videoSub s of
                              Some sub \<Rightarrow> (on_capture k (Source_RemoveSink sub) s)\<lparr>subscribers := removeAll sub (subscribers s)\<rparr>
                            | None \<Rightarrow> s)
                   in on_capture k DesktopCapture_StopCapture (s\<lparr>videoSub := None\<rparr>)
               | None \<Rightarrow> s)
      in s\<lparr>capturer := None\<rparr>)"

section \<open>The camera\<close>

text \<open>
  \<open>vcm_registered\<close>: this object is the module's data callback; \<open>vcm_started\<close>: it captures.
\<close>

record vcm =
  vcm_module :: bool
  vcm_registered :: bool
  vcm_started :: bool

record camera =
  device_name_ok :: bool
  module_ok :: bool
  start_ok :: bool
  capture_started :: bool

definition Vcm_new :: vcm where
  "Vcm_new = \<lparr>vcm_module = False, vcm_registered = False, vcm_started = False\<rparr>"

definition Vcm_Destroy :: "vcm \<Rightarrow> vcm" where
  "Vcm_Destroy s = (if \<not> vcm_module s then s else s\<lparr>vcm_started := False, vcm_registered := False, vcm_module := False\<rparr>)"

definition Vcm_Init :: "camera \<Rightarrow> vcm \<Rightarrow> (bool \<times> vcm) res" where
  "Vcm_Init E s =
     (if \<not> device_name_ok E then Inr (False, Vcm_Destroy s)
      else
        let s = s\<lparr>vcm_module := module_ok E\<rparr>
        in if \<not> vcm_module s then Inr (False, s)
           else
             let s = s\<lparr>vcm_registered := True\<rparr>
             in if \<not> start_ok E then Inr (False, Vcm_Destroy s)
                else if \<not> capture_started E then Inl Check_failed
                else Inr (True, s\<lparr>vcm_started := True\<rparr>))"

definition Vcm_Create :: "camera \<Rightarrow> vcm option res" where
  "Vcm_Create E = bindR (Vcm_Init E Vcm_new) (\<lambda>(ok, s). Inr (if ok then Some s else None))"

section \<open>Showing a frame\<close>

text \<open>
  \<open>VideoSubscriber::OnFrame\<close> and \<open>BaseVideoSubscriber::OnFrame\<close>: the bytes allocated so far and not
  freed, and the sizes shown.
\<close>

record shown =
  allocated :: int
  shown_sizes :: "(int \<times> int) list"

definition Subscriber_OnFrame :: "bool \<Rightarrow> int \<Rightarrow> int \<Rightarrow> shown \<Rightarrow> shown res" where
  "Subscriber_OnFrame is_i420 width height s =
     bindR (i32 (width * height)) (\<lambda>n.
     bindR (i32 (n * 3)) (\<lambda>length.
       if length < 0 then Inl Bad_alloc
       else let s = s\<lparr>allocated := allocated s + length\<rparr>
            in Inr (if is_i420 then s\<lparr>shown_sizes := shown_sizes s @ [(width, height)]\<rparr> else s)))"

end
