(* ===== verification/Qt_Call.thy ===== *)
theory Qt_Call
  imports Conductor Qt_Capture
begin

text \<open>
  The call windows of the Qt application (src/QtWebrtc): \<open>ConductorCallback\<close> of
  PeerConnectionCallback.h, \<open>QtWidgetsTest\<close>, in which two users exchange descriptions by hand
  through text fields, and \<open>QtWidgetsSdp\<close>, which shows a description.  The WebRTC and JSON libraries
  are the record \<open>rtc\<close> of the other application; the combo box is its items and current index.
\<close>

section \<open>State\<close>

datatype source = Desktop_source | Camera_source int | No_source

datatype qt_call =
    QtCreated bool string
  | QtAddAudio "string list"
  | QtAddVideo source "string list"
  | QtCreateOffer
  | QtSetLocal description
  | QtSetRemote SdpType string
  | QtAddIce candidate

text \<open>
  \<open>device_name\<close>: what \<open>GetDeviceName\<close> finds; \<open>video_track_made\<close>: \<open>CreateVideoTrack\<close> returns an object;
  \<open>screen_created\<close>, \<open>first_frames\<close>: the screen capturer and what its first capture delivers.
\<close>

record qt_env =
  qt_rtc :: rtc
  device_name :: "int \<Rightarrow> string option"
  video_track_made :: "source \<Rightarrow> bool"
  qt_yuv :: yuv
  screen_created :: bool
  first_frames :: "(capture_result \<times> (int \<times> int) option) list"

text \<open>The callback object; \<open>callback_connection\<close>: its \<open>peer_connection_\<close> is the window's, not null.\<close>

record qt_callback =
  mysdp :: string
  my_candidate :: string
  times :: int
  callback_connection :: bool

record qt_window = qt_callback +
  qt_factory :: bool
  connection :: "qt_call list option"
  desktops :: "local_capturer list"
  video_sinks :: nat
  combo_items :: "string list"
  combo_index :: int
  combo_enabled :: bool
  camera_num_max :: int
  camera_num :: int
  local_sdp_text :: string
  local_candidate_text :: string
  remote_sdp_text :: string
  remote_candidate_text :: string

definition stun_server :: string where
  "stun_server = ''stun:stun.l.google.com:19302''"

definition qt_pc :: "qt_call \<Rightarrow> qt_window \<Rightarrow> qt_window res" where
  "qt_pc c s = (case connection s of None \<Rightarrow> Inl Null_deref | Some cs \<Rightarrow> Inr (s\<lparr>connection := Some (cs @ [c])\<rparr>))"

section \<open>ConductorCallback\<close>

definition Callback_OnIceCandidate :: "rtc \<Rightarrow> candidate \<Rightarrow> ('a qt_callback_scheme) \<Rightarrow> ('a qt_callback_scheme)" where
  "Callback_OnIceCandidate R c s =
     (case candidate_string c of
        None \<Rightarrow> s
      | Some sdp \<Rightarrow>
          s\<lparr>my_candidate := json_write R
              [(kCandidateSdpMidName, JString (sdp_mid c)),
               (kCandidateSdpMlineIndexName, JInt (sdp_mline_index c)),
               (kCandidateSdpName, JString sdp)]\<rparr>)"

definition Callback_OnSuccess :: "rtc \<Rightarrow> description \<Rightarrow> qt_window \<Rightarrow> qt_window res" where
  "Callback_OnSuccess R desc s =
     (if \<not> callback_connection s then Inl Null_deref
      else bindR (qt_pc (QtSetLocal desc) s) (\<lambda>s.
           let sdp = desc_string desc in
           bindR (i32 (times s + 1)) (\<lambda>n.
             Inr (s\<lparr>times := n,
                    mysdp := json_write R
                      [(kSessionDescriptionTypeName, JString (sdp_type_to_string R (desc_type desc))),
                       (kSessionDescriptionSdpName, JString sdp)]\<rparr>))))"

definition Callback_OnFailure :: "('a qt_callback_scheme) \<Rightarrow> ('a qt_callback_scheme)" where
  "Callback_OnFailure s = s"

definition sdpGet :: "('a qt_callback_scheme) \<Rightarrow> string" where "sdpGet s = mysdp s"
definition candidateGet :: "('a qt_callback_scheme) \<Rightarrow> string" where "candidateGet s = my_candidate s"

definition SetPeerConnection :: "bool \<Rightarrow> ('a qt_callback_scheme) \<Rightarrow> ('a qt_callback_scheme)" where
  "SetPeerConnection pc s = s\<lparr>callback_connection := pc\<rparr>"

section \<open>QtWidgetsTest\<close>

definition CapturerTrackSource_Create_id :: "rtc \<Rightarrow> int \<Rightarrow> int option" where
  "CapturerTrackSource_Create_id R ident =
     (case num_devices R of
        None \<Rightarrow> None
      | Some n \<Rightarrow> if ident \<ge> n then None else if vcm_ok R ident then Some ident else None)"

definition if_check_desktop :: "qt_window \<Rightarrow> bool" where
  "if_check_desktop s \<longleftrightarrow> camera_num s = camera_num_max s"

definition add_video :: "qt_env \<Rightarrow> qt_window \<Rightarrow> qt_window res" where
  "add_video E s =
     (if if_check_desktop s then
        bindR (startCapturer (qt_yuv E) (screen_created E) (first_frames E) localCapturer_new) (\<lambda>c.
          qt_pc (QtAddVideo Desktop_source [kStreamId]) (s\<lparr>desktops := desktops s @ [c]\<rparr>))
      else
        let source = (case CapturerTrackSource_Create_id (qt_rtc E) (camera_num s) of
                        None \<Rightarrow> No_source | Some i \<Rightarrow> Camera_source i)
        in if \<not> video_track_made E source then Inl Null_deref
           else qt_pc (QtAddVideo source [kStreamId]) (s\<lparr>video_sinks := video_sinks s + 1\<rparr>))"

definition webrtc_init :: "qt_env \<Rightarrow> qt_window \<Rightarrow> qt_window res" where
  "webrtc_init E s =
     (if \<not> qt_factory s then Inl Null_deref
      else bindR (qt_pc (QtAddAudio [kStreamId]) s) (\<lambda>s.
           bindR (add_video E s) (\<lambda>s.
             qt_pc QtCreateOffer (SetPeerConnection (connection s \<noteq> None) s))))"

definition combo_add :: "string \<Rightarrow> qt_window \<Rightarrow> qt_window" where
  "combo_add item s =
     s\<lparr>combo_items := combo_items s @ [item], combo_index := (if combo_items s = [] then 0 else combo_index s)\<rparr>"

definition checkCamera :: "qt_env \<Rightarrow> qt_window \<Rightarrow> qt_window res" where
  "checkCamera E s =
     (case num_devices (qt_rtc E) of
        None \<Rightarrow> Inl Null_deref
      | Some n \<Rightarrow>
          Inr (combo_add ''desktop''
            (fold combo_add (List.map_filter (device_name E) [0..n - 1]) (s\<lparr>camera_num_max := n\<rparr>))))"

definition QtWidgetsTest_new :: "qt_env \<Rightarrow> qt_window res" where
  "QtWidgetsTest_new E =
     (let R = qt_rtc E;
          s = \<lparr>mysdp = [], my_candidate = [], times = 0, callback_connection = False,
               qt_factory = factory_ok R, connection = None, desktops = [], video_sinks = 0,
               combo_items = [], combo_index = - 1, combo_enabled = True, camera_num_max = 0, camera_num = 0,
               local_sdp_text = [], local_candidate_text = [], remote_sdp_text = [], remote_candidate_text = []\<rparr>
      in if \<not> qt_factory s then Inl Null_deref
         else bindR (webrtc_init E
                (s\<lparr>connection := (if pc_ok R True stun_server then Some [QtCreated True stun_server] else None)\<rparr>))
              (checkCamera E))"

definition makesure_clicked :: "qt_window \<Rightarrow> qt_window" where
  "makesure_clicked s = s\<lparr>camera_num := combo_index s, combo_enabled := False\<rparr>"

definition start_clicked :: "qt_env \<Rightarrow> qt_window \<Rightarrow> qt_window res" where
  "start_clicked E s = webrtc_init E s"

definition showsdp_clicked :: "qt_window \<Rightarrow> qt_window" where
  "showsdp_clicked s = s\<lparr>local_sdp_text := sdpGet s\<rparr>"

definition showcandidate_clicked :: "qt_window \<Rightarrow> qt_window" where
  "showcandidate_clicked s = s\<lparr>local_candidate_text := candidateGet s\<rparr>"

definition connect_sdp_load :: "qt_env \<Rightarrow> qt_window \<Rightarrow> qt_window res" where
  "connect_sdp_load E s =
     (let R = qt_rtc E in
      case json_parse R (remote_sdp_text s) of
        None \<Rightarrow> Inr s
      | Some j \<Rightarrow>
          let type_str = (case json_string j kSessionDescriptionTypeName of None \<Rightarrow> [] | Some t \<Rightarrow> t)
          in if type_str = [] then Inr s
             else (case sdp_type_from_string R type_str of
               None \<Rightarrow> Inr s
             | Some typ \<Rightarrow>
                 (case json_string j kSessionDescriptionSdpName of
                    None \<Rightarrow> Inr s
                  | Some sdp \<Rightarrow> if \<not> sdp_ok R kAnswer sdp then Inr s else qt_pc (QtSetRemote kAnswer sdp) s)))"

definition connect_candidate_load :: "qt_env \<Rightarrow> qt_window \<Rightarrow> qt_window res" where
  "connect_candidate_load E s =
     (let R = qt_rtc E in
      case json_parse R (remote_candidate_text s) of
        None \<Rightarrow> Inr s
      | Some j \<Rightarrow>
          let type_str = (case json_string j kSessionDescriptionTypeName of None \<Rightarrow> [] | Some t \<Rightarrow> t)
          in if type_str \<noteq> [] then Inr s
             else (case (json_string j kCandidateSdpMidName, json_int j kCandidateSdpMlineIndexName,
                         json_string j kCandidateSdpName) of
               (Some mid, Some mline, Some sdp) \<Rightarrow>
                 if \<not> candidate_ok R mid mline sdp then Inr s
                 else qt_pc (QtAddIce \<lparr>sdp_mid = mid, sdp_mline_index = mline, candidate_string = Some sdp\<rparr>) s
             | _ \<Rightarrow> Inr s))"

definition local_remote_connect_clicked :: "qt_env \<Rightarrow> qt_window \<Rightarrow> qt_window res" where
  "local_remote_connect_clicked E s = bindR (connect_sdp_load E s) (connect_candidate_load E)"

section \<open>QtWidgetsSdp\<close>

text \<open>Its window has the same fields as far as it uses them; its text field is \<open>local_sdp_text\<close>.\<close>

definition QtWidgetsSdp_new :: "qt_env \<Rightarrow> qt_window res" where
  "QtWidgetsSdp_new E =
     (let R = qt_rtc E;
          s = \<lparr>mysdp = [], my_candidate = [], times = 0, callback_connection = False,
               qt_factory = factory_ok R, connection = None, desktops = [], video_sinks = 0,
               combo_items = [], combo_index = - 1, combo_enabled = True, camera_num_max = 0, camera_num = 0,
               local_sdp_text = [], local_candidate_text = [], remote_sdp_text = [], remote_candidate_text = []\<rparr>
      in if \<not> qt_factory s then Inl Null_deref
         else let s = s\<lparr>connection := (if pc_ok R True stun_server then Some [QtCreated True stun_server] else None)\<rparr>
         in bindR (qt_pc (QtAddAudio [kStreamId]) s) (\<lambda>s.
            bindR (case CapturerTrackSource_Create R of
                     Some i \<Rightarrow> qt_pc (QtAddVideo (Camera_source i) [kStreamId]) s
                   | None \<Rightarrow> Inr s) (\<lambda>s.
              qt_pc QtCreateOffer s)))"

definition sdp_button_clicked :: "qt_window \<Rightarrow> qt_window" where
  "sdp_button_clicked s = s\<lparr>local_sdp_text := sdpGet s\<rparr>"

section \<open>Steps of the call window\<close>

inductive qt_step :: "rtc \<Rightarrow> qt_window \<Rightarrow> qt_window \<Rightarrow> bool" for R where
  select: "combo_enabled s \<Longrightarrow> 0 \<le> i \<Longrightarrow> i < int (length (combo_items s)) \<Longrightarrow> qt_step R s (s\<lparr>combo_index := i\<rparr>)"
| makesure: "qt_step R s (makesure_clicked s)"
| start: "qt_rtc E = R \<Longrightarrow> start_clicked E s = Inr t \<Longrightarrow> qt_step R s t"
| showsdp: "qt_step R s (showsdp_clicked s)"
| showcandidate: "qt_step R s (showcandidate_clicked s)"
| type_sdp: "qt_step R s (s\<lparr>remote_sdp_text := x\<rparr>)"
| type_candidate: "qt_step R s (s\<lparr>remote_candidate_text := x\<rparr>)"
| connect: "qt_rtc E = R \<Longrightarrow> local_remote_connect_clicked E s = Inr t \<Longrightarrow> qt_step R s t"
| success: "Callback_OnSuccess R desc s = Inr t \<Longrightarrow> qt_step R s t"
| ice: "qt_step R s (Callback_OnIceCandidate R c s)"

inductive qt_reach :: "rtc \<Rightarrow> qt_window \<Rightarrow> bool" for R where
  new: "qt_rtc E = R \<Longrightarrow> QtWidgetsTest_new E = Inr s \<Longrightarrow> qt_reach R s"
| step: "qt_reach R s \<Longrightarrow> qt_step R s t \<Longrightarrow> qt_reach R t"

end
