(* ===== verification/Qt_Capture_Props.thy ===== *)
theory Qt_Capture_Props
  imports Qt_Capture
begin

text \<open>
  The capture code: where a frame is written and what size it is delivered with, what fails
  without a screen or a frame, and the life of the captures of the local video window.
\<close>

section \<open>Frames\<close>


text \<open>
  \<open>h\<close> rows of \<open>w\<close> bytes, written at a plane's stride, stay within its \<open>bh\<close> rows of \<open>bw\<close> bytes when the
  last byte does.  This is what \<open>ConvertToI420\<close> writes (third_party/libyuv/include/libyuv/convert.h).
\<close>

definition plane_fits :: "int \<Rightarrow> int \<Rightarrow> int \<Rightarrow> int \<Rightarrow> int \<Rightarrow> bool" where
  "plane_fits stride bw bh w h \<longleftrightarrow> (h - 1) * stride + w \<le> (bh - 1) * stride + bw"

definition rows_fit :: "int \<Rightarrow> int \<Rightarrow> i420 \<Rightarrow> bool" where
  "rows_fit w h b \<longleftrightarrow>
     plane_fits (stride_y b) (i420_width b) (i420_height b) w h \<and>
     (\<forall>stride \<in> {stride_u b, stride_v b}.
       plane_fits stride ((i420_width b + 1) div 2) ((i420_height b + 1) div 2) ((w + 1) div 2) ((h + 1) div 2))"


text \<open>One such library, with rows without padding.\<close>

definition tight_i420 :: "int \<Rightarrow> int \<Rightarrow> i420" where
  "tight_i420 w h = \<lparr>i420_width = w, i420_height = h, stride_y = w, stride_u = (w + 1) div 2, stride_v = (w + 1) div 2\<rparr>"









section \<open>No screen, no frame\<close>

text \<open>
  \<open>DesktopCapture::Create\<close> with the number of screens as index, 0 when there is none, indexes
  past the list of screens, and so does the Begin button then; and a capture that did not
  succeed, which comes without a frame, dereferences null in \<open>DesktopCapture\<close> while \<open>localCapturer\<close>
  ignores it.
\<close>

theorem desktop_errors:
  assumes "screen_capturer_ok E" "result \<noteq> SUCCESS"
  shows "DesktopCapture_Create E rate (length (screen_sources E)) = Inl Index_fault \<and>
    (screen_sources E = [] \<longrightarrow> on_pushButton_clicked_begin E v = Inl Index_fault) \<and>
    DesktopCapture_OnCaptureResult L A result None c = Inl Null_deref \<and>
    localCapturer_OnCaptureResult L result None s = Inr s"
  using assms
  by (auto simp: DesktopCapture_Create_def DesktopCapture_Init_def on_pushButton_clicked_begin_def Let_def
      DesktopCapture_OnCaptureResult_def localCapturer_OnCaptureResult_def)

theorem desktop_errors_witness:
  "on_pushButton_clicked_begin \<lparr>screen_capturer_ok = True, screen_sources = [], SelectSource = (\<lambda>i. True)\<rparr>
     LocalVideo_new = Inl Index_fault"
  using desktop_errors [of "\<lparr>screen_capturer_ok = True, screen_sources = [], SelectSource = (\<lambda>i. True)\<rparr>"
      ERROR_PERMANENT 15 LocalVideo_new "\<lparr>I420Buffer_Create = tight_i420, ConvertToI420 = rows_fit\<rparr>" "\<lambda>w h. None" DesktopCapture_new localCapturer_new]
  by simp

section \<open>The local video window\<close>

text \<open>What the user and the capture thread do: Begin, End, and one round of a live capture's loop.\<close>

inductive video_step :: "local_video \<Rightarrow> local_video \<Rightarrow> bool" where
  press_begin: "on_pushButton_clicked_begin E s = Inr t \<Longrightarrow> video_step s t"
| press_end: "video_step s (on_pushButton_clicked_end s)"
| frames: "(k, c) \<in> set (captures s) \<Longrightarrow> capture_iteration L A results c = Inr c' \<Longrightarrow>
    video_step s (on_capture k (\<lambda>_. c') s)"

inductive video_reach :: "local_video \<Rightarrow> bool" where
  start: "video_reach LocalVideo_new"
| step: "video_reach s \<Longrightarrow> video_step s t \<Longrightarrow> video_reach t"

inductive_cases video_stepE: "video_step s t"

text \<open>What a capture's loop leaves alone.\<close>

definition same_run :: "desktop_capture \<Rightarrow> desktop_capture \<Rightarrow> bool" where
  "same_run c d \<longleftrightarrow> start_flag d = start_flag c \<and> capture_thread d = capture_thread c \<and> dc d = dc c \<and> sinks d = sinks c"

definition running :: "desktop_capture \<Rightarrow> bool" where
  "running c \<longleftrightarrow> start_flag c \<or> capture_thread c = Joinable"

definition capture_ok :: "local_video \<Rightarrow> nat \<Rightarrow> desktop_capture \<Rightarrow> bool" where
  "capture_ok s k c \<longleftrightarrow>
     (if capturer s = Some k
      then start_flag c \<and> capture_thread c = Joinable \<and> dc c \<and> (\<exists>sub. videoSub s = Some sub \<and> sinks c = [sub])
      else \<not> running c \<and> sinks c = [])"

definition video_inv :: "local_video \<Rightarrow> bool" where
  "video_inv s \<longleftrightarrow>
     (\<forall>(k, c) \<in> set (captures s). k < next_object s \<and> capture_ok s k c) \<and> distinct (map fst (captures s)) \<and>
     (\<forall>k. capturer s = Some k \<longrightarrow> k \<in> fst ` set (captures s)) \<and>
     (capturer s = None \<longleftrightarrow> videoSub s = None) \<and> set_option (videoSub s) \<subseteq> set (subscribers s)"

lemma on_capture_simps [simp]:
  "map fst (captures (on_capture k f s)) = map fst (captures s)"
  "next_object (on_capture k f s) = next_object s" "capturer (on_capture k f s) = capturer s"
  "videoSub (on_capture k f s) = videoSub s" "subscribers (on_capture k f s) = subscribers s"
  by (auto simp: on_capture_def)

lemma in_on_capture: "(i, c') \<in> set (captures (on_capture k f s)) \<longleftrightarrow> (\<exists>c. (i, c) \<in> set (captures s) \<and> c' = (if i = k then f c else c))"
  by (auto simp: on_capture_def image_iff split: prod.splits)

lemma Source_OnFrame_keeps:
  "start_flag (Source_OnFrame A f c) = start_flag c" "capture_thread (Source_OnFrame A f c) = capture_thread c"
  "dc (Source_OnFrame A f c) = dc c" "sinks (Source_OnFrame A f c) = sinks c"
  by (auto simp: Source_OnFrame_def split: option.splits)

lemma OnCaptureResult_same:
  "DesktopCapture_OnCaptureResult L A r f d = Inr d' \<Longrightarrow> same_run d d'"
  by (auto simp: DesktopCapture_OnCaptureResult_def Source_OnFrame_keeps same_run_def bindR_eq_Inr split: option.splits)

lemma foldR_same:
  "foldR (\<lambda>(r, f). DesktopCapture_OnCaptureResult L A r f) rs d = Inr d' \<Longrightarrow> same_run d d'"
proof (induction rs arbitrary: d)
  case (Cons x xs)
  then obtain d1 where "DesktopCapture_OnCaptureResult L A (fst x) (snd x) d = Inr d1"
      "foldR (\<lambda>(r, f). DesktopCapture_OnCaptureResult L A r f) xs d1 = Inr d'"
    by (auto simp: bindR_eq_Inr split: prod.splits)
  with Cons.IH [of d1] OnCaptureResult_same [of L A "fst x" "snd x" d d1] show ?case by (simp add: same_run_def)
qed (simp add: same_run_def)

lemma capture_iteration_keeps: "capture_iteration L A results c = Inr c' \<Longrightarrow> same_run c c'"
  using foldR_same [of L A results c]
  by (auto simp: capture_iteration_def bindR_eq_Inr same_run_def split: if_splits)

lemma created_capture:
  "DesktopCapture_Create E rate k = Inr (Some c) \<Longrightarrow> DesktopCapture_StartCapture c = Inr c' \<Longrightarrow>
     c' = c\<lparr>start_flag := True, capture_thread := Joinable\<rparr> \<and> sinks c = [] \<and> dc c"
  by (auto simp: DesktopCapture_Create_def DesktopCapture_Init_def DesktopCapture_StartCapture_def
      DesktopCapture_new_def Let_def bindR_eq_Inr split: if_splits)

text \<open>With every capture stopped, and \<open>n\<close> above their names.\<close>

definition all_stopped :: "nat \<Rightarrow> (nat \<times> desktop_capture) list \<Rightarrow> bool" where
  "all_stopped n cs \<longleftrightarrow> (\<forall>(k, c) \<in> set cs. k < n \<and> \<not> running c \<and> sinks c = []) \<and> distinct (map fst cs)"

lemma delete_stops:
  assumes "video_inv s" "capturer s = Some k"
  shows "all_stopped (next_object s) (captures (delete_capture k (on_capture k DesktopCapture_StopCapture s)))"
proof -
  have "filter (\<lambda>(i, c). i \<noteq> k) (map (\<lambda>(i, c). (i, if i = k then f c else c)) cs) = filter (\<lambda>(i, c). i \<noteq> k) cs"
    for f and cs :: "(nat \<times> desktop_capture) list"
    by (induction cs) auto
  moreover have "distinct (map fst (filter P cs))" if "distinct (map fst cs)" for P and cs :: "(nat \<times> desktop_capture) list"
    using that by (rule distinct_map_filter)
  ultimately show ?thesis
    using assms by (auto simp: all_stopped_def delete_capture_def on_capture_def video_inv_def capture_ok_def split: if_splits)
qed

lemma none_stopped: "video_inv s \<Longrightarrow> capturer s = None \<Longrightarrow> all_stopped (next_object s) (captures s)"
  by (auto simp: all_stopped_def video_inv_def capture_ok_def)

lemma all_stopped_start:
  assumes "all_stopped n cs" "capture_thread c = Joinable" "start_flag c" "dc c" "sinks c = [Suc n]"
  shows "video_inv \<lparr>captures = cs @ [(n, c)], subscribers = subs @ [Suc n], next_object = Suc (Suc n),
    capturer = Some n, videoSub = Some (Suc n)\<rparr>"
  using assms by (auto simp: all_stopped_def video_inv_def capture_ok_def less_SucI)

lemma end_stops:
  assumes "video_inv s"
  shows "all_stopped (next_object s) (captures (on_pushButton_clicked_end s))"
proof (cases "capturer s")
  case None
  with assms show ?thesis by (simp add: on_pushButton_clicked_end_def none_stopped)
next
  case (Some k)
  with assms obtain sub where sub: "videoSub s = Some sub" by (auto simp: video_inv_def)
  have eq: "captures (on_pushButton_clicked_end s) = captures (on_capture k (DesktopCapture_StopCapture \<circ> Source_RemoveSink sub) s)"
    using Some sub by (simp add: on_pushButton_clicked_end_def Let_def on_capture_def) auto
  have "k' < next_object s \<and> \<not> running c' \<and> sinks c' = []"
    if c': "(k', c') \<in> set (captures (on_pushButton_clicked_end s))" for k' c'
  proof -
    from c' obtain c where c: "(k', c) \<in> set (captures s)" "c' = (if k' = k then DesktopCapture_StopCapture (Source_RemoveSink sub c) else c)"
      by (auto simp: eq in_on_capture)
    then have "k' < next_object s" "capture_ok s k' c" using assms by (auto simp: video_inv_def)
    with c(2) Some sub show ?thesis
      by (auto simp: capture_ok_def running_def Source_RemoveSink_def DesktopCapture_StopCapture_def)
  qed
  with assms show ?thesis by (auto simp: all_stopped_def eq video_inv_def)
qed

lemma end_fields:
  "next_object (on_pushButton_clicked_end s) = next_object s" "capturer (on_pushButton_clicked_end s) = None"
  "capturer s \<noteq> None \<Longrightarrow> videoSub (on_pushButton_clicked_end s) = None"
  "capturer s = None \<Longrightarrow> videoSub (on_pushButton_clicked_end s) = videoSub s"
  by (auto simp: on_pushButton_clicked_end_def Let_def on_capture_def split: option.splits)

lemma all_stopped_inv:
  "all_stopped (next_object s) (captures s) \<Longrightarrow> capturer s = None \<Longrightarrow> videoSub s = None \<Longrightarrow> video_inv s"
  by (auto simp: all_stopped_def video_inv_def capture_ok_def)

lemma begin_result:
  assumes "on_pushButton_clicked_begin E s = Inr t"
  obtains c cs subs where "t = \<lparr>captures = cs @ [(next_object s, c)], subscribers = subs @ [Suc (next_object s)],
      next_object = Suc (Suc (next_object s)), capturer = Some (next_object s), videoSub = Some (Suc (next_object s))\<rparr>"
    "capture_thread c = Joinable" "start_flag c" "dc c" "sinks c = [Suc (next_object s)]"
    "cs = (case capturer s of Some k \<Rightarrow> captures (delete_capture k (on_capture k DesktopCapture_StopCapture s)) | None \<Rightarrow> captures s)"
proof -
  from assms obtain c c' where c: "DesktopCapture_Create E 15 0 = Inr (Some c)" "DesktopCapture_StartCapture c = Inr c'"
    by (auto simp: on_pushButton_clicked_begin_def Let_def bindR_eq_Inr split: option.splits)
  note c' = created_capture [OF c]
  show ?thesis
    using assms c c'
    by (intro that [of _ "Source_AddOrUpdateSink (Suc (next_object s)) c'" "subscribers s"])
      (auto simp: on_pushButton_clicked_begin_def Let_def Source_AddOrUpdateSink_def delete_capture_def on_capture_def
        split: option.splits intro!: local_video.equality)
qed

lemma video_inv_step: "video_step s t \<Longrightarrow> video_inv s \<Longrightarrow> video_inv t"
proof (induction rule: video_step.induct)
  case (press_begin E s t)
  from begin_result [OF press_begin(1)] obtain c cs subs where
    t: "t = \<lparr>captures = cs @ [(next_object s, c)], subscribers = subs @ [Suc (next_object s)],
      next_object = Suc (Suc (next_object s)), capturer = Some (next_object s), videoSub = Some (Suc (next_object s))\<rparr>"
    and c: "capture_thread c = Joinable" "start_flag c" "dc c" "sinks c = [Suc (next_object s)]"
    and cs: "cs = (case capturer s of Some k \<Rightarrow> captures (delete_capture k (on_capture k DesktopCapture_StopCapture s)) | None \<Rightarrow> captures s)"
    by blast
  have "all_stopped (next_object s) cs"
    using press_begin(2) delete_stops none_stopped by (auto simp: cs split: option.splits)
  then show ?case unfolding t using c by (rule all_stopped_start)
next
  case (press_end s)
  then have "videoSub (on_pushButton_clicked_end s) = None"
    using end_fields(3,4) [of s] by (cases "capturer s") (auto simp: video_inv_def)
  with end_stops [OF press_end] show ?case by (intro all_stopped_inv) (simp_all add: end_fields)
next
  case (frames k c s L A results c')
  note keeps = capture_iteration_keeps [OF frames(2)]
  have "k' < next_object s \<and> capture_ok (on_capture k (\<lambda>_. c') s) k' d'"
    if "(k', d') \<in> set (captures (on_capture k (\<lambda>_. c') s))" for k' d'
  proof -
    from that obtain d where d: "(k', d) \<in> set (captures s)" "d' = (if k' = k then c' else d)"
      by (auto simp: in_on_capture)
    have "d = c" if "k' = k"
      using d(1) frames(1,3) that by (auto simp: video_inv_def dest: eq_key_imp_eq_value)
    with d frames(3) keeps show ?thesis
      by (auto simp: video_inv_def capture_ok_def running_def same_run_def)
  qed
  moreover have "fst ` set (captures (on_capture k (\<lambda>_. c') s)) = fst ` set (captures s)"
    by (metis on_capture_simps(1) set_map)
  ultimately show ?case using frames(3) by (auto simp: video_inv_def)
qed

lemma video_reach_inv: "video_reach s \<Longrightarrow> video_inv s"
proof (induction rule: video_reach.induct)
  case start
  show ?case by (simp add: LocalVideo_new_def video_inv_def)
next
  case (step s t)
  then show ?case using video_inv_step by blast
qed

text \<open>
  However Begin, End and the capture threads interleave: exactly the window's own capture is
  running, with a joinable thread, and delivers to the window's subscriber alone, which is alive.
  End stops it but frees no capture, and a Begin after it makes another: each pair of presses
  leaves a capture behind.
\<close>

theorem video_window:
  assumes "video_reach s"
  shows "(\<forall>(k, c) \<in> set (captures s). running c \<longleftrightarrow> capturer s = Some k) \<and>
    (\<forall>k. capturer s = Some k \<longrightarrow> (\<exists>c sub. (k, c) \<in> set (captures s) \<and> sinks c = [sub] \<and>
      videoSub s = Some sub \<and> sub \<in> set (subscribers s))) \<and>
    capturer (on_pushButton_clicked_end s) = None \<and>
    map fst (captures (on_pushButton_clicked_end s)) = map fst (captures s) \<and>
    (capturer s = None \<and> on_pushButton_clicked_begin E s = Inr t \<longrightarrow>
      map fst (captures t) = map fst (captures s) @ [next_object s])"
proof (intro conjI)
  note inv = video_reach_inv [OF assms]
  show "\<forall>(k, c) \<in> set (captures s). running c \<longleftrightarrow> capturer s = Some k"
    using inv by (auto simp: video_inv_def capture_ok_def running_def split: if_splits)
  show "\<forall>k. capturer s = Some k \<longrightarrow> (\<exists>c sub. (k, c) \<in> set (captures s) \<and> sinks c = [sub] \<and>
      videoSub s = Some sub \<and> sub \<in> set (subscribers s))"
    using inv by (fastforce simp: video_inv_def capture_ok_def)
  show "capturer (on_pushButton_clicked_end s) = None" by (simp add: end_fields)
  show "map fst (captures (on_pushButton_clicked_end s)) = map fst (captures s)"
    by (simp add: on_pushButton_clicked_end_def Let_def split: option.splits)
  show "capturer s = None \<and> on_pushButton_clicked_begin E s = Inr t \<longrightarrow>
      map fst (captures t) = map fst (captures s) @ [next_object s]"
    by (auto elim!: begin_result)
qed

theorem video_window_witness:
  "\<exists>s t. video_reach s \<and> capturer s = None \<and> map fst (captures s) = [0] \<and>
     on_pushButton_clicked_begin \<lparr>screen_capturer_ok = True, screen_sources = [(7, ''Screen'')], SelectSource = (\<lambda>i. True)\<rparr> s = Inr t \<and>
     map fst (captures t) = [0, 2]"
proof -
  let ?E = "\<lparr>screen_capturer_ok = True, screen_sources = [(7, ''Screen'')], SelectSource = (\<lambda>i. True)\<rparr>"
  have new: "\<exists>t. on_pushButton_clicked_begin ?E s = Inr t" for s
    by (simp add: on_pushButton_clicked_begin_def DesktopCapture_Create_def DesktopCapture_Init_def Let_def
        DesktopCapture_StartCapture_def DesktopCapture_new_def)
  obtain s1 where s1: "on_pushButton_clicked_begin ?E LocalVideo_new = Inr s1" using new by blast
  then have "map fst (captures s1) = [0]" "next_object s1 = 2"
    by (auto elim!: begin_result simp: LocalVideo_new_def)
  let ?s = "on_pushButton_clicked_end s1"
  obtain t where t: "on_pushButton_clicked_begin ?E ?s = Inr t" using new by blast
  have r1: "video_reach s1" by (rule video_reach.step [OF video_reach.start video_step.press_begin [OF s1]])
  then have r: "video_reach ?s" by (rule video_reach.step [OF _ video_step.press_end])
  have "map fst (captures ?s) = [0]" "capturer ?s = None"
    using video_window [OF r1] \<open>map fst (captures s1) = [0]\<close> by auto
  moreover have "map fst (captures t) = [0, 2]"
    using video_window [OF r, of ?E t] t calculation \<open>next_object s1 = 2\<close> by (simp add: end_fields)
  ultimately show ?thesis using r t by (intro exI [of _ ?s] exI [of _ t] conjI)
qed

end
