(* ===== verification/Qt_Props.thy ===== *)
theory Qt_Props
  imports Qt_Call Qt_Capture_Props App_Props
begin

text \<open>
  Properties of the Qt call windows: no reachable state of the call window has a null connection,
  what one window shows and another is given, and which device is captured.
\<close>

section \<open>The call window\<close>

definition local_descriptions :: "qt_call list \<Rightarrow> int" where
  "local_descriptions cs = int (length (filter (\<lambda>c. case c of QtSetLocal d \<Rightarrow> True | _ \<Rightarrow> False) cs))"

lemma local_descriptions_simps [simp]:
  "local_descriptions [] = 0" "local_descriptions (cs @ ds) = local_descriptions cs + local_descriptions ds"
  "local_descriptions (c # cs) = (case c of QtSetLocal d \<Rightarrow> 1 | _ \<Rightarrow> 0) + local_descriptions cs"
  by (auto simp: local_descriptions_def split: qt_call.splits)

definition device_names :: "qt_env \<Rightarrow> int \<Rightarrow> string list" where
  "device_names E n = List.map_filter (device_name E) [0..n - 1]"

text \<open>
  The first calls of a window, made before its fields exist, and then what every step keeps.
\<close>

definition first_calls :: "qt_call list" where
  "first_calls = [QtCreated True stun_server, QtAddAudio [kStreamId], QtAddVideo Desktop_source [kStreamId], QtCreateOffer]"

definition qt_inv :: "rtc \<Rightarrow> qt_window \<Rightarrow> bool" where
  "qt_inv R s \<longleftrightarrow>
     qt_factory s \<and> callback_connection s \<and> desktops s \<noteq> [] \<and>
     (\<exists>cs. connection s = Some (first_calls @ cs) \<and> times s = local_descriptions cs) \<and>
     num_devices R = Some (camera_num_max s) \<and> combo_items s \<noteq> [] \<and> last (combo_items s) = ''desktop''"

lemma fold_combo_add:
  "fold combo_add xs s = s\<lparr>combo_items := combo_items s @ xs,
     combo_index := (if combo_items s = [] \<and> xs \<noteq> [] then 0 else combo_index s)\<rparr>"
  by (induction xs arbitrary: s) (simp_all add: combo_add_def)

lemma webrtc_init_desktop:
  assumes "qt_factory s" "connection s = Some cs" "if_check_desktop s"
  shows "webrtc_init E s =
    bindR (startCapturer (qt_yuv E) (screen_created E) (first_frames E) localCapturer_new) (\<lambda>c.
      Inr (s\<lparr>desktops := desktops s @ [c], callback_connection := True,
             connection := Some (cs @ [QtAddAudio [kStreamId], QtAddVideo Desktop_source [kStreamId], QtCreateOffer])\<rparr>))"
  using assms by (simp add: webrtc_init_def add_video_def if_check_desktop_def qt_pc_def SetPeerConnection_def bindR_assoc)

lemma checkCamera_eq:
  "checkCamera E s = (case num_devices (qt_rtc E) of None \<Rightarrow> Inl Null_deref
     | Some n \<Rightarrow> Inr (s\<lparr>camera_num_max := n, combo_items := combo_items s @ device_names E n @ [''desktop''],
         combo_index := (if combo_items s = [] then 0 else combo_index s)\<rparr>))"
  by (auto simp: checkCamera_def fold_combo_add combo_add_def device_names_def split: option.splits)

definition fresh_window :: "qt_env \<Rightarrow> int \<Rightarrow> local_capturer \<Rightarrow> qt_window" where
  "fresh_window E n d =
     \<lparr>mysdp = [], my_candidate = [], times = 0, callback_connection = True, qt_factory = True,
      connection = Some first_calls, desktops = [d], video_sinks = 0,
      combo_items = device_names E n @ [''desktop''], combo_index = 0, combo_enabled = True,
      camera_num_max = n, camera_num = 0, local_sdp_text = [], local_candidate_text = [],
      remote_sdp_text = [], remote_candidate_text = []\<rparr>"

lemma QtWidgetsTest_new_eq:
  "QtWidgetsTest_new E =
     (if \<not> factory_ok (qt_rtc E) \<or> \<not> pc_ok (qt_rtc E) True stun_server then Inl Null_deref
      else bindR (startCapturer (qt_yuv E) (screen_created E) (first_frames E) localCapturer_new) (\<lambda>d.
        case num_devices (qt_rtc E) of None \<Rightarrow> Inl Null_deref | Some n \<Rightarrow> Inr (fresh_window E n d)))"
proof (cases "factory_ok (qt_rtc E) \<and> pc_ok (qt_rtc E) True stun_server")
  case True
  then show ?thesis
    by (simp add: QtWidgetsTest_new_def Let_def webrtc_init_desktop if_check_desktop_def bindR_assoc checkCamera_eq
        fresh_window_def first_calls_def cong: option.case_cong)
qed (auto simp: QtWidgetsTest_new_def webrtc_init_def qt_pc_def Let_def)

lemma QtWidgetsTest_newE:
  assumes "QtWidgetsTest_new E = Inr s"
  obtains n d where "num_devices (qt_rtc E) = Some n" "s = fresh_window E n d"
  using assms by (auto simp: QtWidgetsTest_new_eq bindR_eq_Inr split: if_splits option.splits)

lemma qt_pc_inv: "qt_inv R s \<Longrightarrow> local_descriptions [c] = 0 \<Longrightarrow> resP (qt_inv R) (qt_pc c s)"
  by (auto simp: qt_inv_def qt_pc_def local_descriptions_def)

lemma qt_inv_callback: "qt_inv R s \<Longrightarrow> qt_inv R (SetPeerConnection (connection s \<noteq> None) s)"
  by (auto simp: qt_inv_def SetPeerConnection_def)

lemma add_video_inv: "qt_inv R s \<Longrightarrow> resP (qt_inv R) (add_video E s)"
proof -
  assume s: "qt_inv R s"
  then have "qt_inv R (s\<lparr>desktops := desktops s @ [c]\<rparr>)" "qt_inv R (s\<lparr>video_sinks := n\<rparr>)" for c n
    by (simp_all add: qt_inv_def)
  then show ?thesis
    by (simp add: add_video_def resP_bindR qt_pc_inv local_descriptions_def Let_def resP_def [of _ "startCapturer _ _ _ _"]
        split: sum.split)
qed

lemma webrtc_init_inv:
  assumes "qt_inv R s"
  shows "resP (qt_inv R) (webrtc_init E s)"
proof -
  have offer: "resP (qt_inv R) (qt_pc QtCreateOffer (SetPeerConnection (connection t \<noteq> None) t))" if "qt_inv R t" for t
    using qt_pc_inv [OF qt_inv_callback [OF that]] by (simp add: local_descriptions_def)
  have audio: "resP (qt_inv R) (qt_pc (QtAddAudio [kStreamId]) s)"
    using qt_pc_inv [OF assms] by (simp add: local_descriptions_def)
  have "resP (qt_inv R) (bindR (qt_pc (QtAddAudio [kStreamId]) s) (\<lambda>s. bindR (add_video E s) (\<lambda>s.
      qt_pc QtCreateOffer (SetPeerConnection (connection s \<noteq> None) s))))"
    by (rule resP_bindI [OF audio], rule resP_bindI [OF add_video_inv], assumption, rule offer)
  then show ?thesis by (simp add: webrtc_init_def)
qed

lemma connect_loads_inv:
  "qt_inv R s \<Longrightarrow> resP (qt_inv R) (connect_sdp_load E s)"
  "qt_inv R s \<Longrightarrow> resP (qt_inv R) (connect_candidate_load E s)"
  by (simp_all add: connect_sdp_load_def connect_candidate_load_def Let_def qt_pc_inv local_descriptions_def
      split: option.split)

lemma qt_inv_step: "qt_step R s t \<Longrightarrow> qt_inv R s \<Longrightarrow> qt_inv R t"
proof (induction rule: qt_step.induct)
  case (start E s t)
  then show ?case by (metis start_clicked_def webrtc_init_inv resP_D)
next
  case (connect E s t)
  have "resP (qt_inv R) (local_remote_connect_clicked E s)"
    unfolding local_remote_connect_clicked_def
    by (rule resP_bindI [OF connect_loads_inv(1) [OF connect.prems]], rule connect_loads_inv(2))
  with connect.hyps show ?case by simp
next
  case (success desc s t)
  then show ?case
    by (auto simp: Callback_OnSuccess_def qt_pc_def i32_def qt_inv_def bindR_eq_Inr Let_def split: if_splits)
qed (auto simp: qt_inv_def makesure_clicked_def showsdp_clicked_def showcandidate_clicked_def Callback_OnIceCandidate_def
    split: option.splits)

lemma qt_reach_inv: "qt_reach R s \<Longrightarrow> qt_inv R s"
proof (induction rule: qt_reach.induct)
  case (new E s)
  from new(2) obtain n d where "num_devices (qt_rtc E) = Some n" "s = fresh_window E n d" by (rule QtWidgetsTest_newE)
  with new(1) show ?case by (simp add: qt_inv_def fresh_window_def)
next
  case (step s t)
  then show ?case using qt_inv_step by blast
qed

text \<open>
  C14. In every reachable state of the call window its connection, its factory and the callback's
  connection exist, so no answer of the library finds them null; every local description set was
  counted; the first calls on the connection added the screen as video before the user chose
  anything; the last entry of the device list is the desktop.
\<close>

theorem qt_window_safe:
  assumes "qt_reach R s"
  shows "\<exists>cs n. connection s = Some (first_calls @ cs) \<and> times s = local_descriptions cs \<and>
    first_calls ! 2 = QtAddVideo Desktop_source [kStreamId] \<and> num_devices R = Some n \<and> camera_num_max s = n \<and>
    last (combo_items s) = ''desktop'' \<and> Callback_OnSuccess R desc s \<noteq> Inl Null_deref \<and>
    (qt_rtc E = R \<longrightarrow> connect_sdp_load E s \<noteq> Inl Null_deref \<and> connect_candidate_load E s \<noteq> Inl Null_deref)"
proof -
  from qt_reach_inv [OF assms] obtain cs where
    "callback_connection s" "connection s = Some (first_calls @ cs)" "times s = local_descriptions cs"
    "num_devices R = Some (camera_num_max s)" "last (combo_items s) = ''desktop''"
    by (auto simp: qt_inv_def)
  then show ?thesis
    by (auto simp: first_calls_def Callback_OnSuccess_def qt_pc_def i32_def connect_sdp_load_def connect_candidate_load_def
        Let_def split: option.splits)
qed

section \<open>Exchange by hand\<close>

text \<open>
  C15. A description shown by one window and pasted into the other reaches its connection unchanged,
  but is always set as an answer, also when it is the offer every window makes, and no answer is
  made; of the candidates found only the last is shown, and pasting it adds exactly it.
\<close>

theorem qt_exchange:
  assumes "qt_rtc E = R" "reads_back R [(kSessionDescriptionTypeName, JString (sdp_type_to_string R (desc_type desc))),
                         (kSessionDescriptionSdpName, JString (desc_string desc))]"
    and "sdp_type_from_string R (sdp_type_to_string R (desc_type desc)) = Some (desc_type desc)"
    and "sdp_type_to_string R (desc_type desc) \<noteq> []" "sdp_ok R kAnswer (desc_string desc)"
    and "candidate_string c = Some sdp"
    and "reads_back R [(kCandidateSdpMidName, JString (sdp_mid c)), (kCandidateSdpMlineIndexName, JInt (sdp_mline_index c)),
                       (kCandidateSdpName, JString sdp)]"
    and "candidate_ok R (sdp_mid c) (sdp_mline_index c) sdp"
    and "qt_inv R s" "times s < 2 ^ 31 - 1" "connection r = Some cs"
  shows "\<exists>t. Callback_OnSuccess R desc s = Inr t \<and>
    (let u = showsdp_clicked (showcandidate_clicked (Callback_OnIceCandidate R c (fold (Callback_OnIceCandidate R) earlier t)));
         r = r\<lparr>remote_sdp_text := local_sdp_text u, remote_candidate_text := local_candidate_text u\<rparr>
     in local_remote_connect_clicked E r =
          Inr (r\<lparr>connection := Some (cs @ [QtSetRemote kAnswer (desc_string desc), QtAddIce c])\<rparr>))"
proof -
  let ?m = "json_write R [(kSessionDescriptionTypeName, JString (sdp_type_to_string R (desc_type desc))),
                         (kSessionDescriptionSdpName, JString (desc_string desc))]"
  let ?n = "json_write R [(kCandidateSdpMidName, JString (sdp_mid c)), (kCandidateSdpMlineIndexName, JInt (sdp_mline_index c)),
                       (kCandidateSdpName, JString sdp)]"
  obtain j where j: "json_parse R ?m = Some j"
      "json_string j kSessionDescriptionTypeName = Some (sdp_type_to_string R (desc_type desc))"
      "json_string j kSessionDescriptionSdpName = Some (desc_string desc)"
    using assms(2) by (auto simp: reads_back_def split: option.splits)
  obtain k where k: "json_parse R ?n = Some k" "json_string k kCandidateSdpMidName = Some (sdp_mid c)"
      "json_int k kCandidateSdpMlineIndexName = Some (sdp_mline_index c)" "json_string k kCandidateSdpName = Some sdp"
      "json_string k kSessionDescriptionTypeName = None"
    using assms(7) by (auto simp: reads_back_def field_names split: option.splits)
  obtain t where t: "Callback_OnSuccess R desc s = Inr t" "mysdp t = ?m"
    using assms(9,10) by (auto simp: qt_inv_def Callback_OnSuccess_def qt_pc_def i32_def local_descriptions_def Let_def)
  have "mysdp (Callback_OnIceCandidate R c (fold (Callback_OnIceCandidate R) earlier t)) = mysdp t"
    by (induction earlier arbitrary: t rule: rev_induct) (auto simp: Callback_OnIceCandidate_def split: option.splits)
  moreover have "my_candidate (Callback_OnIceCandidate R c w) = ?n" for w :: qt_window
    using assms(6) by (simp add: Callback_OnIceCandidate_def)
  moreover have "\<lparr>sdp_mid = sdp_mid c, sdp_mline_index = sdp_mline_index c, candidate_string = Some sdp\<rparr> = c"
    using assms(6) by simp
  ultimately show ?thesis
    using t assms(1,3-5,8,11) j k
    by (simp add: showsdp_clicked_def showcandidate_clicked_def sdpGet_def candidateGet_def Let_def
        local_remote_connect_clicked_def connect_sdp_load_def connect_candidate_load_def qt_pc_def)
qed

text \<open>A JSON library that writes an object as its first text and reads back two.\<close>

definition two_objects :: rtc where
  "two_objects =
     (let read = (\<lambda>fs. \<lparr>json_string = (\<lambda>k. case map_of fs k of Some (JString x) \<Rightarrow> Some x | _ \<Rightarrow> None),
                       json_int = (\<lambda>k. case map_of fs k of Some (JInt n) \<Rightarrow> Some n | _ \<Rightarrow> None)\<rparr>)
      in sample_rtc
     \<lparr>json_write := (\<lambda>fs. if length fs = 2 then ''D'' else ''C''),
      json_parse := (\<lambda>x. Some (if x = ''D'' then read [(''type'', JString ''offer''), (''sdp'', JString ''v=0'')]
         else read [(''sdpMid'', JString ''0''), (''sdpMLineIndex'', JInt 1), (''candidate'', JString ''cand'')])),
      sdp_type_from_string := (\<lambda>x. Some kOffer)\<rparr>)"

definition sample_qt :: qt_env where
  "sample_qt = \<lparr>qt_rtc = two_objects, device_name = (\<lambda>i. Some ''camera''), video_track_made = (\<lambda>x. x \<noteq> No_source),
     qt_yuv = \<lparr>I420Buffer_Create = tight_i420, ConvertToI420 = rows_fit\<rparr>, screen_created = True, first_frames = []\<rparr>"

lemma sample_qt_new: "QtWidgetsTest_new sample_qt =
    Inr (fresh_window sample_qt 2 \<lparr>lc_capturer = True, lc_buffer = None, lc_frames = [], lc_posts = [33]\<rparr>)"
  by (simp add: QtWidgetsTest_new_eq sample_qt_def two_objects_def sample_rtc_def startCapturer_def
      localCapturer_CaptureFrame_def localCapturer_new_def Let_def)

lemma sample_qt_inv: "qt_inv two_objects (fresh_window sample_qt 2 d)"
  by (simp add: qt_inv_def fresh_window_def two_objects_def sample_rtc_def Let_def)

theorem qt_window_safe_witness:
  "\<exists>s. qt_reach two_objects s \<and> Callback_OnSuccess two_objects \<lparr>desc_type = kOffer, desc_string = ''v=0''\<rparr> s \<noteq> Inl Null_deref"
proof -
  have "qt_rtc sample_qt = two_objects" by (simp add: sample_qt_def)
  from qt_reach.new [OF this sample_qt_new] qt_window_safe show ?thesis by blast
qed

theorem qt_exchange_witness:
  "\<exists>t. Callback_OnSuccess two_objects \<lparr>desc_type = kOffer, desc_string = ''v=0''\<rparr>
       (fresh_window sample_qt 2 localCapturer_new) = Inr t"
  using qt_exchange [of sample_qt two_objects "\<lparr>desc_type = kOffer, desc_string = ''v=0''\<rparr>"
      "\<lparr>sdp_mid = ''0'', sdp_mline_index = 1, candidate_string = Some ''cand''\<rparr>" "''cand''"
      "fresh_window sample_qt 2 localCapturer_new" "fresh_window sample_qt 2 localCapturer_new" first_calls "[]"]
    sample_qt_inv
  by (auto simp: sample_qt_def two_objects_def sample_rtc_def reads_back_def fresh_window_def Let_def
      kSessionDescriptionTypeName_def kSessionDescriptionSdpName_def kCandidateSdpMidName_def
      kCandidateSdpMlineIndexName_def kCandidateSdpName_def)

section \<open>The device\<close>

lemma length_filter_all: "length (filter P xs) = length xs \<longleftrightarrow> (\<forall>x \<in> set xs. P x)"
  by (metis filter_True length_filter_less less_irrefl)

text \<open>
  The device list has the names that could be read and then the desktop, but the desktop is
  recognised by the number of devices: choosing the last entry captures the screen exactly when
  every name could be read, and otherwise no entry does.
\<close>

theorem qt_camera_choice:
  assumes "QtWidgetsTest_new E = Inr s" "num_devices (qt_rtc E) = Some n" "0 \<le> n"
    and "0 \<le> i" "i < int (length (combo_items s))"
  shows "combo_items s = List.map_filter (device_name E) [0..n - 1] @ [''desktop''] \<and>
    (if \<forall>k. 0 \<le> k \<and> k < n \<longrightarrow> device_name E k \<noteq> None
     then if_check_desktop (makesure_clicked (s\<lparr>combo_index := i\<rparr>)) \<longleftrightarrow> i = int (length (combo_items s)) - 1
     else \<not> if_check_desktop (makesure_clicked (s\<lparr>combo_index := i\<rparr>)))"
proof -
  from assms(1,2) obtain d where s: "s = fresh_window E n d" by (auto elim!: QtWidgetsTest_newE)
  have len: "length (device_names E n) \<le> nat n"
    and full: "length (device_names E n) = nat n \<longleftrightarrow> (\<forall>k. 0 \<le> k \<and> k < n \<longrightarrow> device_name E k \<noteq> None)"
    unfolding device_names_def List.map_filter_def
    using length_filter_le [of "\<lambda>k. device_name E k \<noteq> None" "[0..n - 1]"]
      length_filter_all [of "\<lambda>k. device_name E k \<noteq> None" "[0..n - 1]"]
    by (simp_all add: comp_def) auto
  have "if_check_desktop (makesure_clicked (s\<lparr>combo_index := i\<rparr>)) \<longleftrightarrow> i = n"
    by (simp add: s if_check_desktop_def makesure_clicked_def fresh_window_def)
  then show ?thesis
    using assms(3-5) len full by (auto simp: s fresh_window_def device_names_def)
qed

theorem qt_camera_choice_witness:
  "\<not> if_check_desktop (makesure_clicked (fresh_window (sample_qt\<lparr>device_name := (\<lambda>i. if i = 0 then None else Some ''camera'')\<rparr>) 2
       \<lparr>lc_capturer = True, lc_buffer = None, lc_frames = [], lc_posts = [33]\<rparr>\<lparr>combo_index := 1\<rparr>))"
proof -
  let ?E = "sample_qt\<lparr>device_name := (\<lambda>i. if i = 0 then None else Some ''camera'')\<rparr>"
  let ?d = "\<lparr>lc_capturer = True, lc_buffer = None, lc_frames = [], lc_posts = [33]\<rparr>"
  have new: "QtWidgetsTest_new ?E = Inr (fresh_window ?E 2 ?d)"
    by (simp add: QtWidgetsTest_new_eq sample_qt_def two_objects_def sample_rtc_def startCapturer_def
      localCapturer_CaptureFrame_def localCapturer_new_def Let_def)
  have num: "num_devices (qt_rtc ?E) = Some 2"
    by (simp add: sample_qt_def two_objects_def sample_rtc_def Let_def)
  have "[0..2 - 1 :: int] = [0, 1]" by (simp add: upto.simps)
  then have len: "1 < int (length (combo_items (fresh_window ?E 2 ?d)))"
    by (simp add: fresh_window_def device_names_def List.map_filter_simps)
  have unread: "(\<forall>k. 0 \<le> k \<and> k < 2 \<longrightarrow> device_name ?E k \<noteq> None) \<longleftrightarrow> False"
    by (simp add: exI [of _ 0])
  show ?thesis
    using qt_camera_choice [OF new num _ _ len] by (simp only: unread if_False) simp
qed

section \<open>The description window\<close>

text \<open>
  The window that shows a description never hands its connection to the callback, so the
  library's answer to the offer it makes dereferences null.
\<close>

theorem sdp_window_crashes:
  assumes "QtWidgetsSdp_new E = Inr s"
  shows "(\<exists>cs. connection s = Some (cs @ [QtCreateOffer])) \<and> Callback_OnSuccess R desc s = Inl Null_deref"
  using assms
  by (auto simp: QtWidgetsSdp_new_def qt_pc_def Let_def bindR_eq_Inr Callback_OnSuccess_def split: if_splits option.splits)

theorem sdp_window_crashes_witness:
  "\<exists>s. QtWidgetsSdp_new sample_qt = Inr s \<and>
     Callback_OnSuccess two_objects \<lparr>desc_type = kOffer, desc_string = ''v=0''\<rparr> s = Inl Null_deref"
proof -
  have "\<exists>s. QtWidgetsSdp_new sample_qt = Inr s"
    by (simp add: QtWidgetsSdp_new_def sample_qt_def two_objects_def sample_rtc_def qt_pc_def Let_def split: option.splits)
  then show ?thesis using sdp_window_crashes by blast
qed

end
