(* ===== verification/Command_Line.thy ===== *)
theory Command_Line
  imports App_Props
begin

text \<open>
  The rest of the process's start and end (src/PjWebrtc/main.cc, defaults.cc): the command line as
  8-bit strings, the defaults read from the environment, and the two message loops.
\<close>

section \<open>WindowsCommandLineArguments\<close>

text \<open>
  A \<open>std::string\<close> of at most \<open>sso\<close> characters keeps them in the object, which is an element of the
  vector \<open>args_\<close>; a longer one keeps them on the heap.  The vector's elements lie in a block of
  \<open>args_capacity\<close> elements, the \<open>args_block\<close>th it had; a full block is replaced by one of
  \<open>grow\<close> elements, into which the strings move.  A pointer of \<open>argv_\<close> is into the object at an
  index of a block, or to the heap characters of the string at an index.
\<close>

datatype char_ptr = Inside nat nat | Heap nat

record arguments =
  args :: "string list"
  args_capacity :: nat
  args_block :: nat
  argv :: "char_ptr list"

definition no_arguments :: arguments where
  "no_arguments = \<lparr>args = [], args_capacity = 0, args_block = 0, argv = []\<rparr>"

definition c_str_ptr :: "nat \<Rightarrow> nat \<Rightarrow> arguments \<Rightarrow> char_ptr" where
  "c_str_ptr sso i s = (if length (args s ! i) \<le> sso then Inside (args_block s) i else Heap i)"

definition push_arg :: "nat \<Rightarrow> (nat \<Rightarrow> nat) \<Rightarrow> string \<Rightarrow> arguments \<Rightarrow> arguments" where
  "push_arg sso grow a s =
     (let s = (if length (args s) = args_capacity s
               then s\<lparr>args_capacity := grow (args_capacity s), args_block := args_block s + 1\<rparr> else s);
          s = s\<lparr>args := args s @ [a]\<rparr>
      in s\<lparr>argv := argv s @ [c_str_ptr sso (length (args s) - 1) s]\<rparr>)"

text \<open>\<open>wide_argv\<close> is what \<open>CommandLineToArgvW\<close> returns; \<open>ToUtf8\<close> the library's conversion.\<close>

definition WindowsCommandLineArguments_new :: "nat \<Rightarrow> (nat \<Rightarrow> nat) \<Rightarrow> ('w \<Rightarrow> string) \<Rightarrow> 'w list \<Rightarrow> arguments" where
  "WindowsCommandLineArguments_new sso grow ToUtf8 wide_argv =
     fold (\<lambda>w. push_arg sso grow (ToUtf8 w)) wide_argv no_arguments"

definition argc :: "arguments \<Rightarrow> nat" where
  "argc s = length (argv s)"

text \<open>Reading an argument: the block must be the one the vector has.\<close>

definition read_arg :: "arguments \<Rightarrow> nat \<Rightarrow> string res" where
  "read_arg s i =
     (case argv s ! i of
        Heap k \<Rightarrow> Inr (args s ! k)
      | Inside b k \<Rightarrow> if b = args_block s then Inr (args s ! k) else Inl Bad_memory)"

section \<open>Defaults\<close>

definition GetEnvVarOrDefault :: "(string \<Rightarrow> string option) \<Rightarrow> string \<Rightarrow> string \<Rightarrow> string" where
  "GetEnvVarOrDefault getenv env_var_name default_value =
     (let env_var = (case getenv env_var_name of None \<Rightarrow> [] | Some v \<Rightarrow> c_str v)
      in if env_var = [] then default_value else env_var)"

definition GetPeerConnectionString :: "(string \<Rightarrow> string option) \<Rightarrow> string" where
  "GetPeerConnectionString getenv = GetEnvVarOrDefault getenv ''WEBRTC_CONNECT'' ''stun:stun.l.google.com:19302''"

definition GetDefaultServerName :: "(string \<Rightarrow> string option) \<Rightarrow> string" where
  "GetDefaultServerName getenv = GetEnvVarOrDefault getenv ''WEBRTC_SERVER'' ''localhost''"

text \<open>\<open>gethostname\<close>: the name, or none when it fails.\<close>

definition GetPeerName :: "(string \<Rightarrow> string option) \<Rightarrow> string option \<Rightarrow> string" where
  "GetPeerName getenv gethostname =
     GetEnvVarOrDefault getenv ''USERNAME'' ''user'' @ ''@'' @
     (case gethostname of Some computer_name \<Rightarrow> c_str computer_name | None \<Rightarrow> ''host'')"

section \<open>The message loops\<close>

text \<open>
  \<open>Looping\<close>: the first loop; \<open>Draining\<close>: the second, entered when the first is told to quit while a
  connection is active or the client is connected, and left when neither is so or at the next
  quit.
\<close>

datatype main_state = Looping conductor | Draining conductor | Returned int

definition still_connected :: "conductor \<Rightarrow> bool" where
  "still_connected s \<longleftrightarrow> connection_active s \<or> is_connected s"

inductive main_step :: "bool \<Rightarrow> main_state \<Rightarrow> main_state \<Rightarrow> bool" for d where
  loop_message: "app_step d s t \<Longrightarrow> main_step d (Looping s) (Looping t)"
| loop_quit: "main_step d (Looping s) (if still_connected s then Draining s else Returned 0)"
| drain_message: "still_connected s \<Longrightarrow> app_step d s t \<Longrightarrow> main_step d (Draining s) (Draining t)"
| drain_quit: "still_connected s \<Longrightarrow> main_step d (Draining s) (Returned 0)"
| drain_done: "\<not> still_connected s \<Longrightarrow> main_step d (Draining s) (Returned 0)"

inductive main_reach :: "bool \<Rightarrow> main_state \<Rightarrow> bool" for d where
  main_start: "dchecks_on E = d \<Longrightarrow> wWinMain_start E W f = Inr (Inr s) \<Longrightarrow> main_reach d (Looping s)"
| main_refused: "dchecks_on E = d \<Longrightarrow> wWinMain_start E W f = Inr (Inl code) \<Longrightarrow> main_reach d (Returned code)"
| main_next: "main_reach d m \<Longrightarrow> main_step d m n \<Longrightarrow> main_reach d n"

inductive_cases main_stepE: "main_step d m n"

section \<open>What holds\<close>

text \<open>The state of the arguments while they are pushed; a boundary is an index at which the block was full.\<close>

definition boundary :: "(nat \<Rightarrow> nat) \<Rightarrow> nat \<Rightarrow> bool" where
  "boundary grow k \<longleftrightarrow> (\<exists>j. k = (grow ^^ j) 0)"

text \<open>How often the vector has grown when it has \<open>n\<close> elements.\<close>

definition blocks_at :: "(nat \<Rightarrow> nat) \<Rightarrow> nat \<Rightarrow> nat" where
  "blocks_at grow n = card {k. k < n \<and> boundary grow k}"

lemma blocks_at_Suc: "blocks_at grow (Suc n) = blocks_at grow n + (if boundary grow n then 1 else 0)"
proof -
  have "{k. k < Suc n \<and> boundary grow k} = {k. k < n \<and> boundary grow k} \<union> (if boundary grow n then {n} else {})"
    by (auto simp: less_Suc_eq)
  then show ?thesis by (simp add: blocks_at_def)
qed

lemma blocks_at_mono: "m \<le> n \<Longrightarrow> blocks_at grow m \<le> blocks_at grow n"
  unfolding blocks_at_def by (intro card_mono) auto

lemma blocks_at_eq:
  assumes "m \<le> n"
  shows "blocks_at grow m = blocks_at grow n \<longleftrightarrow> (\<forall>k. m \<le> k \<and> k < n \<longrightarrow> \<not> boundary grow k)"
  using assms
proof (induction n rule: dec_induct)
  case (step n)
  have "blocks_at grow m \<le> blocks_at grow n" using step(1) by (rule blocks_at_mono)
  with step show ?case by (auto simp: blocks_at_Suc less_Suc_eq)
qed auto

definition args_inv :: "nat \<Rightarrow> (nat \<Rightarrow> nat) \<Rightarrow> string list \<Rightarrow> arguments \<Rightarrow> bool" where
  "args_inv sso grow as s \<longleftrightarrow>
     args s = as \<and> args_block s = blocks_at grow (length as) \<and> args_capacity s = (grow ^^ args_block s) 0 \<and>
     length as \<le> args_capacity s \<and> (\<forall>j < args_block s. (grow ^^ j) 0 < length as) \<and>
     argv s = map (\<lambda>i. if length (as ! i) \<le> sso then Inside (blocks_at grow (Suc i)) i else Heap i) [0..<length as]"

lemma grow_strict:
  assumes "\<And>n. n < grow n"
  shows "i < j \<Longrightarrow> (grow ^^ i) 0 < (grow ^^ j) (0 :: nat)"
proof (induction j)
  case (Suc j)
  then show ?case using assms [of "(grow ^^ j) 0"] by (cases "i = j") (auto intro: less_trans)
qed simp

lemma full_boundary:
  assumes "\<And>n. n < grow n" "args_inv sso grow as s"
  shows "boundary grow (length as) \<longleftrightarrow> length as = args_capacity s"
proof -
  have cap: "args_capacity s = (grow ^^ args_block s) 0" and le: "length as \<le> args_capacity s"
    and less: "\<And>j. j < args_block s \<Longrightarrow> (grow ^^ j) 0 < length as"
    using assms(2) unfolding args_inv_def by blast+
  show ?thesis
  proof
    assume "boundary grow (length as)"
    then obtain j where j: "length as = (grow ^^ j) 0" by (auto simp: boundary_def)
    have "\<not> j < args_block s" using less [of j] j by auto
    moreover have "\<not> args_block s < j" using grow_strict [OF assms(1), of "args_block s" j] le cap j by auto
    ultimately have "j = args_block s" by simp
    then show "length as = args_capacity s" unfolding j cap by (simp only:)
  next
    assume "length as = args_capacity s"
    then show "boundary grow (length as)" unfolding boundary_def cap by (rule exI)
  qed
qed

lemma push_arg_inv:
  assumes grow: "\<And>n. n < grow n" and inv: "args_inv sso grow as s"
  shows "args_inv sso grow (as @ [a]) (push_arg sso grow a s)"
proof -
  let ?n = "length as"
  obtain b where b: "b = blocks_at grow ?n" by blast
  have fields: "args s = as" "args_block s = b" "args_capacity s = (grow ^^ b) 0" "?n \<le> args_capacity s"
      "\<forall>j < b. (grow ^^ j) 0 < ?n"
      "argv s = map (\<lambda>i. if length (as ! i) \<le> sso then Inside (blocks_at grow (Suc i)) i else Heap i) [0..<?n]"
    using inv unfolding args_inv_def b by (blast, metis+)
  have old: "argv s = map (\<lambda>i. if length ((as @ [a]) ! i) \<le> sso then Inside (blocks_at grow (Suc i)) i else Heap i) [0..<?n]"
    unfolding fields(6) by (intro map_cong) (auto simp: nth_append)
  show ?thesis
  proof (cases "?n = args_capacity s")
    case True
    then have "blocks_at grow (Suc ?n) = Suc b" using full_boundary [OF grow inv] by (simp add: blocks_at_Suc b)
    moreover have "\<forall>j < Suc b. (grow ^^ j) 0 < Suc ?n"
      using fields(3,5) True by (metis less_Suc_eq less_Suc_eq_le order_refl)
    moreover have "Suc ?n \<le> grow (args_capacity s)" using grow [of ?n] True by simp
    ultimately show ?thesis
      using True fields(1-3) old nth_append_length [of as a "[]"] by (simp add: push_arg_def args_inv_def c_str_ptr_def Let_def)
  next
    case False
    then have "blocks_at grow (Suc ?n) = b" using full_boundary [OF grow inv] by (simp add: blocks_at_Suc b)
    moreover have "Suc ?n \<le> args_capacity s" using fields(4) False by simp
    ultimately show ?thesis
      using False fields(1-3,5) old by (simp add: push_arg_def args_inv_def c_str_ptr_def Let_def less_SucI)
  qed
qed

lemma arguments_inv:
  assumes "\<And>n. n < grow n"
  shows "args_inv sso grow (map ToUtf8 ws) (WindowsCommandLineArguments_new sso grow ToUtf8 ws)"
proof (induction ws rule: rev_induct)
  case Nil
  show ?case by (simp add: WindowsCommandLineArguments_new_def no_arguments_def args_inv_def blocks_at_def)
next
  case (snoc w ws)
  then show ?case using push_arg_inv [OF assms] by (simp add: WindowsCommandLineArguments_new_def)
qed

text \<open>
  With a vector that grows whenever it is full, \<open>argv\<close> has all arguments, but reading one gives
  it only if it is longer than a string keeps in its object, or no argument after it found the
  block full; otherwise the pointer is into a block that was freed.
\<close>

theorem argv_dangles:
  assumes "\<And>n. n < grow n" "i < length ws"
    and "s = WindowsCommandLineArguments_new sso grow ToUtf8 ws"
  shows "argc s = length ws \<and>
    read_arg s i = (if sso < length (ToUtf8 (ws ! i)) \<or> (\<forall>k. i < k \<and> k < length ws \<longrightarrow> \<not> boundary grow k)
      then Inr (ToUtf8 (ws ! i)) else Inl Bad_memory)"
proof -
  have "args_inv sso grow (map ToUtf8 ws) s" unfolding assms(3) using assms(1) by (rule arguments_inv)
  then have "args s = map ToUtf8 ws" "args_block s = blocks_at grow (length ws)"
      "argv s = map (\<lambda>i. if length (ToUtf8 (ws ! i)) \<le> sso then Inside (blocks_at grow (Suc i)) i else Heap i) [0..<length ws]"
    by (auto simp: args_inv_def)
  moreover have "blocks_at grow (Suc i) = blocks_at grow (length ws) \<longleftrightarrow> (\<forall>k. i < k \<and> k < length ws \<longrightarrow> \<not> boundary grow k)"
    using blocks_at_eq [of "Suc i" "length ws" grow] assms(2) by (auto simp: Suc_le_eq)
  ultimately show ?thesis using assms(2) by (auto simp: argc_def read_arg_def not_less)
qed

theorem argv_dangles_witness:
  "read_arg (WindowsCommandLineArguments_new 15 (\<lambda>n. n + max 1 (n div 2)) (\<lambda>w. w)
     [''C:PjWebrtc.exe'', ''--autocall'', ''--autoconnect'']) 1 = Inl Bad_memory"
proof -
  let ?grow = "\<lambda>n. n + max 1 (n div 2) :: nat"
  let ?ws = "[''C:PjWebrtc.exe'', ''--autocall'', ''--autoconnect'']"
  have "boundary ?grow 2" by (auto simp: boundary_def numeral_2_eq_2 intro!: exI [of _ 2])
  then have "(\<forall>k. 1 < k \<and> k < length ?ws \<longrightarrow> \<not> boundary ?grow k) \<longleftrightarrow> False" by (auto intro!: exI [of _ 2])
  moreover have "n < ?grow n" for n by simp
  moreover have "1 < length ?ws" "(15 < length (?ws ! 1)) = False" by simp_all
  ultimately show ?thesis
    using argv_dangles [of ?grow 1 ?ws _ 15 "\<lambda>w. w", OF _ _ refl] by (simp only: simp_thms if_False)
qed

text \<open>The defaults are never empty, and the peer's name has the form the server expects.\<close>

lemma GetEnvVarOrDefault_nonempty: "default_value \<noteq> [] \<Longrightarrow> GetEnvVarOrDefault getenv v default_value \<noteq> []"
  by (simp add: GetEnvVarOrDefault_def Let_def)

text \<open>The state in either loop is one the first loop can reach, so the invariants hold in both.\<close>

lemma main_reach_app:
  "main_reach d m \<Longrightarrow> case m of Looping s \<Rightarrow> app_reach d s | Draining s \<Rightarrow> app_reach d s | Returned code \<Rightarrow> code \<in> {0, - 1}"
proof (induction rule: main_reach.induct)
  case (main_start E W f s)
  then show ?case by (auto intro: app_reach.app_start)
next
  case (main_refused E W f code)
  then show ?case
    by (auto simp: wWinMain_start_def bindR_eq_Inr dcheck_eq_Inr split: if_splits)
next
  case (main_next m n)
  from main_next(2,3) show ?case
    by (elim main_stepE) (auto intro: app_reach.app_next)
qed

end
