(* ===== verification/Qt_Conductor.thy ===== *)
theory Qt_Conductor
  imports Conductor_Inv Qt_Call
begin

text \<open>
  The \<open>Conductor\<close> of src/QtWebrtc/conductor.cpp: the one of src/PjWebrtc with its client and its
  window taken out.  The file shows its operations, that each is the original's seen through
  \<open>qt_view\<close>, and what the missing parts leave open.
\<close>

section \<open>State\<close>

text \<open>\<open>lost_messages\<close>: the strings \<open>SendMessage\<close> allocates; nothing keeps their addresses.\<close>

record qt_conductor =
  qt_peer_id :: int
  qt_loopback :: bool
  qt_peer_connection :: "pc option"
  qt_peer_factory :: bool
  lost_messages :: "string list"

definition Qt_Conductor_new :: qt_conductor where
  "Qt_Conductor_new = \<lparr>qt_peer_id = - 1, qt_loopback = False, qt_peer_connection = None,
     qt_peer_factory = False, lost_messages = []\<rparr>"

definition Qt_Conductor_destroy :: "bool \<Rightarrow> qt_conductor \<Rightarrow> qt_conductor res" where
  "Qt_Conductor_destroy dchecks s = dcheck dchecks (qt_peer_connection s = None) s"

definition Qt_connection_active :: "qt_conductor \<Rightarrow> bool" where
  "Qt_connection_active s \<longleftrightarrow> qt_peer_connection s \<noteq> None"

definition Qt_pc_call :: "pc_call \<Rightarrow> qt_conductor \<Rightarrow> qt_conductor res" where
  "Qt_pc_call c s =
     (case qt_peer_connection s of
        None \<Rightarrow> Inl Null_deref
      | Some pc \<Rightarrow> Inr (s\<lparr>qt_peer_connection := Some (pc @ [c])\<rparr>))"

section \<open>Peer connection life cycle\<close>

definition Qt_DeletePeerConnection :: "qt_conductor \<Rightarrow> qt_conductor" where
  "Qt_DeletePeerConnection s =
     s\<lparr>qt_peer_connection := None, qt_peer_factory := False, qt_peer_id := - 1, qt_loopback := False\<rparr>"

definition Qt_CreatePeerConnection :: "bool \<Rightarrow> rtc \<Rightarrow> bool \<Rightarrow> qt_conductor \<Rightarrow> (bool \<times> qt_conductor) res" where
  "Qt_CreatePeerConnection dchecks R dtls s =
     bindR (dcheck dchecks (qt_peer_factory s) s) (\<lambda>s.
     bindR (dcheck dchecks (qt_peer_connection s = None) s) (\<lambda>s.
       if \<not> qt_peer_factory s then Inl Null_deref
       else let s = s\<lparr>qt_peer_connection :=
                        (if pc_ok R dtls stun_server then Some [Created dtls stun_server] else None)\<rparr>
            in Inr (qt_peer_connection s \<noteq> None, s)))"

definition Qt_AddTracks :: "rtc \<Rightarrow> qt_conductor \<Rightarrow> qt_conductor res" where
  "Qt_AddTracks R s =
     (case qt_peer_connection s of
        None \<Rightarrow> Inl Null_deref
      | Some pc \<Rightarrow>
          if pc_senders R pc \<noteq> [] then Inr s
          else if \<not> qt_peer_factory s then Inl Null_deref
          else bindR (Qt_pc_call (AddTrack Audio_track [kStreamId]) s) (\<lambda>s.
               (case CapturerTrackSource_Create R of
                  Some device \<Rightarrow> Qt_pc_call (AddTrack (Video_track device) [kStreamId]) s
                | None \<Rightarrow> Inr s)))"

definition Qt_InitializePeerConnection :: "bool \<Rightarrow> rtc \<Rightarrow> qt_conductor \<Rightarrow> (bool \<times> qt_conductor) res" where
  "Qt_InitializePeerConnection dchecks R s =
     bindR (dcheck dchecks (\<not> qt_peer_factory s) s) (\<lambda>s.
     bindR (dcheck dchecks (qt_peer_connection s = None) s) (\<lambda>s.
       let s = s\<lparr>qt_peer_factory := factory_ok R\<rparr>
       in if \<not> qt_peer_factory s then Inr (False, Qt_DeletePeerConnection s)
          else bindR (Qt_CreatePeerConnection dchecks R True s) (\<lambda>(ok, s).
               bindR (Qt_AddTracks R (if ok then s else Qt_DeletePeerConnection s)) (\<lambda>s.
                 Inr (qt_peer_connection s \<noteq> None, s)))))"

definition Qt_ReinitializePeerConnectionForLoopback ::
    "bool \<Rightarrow> rtc \<Rightarrow> qt_conductor \<Rightarrow> (bool \<times> qt_conductor) res" where
  "Qt_ReinitializePeerConnectionForLoopback dchecks R s =
     (let s = s\<lparr>qt_loopback := True\<rparr> in
      case qt_peer_connection s of
        None \<Rightarrow> Inl Null_deref
      | Some pc \<Rightarrow>
          let senders = pc_senders R pc
          in bindR (Qt_CreatePeerConnection dchecks R False (s\<lparr>qt_peer_connection := None\<rparr>)) (\<lambda>(ok, s).
             bindR (if ok then
                      bindR (fold (\<lambda>(t, ids) m. bindR m (Qt_pc_call (AddTrack t ids))) senders (Inr s))
                        (Qt_pc_call CreateOffer)
                    else Inr s) (\<lambda>s.
               Inr (qt_peer_connection s \<noteq> None, s))))"

definition Qt_EnsureStreamingUI :: "bool \<Rightarrow> qt_conductor \<Rightarrow> qt_conductor res" where
  "Qt_EnsureStreamingUI dchecks s = dcheck dchecks (qt_peer_connection s \<noteq> None) s"

section \<open>Callbacks and calls\<close>

definition Qt_SendMessage :: "string \<Rightarrow> qt_conductor \<Rightarrow> qt_conductor" where
  "Qt_SendMessage json_object s = s\<lparr>lost_messages := lost_messages s @ [json_object]\<rparr>"

definition Qt_OnAddTrack :: "qt_conductor \<Rightarrow> qt_conductor" where "Qt_OnAddTrack s = s"
definition Qt_OnRemoveTrack :: "qt_conductor \<Rightarrow> qt_conductor" where "Qt_OnRemoveTrack s = s"
definition Qt_OnFailure :: "qt_conductor \<Rightarrow> qt_conductor" where "Qt_OnFailure s = s"

definition Qt_OnIceCandidate :: "rtc \<Rightarrow> candidate \<Rightarrow> qt_conductor \<Rightarrow> qt_conductor res" where
  "Qt_OnIceCandidate R c s =
     (if qt_loopback s then Qt_pc_call (AddIceCandidate c) s
      else case candidate_string c of
             None \<Rightarrow> Inr s
           | Some sdp \<Rightarrow>
               Inr (Qt_SendMessage (json_write R
                 [(kCandidateSdpMidName, JString (sdp_mid c)),
                  (kCandidateSdpMlineIndexName, JInt (sdp_mline_index c)),
                  (kCandidateSdpName, JString sdp)]) s))"

definition Qt_OnSuccess :: "rtc \<Rightarrow> description \<Rightarrow> qt_conductor \<Rightarrow> qt_conductor res" where
  "Qt_OnSuccess R desc s =
     bindR (Qt_pc_call (SetLocalDescription desc) s) (\<lambda>s.
     let sdp = desc_string desc
     in if qt_loopback s then
          Qt_pc_call (SetRemoteDescription (if sdp_ok R kAnswer sdp then Some (kAnswer, sdp) else None)) s
        else
          Inr (Qt_SendMessage (json_write R
            [(kSessionDescriptionTypeName, JString (sdp_type_to_string R (desc_type desc))),
             (kSessionDescriptionSdpName, JString sdp)]) s))"

definition Qt_ConnectToPeer :: "bool \<Rightarrow> rtc \<Rightarrow> int \<Rightarrow> qt_conductor \<Rightarrow> qt_conductor res" where
  "Qt_ConnectToPeer dchecks R pid s =
     bindR (Qt_InitializePeerConnection dchecks R s) (\<lambda>(ok, s).
       if ok then Qt_pc_call CreateOffer (s\<lparr>qt_peer_id := pid\<rparr>) else Inr s)"

text \<open>What code outside the class can do to one; the libraries may answer differently each time.\<close>

inductive qt_conductor_step :: "bool \<Rightarrow> qt_conductor \<Rightarrow> qt_conductor \<Rightarrow> bool" for dchecks where
  connect: "Qt_ConnectToPeer dchecks R pid s = Inr t \<Longrightarrow> qt_conductor_step dchecks s t"
| success: "Qt_OnSuccess R desc s = Inr t \<Longrightarrow> qt_conductor_step dchecks s t"
| failure: "qt_conductor_step dchecks s (Qt_OnFailure s)"
| ice: "Qt_OnIceCandidate R c s = Inr t \<Longrightarrow> qt_conductor_step dchecks s t"
| add_track: "qt_conductor_step dchecks s (Qt_OnAddTrack s)"
| remove_track: "qt_conductor_step dchecks s (Qt_OnRemoveTrack s)"

inductive qt_conductor_reach :: "bool \<Rightarrow> qt_conductor \<Rightarrow> bool" for dchecks where
  new: "qt_conductor_reach dchecks Qt_Conductor_new"
| step: "qt_conductor_reach dchecks s \<Longrightarrow> qt_conductor_step dchecks s t \<Longrightarrow> qt_conductor_reach dchecks t"

end
