(* ===== verification/Qt_Conductor_Props.thy ===== *)
theory Qt_Conductor_Props
  imports Qt_Conductor App_Sample
begin

text \<open>
  The Qt \<open>Conductor\<close> against the original: \<open>qt_view\<close> forgets the client and the window of a
  \<open>conductor\<close> and keeps of its message queue the texts posted for the peer; every operation
  commutes with it.  Then the states it can reach, and what becomes of it in them.
\<close>

section \<open>The view\<close>

definition posted_texts :: "(int \<times> ui_data) list \<Rightarrow> string list" where
  "posted_texts q = List.map_filter (\<lambda>(i, d). case d of
     Text_data m \<Rightarrow> if i = SEND_MESSAGE_TO_PEER then Some m else None | _ \<Rightarrow> None) q"

lemma posted_texts_append: "posted_texts (p @ q) = posted_texts p @ posted_texts q"
  by (simp add: posted_texts_def List.map_filter_def)

definition qt_view :: "('a conductor_scheme) \<Rightarrow> qt_conductor" where
  "qt_view s = \<lparr>qt_peer_id = peer_id s, qt_loopback = loopback s, qt_peer_connection = peer_connection s,
     qt_peer_factory = peer_connection_factory s, lost_messages = posted_texts (msg_queue s)\<rparr>"

abbreviation viewed where "viewed m \<equiv> bindR m (\<lambda>s. Inr (qt_view s))"
abbreviation viewed_ok where "viewed_ok m \<equiv> bindR m (\<lambda>(ok, s). Inr (ok, qt_view s))"

named_theorems view_simps "the view after an operation"

lemma view_upds [view_simps]:
  "qt_view (s\<lparr>peer_connection := c\<rparr>) = (qt_view s)\<lparr>qt_peer_connection := c\<rparr>"
  "qt_view (s\<lparr>peer_connection_factory := b\<rparr>) = (qt_view s)\<lparr>qt_peer_factory := b\<rparr>"
  "qt_view (s\<lparr>peer_id := i\<rparr>) = (qt_view s)\<lparr>qt_peer_id := i\<rparr>"
  "qt_view (s\<lparr>loopback := b\<rparr>) = (qt_view s)\<lparr>qt_loopback := b\<rparr>"
  by (simp_all add: qt_view_def)

lemma view_fields [view_simps]:
  "qt_peer_connection (qt_view s) = peer_connection s" "qt_peer_factory (qt_view s) = peer_connection_factory s"
  "qt_peer_id (qt_view s) = peer_id s" "qt_loopback (qt_view s) = loopback s"
  by (simp_all add: qt_view_def)

lemma view_display: "display s t \<Longrightarrow> qt_view t = qt_view s"
  using display_conductor_fields [of s t] display_fields(3) [of s t] by (simp add: qt_view_def)

lemmas view_window [view_simps] =
  view_display [OF display_SwitchToStreamingUI] view_display [OF display_MessageBox]

lemma view_renderers [view_simps]:
  "bindR (StartLocalRenderer t s) (\<lambda>u. f (qt_view u)) = f (qt_view s)" "qt_view (StopLocalRenderer s) = qt_view s"
  "qt_view (StopRemoteRenderer s) = qt_view s"
  by (simp_all add: qt_view_def StartLocalRenderer_def VideoRenderer_new_def image_size_def i32_def bytes_per_pixel_def
      StopLocalRenderer_def StopRemoteRenderer_def gui_def split: option.split)

lemma view_DeletePeerConnection [view_simps]: "qt_view (DeletePeerConnection s) = Qt_DeletePeerConnection (qt_view s)"
  by (simp add: DeletePeerConnection_def Qt_DeletePeerConnection_def view_simps)

lemma view_SendMessage [view_simps]: "qt_view (SendMessage m s) = Qt_SendMessage m (qt_view s)"
  by (simp add: qt_view_def SendMessage_def Qt_SendMessage_def QueueUIThreadCallback_def posted_texts_append)
    (simp add: posted_texts_def List.map_filter_def)

text \<open>A view that each step of a loop commutes with, the loop commutes with.\<close>

locale viewed_step =
  fixes view :: "'s \<Rightarrow> 't" and op :: "'x \<Rightarrow> 's \<Rightarrow> 's res" and op' :: "'x \<Rightarrow> 't \<Rightarrow> 't res"
  assumes commute: "bindR (op x s) (\<lambda>s. Inr (view s)) = op' x (view s)"
begin

lemma then_op: "bindR (bindR m (op x)) (\<lambda>s. Inr (view s)) = bindR (bindR m (\<lambda>s. Inr (view s))) (op' x)"
  by (cases m) (simp_all add: commute)

lemma loop:
  "bindR (fold (\<lambda>x m. bindR m (op x)) xs m) (\<lambda>s. Inr (view s)) =
     fold (\<lambda>x m. bindR m (op' x)) xs (bindR m (\<lambda>s. Inr (view s)))"
  by (induction xs arbitrary: m) (simp_all add: then_op)

end

interpretation call: viewed_step qt_view pc_call Qt_pc_call
  by unfold_locales (simp add: pc_call_def Qt_pc_call_def view_simps split: option.split)

interpretation add_sender: viewed_step qt_view "\<lambda>(t, ids). pc_call (AddTrack t ids)" "\<lambda>(t, ids). Qt_pc_call (AddTrack t ids)"
  by unfold_locales (simp add: call.commute split: prod.split)

section \<open>Operations\<close>

lemma viewed_bind:
  "viewed m = m' \<Longrightarrow> (\<And>t. bindR (f t) w = f' (qt_view t)) \<Longrightarrow> bindR (bindR m f) w = bindR m' f'"
  by (cases m) auto

lemma viewed_bind_ok:
  "viewed_ok m = m' \<Longrightarrow> (\<And>ok t. bindR (f (ok, t)) w = f' (ok, qt_view t)) \<Longrightarrow> bindR (bindR m f) w = bindR m' f'"
  by (cases m) auto

lemma view_video:
  "viewed (bindR (case CapturerTrackSource_Create R of
             Some device \<Rightarrow> bindR (StartLocalRenderer (track_id R (Video_track device)) t)
                              (pc_call (AddTrack (Video_track device) [kStreamId]))
           | None \<Rightarrow> Inr t) (\<lambda>s. Inr (SwitchToStreamingUI W s)))
     = (case CapturerTrackSource_Create R of
          Some device \<Rightarrow> Qt_pc_call (AddTrack (Video_track device) [kStreamId]) (qt_view t)
        | None \<Rightarrow> Inr (qt_view t))"
  by (simp add: bindR_assoc view_simps call.commute split: option.split)

lemma view_AddTracks: "viewed (AddTracks (E, W, R) s) = Qt_AddTracks R (qt_view s)"
proof -
  have "viewed (bindR (pc_call (AddTrack Audio_track [kStreamId]) s) (\<lambda>t.
      bindR (case CapturerTrackSource_Create R of
             Some device \<Rightarrow> bindR (StartLocalRenderer (track_id R (Video_track device)) t)
                              (pc_call (AddTrack (Video_track device) [kStreamId]))
           | None \<Rightarrow> Inr t) (\<lambda>s. Inr (SwitchToStreamingUI W s))))
    = bindR (Qt_pc_call (AddTrack Audio_track [kStreamId]) (qt_view s)) (\<lambda>t.
        case CapturerTrackSource_Create R of
          Some device \<Rightarrow> Qt_pc_call (AddTrack (Video_track device) [kStreamId]) t
        | None \<Rightarrow> Inr t)"
    by (rule viewed_bind [OF call.commute]) (rule view_video)
  then show ?thesis
    by (cases "peer_connection s") (simp_all add: AddTracks_def Qt_AddTracks_def view_simps)
qed

lemma view_CreatePeerConnection:
  "connection_string R = stun_server \<Longrightarrow>
     viewed_ok (CreatePeerConnection (E, W, R) dtls s) = Qt_CreatePeerConnection (dchecks_on E) R dtls (qt_view s)"
  by (simp add: CreatePeerConnection_def Qt_CreatePeerConnection_def dcheck_def Let_def view_simps)

lemma view_InitializePeerConnection:
  assumes "connection_string R = stun_server"
  shows "viewed_ok (InitializePeerConnection (E, W, R) s) = Qt_InitializePeerConnection (dchecks_on E) R (qt_view s)"
proof -
  let ?s = "s\<lparr>peer_connection_factory := True\<rparr>"
  have tracks: "viewed_ok (bindR (AddTracks (E, W, R) t) (\<lambda>t. Inr (peer_connection t \<noteq> None, t)))
    = bindR (Qt_AddTracks R (qt_view t)) (\<lambda>t. Inr (qt_peer_connection t \<noteq> None, t))" for t :: "'a conductor_scheme"
    by (rule viewed_bind [OF view_AddTracks]) (simp add: view_simps)
  have "viewed_ok (bindR (CreatePeerConnection (E, W, R) True ?s) (\<lambda>(ok, t).
      bindR (AddTracks (E, W, R) (if ok then t
               else DeletePeerConnection (MessageBox ''Error'' ''CreatePeerConnection failed'' True t)))
        (\<lambda>t. Inr (peer_connection t \<noteq> None, t))))
    = bindR (Qt_CreatePeerConnection (dchecks_on E) R True (qt_view ?s)) (\<lambda>(ok, t).
        bindR (Qt_AddTracks R (if ok then t else Qt_DeletePeerConnection t)) (\<lambda>t. Inr (qt_peer_connection t \<noteq> None, t)))"
    by (rule viewed_bind_ok [OF view_CreatePeerConnection [OF assms]])
      (simp only: prod.case tracks if_distrib [of qt_view] view_simps)
  then show ?thesis
    by (cases "dchecks_on E"; cases "peer_connection s"; cases "peer_connection_factory s")
      (simp_all add: InitializePeerConnection_def Qt_InitializePeerConnection_def dcheck_def Let_def view_simps)
qed

lemma view_ReinitializePeerConnectionForLoopback:
  assumes "connection_string R = stun_server"
  shows "viewed_ok (ReinitializePeerConnectionForLoopback (E, W, R) s)
    = Qt_ReinitializePeerConnectionForLoopback (dchecks_on E) R (qt_view s)"
proof (cases "peer_connection s")
  case (Some pc)
  let ?s = "s\<lparr>loopback := True, peer_connection := None\<rparr>"
  let ?add = "\<lambda>(t, ids) m. bindR m (pc_call (AddTrack t ids))"
  let ?add' = "\<lambda>(t, ids) m. bindR m (Qt_pc_call (AddTrack t ids))"
  have fold: "?add = (\<lambda>x m. bindR m (case x of (t, ids) \<Rightarrow> pc_call (AddTrack t ids)))"
    "?add' = (\<lambda>x m. bindR m (case x of (t, ids) \<Rightarrow> Qt_pc_call (AddTrack t ids)))"
    by (auto simp: fun_eq_iff)
  have offer: "viewed_ok (bindR (if ok then bindR (fold ?add xs (Inr t)) (pc_call CreateOffer) else Inr t)
        (\<lambda>t. Inr (peer_connection t \<noteq> None, t)))
    = bindR (if ok then bindR (fold ?add' xs (Inr (qt_view t))) (Qt_pc_call CreateOffer) else Inr (qt_view t))
        (\<lambda>t. Inr (qt_peer_connection t \<noteq> None, t))" for ok xs and t :: "'a conductor_scheme"
    by (rule viewed_bind) (simp_all add: fold call.then_op add_sender.loop view_simps)
  have "viewed_ok (bindR (CreatePeerConnection (E, W, R) False ?s) (\<lambda>(ok, t).
      bindR (if ok then bindR (fold ?add (pc_senders R pc) (Inr t)) (pc_call CreateOffer) else Inr t)
        (\<lambda>t. Inr (peer_connection t \<noteq> None, t))))
    = bindR (Qt_CreatePeerConnection (dchecks_on E) R False (qt_view ?s)) (\<lambda>(ok, t).
      bindR (if ok then bindR (fold ?add' (pc_senders R pc) (Inr t)) (Qt_pc_call CreateOffer) else Inr t)
        (\<lambda>t. Inr (qt_peer_connection t \<noteq> None, t)))"
    by (rule viewed_bind_ok [OF view_CreatePeerConnection [OF assms]]) (simp only: prod.case offer)
  with Some show ?thesis
    by (simp add: ReinitializePeerConnectionForLoopback_def Qt_ReinitializePeerConnectionForLoopback_def Let_def view_simps)
qed (simp add: ReinitializePeerConnectionForLoopback_def Qt_ReinitializePeerConnectionForLoopback_def view_simps)

lemma view_OnIceCandidate: "viewed (OnIceCandidate (E, W, R) c s) = Qt_OnIceCandidate R c (qt_view s)"
  by (simp add: OnIceCandidate_def Qt_OnIceCandidate_def view_simps call.commute split: option.split)

lemma view_OnSuccess: "viewed (OnSuccess (E, W, R) desc s) = Qt_OnSuccess R desc (qt_view s)"
  unfolding OnSuccess_def Qt_OnSuccess_def prod.case
  by (rule viewed_bind [OF call.commute]) (simp add: Let_def view_simps call.commute)

lemma view_ConnectToPeer:
  assumes "connection_string R = stun_server" "peer_connection s = None" "dchecks_on E \<longrightarrow> peer_id s = - 1 \<and> pid \<noteq> - 1"
  shows "viewed (ConnectToPeer (E, W, R) pid s) = Qt_ConnectToPeer (dchecks_on E) R pid (qt_view s)"
proof -
  have "viewed (bindR (InitializePeerConnection (E, W, R) s) (\<lambda>(ok, s).
      if ok then pc_call CreateOffer (s\<lparr>peer_id := pid\<rparr>)
      else Inr (MessageBox ''Error'' ''Failed to initialize PeerConnection'' True s)))
    = Qt_ConnectToPeer (dchecks_on E) R pid (qt_view s)"
    unfolding Qt_ConnectToPeer_def
    by (rule viewed_bind_ok [OF view_InitializePeerConnection [OF assms(1)]])
      (simp add: view_simps call.commute)
  with assms show ?thesis
    by (cases "dchecks_on E") (simp_all add: ConnectToPeer_def dcheck_def)
qed

lemma view_quiet:
  "qt_view (OnAddTrack n s) = Qt_OnAddTrack (qt_view s)" "qt_view (OnRemoveTrack n s) = Qt_OnRemoveTrack (qt_view s)"
  "qt_view (OnFailure s) = Qt_OnFailure (qt_view s)" "connection_active s = Qt_connection_active (qt_view s)"
  by (simp_all add: qt_view_def OnAddTrack_def OnRemoveTrack_def OnFailure_def Qt_OnAddTrack_def Qt_OnRemoveTrack_def
      Qt_OnFailure_def QueueUIThreadCallback_def posted_texts_append connection_active_def Qt_connection_active_def)
    (simp_all add: posted_texts_def List.map_filter_def)

section \<open>Reachable states\<close>

definition qt_conductor_inv :: "qt_conductor \<Rightarrow> bool" where
  "qt_conductor_inv s \<longleftrightarrow> \<not> qt_loopback s \<and> (qt_peer_factory s \<longleftrightarrow> qt_peer_connection s \<noteq> None) \<and>
     (case qt_peer_connection s of None \<Rightarrow> qt_peer_id s = - 1 | Some pc \<Rightarrow> pc \<noteq> [] \<and> hd pc = Created True stun_server)"

text \<open>\<open>goes_on d s t\<close>: \<open>t\<close> keeps the invariant, the lost messages and, with checks on, the connection.\<close>

definition goes_on :: "bool \<Rightarrow> qt_conductor \<Rightarrow> qt_conductor \<Rightarrow> bool" where
  "goes_on d s t \<longleftrightarrow> qt_conductor_inv t \<and> (d \<and> qt_peer_connection s \<noteq> None \<longrightarrow> qt_peer_connection t \<noteq> None) \<and>
     prefix (lost_messages s) (lost_messages t)"

lemma goes_on_refl: "qt_conductor_inv s \<Longrightarrow> goes_on d s s"
  by (simp add: goes_on_def)

lemma goes_on_trans: "goes_on d s t \<Longrightarrow> goes_on d t u \<Longrightarrow> goes_on d s u"
  by (auto simp: goes_on_def intro: prefix_order.trans)

lemma goes_on_call: "qt_conductor_inv s \<Longrightarrow> resP (\<lambda>t. goes_on d s t \<and> qt_peer_connection t \<noteq> None) (Qt_pc_call c s)"
  by (auto simp: Qt_pc_call_def goes_on_def qt_conductor_inv_def split: option.split)

lemma goes_on_send: "qt_conductor_inv s \<Longrightarrow> goes_on d s (Qt_SendMessage m s)"
  by (auto simp: goes_on_def Qt_SendMessage_def qt_conductor_inv_def split: option.splits)

lemma Qt_AddTracks_goes_on: "qt_conductor_inv s \<Longrightarrow>
   resP (\<lambda>t. goes_on d s t \<and> qt_peer_connection t \<noteq> None) (Qt_AddTracks R s)"
  by (auto simp: Qt_AddTracks_def Qt_pc_call_def qt_conductor_inv_def goes_on_def split: option.split)

lemma Qt_AddTracks_deleted: "Qt_AddTracks R (Qt_DeletePeerConnection s) = Inl Null_deref"
  by (simp add: Qt_AddTracks_def Qt_DeletePeerConnection_def)

lemma Qt_DeletePeerConnection_connection [simp]: "qt_peer_connection (Qt_DeletePeerConnection s) = None"
  by (simp add: Qt_DeletePeerConnection_def)

lemma Qt_DeletePeerConnection_goes_on:
  "\<not> (d \<and> qt_peer_connection s \<noteq> None) \<Longrightarrow> lost_messages t = lost_messages s \<Longrightarrow> goes_on d s (Qt_DeletePeerConnection t)"
  by (simp add: goes_on_def qt_conductor_inv_def Qt_DeletePeerConnection_def)

lemma Qt_InitializePeerConnection_goes_on:
  assumes "qt_conductor_inv s"
  shows "resP (\<lambda>(ok, t). goes_on d s t \<and> (ok \<longleftrightarrow> qt_peer_connection t \<noteq> None)) (Qt_InitializePeerConnection d R s)"
proof -
  let ?created = "s\<lparr>qt_peer_factory := True, qt_peer_connection := Some [Created True stun_server]\<rparr>"
  have created: "qt_conductor_inv ?created"
    using assms by (simp add: qt_conductor_inv_def)
  have tracks: "resP (\<lambda>(ok, t). goes_on d s t \<and> (ok \<longleftrightarrow> qt_peer_connection t \<noteq> None))
      (bindR (Qt_AddTracks R ?created) (\<lambda>t. Inr (qt_peer_connection t \<noteq> None, t)))"
    by (rule resP_bindI [OF Qt_AddTracks_goes_on [OF created, of d]]) (auto simp: goes_on_def)
  show ?thesis
    using tracks Qt_DeletePeerConnection_goes_on [of d s]
    by (auto simp: Qt_InitializePeerConnection_def Qt_CreatePeerConnection_def dcheck_def Let_def
        Qt_AddTracks_deleted)
qed

lemma Qt_ConnectToPeer_goes_on:
  assumes "qt_conductor_inv s"
  shows "resP (goes_on d s) (Qt_ConnectToPeer d R pid s)"
  unfolding Qt_ConnectToPeer_def
proof (rule resP_bind2 [OF Qt_InitializePeerConnection_goes_on [OF assms]])
  fix ok t assume t: "goes_on d s t \<and> (ok \<longleftrightarrow> qt_peer_connection t \<noteq> None)"
  show "resP (goes_on d s) (if ok then Qt_pc_call CreateOffer (t\<lparr>qt_peer_id := pid\<rparr>) else Inr t)"
    using t by (auto simp: Qt_pc_call_def goes_on_def qt_conductor_inv_def)
qed

lemma Qt_OnSuccess_goes_on:
  assumes "qt_conductor_inv s"
  shows "resP (goes_on d s) (Qt_OnSuccess R desc s)"
  unfolding Qt_OnSuccess_def
proof (rule resP_bindI [OF goes_on_call [OF assms, of d]], unfold Let_def)
  fix t assume t: "goes_on d s t \<and> qt_peer_connection t \<noteq> None"
  then have "\<not> qt_loopback t" and "qt_conductor_inv t" by (auto simp: goes_on_def qt_conductor_inv_def)
  with t show "resP (goes_on d s) (if qt_loopback t
      then Qt_pc_call (SetRemoteDescription
             (if sdp_ok R kAnswer (desc_string desc) then Some (kAnswer, desc_string desc) else None)) t
      else Inr (Qt_SendMessage (json_write R
        [(kSessionDescriptionTypeName, JString (sdp_type_to_string R (desc_type desc))),
         (kSessionDescriptionSdpName, JString (desc_string desc))]) t))"
    by (simp add: goes_on_trans [OF _ goes_on_send])
qed

lemma Qt_OnIceCandidate_goes_on: "qt_conductor_inv s \<Longrightarrow> resP (goes_on d s) (Qt_OnIceCandidate R c s)"
  using goes_on_send [of s d] goes_on_refl [of s d]
  by (auto simp: Qt_OnIceCandidate_def qt_conductor_inv_def split: option.split)

lemma qt_conductor_step_goes_on: "qt_conductor_step d s t \<Longrightarrow> qt_conductor_inv s \<Longrightarrow> goes_on d s t"
  by (induction rule: qt_conductor_step.induct)
    (auto simp: Qt_OnFailure_def Qt_OnAddTrack_def Qt_OnRemoveTrack_def goes_on_refl
      dest: resP_D [OF Qt_ConnectToPeer_goes_on] resP_D [OF Qt_OnSuccess_goes_on] resP_D [OF Qt_OnIceCandidate_goes_on])

lemma qt_conductor_steps: "(qt_conductor_step d)\<^sup>*\<^sup>* s t \<Longrightarrow> qt_conductor_inv s \<Longrightarrow> goes_on d s t"
proof (induction rule: rtranclp_induct)
  case (step t u)
  then have "goes_on d s t" by simp
  moreover then have "goes_on d t u" using qt_conductor_step_goes_on [OF step.hyps(2)] by (simp add: goes_on_def)
  ultimately show ?case by (rule goes_on_trans)
qed (rule goes_on_refl)

lemma qt_conductor_reach_inv: "qt_conductor_reach d s \<Longrightarrow> qt_conductor_inv s"
proof (induction rule: qt_conductor_reach.induct)
  case (step s t)
  then show ?case using qt_conductor_step_goes_on by (auto simp: goes_on_def)
qed (simp add: qt_conductor_inv_def Qt_Conductor_new_def)

section \<open>Properties\<close>

lemma view_EnsureStreamingUI: "viewed (EnsureStreamingUI (E, W, R) s) = Qt_EnsureStreamingUI (dchecks_on E) (qt_view s)"
  by (simp add: EnsureStreamingUI_def Qt_EnsureStreamingUI_def dcheck_def view_simps)

text \<open>What the original tests before it does what the copy does.\<close>

lemma view_ConnectToPeer_all:
  assumes "connection_string R = stun_server"
  shows "viewed (ConnectToPeer (E, W, R) pid s) =
    (if dchecks_on E \<and> (peer_id s \<noteq> - 1 \<or> pid = - 1) then Inl Check_failed
     else if peer_connection s \<noteq> None then Inr (qt_view s)
     else Qt_ConnectToPeer (dchecks_on E) R pid (qt_view s))"
  using view_ConnectToPeer [OF assms, of s E pid W]
  by (cases "peer_connection s") (auto simp: ConnectToPeer_def dcheck_def view_simps)

lemma Qt_second_call:
  "qt_peer_connection s \<noteq> None \<Longrightarrow> Qt_ConnectToPeer True R pid s = Inl Check_failed"
  by (auto simp: Qt_ConnectToPeer_def Qt_InitializePeerConnection_def dcheck_def)

text \<open>
  C16. The Qt conductor is the client's conductor seen without client and window.  With the STUN server
  as the original's ICE server, each operation of the copy but one gives on the view, on every branch
  and faults included, what the original's operation gives, the texts the original posts for the peer being
  the ones the copy loses.  The exception is \<open>ConnectToPeer\<close>: the original's is the copy's behind three
  tests the copy has lost, two checks of the peers' numbers and the refusal of a second call, which
  leaves the call as it is; without the refusal, the copy with checks on stops the process.
\<close>

theorem qt_conductor_refines:
  assumes "connection_string R = stun_server"
  shows "viewed_ok (CreatePeerConnection (E, W, R) dtls s) = Qt_CreatePeerConnection (dchecks_on E) R dtls (qt_view s)
    \<and> viewed_ok (InitializePeerConnection (E, W, R) s) = Qt_InitializePeerConnection (dchecks_on E) R (qt_view s)
    \<and> viewed_ok (ReinitializePeerConnectionForLoopback (E, W, R) s)
        = Qt_ReinitializePeerConnectionForLoopback (dchecks_on E) R (qt_view s)
    \<and> viewed (AddTracks (E, W, R) s) = Qt_AddTracks R (qt_view s)
    \<and> viewed (EnsureStreamingUI (E, W, R) s) = Qt_EnsureStreamingUI (dchecks_on E) (qt_view s)
    \<and> qt_view (DeletePeerConnection s) = Qt_DeletePeerConnection (qt_view s)
    \<and> viewed (OnIceCandidate (E, W, R) c s) = Qt_OnIceCandidate R c (qt_view s)
    \<and> viewed (OnSuccess (E, W, R) desc s) = Qt_OnSuccess R desc (qt_view s)
    \<and> qt_view (SendMessage m s) = Qt_SendMessage m (qt_view s)
    \<and> qt_view (OnAddTrack n s) = Qt_OnAddTrack (qt_view s)
    \<and> qt_view (OnRemoveTrack n s) = Qt_OnRemoveTrack (qt_view s)
    \<and> qt_view (OnFailure s) = Qt_OnFailure (qt_view s)
    \<and> connection_active s = Qt_connection_active (qt_view s)
    \<and> viewed (ConnectToPeer (E, W, R) pid s) =
        (if dchecks_on E \<and> (qt_peer_id (qt_view s) \<noteq> - 1 \<or> pid = - 1) then Inl Check_failed
         else if Qt_connection_active (qt_view s) then Inr (qt_view s)
         else Qt_ConnectToPeer (dchecks_on E) R pid (qt_view s))
    \<and> (dchecks_on E \<and> Qt_connection_active (qt_view s) \<longrightarrow>
        Qt_ConnectToPeer (dchecks_on E) R pid (qt_view s) = Inl Check_failed)"
proof -
  have connect: "viewed (ConnectToPeer (E, W, R) pid s) =
      (if dchecks_on E \<and> (qt_peer_id (qt_view s) \<noteq> - 1 \<or> pid = - 1) then Inl Check_failed
       else if Qt_connection_active (qt_view s) then Inr (qt_view s)
       else Qt_ConnectToPeer (dchecks_on E) R pid (qt_view s))"
    by (simp only: view_ConnectToPeer_all [OF assms] view_fields Qt_connection_active_def)
  have second: "dchecks_on E \<and> Qt_connection_active (qt_view s) \<longrightarrow>
      Qt_ConnectToPeer (dchecks_on E) R pid (qt_view s) = Inl Check_failed"
    using Qt_second_call [of "qt_view s" R pid] by (simp add: Qt_connection_active_def)
  show ?thesis
    by (intro conjI view_CreatePeerConnection view_InitializePeerConnection view_ReinitializePeerConnectionForLoopback
        view_AddTracks view_EnsureStreamingUI view_DeletePeerConnection view_OnIceCandidate view_OnSuccess view_quiet
        view_SendMessage assms connect second)
qed

text \<open>
  C17. Whatever is done to a Qt conductor from outside, it never gets into loopback, has a factory
  exactly when it has a connection, and every connection is made with DTLS and the STUN server; the
  messages it should send are only ever collected.  With checks on, a call once made cannot be ended:
  in every later state the connection is still there, a call to another peer fails a check, and so
  does destroying the object.
\<close>

theorem qt_conductor_life:
  assumes "qt_conductor_reach d s" "(qt_conductor_step d)\<^sup>*\<^sup>* s t"
  shows "\<not> qt_loopback t \<and> (qt_peer_factory t \<longleftrightarrow> Qt_connection_active t)
    \<and> (if Qt_connection_active t then \<exists>calls. qt_peer_connection t = Some (Created True stun_server # calls)
       else qt_peer_id t = - 1)
    \<and> (\<exists>texts. lost_messages t = lost_messages s @ texts)
    \<and> (d \<and> Qt_connection_active s \<longrightarrow> Qt_connection_active t \<and> Qt_Conductor_destroy d t = Inl Check_failed \<and>
        Qt_ConnectToPeer d R pid t = Inl Check_failed)"
proof -
  have t: "goes_on d s t" by (rule qt_conductor_steps [OF assms(2) qt_conductor_reach_inv [OF assms(1)]])
  have calls: "\<exists>calls. qt_peer_connection t = Some (Created True stun_server # calls)" if "qt_peer_connection t \<noteq> None"
  proof -
    from that obtain pc where pc: "qt_peer_connection t = Some pc" by auto
    with t have "pc \<noteq> [] \<and> hd pc = Created True stun_server" by (simp add: goes_on_def qt_conductor_inv_def)
    with pc show ?thesis by (cases pc) simp_all
  qed
  have ends: "Qt_Conductor_destroy True t = Inl Check_failed" if "qt_peer_connection t \<noteq> None"
    using that by (simp add: Qt_Conductor_destroy_def dcheck_def)
  show ?thesis
    using t calls ends Qt_second_call [of t R pid]
    by (auto simp: Qt_connection_active_def goes_on_def qt_conductor_inv_def prefix_def)
qed

text \<open>Without checks the second call replaces the first, whose connection is dropped unclosed.\<close>

lemma second_call_replaces:
  assumes "factory_ok R" "pc_ok R True stun_server" "pc_senders R [Created True stun_server] = []"
  shows "\<exists>t tracks. Qt_ConnectToPeer False R pid s = Inr t \<and> qt_peer_id t = pid \<and>
    qt_peer_connection t = Some (Created True stun_server # AddTrack Audio_track [kStreamId] # tracks @ [CreateOffer])"
  using assms
  by (auto simp: Qt_ConnectToPeer_def Qt_InitializePeerConnection_def Qt_CreatePeerConnection_def Qt_AddTracks_def
      Qt_pc_call_def Let_def split: option.split)

section \<open>Witnesses\<close>

definition idle_conductor :: conductor where
  "idle_conductor = wnd.extend (MainWnd_init [] 8888 False False) (conductor.fields (- 1) False None False [] [])"

definition calling_conductor :: qt_conductor where
  "calling_conductor = Qt_Conductor_new\<lparr>qt_peer_id := 7, qt_peer_factory := True, qt_peer_connection := Some
     [Created True stun_server, AddTrack Audio_track [kStreamId], AddTrack (Video_track 1) [kStreamId], CreateOffer]\<rparr>"

lemma idle_view: "qt_view idle_conductor = Qt_Conductor_new"
  by (simp add: qt_view_def idle_conductor_def Qt_Conductor_new_def MainWnd_init_def client.defs wnd.defs
      conductor.defs posted_texts_def List.map_filter_def)

lemma sample_call: "Qt_ConnectToPeer d sample_rtc 7 Qt_Conductor_new = Inr calling_conductor"
  by (simp add: Qt_ConnectToPeer_def Qt_InitializePeerConnection_def Qt_CreatePeerConnection_def Qt_AddTracks_def
      Qt_pc_call_def CapturerTrackSource_Create_def find_capturer.simps sample_rtc_def Qt_Conductor_new_def
      calling_conductor_def Let_def)

theorem qt_conductor_refines_witness:
  "viewed (ConnectToPeer (sample_net True, sample_win [], sample_rtc) 7 idle_conductor) = Inr calling_conductor"
proof -
  have "connection_string sample_rtc = stun_server" by (simp add: sample_rtc_def stun_server_def)
  moreover have "peer_id idle_conductor = - 1" by (simp add: idle_conductor_def MainWnd_init_def client.defs wnd.defs conductor.defs)
  ultimately show ?thesis
    using qt_conductor_refines [of sample_rtc "sample_net True" "sample_win []" True idle_conductor _ _ _ 7]
    by (simp add: idle_view sample_call Qt_connection_active_def) (simp add: Qt_Conductor_new_def)
qed

theorem qt_conductor_life_witness:
  "Qt_Conductor_destroy True calling_conductor = Inl Check_failed"
proof -
  have "qt_conductor_reach True calling_conductor"
    by (rule qt_conductor_reach.step [OF qt_conductor_reach.new qt_conductor_step.connect [OF sample_call]])
  from qt_conductor_life [OF this rtranclp.rtrancl_refl] show ?thesis
    by (simp add: Qt_connection_active_def calling_conductor_def)
qed

end
