(* ===== verification/Qt_Menu.thy ===== *)
theory Qt_Menu
  imports Qt_Call Qt_Props
begin

text \<open>
  The first window of the Qt application (QtWebrtc.cpp), whose buttons open the others, and the
  camera window (QtWidgetsCamera.cpp).  A window once opened is never deleted, so the application's
  state is the list of the windows opened so far.
\<close>

section \<open>The camera window\<close>

text \<open>\<open>cam_capturers\<close>: the capturers made by the button; the window keeps no pointer to them.\<close>

record camera_window =
  cam_items :: "string list"
  cam_index :: int
  cam_button :: bool
  cam_capturers :: "vcm list"

definition cam_add :: "string \<Rightarrow> camera_window \<Rightarrow> camera_window" where
  "cam_add item s =
     s\<lparr>cam_items := cam_items s @ [item], cam_index := (if cam_items s = [] then 0 else cam_index s)\<rparr>"

definition QtWidgetsCamera_new :: "qt_env \<Rightarrow> camera_window res" where
  "QtWidgetsCamera_new E =
     (case num_devices (qt_rtc E) of
        None \<Rightarrow> Inl Null_deref
      | Some n \<Rightarrow>
          let s = fold cam_add (List.map_filter (device_name E) [0..n - 1])
                    \<lparr>cam_items = [], cam_index = - 1, cam_button = True, cam_capturers = []\<rparr>
          in Inr (if n = 0 then s\<lparr>cam_button := False\<rparr> else s))"

text \<open>\<open>cameras i\<close>: what opening the device with index \<open>i\<close> meets.\<close>

definition on_camera_clicked :: "(int \<Rightarrow> camera) \<Rightarrow> camera_window \<Rightarrow> camera_window res" where
  "on_camera_clicked cameras s =
     bindR (Vcm_Create (cameras 2)) (\<lambda>c.
       Inr (case c of None \<Rightarrow> s | Some v \<Rightarrow> s\<lparr>cam_capturers := cam_capturers s @ [v]\<rparr>))"

section \<open>The menu\<close>

datatype qt_widget =
    Local_video_widget local_video
  | Camera_widget camera_window
  | Sdp_widget qt_window
  | Test_widget qt_window

type_synonym qt_menu = "qt_widget list"

definition QtWebrtc_new :: qt_menu where "QtWebrtc_new = []"

definition on_pushButton_desktop_clicked :: "qt_menu \<Rightarrow> qt_menu" where
  "on_pushButton_desktop_clicked s = s @ [Local_video_widget LocalVideo_new]"

definition on_pushButton_camera_clicked :: "qt_env \<Rightarrow> qt_menu \<Rightarrow> qt_menu res" where
  "on_pushButton_camera_clicked E s = bindR (QtWidgetsCamera_new E) (\<lambda>w. Inr (s @ [Camera_widget w]))"

definition on_pushButton_sdp_clicked :: "qt_env \<Rightarrow> qt_menu \<Rightarrow> qt_menu res" where
  "on_pushButton_sdp_clicked E s = bindR (QtWidgetsSdp_new E) (\<lambda>w. Inr (s @ [Sdp_widget w]))"

definition on_pushButton_test_clicked :: "qt_env \<Rightarrow> qt_menu \<Rightarrow> qt_menu res" where
  "on_pushButton_test_clicked E s = bindR (QtWidgetsTest_new E) (\<lambda>w. Inr (s @ [Test_widget w]))"

section \<open>Lemmas\<close>

lemma fold_cam_add: "cam_items s = [] \<Longrightarrow> fold cam_add xs s =
    s\<lparr>cam_items := xs, cam_index := (if xs = [] then cam_index s else 0)\<rparr>"
proof -
  have more: "fold cam_add ys s = s\<lparr>cam_items := cam_items s @ ys\<rparr>" if "cam_items s \<noteq> []" for s ys
    using that by (induction ys arbitrary: s) (simp_all add: cam_add_def)
  show "cam_items s = [] \<Longrightarrow> ?thesis"
    by (cases xs) (simp_all add: more cam_add_def)
qed

text \<open>
  The camera window lists the devices whose name is read, the first one selected, and its button is
  off exactly without devices.
\<close>

lemma camera_window_opens:
  "QtWidgetsCamera_new E = (case num_devices (qt_rtc E) of None \<Rightarrow> Inl Null_deref
     | Some n \<Rightarrow> Inr \<lparr>cam_items = device_names E n, cam_index = (if device_names E n = [] then - 1 else 0),
                      cam_button = (n \<noteq> 0), cam_capturers = []\<rparr>)"
  by (simp add: QtWidgetsCamera_new_def fold_cam_add device_names_def Let_def split: option.split)

text \<open>Whatever is selected, each click opens device 2 once more, and no capturer is ever ended.\<close>

lemma camera_selection_ignored:
  "bindR (foldR (\<lambda>i s. on_camera_clicked cameras (s\<lparr>cam_index := i\<rparr>)) choices s) (\<lambda>t. Inr (cam_capturers t))
   = (if choices = [] then Inr (cam_capturers s)
      else bindR (Vcm_Create (cameras 2)) (\<lambda>c. Inr (cam_capturers s @
             (case c of None \<Rightarrow> [] | Some v \<Rightarrow> replicate (length choices) v))))"
proof (cases "Vcm_Create (cameras 2)")
  case (Inl e)
  then show ?thesis by (cases choices) (simp_all add: on_camera_clicked_def)
next
  case (Inr c)
  then have click: "on_camera_clicked cameras s =
      Inr (case c of None \<Rightarrow> s | Some v \<Rightarrow> s\<lparr>cam_capturers := cam_capturers s @ [v]\<rparr>)" for s
    by (simp add: on_camera_clicked_def)
  have "bindR (foldR (\<lambda>i s. on_camera_clicked cameras (s\<lparr>cam_index := i\<rparr>)) choices s) (\<lambda>t. Inr (cam_capturers t))
      = Inr (cam_capturers s @ (case c of None \<Rightarrow> [] | Some v \<Rightarrow> replicate (length choices) v))"
    by (induction choices arbitrary: s) (simp_all add: click split: option.split)
  with Inr show ?thesis by (simp split: option.split)
qed

text \<open>An opened camera captures until the process ends.\<close>

lemma Vcm_Create_started: "resP (\<lambda>c. case c of None \<Rightarrow> True | Some v \<Rightarrow> vcm_started v \<and> vcm_registered v) (Vcm_Create E)"
  by (simp add: Vcm_Create_def Vcm_Init_def Let_def)

end
