(* ===== verification/Used_Ids.thy ===== *)
theory Used_Ids
  imports Prelude
begin

text \<open>
  \<open>UsedIds\<close>, \<open>UsedPayloadTypes\<close> and \<open>UsedRtpHeaderExtensionIds\<close> of pc/used_ids.h: identifiers made
  unique over a session description.  The virtual \<open>FindUnusedId\<close> is an argument, \<open>search\<close>; \<open>d\<close> says
  whether the build has \<open>RTC_DCHECK\<close>s.
\<close>

record used_ids =
  min_allowed_id :: int
  max_allowed_id :: int
  next_id :: int
  id_set :: "int list"

definition UsedIds_new :: "int \<Rightarrow> int \<Rightarrow> used_ids" where
  "UsedIds_new lo hi = \<lparr>min_allowed_id = lo, max_allowed_id = hi, next_id = hi, id_set = []\<rparr>"

definition IsIdUsed :: "int \<Rightarrow> ('a used_ids_scheme) \<Rightarrow> bool" where
  "IsIdUsed i s \<longleftrightarrow> i \<in> set (id_set s)"

section \<open>The searches\<close>

text \<open>\<open>while (IsIdUsed(i) && i >= lo) --i;\<close> and its mirror image.\<close>

function search_down :: "int list \<Rightarrow> int \<Rightarrow> int \<Rightarrow> int" where
  "search_down ids lo i = (if i \<in> set ids \<and> i \<ge> lo then search_down ids lo (i - 1) else i)"
  by pat_completeness auto
termination
  by (relation "measure (\<lambda>(ids, lo, i). nat (i - lo + 1))") auto

function search_up :: "int list \<Rightarrow> int \<Rightarrow> int \<Rightarrow> int" where
  "search_up ids hi i = (if i \<in> set ids \<and> i \<le> hi then search_up ids hi (i + 1) else i)"
  by pat_completeness auto
termination
  by (relation "measure (\<lambda>(ids, hi, i). nat (hi - i + 1))") auto

declare search_down.simps [simp del] search_up.simps [simp del]

definition FindUnusedId :: "bool \<Rightarrow> ('a used_ids_scheme) \<Rightarrow> (int \<times> ('a used_ids_scheme)) res" where
  "FindUnusedId d s =
     (let s = s\<lparr>next_id := search_down (id_set s) (min_allowed_id s) (next_id s)\<rparr>
      in dcheck d (next_id s \<ge> min_allowed_id s) (next_id s, s))"

section \<open>Setting identifiers\<close>

definition SetIdUsed :: "bool \<Rightarrow> int \<Rightarrow> ('a used_ids_scheme) \<Rightarrow> ('a used_ids_scheme) res" where
  "SetIdUsed d new_id s =
     bindR (dcheck d (new_id \<ge> min_allowed_id s) ()) (\<lambda>_.
     bindR (dcheck d (new_id \<le> max_allowed_id s) ()) (\<lambda>_.
     bindR (dcheck d (\<not> IsIdUsed new_id s) ()) (\<lambda>_.
       Inr (s\<lparr>id_set := List.insert new_id (id_set s)\<rparr>))))"

text \<open>The identifier the structure has afterwards, and the new state.\<close>

definition FindAndSetIdUsed ::
    "bool \<Rightarrow> ('a used_ids_scheme \<Rightarrow> (int \<times> 'a used_ids_scheme) res) \<Rightarrow> int \<Rightarrow> 'a used_ids_scheme \<Rightarrow>
       (int \<times> 'a used_ids_scheme) res" where
  "FindAndSetIdUsed d search original_id s =
     (if original_id > max_allowed_id s \<or> original_id < min_allowed_id s then Inr (original_id, s)
      else
        bindR (if IsIdUsed original_id s then search s else Inr (original_id, s)) (\<lambda>(new_id, s).
        bindR (SetIdUsed d new_id s) (\<lambda>s.
          Inr (new_id, s))))"

text \<open>
  A program that calls \<open>FindAndSetIdUsed\<close> for each identifier of a description.  The template for a
  whole vector passes pointers to const and does not compile, so there is no code that loops.
\<close>

fun find_and_set_each ::
    "bool \<Rightarrow> ('a used_ids_scheme \<Rightarrow> (int \<times> 'a used_ids_scheme) res) \<Rightarrow> int list \<Rightarrow> 'a used_ids_scheme \<Rightarrow>
       (int list \<times> 'a used_ids_scheme) res" where
  "find_and_set_each d search [] s = Inr ([], s)"
| "find_and_set_each d search (i # ids) s =
     bindR (FindAndSetIdUsed d search i s) (\<lambda>(j, s).
     bindR (find_and_set_each d search ids s) (\<lambda>(js, s). Inr (j # js, s)))"

section \<open>Payload types and header extensions\<close>

definition UsedPayloadTypes_new :: used_ids where
  "UsedPayloadTypes_new = UsedIds_new 96 127"

definition kMinId :: int where "kMinId = 1"
definition kMaxId :: int where "kMaxId = 255"
definition kOneByteHeaderExtensionMaxId :: int where "kOneByteHeaderExtensionMaxId = 14"

datatype IdDomain = kOneByteOnly | kTwoByteAllowed

record extension_ids = used_ids +
  id_domain :: IdDomain
  next_extension_id :: int

definition UsedRtpHeaderExtensionIds_new :: "IdDomain \<Rightarrow> extension_ids" where
  "UsedRtpHeaderExtensionIds_new domain_arg =
     used_ids.extend
       (UsedIds_new kMinId (if domain_arg = kTwoByteAllowed then kMaxId else kOneByteHeaderExtensionMaxId))
       (extension_ids.fields domain_arg kOneByteHeaderExtensionMaxId)"

definition FindUnusedId_extension :: "bool \<Rightarrow> extension_ids \<Rightarrow> (int \<times> extension_ids) res" where
  "FindUnusedId_extension d s =
     (let ids = id_set s; lo = min_allowed_id s; hi = max_allowed_id s; i = next_extension_id s;
          i = (if i \<le> kOneByteHeaderExtensionMaxId then search_down ids lo i else i);
          i = (if id_domain s = kTwoByteAllowed then
                 let i = (if i < lo then kOneByteHeaderExtensionMaxId + 1 else i)
                 in if i > kOneByteHeaderExtensionMaxId then search_up ids hi i else i
               else i);
          s = s\<lparr>next_extension_id := i\<rparr>
      in bindR (dcheck d (i \<ge> lo) ()) (\<lambda>_. dcheck d (i \<le> hi) (i, s)))"

end
