(* ===== verification/Used_Ids_Props.thy ===== *)
theory Used_Ids_Props
  imports Used_Ids
begin

text \<open>
  The identifiers given out are unique: both searches find an unused identifier whenever there is
  one, so a whole description is made free of duplicates, changing only duplicates; and what
  happens when the identifiers run out.
\<close>

section \<open>The searches\<close>

lemma search_down_unfold:
  "i \<in> set ids \<Longrightarrow> lo \<le> i \<Longrightarrow> search_down ids lo i = search_down ids lo (i - 1)"
  "i \<notin> set ids \<Longrightarrow> search_down ids lo i = i" "i < lo \<Longrightarrow> search_down ids lo i = i"
  by (subst search_down.simps, simp)+

lemma search_up_unfold:
  "i \<in> set ids \<Longrightarrow> i \<le> hi \<Longrightarrow> search_up ids hi i = search_up ids hi (i + 1)"
  "i \<notin> set ids \<Longrightarrow> search_up ids hi i = i" "hi < i \<Longrightarrow> search_up ids hi i = i"
  by (subst search_up.simps, simp)+

lemma search_down_induct [case_names step unused below]:
  fixes i :: int
  assumes "\<And>i. i \<in> set ids \<Longrightarrow> lo \<le> i \<Longrightarrow> P (i - 1) \<Longrightarrow> P i" "\<And>i. i \<notin> set ids \<Longrightarrow> P i" "\<And>i. i < lo \<Longrightarrow> P i"
  shows "P i"
  using search_down.induct [where P = "\<lambda>a b c. a = ids \<and> b = lo \<longrightarrow> P c", of ids lo i] assms by (metis linorder_not_le)

lemma search_up_induct [case_names step unused above]:
  fixes i :: int
  assumes "\<And>i. i \<in> set ids \<Longrightarrow> i \<le> hi \<Longrightarrow> P (i + 1) \<Longrightarrow> P i" "\<And>i. i \<notin> set ids \<Longrightarrow> P i" "\<And>i. hi < i \<Longrightarrow> P i"
  shows "P i"
  using search_up.induct [where P = "\<lambda>a b c. a = ids \<and> b = hi \<longrightarrow> P c", of ids hi i] assms by (metis linorder_not_le)

lemma search_down_le: "search_down ids lo i \<le> i"
  by (induction i rule: search_down_induct [of ids lo]) (simp_all add: search_down_unfold)

lemma search_down_used: "search_down ids lo i < k \<Longrightarrow> k \<le> i \<Longrightarrow> k \<in> set ids"
proof (induction i rule: search_down_induct [of ids lo])
  case (step i)
  show ?case
  proof (cases "k = i")
    case False
    with step(5) have "k \<le> i - 1" by simp
    with step(3,4) search_down_unfold(1) [OF step(1,2)] show ?thesis by metis
  qed (simp add: step(1))
qed (simp_all add: search_down_unfold)

lemma search_down_stops: "search_down ids lo i \<ge> lo \<Longrightarrow> search_down ids lo i \<notin> set ids"
  by (induction i rule: search_down_induct [of ids lo]) (simp_all add: search_down_unfold)

lemma search_up_ge: "i \<le> search_up ids hi i"
  by (induction i rule: search_up_induct [of ids hi]) (simp_all add: search_up_unfold)

lemma search_up_used: "i \<le> k \<Longrightarrow> k < search_up ids hi i \<Longrightarrow> k \<in> set ids"
proof (induction i rule: search_up_induct [of ids hi])
  case (step i)
  show ?case
  proof (cases "k = i")
    case False
    with step(4) have "i + 1 \<le> k" by simp
    with step(3,5) search_up_unfold(1) [OF step(1,2)] show ?thesis by metis
  qed (simp add: step(1))
qed (simp_all add: search_up_unfold)

lemma search_up_stops: "search_up ids hi i \<le> hi \<Longrightarrow> search_up ids hi i \<notin> set ids"
  by (induction i rule: search_up_induct [of ids hi]) (simp_all add: search_up_unfold)

text \<open>So, with an unused identifier on its way, a search returns an unused one no farther than that.\<close>

lemma search_down_finds:
  assumes "k \<notin> set ids" "lo \<le> k" "k \<le> i"
  shows "k \<le> search_down ids lo i" "search_down ids lo i \<notin> set ids"
proof -
  show *: "k \<le> search_down ids lo i"
    using assms search_down_used [of ids lo i k] by force
  show "search_down ids lo i \<notin> set ids"
    using search_down_stops * assms(2) by force
qed

lemma search_up_finds:
  assumes "k \<notin> set ids" "k \<le> hi" "i \<le> k"
  shows "search_up ids hi i \<le> k" "search_up ids hi i \<notin> set ids"
proof -
  show *: "search_up ids hi i \<le> k"
    using assms search_up_used [of i k ids hi] by force
  show "search_up ids hi i \<notin> set ids"
    using search_up_stops * assms(2) by force
qed

section \<open>What a search promises\<close>

definition id_range :: "('a used_ids_scheme) \<Rightarrow> int set" where
  "id_range s = {min_allowed_id s..max_allowed_id s}"

definition id_free :: "('a used_ids_scheme) \<Rightarrow> bool" where
  "id_free s \<longleftrightarrow> \<not> id_range s \<subseteq> set (id_set s)"

text \<open>
  A search, as an interface: with an identifier free it returns one and leaves the set alone; its
  invariant bounds the set and survives an insertion.
\<close>

text \<open>What a description may become: identifiers out of range stay, one that is not used yet stays.\<close>

fun ids_made_unique :: "int set \<Rightarrow> int set \<Rightarrow> int list \<Rightarrow> int list \<Rightarrow> bool" where
  "ids_made_unique R U [] [] \<longleftrightarrow> True"
| "ids_made_unique R U (i # ids) (j # js) \<longleftrightarrow>
     (if i \<in> R then j \<in> R \<and> j \<notin> U \<and> (i \<notin> U \<longrightarrow> j = i) \<and> ids_made_unique R (insert j U) ids js
      else j = i \<and> ids_made_unique R U ids js)"
| "ids_made_unique R U _ _ \<longleftrightarrow> False"

lemma made_unique_length: "ids_made_unique R U ids js \<Longrightarrow> length js = length ids"
  by (induction R U ids js rule: ids_made_unique.induct) (auto split: if_splits)

lemma made_unique_distinct:
  "ids_made_unique R U ids js \<Longrightarrow> distinct (filter (\<lambda>i. i \<in> R) js) \<and> set (filter (\<lambda>i. i \<in> R) js) \<inter> U = {}"
  by (induction R U ids js rule: ids_made_unique.induct) (auto split: if_splits)

lemma made_unique_nth:
  "ids_made_unique R U ids js \<Longrightarrow> n < length ids \<Longrightarrow>
     (js ! n \<in> R \<longleftrightarrow> ids ! n \<in> R) \<and> (ids ! n \<notin> R \<or> ids ! n \<notin> U \<union> set (take n js) \<longrightarrow> js ! n = ids ! n)"
proof (induction R U ids js arbitrary: n rule: ids_made_unique.induct)
  case (2 R U i ids j js)
  then show ?case by (cases n) (auto split: if_splits)
qed auto

lemma made_unique_count:
  "ids_made_unique R U ids js \<Longrightarrow> length (filter (\<lambda>i. i \<in> R) js) = length (filter (\<lambda>i. i \<in> R) ids)"
  by (induction R U ids js rule: ids_made_unique.induct) (auto split: if_splits)

lemma made_unique_capacity:
  assumes "ids_made_unique R U ids js" "finite R"
  shows "length (filter (\<lambda>i. i \<in> R) ids) \<le> card R"
proof -
  have "length (filter (\<lambda>i. i \<in> R) ids) = card (set (filter (\<lambda>i. i \<in> R) js))"
    using made_unique_distinct [OF assms(1)] made_unique_count [OF assms(1)] distinct_card by metis
  also have "\<dots> \<le> card R" using assms(2) by (intro card_mono) auto
  finally show ?thesis .
qed

definition ids_left :: "('a used_ids_scheme) \<Rightarrow> nat" where
  "ids_left s = card (id_range s - set (id_set s))"

lemma ids_left_free: "0 < ids_left s \<Longrightarrow> id_free s"
  unfolding ids_left_def id_free_def by (metis Diff_eq_empty_iff card.empty less_irrefl)

lemma ids_left_insert:
  "id_range t = id_range s \<Longrightarrow> set (id_set t) = insert j (set (id_set s)) \<Longrightarrow> ids_left s \<le> Suc (ids_left t)"
proof -
  assume "id_range t = id_range s" "set (id_set t) = insert j (set (id_set s))"
  then have "id_range t - set (id_set t) = (id_range s - set (id_set s)) - {j}" by blast
  moreover have "card A \<le> Suc (card (A - {j}))" for A :: "int set"
    using card_Suc_Diff1 [of A j] by (cases "finite A \<and> j \<in> A") auto
  ultimately show ?thesis unfolding ids_left_def by simp
qed

locale unused_id_search =
  fixes search :: "'a used_ids_scheme \<Rightarrow> (int \<times> 'a used_ids_scheme) res" and inv :: "'a used_ids_scheme \<Rightarrow> bool"
  assumes search_ok: "inv s \<Longrightarrow> id_free s \<Longrightarrow>
      resT (\<lambda>(i, t). inv t \<and> id_range t = id_range s \<and> id_set t = id_set s \<and> i \<in> id_range s \<and> i \<notin> set (id_set s)) (search s)"
    and inv_insert: "inv s \<Longrightarrow> i \<in> id_range s \<Longrightarrow> inv (s\<lparr>id_set := List.insert i (id_set s)\<rparr>)"
    and inv_range: "inv s \<Longrightarrow> set (id_set s) \<subseteq> id_range s"
begin

lemma assign_ok:
  assumes "inv s" "i \<in> id_range s \<Longrightarrow> id_free s"
  shows "resT (\<lambda>(j, t). inv t \<and> id_range t = id_range s \<and>
    (if i \<in> id_range s then j \<in> id_range s \<and> j \<notin> set (id_set s) \<and> (i \<notin> set (id_set s) \<longrightarrow> j = i) \<and>
       set (id_set t) = insert j (set (id_set s))
     else j = i \<and> t = s)) (FindAndSetIdUsed checks search i s)"
proof (cases "i \<in> id_range s")
  case True
  have set_ok: "resT (\<lambda>(j, t). inv t \<and> id_range t = id_range s \<and> j = k \<and> set (id_set t) = insert k (set (id_set s)))
      (bindR (SetIdUsed checks k u) (\<lambda>s. Inr (k, s)))"
    if "inv u" "id_range u = id_range s" "id_set u = id_set s" "k \<in> id_range s" "k \<notin> set (id_set s)" for k u
    using that inv_insert [of u k] by (auto simp: SetIdUsed_def IsIdUsed_def id_range_def)
  show ?thesis
  proof (cases "i \<in> set (id_set s)")
    case used: True
    from search_ok [OF assms(1) assms(2) [OF True]] obtain k u where
      k: "search s = Inr (k, u)" "inv u" "id_range u = id_range s" "id_set u = id_set s" "k \<in> id_range s" "k \<notin> set (id_set s)"
      by (auto simp: resT_iff)
    from set_ok [OF k(2-6)] True used k show ?thesis
      by (auto simp: FindAndSetIdUsed_def IsIdUsed_def id_range_def resT_iff)
  next
    case False
    from set_ok [OF assms(1) refl refl True False] True False show ?thesis
      by (auto simp: FindAndSetIdUsed_def IsIdUsed_def id_range_def resT_iff)
  qed
next
  case False
  with assms(1) show ?thesis by (auto simp: FindAndSetIdUsed_def id_range_def)
qed

lemma assign_all:
  assumes "inv s" "length (filter (\<lambda>i. i \<in> id_range s) ids) \<le> ids_left s"
  shows "resT (\<lambda>(js, t). inv t \<and> id_range t = id_range s \<and> ids_made_unique (id_range s) (set (id_set s)) ids js \<and>
    set (id_set t) = set (id_set s) \<union> (set js \<inter> id_range s)) (find_and_set_each checks search ids s)"
  using assms
proof (induction ids arbitrary: s)
  case (Cons i ids)
  have free: "id_free s" if "i \<in> id_range s"
    using Cons.prems(2) that by (intro ids_left_free) simp
  from assign_ok [OF Cons.prems(1), of i, OF free, of checks] obtain j u where
    j: "FindAndSetIdUsed checks search i s = Inr (j, u)" "inv u" "id_range u = id_range s"
      "if i \<in> id_range s then j \<in> id_range s \<and> j \<notin> set (id_set s) \<and> (i \<notin> set (id_set s) \<longrightarrow> j = i) \<and>
         set (id_set u) = insert j (set (id_set s)) else j = i \<and> u = s"
    by (auto simp: resT_iff)
  have "length (filter (\<lambda>i. i \<in> id_range u) ids) \<le> ids_left u"
    using Cons.prems(2) j(3,4) ids_left_insert [OF j(3), of j] by (auto split: if_splits)
  from Cons.IH [OF j(2) this] obtain js t where
    js: "find_and_set_each checks search ids u = Inr (js, t)" "inv t" "id_range t = id_range s"
      "ids_made_unique (id_range s) (set (id_set u)) ids js"
      "set (id_set t) = set (id_set u) \<union> (set js \<inter> id_range s)"
    using j(3) by (auto simp: resT_iff)
  show ?case using j js by (auto split: if_splits)
qed simp

end

section \<open>Both searches keep it\<close>

definition ids_inv :: "('a used_ids_scheme) \<Rightarrow> bool" where
  "ids_inv s \<longleftrightarrow> set (id_set s) \<subseteq> id_range s \<and> next_id s \<le> max_allowed_id s \<and>
     (\<forall>k\<in>{next_id s<..max_allowed_id s}. k \<in> set (id_set s))"

lemma FindUnusedId_ok:
  assumes "ids_inv s" "id_free s"
  shows "resT (\<lambda>(i, t). ids_inv t \<and> id_range t = id_range s \<and> id_set t = id_set s \<and>
    i \<in> id_range s \<and> i \<notin> set (id_set s)) (FindUnusedId checks s)"
proof -
  define i where "i = search_down (id_set s) (min_allowed_id s) (next_id s)"
  from assms obtain k where k: "min_allowed_id s \<le> k" "k \<le> next_id s" "k \<notin> set (id_set s)"
    by (force simp: id_free_def id_range_def ids_inv_def)
  from search_down_finds [OF k(3,1,2)] k(1) have i: "min_allowed_id s \<le> i" "i \<notin> set (id_set s)"
    by (auto simp: i_def)
  have used: "x \<in> set (id_set s)" if "i < x" "x \<le> next_id s" for x
    using search_down_used that unfolding i_def by blast
  have le: "i \<le> next_id s" unfolding i_def by (rule search_down_le)
  have "x \<in> set (id_set s)" if "i < x" "x \<le> max_allowed_id s" for x
    using assms(1) used [of x] that by (cases "x \<le> next_id s") (auto simp: ids_inv_def)
  with assms(1) i le show ?thesis
    by (auto simp: FindUnusedId_def ids_inv_def id_range_def i_def [symmetric])
qed

interpretation descending: unused_id_search "FindUnusedId checks" ids_inv for checks
  by unfold_locales (use FindUnusedId_ok in \<open>auto simp: ids_inv_def id_range_def\<close>)

definition extension_inv :: "extension_ids \<Rightarrow> bool" where
  "extension_inv s \<longleftrightarrow> set (id_set s) \<subseteq> id_range s \<and> min_allowed_id s = 1 \<and>
     max_allowed_id s = (if id_domain s = kTwoByteAllowed then 255 else 14) \<and>
     (if next_extension_id s \<le> 14 then \<forall>k\<in>{next_extension_id s<..14}. k \<in> set (id_set s)
      else id_domain s = kTwoByteAllowed \<and> {1..14} \<subseteq> set (id_set s) \<and>
        (\<forall>k\<in>{15..<next_extension_id s}. k \<in> set (id_set s)))"

text \<open>The two-byte identifiers are used only when no one-byte one is left.\<close>

lemma FindUnusedId_extension_ok:
  assumes "extension_inv s" "id_free s"
  shows "resT (\<lambda>(i, t). extension_inv t \<and> id_range t = id_range s \<and> id_set t = id_set s \<and>
    i \<in> id_range s \<and> i \<notin> set (id_set s) \<and> (14 < i \<longrightarrow> {1..14} \<subseteq> set (id_set s))) (FindUnusedId_extension checks s)"
proof -
  note [simp] = kOneByteHeaderExtensionMaxId_def
  define i where "i = search_down (id_set s) 1 (next_extension_id s)"
  have i_le: "i \<le> next_extension_id s" unfolding i_def by (rule search_down_le)
  have i_used: "x \<in> set (id_set s)" if "i < x" "x \<le> next_extension_id s" for x
    using search_down_used that unfolding i_def by blast
  have i_stops: "1 \<le> i \<Longrightarrow> i \<notin> set (id_set s)"
    unfolding i_def by (rule search_down_stops)
  have lo: "min_allowed_id s = 1" and sub: "set (id_set s) \<subseteq> id_range s" using assms(1) by (auto simp: extension_inv_def)
  consider (one) "next_extension_id s \<le> 14" "1 \<le> i" | (overflow) "next_extension_id s \<le> 14" "i < 1" | (two) "14 < next_extension_id s"
    by linarith
  moreover have up: "resT (\<lambda>(i, t). extension_inv t \<and> id_range t = id_range s \<and> id_set t = id_set s \<and>
      i \<in> id_range s \<and> i \<notin> set (id_set s) \<and> (14 < i \<longrightarrow> {1..14} \<subseteq> set (id_set s))) (FindUnusedId_extension checks s)"
    if all: "{1..14} \<subseteq> set (id_set s)" and two: "id_domain s = kTwoByteAllowed"
      and n: "14 < n" "\<forall>x\<in>{15..<n}. x \<in> set (id_set s)"
      and eq: "FindUnusedId_extension checks s =
        (let i = search_up (id_set s) 255 n; s = s\<lparr>next_extension_id := i\<rparr>
         in bindR (dcheck checks (1 \<le> i) ()) (\<lambda>_. dcheck checks (i \<le> 255) (i, s)))" for n
  proof -
    define j where "j = search_up (id_set s) 255 n"
    have "id_range s = {1..255}" using assms(1) two by (simp add: id_range_def extension_inv_def)
    with assms(2) obtain k where k: "1 \<le> k" "k \<le> 255" "k \<notin> set (id_set s)"
      unfolding id_free_def by (metis atLeastAtMost_iff subsetI)
    have "k \<notin> {1..14}" "k \<notin> {15..<n}" using k(3) all n(2) by auto
    with k(1) have "n \<le> k" by auto
    from search_up_finds [OF k(3,2) this] k(2) have j: "j \<le> 255" "j \<notin> set (id_set s)" by (auto simp: j_def)
    have jn: "n \<le> j" unfolding j_def by (rule search_up_ge)
    have "x \<in> set (id_set s)" if "15 \<le> x" "x < j" for x
      using n(2) search_up_used [of n x "id_set s" 255] that by (cases "x < n") (auto simp: j_def)
    with j jn n all two assms(1) show ?thesis
      by (auto simp: eq Let_def j_def [symmetric] extension_inv_def id_range_def)
  qed
  ultimately show ?thesis
  proof cases
    case one
    have "x \<in> set (id_set s)" if "i < x" "x \<le> 14" for x
      using assms(1) i_used [of x] one that by (cases "x \<le> next_extension_id s") (auto simp: extension_inv_def)
    with assms(1) i_le i_stops one show ?thesis
      by (auto simp: FindUnusedId_extension_def extension_inv_def id_range_def Let_def i_def [symmetric])
  next
    case overflow
    have all: "x \<in> set (id_set s)" if "1 \<le> x" "x \<le> 14" for x
      using assms(1) i_used [of x] overflow that by (cases "x \<le> next_extension_id s") (auto simp: extension_inv_def)
    have dom2: "id_domain s = kTwoByteAllowed"
      using assms all by (force simp: extension_inv_def id_free_def id_range_def split: if_splits)
    show ?thesis
      by (rule up [of 15])
        (use all dom2 overflow lo assms(1) in \<open>auto simp: FindUnusedId_extension_def Let_def i_def [symmetric] extension_inv_def\<close>)
  next
    case two
    show ?thesis
      by (rule up [of "next_extension_id s"])
        (use two lo assms(1) in \<open>auto simp: FindUnusedId_extension_def Let_def extension_inv_def split: if_splits\<close>)
  qed
qed

interpretation preferring: unused_id_search "FindUnusedId_extension checks" extension_inv for checks
proof
  fix s :: extension_ids
  show "resT (\<lambda>(i, t). extension_inv t \<and> id_range t = id_range s \<and> id_set t = id_set s \<and> i \<in> id_range s \<and>
      i \<notin> set (id_set s)) (FindUnusedId_extension checks s)" if "extension_inv s" "id_free s"
    by (rule resT_mono [OF FindUnusedId_extension_ok [OF that]]) auto
qed (auto simp: extension_inv_def id_range_def subset_insertI2)

section \<open>Running out\<close>

text \<open>With \<open>RTC_DCHECK\<close>s on, an assignment that returns has made the description unique.\<close>

lemma checked_unique:
  assumes search: "\<And>s i t. search s = Inr (i, t) \<Longrightarrow> id_range t = id_range s \<and> id_set t = id_set s"
    and "find_and_set_each True search ids s = Inr (js, t)"
  shows "ids_made_unique (id_range s) (set (id_set s)) ids js"
  using assms(2)
proof (induction ids arbitrary: s js)
  case (Cons i ids)
  then obtain j u ks where
    j: "FindAndSetIdUsed True search i s = Inr (j, u)" "find_and_set_each True search ids u = Inr (ks, t)" "js = j # ks"
    by (auto simp: bindR_eq_Inr)
  have "if i \<in> id_range s then j \<in> id_range s \<and> j \<notin> set (id_set s) \<and> (i \<notin> set (id_set s) \<longrightarrow> j = i) \<and>
      id_range u = id_range s \<and> set (id_set u) = insert j (set (id_set s)) else j = i \<and> u = s"
    using j(1) by (auto simp: FindAndSetIdUsed_def SetIdUsed_def IsIdUsed_def id_range_def bindR_eq_Inr dcheck_eq_Inr
        dest!: search split: if_splits)
  with Cons.IH [OF j(2)] j(3) show ?case by (auto split: if_splits)
qed simp

section \<open>Properties\<close>

lemma FindUnusedId_keeps: "FindUnusedId checks s = Inr (i, t) \<Longrightarrow> id_range t = id_range s \<and> id_set t = id_set s"
  by (auto simp: FindUnusedId_def Let_def dcheck_eq_Inr id_range_def)

lemma SetIdUsed_fails: "SetIdUsed checks i s = Inl e \<Longrightarrow> e = Check_failed"
  by (auto simp: SetIdUsed_def bindR_eq_Inl dcheck_def split: if_splits)

lemma assignment_fails:
  "find_and_set_each checks (FindUnusedId checks) ids s = Inl e \<Longrightarrow> e = Check_failed"
proof (induction ids arbitrary: s)
  case (Cons i ids)
  then show ?case
    by (auto simp: FindAndSetIdUsed_def FindUnusedId_def Let_def bindR_eq_Inl dcheck_def dest: SetIdUsed_fails split: if_splits prod.splits)
qed simp

lemma payload_types_start: "id_range UsedPayloadTypes_new = {96..127}" "id_set UsedPayloadTypes_new = []" "ids_inv UsedPayloadTypes_new"
  "ids_left UsedPayloadTypes_new = 32"
  by (simp_all add: UsedPayloadTypes_new_def UsedIds_new_def id_range_def ids_inv_def ids_left_def)

text \<open>
  C36. \<open>UsedPayloadTypes\<close>: a build with \<open>RTC_DCHECK\<close>s makes the payload types of a description unique
  exactly when at most 32 of them are dynamic (96 to 127); then the dynamic ones come out distinct
  and dynamic, the others unchanged, and so is each one no earlier codec has taken.  With more it
  stops at a failed check.
\<close>

theorem payload_types_unique:
  "if length (filter (\<lambda>i. i \<in> {96..127}) ids) \<le> 32 then
     \<exists>js t. find_and_set_each True (FindUnusedId True) ids UsedPayloadTypes_new = Inr (js, t) \<and>
       length js = length ids \<and> distinct (filter (\<lambda>i. i \<in> {96..127}) js) \<and>
       (\<forall>n<length ids. (js ! n \<in> {96..127} \<longleftrightarrow> ids ! n \<in> {96..127}) \<and>
          (ids ! n \<notin> {96..127} \<or> ids ! n \<notin> set (take n js) \<longrightarrow> js ! n = ids ! n))
   else find_and_set_each True (FindUnusedId True) ids UsedPayloadTypes_new = Inl Check_failed"
proof (cases "length (filter (\<lambda>i. i \<in> {96..127}) ids) \<le> 32")
  case True
  with descending.assign_all [of UsedPayloadTypes_new ids True True] obtain js t where
    r: "find_and_set_each True (FindUnusedId True) ids UsedPayloadTypes_new = Inr (js, t)" "ids_made_unique {96..127} {} ids js"
    by (auto simp: payload_types_start resT_iff)
  from made_unique_nth [OF r(2)] have "\<forall>n<length ids. (js ! n \<in> {96..127} \<longleftrightarrow> ids ! n \<in> {96..127}) \<and>
      (ids ! n \<notin> {96..127} \<or> ids ! n \<notin> set (take n js) \<longrightarrow> js ! n = ids ! n)" by blast
  with True r(1) made_unique_length [OF r(2)] made_unique_distinct [OF r(2)] show ?thesis by simp
next
  case False
  have "ids_made_unique {96..127} {} ids js" if "find_and_set_each True (FindUnusedId True) ids UsedPayloadTypes_new = Inr (js, t)" for js t
    using checked_unique [OF FindUnusedId_keeps that] by (simp add: payload_types_start)
  with False made_unique_capacity [of "{96..127}" "{}" ids] assignment_fails [of True ids UsedPayloadTypes_new]
  have "find_and_set_each True (FindUnusedId True) ids UsedPayloadTypes_new = Inl Check_failed"
    by (cases "find_and_set_each True (FindUnusedId True) ids UsedPayloadTypes_new") fastforce+
  with False show ?thesis by simp
qed

theorem payload_types_unique_witness:
  "\<exists>js t. find_and_set_each True (FindUnusedId True) [111, 0, 111, 96] UsedPayloadTypes_new = Inr (js, t) \<and>
     length js = 4 \<and> distinct (filter (\<lambda>i. i \<in> {96..127}) js) \<and> js ! 0 = 111 \<and> js ! 1 = 0"
  using payload_types_unique [of "[111, 0, 111, 96]"] by auto

definition extension_limit :: "IdDomain \<Rightarrow> int" where
  "extension_limit dm = (if dm = kTwoByteAllowed then 255 else 14)"

lemma extensions_start:
  "id_range (UsedRtpHeaderExtensionIds_new dm) = {1..extension_limit dm}" "id_set (UsedRtpHeaderExtensionIds_new dm) = []"
  "extension_inv (UsedRtpHeaderExtensionIds_new dm)" "ids_left (UsedRtpHeaderExtensionIds_new dm) = nat (extension_limit dm)"
  by (simp_all add: UsedRtpHeaderExtensionIds_new_def UsedIds_new_def used_ids.defs extension_ids.defs id_range_def
      extension_inv_def ids_left_def extension_limit_def kMinId_def kMaxId_def kOneByteHeaderExtensionMaxId_def)

text \<open>
  \<open>UsedRtpHeaderExtensionIds\<close>: as long as there are not more extensions in range than
  identifiers (14, or 255 with two-byte headers), every build makes the identifiers unique:
  distinct, in range, and changed only where an earlier extension has the identifier.
\<close>

theorem extension_ids_unique:
  assumes "int (length (filter (\<lambda>i. i \<in> {1..extension_limit dm}) ids)) \<le> extension_limit dm"
  shows "\<exists>js t. find_and_set_each checks (FindUnusedId_extension checks) ids (UsedRtpHeaderExtensionIds_new dm) = Inr (js, t) \<and>
    length js = length ids \<and> distinct (filter (\<lambda>i. i \<in> {1..extension_limit dm}) js) \<and>
    (\<forall>n<length ids. (js ! n \<in> {1..extension_limit dm} \<longleftrightarrow> ids ! n \<in> {1..extension_limit dm}) \<and>
      (ids ! n \<notin> {1..extension_limit dm} \<or> ids ! n \<notin> set (take n js) \<longrightarrow> js ! n = ids ! n))"
proof -
  from assms preferring.assign_all [of "UsedRtpHeaderExtensionIds_new dm" ids checks checks] obtain js t where
    r: "find_and_set_each checks (FindUnusedId_extension checks) ids (UsedRtpHeaderExtensionIds_new dm) = Inr (js, t)"
      "ids_made_unique {1..extension_limit dm} {} ids js"
    by (auto simp: extensions_start resT_iff le_nat_iff)
  from made_unique_nth [OF r(2)] have "\<forall>n<length ids. (js ! n \<in> {1..extension_limit dm} \<longleftrightarrow> ids ! n \<in> {1..extension_limit dm}) \<and>
      (ids ! n \<notin> {1..extension_limit dm} \<or> ids ! n \<notin> set (take n js) \<longrightarrow> js ! n = ids ! n)" by blast
  with r(1) made_unique_length [OF r(2)] made_unique_distinct [OF r(2)] show ?thesis by simp
qed

theorem extension_ids_unique_witness:
  "\<exists>js t. find_and_set_each True (FindUnusedId_extension True) [3, 14, 3, 300, 14] (UsedRtpHeaderExtensionIds_new kOneByteOnly) =
      Inr (js, t) \<and> length js = 5 \<and> distinct (filter (\<lambda>i. i \<in> {1..extension_limit kOneByteOnly}) js)"
  using extension_ids_unique [of kOneByteOnly "[3, 14, 3, 300, 14]" True] by (auto simp: extension_limit_def)

text \<open>Without \<open>RTC_DCHECK\<close>s, an exhausted search returns an identifier outside the range, again and again.\<close>

lemma exhausted_repeats:
  "find_and_set_each False (FindUnusedId False) [7, 7, 7] (UsedIds_new 7 7) =
     Inr ([7, 6, 6], \<lparr>min_allowed_id = 7, max_allowed_id = 7, next_id = 6, id_set = [6, 7]\<rparr>)"
  by (simp add: FindAndSetIdUsed_def FindUnusedId_def SetIdUsed_def IsIdUsed_def UsedIds_new_def search_down.simps)

end
