(* ===== verification/Ref_Ptr.thy ===== *)
theory Ref_Ptr
  imports Prelude
begin

text \<open>
  Reference counting: \<open>RefCounter\<close> (rtc_base/ref_counter.h), \<open>FinalRefCountedObject\<close>
  (rtc_base/ref_counted_object.h) and \<open>scoped_refptr\<close> (api/scoped_refptr.h).  The heap maps an
  address to the object there and its count, the bits of an atomic \<open>int\<close>, whose \<open>fetch_add\<close> and
  \<open>fetch_sub\<close> wrap silently; \<open>ptrs\<close> are the program's pointer variables, \<open>None\<close> the null pointer.  A pointer past its lifetime stays in the
  list as a null one.
\<close>

record 'o counted =
  obj :: 'o
  ref_count :: "32 word"

record 'o refs =
  heap :: "nat \<Rightarrow> 'o counted option"
  fresh :: nat
  ptrs :: "nat option list"

section \<open>The count\<close>

datatype RefCountReleaseStatus = kDroppedLastRef | kOtherRefsRemained

definition IncRef :: "32 word \<Rightarrow> 32 word" where
  "IncRef n = n + 1"

text \<open>The 1 that \<open>DecRef\<close> takes from the value \<open>fetch_sub\<close> returned is a plain signed subtraction.\<close>

definition DecRef :: "32 word \<Rightarrow> (RefCountReleaseStatus \<times> 32 word) res" where
  "DecRef n =
     bindR (i32 (sint n - 1)) (\<lambda>ref_count_after_subtract.
       Inr (if ref_count_after_subtract = 0 then kDroppedLastRef else kOtherRefsRemained, n - 1))"

definition HasOneRef :: "32 word \<Rightarrow> bool" where
  "HasOneRef n \<longleftrightarrow> n = 1"

section \<open>The counted object\<close>

definition deref :: "nat \<Rightarrow> ('o, 'm) refs_scheme \<Rightarrow> 'o counted res" where
  "deref p w = (case heap w p of None \<Rightarrow> Inl Bad_memory | Some c \<Rightarrow> Inr c)"

definition AddRef :: "nat \<Rightarrow> ('o, 'm) refs_scheme \<Rightarrow> ('o, 'm) refs_scheme res" where
  "AddRef p w = bindR (deref p w) (\<lambda>c. Inr (w\<lparr>heap := (heap w)(p \<mapsto> c\<lparr>ref_count := IncRef (ref_count c)\<rparr>)\<rparr>))"

definition Release :: "nat \<Rightarrow> ('o, 'm) refs_scheme \<Rightarrow> ('o, 'm) refs_scheme res" where
  "Release p w =
     bindR (deref p w) (\<lambda>c. bindR (DecRef (ref_count c)) (\<lambda>(status, n).
       case status of
         kDroppedLastRef \<Rightarrow> Inr (w\<lparr>heap := (heap w)(p := None)\<rparr>)
       | kOtherRefsRemained \<Rightarrow> Inr (w\<lparr>heap := (heap w)(p \<mapsto> c\<lparr>ref_count := n\<rparr>)\<rparr>)))"

text \<open>\<open>new\<close>: an object at a fresh address, with a count of 0.\<close>

definition new_object :: "'o \<Rightarrow> ('o, 'm) refs_scheme \<Rightarrow> nat \<times> ('o, 'm) refs_scheme" where
  "new_object x w =
     (fresh w, w\<lparr>heap := (heap w)(fresh w \<mapsto> \<lparr>obj = x, ref_count = 0\<rparr>), fresh := Suc (fresh w)\<rparr>)"

section \<open>The pointers\<close>

text \<open>\<open>if (p) p->...;\<close>\<close>

definition if_ptr :: "(nat \<Rightarrow> 's \<Rightarrow> 's res) \<Rightarrow> nat option \<Rightarrow> 's \<Rightarrow> 's res" where
  "if_ptr f q w = (case q of None \<Rightarrow> Inr w | Some p \<Rightarrow> f p w)"

definition ptr_new :: "nat option \<Rightarrow> ('o, 'm) refs_scheme \<Rightarrow> ('o, 'm) refs_scheme res" where
  "ptr_new q w = bindR (if_ptr AddRef q w) (\<lambda>w. Inr (w\<lparr>ptrs := ptrs w @ [q]\<rparr>))"

definition ptr_copy :: "nat \<Rightarrow> ('o, 'm) refs_scheme \<Rightarrow> ('o, 'm) refs_scheme res" where
  "ptr_copy r w = bindR (if_ptr AddRef (ptrs w ! r) w) (\<lambda>w. Inr (w\<lparr>ptrs := ptrs w @ [ptrs w ! r]\<rparr>))"

definition ptr_release :: "nat \<Rightarrow> ('o, 'm) refs_scheme \<Rightarrow> nat option \<times> ('o, 'm) refs_scheme" where
  "ptr_release i w = (ptrs w ! i, w\<lparr>ptrs := (ptrs w)[i := None]\<rparr>)"

definition ptr_move :: "nat \<Rightarrow> ('o, 'm) refs_scheme \<Rightarrow> ('o, 'm) refs_scheme" where
  "ptr_move r w = (let (q, w) = ptr_release r w in w\<lparr>ptrs := ptrs w @ [q]\<rparr>)"

definition ptr_destroy :: "nat \<Rightarrow> ('o, 'm) refs_scheme \<Rightarrow> ('o, 'm) refs_scheme res" where
  "ptr_destroy i w = bindR (if_ptr Release (ptrs w ! i) w) (\<lambda>w. Inr (w\<lparr>ptrs := (ptrs w)[i := None]\<rparr>))"

definition ptr_assign :: "nat \<Rightarrow> nat option \<Rightarrow> ('o, 'm) refs_scheme \<Rightarrow> ('o, 'm) refs_scheme res" where
  "ptr_assign i q w =
     bindR (if_ptr AddRef q w) (\<lambda>w.
     bindR (if_ptr Release (ptrs w ! i) w) (\<lambda>w.
       Inr (w\<lparr>ptrs := (ptrs w)[i := q]\<rparr>)))"

definition ptr_assign_ref :: "nat \<Rightarrow> nat \<Rightarrow> ('o, 'm) refs_scheme \<Rightarrow> ('o, 'm) refs_scheme res" where
  "ptr_assign_ref i r w = ptr_assign i (ptrs w ! r) w"

text \<open>\<open>swap\<close> with a temporary pointer, which it leaves holding \<open>fst\<close>, and with another variable.\<close>

definition ptr_swap_raw :: "nat \<Rightarrow> nat option \<Rightarrow> ('o, 'm) refs_scheme \<Rightarrow> nat option \<times> ('o, 'm) refs_scheme" where
  "ptr_swap_raw i q w = (ptrs w ! i, w\<lparr>ptrs := (ptrs w)[i := q]\<rparr>)"

definition ptr_swap :: "nat \<Rightarrow> nat \<Rightarrow> ('o, 'm) refs_scheme \<Rightarrow> ('o, 'm) refs_scheme" where
  "ptr_swap i r w = (let (p, w) = ptr_swap_raw i (ptrs w ! r) w in w\<lparr>ptrs := (ptrs w)[r := p]\<rparr>)"

text \<open>\<open>scoped_refptr<T>(std::move(r)).swap(*this);\<close> the temporary is destroyed at the end.\<close>

definition ptr_move_assign :: "nat \<Rightarrow> nat \<Rightarrow> ('o, 'm) refs_scheme \<Rightarrow> ('o, 'm) refs_scheme res" where
  "ptr_move_assign i r w =
     (let (q, w) = ptr_release r w; (old, w) = ptr_swap_raw i q w in if_ptr Release old w)"

end
