(* ===== verification/Cow_Buffer.thy ===== *)
theory Cow_Buffer
  imports Rtc_Buffer Ref_Ptr
begin

text \<open>
  \<open>CopyOnWriteBuffer\<close> of rtc_base/copy_on_write_buffer.h: slices of shared, reference-counted
  buffers.  The program's buffers are numbered; buffer \<open>i\<close> is the pointer \<open>ptrs ! i\<close> with
  \<open>coffset ! i\<close> and \<open>csize ! i\<close>.  The copy constructor and \<open>UnshareAndEnsureCapacity\<close> are defined
  in a file that is not in the repository: they are the fields of \<open>cow_lib\<close>, and what the header
  says of them is \<open>cow_documented\<close>.  A \<open>size_t\<close> has 64 bits; its sums and differences wrap.
\<close>

type_synonym octets = "8 word cells"

text \<open>The blocks are \<open>rtc::Buffer\<close>s, whose element is a \<open>uint8_t\<close>.\<close>

definition octet_size :: nat where
  "octet_size = 1"

lemma octet_size_times [simp]: "octet_size * n = n"
  by (simp add: octet_size_def)

record cow = "8 word buffer refs" +
  coffset :: "nat list"
  csize :: "nat list"

record cow_lib =
  CopyConstruct :: "nat \<Rightarrow> cow \<Rightarrow> cow res"
  UnshareAndEnsureCapacity :: "nat \<Rightarrow> nat \<Rightarrow> cow \<Rightarrow> cow res"

definition size_sub :: "nat \<Rightarrow> nat \<Rightarrow> nat" where
  "size_sub a b = (a + 2 ^ 64 - b) mod 2 ^ 64"

definition set_slice :: "nat \<Rightarrow> nat \<Rightarrow> nat \<Rightarrow> cow \<Rightarrow> cow" where
  "set_slice i off n w = w\<lparr>coffset := (coffset w)[i := off], csize := (csize w)[i := n]\<rparr>"

definition set_object :: "nat \<Rightarrow> 8 word buffer \<Rightarrow> cow \<Rightarrow> cow" where
  "set_object p b w = (case heap w p of None \<Rightarrow> w | Some c \<Rightarrow> w\<lparr>heap := (heap w)(p \<mapsto> c\<lparr>obj := b\<rparr>)\<rparr>)"

section \<open>Consistency and reading\<close>

definition cow_IsConsistent :: "bool \<Rightarrow> nat \<Rightarrow> cow \<Rightarrow> bool res" where
  "cow_IsConsistent d i w =
     (case ptrs w ! i of
        None \<Rightarrow> Inr (csize w ! i = 0 \<and> coffset w ! i = 0)
      | Some p \<Rightarrow>
          bindR (deref p w) (\<lambda>c.
          bindR (buffer_capacity d (obj c)) (\<lambda>cap.
          bindR (buffer_size d (obj c)) (\<lambda>n.
            Inr (cap > 0 \<and> coffset w ! i \<le> n \<and> size_add (coffset w ! i) (csize w ! i) \<le> n)))))"

definition cow_check :: "bool \<Rightarrow> nat \<Rightarrow> cow \<Rightarrow> unit res" where
  "cow_check d i w = (if d then bindR (cow_IsConsistent d i w) (\<lambda>ok. dcheck d ok ()) else Inr ())"

text \<open>A pointer into a block: the block's address and an index.\<close>

definition cow_cdata :: "bool \<Rightarrow> nat \<Rightarrow> cow \<Rightarrow> (nat \<times> nat) option res" where
  "cow_cdata d i w =
     bindR (cow_check d i w) (\<lambda>_.
       case ptrs w ! i of
         None \<Rightarrow> Inr None
       | Some p \<Rightarrow>
           bindR (deref p w) (\<lambda>c.
           bindR (dcheck d (IsConsistent (obj c)) ()) (\<lambda>_. Inr (Some (p, coffset w ! i)))))"

definition cow_size :: "bool \<Rightarrow> nat \<Rightarrow> cow \<Rightarrow> nat res" where
  "cow_size d i w = bindR (cow_check d i w) (\<lambda>_. Inr (csize w ! i))"

definition cow_capacity :: "bool \<Rightarrow> nat \<Rightarrow> cow \<Rightarrow> nat res" where
  "cow_capacity d i w =
     bindR (cow_check d i w) (\<lambda>_.
       case ptrs w ! i of
         None \<Rightarrow> Inr 0
       | Some p \<Rightarrow>
           bindR (deref p w) (\<lambda>c.
           bindR (buffer_capacity d (obj c)) (\<lambda>cap. Inr (size_sub cap (coffset w ! i)))))"

text \<open>Reading \<open>n\<close> cells at a pointer, when the block is still there and long enough.\<close>

definition read_cells :: "(nat \<times> nat) option \<Rightarrow> nat \<Rightarrow> cow \<Rightarrow> octets res" where
  "read_cells a n w =
     (if n = 0 then Inr []
      else case a of
        None \<Rightarrow> Inl Null_deref
      | Some (p, off) \<Rightarrow>
          bindR (deref p w) (\<lambda>c.
            case bdata (obj c) of
              None \<Rightarrow> Inl Bad_memory
            | Some cs \<Rightarrow> if off + n \<le> length cs then Inr (take n (drop off cs)) else Inl Bad_memory))"

definition cow_at :: "bool \<Rightarrow> nat \<Rightarrow> nat \<Rightarrow> cow \<Rightarrow> 8 word option res" where
  "cow_at d index i w =
     bindR (if d then bindR (cow_size d i w) (\<lambda>n. dcheck d (index < n) ()) else Inr ()) (\<lambda>_.
     bindR (cow_cdata d i w) (\<lambda>a.
     bindR (read_cells (map_option (\<lambda>(p, off). (p, off + index)) a) 1 w) (\<lambda>cs. Inr (hd cs))))"

section \<open>Assignment\<close>

definition cow_assign :: "bool \<Rightarrow> nat \<Rightarrow> nat \<Rightarrow> cow \<Rightarrow> cow res" where
  "cow_assign d i buf w =
     bindR (cow_check d i w) (\<lambda>_.
     bindR (cow_check d buf w) (\<lambda>_.
       if buf \<noteq> i then
         bindR (ptr_assign_ref i buf w) (\<lambda>w. Inr (set_slice i (coffset w ! buf) (csize w ! buf) w))
       else Inr w))"

definition cow_move_assign :: "bool \<Rightarrow> nat \<Rightarrow> nat \<Rightarrow> cow \<Rightarrow> cow res" where
  "cow_move_assign d i buf w =
     bindR (cow_check d i w) (\<lambda>_.
     bindR (cow_check d buf w) (\<lambda>_.
     bindR (ptr_move_assign i buf w) (\<lambda>w.
       let w = set_slice i (coffset w ! buf) (csize w ! buf) w
       in Inr (set_slice buf 0 0 w))))"

definition cow_swap :: "nat \<Rightarrow> nat \<Rightarrow> cow \<Rightarrow> cow" where
  "cow_swap a b w =
     (let w = ptr_swap a b w
      in w\<lparr>coffset := (coffset w)[a := coffset w ! b, b := coffset w ! a],
           csize := (csize w)[a := csize w ! b, b := csize w ! a]\<rparr>)"

section \<open>Contents\<close>

text \<open>\<open>buffer_ = new RefCountedBuffer(...)\<close>.\<close>

definition assign_new :: "nat \<Rightarrow> 8 word buffer \<Rightarrow> cow \<Rightarrow> cow res" where
  "assign_new i b w = (let (p, w) = new_object b w in ptr_assign i (Some p) w)"

definition cow_SetData :: "bool \<Rightarrow> octets \<Rightarrow> nat \<Rightarrow> cow \<Rightarrow> cow res" where
  "cow_SetData d data i w =
     bindR (cow_check d i w) (\<lambda>_.
     bindR (case ptrs w ! i of
        None \<Rightarrow>
          if length data > 0 then bindR (BufferT_copy octet_size d data (length data)) (\<lambda>b. assign_new i b w)
          else ptr_assign i None w
      | Some p \<Rightarrow>
          bindR (deref p w) (\<lambda>c.
            if \<not> HasOneRef (ref_count c) then
              bindR (cow_capacity d i w) (\<lambda>cap.
              bindR (BufferT_copy octet_size d data cap) (\<lambda>b. assign_new i b w))
            else bindR (SetData octet_size d False 0 data (obj c)) (\<lambda>b. Inr (set_object p b w)))) (\<lambda>w.
     let w = set_slice i 0 (length data) w
     in bindR (cow_check d i w) (\<lambda>_. Inr w)))"

definition cow_SetData_buf :: "bool \<Rightarrow> nat \<Rightarrow> nat \<Rightarrow> cow \<Rightarrow> cow res" where
  "cow_SetData_buf d buf i w =
     bindR (cow_check d i w) (\<lambda>_.
     bindR (cow_check d buf w) (\<lambda>_.
       if buf \<noteq> i then
         bindR (ptr_assign_ref i buf w) (\<lambda>w. Inr (set_slice i (coffset w ! buf) (csize w ! buf) w))
       else Inr w))"

text \<open>
  What the caller passes as \<open>const T* data, size_t size\<close>: memory of its own, or a pointer into a
  block, which is read when the bytes are copied.
\<close>

datatype bytes_at = Own octets | Into "(nat \<times> nat) option" nat

fun bytes_size :: "bytes_at \<Rightarrow> nat" where
  "bytes_size (Own xs) = length xs"
| "bytes_size (Into a n) = n"

fun read_bytes :: "bytes_at \<Rightarrow> cow \<Rightarrow> octets res" where
  "read_bytes (Own xs) w = Inr xs"
| "read_bytes (Into a n) w = read_cells a n w"

definition cow_AppendData :: "cow_lib \<Rightarrow> bool \<Rightarrow> bytes_at \<Rightarrow> nat \<Rightarrow> cow \<Rightarrow> cow res" where
  "cow_AppendData L d data i w =
     bindR (cow_check d i w) (\<lambda>_.
       case ptrs w ! i of
         None \<Rightarrow>
           bindR (read_bytes data w) (\<lambda>xs.
           bindR (BufferT_copy octet_size d xs (length xs)) (\<lambda>b.
           bindR (assign_new i b w) (\<lambda>w.
             let w = set_slice i 0 (bytes_size data) w
             in bindR (cow_check d i w) (\<lambda>_. Inr w))))
       | Some _ \<Rightarrow>
           bindR (cow_capacity d i w) (\<lambda>cap.
           bindR (UnshareAndEnsureCapacity L i (max cap (size_add (csize w ! i) (bytes_size data))) w) (\<lambda>w.
             case ptrs w ! i of
               None \<Rightarrow> Inl Null_deref
             | Some p \<Rightarrow>
                 bindR (deref p w) (\<lambda>c.
                 bindR (SetSize octet_size d False 0 (size_add (coffset w ! i) (csize w ! i)) (obj c)) (\<lambda>b.
                 let w = set_object p b w in
                 bindR (read_bytes data w) (\<lambda>xs.
                 bindR (AppendData octet_size d False 0 xs b) (\<lambda>b.
                 let w = set_slice i (coffset w ! i) (size_add (csize w ! i) (bytes_size data)) (set_object p b w)
                 in bindR (cow_check d i w) (\<lambda>_. Inr w))))))))"

definition cow_AppendData_buf :: "cow_lib \<Rightarrow> bool \<Rightarrow> nat \<Rightarrow> nat \<Rightarrow> cow \<Rightarrow> cow res" where
  "cow_AppendData_buf L d buf i w =
     bindR (cow_cdata d buf w) (\<lambda>a.
     bindR (cow_size d buf w) (\<lambda>n. cow_AppendData L d (Into a n) i w))"

text \<open>The pointer that writes go through, and a write through it.\<close>

definition cow_MutableData :: "cow_lib \<Rightarrow> bool \<Rightarrow> nat \<Rightarrow> cow \<Rightarrow> ((nat \<times> nat) option \<times> cow) res" where
  "cow_MutableData L d i w =
     bindR (cow_check d i w) (\<lambda>_.
       case ptrs w ! i of
         None \<Rightarrow> Inr (None, w)
       | Some _ \<Rightarrow>
           bindR (cow_capacity d i w) (\<lambda>cap.
           bindR (UnshareAndEnsureCapacity L i cap w) (\<lambda>w.
             case ptrs w ! i of
               None \<Rightarrow> Inl Null_deref
             | Some p \<Rightarrow>
                 bindR (deref p w) (\<lambda>c.
                 bindR (dcheck d (IsConsistent (obj c)) ()) (\<lambda>_. Inr (Some (p, coffset w ! i), w))))))"

definition store_byte :: "(nat \<times> nat) option \<Rightarrow> nat \<Rightarrow> 8 word \<Rightarrow> cow \<Rightarrow> cow res" where
  "store_byte a k x w =
     (case a of
        None \<Rightarrow> Inl Null_deref
      | Some (p, off) \<Rightarrow>
          bindR (deref p w) (\<lambda>c.
          bindR (write_cells (bdata (obj c)) (off + k) [Some x]) (\<lambda>cs.
            Inr (set_object p ((obj c)\<lparr>bdata := cs\<rparr>) w))))"

section \<open>Slices\<close>

text \<open>The slice is the new last buffer.\<close>

definition cow_Slice :: "cow_lib \<Rightarrow> bool \<Rightarrow> nat \<Rightarrow> nat \<Rightarrow> nat \<Rightarrow> cow \<Rightarrow> cow res" where
  "cow_Slice L d offset_arg length_arg i w =
     bindR (CopyConstruct L i w) (\<lambda>w.
     bindR (dcheck d (offset_arg \<le> csize w ! i) ()) (\<lambda>_.
     bindR (dcheck d (size_add length_arg offset_arg \<le> csize w ! i) ()) (\<lambda>_.
       let slice = length (ptrs w) - 1
       in Inr (set_slice slice (size_add (coffset w ! slice) offset_arg) length_arg w))))"

end
