(* ===== verification/Ref_Props.thy ===== *)
theory Ref_Props
  imports Ref_Ptr
begin

text \<open>
  Reference counting is exact: an object exists as long as a pointer to it does, and no pointer
  dangles.
\<close>

section \<open>Balance\<close>

text \<open>
  Between the steps of an operation the count of an object differs from the number of pointers
  to it by an excess \<open>e\<close>; a new object, \<open>q\<close>, has no pointer yet.
\<close>

definition total_refs :: "(nat \<Rightarrow> int) \<Rightarrow> nat option list \<Rightarrow> nat \<Rightarrow> int" where
  "total_refs e qs p = int (count_list qs (Some p)) + e p"

definition cell_ok :: "nat option \<Rightarrow> nat \<Rightarrow> int \<Rightarrow> 'o counted option \<Rightarrow> bool" where
  "cell_ok q p n c = (case c of
     None \<Rightarrow> n = 0
   | Some c \<Rightarrow> ref_count c = word_of_int n \<and> (0 < n \<or> q = Some p \<and> n = 0))"

definition balanced :: "nat option \<Rightarrow> (nat \<Rightarrow> int) \<Rightarrow> ('o, 'm) refs_scheme \<Rightarrow> bool" where
  "balanced q e w \<longleftrightarrow>
     (\<forall>p. cell_ok q p (total_refs e (ptrs w) p) (heap w p)) \<and> (\<forall>p\<ge>fresh w. heap w p = None)"

definition counts_exact :: "('o, 'm) refs_scheme \<Rightarrow> bool" where
  "counts_exact w \<longleftrightarrow> balanced None (\<lambda>_. 0) w"

text \<open>What an operation on pointers keeps: the objects that are still there, and all other state.\<close>

definition keeps_objects :: "('o, 'm) refs_scheme \<Rightarrow> ('o, 'm) refs_scheme \<Rightarrow> bool" where
  "keeps_objects w t \<longleftrightarrow> fresh t = fresh w \<and> refs.more t = refs.more w \<and>
     (\<forall>p c. heap t p = Some c \<longrightarrow> map_option obj (heap w p) = Some (obj c))"

lemma keeps_objects_refl [simp]: "keeps_objects w w"
  by (simp add: keeps_objects_def)

lemma keeps_objects_trans: "keeps_objects w t \<Longrightarrow> keeps_objects t u \<Longrightarrow> keeps_objects w u"
  by (fastforce simp: keeps_objects_def)

lemma keeps_objects_ptrs [simp]: "keeps_objects w (t\<lparr>ptrs := qs\<rparr>) = keeps_objects w t"
  by (simp add: keeps_objects_def)

lemma count_list_update:
  assumes "i < length xs"
  shows "int (count_list (xs[i := x]) y) = int (count_list xs y) + (if x = y then 1 else 0) - (if xs ! i = y then 1 else 0)"
proof -
  have "xs[i := x] = take i xs @ x # drop (Suc i) xs" using assms by (rule upd_conv_take_nth_drop)
  moreover have "xs = take i xs @ xs ! i # drop (Suc i) xs" using assms by (rule id_take_nth_drop)
  then have "count_list xs y = count_list (take i xs @ xs ! i # drop (Suc i) xs) y" by simp
  ultimately show ?thesis by simp
qed

lemma count_list_le: "count_list xs y \<le> length xs"
  by (induction xs) auto

lemma balanced_cell: "balanced q e w \<Longrightarrow> cell_ok q p (total_refs e (ptrs w) p) (heap w p)"
  by (simp add: balanced_def)

lemma total_upd:
  "total_refs (e(p := e p + k)) qs r = (if r = p then total_refs e qs p + k else total_refs e qs r)"
  by (simp add: total_refs_def)

lemma cell_ok_simps [simp]:
  "cell_ok q p n None \<longleftrightarrow> n = 0"
  "cell_ok q p n (Some c) \<longleftrightarrow> ref_count c = word_of_int n \<and> (0 < n \<or> q = Some p \<and> n = 0)"
  by (simp_all add: cell_ok_def)

lemma cell_ok_other: "cell_ok q r n c \<Longrightarrow> q \<noteq> Some r \<Longrightarrow> cell_ok None r n c"
  by (auto simp: cell_ok_def split: option.splits)

lemma balanced_upd:
  assumes "balanced q e w" "q = None \<or> q = Some p" "cell_ok None p (total_refs e (ptrs w) p + k) c" "p < fresh w"
  shows "balanced None (e(p := e p + k)) (w\<lparr>heap := (heap w)(p := c)\<rparr>)"
  using assms cell_ok_other [OF balanced_cell [OF assms(1)]]
  by (auto simp: balanced_def total_upd)

lemma balanced_fresh: "balanced q e w \<Longrightarrow> heap w p = Some c \<Longrightarrow> p < fresh w"
  by (metis balanced_def linorder_not_less option.distinct(1))

lemma AddRef_balanced:
  assumes "balanced q e w" "heap w p \<noteq> None" "q = None \<or> q = Some p"
  shows "\<exists>t. AddRef p w = Inr t \<and> balanced None (e(p := e p + 1)) t \<and> ptrs t = ptrs w \<and> keeps_objects w t"
proof -
  from assms(2) obtain c where c: "heap w p = Some c" by blast
  have "balanced None (e(p := e p + 1)) (w\<lparr>heap := (heap w)(p \<mapsto> c\<lparr>ref_count := IncRef (ref_count c)\<rparr>)\<rparr>)"
    by (rule balanced_upd [OF assms(1,3) _ balanced_fresh [OF assms(1) c]])
      (use balanced_cell [OF assms(1), of p] in \<open>auto simp: c IncRef_def\<close>)
  then show ?thesis
    by (auto simp: AddRef_def deref_def c keeps_objects_def)
qed

lemma Release_balanced:
  assumes "balanced None e w" "heap w p \<noteq> None" "total_refs e (ptrs w) p \<le> 2 ^ 31 - 1"
  shows "\<exists>t. Release p w = Inr t \<and> balanced None (e(p := e p - 1)) t \<and> ptrs t = ptrs w \<and> keeps_objects w t"
proof -
  from assms(2) obtain c where c: "heap w p = Some c" by blast
  define n where "n = total_refs e (ptrs w) p"
  have n: "ref_count c = word_of_int n" "0 < n" "n \<le> 2 ^ 31 - 1"
    using balanced_cell [OF assms(1), of p] assms(3) by (auto simp: n_def c)
  have "sint (word_of_int n :: 32 word) = n"
    using n(2,3) by (simp add: sint_sbintrunc' signed_take_bit_int_eq_self_iff)
  then have dec: "DecRef (ref_count c) =
      Inr (if n = 1 then kDroppedLastRef else kOtherRefsRemained, ref_count c - 1)"
    using n by (simp add: DecRef_def i32_def)
  define c' where "c' = (if n = 1 then None else Some (c\<lparr>ref_count := ref_count c - 1\<rparr>))"
  have "balanced None (e(p := e p + - 1)) (w\<lparr>heap := (heap w)(p := c')\<rparr>)"
    by (rule balanced_upd [OF assms(1) _ _ balanced_fresh [OF assms(1) c]]) (use n in \<open>auto simp: n_def c'_def\<close>)
  moreover have "Release p w = Inr (w\<lparr>heap := (heap w)(p := c')\<rparr>)"
    by (simp add: Release_def deref_def c c'_def dec)
  ultimately show ?thesis by (auto simp: keeps_objects_def c c'_def split: if_splits)
qed

definition points :: "nat option \<Rightarrow> nat \<Rightarrow> int" where
  "points q p = (if q = Some p then 1 else 0)"

lemma points_simps [simp]: "points None p = 0" "points (Some p) r = (if p = r then 1 else 0)"
  by (simp_all add: points_def)

lemma set_pointer_balanced:
  assumes "i < length (ptrs w)" "balanced None e w"
  shows "balanced None (\<lambda>p. e p + points (ptrs w ! i) p - points q p) (w\<lparr>ptrs := (ptrs w)[i := q]\<rparr>)"
proof -
  have "total_refs (\<lambda>p. e p + points (ptrs w ! i) p - points q p) ((ptrs w)[i := q]) = total_refs e (ptrs w)"
    by (auto simp: total_refs_def count_list_update [OF assms(1)] points_def)
  with assms(2) show ?thesis by (simp add: balanced_def)
qed

lemma add_pointer_balanced:
  assumes "balanced None e w"
  shows "balanced None (\<lambda>p. e p - points q p) (w\<lparr>ptrs := ptrs w @ [q]\<rparr>)"
proof -
  have "total_refs (\<lambda>p. e p - points q p) (ptrs w @ [q]) = total_refs e (ptrs w)"
    by (auto simp: total_refs_def points_def)
  with assms show ?thesis by (simp add: balanced_def)
qed

lemma if_AddRef_balanced:
  assumes "balanced q e w" "\<And>p. q = Some p \<Longrightarrow> heap w p \<noteq> None"
  shows "\<exists>t. if_ptr AddRef q w = Inr t \<and> balanced None (\<lambda>p. e p + points q p) t \<and> ptrs t = ptrs w \<and> keeps_objects w t"
proof (cases q)
  case (Some p)
  have "(\<lambda>r. e r + points q r) = e(p := e p + 1)" by (auto simp: Some)
  then show ?thesis using AddRef_balanced [of q e w p] assms Some by (simp add: if_ptr_def)
qed (use assms in \<open>simp add: if_ptr_def\<close>)

lemma if_Release_balanced:
  assumes "balanced None e w" "\<And>p. q = Some p \<Longrightarrow> 0 < total_refs e (ptrs w) p \<and> total_refs e (ptrs w) p \<le> 2 ^ 31 - 1"
  shows "\<exists>t. if_ptr Release q w = Inr t \<and> balanced None (\<lambda>p. e p - points q p) t \<and> ptrs t = ptrs w \<and> keeps_objects w t"
proof (cases q)
  case (Some p)
  have "(\<lambda>r. e r - points q r) = e(p := e p - 1)" by (auto simp: Some)
  moreover have "heap w p \<noteq> None" using balanced_cell [OF assms(1), of p] assms(2) [OF Some] by (cases "heap w p") auto
  ultimately show ?thesis using Release_balanced [of e w p] assms Some by (simp add: if_ptr_def)
qed (use assms in \<open>simp add: if_ptr_def\<close>)


section \<open>The operations\<close>

lemma count_list_pos: "i < length qs \<Longrightarrow> qs ! i = Some p \<Longrightarrow> 0 < count_list qs (Some p)"
  by (metis count_list_0_iff gr0I nth_mem)

lemma total_refs_bound:
  assumes "length qs < 2 ^ 31 - 1"
  shows "total_refs (\<lambda>_. 0) qs p \<le> 2 ^ 31 - 2"
  using count_list_le [of qs "Some p"] assms by (simp add: total_refs_def)

lemma counts_exact_live:
  assumes "counts_exact w" "i < length (ptrs w)" "ptrs w ! i = Some p"
  shows "\<exists>c. heap w p = Some c"
  using balanced_cell [of None "\<lambda>_. 0" w p] assms count_list_pos [OF assms(2,3)]
  by (cases "heap w p") (auto simp: counts_exact_def total_refs_def)

lemma cell_ok_weaken: "cell_ok None p n c \<Longrightarrow> cell_ok q p n c"
  by (cases c) auto

lemma balanced_weaken: "counts_exact w \<Longrightarrow> balanced q (\<lambda>_. 0) w"
  by (auto simp: counts_exact_def balanced_def intro: cell_ok_weaken)

definition ptrs_become :: "('o, 'm) refs_scheme \<Rightarrow> nat option list \<Rightarrow> ('o, 'm) refs_scheme res \<Rightarrow> bool" where
  "ptrs_become w qs r \<longleftrightarrow> resT (\<lambda>t. counts_exact t \<and> ptrs t = qs \<and> keeps_objects w t) r"

lemma ptr_assign_ok:
  assumes "balanced q (\<lambda>_. 0) w" "i < length (ptrs w)" "length (ptrs w) < 2 ^ 31 - 1" "\<And>p. q = Some p \<Longrightarrow> heap w p \<noteq> None"
  shows "ptrs_become w ((ptrs w)[i := q]) (ptr_assign i q w)"
proof -
  obtain t where t: "if_ptr AddRef q w = Inr t" "balanced None (points q) t" "ptrs t = ptrs w" "keeps_objects w t"
    using if_AddRef_balanced [OF assms(1,4)] by auto
  have "0 < total_refs (points q) (ptrs t) p \<and> total_refs (points q) (ptrs t) p \<le> 2 ^ 31 - 1" if "ptrs w ! i = Some p" for p
    using total_refs_bound [OF assms(3), of p] count_list_pos [OF assms(2) that]
    by (auto simp: total_refs_def points_def t(3))
  then obtain u where u: "if_ptr Release (ptrs w ! i) t = Inr u"
      "balanced None (\<lambda>p. points q p - points (ptrs w ! i) p) u" "ptrs u = ptrs w" "keeps_objects t u"
    using if_Release_balanced [OF t(2)] t(3) by auto
  have "i < length (ptrs u)" using u(3) assms(2) by simp
  from set_pointer_balanced [OF this u(2), of q] u(3) have "counts_exact (u\<lparr>ptrs := (ptrs w)[i := q]\<rparr>)"
    by (simp add: counts_exact_def)
  with t u show ?thesis
    using keeps_objects_trans [OF t(4) u(4)] by (simp add: ptrs_become_def ptr_assign_def)
qed

lemma ptr_assign_ref_ok:
  assumes "counts_exact w" "i < length (ptrs w)" "r < length (ptrs w)" "length (ptrs w) < 2 ^ 31 - 1"
  shows "ptrs_become w ((ptrs w)[i := ptrs w ! r]) (ptr_assign_ref i r w)"
  unfolding ptr_assign_ref_def
  by (rule ptr_assign_ok [OF balanced_weaken [OF assms(1)] assms(2,4)])
    (use counts_exact_live [OF assms(1,3)] in auto)

lemma ptr_new_ok:
  assumes "balanced q (\<lambda>_. 0) w" "\<And>p. q = Some p \<Longrightarrow> heap w p \<noteq> None"
  shows "ptrs_become w (ptrs w @ [q]) (ptr_new q w)"
proof -
  obtain t where t: "if_ptr AddRef q w = Inr t" "balanced None (points q) t" "ptrs t = ptrs w" "keeps_objects w t"
    using if_AddRef_balanced [OF assms] by auto
  from add_pointer_balanced [OF t(2), of q] t show ?thesis
    by (simp add: ptrs_become_def ptr_new_def counts_exact_def)
qed

lemma ptr_copy_ok:
  assumes "counts_exact w" "r < length (ptrs w)"
  shows "ptrs_become w (ptrs w @ [ptrs w ! r]) (ptr_copy r w)"
proof -
  have "if_ptr AddRef q w = Inr t \<Longrightarrow> ptrs t = ptrs w" for q t
    by (auto simp: if_ptr_def AddRef_def deref_def split: option.splits)
  then have "ptr_copy r w = ptr_new (ptrs w ! r) w"
    unfolding ptr_copy_def ptr_new_def by (intro bindR_cong) auto
  then show ?thesis
    using ptr_new_ok [OF balanced_weaken [OF assms(1)], of "ptrs w ! r"] counts_exact_live [OF assms] by auto
qed

lemma ptr_move_assign_ok:
  assumes "counts_exact w" "i < length (ptrs w)" "r < length (ptrs w)" "length (ptrs w) < 2 ^ 31 - 1"
  shows "ptrs_become w ((ptrs w)[r := None, i := ptrs w ! r]) (ptr_move_assign i r w)"
proof -
  define q where "q = ptrs w ! r"
  define w1 where "w1 = w\<lparr>ptrs := (ptrs w)[r := None]\<rparr>"
  define old where "old = ptrs w1 ! i"
  define w2 where "w2 = w1\<lparr>ptrs := (ptrs w1)[i := q]\<rparr>"
  have "balanced None (points q) w1"
    using set_pointer_balanced [OF assms(3), of "\<lambda>_. 0" None] assms(1) by (simp add: counts_exact_def w1_def q_def)
  moreover have "i < length (ptrs w1)" using assms(2) by (simp add: w1_def)
  ultimately have b: "balanced None (points old) w2"
    using set_pointer_balanced [of i w1 "points q" q] by (simp add: w2_def old_def)
  have "0 < total_refs (points old) (ptrs w2) p \<and> total_refs (points old) (ptrs w2) p \<le> 2 ^ 31 - 1" if "old = Some p" for p
    using total_refs_bound [of "ptrs w2" p] assms(4) that
    by (auto simp: total_refs_def points_def w2_def w1_def)
  with if_Release_balanced [OF b, of old] obtain t where
    "if_ptr Release old w2 = Inr t" "balanced None (\<lambda>_. 0) t" "ptrs t = ptrs w2" "keeps_objects w2 t" by auto
  moreover have "ptr_move_assign i r w = if_ptr Release old w2"
    by (simp add: ptr_move_assign_def ptr_release_def ptr_swap_raw_def w1_def w2_def old_def q_def)
  ultimately show ?thesis
    by (simp add: ptrs_become_def counts_exact_def w2_def w1_def q_def keeps_objects_def)
qed

lemma ptr_destroy_ok:
  assumes "counts_exact w" "i < length (ptrs w)" "length (ptrs w) < 2 ^ 31 - 1"
  shows "ptrs_become w ((ptrs w)[i := None]) (ptr_destroy i w)"
proof -
  have "ptr_destroy i w = ptr_assign i None w" by (simp add: ptr_destroy_def ptr_assign_def if_ptr_def)
  then show ?thesis using ptr_assign_ok [OF balanced_weaken [OF assms(1)] assms(2,3), of None] by simp
qed

lemma ptr_move_ok:
  assumes "counts_exact w" "r < length (ptrs w)"
  shows "ptrs_become w ((ptrs w)[r := None] @ [ptrs w ! r]) (Inr (ptr_move r w))"
  using set_pointer_balanced [OF assms(2), of "\<lambda>_. 0" None] assms(1)
    add_pointer_balanced [of "points (ptrs w ! r)" "w\<lparr>ptrs := (ptrs w)[r := None]\<rparr>" "ptrs w ! r"]
  by (simp add: ptrs_become_def counts_exact_def ptr_move_def ptr_release_def keeps_objects_def)

lemma ptr_swap_ok:
  assumes "counts_exact w" "i < length (ptrs w)" "r < length (ptrs w)"
  shows "ptrs_become w ((ptrs w)[i := ptrs w ! r, r := ptrs w ! i]) (Inr (ptr_swap i r w))"
proof -
  have 1: "balanced None (\<lambda>p. points (ptrs w ! i) p - points (ptrs w ! r) p) (w\<lparr>ptrs := (ptrs w)[i := ptrs w ! r]\<rparr>)"
    using set_pointer_balanced [OF assms(2), of "\<lambda>_. 0"] assms(1) by (simp add: counts_exact_def)
  have "(ptrs w)[i := ptrs w ! r] ! r = ptrs w ! r" using assms(2,3) by (simp add: nth_list_update)
  with set_pointer_balanced [OF _ 1, of r "ptrs w ! i"] assms(3) show ?thesis
    by (simp add: ptrs_become_def counts_exact_def ptr_swap_def ptr_swap_raw_def keeps_objects_def)
qed


text \<open>A new object has no pointer yet; the pointer that receives it makes the counts exact again.\<close>

lemma new_object_ok:
  assumes "counts_exact w" "new_object x w = (p, t)"
  shows "balanced (Some p) (\<lambda>_. 0) t" "heap t p = Some \<lparr>obj = x, ref_count = 0\<rparr>" "ptrs t = ptrs w"
    "heap w p = None" "\<And>r. r \<noteq> p \<Longrightarrow> heap t r = heap w r" "refs.more t = refs.more w"
proof -
  have t: "p = fresh w" "t = w\<lparr>heap := (heap w)(fresh w \<mapsto> \<lparr>obj = x, ref_count = 0\<rparr>), fresh := Suc (fresh w)\<rparr>"
    using assms(2) by (auto simp: new_object_def)
  show none: "heap w p = None" using assms(1) t by (simp add: counts_exact_def balanced_def)
  have "total_refs (\<lambda>_. 0) (ptrs w) p = 0"
    using balanced_cell [of None "\<lambda>_. 0" w p] assms(1) none by (simp add: counts_exact_def)
  with balanced_weaken [OF assms(1)] show "balanced (Some p) (\<lambda>_. 0) t"
    by (auto simp: balanced_def t)
qed (use assms(2) in \<open>auto simp: new_object_def\<close>)

section \<open>Programs of pointers\<close>

datatype 'o ptr_op =
    NewPointer 'o | CopyPointer nat | MovePointer nat | AssignNew nat 'o | AssignNull nat | AssignPointer nat nat
  | MoveAssign nat nat | SwapPointers nat nat | DestroyPointer nat

fun ptr_step :: "'o ptr_op \<Rightarrow> ('o, 'm) refs_scheme \<Rightarrow> ('o, 'm) refs_scheme res" where
  "ptr_step (NewPointer x) w = (let (p, w) = new_object x w in ptr_new (Some p) w)"
| "ptr_step (CopyPointer r) w = ptr_copy r w"
| "ptr_step (MovePointer r) w = Inr (ptr_move r w)"
| "ptr_step (AssignNew i x) w = (let (p, w) = new_object x w in ptr_assign i (Some p) w)"
| "ptr_step (AssignNull i) w = ptr_assign i None w"
| "ptr_step (AssignPointer i r) w = ptr_assign_ref i r w"
| "ptr_step (MoveAssign i r) w = ptr_move_assign i r w"
| "ptr_step (SwapPointers i r) w = Inr (ptr_swap i r w)"
| "ptr_step (DestroyPointer i) w = ptr_destroy i w"

fun op_pointers :: "'o ptr_op \<Rightarrow> nat list" where
  "op_pointers (NewPointer x) = []"
| "op_pointers (CopyPointer r) = [r]"
| "op_pointers (MovePointer r) = [r]"
| "op_pointers (AssignNew i x) = [i]"
| "op_pointers (AssignNull i) = [i]"
| "op_pointers (AssignPointer i r) = [i, r]"
| "op_pointers (MoveAssign i r) = [i, r]"
| "op_pointers (SwapPointers i r) = [i, r]"
| "op_pointers (DestroyPointer i) = [i]"

definition ptr_start :: "'o refs" where
  "ptr_start = \<lparr>heap = (\<lambda>_. None), fresh = 0, ptrs = []\<rparr>"

inductive ptr_reach :: "'o refs \<Rightarrow> bool" where
  at_start: "ptr_reach ptr_start"
| by_op: "ptr_reach w \<Longrightarrow> list_all (\<lambda>i. i < length (ptrs w)) (op_pointers op) \<Longrightarrow> ptr_step op w = Inr t \<Longrightarrow>
    length (ptrs t) < 2 ^ 31 - 1 \<Longrightarrow> ptr_reach t"

lemma ptr_step_ok:
  assumes "counts_exact w" "length (ptrs w) < 2 ^ 31 - 1" "list_all (\<lambda>i. i < length (ptrs w)) (op_pointers op)"
  shows "resT counts_exact (ptr_step op w)"
proof -
  have exact: "ptrs_become u qs r \<Longrightarrow> resT counts_exact r" for u :: "('a, 'b) refs_scheme" and qs r
    by (auto simp: ptrs_become_def elim: resT_mono)
  show ?thesis
  proof (cases op)
    case (NewPointer x)
    obtain p u where "new_object x w = (p, u)" by force
    with new_object_ok [OF assms(1) this] ptr_new_ok [of "Some p" u] NewPointer show ?thesis
      by (auto intro: exact)
  next
    case (AssignNew i x)
    obtain p u where "new_object x w = (p, u)" by force
    with new_object_ok [OF assms(1) this] ptr_assign_ok [of "Some p" u i] AssignNew assms show ?thesis
      by (auto intro: exact)
  next
    case (AssignNull i)
    with ptr_assign_ok [OF balanced_weaken [OF assms(1)], of i None] assms show ?thesis by (auto intro: exact)
  qed (use assms exact [OF ptr_copy_ok] exact [OF ptr_assign_ref_ok] exact [OF ptr_move_assign_ok]
      exact [OF ptr_destroy_ok] exact [OF ptr_move_ok] exact [OF ptr_swap_ok] in auto)
qed


lemma sint_count: "n \<le> 2 ^ 31 - 1 \<Longrightarrow> 0 \<le> n \<Longrightarrow> sint (word_of_int n :: 32 word) = n"
  by (simp add: sint_sbintrunc' signed_take_bit_int_eq_self_iff)

lemma release_overflows:
  assumes "heap v p = Some b" "sint (ref_count b) = 2 ^ 31 - 1" "ptrs v ! i = Some p"
  shows "ptr_step (AssignPointer i i) v = Inl Overflow"
proof -
  have "ref_count b = of_int (sint (ref_count b))" by simp
  also have "\<dots> = 2147483647" unfolding assms(2) by simp
  finally have "ref_count b = 2147483647" .
  then have "DecRef (IncRef (ref_count b)) = Inl Overflow"
    by (simp add: DecRef_def IncRef_def i32_def)
  with assms show ?thesis
    by (simp add: ptr_assign_ref_def ptr_assign_def if_ptr_def AddRef_def Release_def deref_def)
qed

lemma ptr_reach_exact: "ptr_reach w \<Longrightarrow> counts_exact w \<and> length (ptrs w) < 2 ^ 31 - 1"
proof (induction rule: ptr_reach.induct)
  case at_start
  show ?case by (simp add: ptr_start_def counts_exact_def balanced_def total_refs_def)
next
  case (by_op w op t)
  then show ?case using ptr_step_ok [of w op] by simp
qed

text \<open>
  C37. Programs of \<open>scoped_refptr\<close>s with fewer than \<open>2\<^sup>31 - 1\<close> pointers, through construction, copies,
  moves, assignments (to themselves too), swaps and destruction: an object exists exactly as long
  as a pointer to it does, its count, an \<open>int\<close>, is the number of pointers to it, and the next operation
  neither touches freed memory nor overflows.  The bound is sharp: an assignment that takes its reference before it
  releases one brings the count of an object with \<open>2\<^sup>31 - 1\<close> pointers to the least \<open>int\<close>, and
  releasing that overflows.
\<close>

theorem refptr_exact:
  assumes "ptr_reach w" "list_all (\<lambda>i. i < length (ptrs w)) (op_pointers op)"
  shows "(\<forall>p. heap w p \<noteq> None \<longleftrightarrow> Some p \<in> set (ptrs w)) \<and>
    (\<forall>p c. heap w p = Some c \<longrightarrow> sint (ref_count c) = int (count_list (ptrs w) (Some p))) \<and>
    (\<exists>t. ptr_step op w = Inr t) \<and>
    (heap v p = Some b \<and> sint (ref_count b) = 2 ^ 31 - 1 \<and> ptrs v ! i = Some p \<longrightarrow>
       ptr_step (AssignPointer i i) v = Inl Overflow)"
proof -
  from ptr_reach_exact [OF assms(1)] have w: "counts_exact w" "length (ptrs w) < 2 ^ 31 - 1" by auto
  have cell: "cell_ok None p (int (count_list (ptrs w) (Some p))) (heap w p)" for p
    using balanced_cell [of None "\<lambda>_. 0" w p] w(1) by (simp add: counts_exact_def total_refs_def)
  have "heap w p \<noteq> None \<longleftrightarrow> Some p \<in> set (ptrs w)" for p
    using cell [of p] count_list_0_iff [of "ptrs w" "Some p"] by (cases "heap w p") auto
  moreover have "sint (ref_count c) = int (count_list (ptrs w) (Some p))" if "heap w p = Some c" for p c
  proof -
    have "ref_count c = word_of_int (int (count_list (ptrs w) (Some p)))" using cell [of p] that by simp
    moreover have "int (count_list (ptrs w) (Some p)) \<le> 2 ^ 31 - 1"
      using count_list_le [of "ptrs w" "Some p"] w(2) by simp
    ultimately show ?thesis by (simp only: sint_count)
  qed
  moreover have "\<exists>t. ptr_step op w = Inr t"
    using ptr_step_ok [OF w assms(2)] by (auto simp: resT_iff)
  ultimately show ?thesis using release_overflows by blast
qed

theorem refptr_exact_witness:
  "\<exists>w :: nat refs. ptr_reach w \<and> ptrs w = [Some 0, Some 0] \<and> (\<forall>c. heap w 0 = Some c \<longrightarrow> sint (ref_count c) = 2)"
proof -
  define w1 :: "nat refs" where "w1 = \<lparr>heap = [0 \<mapsto> \<lparr>obj = 7, ref_count = 1\<rparr>], fresh = 1, ptrs = [Some 0]\<rparr>"
  define w2 :: "nat refs" where "w2 = \<lparr>heap = [0 \<mapsto> \<lparr>obj = 7, ref_count = 2\<rparr>], fresh = 1, ptrs = [Some 0, Some 0]\<rparr>"
  have "ptr_reach w1"
    by (rule by_op [OF at_start, of "NewPointer 7"])
      (simp_all add: ptr_start_def w1_def new_object_def ptr_new_def if_ptr_def AddRef_def deref_def IncRef_def)
  then have w2: "ptr_reach w2"
    by (rule by_op [of _ "CopyPointer 0"])
      (simp_all add: w1_def w2_def ptr_copy_def if_ptr_def AddRef_def deref_def IncRef_def)
  have "sint (ref_count c) = 2" if "heap w2 0 = Some c" for c
  proof -
    have "list_all (\<lambda>i. i < length (ptrs w2)) (op_pointers (DestroyPointer 0))" by (simp add: w2_def)
    with refptr_exact [OF w2] that have "sint (ref_count c) = int (count_list (ptrs w2) (Some 0))" by blast
    then show ?thesis by (simp add: w2_def)
  qed
  moreover have "ptrs w2 = [Some 0, Some 0]" by (simp add: w2_def)
  ultimately show ?thesis using w2 by blast
qed

end
