(* ===== verification/Cow_Props.thy ===== *)
theory Cow_Props
  imports Cow_Buffer Ref_Props Buffer_Props
begin

text \<open>
  Copy-on-write buffers have value semantics: sharing blocks between buffers, and writing, growing,
  slicing and moving them, is the same as if every buffer held bytes of its own.
\<close>

lemma most_octets [simp]: "most octet_size = 2 ^ 62"
  by (simp add: most_def octet_size_def)

section \<open>Documented behaviour of the absent file\<close>

definition block :: "cow \<Rightarrow> nat option \<Rightarrow> 8 word buffer option" where
  "block w q = (case q of None \<Rightarrow> None | Some p \<Rightarrow> map_option obj (heap w p))"

definition slice_value :: "8 word buffer option \<Rightarrow> nat \<Rightarrow> nat \<Rightarrow> octets" where
  "slice_value b off n = (case b of None \<Rightarrow> [] | Some b \<Rightarrow> take n (drop off (contents b)))"

definition cow_value :: "cow \<Rightarrow> nat \<Rightarrow> octets" where
  "cow_value w i = slice_value (block w (ptrs w ! i)) (coffset w ! i) (csize w ! i)"

text \<open>
  The header: the copy constructor shares the data with an existing buffer;
  \<open>UnshareAndEnsureCapacity\<close> creates a copy of the underlying data if it is referenced from other
  buffers or there is not enough capacity.
\<close>

definition cow_documented :: "cow_lib \<Rightarrow> bool" where
  "cow_documented L \<longleftrightarrow>
     (\<forall>i w. i < length (ptrs w) \<longrightarrow> CopyConstruct L i w =
        bindR (ptr_copy i w) (\<lambda>w. Inr (w\<lparr>coffset := coffset w @ [coffset w ! i], csize := csize w @ [csize w ! i]\<rparr>))) \<and>
     (\<forall>i c w p x. i < length (ptrs w) \<longrightarrow> ptrs w ! i = Some p \<longrightarrow> heap w p = Some x \<longrightarrow> buf_ok octet_size (obj x) \<longrightarrow>
        coffset w ! i + csize w ! i \<le> bsize (obj x) \<longrightarrow> 0 < c \<longrightarrow> c \<le> 3 * 2 ^ 61 \<longrightarrow> csize w ! i \<le> c \<longrightarrow>
        (if HasOneRef (ref_count x) \<and> c \<le> bcap (obj x) - coffset w ! i then UnshareAndEnsureCapacity L i c w = Inr w
         else \<exists>b off. buf_ok octet_size b \<and> off + csize w ! i \<le> bsize b \<and> c \<le> bcap b - off \<and>
           take (csize w ! i) (drop off (contents b)) = cow_value w i \<and>
           UnshareAndEnsureCapacity L i c w = bindR (assign_new i b w) (\<lambda>t. Inr (set_slice i off (csize w ! i) t))))"

section \<open>Invariant\<close>

definition slice_ok :: "nat option \<Rightarrow> 8 word buffer option \<Rightarrow> nat \<Rightarrow> nat \<Rightarrow> bool" where
  "slice_ok q b off n \<longleftrightarrow>
     (if q = None then off = 0 \<and> n = 0
      else case b of None \<Rightarrow> False | Some b \<Rightarrow> buf_ok octet_size b \<and> 0 < bcap b \<and> off + n \<le> bsize b)"

definition cow_inv :: "cow \<Rightarrow> bool" where
  "cow_inv w \<longleftrightarrow> counts_exact w \<and> length (ptrs w) < 2 ^ 31 - 1 \<and>
     length (coffset w) = length (ptrs w) \<and> length (csize w) = length (ptrs w) \<and>
     (\<forall>i<length (ptrs w). slice_ok (ptrs w ! i) (block w (ptrs w ! i)) (coffset w ! i) (csize w ! i))"

definition cow_values :: "cow \<Rightarrow> octets list" where
  "cow_values w = map (cow_value w) [0..<length (ptrs w)]"

lemma length_cow_values [simp]: "length (cow_values w) = length (ptrs w)"
  by (simp add: cow_values_def)

lemma nth_cow_values [simp]: "i < length (ptrs w) \<Longrightarrow> cow_values w ! i = cow_value w i"
  by (simp add: cow_values_def)

lemma block_simps [simp]: "block w None = None" "block w (Some p) = map_option obj (heap w p)"
  by (simp_all add: block_def)

lemma set_slice_simps [simp]:
  "ptrs (set_slice i off n w) = ptrs w" "heap (set_slice i off n w) = heap w"
  "coffset (set_slice i off n w) = (coffset w)[i := off]" "csize (set_slice i off n w) = (csize w)[i := n]"
  "block (set_slice i off n w) q = block w q" "fresh (set_slice i off n w) = fresh w"
  by (auto simp: set_slice_def block_def split: option.splits)

lemma counts_exact_cong: "heap t = heap w \<Longrightarrow> ptrs t = ptrs w \<Longrightarrow> fresh t = fresh w \<Longrightarrow> counts_exact w \<Longrightarrow> counts_exact t"
  by (simp add: counts_exact_def balanced_def)

lemma counts_exact_set_slice [simp]: "counts_exact w \<Longrightarrow> counts_exact (set_slice i off n w)"
  by (erule counts_exact_cong [rotated 3]) (simp_all add: set_slice_def)

lemma set_object_simps [simp]:
  "ptrs (set_object p b w) = ptrs w" "coffset (set_object p b w) = coffset w" "csize (set_object p b w) = csize w"
  "fresh (set_object p b w) = fresh w"
  "heap w p \<noteq> None \<Longrightarrow> block (set_object p b w) q = (if q = Some p then Some b else block w q)"
  "heap w p \<noteq> None \<Longrightarrow> heap (set_object p b w) p \<noteq> None"
  by (auto simp: set_object_def block_def split: option.splits)

lemma cell_ok_set_object: "cell_ok q r n (heap (set_object p b w) r) = cell_ok q r n (heap w r)"
  by (cases "heap w p") (auto simp: set_object_def)

lemma counts_exact_set_object [simp]: "counts_exact w \<Longrightarrow> counts_exact (set_object p b w)"
  by (auto simp: counts_exact_def balanced_def cell_ok_set_object) (simp add: set_object_def split: option.splits)

lemma kept_fields: "refs.more t = refs.more w \<Longrightarrow> coffset (t :: cow) = coffset w \<and> csize t = csize w"
  by (cases w; cases t) (simp add: cow.defs)

lemma kept_blocks:
  assumes "keeps_objects w t" "counts_exact t" "q \<in> set (ptrs t)"
  shows "block t q = block w q"
proof (cases q)
  case (Some p)
  then obtain j where "j < length (ptrs t)" "ptrs t ! j = Some p" using assms(3) by (auto simp: in_set_conv_nth)
  then obtain c where c: "heap t p = Some c" using counts_exact_live [OF assms(2)] by blast
  with assms(1) have "map_option obj (heap w p) = Some (obj c)" unfolding keeps_objects_def by blast
  with c show ?thesis unfolding Some block_simps by (metis option.simps(9))
qed simp

lemma cow_slice_cases:
  assumes "cow_inv w" "i < length (ptrs w)"
  obtains (null) "ptrs w ! i = None" "coffset w ! i = 0" "csize w ! i = 0"
  | (slice) p x where "ptrs w ! i = Some p" "heap w p = Some x" "buf_ok octet_size (obj x)" "0 < bcap (obj x)"
      "coffset w ! i + csize w ! i \<le> bsize (obj x)" "bsize (obj x) \<le> bcap (obj x)" "bcap (obj x) \<le> 3 * 2 ^ 61"
proof (cases "ptrs w ! i")
  case None
  with assms null show thesis by (auto simp: cow_inv_def slice_ok_def)
next
  case (Some p)
  with assms slice [of p] show thesis by (cases "heap w p") (force simp: cow_inv_def slice_ok_def buf_ok_def)+
qed

lemma cow_value_null: "ptrs w ! i = None \<Longrightarrow> cow_value w i = []"
  by (simp add: cow_value_def slice_value_def)

lemma length_cow_value:
  assumes "cow_inv w" "i < length (ptrs w)"
  shows "length (cow_value w i) = csize w ! i"
  using assms by (cases rule: cow_slice_cases) (auto simp: cow_value_def slice_value_def length_contents)

section \<open>Reading\<close>

lemma cow_check_ok:
  assumes "cow_inv w" "i < length (ptrs w)"
  shows "cow_check d i w = Inr ()"
  using assms
proof (cases rule: cow_slice_cases)
  case (slice p x)
  then show ?thesis
    by (auto simp: cow_check_def cow_IsConsistent_def deref_def buffer_capacity_def buffer_size_def buf_ok_consistent size_add_def)
qed (simp add: cow_check_def cow_IsConsistent_def)

definition cow_cap :: "cow \<Rightarrow> nat \<Rightarrow> nat" where
  "cow_cap w i = (case block w (ptrs w ! i) of None \<Rightarrow> 0 | Some b \<Rightarrow> bcap b - coffset w ! i)"

lemma cow_capacity_ok:
  assumes "cow_inv w" "i < length (ptrs w)"
  shows "cow_capacity d i w = Inr (cow_cap w i)"
  using assms
proof (cases rule: cow_slice_cases)
  case (slice p x)
  then have "size_sub (bcap (obj x)) (coffset w ! i) = bcap (obj x) - coffset w ! i"
    by (simp add: size_sub_def le_mod_geq)
  with slice show ?thesis
    by (simp add: cow_capacity_def cow_check_ok [OF assms] deref_def buffer_capacity_def buf_ok_consistent cow_cap_def)
qed (simp add: cow_capacity_def cow_check_ok [OF assms] cow_cap_def)

lemma cow_cap_bounds:
  assumes "cow_inv w" "i < length (ptrs w)"
  shows "csize w ! i \<le> cow_cap w i" "cow_cap w i \<le> 3 * 2 ^ 61"
  using assms by (cases rule: cow_slice_cases; force simp: cow_cap_def)+

lemma cow_cdata_ok:
  assumes "cow_inv w" "i < length (ptrs w)"
  shows "cow_cdata d i w = Inr (map_option (\<lambda>p. (p, coffset w ! i)) (ptrs w ! i))"
  using assms
  by (cases rule: cow_slice_cases) (simp_all add: cow_cdata_def cow_check_ok [OF assms] deref_def buf_ok_consistent)

lemma read_cells_ok:
  assumes "heap w p = Some x" "buf_ok octet_size (obj x)" "off + n \<le> bsize (obj x)"
  shows "read_cells (Some (p, off)) n w = Inr (take n (drop off (contents (obj x))))"
  using assms(2)
proof (cases rule: buf_ok_cases)
  case 1
  with assms(3) show ?thesis by (simp add: read_cells_def)
next
  case (2 cs)
  have "off + n \<le> length cs" using assms(2,3) 2 by (simp add: buf_ok_def)
  moreover have "take n (drop off (contents (obj x))) = take n (drop off cs)"
    using assms(3) 2 by (simp add: contents_def drop_take)
  ultimately show ?thesis using assms(1) 2 by (simp add: read_cells_def deref_def)
qed

section \<open>Replacing one buffer\<close>

text \<open>Buffer \<open>i\<close> has a block \<open>b\<close> of its own in \<open>t\<close>, and the other buffers are as in \<open>w\<close>.\<close>

definition owned :: "cow \<Rightarrow> cow \<Rightarrow> nat \<Rightarrow> nat \<Rightarrow> 8 word buffer \<Rightarrow> nat \<Rightarrow> nat \<Rightarrow> bool" where
  "owned w t i p b off n \<longleftrightarrow> counts_exact t \<and> length (ptrs t) = length (ptrs w) \<and> ptrs t ! i = Some p \<and>
     heap t p \<noteq> None \<and> block t (Some p) = Some b \<and>
     (\<forall>j<length (ptrs w). j \<noteq> i \<longrightarrow> ptrs w ! j \<noteq> Some p \<and> ptrs t ! j = ptrs w ! j \<and> block t (ptrs w ! j) = block w (ptrs w ! j)) \<and>
     coffset t = (coffset w)[i := off] \<and> csize t = (csize w)[i := n]"

lemma owned_update:
  "owned w t i p b off n \<Longrightarrow> owned w (set_slice i off' n' (set_object p b' t)) i p b' off' n'"
  by (auto simp: owned_def simp del: block_simps)

lemma owned_object:
  assumes "owned w t i p b off n"
  shows "owned w (set_object p b' t) i p b' off n"
proof -
  have "set_slice i off n (set_object p b' t) = set_object p b' t"
    using assms by (simp add: set_slice_def owned_def)
  with owned_update [OF assms, of off n b'] show ?thesis by simp
qed

lemma owned_slice: "owned w t i p b off n \<Longrightarrow> owned w (set_slice i off' n' t) i p b off' n'"
  by (simp add: owned_def)

lemma owned_values:
  assumes "cow_inv w" "i < length (ptrs w)" "owned w t i p b off n" "buf_ok octet_size b" "0 < bcap b" "off + n \<le> bsize b"
  shows "cow_inv t" "cow_values t = (cow_values w)[i := take n (drop off (contents b))]"
proof -
  have "slice_ok (ptrs t ! j) (block t (ptrs t ! j)) (coffset t ! j) (csize t ! j)" if "j < length (ptrs w)" for j
    using assms that by (cases "j = i") (auto simp: owned_def cow_inv_def slice_ok_def)
  with assms show "cow_inv t" by (auto simp: cow_inv_def owned_def)
  have "cow_value t j = (if j = i then take n (drop off (contents b)) else cow_value w j)" if "j < length (ptrs w)" for j
  proof (cases "j = i")
    case True
    with assms show ?thesis by (auto simp: cow_value_def owned_def slice_value_def cow_inv_def)
  next
    case False
    then have "coffset t ! j = coffset w ! j" "csize t ! j = csize w ! j" "ptrs t ! j = ptrs w ! j"
      "block t (ptrs w ! j) = block w (ptrs w ! j)"
      using assms(3) that by (auto simp: owned_def)
    with False show ?thesis by (simp add: cow_value_def)
  qed
  with assms(3) show "cow_values t = (cow_values w)[i := take n (drop off (contents b))]"
    by (intro nth_equalityI) (auto simp: owned_def nth_list_update)
qed

lemma assign_new_owned:
  assumes "cow_inv w" "i < length (ptrs w)"
  shows "resT (\<lambda>t. \<exists>p. owned w t i p b (coffset w ! i) (csize w ! i) \<and> Some p \<notin> set (ptrs w)) (assign_new i b w)"
proof -
  have w: "counts_exact w" "length (ptrs w) < 2 ^ 31 - 1" using assms(1) by (auto simp: cow_inv_def)
  obtain p u where u: "new_object b w = (p, u)" by force
  note n = new_object_ok [OF w(1) u]
  have "ptrs_become u ((ptrs u)[i := Some p]) (ptr_assign i (Some p) u)"
    by (rule ptr_assign_ok) (use n assms w in auto)
  then obtain t where t: "ptr_assign i (Some p) u = Inr t" "counts_exact t" "ptrs t = (ptrs w)[i := Some p]" "keeps_objects u t"
    using n(3) by (auto simp: ptrs_become_def resT_iff)
  have p: "Some p \<notin> set (ptrs w)"
    using counts_exact_live [OF w(1)] n(4) by (fastforce simp: in_set_conv_nth)
  have blk: "block t q = block u q" if "q \<in> set (ptrs t)" for q
    using kept_blocks [OF t(4,2) that] .
  have mem: "Some p \<in> set (ptrs t)" "j < length (ptrs w) \<Longrightarrow> j \<noteq> i \<Longrightarrow> ptrs w ! j \<in> set (ptrs t)" for j
    using assms(2) unfolding t(3) by (metis length_list_update nth_list_update_eq nth_mem)
      (metis length_list_update nth_list_update_neq nth_mem)
  have other: "block u q = block w q" if "q \<in> set (ptrs w)" for q
  proof (cases q)
    case (Some r)
    with that p have "r \<noteq> p" by blast
    then show ?thesis using n(5) by (simp add: Some)
  qed simp
  have "\<exists>c. heap t p = Some c"
    using counts_exact_live [OF t(2), of i p] assms(2) t(3) by simp
  moreover have "coffset t = coffset w" "csize t = csize w"
    using kept_fields [of t w] t(4) n(6) by (auto simp: keeps_objects_def)
  moreover have "ptrs w ! j \<noteq> Some p" if "j < length (ptrs w)" for j using p that nth_mem by metis
  ultimately have "owned w t i p b (coffset w ! i) (csize w ! i)"
    using t(2,3) assms(2) n(2) blk [OF mem(1)] blk [OF mem(2)] other by (auto simp: owned_def simp del: block_simps) simp
  with t(1) u p show ?thesis by (auto simp: assign_new_def)
qed

lemma count_list_one:
  assumes "count_list xs y = 1" "i < length xs" "xs ! i = y" "j < length xs" "j \<noteq> i"
  shows "xs ! j \<noteq> y"
proof
  assume "xs ! j = y"
  with assms have "{i, j} \<subseteq> {k. k < length xs \<and> y = xs ! k}" by auto
  then have "card {i, j} \<le> count_list xs y"
    unfolding count_list_eq_length_filter length_filter_conv_card by (intro card_mono) auto
  with assms(1,5) show False by simp
qed

lemma one_ref_owned:
  assumes "cow_inv w" "i < length (ptrs w)" "ptrs w ! i = Some p" "heap w p = Some x" "HasOneRef (ref_count x)"
  shows "owned w w i p (obj x) (coffset w ! i) (csize w ! i)"
proof -
  have c: "cell_ok None p (int (count_list (ptrs w) (Some p))) (heap w p)"
    using balanced_cell [of None "\<lambda>_. 0" w p] assms(1) by (simp add: cow_inv_def counts_exact_def total_refs_def)
  then have "of_nat (count_list (ptrs w) (Some p)) = (1 :: 32 word)" using assms(4,5) by (simp add: HasOneRef_def)
  then have "unat (of_nat (count_list (ptrs w) (Some p)) :: 32 word) = 1" by simp
  moreover have "count_list (ptrs w) (Some p) < 2 ^ 31 - 1"
    using count_list_le [of "ptrs w" "Some p"] assms(1) by (auto simp: cow_inv_def)
  ultimately have one: "count_list (ptrs w) (Some p) = 1"
    by (simp add: unat_of_nat take_bit_nat_eq_self)
  show ?thesis
    using assms count_list_one [OF one assms(2,3)] by (auto simp: owned_def cow_inv_def)
qed

lemma Unshare_owned:
  assumes "cow_documented L" "cow_inv w" "i < length (ptrs w)" "ptrs w ! i \<noteq> None"
    "0 < c" "c \<le> 3 * 2 ^ 61" "csize w ! i \<le> c"
  shows "resT (\<lambda>t. \<exists>p b off. owned w t i p b off (csize w ! i) \<and> buf_ok octet_size b \<and> off + csize w ! i \<le> bsize b \<and>
    c \<le> bcap b - off \<and> take (csize w ! i) (drop off (contents b)) = cow_value w i) (UnshareAndEnsureCapacity L i c w)"
  using assms(2,3)
proof (cases rule: cow_slice_cases)
  case null
  with assms(4) show ?thesis by simp
next
  case (slice p x)
  note doc = assms(1) [unfolded cow_documented_def, THEN conjunct2, rule_format, OF assms(3) slice(1,2,3,5) assms(5-7)]
  have val: "take (csize w ! i) (drop (coffset w ! i) (contents (obj x))) = cow_value w i"
    by (simp add: cow_value_def slice_value_def slice(1,2))
  show ?thesis
  proof (cases "HasOneRef (ref_count x) \<and> c \<le> bcap (obj x) - coffset w ! i")
    case True
    with doc one_ref_owned [OF assms(2,3) slice(1,2)] slice val show ?thesis by auto
  next
    case False
    with doc obtain b off where b: "buf_ok octet_size b" "off + csize w ! i \<le> bsize b" "c \<le> bcap b - off"
      "take (csize w ! i) (drop off (contents b)) = cow_value w i"
      "UnshareAndEnsureCapacity L i c w = bindR (assign_new i b w) (\<lambda>t. Inr (set_slice i off (csize w ! i) t))"
      by auto
    from assign_new_owned [OF assms(2,3), of b] obtain t q where
      t: "assign_new i b w = Inr t" "owned w t i q b (coffset w ! i) (csize w ! i)" by (auto simp: resT_iff)
    from owned_slice [OF t(2), of off "csize w ! i"] b t(1) show ?thesis
      by (simp only: b(5) t(1) bindR_Inr resT_Inr) blast
  qed
qed

text \<open>The two operations on a block that has room.\<close>

lemma SetSize_shrink:
  assumes "buf_ok octet_size b" "n \<le> bsize b"
  shows "SetSize octet_size d False z n b = Inr (b\<lparr>bsize := n\<rparr>)"
proof -
  have "n \<le> bcap b" using assms by (simp add: buf_ok_def)
  then show ?thesis
    by (simp add: SetSize_def EnsureCapacityWithHeadroom_def buf_ok_consistent [OF assms(1)])
qed

lemma AppendData_fits:
  assumes "buf_ok octet_size b" "bsize b + length xs \<le> bcap b"
  shows "\<exists>b'. AppendData octet_size d False z xs b = Inr b' \<and> buf_ok octet_size b' \<and> contents b' = contents b @ xs \<and>
    bcap b' = bcap b \<and> bsize b' = bsize b + length xs"
proof -
  have n: "size_add (bsize b) (length xs) = bsize b + length xs"
    using assms by (simp add: size_add_def buf_ok_def)
  show ?thesis
    using append_cells [OF assms] assms(2) buf_ok_consistent [OF append_cells(2) [OF assms]]
    by (simp add: AppendData_def n EnsureCapacityWithHeadroom_def buf_ok_consistent [OF assms(1)] add.commute Let_def)
qed

lemma copied_block:
  assumes "length xs \<le> 3 * 2 ^ 61" "cap \<le> 3 * 2 ^ 61"
  shows "\<exists>b. BufferT_copy octet_size d xs cap = Inr b \<and> buf_ok octet_size b \<and> bcap b = max (length xs) cap \<and> bsize b = length xs \<and> contents b = xs"
proof -
  have "xs = [] \<or> 0 < max (length xs) cap" by (cases xs) auto
  moreover have "max (length xs) cap \<le> 3 * 2 ^ 61" using assms by simp
  moreover obtain c where "c = max (length xs) cap" by blast
  moreover have "length xs \<le> max (length xs) cap" by simp
  ultimately show ?thesis
    unfolding BufferT_copy_def BufferT_sized_def Let_def
    by (simp add: new_array_def PTRDIFF_MAX_def IsConsistent_def write_cells_def buf_ok_def contents_def cells_def
        del: max_less_iff_conj less_max_iff_disj max.bounded_iff) (auto simp: max_def)
qed

lemma SetData_fits:
  assumes "buf_ok octet_size b" "length xs \<le> 2 ^ 62"
  shows "\<exists>b'. SetData octet_size d False z xs b = Inr b' \<and> buf_ok octet_size b' \<and> bcap b \<le> bcap b' \<and> contents b' = xs \<and> bsize b' = length xs"
proof -
  let ?b0 = "b\<lparr>bsize := 0\<rparr>"
  have "resT (appended octet_size False z xs ?b0) (AppendData octet_size d False z xs ?b0)"
    by (rule AppendData_cells [OF shrink_ok(1) [OF assms(1)]]) (use assms(2) in simp_all)
  then show ?thesis
    using shrink_ok(2) [OF assms(1), of 0]
    by (auto simp: resT_iff appended_def SetData_def buf_ok_consistent [OF assms(1)])
qed

section \<open>The operations on values\<close>

definition cow_yields :: "octets list \<Rightarrow> cow res \<Rightarrow> bool" where
  "cow_yields vs r \<longleftrightarrow> resT (\<lambda>t. cow_inv t \<and> cow_values t = vs) r"

text \<open>Every operation that gives buffer \<open>i\<close> a block of its own ends so.\<close>

lemma owned_yields:
  assumes "cow_inv w" "i < length (ptrs w)" "owned w t i p b off n" "buf_ok octet_size b" "0 < bcap b" "off + n \<le> bsize b"
  shows "cow_yields ((cow_values w)[i := take n (drop off (contents b))]) (bindR (cow_check d i t) (\<lambda>_. Inr t))"
  using owned_values [OF assms] cow_check_ok [of t i d] assms(2,3)
  by (simp add: cow_yields_def owned_def)

lemma cow_AppendData_yields:
  assumes "cow_documented L" "cow_inv w" "i < length (ptrs w)"
    and bound: "csize w ! i + length xs \<le> 3 * 2 ^ 61" "0 < cow_cap w i \<or> xs \<noteq> []"
    and data: "bytes_size data = length xs" "read_bytes data w = Inr xs"
      "\<And>t p b off n. owned w t i p b off n \<Longrightarrow> read_bytes data t = Inr xs"
  shows "cow_yields ((cow_values w)[i := cow_value w i @ xs]) (cow_AppendData L d data i w)"
proof (cases "ptrs w ! i")
  case None
  then have "xs \<noteq> []" "csize w ! i = 0" using bound(2) assms(2,3) by (auto simp: cow_cap_def cow_inv_def slice_ok_def)
  moreover obtain b where b: "BufferT_copy octet_size d xs (length xs) = Inr b" "buf_ok octet_size b" "bcap b = length xs" "bsize b = length xs" "contents b = xs"
    using copied_block [of xs "length xs" d] bound(1) by auto
  moreover obtain t p where t: "assign_new i b w = Inr t" "owned w t i p b (coffset w ! i) (csize w ! i)"
    using assign_new_owned [OF assms(2,3), of b] by (auto simp: resT_iff)
  ultimately show ?thesis
    using owned_yields [OF assms(2,3) owned_slice [OF t(2)], of 0 "length xs" d] None
    by (simp add: cow_AppendData_def cow_check_ok [OF assms(2,3)] data cow_value_null Let_def)
next
  case (Some p0)
  let ?n = "csize w ! i + length xs" and ?c = "max (cow_cap w i) (csize w ! i + length xs)"
  have c: "0 < ?c" "?c \<le> 3 * 2 ^ 61" "csize w ! i \<le> ?c"
    using cow_cap_bounds [OF assms(2,3)] bound by (auto simp: less_max_iff_disj)
  obtain t p b off where t: "UnshareAndEnsureCapacity L i ?c w = Inr t" "owned w t i p b off (csize w ! i)" "buf_ok octet_size b"
      "off + csize w ! i \<le> bsize b" "?c \<le> bcap b - off" "take (csize w ! i) (drop off (contents b)) = cow_value w i"
    using Unshare_owned [OF assms(1-3) _ c] Some unfolding resT_iff by blast
  define b1 where "b1 = b\<lparr>bsize := off + csize w ! i\<rparr>"
  have b1: "buf_ok octet_size b1" "contents b1 = take (off + csize w ! i) (contents b)" "bcap b1 = bcap b" "bsize b1 = off + csize w ! i"
    using shrink_ok [OF t(3,4)] by (simp_all add: b1_def)
  have "?n \<le> ?c" by simp
  then have room: "off + ?n \<le> bcap b" "0 < bcap b" using t(5) c(1) by linarith+
  then obtain b2 where b2: "AppendData octet_size d False 0 xs b1 = Inr b2" "buf_ok octet_size b2" "contents b2 = contents b1 @ xs" "bcap b2 = bcap b"
      "bsize b2 = off + ?n"
    using AppendData_fits [OF b1(1), of xs d 0] b1(3,4) by auto
  define u where "u = set_object p b1 t"
  have no_wrap: "size_add (csize w ! i) (length xs) = ?n" "size_add off (csize w ! i) = off + csize w ! i"
    using bound(1) t(3,4) by (auto simp: size_add_def buf_ok_def)
  have fields: "ptrs t ! i = Some p" "coffset t ! i = off" "csize t ! i = csize w ! i" "\<exists>x. heap t p = Some x \<and> obj x = b"
    using t(2) assms(2,3) by (auto simp: owned_def cow_inv_def)
  have "owned w u i p b1 off (csize w ! i)"
    unfolding u_def by (rule owned_object [OF t(2)])
  moreover have "set_object p b2 u = set_object p b2 t" using fields(4) by (auto simp: u_def set_object_def)
  ultimately have own2: "owned w (set_slice i off ?n (set_object p b2 u)) i p b2 off ?n" and read: "read_bytes data u = Inr xs"
    using data(3) owned_update [of w u i p b1 off "csize w ! i"] by blast+
  have "take ?n (drop off (contents b2)) = cow_value w i @ xs"
    using t(4,6) length_cow_value [OF assms(2,3)] length_contents [OF t(3)]
    by (simp add: b2(3) b1(2) drop_take min_absorb2)
  with owned_yields [OF assms(2,3) own2 b2(2)] b2(4,5) room
  have yields: "cow_yields ((cow_values w)[i := cow_value w i @ xs]) (bindR (cow_check d i v) (\<lambda>_. Inr v))"
    if "v = set_slice i off ?n (set_object p b2 u)" for v by (simp add: that)
  obtain x where x: "heap t p = Some x" "obj x = b" using fields(4) by blast
  have "SetSize octet_size d False 0 (size_add off (csize w ! i)) b = Inr b1" using SetSize_shrink [OF t(3,4)] by (simp add: no_wrap b1_def)
  then have "cow_AppendData L d data i w = (let v = set_slice i off ?n (set_object p b2 u) in bindR (cow_check d i v) (\<lambda>_. Inr v))"
    by (simp add: cow_AppendData_def cow_check_ok [OF assms(2,3)] cow_capacity_ok [OF assms(2,3)] Some data(1) no_wrap t(1)
        fields(1-3) deref_def x u_def [symmetric] read b2(1))
  then show ?thesis by (simp add: Let_def yields)
qed

lemma cow_SetData_yields:
  assumes "cow_inv w" "i < length (ptrs w)" "length xs \<le> 2 ^ 62" "0 < cow_cap w i \<or> xs \<noteq> [] \<or> ptrs w ! i = None"
  shows "cow_yields ((cow_values w)[i := xs]) (cow_SetData d xs i w)"
proof -
  have new: "cow_yields ((cow_values w)[i := xs])
      (bindR (bindR (BufferT_copy octet_size d xs cap) (\<lambda>b. assign_new i b w)) (\<lambda>t.
         let t = set_slice i 0 (length xs) t in bindR (cow_check d i t) (\<lambda>_. Inr t)))"
    if c: "cap \<le> 3 * 2 ^ 61" "0 < max (length xs) cap" for cap
  proof -
    obtain b where b: "BufferT_copy octet_size d xs cap = Inr b" "buf_ok octet_size b" "bcap b = max (length xs) cap" "bsize b = length xs" "contents b = xs"
      using copied_block [of xs cap d] c(1) assms(3) by auto
    obtain t p where t: "assign_new i b w = Inr t" "owned w t i p b (coffset w ! i) (csize w ! i)"
      using assign_new_owned [OF assms(1,2), of b] by (auto simp: resT_iff)
    show ?thesis
      using owned_yields [OF assms(1,2) owned_slice [OF t(2)] b(2), of 0 "length xs" d] b c(2) t(1) by (simp add: Let_def)
  qed
  from assms(1,2) show ?thesis
  proof (cases rule: cow_slice_cases)
    case null
    show ?thesis
    proof (cases "xs = []")
      case True
      have same: "(ptrs w)[i := None] = ptrs w" "(coffset w)[i := 0] = coffset w" "(csize w)[i := 0] = csize w"
        by (metis list_update_id null(1)) (metis list_update_id null(2), metis list_update_id null(3))
      have "ptr_assign i None w = Inr w" by (simp add: ptr_assign_def if_ptr_def null(1) same)
      moreover have "set_slice i 0 0 w = w" by (simp add: set_slice_def same)
      ultimately have "cow_SetData d xs i w = Inr w"
        by (simp add: cow_SetData_def cow_check_ok [OF assms(1,2)] null(1) True)
      moreover have "(cow_values w)[i := []] = cow_values w"
        by (metis assms(2) cow_value_null list_update_id nth_cow_values null(1))
      ultimately show ?thesis by (simp add: cow_yields_def True assms(1))
    next
      case False
      with null new [of "length xs"] assms(3) show ?thesis
        by (simp add: cow_SetData_def cow_check_ok [OF assms(1,2)])
    qed
  next
    case (slice p x)
    show ?thesis
    proof (cases "HasOneRef (ref_count x)")
      case True
      obtain b where b: "SetData octet_size d False 0 xs (obj x) = Inr b" "buf_ok octet_size b" "bcap (obj x) \<le> bcap b" "contents b = xs" "bsize b = length xs"
        using SetData_fits [OF slice(3) assms(3), of d 0] by auto
      from one_ref_owned [OF assms(1,2) slice(1,2) True]
      have "owned w (set_slice i 0 (length xs) (set_object p b w)) i p b 0 (length xs)" by (rule owned_update)
      from owned_yields [OF assms(1,2) this b(2), of d] b slice True show ?thesis
        by (simp add: cow_SetData_def cow_check_ok [OF assms(1,2)] deref_def Let_def)
    next
      case False
      have "cow_cap w i \<le> 3 * 2 ^ 61" "0 < max (length xs) (cow_cap w i)"
        using cow_cap_bounds(2) [OF assms(1,2)] assms(4) slice(1) by (auto simp: less_max_iff_disj)
      from new [OF this] False slice show ?thesis
        by (simp add: cow_SetData_def cow_check_ok [OF assms(1,2)] deref_def cow_capacity_ok [OF assms(1,2)])
    qed
  qed
qed

text \<open>Operations that only move pointers around.\<close>

lemma pointers_yield:
  assumes "cow_inv w" "ptrs_become w qs (Inr t)" "length qs < 2 ^ 31 - 1"
    and u: "heap u = heap t" "ptrs u = qs" "fresh u = fresh t" "length (coffset u) = length qs" "length (csize u) = length qs"
    and slices: "\<And>j. j < length qs \<Longrightarrow> slice_ok (qs ! j) (block w (qs ! j)) (coffset u ! j) (csize u ! j) \<and>
      slice_value (block w (qs ! j)) (coffset u ! j) (csize u ! j) = vs ! j"
    and len: "length vs = length qs"
  shows "cow_yields vs (Inr u)"
proof -
  have t: "counts_exact t" "ptrs t = qs" "keeps_objects w t" using assms(2) by (auto simp: ptrs_become_def)
  have "counts_exact u" by (rule counts_exact_cong [OF u(1) _ u(3) t(1)]) (simp add: u(2) t(2))
  moreover have blk: "block u (qs ! j) = block w (qs ! j)" if "j < length qs" for j
  proof -
    have "block u q = block t q" for q by (cases q) (simp_all add: u(1))
    then show ?thesis using kept_blocks [OF t(3,1)] t(2) that nth_mem by metis
  qed
  ultimately have "cow_inv u" using u assms(3) slices by (simp add: cow_inv_def)
  moreover have "cow_values u = vs"
    using slices blk u(2) len by (intro nth_equalityI) (simp_all add: cow_value_def)
  ultimately show ?thesis by (simp add: cow_yields_def)
qed

lemma cow_inv_slice:
  "cow_inv w \<Longrightarrow> j < length (ptrs w) \<Longrightarrow> slice_ok (ptrs w ! j) (block w (ptrs w ! j)) (coffset w ! j) (csize w ! j)"
  by (simp add: cow_inv_def)

lemma slice_null [simp]: "slice_ok None b 0 0" "slice_value None off n = []"
  by (simp_all add: slice_ok_def slice_value_def)

lemma slice_empty: "slice_ok q b off n \<Longrightarrow> slice_ok q b 0 0 \<and> slice_value b 0 0 = []"
  by (auto simp: slice_ok_def slice_value_def split: option.splits if_splits)

lemma became:
  fixes r :: "cow res"
  assumes "ptrs_become w qs r"
  obtains t where "r = Inr t" "ptrs_become w qs (Inr t)" "ptrs t = qs" "coffset t = coffset w" "csize t = csize w"
proof -
  obtain t where t: "r = Inr t" "ptrs t = qs" "keeps_objects w t"
    using assms by (auto simp: ptrs_become_def resT_iff)
  moreover have "coffset t = coffset w \<and> csize t = csize w"
    by (rule kept_fields) (use t(3) in \<open>simp add: keeps_objects_def\<close>)
  ultimately show thesis using that [of t] assms by blast
qed

lemma cow_assign_yields:
  assumes "cow_inv w" "i < length (ptrs w)" "buf < length (ptrs w)"
  shows "cow_yields ((cow_values w)[i := cow_value w buf]) (cow_assign d i buf w)"
proof (cases "buf = i")
  case True
  moreover have "(cow_values w)[i := cow_value w i] = cow_values w"
    using assms(2) by (metis list_update_id nth_cow_values)
  ultimately show ?thesis using assms by (simp add: cow_assign_def cow_check_ok cow_yields_def)
next
  case False
  have lens: "length (coffset w) = length (ptrs w)" "length (csize w) = length (ptrs w)" "length (ptrs w) < 2 ^ 31 - 1" "counts_exact w"
    using assms(1) by (auto simp: cow_inv_def)
  obtain t where
    t: "ptr_assign_ref i buf w = Inr t" "ptrs_become w ((ptrs w)[i := ptrs w ! buf]) (Inr t)"
      "ptrs t = (ptrs w)[i := ptrs w ! buf]" "coffset t = coffset w" "csize t = csize w"
    by (rule became [OF ptr_assign_ref_ok [OF lens(4) assms(2,3) lens(3)]])
  have "cow_yields ((cow_values w)[i := cow_value w buf]) (Inr (set_slice i (coffset w ! buf) (csize w ! buf) t))"
  proof (rule pointers_yield [OF assms(1) t(2)])
    fix j assume j: "j < length ((ptrs w)[i := ptrs w ! buf])"
    show "slice_ok ((ptrs w)[i := ptrs w ! buf] ! j) (block w ((ptrs w)[i := ptrs w ! buf] ! j))
        (coffset (set_slice i (coffset w ! buf) (csize w ! buf) t) ! j) (csize (set_slice i (coffset w ! buf) (csize w ! buf) t) ! j) \<and>
      slice_value (block w ((ptrs w)[i := ptrs w ! buf] ! j))
        (coffset (set_slice i (coffset w ! buf) (csize w ! buf) t) ! j) (csize (set_slice i (coffset w ! buf) (csize w ! buf) t) ! j) =
      (cow_values w)[i := cow_value w buf] ! j"
      using j lens t(4,5) cow_inv_slice [OF assms(1)] assms(2,3) by (cases "j = i") (simp_all add: cow_value_def)
  qed (use lens in \<open>simp_all add: t(3-5)\<close>)
  with False t show ?thesis by (simp add: cow_assign_def cow_check_ok assms)
qed

lemma cow_SetData_buf_eq: "cow_SetData_buf d buf i w = cow_assign d i buf w"
  by (simp add: cow_SetData_buf_def cow_assign_def)

lemma cow_move_assign_yields:
  assumes "cow_inv w" "i < length (ptrs w)" "buf < length (ptrs w)"
  shows "cow_yields ((cow_values w)[i := cow_value w buf, buf := []]) (cow_move_assign d i buf w)"
proof -
  have lens: "length (coffset w) = length (ptrs w)" "length (csize w) = length (ptrs w)" "length (ptrs w) < 2 ^ 31 - 1" "counts_exact w"
    using assms(1) by (auto simp: cow_inv_def)
  define qs where "qs = (ptrs w)[buf := None, i := ptrs w ! buf]"
  obtain t where t: "ptr_move_assign i buf w = Inr t" "ptrs_become w qs (Inr t)" "ptrs t = qs" "coffset t = coffset w" "csize t = csize w"
    unfolding qs_def by (rule became [OF ptr_move_assign_ok [OF lens(4) assms(2,3) lens(3)]])
  define u where "u = set_slice buf 0 0 (set_slice i (coffset w ! buf) (csize w ! buf) t)"
  have "cow_yields ((cow_values w)[i := cow_value w buf, buf := []]) (Inr u)"
  proof (rule pointers_yield [OF assms(1) t(2)])
    fix j assume j: "j < length qs"
    have "j = buf \<and> j \<noteq> i \<Longrightarrow> qs ! j = None \<and> coffset u ! j = 0 \<and> csize u ! j = 0"
      "j \<noteq> buf \<and> j \<noteq> i \<Longrightarrow> qs ! j = ptrs w ! j \<and> coffset u ! j = coffset w ! j \<and> csize u ! j = csize w ! j"
      "j = i \<Longrightarrow> qs ! j = ptrs w ! buf" "j = i \<and> j \<noteq> buf \<Longrightarrow> coffset u ! j = coffset w ! buf \<and> csize u ! j = csize w ! buf"
      "j = i \<and> j = buf \<Longrightarrow> coffset u ! j = 0 \<and> csize u ! j = 0"
      using j lens assms(2,3) t(3-5) by (auto simp: qs_def u_def)
    then show "slice_ok (qs ! j) (block w (qs ! j)) (coffset u ! j) (csize u ! j) \<and>
        slice_value (block w (qs ! j)) (coffset u ! j) (csize u ! j) = (cow_values w)[i := cow_value w buf, buf := []] ! j"
      using j lens assms(2,3) cow_inv_slice [OF assms(1), of j] cow_inv_slice [OF assms(1,3)]
        slice_empty [OF cow_inv_slice [OF assms(1,3)]]
      by (cases "j = buf"; cases "j = i") (simp_all add: qs_def cow_value_def)
  qed (use lens t(3-5) in \<open>simp_all add: u_def qs_def\<close>)
  then show ?thesis by (simp add: cow_move_assign_def cow_check_ok assms t(1,4,5) u_def Let_def)
qed


lemma cow_swap_yields:
  assumes "cow_inv w" "i < length (ptrs w)" "buf < length (ptrs w)"
  shows "cow_yields ((cow_values w)[i := cow_value w buf, buf := cow_value w i]) (Inr (cow_swap i buf w))"
proof -
  have lens: "length (coffset w) = length (ptrs w)" "length (csize w) = length (ptrs w)" "length (ptrs w) < 2 ^ 31 - 1" "counts_exact w"
    using assms(1) by (auto simp: cow_inv_def)
  define qs where "qs = (ptrs w)[i := ptrs w ! buf, buf := ptrs w ! i]"
  obtain t where t: "Inr (ptr_swap i buf w) = (Inr t :: cow res)" "ptrs_become w qs (Inr t)" "ptrs t = qs"
      "coffset t = coffset w" "csize t = csize w"
    unfolding qs_def by (rule became [OF ptr_swap_ok [OF lens(4) assms(2,3)]])
  define v where "v = cow_swap i buf w"
  have v: "heap v = heap t" "ptrs v = qs" "fresh v = fresh t" "coffset v = (coffset w)[i := coffset w ! buf, buf := coffset w ! i]"
    "csize v = (csize w)[i := csize w ! buf, buf := csize w ! i]"
    using t(1,3-5) by (simp_all add: v_def cow_swap_def Let_def)
  show ?thesis unfolding v_def [symmetric]
  proof (rule pointers_yield [OF assms(1) t(2)])
    fix j assume j: "j < length qs"
    have "j \<noteq> i \<and> j \<noteq> buf \<Longrightarrow> qs ! j = ptrs w ! j \<and> coffset v ! j = coffset w ! j \<and> csize v ! j = csize w ! j"
      "j = i \<and> j \<noteq> buf \<Longrightarrow> qs ! j = ptrs w ! buf \<and> coffset v ! j = coffset w ! buf \<and> csize v ! j = csize w ! buf"
      "j = buf \<Longrightarrow> qs ! j = ptrs w ! i \<and> coffset v ! j = coffset w ! i \<and> csize v ! j = csize w ! i"
      using j lens assms(2,3) by (auto simp: qs_def v)
    then show "slice_ok (qs ! j) (block w (qs ! j)) (coffset v ! j) (csize v ! j) \<and>
        slice_value (block w (qs ! j)) (coffset v ! j) (csize v ! j) = (cow_values w)[i := cow_value w buf, buf := cow_value w i] ! j"
      using j lens assms(2,3) cow_inv_slice [OF assms(1), of j] cow_inv_slice [OF assms(1,2)] cow_inv_slice [OF assms(1,3)]
      by (cases "j = buf"; cases "j = i") (simp_all add: qs_def cow_value_def)
  qed (use lens v in \<open>simp_all add: qs_def\<close>)
qed

lemma cow_Slice_yields:
  assumes "cow_documented L" "cow_inv w" "i < length (ptrs w)" "off + n \<le> csize w ! i" "Suc (length (ptrs w)) < 2 ^ 31 - 1"
  shows "cow_yields (cow_values w @ [take n (drop off (cow_value w i))]) (cow_Slice L d off n i w)"
proof -
  have lens: "length (coffset w) = length (ptrs w)" "length (csize w) = length (ptrs w)" "counts_exact w"
    using assms(2) by (auto simp: cow_inv_def)
  define qs where "qs = ptrs w @ [ptrs w ! i]"
  obtain t where t: "ptr_copy i w = Inr t" "ptrs_become w qs (Inr t)" "ptrs t = qs" "coffset t = coffset w" "csize t = csize w"
    unfolding qs_def by (rule became [OF ptr_copy_ok [OF lens(3) assms(3)]])
  define offs where "offs = coffset w @ [coffset w ! i + off]"
  define ns where "ns = csize w @ [n]"
  have "CopyConstruct L i w =
      bindR (ptr_copy i w) (\<lambda>w. Inr (w\<lparr>coffset := coffset w @ [coffset w ! i], csize := csize w @ [csize w ! i]\<rparr>))"
    using assms(1,3) unfolding cow_documented_def by blast
  moreover have "coffset w ! i + csize w ! i \<le> 3 * 2 ^ 61"
    using assms(2,3) by (cases rule: cow_slice_cases) auto
  then have "size_add n off = off + n" "size_add (coffset w ! i) off = coffset w ! i + off"
    using assms(4) by (simp_all add: size_add_def)
  ultimately have u: "cow_Slice L d off n i w = Inr (t\<lparr>coffset := offs, csize := ns\<rparr>)"
    using assms(3,4) lens t(1,3-5)
    by (simp add: cow_Slice_def qs_def Let_def set_slice_def nth_append offs_def ns_def list_update_append)
  have "cow_yields (cow_values w @ [take n (drop off (cow_value w i))]) (Inr (t\<lparr>coffset := offs, csize := ns\<rparr>))"
  proof (rule pointers_yield [OF assms(2) t(2)])
    fix j assume j: "j < length qs"
    have last: "slice_ok (ptrs w ! i) (block w (ptrs w ! i)) (coffset w ! i + off) n \<and>
        slice_value (block w (ptrs w ! i)) (coffset w ! i + off) n = take n (drop off (cow_value w i))"
      using cow_inv_slice [OF assms(2,3)] assms(4)
      by (auto simp: slice_ok_def slice_value_def cow_value_def drop_take min_absorb1 add.commute split: option.splits if_splits)
    from j consider "j < length (ptrs w)" | "j = length (ptrs w)" by (force simp: qs_def less_Suc_eq)
    then show "slice_ok (qs ! j) (block w (qs ! j)) (coffset (t\<lparr>coffset := offs, csize := ns\<rparr>) ! j) (csize (t\<lparr>coffset := offs, csize := ns\<rparr>) ! j) \<and>
        slice_value (block w (qs ! j)) (coffset (t\<lparr>coffset := offs, csize := ns\<rparr>) ! j) (csize (t\<lparr>coffset := offs, csize := ns\<rparr>) ! j) =
        (cow_values w @ [take n (drop off (cow_value w i))]) ! j"
      using lens last cow_inv_slice [OF assms(2)]
      by cases (simp_all add: qs_def offs_def ns_def nth_append cow_value_def)
  qed (use lens assms(5) t(3) in \<open>simp_all add: qs_def offs_def ns_def\<close>)
  with u show ?thesis by simp
qed


text \<open>The destructor releases the pointer; the variable is then an empty buffer.\<close>

definition cow_destroy :: "nat \<Rightarrow> cow \<Rightarrow> cow res" where
  "cow_destroy i w = bindR (ptr_destroy i w) (\<lambda>w. Inr (set_slice i 0 0 w))"

lemma cow_destroy_yields:
  assumes "cow_inv w" "i < length (ptrs w)"
  shows "cow_yields ((cow_values w)[i := []]) (cow_destroy i w)"
proof -
  have lens: "length (coffset w) = length (ptrs w)" "length (csize w) = length (ptrs w)" "length (ptrs w) < 2 ^ 31 - 1" "counts_exact w"
    using assms(1) by (auto simp: cow_inv_def)
  obtain t where t: "ptr_destroy i w = Inr t" "ptrs_become w ((ptrs w)[i := None]) (Inr t)" "ptrs t = (ptrs w)[i := None]"
      "coffset t = coffset w" "csize t = csize w"
    by (rule became [OF ptr_destroy_ok [OF lens(4) assms(2) lens(3)]])
  have "cow_yields ((cow_values w)[i := []]) (Inr (set_slice i 0 0 t))"
  proof (rule pointers_yield [OF assms(1) t(2)])
    fix j assume j: "j < length ((ptrs w)[i := None])"
    then show "slice_ok ((ptrs w)[i := None] ! j) (block w ((ptrs w)[i := None] ! j))
        (coffset (set_slice i 0 0 t) ! j) (csize (set_slice i 0 0 t) ! j) \<and>
      slice_value (block w ((ptrs w)[i := None] ! j)) (coffset (set_slice i 0 0 t) ! j) (csize (set_slice i 0 0 t) ! j) =
      (cow_values w)[i := []] ! j"
      using lens t(4,5) cow_inv_slice [OF assms(1)] assms(2) by (cases "j = i") (simp_all add: cow_value_def)
  qed (use lens in \<open>simp_all add: t(3-5)\<close>)
  with t(1) show ?thesis by (simp add: cow_destroy_def)
qed

text \<open>A write through the pointer that \<open>MutableData\<close> returns.\<close>

definition cow_write :: "cow_lib \<Rightarrow> bool \<Rightarrow> nat \<Rightarrow> 8 word \<Rightarrow> nat \<Rightarrow> cow \<Rightarrow> cow res" where
  "cow_write L d k x i w = bindR (cow_MutableData L d i w) (\<lambda>(a, w). store_byte a k x w)"

lemma update_slice:
  assumes "k < n" "off + n \<le> length xs"
  shows "take n (drop off (xs[off + k := v])) = (take n (drop off xs))[k := v]"
  using assms by (intro nth_equalityI) (auto simp: nth_list_update)

lemma write_cell_ok:
  assumes "buf_ok octet_size b" "k < bsize b"
  shows "\<exists>cs. write_cells (bdata b) k [v] = Inr cs \<and> buf_ok octet_size (b\<lparr>bdata := cs\<rparr>) \<and>
    contents (b\<lparr>bdata := cs\<rparr>) = (contents b)[k := v]"
  using assms(1)
proof (cases rule: buf_ok_cases)
  case 1
  with assms(2) show ?thesis by simp
next
  case (2 cs)
  moreover have "k < length cs" using assms 2 by (simp add: buf_ok_def)
  then have "take k cs @ v # drop (Suc k) cs = cs[k := v]" by (rule upd_conv_take_nth_drop [symmetric])
  ultimately show ?thesis
    using assms by (auto simp: write_cells_def buf_ok_def contents_def cells_def take_update_swap)
qed

lemma cow_write_yields:
  assumes "cow_documented L" "cow_inv w" "i < length (ptrs w)" "k < csize w ! i"
  shows "cow_yields ((cow_values w)[i := (cow_value w i)[k := Some x]]) (cow_write L d k x i w)"
proof -
  have "ptrs w ! i \<noteq> None" using assms(2-4) by (cases rule: cow_slice_cases) auto
  moreover have "0 < cow_cap w i" using cow_cap_bounds(1) [OF assms(2,3)] assms(4) by simp
  ultimately obtain t p b off where t: "UnshareAndEnsureCapacity L i (cow_cap w i) w = Inr t" "owned w t i p b off (csize w ! i)"
      "buf_ok octet_size b" "off + csize w ! i \<le> bsize b" "cow_cap w i \<le> bcap b - off"
      "take (csize w ! i) (drop off (contents b)) = cow_value w i"
    using Unshare_owned [OF assms(1-3) _ _ cow_cap_bounds(2) [OF assms(2,3)] cow_cap_bounds(1) [OF assms(2,3)]]
    unfolding resT_iff by blast
  have "off + k < bsize b" using t(4) assms(4) by simp
  then obtain cs where cs: "write_cells (bdata b) (off + k) [Some x] = Inr cs" "buf_ok octet_size (b\<lparr>bdata := cs\<rparr>)"
      "contents (b\<lparr>bdata := cs\<rparr>) = (contents b)[off + k := Some x]"
    using write_cell_ok [OF t(3)] by blast
  have fields: "ptrs t ! i = Some p" "coffset t ! i = off" "\<exists>z. heap t p = Some z \<and> obj z = b"
    using t(2) assms(2,3) by (auto simp: owned_def cow_inv_def)
  then obtain z where z: "heap t p = Some z" "obj z = b" by blast
  have "take (csize w ! i) (drop off ((contents b)[off + k := Some x])) = (cow_value w i)[k := Some x]"
    using update_slice [OF assms(4), of off "contents b"] t(4,6) length_contents [OF t(3)] by simp
  then have "cow_yields ((cow_values w)[i := (cow_value w i)[k := Some x]]) (Inr (set_object p (b\<lparr>bdata := cs\<rparr>) t))"
    using owned_values [OF assms(2,3) owned_object [OF t(2), of "b\<lparr>bdata := cs\<rparr>"] cs(2)] t(4) \<open>off + k < bsize b\<close> t(3) cs(3)
    by (simp add: cow_yields_def buf_ok_def)
  moreover obtain p0 where "ptrs w ! i = Some p0" using \<open>ptrs w ! i \<noteq> None\<close> by blast
  ultimately show ?thesis
    using fields(1,2) z cs(1) t(1) buf_ok_consistent [OF t(3)]
    by (simp add: cow_write_def cow_MutableData_def cow_check_ok [OF assms(2,3)] cow_capacity_ok [OF assms(2,3)] deref_def store_byte_def)
qed

lemma cow_AppendData_buf_yields:
  assumes "cow_documented L" "cow_inv w" "i < length (ptrs w)" "buf < length (ptrs w)" "buf \<noteq> i"
    and bound: "csize w ! i + csize w ! buf \<le> 3 * 2 ^ 61" "0 < cow_cap w i \<or> 0 < csize w ! buf"
  shows "cow_yields ((cow_values w)[i := cow_value w i @ cow_value w buf]) (cow_AppendData_buf L d buf i w)"
proof -
  define a where "a = map_option (\<lambda>p. (p, coffset w ! buf)) (ptrs w ! buf)"
  have read: "read_bytes (Into a (csize w ! buf)) t = Inr (cow_value w buf)" if "block t (ptrs w ! buf) = block w (ptrs w ! buf)" for t
    using assms(2,4)
  proof (cases rule: cow_slice_cases)
    case (slice p x)
    with that obtain y where "heap t p = Some y" "obj y = obj x" by auto
    with slice read_cells_ok [of t p y "coffset w ! buf" "csize w ! buf"] show ?thesis
      by (simp add: a_def cow_value_def slice_value_def)
  qed (simp add: a_def cow_value_null read_cells_def)
  have len: "length (cow_value w buf) = csize w ! buf" by (rule length_cow_value [OF assms(2,4)])
  have "cow_yields ((cow_values w)[i := cow_value w i @ cow_value w buf]) (cow_AppendData L d (Into a (csize w ! buf)) i w)"
  proof (rule cow_AppendData_yields [OF assms(1-3)])
    show "read_bytes (Into a (csize w ! buf)) t = Inr (cow_value w buf)" if "owned w t i p b off n" for t p b off n
      using that assms(4,5) by (intro read) (simp add: owned_def)
  qed (use bound len read [OF refl] in auto)
  then show ?thesis
    by (simp add: cow_AppendData_buf_def cow_cdata_ok [OF assms(2,4)] cow_size_def cow_check_ok [OF assms(2,4)] a_def)
qed

end
