(* ===== verification/Cow_Programs.thy ===== *)
theory Cow_Programs
  imports Cow_Props
begin

text \<open>
  Programs of copy-on-write buffers refine programs of independent byte sequences; what goes wrong
  outside the caller's duties: a buffer appended to itself, a slice whose end wraps around.
\<close>

section \<open>Programs of buffers\<close>

datatype cow_op =
    Assign nat nat | SetFrom nat nat | MoveFrom nat nat | SwapWith nat nat | SetBytes nat octets | AppendBytes nat octets
  | AppendFrom nat nat | WriteByte nat nat "8 word" | TakeSlice nat nat nat | Destroy nat

fun cow_step :: "cow_lib \<Rightarrow> bool \<Rightarrow> cow_op \<Rightarrow> cow \<Rightarrow> cow res" where
  "cow_step L d (Assign i j) w = cow_assign d i j w"
| "cow_step L d (SetFrom i j) w = cow_SetData_buf d j i w"
| "cow_step L d (MoveFrom i j) w = cow_move_assign d i j w"
| "cow_step L d (SwapWith i j) w = Inr (cow_swap i j w)"
| "cow_step L d (SetBytes i xs) w = cow_SetData d xs i w"
| "cow_step L d (AppendBytes i xs) w = cow_AppendData L d (Own xs) i w"
| "cow_step L d (AppendFrom i j) w = cow_AppendData_buf L d j i w"
| "cow_step L d (WriteByte i k x) w = cow_write L d k x i w"
| "cow_step L d (TakeSlice i off n) w = cow_Slice L d off n i w"
| "cow_step L d (Destroy i) w = cow_destroy i w"

text \<open>The same operations on independent byte sequences.\<close>

fun value_step :: "cow_op \<Rightarrow> octets list \<Rightarrow> octets list" where
  "value_step (Assign i j) vs = vs[i := vs ! j]"
| "value_step (SetFrom i j) vs = vs[i := vs ! j]"
| "value_step (MoveFrom i j) vs = vs[i := vs ! j, j := []]"
| "value_step (SwapWith i j) vs = vs[i := vs ! j, j := vs ! i]"
| "value_step (SetBytes i xs) vs = vs[i := xs]"
| "value_step (AppendBytes i xs) vs = vs[i := vs ! i @ xs]"
| "value_step (AppendFrom i j) vs = vs[i := vs ! i @ vs ! j]"
| "value_step (WriteByte i k x) vs = vs[i := (vs ! i)[k := Some x]]"
| "value_step (TakeSlice i off n) vs = vs @ [take n (drop off (vs ! i))]"
| "value_step (Destroy i) vs = vs[i := []]"

text \<open>
  What a caller owes: existing buffers, indices inside them, sizes for which memory can be had,
  no block without capacity, and not appending a buffer to itself.
\<close>

fun legal :: "cow_op \<Rightarrow> cow \<Rightarrow> bool" where
  "legal (Assign i j) w \<longleftrightarrow> i < length (ptrs w) \<and> j < length (ptrs w)"
| "legal (SetFrom i j) w \<longleftrightarrow> i < length (ptrs w) \<and> j < length (ptrs w)"
| "legal (MoveFrom i j) w \<longleftrightarrow> i < length (ptrs w) \<and> j < length (ptrs w)"
| "legal (SwapWith i j) w \<longleftrightarrow> i < length (ptrs w) \<and> j < length (ptrs w)"
| "legal (SetBytes i xs) w \<longleftrightarrow> i < length (ptrs w) \<and> length xs \<le> 2 ^ 62 \<and>
     (0 < cow_cap w i \<or> xs \<noteq> [] \<or> ptrs w ! i = None)"
| "legal (AppendBytes i xs) w \<longleftrightarrow> i < length (ptrs w) \<and> csize w ! i + length xs \<le> 3 * 2 ^ 61 \<and> (0 < cow_cap w i \<or> xs \<noteq> [])"
| "legal (AppendFrom i j) w \<longleftrightarrow> i < length (ptrs w) \<and> j < length (ptrs w) \<and> j \<noteq> i \<and>
     csize w ! i + csize w ! j \<le> 3 * 2 ^ 61 \<and> (0 < cow_cap w i \<or> 0 < csize w ! j)"
| "legal (WriteByte i k x) w \<longleftrightarrow> i < length (ptrs w) \<and> k < csize w ! i"
| "legal (TakeSlice i off n) w \<longleftrightarrow> i < length (ptrs w) \<and> off + n \<le> csize w ! i \<and> Suc (length (ptrs w)) < 2 ^ 31 - 1"
| "legal (Destroy i) w \<longleftrightarrow> i < length (ptrs w)"

lemma cow_step_yields:
  assumes "cow_documented L" "cow_inv w" "legal op w"
  shows "cow_yields (value_step op (cow_values w)) (cow_step L d op w)"
proof (cases op)
  case (AppendBytes i xs)
  with assms cow_AppendData_yields [of L w i xs "Own xs" d] show ?thesis by simp
qed (use assms in \<open>simp_all add: cow_assign_yields cow_SetData_buf_eq cow_move_assign_yields cow_swap_yields cow_SetData_yields
      cow_AppendData_buf_yields cow_write_yields cow_Slice_yields cow_destroy_yields\<close>)

definition cow_start :: "nat \<Rightarrow> cow" where
  "cow_start n = \<lparr>heap = (\<lambda>_. None), fresh = 0, ptrs = replicate n None, coffset = replicate n 0, csize = replicate n 0\<rparr>"

text \<open>The states a program reaches, with the values its buffers should have.\<close>

inductive cow_reach :: "cow_lib \<Rightarrow> bool \<Rightarrow> cow \<Rightarrow> octets list \<Rightarrow> bool" for L d where
  cow_begins: "n < 2 ^ 31 - 1 \<Longrightarrow> cow_reach L d (cow_start n) (replicate n [])"
| cow_steps: "cow_reach L d w vs \<Longrightarrow> legal op w \<Longrightarrow> cow_step L d op w = Inr t \<Longrightarrow> cow_reach L d t (value_step op vs)"

lemma cow_start_ok:
  assumes "n < 2 ^ 31 - 1"
  shows "cow_inv (cow_start n)" "cow_values (cow_start n) = replicate n []"
proof -
  have "count_list (replicate n None) (Some p) = 0" for p :: nat by (induction n) auto
  then have "counts_exact (cow_start n)"
    by (simp add: cow_start_def counts_exact_def balanced_def total_refs_def)
  with assms show "cow_inv (cow_start n)" by (simp add: cow_inv_def cow_start_def)
  show "cow_values (cow_start n) = replicate n []"
    by (intro nth_equalityI) (simp_all add: cow_value_null cow_start_def)
qed

lemma cow_reach_values:
  assumes "cow_documented L" "cow_reach L d w vs"
  shows "cow_inv w \<and> cow_values w = vs"
  using assms(2)
proof induction
  case (cow_begins n)
  then show ?case by (simp add: cow_start_ok)
next
  case (cow_steps w vs op t)
  with cow_step_yields [OF assms(1), of w op d] show ?case by (simp add: cow_yields_def)
qed

text \<open>
  C38. Copy-on-write buffers have value semantics: in every state a program reaches, each buffer
  holds the bytes it would hold if the buffers shared nothing, the next operation the caller may
  make returns, and no block is leaked: each is referenced by a buffer.
\<close>

theorem cow_value_semantics:
  assumes "cow_documented L" "cow_reach L d w vs" "legal op w"
  shows "cow_values w = vs \<and> (\<exists>t. cow_step L d op w = Inr t \<and> cow_values t = value_step op vs) \<and>
    (\<forall>p. heap w p \<noteq> None \<longrightarrow> Some p \<in> set (ptrs w))"
proof -
  from cow_reach_values [OF assms(1,2)] have w: "cow_inv w" "cow_values w = vs" by auto
  have "Some p \<in> set (ptrs w)" if "heap w p \<noteq> None" for p
    using balanced_cell [of None "\<lambda>_. 0" w p] w(1) that count_list_0_iff [of "ptrs w" "Some p"]
    by (cases "heap w p") (auto simp: cow_inv_def counts_exact_def total_refs_def)
  with cow_step_yields [OF assms(1) w(1) assms(3), of d] w(2) show ?thesis
    by (auto simp: cow_yields_def resT_iff)
qed

text \<open>A library as the header documents it, for running examples.\<close>

definition sample_lib :: cow_lib where
  "sample_lib = \<lparr>
     CopyConstruct = (\<lambda>i w. bindR (ptr_copy i w) (\<lambda>w.
       Inr (w\<lparr>coffset := coffset w @ [coffset w ! i], csize := csize w @ [csize w ! i]\<rparr>))),
     UnshareAndEnsureCapacity = (\<lambda>i c w.
       case block w (ptrs w ! i) of
         None \<Rightarrow> Inr w
       | Some b \<Rightarrow>
           if HasOneRef (ref_count (the (heap w (the (ptrs w ! i))))) \<and> c \<le> bcap b - coffset w ! i then Inr w
           else bindR (BufferT_copy octet_size False (cow_value w i) c) (\<lambda>b.
                bindR (assign_new i b w) (\<lambda>t. Inr (set_slice i 0 (csize w ! i) t))))\<rparr>"

lemma sample_lib_documented: "cow_documented sample_lib"
  unfolding cow_documented_def
proof (intro conjI allI impI)
  fix i c p x and w :: cow
  assume a: "i < length (ptrs w)" "ptrs w ! i = Some p" "heap w p = Some x" "buf_ok octet_size (obj x)"
    "coffset w ! i + csize w ! i \<le> bsize (obj x)" "0 < c" "c \<le> 3 * 2 ^ 61" "csize w ! i \<le> c"
  have len: "length (cow_value w i) = csize w ! i"
    using a by (simp add: cow_value_def slice_value_def length_contents)
  then obtain b where "BufferT_copy octet_size False (cow_value w i) c = Inr b" "buf_ok octet_size b" "bcap b = c" "bsize b = csize w ! i"
      "contents b = cow_value w i"
    using copied_block [of "cow_value w i" c False] a(7,8) by (auto simp: max_absorb2)
  with a len show "if HasOneRef (ref_count x) \<and> c \<le> bcap (obj x) - coffset w ! i then UnshareAndEnsureCapacity sample_lib i c w = Inr w
      else \<exists>b off. buf_ok octet_size b \<and> off + csize w ! i \<le> bsize b \<and> c \<le> bcap b - off \<and>
        take (csize w ! i) (drop off (contents b)) = cow_value w i \<and>
        UnshareAndEnsureCapacity sample_lib i c w = bindR (assign_new i b w) (\<lambda>t. Inr (set_slice i off (csize w ! i) t))"
    by (auto simp: sample_lib_def intro!: exI [of _ b] exI [of _ "0 :: nat"])
qed (simp add: sample_lib_def)

theorem cow_value_semantics_witness:
  "\<exists>t u v. cow_step sample_lib True (AppendBytes 0 [Some 1, Some 2]) (cow_start 2) = Inr t \<and>
     cow_step sample_lib True (Assign 1 0) t = Inr u \<and> cow_step sample_lib True (WriteByte 1 0 9) u = Inr v \<and>
     cow_values u = [[Some 1, Some 2], [Some 1, Some 2]] \<and> cow_values v = [[Some 1, Some 2], [Some 9, Some 2]]"
proof -
  note sem = cow_value_semantics [OF sample_lib_documented, of True]
  have start: "cow_reach sample_lib True (cow_start 2) [[], []]"
  proof -
    have "replicate 2 [] = [[], [] :: octets]" by (simp add: numeral_2_eq_2)
    with cow_begins [of 2 sample_lib True] show ?thesis by simp
  qed
  have "legal (AppendBytes 0 [Some 1, Some 2]) (cow_start 2)" by (simp add: cow_start_def)
  from sem [OF start this] cow_steps [OF start this] obtain t where
    t: "cow_step sample_lib True (AppendBytes 0 [Some 1, Some 2]) (cow_start 2) = Inr t" "cow_values t = [[Some 1, Some 2], []]"
      "cow_reach sample_lib True t [[Some 1, Some 2], []]" by auto
  have "length (ptrs t) = 2" using t(2) length_cow_values [of t] by simp
  then have "legal (Assign 1 0) t" by simp
  from sem [OF t(3) this] cow_steps [OF t(3) this] obtain u where
    u: "cow_step sample_lib True (Assign 1 0) t = Inr u" "cow_values u = [[Some 1, Some 2], [Some 1, Some 2]]"
      "cow_reach sample_lib True u [[Some 1, Some 2], [Some 1, Some 2]]" by auto
  have two: "1 < length (ptrs u)" using u(2) length_cow_values [of u] by simp
  then have "cow_value u 1 = [Some 1, Some 2]" using u(2) nth_cow_values [of 1 u] by simp
  then have "csize u ! 1 = 2"
    using length_cow_value [OF _ two] cow_reach_values [OF sample_lib_documented u(3)] by simp
  then have "legal (WriteByte 1 0 9) u" using two by simp
  from sem [OF u(3) this] obtain v where
    "cow_step sample_lib True (WriteByte 1 0 9) u = Inr v" "cow_values v = [[Some 1, Some 2], [Some 9, Some 2]]" by auto
  with t(1) u(1,2) show ?thesis by blast
qed


section \<open>Hazards\<close>

text \<open>
  \<open>b.AppendData(b)\<close> on a buffer that shares its block with no other and has no room for twice its
  size: making room frees the block that the data pointer points into.
\<close>

theorem self_append_faults:
  assumes "cow_documented L" "cow_inv w" "i < length (ptrs w)"
    "count_list (ptrs w) (ptrs w ! i) = 1" "cow_cap w i < 2 * csize w ! i" "2 * csize w ! i \<le> 3 * 2 ^ 61"
  shows "cow_AppendData_buf L d i i w = Inl Bad_memory"
  using assms(2,3)
proof (cases rule: cow_slice_cases)
  case null
  with assms(5) show ?thesis by simp
next
  case (slice p x)
  have c: "max (cow_cap w i) (2 * csize w ! i) = 2 * csize w ! i" using assms(5) by simp
  have "\<not> 2 * csize w ! i \<le> bcap (obj x) - coffset w ! i" using assms(5) slice(1,2) by (simp add: cow_cap_def)
  with assms(1) [unfolded cow_documented_def, THEN conjunct2, rule_format, OF assms(3) slice(1,2,3,5), of "2 * csize w ! i"] assms(5,6)
  obtain b off where b: "buf_ok octet_size b" "off + csize w ! i \<le> bsize b"
    "UnshareAndEnsureCapacity L i (2 * csize w ! i) w = bindR (assign_new i b w) (\<lambda>t. Inr (set_slice i off (csize w ! i) t))"
    by auto
  obtain t q where t: "assign_new i b w = Inr t" "owned w t i q b (coffset w ! i) (csize w ! i)" "Some q \<notin> set (ptrs w)"
    using assign_new_owned [OF assms(2,3), of b] by (auto simp: resT_iff)
  have pq: "p \<noteq> q" using t(3) slice(1) assms(3) nth_mem by metis
  have gone: "heap t p = None"
  proof -
    have "ptrs t ! j \<noteq> Some p" if "j < length (ptrs t)" for j
      using that t(2) pq count_list_one [OF assms(4,3) refl, of j] slice(1) by (cases "j = i") (auto simp: owned_def)
    then have "count_list (ptrs t) (Some p) = 0" by (simp add: count_list_0_iff in_set_conv_nth)
    moreover have "counts_exact t" using t(2) by (simp add: owned_def)
    ultimately show ?thesis
      using balanced_cell [of None "\<lambda>_. 0" t p] by (cases "heap t p") (auto simp: counts_exact_def total_refs_def)
  qed
  define u where "u = set_slice i off (csize w ! i) t"
  obtain z where z: "heap u q = Some z" "obj z = b" "ptrs u ! i = Some q" "coffset u ! i = off" "csize u ! i = csize w ! i"
    "heap u p = None" using t(2) assms(2,3) gone by (auto simp: u_def owned_def cow_inv_def)
  have no_wrap: "size_add (csize w ! i) (csize w ! i) = 2 * csize w ! i" "size_add off (csize w ! i) = off + csize w ! i"
    using assms(6) b(1,2) by (auto simp: size_add_def buf_ok_def)
  have "read_cells (Some (p, coffset w ! i)) (csize w ! i) (set_object q (b\<lparr>bsize := off + csize w ! i\<rparr>) u) = Inl Bad_memory"
    using z(1,6) pq assms(5) by (auto simp: read_cells_def deref_def set_object_def)
  moreover have "UnshareAndEnsureCapacity L i (2 * csize w ! i) w = Inr u" by (simp add: b(3) t(1) u_def)
  ultimately show ?thesis
    using slice(1) by (simp add: cow_AppendData_buf_def cow_cdata_ok [OF assms(2,3)] cow_size_def cow_check_ok [OF assms(2,3)]
        cow_AppendData_def cow_capacity_ok [OF assms(2,3)] no_wrap c z deref_def SetSize_shrink [OF b(1,2)])
qed

text \<open>
  The sums in \<open>Slice\<close> and \<open>IsConsistent\<close> wrap: a slice of almost \<open>2\<^sup>64\<close> bytes passes every check.
\<close>

theorem slice_wraps:
  assumes "cow_documented L" "cow_inv w" "i < length (ptrs w)" "0 < off" "off \<le> csize w ! i"
  shows "\<exists>t. cow_Slice L True off (2 ^ 64 - off) i w = Inr t \<and> csize t ! length (ptrs w) = 2 ^ 64 - off \<and>
    cow_check True (length (ptrs w)) t = Inr ()"
  using assms(2,3)
proof (cases rule: cow_slice_cases)
  case null
  with assms(4,5) show ?thesis by simp
next
  case (slice p x)
  have lens: "length (coffset w) = length (ptrs w)" "length (csize w) = length (ptrs w)" "counts_exact w"
    using assms(2) by (auto simp: cow_inv_def)
  obtain t where t: "ptr_copy i w = Inr t" "ptrs_become w (ptrs w @ [ptrs w ! i]) (Inr t)" "ptrs t = ptrs w @ [ptrs w ! i]"
    "coffset t = coffset w" "csize t = csize w"
    by (rule became [OF ptr_copy_ok [OF lens(3) assms(3)]])
  then have "block t (Some p) = block w (Some p)"
    using kept_blocks [of w t "Some p"] slice(1) by (auto simp: ptrs_become_def)
  then obtain y where y: "heap t p = Some y" "obj y = obj x" using slice(2) by auto
  have "CopyConstruct L i w =
      bindR (ptr_copy i w) (\<lambda>w. Inr (w\<lparr>coffset := coffset w @ [coffset w ! i], csize := csize w @ [csize w ! i]\<rparr>))"
    using assms(1,3) unfolding cow_documented_def by blast
  moreover have small: "coffset w ! i + off \<le> 3 * 2 ^ 61" using slice assms(5) by simp
  have "size_add (2 ^ 64 - off) off = 0" "size_add (coffset w ! i) off = coffset w ! i + off"
    "size_add (coffset w ! i + off) (2 ^ 64 - off) = coffset w ! i"
    using small assms(4) by (auto simp: size_add_def)
  ultimately show ?thesis
    using assms(3,5) lens t(1,3-5) slice y buf_ok_consistent [OF slice(3)]
    by (simp add: cow_Slice_def Let_def set_slice_def nth_append list_update_append cow_check_def cow_IsConsistent_def
        deref_def buffer_capacity_def buffer_size_def)
qed

text \<open>Appending nothing to an empty buffer makes a block without capacity, which the checks refuse.\<close>

theorem append_nothing_fails:
  assumes "cow_inv w" "i < length (ptrs w)" "ptrs w ! i = None"
  shows "cow_AppendData L True (Own []) i w = Inl Check_failed"
proof -
  obtain b :: "8 word buffer" where b: "BufferT_copy octet_size True [] (length ([] :: octets)) = Inr b" "buf_ok octet_size b" "bcap b = 0"
    using copied_block [of "[] :: octets" 0 True] by auto
  obtain t q where t: "assign_new i b w = Inr t" "owned w t i q b (coffset w ! i) (csize w ! i)"
    using assign_new_owned [OF assms(1,2), of b] by (auto simp: resT_iff)
  then obtain z where "heap t q = Some z" "obj z = b" "ptrs t ! i = Some q" by (auto simp: owned_def)
  then have "cow_check True i (set_slice i 0 0 t) = Inl Check_failed"
    using b(2,3) buf_ok_consistent [OF b(2)]
    by (simp add: cow_check_def cow_IsConsistent_def deref_def buffer_capacity_def buffer_size_def dcheck_def)
  with b(1) t(1) assms(3) show ?thesis
    by (simp add: cow_AppendData_def cow_check_ok [OF assms(1,2)] Let_def)
qed

end
