(* ===== verification/Safe_Num.thy ===== *)
theory Safe_Num
  imports Prelude
begin

text \<open>
  Comparing, choosing between and converting integers of different types:
  rtc_base/numerics/safe_compare.h, safe_minmax.h, safe_conversions.h and
  safe_conversions_impl.h, for the integer types.  A template argument is a value of \<open>int_type\<close>,
  an integer is an \<open>int\<close> in the range of its type, and what the templates compute when they are
  instantiated is computed here by functions on types; a \<open>static_assert\<close> that fails is \<open>None\<close>.
  \<open>word_size\<close> is \<open>sizeof(int*)\<close>.
\<close>

section \<open>The integers of C++\<close>

datatype int_type = Int8 | Int16 | Int32 | Int64 | UInt8 | UInt16 | UInt32 | UInt64

fun type_bytes :: "int_type \<Rightarrow> nat" where
  "type_bytes Int8 = 1" | "type_bytes Int16 = 2" | "type_bytes Int32 = 4" | "type_bytes Int64 = 8"
| "type_bytes UInt8 = 1" | "type_bytes UInt16 = 2" | "type_bytes UInt32 = 4" | "type_bytes UInt64 = 8"

fun type_signed :: "int_type \<Rightarrow> bool" where
  "type_signed Int8 = True" | "type_signed Int16 = True" | "type_signed Int32 = True" | "type_signed Int64 = True"
| "type_signed UInt8 = False" | "type_signed UInt16 = False" | "type_signed UInt32 = False" | "type_signed UInt64 = False"

definition type_lowest :: "int_type \<Rightarrow> int" where
  "type_lowest T = (if type_signed T then - (2 ^ (8 * type_bytes T - 1)) else 0)"

definition type_max :: "int_type \<Rightarrow> int" where
  "type_max T = (if type_signed T then 2 ^ (8 * type_bytes T - 1) - 1 else 2 ^ (8 * type_bytes T) - 1)"

definition in_type :: "int_type \<Rightarrow> int \<Rightarrow> bool" where
  "in_type T a \<longleftrightarrow> type_lowest T \<le> a \<and> a \<le> type_max T"

text \<open>\<open>static_cast\<close> between integers: the value of the target type that is equal modulo its width.\<close>

definition static_cast :: "int_type \<Rightarrow> int \<Rightarrow> int" where
  "static_cast T a = (a - type_lowest T) mod 2 ^ (8 * type_bytes T) + type_lowest T"

text \<open>Integral promotion, and the type both operands of a built-in comparison are converted to.\<close>

definition promoted :: "int_type \<Rightarrow> int_type" where
  "promoted T = (if type_bytes T < 4 then Int32 else T)"

fun make_unsigned :: "int_type \<Rightarrow> int_type" where
  "make_unsigned Int8 = UInt8" | "make_unsigned Int16 = UInt16" | "make_unsigned Int32 = UInt32" | "make_unsigned Int64 = UInt64"
| "make_unsigned T = T"

definition common_type :: "int_type \<Rightarrow> int_type \<Rightarrow> int_type" where
  "common_type T1 T2 =
     (let A = promoted T1; B = promoted T2 in
      if type_signed A = type_signed B then (if type_bytes A \<ge> type_bytes B then A else B)
      else
        let (U, S) = (if type_signed A then (B, A) else (A, B))
        in if type_bytes U \<ge> type_bytes S then U else S)"

datatype cmp_op = EqOp | NeOp | LtOp | LeOp | GtOp | GeOp

fun int_cmp :: "cmp_op \<Rightarrow> int \<Rightarrow> int \<Rightarrow> bool" where
  "int_cmp EqOp a b = (a = b)" | "int_cmp NeOp a b = (a \<noteq> b)" | "int_cmp LtOp a b = (a < b)"
| "int_cmp LeOp a b = (a \<le> b)" | "int_cmp GtOp a b = (a > b)" | "int_cmp GeOp a b = (a \<ge> b)"

text \<open>\<open>a op b\<close> as the language defines it.\<close>

definition cmp_Op :: "cmp_op \<Rightarrow> int_type \<Rightarrow> int \<Rightarrow> int_type \<Rightarrow> int \<Rightarrow> bool" where
  "cmp_Op op T1 a T2 b = (let C = common_type T1 T2 in int_cmp op (static_cast C a) (static_cast C b))"

section \<open>Safe comparison\<close>

fun LargerIntImpl :: "nat \<Rightarrow> int_type option" where
  "LargerIntImpl n = (if n = 1 then Some Int16 else if n = 2 then Some Int32 else if n = 4 then Some Int64 else None)"

definition LargerInt :: "nat \<Rightarrow> int_type \<Rightarrow> int_type \<Rightarrow> int_type option" where
  "LargerInt word_size T1 T2 =
     LargerIntImpl (if type_bytes T1 < type_bytes T2 \<or> type_bytes T1 < word_size then type_bytes T1 else 0)"

definition MakeUnsigned :: "int_type \<Rightarrow> int \<Rightarrow> int" where
  "MakeUnsigned T a = static_cast (make_unsigned T) a"

definition Cmp :: "nat \<Rightarrow> cmp_op \<Rightarrow> int_type \<Rightarrow> int \<Rightarrow> int_type \<Rightarrow> int \<Rightarrow> bool" where
  "Cmp word_size op T1 a T2 b =
     (if type_signed T1 = type_signed T2 then cmp_Op op T1 a T2 b
      else if type_signed T1 then
        (case LargerInt word_size T2 T1 of
           Some L \<Rightarrow> cmp_Op op T1 a L (static_cast L b)
         | None \<Rightarrow> if a < 0 then cmp_Op op Int32 (- 1) Int32 0
                   else cmp_Op op (make_unsigned T1) (MakeUnsigned T1 a) T2 b)
      else
        (case LargerInt word_size T1 T2 of
           Some L \<Rightarrow> cmp_Op op L (static_cast L a) T2 b
         | None \<Rightarrow> if b < 0 then cmp_Op op Int32 0 Int32 (- 1)
                   else cmp_Op op T1 a (make_unsigned T2) (MakeUnsigned T2 b)))"

text \<open>\<open>SafeEq\<close> to \<open>SafeGe\<close>; the unary plus promotes.\<close>

definition SafeCmp :: "nat \<Rightarrow> cmp_op \<Rightarrow> int_type \<Rightarrow> int \<Rightarrow> int_type \<Rightarrow> int \<Rightarrow> bool" where
  "SafeCmp word_size op T1 a T2 b =
     Cmp word_size op (promoted T1) (static_cast (promoted T1) a) (promoted T2) (static_cast (promoted T2) b)"

section \<open>Minimum, maximum and clamping\<close>

definition min_t :: "nat \<Rightarrow> int_type \<Rightarrow> int_type \<Rightarrow> int_type" where
  "min_t ws T1 T2 =
     (if SafeCmp ws LtOp T1 (type_lowest T1) T2 (type_lowest T2) then T1
      else if SafeCmp ws GtOp T1 (type_lowest T1) T2 (type_lowest T2) then T2
      else if SafeCmp ws LeOp T1 (type_max T1) T2 (type_max T2) then T1
      else T2)"

definition max_t :: "nat \<Rightarrow> int_type \<Rightarrow> int_type \<Rightarrow> int_type option" where
  "max_t ws T1 T2 =
     (if SafeCmp ws NeOp T1 (type_max T1) T2 (type_max T2) \<or> SafeCmp ws EqOp T1 (type_lowest T1) T2 (type_lowest T2)
      then Some (if SafeCmp ws GeOp T1 (type_max T1) T2 (type_max T2) then T1 else T2)
      else None)"

text \<open>The type asked for, \<open>None\<close> being \<open>DefaultType\<close>, must hold every value of the type \<open>B\<close>.\<close>

definition TypeOr :: "nat \<Rightarrow> int_type option \<Rightarrow> int_type \<Rightarrow> int_type option" where
  "TypeOr ws R B =
     (let A = (case R of None \<Rightarrow> B | Some A \<Rightarrow> A)
      in if SafeCmp ws LeOp A (type_lowest A) B (type_lowest B) \<and> SafeCmp ws GeOp A (type_max A) B (type_max B)
         then Some A else None)"

definition SafeMin :: "nat \<Rightarrow> int_type option \<Rightarrow> int_type \<Rightarrow> int \<Rightarrow> int_type \<Rightarrow> int \<Rightarrow> (int_type \<times> int) option" where
  "SafeMin ws R T1 a T2 b =
     (case TypeOr ws R (min_t ws T1 T2) of
        None \<Rightarrow> None
      | Some R2 \<Rightarrow> Some (R2, if SafeCmp ws LtOp T1 a T2 b then static_cast R2 a else static_cast R2 b))"

definition SafeMax :: "nat \<Rightarrow> int_type option \<Rightarrow> int_type \<Rightarrow> int \<Rightarrow> int_type \<Rightarrow> int \<Rightarrow> (int_type \<times> int) option" where
  "SafeMax ws R T1 a T2 b =
     (case max_t ws T1 T2 of
        None \<Rightarrow> None
      | Some M \<Rightarrow>
          (case TypeOr ws R M of
             None \<Rightarrow> None
           | Some R2 \<Rightarrow> Some (R2, if SafeCmp ws GtOp T1 a T2 b then static_cast R2 a else static_cast R2 b)))"

definition clamp_r_min :: "nat \<Rightarrow> int_type \<Rightarrow> int_type \<Rightarrow> int_type \<Rightarrow> (int_type \<times> int) option" where
  "clamp_r_min ws T L H =
     (case SafeMin ws None H (type_lowest H) T (type_lowest T) of
        None \<Rightarrow> None
      | Some (M, m) \<Rightarrow> SafeMax ws None L (type_lowest L) M m)"

definition clamp_r_max :: "nat \<Rightarrow> int_type \<Rightarrow> int_type \<Rightarrow> int_type \<Rightarrow> (int_type \<times> int) option" where
  "clamp_r_max ws T L H =
     (case SafeMax ws None L (type_max L) T (type_max T) of
        None \<Rightarrow> None
      | Some (M, m) \<Rightarrow> SafeMin ws None H (type_max H) M m)"

definition AcceptableType ::
    "nat \<Rightarrow> int_type \<Rightarrow> int_type \<Rightarrow> int_type \<Rightarrow> int_type \<times> int \<Rightarrow> int_type \<times> int \<Rightarrow> int_type \<Rightarrow> bool" where
  "AcceptableType ws T L H r_min r_max A \<longleftrightarrow>
     (type_bytes A \<le> type_bytes L \<or> type_bytes A \<le> type_bytes H \<or> type_bytes A \<le> type_bytes T) \<and>
     SafeCmp ws LeOp A (type_lowest A) (fst r_min) (snd r_min) \<and> SafeCmp ws LeOp (fst r_max) (snd r_max) A (type_max A)"

definition ClampType :: "nat \<Rightarrow> int_type \<Rightarrow> int_type \<Rightarrow> int_type \<Rightarrow> int_type option" where
  "ClampType ws T L H =
     (case (clamp_r_min ws T L H, clamp_r_max ws T L H) of
        (Some r_min, Some r_max) \<Rightarrow>
          let ok = AcceptableType ws T L H r_min r_max;
              best_signed = (if ok Int8 then Int8 else if ok Int16 then Int16 else if ok Int32 then Int32 else Int64);
              best_unsigned = (if ok UInt8 then UInt8 else if ok UInt16 then UInt16 else if ok UInt32 then UInt32 else UInt64);
              A = (if type_signed T then (if ok best_signed then best_signed else best_unsigned)
                   else (if ok best_unsigned then best_unsigned else best_signed))
          in if ok A then Some A else None
      | _ \<Rightarrow> None)"

text \<open>\<open>RTC_DCHECK_LE\<close> compares with \<open>SafeLe\<close>.\<close>

definition SafeClamp ::
    "nat \<Rightarrow> bool \<Rightarrow> int_type option \<Rightarrow> int_type \<Rightarrow> int \<Rightarrow> int_type \<Rightarrow> int \<Rightarrow> int_type \<Rightarrow> int \<Rightarrow> (int_type \<times> int res) option" where
  "SafeClamp ws d R T x L lo H hi =
     (case ClampType ws T L H of
        None \<Rightarrow> None
      | Some B \<Rightarrow>
          (case TypeOr ws R B of
             None \<Rightarrow> None
           | Some R2 \<Rightarrow> Some (R2,
               bindR (dcheck d (SafeCmp ws LeOp L lo H hi) ()) (\<lambda>_.
                 Inr (if SafeCmp ws LeOp T x L lo then static_cast R2 lo
                      else if SafeCmp ws GeOp T x H hi then static_cast R2 hi else static_cast R2 x)))))"

section \<open>Range checks\<close>

datatype DstRange = OVERLAPS_RANGE | CONTAINS_RANGE

definition StaticRangeCheck :: "int_type \<Rightarrow> int_type \<Rightarrow> DstRange" where
  "StaticRangeCheck Dst Src =
     (if type_signed Dst then
        let kDstMaxExponent = type_bytes Dst * 8 - 1;
            kSrcMaxExponent = (if type_signed Src then type_bytes Src * 8 - 1 else type_bytes Src * 8)
        in if kDstMaxExponent \<ge> kSrcMaxExponent then CONTAINS_RANGE else OVERLAPS_RANGE
      else if type_signed Src then OVERLAPS_RANGE
      else if type_bytes Dst \<ge> type_bytes Src then CONTAINS_RANGE else OVERLAPS_RANGE)"

datatype RangeCheckResult = TYPE_VALID | TYPE_UNDERFLOW | TYPE_OVERFLOW | TYPE_INVALID

definition range_check_result :: "bool \<Rightarrow> bool \<Rightarrow> RangeCheckResult" where
  "range_check_result is_in_upper_bound is_in_lower_bound =
     (if is_in_upper_bound then (if is_in_lower_bound then TYPE_VALID else TYPE_UNDERFLOW)
      else (if is_in_lower_bound then TYPE_OVERFLOW else TYPE_INVALID))"

definition RangeCheck :: "int_type \<Rightarrow> int_type \<Rightarrow> int \<Rightarrow> RangeCheckResult" where
  "RangeCheck Dst Src a =
     (if StaticRangeCheck Dst Src = CONTAINS_RANGE then TYPE_VALID
      else if type_signed Dst \<and> type_signed Src then
        range_check_result (cmp_Op LeOp Src a Src (static_cast Src (type_max Dst)))
          (cmp_Op GeOp Src a Src (static_cast Src (type_lowest Dst)))
      else if \<not> type_signed Dst \<and> \<not> type_signed Src then
        range_check_result (cmp_Op LeOp Src a Src (static_cast Src (type_max Dst))) True
      else if type_signed Dst then
        (if type_bytes Dst > type_bytes Src then TYPE_VALID
         else range_check_result (cmp_Op LeOp Src a Src (static_cast Src (type_max Dst))) True)
      else if type_bytes Dst * 8 \<ge> type_bytes Src * 8 - 1 then
        range_check_result True (cmp_Op GeOp Src a Src (static_cast Src 0))
      else range_check_result (cmp_Op LeOp Src a Src (static_cast Src (type_max Dst)))
        (cmp_Op GeOp Src a Src (static_cast Src 0)))"

definition IsValueInRangeForNumericType :: "int_type \<Rightarrow> int_type \<Rightarrow> int \<Rightarrow> bool" where
  "IsValueInRangeForNumericType Dst Src a \<longleftrightarrow> RangeCheck Dst Src a = TYPE_VALID"

text \<open>\<open>checked_cast\<close> has a check in every build, \<open>dchecked_cast\<close> one that \<open>d\<close> turns on.\<close>

definition checked_cast :: "int_type \<Rightarrow> int_type \<Rightarrow> int \<Rightarrow> int res" where
  "checked_cast Dst Src a =
     (if IsValueInRangeForNumericType Dst Src a then Inr (static_cast Dst a) else Inl Check_failed)"

definition dchecked_cast_typed :: "bool \<Rightarrow> int_type \<Rightarrow> int_type \<Rightarrow> int \<Rightarrow> int res" where
  "dchecked_cast_typed d Dst Src a = dcheck d (IsValueInRangeForNumericType Dst Src a) (static_cast Dst a)"

definition saturated_cast :: "int_type \<Rightarrow> int_type \<Rightarrow> int \<Rightarrow> int res" where
  "saturated_cast Dst Src a =
     (case RangeCheck Dst Src a of
        TYPE_VALID \<Rightarrow> Inr (static_cast Dst a)
      | TYPE_UNDERFLOW \<Rightarrow> Inr (type_lowest Dst)
      | TYPE_OVERFLOW \<Rightarrow> Inr (type_max Dst)
      | TYPE_INVALID \<Rightarrow> Inl Check_failed)"

end
