(* ===== verification/Safe_Props.thy ===== *)
theory Safe_Props
  imports Safe_Num
begin

text \<open>
  The templates compute what their names say for every combination of integer types: comparisons
  and minima, maxima and clamps are the mathematical ones, in a type that holds them.
\<close>

section \<open>Types\<close>

lemma type_bytes_cases: "type_bytes T \<in> {1, 2, 4, 8}"
  by (cases T) auto

lemma type_range_simps [simp]:
  "type_lowest Int8 = - 128" "type_max Int8 = 127" "type_lowest Int16 = - 32768" "type_max Int16 = 32767"
  "type_lowest Int32 = - 2147483648" "type_max Int32 = 2147483647"
  "type_lowest Int64 = - 9223372036854775808" "type_max Int64 = 9223372036854775807"
  "type_lowest UInt8 = 0" "type_max UInt8 = 255" "type_lowest UInt16 = 0" "type_max UInt16 = 65535"
  "type_lowest UInt32 = 0" "type_max UInt32 = 4294967295" "type_lowest UInt64 = 0" "type_max UInt64 = 18446744073709551615"
  by (simp_all add: type_lowest_def type_max_def)

lemma promoted_simps [simp]:
  "promoted Int8 = Int32" "promoted Int16 = Int32" "promoted Int32 = Int32" "promoted Int64 = Int64"
  "promoted UInt8 = Int32" "promoted UInt16 = Int32" "promoted UInt32 = UInt32" "promoted UInt64 = UInt64"
  by (simp_all add: promoted_def)

lemma in_type_promoted: "in_type T a \<Longrightarrow> in_type (promoted T) a"
  by (cases T) (auto simp: in_type_def)

lemma static_cast_id: "in_type T a \<Longrightarrow> static_cast T a = a"
  by (cases T) (auto simp: in_type_def static_cast_def)

lemma in_type_static_cast: "in_type T (static_cast T a)"
proof -
  have "type_max T - type_lowest T = 2 ^ (8 * type_bytes T) - 1" by (cases T) simp_all
  moreover have "0 \<le> (a - type_lowest T) mod 2 ^ (8 * type_bytes T)"
    "(a - type_lowest T) mod 2 ^ (8 * type_bytes T) < 2 ^ (8 * type_bytes T)" by simp_all
  ultimately show ?thesis unfolding in_type_def static_cast_def by linarith
qed

lemma in_type_limits [simp]: "in_type T (type_lowest T)" "in_type T (type_max T)"
  by (cases T; simp add: in_type_def)+

section \<open>Comparison\<close>

lemma common_type_simps [simp]:
  "common_type Int32 Int32 = Int32" "common_type Int32 Int64 = Int64" "common_type Int32 UInt32 = UInt32" "common_type Int32 UInt64 = UInt64"
  "common_type Int64 Int32 = Int64" "common_type Int64 Int64 = Int64" "common_type Int64 UInt32 = Int64" "common_type Int64 UInt64 = UInt64"
  "common_type UInt32 Int32 = UInt32" "common_type UInt32 Int64 = Int64" "common_type UInt32 UInt32 = UInt32" "common_type UInt32 UInt64 = UInt64"
  "common_type UInt64 Int32 = UInt64" "common_type UInt64 Int64 = UInt64" "common_type UInt64 UInt32 = UInt64" "common_type UInt64 UInt64 = UInt64"
  by (simp_all add: common_type_def)

lemma common_type_promoted: "common_type A B = common_type (promoted A) (promoted B)"
  by (simp add: common_type_def promoted_def)

lemma cmp_Op_math:
  "in_type (common_type T1 T2) a \<Longrightarrow> in_type (common_type T1 T2) b \<Longrightarrow> cmp_Op op T1 a T2 b = int_cmp op a b"
  by (simp add: cmp_Op_def Let_def static_cast_id)

lemma cmp_Op_same: "in_type T a \<Longrightarrow> in_type T b \<Longrightarrow> cmp_Op op T a T b = int_cmp op a b"
  by (rule cmp_Op_math) (auto simp: common_type_def Let_def intro: in_type_promoted)

lemma negative_first: "a < 0 \<Longrightarrow> 0 \<le> b \<Longrightarrow> cmp_Op op Int32 (- 1) Int32 0 = int_cmp op a b"
  by (cases op) (simp_all add: cmp_Op_math common_type_def Let_def in_type_def)

lemma negative_second: "0 \<le> a \<Longrightarrow> b < 0 \<Longrightarrow> cmp_Op op Int32 0 Int32 (- 1) = int_cmp op a b"
  by (cases op) (simp_all add: cmp_Op_math common_type_def Let_def in_type_def)

lemma in_common_type:
  assumes "type_signed A = type_signed B" "in_type A a" "in_type B b"
  shows "in_type (common_type A B) a \<and> in_type (common_type A B) b"
  unfolding common_type_promoted [of A B] using assms by (cases A; cases B; simp add: in_type_def)

lemma cmp_Op_same_sign:
  "type_signed A = type_signed B \<Longrightarrow> in_type A a \<Longrightarrow> in_type B b \<Longrightarrow> cmp_Op op A a B b = int_cmp op a b"
  by (rule cmp_Op_math) (simp_all add: in_common_type)

lemma LargerInt_holds:
  assumes "LargerInt ws U S = Some L" "\<not> type_signed U" "in_type U u"
  shows "type_signed L" "in_type L u"
  using assms by (cases U; auto simp: LargerInt_def in_type_def split: if_splits)+

lemma make_unsigned_holds:
  assumes "type_signed S" "in_type S a" "0 \<le> a"
  shows "\<not> type_signed (make_unsigned S)" "in_type (make_unsigned S) a" "MakeUnsigned S a = a"
proof -
  show "\<not> type_signed (make_unsigned S)" using assms(1) by (cases S) auto
  show *: "in_type (make_unsigned S) a" using assms by (cases S) (auto simp: in_type_def)
  show "MakeUnsigned S a = a" by (simp add: MakeUnsigned_def static_cast_id [OF *])
qed

lemma unsigned_nonneg: "in_type U u \<Longrightarrow> \<not> type_signed U \<Longrightarrow> 0 \<le> u"
  by (cases U) (auto simp: in_type_def)

lemma Cmp_math:
  assumes "in_type T1 a" "in_type T2 b"
  shows "Cmp ws op T1 a T2 b = int_cmp op a b"
proof (cases "type_signed T1 = type_signed T2")
  case True
  with assms show ?thesis by (simp add: Cmp_def cmp_Op_same_sign)
next
  case False
  show ?thesis
  proof (cases "type_signed T1")
    case True
    with False have unsigned: "\<not> type_signed T2" by simp
    show ?thesis
      using True unsigned assms LargerInt_holds [OF _ unsigned assms(2), of ws T1] make_unsigned_holds [OF True assms(1)]
        negative_first [OF _ unsigned_nonneg [OF assms(2) unsigned]]
      by (auto simp: Cmp_def static_cast_id cmp_Op_same_sign split: option.splits)
  next
    case unsigned: False
    with False have signed: "type_signed T2" by simp
    show ?thesis
      using signed unsigned assms LargerInt_holds [OF _ unsigned assms(1), of ws T2] make_unsigned_holds [OF signed assms(2)]
        negative_second [OF unsigned_nonneg [OF assms(1) unsigned]]
      by (auto simp: Cmp_def static_cast_id cmp_Op_same_sign split: option.splits)
  qed
qed

lemma SafeCmp_math: "in_type T1 a \<Longrightarrow> in_type T2 b \<Longrightarrow> SafeCmp ws op T1 a T2 b = int_cmp op a b"
  using Cmp_math [of "promoted T1" a "promoted T2" b ws op]
  by (simp add: SafeCmp_def in_type_promoted static_cast_id)


section \<open>Minimum and maximum\<close>

lemma min_t_holds:
  assumes "in_type T1 a" "in_type T2 b"
  shows "in_type (min_t ws T1 T2) (min a b)"
  using assms unfolding min_t_def SafeCmp_math [OF in_type_limits(1) in_type_limits(1)]
    SafeCmp_math [OF in_type_limits(2) in_type_limits(2)]
  by (cases T1; cases T2) (simp_all add: in_type_def min_def)

lemma max_t_holds: "\<exists>M. max_t ws T1 T2 = Some M \<and> M \<in> {T1, T2} \<and> type_max M = max (type_max T1) (type_max T2) \<and>
    (\<forall>a b. in_type T1 a \<longrightarrow> in_type T2 b \<longrightarrow> in_type M (max a b))"
  unfolding max_t_def SafeCmp_math [OF in_type_limits(1) in_type_limits(1)] SafeCmp_math [OF in_type_limits(2) in_type_limits(2)]
  by (cases T1; cases T2) (simp_all add: in_type_def max_def)

lemma TypeOr_default [simp]: "TypeOr ws None B = Some B"
  by (simp add: TypeOr_def SafeCmp_math Let_def)

lemma TypeOr_given:
  "TypeOr ws (Some A) B = (if type_lowest A \<le> type_lowest B \<and> type_max B \<le> type_max A then Some A else None)"
  by (simp add: TypeOr_def SafeCmp_math Let_def)

lemma TypeOr_holds: "TypeOr ws R B = Some A \<Longrightarrow> in_type B a \<Longrightarrow> in_type A a"
  by (cases R) (auto simp: TypeOr_given in_type_def split: if_splits)

lemma SafeMin_default:
  assumes "in_type T1 a" "in_type T2 b"
  shows "SafeMin ws None T1 a T2 b = Some (min_t ws T1 T2, min a b)"
  using static_cast_id [OF min_t_holds [OF assms, of ws]]
  by (cases "a < b") (simp_all add: SafeMin_def SafeCmp_math assms min_absorb1 min_absorb2)

lemma SafeMin_given:
  assumes "in_type T1 a" "in_type T2 b" "TypeOr ws R (min_t ws T1 T2) = Some A"
  shows "SafeMin ws R T1 a T2 b = Some (A, min a b) \<and> in_type A (min a b)"
  using TypeOr_holds [OF assms(3) min_t_holds [OF assms(1,2)]] static_cast_id [of A "min a b"] assms
  by (cases "a < b") (simp_all add: SafeMin_def SafeCmp_math min_absorb1 min_absorb2)

lemma SafeMax_given:
  assumes "in_type T1 a" "in_type T2 b" "max_t ws T1 T2 = Some M" "TypeOr ws R M = Some A"
  shows "SafeMax ws R T1 a T2 b = Some (A, max a b) \<and> in_type A (max a b)"
proof -
  have "in_type M (max a b)" using max_t_holds [of ws T1 T2] assms(1-3) by auto
  from TypeOr_holds [OF assms(4) this] static_cast_id [of A "max a b"] assms show ?thesis
    by (cases "a > b") (simp_all add: SafeMax_def SafeCmp_math max_absorb1 max_absorb2)
qed


section \<open>Clamping\<close>

lemma clamp_ranges:
  "\<exists>A. clamp_r_min ws T L H = Some (A, max (type_lowest L) (min (type_lowest H) (type_lowest T))) \<and>
     in_type A (max (type_lowest L) (min (type_lowest H) (type_lowest T)))"
  "\<exists>A. clamp_r_max ws T L H = Some (A, min (type_max H) (max (type_max L) (type_max T))) \<and>
     in_type A (min (type_max H) (max (type_max L) (type_max T)))"
proof -
  define M where "M = min_t ws H T"
  define m where "m = min (type_lowest H) (type_lowest T)"
  have m: "SafeMin ws None H (type_lowest H) T (type_lowest T) = Some (M, m)" "in_type M m"
    using SafeMin_default [of H "type_lowest H" T "type_lowest T" ws] min_t_holds [of H "type_lowest H" T "type_lowest T" ws]
    by (simp_all add: M_def m_def)
  obtain A where "max_t ws L M = Some A" using max_t_holds [of ws L M] by blast
  with SafeMax_given [OF in_type_limits(1) m(2), of ws L A None A] m(1)
  show "\<exists>A. clamp_r_min ws T L H = Some (A, max (type_lowest L) (min (type_lowest H) (type_lowest T))) \<and>
      in_type A (max (type_lowest L) (min (type_lowest H) (type_lowest T)))"
    by (simp add: clamp_r_min_def m_def)
  obtain N where N: "max_t ws L T = Some N" using max_t_holds [of ws L T] by blast
  define n where "n = max (type_max L) (type_max T)"
  have n: "SafeMax ws None L (type_max L) T (type_max T) = Some (N, n)" "in_type N n"
    using SafeMax_given [OF in_type_limits(2) in_type_limits(2) N, of None N] by (simp_all add: n_def)
  with SafeMin_default [OF in_type_limits(2) n(2), of ws H] min_t_holds [OF in_type_limits(2) n(2), of ws H]
  show "\<exists>A. clamp_r_max ws T L H = Some (A, min (type_max H) (max (type_max L) (type_max T))) \<and>
      in_type A (min (type_max H) (max (type_max L) (type_max T)))"
    by (simp add: clamp_r_max_def n_def)
qed

text \<open>The search for a type, on the range it must hold and the largest size.\<close>

definition holds_range :: "nat \<Rightarrow> int \<Rightarrow> int \<Rightarrow> int_type \<Rightarrow> bool" where
  "holds_range n lo hi A \<longleftrightarrow> type_bytes A \<le> n \<and> type_lowest A \<le> lo \<and> hi \<le> type_max A"

definition smallest_signed :: "(int_type \<Rightarrow> bool) \<Rightarrow> int_type" where
  "smallest_signed ok = (if ok Int8 then Int8 else if ok Int16 then Int16 else if ok Int32 then Int32 else Int64)"

definition smallest_unsigned :: "(int_type \<Rightarrow> bool) \<Rightarrow> int_type" where
  "smallest_unsigned ok = (if ok UInt8 then UInt8 else if ok UInt16 then UInt16 else if ok UInt32 then UInt32 else UInt64)"

lemma ClampType_search:
  "ClampType ws T L H =
     (let ok = holds_range (max (type_bytes T) (max (type_bytes L) (type_bytes H)))
            (max (type_lowest L) (min (type_lowest H) (type_lowest T))) (min (type_max H) (max (type_max L) (type_max T)));
          A = (if type_signed T then (if ok (smallest_signed ok) then smallest_signed ok else smallest_unsigned ok)
               else (if ok (smallest_unsigned ok) then smallest_unsigned ok else smallest_signed ok))
      in if ok A then Some A else None)"
proof -
  obtain A B where A: "clamp_r_min ws T L H = Some (A, max (type_lowest L) (min (type_lowest H) (type_lowest T)))"
      "in_type A (max (type_lowest L) (min (type_lowest H) (type_lowest T)))"
    and B: "clamp_r_max ws T L H = Some (B, min (type_max H) (max (type_max L) (type_max T)))"
      "in_type B (min (type_max H) (max (type_max L) (type_max T)))"
    using clamp_ranges by metis
  have "AcceptableType ws T L H (A, max (type_lowest L) (min (type_lowest H) (type_lowest T)))
      (B, min (type_max H) (max (type_max L) (type_max T))) =
    holds_range (max (type_bytes T) (max (type_bytes L) (type_bytes H)))
      (max (type_lowest L) (min (type_lowest H) (type_lowest T))) (min (type_max H) (max (type_max L) (type_max T)))"
    by (auto simp: AcceptableType_def holds_range_def SafeCmp_math A(2) B(2) fun_eq_iff le_max_iff_disj)
  then show ?thesis
    by (simp add: ClampType_def A(1) B(1) smallest_signed_def smallest_unsigned_def Let_def)
qed


lemma search_finds:
  "ok A \<Longrightarrow> ok (smallest_signed ok) \<or> ok (smallest_unsigned ok)"
  by (cases A) (auto simp: smallest_signed_def smallest_unsigned_def)

text \<open>One of the three types always holds the range of the result.\<close>

lemma input_type_holds:
  fixes T L H :: int_type
  defines "lo \<equiv> max (type_lowest L) (min (type_lowest H) (type_lowest T))"
    and "hi \<equiv> min (type_max H) (max (type_max L) (type_max T))"
  shows "\<exists>A \<in> {T, L, H}. type_lowest A \<le> lo \<and> hi \<le> type_max A"
  unfolding lo_def hi_def by (cases T; cases L; cases H; simp)

lemma ClampType_some:
  obtains A where "ClampType ws T L H = Some A"
    "type_lowest A \<le> max (type_lowest L) (min (type_lowest H) (type_lowest T))"
    "min (type_max H) (max (type_max L) (type_max T)) \<le> type_max A"
proof -
  define ok where "ok = holds_range (max (type_bytes T) (max (type_bytes L) (type_bytes H)))
    (max (type_lowest L) (min (type_lowest H) (type_lowest T))) (min (type_max H) (max (type_max L) (type_max T)))"
  obtain B where "B \<in> {T, L, H}" "type_lowest B \<le> max (type_lowest L) (min (type_lowest H) (type_lowest T))"
      "min (type_max H) (max (type_max L) (type_max T)) \<le> type_max B"
    using input_type_holds [where T = T and L = L and H = H] by (elim bexE conjE) (rule that)
  then have "ok B" by (auto simp: ok_def holds_range_def le_max_iff_disj)
  from search_finds [of ok, OF this] obtain A where "ClampType ws T L H = Some A" "ok A"
    unfolding ClampType_search Let_def ok_def [symmetric]
    by (cases "ok (smallest_signed ok)"; cases "ok (smallest_unsigned ok)"; cases "type_signed T") simp_all
  with that [of A] show thesis by (simp add: ok_def holds_range_def)
qed

lemma in_type_clamp:
  assumes "in_type T x" "in_type L lo" "in_type H hi" "lo \<le> hi"
    "type_lowest A \<le> max (type_lowest L) (min (type_lowest H) (type_lowest T))"
    "min (type_max H) (max (type_max L) (type_max T)) \<le> type_max A"
  shows "in_type A (max lo (min hi x))"
  using assms unfolding in_type_def by linarith

lemma SafeClamp_math:
  assumes "in_type T x" "in_type L lo" "in_type H hi" "lo \<le> hi" "ClampType ws T L H = Some B" "TypeOr ws R B = Some A"
  shows "SafeClamp ws d R T x L lo H hi = Some (A, Inr (max lo (min hi x))) \<and> in_type A (max lo (min hi x))"
proof -
  have "in_type B (max lo (min hi x))"
    using ClampType_some [of ws T L H] in_type_clamp [OF assms(1-4)] assms(5) by (metis option.inject)
  then have A: "in_type A (max lo (min hi x))" using TypeOr_holds [OF assms(6)] by blast
  note cast = static_cast_id [OF A]
  consider "x \<le> lo" "max lo (min hi x) = lo" | "lo < x" "hi \<le> x" "max lo (min hi x) = hi"
    | "lo < x" "x < hi" "max lo (min hi x) = x" using assms(4) by linarith
  then have "SafeClamp ws d R T x L lo H hi = Some (A, Inr (max lo (min hi x)))"
    using cast by cases (simp_all add: SafeClamp_def SafeCmp_math assms)
  with A show ?thesis by simp
qed

text \<open>That range is the range of the results, and the type is the smallest of its signedness.\<close>

lemma clamp_range_attained:
  assumes "\<forall>x lo hi. in_type T x \<longrightarrow> in_type L lo \<longrightarrow> in_type H hi \<longrightarrow> lo \<le> hi \<longrightarrow> in_type A (max lo (min hi x))"
  shows "type_lowest A \<le> max (type_lowest L) (min (type_lowest H) (type_lowest T))"
    "min (type_max H) (max (type_max L) (type_max T)) \<le> type_max A"
proof -
  have zero: "type_lowest B \<le> 0" "0 < type_max B" for B by (cases B; simp)+
  note z = zero [of T] zero [of L] zero [of H]
  have low: "type_lowest A \<le> max lo (min hi x)" "max lo (min hi x) \<le> type_max A"
    if "in_type T x" "in_type L lo" "in_type H hi" "lo \<le> hi" for x lo hi
    using assms that by (auto simp: in_type_def)
  consider "type_lowest L \<le> type_lowest H" | "type_lowest H \<le> type_lowest L" by linarith
  then show "type_lowest A \<le> max (type_lowest L) (min (type_lowest H) (type_lowest T))"
  proof cases
    case 1
    with low(1) [of "type_lowest T" "type_lowest L" "type_lowest H"] show ?thesis by simp
  next
    case 2
    moreover have "in_type H (type_lowest L)" using 2 z by (simp add: in_type_def)
    ultimately show ?thesis using low(1) [of "type_lowest T" "type_lowest L" "type_lowest L"] by simp
  qed
  consider "type_max L \<le> type_max H" | "type_max H \<le> type_max L" by linarith
  then show "min (type_max H) (max (type_max L) (type_max T)) \<le> type_max A"
  proof cases
    case 1
    with low(2) [of "type_max T" "type_max L" "type_max H"] show ?thesis by (auto simp: min_def max_def)
  next
    case 2
    moreover have "in_type L (type_max H)" using 2 z by (simp add: in_type_def)
    ultimately show ?thesis using low(2) [of "type_max T" "type_max H" "type_max H"] by simp
  qed
qed

lemma smallest_signed_least: "ok B \<Longrightarrow> type_signed B \<Longrightarrow> ok (smallest_signed ok) \<and> type_signed (smallest_signed ok) \<and>
    type_bytes (smallest_signed ok) \<le> type_bytes B"
  by (cases B) (auto simp: smallest_signed_def)

lemma smallest_unsigned_least: "ok B \<Longrightarrow> \<not> type_signed B \<Longrightarrow> ok (smallest_unsigned ok) \<and> \<not> type_signed (smallest_unsigned ok) \<and>
    type_bytes (smallest_unsigned ok) \<le> type_bytes B"
  by (cases B) (auto simp: smallest_unsigned_def)

lemma ClampType_least:
  assumes "ClampType ws T L H = Some A" "type_signed B = type_signed T"
    "type_bytes B \<le> max (type_bytes T) (max (type_bytes L) (type_bytes H))"
    "type_lowest B \<le> max (type_lowest L) (min (type_lowest H) (type_lowest T))"
    "min (type_max H) (max (type_max L) (type_max T)) \<le> type_max B"
  shows "type_signed A = type_signed T \<and> type_bytes A \<le> type_bytes B"
proof -
  define ok where "ok = holds_range (max (type_bytes T) (max (type_bytes L) (type_bytes H)))
    (max (type_lowest L) (min (type_lowest H) (type_lowest T))) (min (type_max H) (max (type_max L) (type_max T)))"
  have B: "ok B" using assms(3-5) by (simp add: ok_def holds_range_def)
  show ?thesis
  proof (cases "type_signed T")
    case True
    with assms(1) smallest_signed_least [of ok, OF B] assms(2) show ?thesis
      unfolding ClampType_search Let_def ok_def [symmetric] by (simp split: if_splits)
  next
    case False
    with assms(1) smallest_unsigned_least [of ok, OF B] assms(2) show ?thesis
      unfolding ClampType_search Let_def ok_def [symmetric] by (simp split: if_splits)
  qed
qed

section \<open>Range checks\<close>

lemma RangeCheck_spec:
  assumes "in_type Src a"
  shows "RangeCheck Dst Src a =
    (if a < type_lowest Dst then TYPE_UNDERFLOW else if type_max Dst < a then TYPE_OVERFLOW else TYPE_VALID)"
  using assms
  by (cases Dst; cases Src;
      simp add: RangeCheck_def StaticRangeCheck_def range_check_result_def cmp_Op_same static_cast_id in_type_def)


section \<open>Properties\<close>

text \<open>
  \<open>SafeEq\<close> to \<open>SafeGe\<close> compare integers of any two types by their values, whatever the size
  of a pointer; the built-in comparison does not: \<open>-1 < 1u\<close> is false.
\<close>

theorem safe_comparison:
  assumes "in_type T1 a" "in_type T2 b"
  shows "SafeCmp ws op T1 a T2 b = int_cmp op a b \<and> \<not> cmp_Op LtOp Int32 (- 1) UInt32 1"
  using SafeCmp_math [OF assms] by (simp add: cmp_Op_def static_cast_def)

theorem safe_comparison_witness: "SafeCmp 8 LtOp Int64 (- 1) UInt64 18446744073709551615"
  using safe_comparison [of Int64 "- 1" UInt64 18446744073709551615 8 LtOp] by (simp add: in_type_def)

text \<open>
  C39. The types that the templates choose hold the result: for any two types \<open>SafeMin\<close> and \<open>SafeMax\<close>
  compile to one of the two, and for any three types \<open>SafeClamp\<close> compiles to a type no larger than
  the largest, such that for all values of the argument types the result is the mathematical
  minimum, maximum and clamped value and fits.  A type asked for compiles exactly when its range
  includes that of the chosen one, and gives the same value.  The type of \<open>SafeClamp\<close> has the
  signedness of its first argument when any type of that signedness would do, and is then the
  smallest of them.
\<close>

theorem safe_min_max_clamp:
  "(\<exists>A \<in> {T1, T2}. \<forall>a b. in_type T1 a \<longrightarrow> in_type T2 b \<longrightarrow> in_type A (min a b) \<and>
      SafeMin ws None T1 a T2 b = Some (A, min a b) \<and>
      SafeMin ws (Some R) T1 a T2 b =
        (if type_lowest R \<le> type_lowest A \<and> type_max A \<le> type_max R then Some (R, min a b) else None)) \<and>
    (\<exists>A \<in> {T1, T2}. \<forall>a b. in_type T1 a \<longrightarrow> in_type T2 b \<longrightarrow> in_type A (max a b) \<and>
      SafeMax ws None T1 a T2 b = Some (A, max a b)) \<and>
    (\<exists>A. type_bytes A \<le> max (type_bytes T) (max (type_bytes L) (type_bytes H)) \<and>
      (\<forall>x lo hi. in_type T x \<longrightarrow> in_type L lo \<longrightarrow> in_type H hi \<longrightarrow> lo \<le> hi \<longrightarrow> in_type A (max lo (min hi x)) \<and>
        SafeClamp ws d None T x L lo H hi = Some (A, Inr (max lo (min hi x)))) \<and>
      (\<forall>B. type_signed B = type_signed T \<and> type_bytes B \<le> max (type_bytes T) (max (type_bytes L) (type_bytes H)) \<and>
        (\<forall>x lo hi. in_type T x \<longrightarrow> in_type L lo \<longrightarrow> in_type H hi \<longrightarrow> lo \<le> hi \<longrightarrow> in_type B (max lo (min hi x))) \<longrightarrow>
        type_signed A = type_signed T \<and> type_bytes A \<le> type_bytes B))"
proof (intro conjI)
  have "min_t ws T1 T2 \<in> {T1, T2}" by (simp add: min_t_def)
  moreover have "SafeMin ws (Some R) T1 a T2 b =
      (if type_lowest R \<le> type_lowest (min_t ws T1 T2) \<and> type_max (min_t ws T1 T2) \<le> type_max R then Some (R, min a b) else None)"
    if "in_type T1 a" "in_type T2 b" for a b
    using SafeMin_given [OF that, of ws "Some R" R] by (simp add: TypeOr_given) (simp add: SafeMin_def TypeOr_given)
  ultimately show "\<exists>A \<in> {T1, T2}. \<forall>a b. in_type T1 a \<longrightarrow> in_type T2 b \<longrightarrow> in_type A (min a b) \<and>
      SafeMin ws None T1 a T2 b = Some (A, min a b) \<and>
      SafeMin ws (Some R) T1 a T2 b =
        (if type_lowest R \<le> type_lowest A \<and> type_max A \<le> type_max R then Some (R, min a b) else None)"
    using min_t_holds SafeMin_default by blast
next
  show "\<exists>A \<in> {T1, T2}. \<forall>a b. in_type T1 a \<longrightarrow> in_type T2 b \<longrightarrow> in_type A (max a b) \<and>
      SafeMax ws None T1 a T2 b = Some (A, max a b)"
    using max_t_holds [of ws T1 T2] SafeMax_given [of T1 _ T2 _ ws _ None] by (metis TypeOr_default)
next
  obtain A where A: "ClampType ws T L H = Some A" using ClampType_some by blast
  then have "type_bytes A \<le> max (type_bytes T) (max (type_bytes L) (type_bytes H))"
    by (auto simp: ClampType_search Let_def holds_range_def split: if_splits)
  moreover have "in_type A (max lo (min hi x)) \<and> SafeClamp ws d None T x L lo H hi = Some (A, Inr (max lo (min hi x)))"
    if "in_type T x" "in_type L lo" "in_type H hi" "lo \<le> hi" for x lo hi
    using SafeClamp_math [OF that A TypeOr_default] by blast
  moreover have "type_signed A = type_signed T \<and> type_bytes A \<le> type_bytes B"
    if "type_signed B = type_signed T" "type_bytes B \<le> max (type_bytes T) (max (type_bytes L) (type_bytes H))"
      "\<forall>x lo hi. in_type T x \<longrightarrow> in_type L lo \<longrightarrow> in_type H hi \<longrightarrow> lo \<le> hi \<longrightarrow> in_type B (max lo (min hi x))" for B
    by (rule ClampType_least [OF A that(1,2) clamp_range_attained [OF that(3)]])
  ultimately show "\<exists>A. type_bytes A \<le> max (type_bytes T) (max (type_bytes L) (type_bytes H)) \<and>
      (\<forall>x lo hi. in_type T x \<longrightarrow> in_type L lo \<longrightarrow> in_type H hi \<longrightarrow> lo \<le> hi \<longrightarrow> in_type A (max lo (min hi x)) \<and>
        SafeClamp ws d None T x L lo H hi = Some (A, Inr (max lo (min hi x)))) \<and>
      (\<forall>B. type_signed B = type_signed T \<and> type_bytes B \<le> max (type_bytes T) (max (type_bytes L) (type_bytes H)) \<and>
        (\<forall>x lo hi. in_type T x \<longrightarrow> in_type L lo \<longrightarrow> in_type H hi \<longrightarrow> lo \<le> hi \<longrightarrow> in_type B (max lo (min hi x))) \<longrightarrow>
        type_signed A = type_signed T \<and> type_bytes A \<le> type_bytes B)"
    by (intro exI [of _ A]) blast
qed

theorem safe_min_max_clamp_witness:
  "(\<exists>A. SafeMin 8 None Int64 (- 5) UInt64 7 = Some (A, - 5)) \<and>
   (\<exists>A. SafeClamp 8 True None Int64 (- 5) UInt8 2 UInt64 255 = Some (A, Inr 2))"
proof -
  from safe_min_max_clamp [of Int64 UInt64 8 Int8 Int64 UInt8 UInt64 True]
  obtain A B where "in_type Int64 (- 5) \<longrightarrow> in_type UInt64 7 \<longrightarrow> SafeMin 8 None Int64 (- 5) UInt64 7 = Some (A, min (- 5) 7)"
    "in_type Int64 (- 5) \<longrightarrow> in_type UInt8 2 \<longrightarrow> in_type UInt64 255 \<longrightarrow> (2 :: int) \<le> 255 \<longrightarrow>
      SafeClamp 8 True None Int64 (- 5) UInt8 2 UInt64 255 = Some (B, Inr (max 2 (min 255 (- 5))))" by meson
  then show ?thesis by (auto simp: in_type_def)
qed

text \<open>
  The range check classifies every value of every type correctly, so \<open>saturated_cast\<close> gives the
  nearest value of the target type, and \<open>checked_cast\<close> gives the value itself or stops.
\<close>

theorem safe_casts:
  assumes "in_type Src a"
  shows "saturated_cast Dst Src a = Inr (max (type_lowest Dst) (min (type_max Dst) a)) \<and>
    IsValueInRangeForNumericType Dst Src a = in_type Dst a \<and>
    checked_cast Dst Src a = (if in_type Dst a then Inr a else Inl Check_failed)"
proof -
  have "type_lowest Dst \<le> type_max Dst" by (cases Dst) simp_all
  moreover have "in_type Dst a \<Longrightarrow> static_cast Dst a = a" by (rule static_cast_id)
  ultimately show ?thesis
    by (auto simp: saturated_cast_def checked_cast_def IsValueInRangeForNumericType_def RangeCheck_spec [OF assms] in_type_def)
qed

theorem safe_casts_witness:
  "saturated_cast UInt8 Int32 (- 3) = Inr 0 \<and> saturated_cast Int16 UInt64 70000 = Inr 32767 \<and>
   checked_cast Int8 UInt16 200 = Inl Check_failed"
  using safe_casts [of Int32 "- 3" UInt8] safe_casts [of UInt64 70000 Int16] safe_casts [of UInt16 200 Int8]
  by (simp add: in_type_def)

end
