(* ===== verification/Intrusive_Heap.thy ===== *)
theory Intrusive_Heap
  imports Prelude
begin

text \<open>
  \<open>IntrusiveHeap\<close> (base/containers/intrusive_heap.h): a max-heap in a vector, whose elements know
  their position through a handle the heap keeps up to date.  Elements are objects, named by
  numbers that moving does not change; an object has a value and, in the default handle storage,
  a handle.  A moved-from slot of the vector holds no object.
\<close>

section \<open>State\<close>

definition kInvalidIndex :: nat where "kInvalidIndex = 2 ^ 64 - 1"

text \<open>
  \<open>heap_slots\<close>: the vector \<open>impl_.heap_\<close>; \<open>handle_of\<close>, \<open>value_of\<close>: of every object;
  \<open>next_object_id\<close>: a number from which on no object exists.
\<close>

record 'k heap =
  heap_slots :: "nat option list"
  handle_of :: "nat \<Rightarrow> nat"
  value_of :: "nat \<Rightarrow> 'k"
  next_object_id :: nat

definition heap_size :: "'k heap \<Rightarrow> nat" where "heap_size s = length (heap_slots s)"

definition IntrusiveHeap_new :: "'k heap \<Rightarrow> 'k heap" where
  "IntrusiveHeap_new s = s\<lparr>heap_slots := []\<rparr>"

definition slot_object :: "nat \<Rightarrow> 'k heap \<Rightarrow> nat res" where
  "slot_object i s =
     (if i < heap_size s then (case heap_slots s ! i of Some e \<Rightarrow> Inr e | None \<Rightarrow> Inl Bad_memory)
      else Inl Bad_memory)"

section \<open>Handles\<close>

definition HeapHandle_IsValid :: "nat \<Rightarrow> bool" where "HeapHandle_IsValid h \<longleftrightarrow> h \<noteq> kInvalidIndex"

definition GetHeapHandle :: "nat \<Rightarrow> 'k heap \<Rightarrow> nat res" where
  "GetHeapHandle i s =
     (if i < heap_size s then Inr (case heap_slots s ! i of Some e \<Rightarrow> handle_of s e | None \<Rightarrow> kInvalidIndex)
      else Inl Bad_memory)"

definition CheckInvalidOrEqualTo :: "bool \<Rightarrow> nat \<Rightarrow> nat \<Rightarrow> unit res" where
  "CheckInvalidOrEqualTo d handle index =
     (if HeapHandle_IsValid handle then dcheck d (index = handle) () else Inr ())"

text \<open>\<open>InternalHeapHandleStorage::SetHeapHandle\<close> and \<open>ClearHeapHandle\<close>, on the object in a slot.\<close>

definition storage_SetHeapHandle :: "bool \<Rightarrow> nat \<Rightarrow> nat \<Rightarrow> 'k heap \<Rightarrow> 'k heap res" where
  "storage_SetHeapHandle d i handle s =
     bindR (dcheck d (HeapHandle_IsValid handle) s) (\<lambda>s.
       Inr (case heap_slots s ! i of Some e \<Rightarrow> s\<lparr>handle_of := (handle_of s)(e := handle)\<rparr> | None \<Rightarrow> s))"

definition storage_ClearHeapHandle :: "nat \<Rightarrow> 'k heap \<Rightarrow> 'k heap" where
  "storage_ClearHeapHandle i s =
     (case heap_slots s ! i of Some e \<Rightarrow> s\<lparr>handle_of := (handle_of s)(e := kInvalidIndex)\<rparr> | None \<Rightarrow> s)"

definition SetHeapHandle :: "bool \<Rightarrow> nat \<Rightarrow> 'k heap \<Rightarrow> 'k heap res" where
  "SetHeapHandle d i s =
     (if i < heap_size s then
        bindR (storage_SetHeapHandle d i i s) (\<lambda>s.
        bindR (GetHeapHandle i s) (\<lambda>h.
        bindR (CheckInvalidOrEqualTo d h i) (\<lambda>_. Inr s)))
      else Inl Bad_memory)"

definition ClearHeapHandle :: "bool \<Rightarrow> nat \<Rightarrow> 'k heap \<Rightarrow> 'k heap res" where
  "ClearHeapHandle d i s =
     (if i < heap_size s then
        let s = storage_ClearHeapHandle i s
        in bindR (GetHeapHandle i s) (\<lambda>h. dcheck d (\<not> HeapHandle_IsValid h) s)
      else Inl Bad_memory)"

section \<open>Holes\<close>

definition ParentIndex :: "bool \<Rightarrow> nat \<Rightarrow> nat res" where
  "ParentIndex d i = dcheck d (i \<noteq> 0) ((i - 1) div 2)"

definition LeftIndex :: "nat \<Rightarrow> nat" where "LeftIndex i = 2 * i + 1"

text \<open>\<open>lt\<close> is the comparison of two values; \<open>Less\<close> compares elements inside and outside.\<close>

definition Less_at :: "bool \<Rightarrow> ('k \<Rightarrow> 'k \<Rightarrow> bool) \<Rightarrow> nat \<Rightarrow> nat \<Rightarrow> 'k heap \<Rightarrow> bool res" where
  "Less_at d lt i j s =
     bindR (dcheck d (i < heap_size s) ()) (\<lambda>_.
     bindR (dcheck d (j < heap_size s) ()) (\<lambda>_.
     bindR (slot_object i s) (\<lambda>a. bindR (slot_object j s) (\<lambda>b. Inr (lt (value_of s a) (value_of s b))))))"

definition Less_element :: "bool \<Rightarrow> ('k \<Rightarrow> 'k \<Rightarrow> bool) \<Rightarrow> nat \<Rightarrow> nat \<Rightarrow> 'k heap \<Rightarrow> bool res" where
  "Less_element d lt element i s =
     bindR (dcheck d (i < heap_size s) ()) (\<lambda>_.
     bindR (slot_object i s) (\<lambda>b. Inr (lt (value_of s element) (value_of s b))))"

definition Less_than_element :: "bool \<Rightarrow> ('k \<Rightarrow> 'k \<Rightarrow> bool) \<Rightarrow> nat \<Rightarrow> nat \<Rightarrow> 'k heap \<Rightarrow> bool res" where
  "Less_than_element d lt i element s =
     bindR (dcheck d (i < heap_size s) ()) (\<lambda>_.
     bindR (slot_object i s) (\<lambda>a. Inr (lt (value_of s a) (value_of s element))))"

definition MakeHole :: "bool \<Rightarrow> nat \<Rightarrow> 'k heap \<Rightarrow> 'k heap res" where
  "MakeHole d pos s = bindR (dcheck d (pos < heap_size s) s) (ClearHeapHandle d pos)"

definition FillHole :: "bool \<Rightarrow> nat \<Rightarrow> nat \<Rightarrow> 'k heap \<Rightarrow> 'k heap res" where
  "FillHole d hole_pos element s =
     bindR (dcheck d (hole_pos \<le> heap_size s) s) (\<lambda>s.
     bindR (if hole_pos = heap_size s then Inr (s\<lparr>heap_slots := heap_slots s @ [Some element]\<rparr>)
            else if hole_pos < heap_size s then Inr (s\<lparr>heap_slots := (heap_slots s)[hole_pos := Some element]\<rparr>)
            else Inl Bad_memory)
       (SetHeapHandle d hole_pos))"

definition MoveHole :: "bool \<Rightarrow> nat \<Rightarrow> nat \<Rightarrow> 'k heap \<Rightarrow> 'k heap res" where
  "MoveHole d new_hole_pos old_hole_pos s =
     bindR (dcheck d (new_hole_pos \<noteq> old_hole_pos) s) (\<lambda>s.
     bindR (dcheck d (new_hole_pos < heap_size s) s) (\<lambda>s.
     bindR (dcheck d (old_hole_pos \<le> heap_size s) s) (\<lambda>s.
     bindR (if new_hole_pos < heap_size s \<and> old_hole_pos \<le> heap_size s then
              let moved = heap_slots s ! new_hole_pos; rest = (heap_slots s)[new_hole_pos := None]
              in Inr (s\<lparr>heap_slots := (if old_hole_pos = heap_size s then rest @ [moved] else rest[old_hole_pos := moved])\<rparr>)
            else Inl Bad_memory)
       (SetHeapHandle d old_hole_pos))))"

function MoveHoleUpAndFill :: "bool \<Rightarrow> ('k \<Rightarrow> 'k \<Rightarrow> bool) \<Rightarrow> nat \<Rightarrow> nat \<Rightarrow> 'k heap \<Rightarrow> (nat \<times> 'k heap) res" where
  "MoveHoleUpAndFill d lt hole_pos element s =
     bindR (dcheck d (hole_pos \<le> heap_size s) s) (\<lambda>s.
       if hole_pos = 0 then bindR (FillHole d hole_pos element s) (\<lambda>s. Inr (hole_pos, s))
       else bindR (ParentIndex d hole_pos) (\<lambda>parent.
            bindR (Less_than_element d lt parent element s) (\<lambda>below.
              if \<not> below then bindR (FillHole d hole_pos element s) (\<lambda>s. Inr (hole_pos, s))
              else bindR (MoveHole d parent hole_pos s) (MoveHoleUpAndFill d lt parent element))))"
  by pat_completeness auto
termination
  by (relation "measure (\<lambda>(d, lt, hole_pos, element, s). hole_pos)")
    (auto simp: ParentIndex_def dcheck_def split: if_splits)

declare MoveHoleUpAndFill.simps [simp del]

text \<open>\<open>leaf\<close>: the fill element is the leaf at the end, whose slot is about to go.\<close>

function move_hole_down :: "bool \<Rightarrow> ('k \<Rightarrow> 'k \<Rightarrow> bool) \<Rightarrow> bool \<Rightarrow> nat \<Rightarrow> nat \<Rightarrow> nat \<Rightarrow> 'k heap \<Rightarrow> (nat \<times> 'k heap) res" where
  "move_hole_down d lt leaf n hole_pos element s =
     (let left = LeftIndex hole_pos in
      if left \<ge> n then Inr (hole_pos, s)
      else
        let right = left + 1
        in bindR (if right < n then Less_at d lt left right s else Inr False) (\<lambda>right_larger.
           let largest = (if right_larger then right else left)
           in bindR (if leaf then Inr True else Less_element d lt element largest s) (\<lambda>go_on.
                if \<not> go_on then Inr (hole_pos, s)
                else bindR (MoveHole d largest hole_pos s) (move_hole_down d lt leaf n largest element))))"
  by pat_completeness auto
termination
  by (relation "measure (\<lambda>(d, lt, leaf, n, hole_pos, element, s). n - hole_pos)")
    (auto simp: LeftIndex_def split: if_splits)

declare move_hole_down.simps [simp del]

definition MoveHoleDownAndFill :: "bool \<Rightarrow> ('k \<Rightarrow> 'k \<Rightarrow> bool) \<Rightarrow> bool \<Rightarrow> nat \<Rightarrow> nat \<Rightarrow> 'k heap \<Rightarrow> (nat \<times> 'k heap) res" where
  "MoveHoleDownAndFill d lt leaf hole_pos element s =
     (let n = heap_size s - (if leaf then 1 else 0) in
      bindR (dcheck d (hole_pos < heap_size s) s) (\<lambda>s.
      bindR (dcheck d (hole_pos < n) s) (\<lambda>s.
      bindR (GetHeapHandle hole_pos s) (\<lambda>h.
      bindR (dcheck d (\<not> HeapHandle_IsValid h) s) (\<lambda>s.
      bindR (move_hole_down d lt leaf n hole_pos element s) (\<lambda>(hole_pos, s).
        if leaf then MoveHoleUpAndFill d lt hole_pos element s
        else bindR (FillHole d hole_pos element s) (\<lambda>s. Inr (hole_pos, s))))))))"

section \<open>Operations\<close>

text \<open>An iterator into the vector is its index; moving out of a slot leaves it without object.\<close>

definition move_out :: "nat \<Rightarrow> 'k heap \<Rightarrow> (nat \<times> 'k heap) res" where
  "move_out pos s = bindR (slot_object pos s) (\<lambda>e. Inr (e, s\<lparr>heap_slots := (heap_slots s)[pos := None]\<rparr>))"

definition InsertImpl :: "bool \<Rightarrow> ('k \<Rightarrow> 'k \<Rightarrow> bool) \<Rightarrow> nat \<Rightarrow> 'k heap \<Rightarrow> (nat \<times> 'k heap) res" where
  "InsertImpl d lt element s = MoveHoleUpAndFill d lt (heap_size s) element s"

text \<open>\<open>insert(value_type(*it))\<close> and \<open>emplace\<close>: a new object, with an invalid handle, is inserted.\<close>

definition emplace :: "bool \<Rightarrow> ('k \<Rightarrow> 'k \<Rightarrow> bool) \<Rightarrow> 'k \<Rightarrow> 'k heap \<Rightarrow> (nat \<times> 'k heap) res" where
  "emplace d lt v s =
     (let e = next_object_id s
      in InsertImpl d lt e (s\<lparr>next_object_id := e + 1, value_of := (value_of s)(e := v),
                               handle_of := (handle_of s)(e := kInvalidIndex)\<rparr>))"

fun insert_range :: "bool \<Rightarrow> ('k \<Rightarrow> 'k \<Rightarrow> bool) \<Rightarrow> 'k list \<Rightarrow> 'k heap \<Rightarrow> 'k heap res" where
  "insert_range d lt [] s = Inr s"
| "insert_range d lt (v # vs) s = bindR (emplace d lt v s) (\<lambda>(i, s). insert_range d lt vs s)"

definition remove_hole :: "bool \<Rightarrow> ('k \<Rightarrow> 'k \<Rightarrow> bool) \<Rightarrow> nat \<Rightarrow> 'k heap \<Rightarrow> 'k heap res" where
  "remove_hole d lt pos s =
     (let last = heap_size s - 1 in
      bindR (if pos \<noteq> last then
               bindR (MakeHole d last s) (\<lambda>s.
               bindR (move_out last s) (\<lambda>(leaf, s).
               bindR (MoveHoleDownAndFill d lt True pos leaf s) (\<lambda>(i, s). Inr s)))
             else Inr s) (\<lambda>s.
        Inr (s\<lparr>heap_slots := butlast (heap_slots s)\<rparr>)))"

definition take_at :: "bool \<Rightarrow> ('k \<Rightarrow> 'k \<Rightarrow> bool) \<Rightarrow> nat \<Rightarrow> 'k heap \<Rightarrow> (nat \<times> 'k heap) res" where
  "take_at d lt pos s =
     bindR (MakeHole d pos s) (\<lambda>s.
     bindR (move_out pos s) (\<lambda>(val, s).
     bindR (remove_hole d lt pos s) (\<lambda>s. Inr (val, s))))"

definition take_top :: "bool \<Rightarrow> ('k \<Rightarrow> 'k \<Rightarrow> bool) \<Rightarrow> 'k heap \<Rightarrow> (nat \<times> 'k heap) res" where
  "take_top d lt s = take_at d lt 0 s"

definition erase_at :: "bool \<Rightarrow> ('k \<Rightarrow> 'k \<Rightarrow> bool) \<Rightarrow> nat \<Rightarrow> 'k heap \<Rightarrow> 'k heap res" where
  "erase_at d lt pos s =
     bindR (dcheck d (pos < heap_size s) s) (\<lambda>s.
     bindR (MakeHole d pos s) (remove_hole d lt pos))"

definition heap_pop :: "bool \<Rightarrow> ('k \<Rightarrow> 'k \<Rightarrow> bool) \<Rightarrow> 'k heap \<Rightarrow> 'k heap res" where
  "heap_pop d lt s = erase_at d lt 0 s"

definition heap_top :: "'k heap \<Rightarrow> nat res" where "heap_top s = slot_object 0 s"

definition ReplaceImpl :: "bool \<Rightarrow> ('k \<Rightarrow> 'k \<Rightarrow> bool) \<Rightarrow> nat \<Rightarrow> nat \<Rightarrow> 'k heap \<Rightarrow> (nat \<times> 'k heap) res" where
  "ReplaceImpl d lt pos element s =
     bindR (MakeHole d pos s) (\<lambda>s.
     bindR (Less_element d lt element pos s) (\<lambda>below.
       if \<not> below then MoveHoleUpAndFill d lt pos element s
       else MoveHoleDownAndFill d lt False pos element s))"

definition ReplaceTopImpl :: "bool \<Rightarrow> ('k \<Rightarrow> 'k \<Rightarrow> bool) \<Rightarrow> nat \<Rightarrow> 'k heap \<Rightarrow> (nat \<times> 'k heap) res" where
  "ReplaceTopImpl d lt element s =
     bindR (MakeHole d 0 s) (MoveHoleDownAndFill d lt False 0 element)"

definition Update :: "bool \<Rightarrow> ('k \<Rightarrow> 'k \<Rightarrow> bool) \<Rightarrow> nat \<Rightarrow> 'k heap \<Rightarrow> (nat \<times> 'k heap) res" where
  "Update d lt pos s =
     bindR (dcheck d (pos < heap_size s) s) (\<lambda>s.
     bindR (MakeHole d pos s) (\<lambda>s.
     bindR (if pos > 0 then
              bindR (ParentIndex d pos) (\<lambda>i. bindR (Less_at d lt pos i s) (\<lambda>l. Inr (\<not> l)))
            else Inr False) (\<lambda>child_greater_eq_parent.
     bindR (move_out pos s) (\<lambda>(element, s).
       if child_greater_eq_parent then MoveHoleUpAndFill d lt pos element s
       else MoveHoleDownAndFill d lt False pos element s))))"

text \<open>\<open>at\<close> throws on a position past the end.\<close>

definition Modify :: "bool \<Rightarrow> ('k \<Rightarrow> 'k \<Rightarrow> bool) \<Rightarrow> nat \<Rightarrow> ('k \<Rightarrow> 'k) \<Rightarrow> 'k heap \<Rightarrow> (nat \<times> 'k heap) res" where
  "Modify d lt index unary_op s =
     (if index < heap_size s then
        bindR (slot_object index s) (\<lambda>e.
          Update d lt index (s\<lparr>value_of := (value_of s)(e := unary_op (value_of s e))\<rparr>))
      else Inl Out_of_range)"

definition heap_clear :: "bool \<Rightarrow> 'k heap \<Rightarrow> 'k heap res" where
  "heap_clear d s =
     bindR (foldR (ClearHeapHandle d) [0..<heap_size s] s) (\<lambda>s. Inr (s\<lparr>heap_slots := []\<rparr>))"

text \<open>\<open>ToIndex\<close> of an iterator, and of a reverse iterator at distance \<open>pos\<close> from \<open>rbegin\<close>.\<close>

definition ToIndex :: "bool \<Rightarrow> nat \<Rightarrow> 'k heap \<Rightarrow> nat res" where
  "ToIndex d pos s =
     bindR (dcheck d (pos \<le> heap_size s) ()) (\<lambda>_.
       Inr (if pos = heap_size s then kInvalidIndex else pos))"

definition ToIndex_reverse :: "bool \<Rightarrow> nat \<Rightarrow> 'k heap \<Rightarrow> nat res" where
  "ToIndex_reverse d pos s =
     bindR (dcheck d (pos \<le> heap_size s) ()) (\<lambda>_.
       Inr (if pos = heap_size s then kInvalidIndex else (heap_size s - pos) - 1))"

section \<open>Operations with another heap\<close>

text \<open>
  The slots of the other heap are an argument, and returned where they change; \<open>None\<close> is the same
  heap.  Copies of objects are new objects.
\<close>

fun copy_objects :: "nat option list \<Rightarrow> 'k heap \<Rightarrow> nat option list \<times> 'k heap" where
  "copy_objects [] s = ([], s)"
| "copy_objects (None # os) s = (case copy_objects os s of (cs, s) \<Rightarrow> (None # cs, s))"
| "copy_objects (Some e # os) s =
     (let c = next_object_id s in
      case copy_objects os (s\<lparr>next_object_id := c + 1, value_of := (value_of s)(c := value_of s e),
                             handle_of := (handle_of s)(c := kInvalidIndex)\<rparr>)
      of (cs, s) \<Rightarrow> (Some c # cs, s))"

definition copy_from :: "bool \<Rightarrow> nat option list \<Rightarrow> 'k heap \<Rightarrow> 'k heap res" where
  "copy_from d other s =
     (case copy_objects other s of (cs, s) \<Rightarrow>
        let s = s\<lparr>heap_slots := cs\<rparr> in foldR (SetHeapHandle d) [0..<heap_size s] s)"

definition IntrusiveHeap_copy :: "bool \<Rightarrow> nat option list \<Rightarrow> 'k heap \<Rightarrow> 'k heap res" where
  "IntrusiveHeap_copy d other s = copy_from d other (IntrusiveHeap_new s)"

definition IntrusiveHeap_destroy :: "bool \<Rightarrow> 'k heap \<Rightarrow> 'k heap res" where
  "IntrusiveHeap_destroy d s = heap_clear d s"

definition heap_copy_assign :: "bool \<Rightarrow> nat option list option \<Rightarrow> 'k heap \<Rightarrow> 'k heap res" where
  "heap_copy_assign d other s =
     bindR (heap_clear d s) (\<lambda>s. copy_from d (case other of None \<Rightarrow> heap_slots s | Some os \<Rightarrow> os) s)"

definition heap_move_assign :: "bool \<Rightarrow> nat option list \<Rightarrow> 'k heap \<Rightarrow> (nat option list \<times> 'k heap) res" where
  "heap_move_assign d other s = bindR (heap_clear d s) (\<lambda>s. Inr ([], s\<lparr>heap_slots := other\<rparr>))"

definition heap_swap :: "nat option list \<Rightarrow> 'k heap \<Rightarrow> nat option list \<times> 'k heap" where
  "heap_swap other s = (heap_slots s, s\<lparr>heap_slots := other\<rparr>)"

end
