(* ===== verification/Heap_Order.thy ===== *)
theory Heap_Order
  imports Prelude "HOL-Library.Multiset"
begin

text \<open>
  Heap-ordered lists: the position of a parent, the order of a whole list, and the weaker orders of
  a list with one element out of place, under exchange of that element with its parent or with its
  largest child.  \<open>ge a b\<close> says \<open>a\<close> may stand above \<open>b\<close>.
\<close>

section \<open>Positions\<close>

definition par :: "nat \<Rightarrow> nat" where "par i = (i - 1) div 2"

lemma par_less: "0 < i \<Longrightarrow> par i < i"
  by (simp add: par_def)

lemma par_le: "par i \<le> i"
  by (simp add: par_def)

lemma par_left [simp]: "par (2 * i + 1) = i" "par (Suc (2 * i)) = i"
  by (simp_all add: par_def)

lemma par_right [simp]: "par (2 * i + 2) = i" "par (Suc (Suc (2 * i))) = i"
  by (simp_all add: par_def)

lemma par_children: "0 < i \<Longrightarrow> par i = h \<longleftrightarrow> i = 2 * h + 1 \<or> i = 2 * h + 2"
  by (auto simp: par_def)

lemma par_child_bound: "0 < i \<Longrightarrow> par i = h \<Longrightarrow> 2 * h + 1 \<le> i"
  by (auto simp: par_children)

definition swap_at :: "nat \<Rightarrow> nat \<Rightarrow> 'a list \<Rightarrow> 'a list" where
  "swap_at i j xs = xs[i := xs ! j, j := xs ! i]"

lemma length_swap_at [simp]: "length (swap_at i j xs) = length xs"
  by (simp add: swap_at_def)

lemma nth_swap_at: "i < length xs \<Longrightarrow> j < length xs \<Longrightarrow>
    swap_at i j xs ! k = (if k = j then xs ! i else if k = i then xs ! j else xs ! k)"
  by (simp add: swap_at_def nth_list_update)

lemma mset_swap_at [simp]: "i < length xs \<Longrightarrow> j < length xs \<Longrightarrow> mset (swap_at i j xs) = mset xs"
  by (simp add: swap_at_def mset_swap)

lemma distinct_swap_at [simp]: "i < length xs \<Longrightarrow> j < length xs \<Longrightarrow> distinct (swap_at i j xs) = distinct xs"
  by (simp add: swap_at_def)

lemma set_swap_at [simp]: "i < length xs \<Longrightarrow> j < length xs \<Longrightarrow> set (swap_at i j xs) = set xs"
  by (simp add: swap_at_def)

section \<open>Orders\<close>

definition heap_order :: "('a \<Rightarrow> 'a \<Rightarrow> bool) \<Rightarrow> 'a list \<Rightarrow> bool" where
  "heap_order ge xs \<longleftrightarrow> (\<forall>i. 0 < i \<and> i < length xs \<longrightarrow> ge (xs ! par i) (xs ! i))"

text \<open>All pairs but those with the element at \<open>h\<close>; what is above \<open>h\<close> may stand above what is below.\<close>

definition loose_order :: "('a \<Rightarrow> 'a \<Rightarrow> bool) \<Rightarrow> 'a list \<Rightarrow> nat \<Rightarrow> bool" where
  "loose_order ge xs h \<longleftrightarrow>
     (\<forall>i. 0 < i \<and> i < length xs \<and> i \<noteq> h \<and> par i \<noteq> h \<longrightarrow> ge (xs ! par i) (xs ! i)) \<and>
     (\<forall>i. 0 < i \<and> i < length xs \<and> par i = h \<and> 0 < h \<longrightarrow> ge (xs ! par h) (xs ! i))"

definition up_order :: "('a \<Rightarrow> 'a \<Rightarrow> bool) \<Rightarrow> 'a list \<Rightarrow> nat \<Rightarrow> bool" where
  "up_order ge xs h \<longleftrightarrow> loose_order ge xs h \<and> (\<forall>i. 0 < i \<and> i < length xs \<and> par i = h \<longrightarrow> ge (xs ! h) (xs ! i))"

definition down_order :: "('a \<Rightarrow> 'a \<Rightarrow> bool) \<Rightarrow> 'a list \<Rightarrow> nat \<Rightarrow> bool" where
  "down_order ge xs h \<longleftrightarrow> loose_order ge xs h \<and> (0 < h \<longrightarrow> ge (xs ! par h) (xs ! h))"

lemma heap_orderD: "heap_order ge xs \<Longrightarrow> 0 < i \<Longrightarrow> i < length xs \<Longrightarrow> ge (xs ! par i) (xs ! i)"
  by (simp add: heap_order_def)

lemma loose_orderD:
  "loose_order ge xs h \<Longrightarrow> 0 < i \<Longrightarrow> i < length xs \<Longrightarrow> i \<noteq> h \<Longrightarrow> par i \<noteq> h \<Longrightarrow> ge (xs ! par i) (xs ! i)"
  "loose_order ge xs h \<Longrightarrow> 0 < i \<Longrightarrow> i < length xs \<Longrightarrow> par i = h \<Longrightarrow> 0 < h \<Longrightarrow> ge (xs ! par h) (xs ! i)"
  by (simp_all add: loose_order_def)

lemma up_order_heap: "up_order ge xs h \<Longrightarrow> h = 0 \<or> ge (xs ! par h) (xs ! h) \<Longrightarrow> heap_order ge xs"
  unfolding up_order_def heap_order_def by (metis less_not_refl loose_orderD(1))

lemma down_order_heap:
  "down_order ge xs h \<Longrightarrow> (\<And>i. 0 < i \<Longrightarrow> i < length xs \<Longrightarrow> par i = h \<Longrightarrow> ge (xs ! h) (xs ! i)) \<Longrightarrow> heap_order ge xs"
  unfolding down_order_def heap_order_def by (metis loose_orderD(1))

lemma loose_order_leaf: "loose_order ge xs h \<Longrightarrow> length xs \<le> 2 * h + 1 \<Longrightarrow> up_order ge xs h"
  unfolding up_order_def using par_child_bound by (metis leD le_trans)

section \<open>Exchanges\<close>

lemma up_order_swap:
  assumes ge: "total_preorder ge" and up: "up_order ge xs h" and h: "0 < h" "h < length xs"
    and below: "\<not> ge (xs ! par h) (xs ! h)"
  shows "up_order ge (swap_at (par h) h xs) (par h)"
proof -
  let ?p = "par h" and ?ys = "swap_at (par h) h xs"
  note trans = total_preorder_trans [OF ge]
  have above: "ge (xs ! h) (xs ! ?p)" by (rule total_preorder_cases [OF ge below])
  have p: "?p < h" "?p < length xs" using h par_less [of h] by auto
  note nth = nth_swap_at [OF p(2) h(2)]
  have loose: "loose_order ge xs h" and kids: "\<And>i. 0 < i \<Longrightarrow> i < length xs \<Longrightarrow> par i = h \<Longrightarrow> ge (xs ! h) (xs ! i)"
    using up by (auto simp: up_order_def)
  have order: "ge (xs ! par i) (xs ! i)" if "0 < i" "i < length xs" "i \<noteq> h" for i
    using that loose_orderD(1) [OF loose] kids by (cases "par i = h") auto
  have sibling: "ge (xs ! h) (xs ! i)" if "0 < i" "i < length xs" "i \<noteq> h" "par i = ?p" for i
    using trans [OF above] order [OF that(1-3)] that(4) by simp
  have "ge (?ys ! par i) (?ys ! i)" if i: "0 < i" "i < length xs" "i \<noteq> ?p" for i
  proof -
    consider "i = h" | "i \<noteq> h" "par i = h" | "i \<noteq> h" "par i = ?p" | "i \<noteq> h" "par i \<noteq> h" "par i \<noteq> ?p" by blast
    then show ?thesis
    proof cases
      case 1 then show ?thesis using above p by (simp add: nth)
    next
      case 2 then show ?thesis using loose_orderD(2) [OF loose i(1,2)] h i p by (simp add: nth)
    next
      case 3 then show ?thesis using sibling [OF i(1,2)] i p by (simp add: nth)
    next
      case 4 then show ?thesis using order [OF i(1,2)] i by (simp add: nth)
    qed
  qed
  moreover have "ge (?ys ! par ?p) (?ys ! i)" if i: "0 < i" "i < length xs" "par i = ?p" "0 < ?p" for i
  proof -
    have pp: "par ?p < ?p" by (rule par_less [OF that(4)])
    have "ge (xs ! par ?p) (xs ! ?p)" using order [of ?p] p i(4) by simp
    moreover have "ge (xs ! par ?p) (xs ! i)" if "i \<noteq> h"
      using trans [OF calculation] order [OF i(1,2) that] i(3) by simp
    moreover have "i \<noteq> ?p" using i(3) par_less [OF i(1)] by auto
    ultimately show ?thesis using pp p by (cases "i = h") (simp_all add: nth)
  qed
  ultimately show ?thesis
    by (simp add: up_order_def loose_order_def) (metis less_not_refl par_less)
qed

lemma loose_order_swap:
  assumes loose: "loose_order ge xs h" and L: "0 < L" "L < length xs" "par L = h"
    and largest: "\<And>i. 0 < i \<Longrightarrow> i < length xs \<Longrightarrow> par i = h \<Longrightarrow> ge (xs ! L) (xs ! i)"
  shows "loose_order ge (swap_at L h xs) L"
proof -
  let ?ys = "swap_at L h xs"
  have h: "h < L" "h < length xs" using L par_less [of L] by auto
  note nth = nth_swap_at [OF L(2) h(2)]
  have "ge (?ys ! par i) (?ys ! i)" if i: "0 < i" "i < length xs" "i \<noteq> L" "par i \<noteq> L" for i
  proof (cases "i = h")
    case True
    then have "par h < h" using par_less [of h] i by simp
    then show ?thesis using True loose_orderD(2) [OF loose L(1,2,3)] h i by (simp add: nth)
  next
    case False
    then show ?thesis
      using i largest [OF i(1,2)] loose_orderD(1) [OF loose i(1,2)] h by (cases "par i = h") (simp_all add: nth)
  qed
  moreover have "ge (?ys ! par L) (?ys ! i)" if i: "0 < i" "i < length xs" "par i = L" for i
  proof -
    have "L < i" using par_less [OF i(1)] i(3) by simp
    then show ?thesis using loose_orderD(1) [OF loose i(1,2)] i h L by (simp add: nth)
  qed
  ultimately show ?thesis by (simp add: loose_order_def)
qed

lemma down_order_swap:
  assumes "down_order ge xs h" and L: "0 < L" "L < length xs" "par L = h"
    and "\<And>i. 0 < i \<Longrightarrow> i < length xs \<Longrightarrow> par i = h \<Longrightarrow> ge (xs ! L) (xs ! i)"
    and "ge (xs ! L) (xs ! h)"
  shows "down_order ge (swap_at L h xs) L"
proof -
  have "h < L" "h < length xs" using L par_less [of L] by auto
  with assms show ?thesis
    using loose_order_swap [of ge xs h L] by (simp add: down_order_def nth_swap_at)
qed

section \<open>The element above all\<close>

lemma heap_order_top:
  assumes ge: "total_preorder ge" and "heap_order ge xs"
  shows "i < length xs \<Longrightarrow> ge (xs ! 0) (xs ! i)"
proof (induction i rule: less_induct)
  case (less i)
  show ?case
  proof (cases "i = 0")
    case True
    then show ?thesis by (simp add: total_preorder_refl [OF ge])
  next
    case False
    then have "par i < i" using par_less by simp
    then have "ge (xs ! 0) (xs ! par i)" using less by auto
    moreover have "ge (xs ! par i) (xs ! i)" using heap_orderD [OF assms(2)] False less.prems by simp
    ultimately show ?thesis by (rule total_preorder_trans [OF ge])
  qed
qed

section \<open>Replacing, adding and removing an element\<close>

lemma heap_order_append: "heap_order ge xs \<Longrightarrow> up_order ge (xs @ [x]) (length xs)"
proof -
  assume order: "heap_order ge xs"
  have "ge ((xs @ [x]) ! par i) ((xs @ [x]) ! i)" if i: "0 < i" "i < length xs" for i
    using heap_orderD [OF order i] i par_less [OF i(1)] by (simp add: nth_append)
  moreover have "\<not> par i = length xs" if "0 < i" "i < Suc (length xs)" for i
    using that par_less [of i] by simp
  moreover have "par (length xs) \<noteq> length xs" if "0 < length xs" using par_less [OF that] by simp
  ultimately show ?thesis unfolding up_order_def loose_order_def by (auto simp: less_Suc_eq)
qed

lemma heap_order_loose:
  assumes ge: "total_preorder ge" and order: "heap_order ge xs" and h: "h < length xs"
  shows "loose_order ge (xs[h := x]) h"
proof -
  have "ge (xs[h := x] ! par h) (xs[h := x] ! i)" if i: "0 < i" "i < length xs" "par i = h" "0 < h" for i
  proof -
    have "ge (xs ! par h) (xs ! i)"
      using total_preorder_trans [OF ge heap_orderD [OF order i(4) h]] heap_orderD [OF order i(1,2)] i(3) by simp
    moreover have "h < i" "par h < h" using par_less [OF i(1)] par_less [OF i(4)] i(3) by simp_all
    ultimately show ?thesis by simp
  qed
  then show ?thesis
    using heap_orderD [OF order] by (simp add: loose_order_def)
qed

end
