(* ===== verification/Heap_Holes.thy ===== *)
theory Heap_Holes
  imports Intrusive_Heap Heap_Order
begin

text \<open>
  The heap's algorithm.  A vector with a hole and an element to fill it is read as the list with
  the element in the hole: moving the hole is then exchanging two elements of that list, and every
  element but the one in the hole has its position in its handle.
\<close>

text \<open>Positions below \<open>heap_limit\<close>, the size of a vector of pointers, double without wrapping.\<close>

definition heap_limit :: nat where "heap_limit = 2 ^ 60"

lemma LeftIndex_word: "i < heap_limit \<Longrightarrow> unat (2 * of_nat i + 1 :: 64 word) = LeftIndex i"
  by (simp add: heap_limit_def LeftIndex_def unat_word_ariths unat_of_nat)

lemma valid_position: "i < heap_limit \<Longrightarrow> HeapHandle_IsValid i"
  by (simp add: heap_limit_def HeapHandle_IsValid_def kInvalidIndex_def)

section \<open>Holes\<close>

text \<open>
  \<open>holed s h ys k\<close>: the vector holds \<open>ys\<close>, but for the element at \<open>h\<close>, and \<open>k\<close> slots more; the
  slot \<open>h\<close> may be the one past the end.
\<close>

definition placed :: "'k heap \<Rightarrow> nat \<Rightarrow> nat \<Rightarrow> bool" where
  "placed s i e \<longleftrightarrow> i < heap_size s \<and> heap_slots s ! i = Some e \<and> handle_of s e = i"

definition holed :: "'k heap \<Rightarrow> nat \<Rightarrow> nat list \<Rightarrow> nat \<Rightarrow> bool" where
  "holed s h ys k \<longleftrightarrow>
     distinct ys \<and> h < length ys \<and> length ys \<le> heap_limit \<and>
     (\<forall>i < length ys. i \<noteq> h \<longrightarrow> placed s i (ys ! i)) \<and>
     (heap_size s = length ys + k \<or> k = 0 \<and> length ys = h + 1 \<and> heap_size s = h)"

definition filled :: "'k heap \<Rightarrow> nat list \<Rightarrow> nat \<Rightarrow> bool" where
  "filled s ys k \<longleftrightarrow>
     distinct ys \<and> length ys \<le> heap_limit \<and> (\<forall>i < length ys. placed s i (ys ! i)) \<and> heap_size s = length ys + k"

text \<open>What the algorithm leaves alone: values, and the handles of objects outside the list.\<close>

definition only_handles :: "'k heap \<Rightarrow> nat set \<Rightarrow> 'k heap \<Rightarrow> bool" where
  "only_handles s A t \<longleftrightarrow> value_of t = value_of s \<and> next_object_id t = next_object_id s \<and>
     (\<forall>e. e \<notin> A \<longrightarrow> handle_of t e = handle_of s e)"

lemma only_handles_refl: "only_handles s A s"
  by (simp add: only_handles_def)

lemma only_handles_trans: "only_handles s A t \<Longrightarrow> only_handles t A u \<Longrightarrow> only_handles s A u"
  by (simp add: only_handles_def)

lemma only_handles_mono: "only_handles s A t \<Longrightarrow> A \<subseteq> B \<Longrightarrow> only_handles s B t"
  by (auto simp: only_handles_def)

lemma placed_slot_object: "placed s i e \<Longrightarrow> slot_object i s = Inr e"
  by (simp add: placed_def slot_object_def)

lemma holedD:
  "holed s h ys k \<Longrightarrow> i < length ys \<Longrightarrow> i \<noteq> h \<Longrightarrow> placed s i (ys ! i)"
  "holed s h ys k \<Longrightarrow> h \<le> heap_size s"
  by (auto simp: holed_def)

lemma SetHeapHandle_ok:
  "i < heap_size s \<Longrightarrow> heap_slots s ! i = Some e \<Longrightarrow> i < heap_limit \<Longrightarrow>
     SetHeapHandle d i s = Inr (s\<lparr>handle_of := (handle_of s)(e := i)\<rparr>)"
  by (simp add: SetHeapHandle_def storage_SetHeapHandle_def GetHeapHandle_def CheckInvalidOrEqualTo_def
      heap_size_def valid_position)

lemma MoveHole_ok:
  assumes s: "holed s h ys k" and j: "j < length ys" "j \<noteq> h"
  shows "resT (\<lambda>t. holed t j (swap_at j h ys) k \<and> only_handles s (set ys) t) (MoveHole d j h s)"
proof -
  let ?rest = "(heap_slots s)[j := None]"
  let ?slots = "if h = heap_size s then ?rest @ [Some (ys ! j)] else ?rest[h := Some (ys ! j)]"
  let ?t = "s\<lparr>heap_slots := ?slots, handle_of := (handle_of s)(ys ! j := h)\<rparr>"
  have h: "h < length ys" "h \<le> heap_size s" "length ys \<le> heap_limit" "distinct ys" using s by (auto simp: holed_def)
  have pj: "j < heap_size s" "heap_slots s ! j = Some (ys ! j)" using holedD(1) [OF s j] by (auto simp: placed_def)
  have slot: "h < length ?slots" "?slots ! h = Some (ys ! j)"
    using h(2) j(2) pj by (auto simp: heap_size_def nth_append)
  have "MoveHole d j h s = Inr ?t"
    using SetHeapHandle_ok [of h "s\<lparr>heap_slots := ?slots\<rparr>" "ys ! j" d] slot pj h j(2)
    by (simp add: MoveHole_def Let_def heap_size_def)
  moreover have "placed ?t i (swap_at j h ys ! i)" if i: "i < length ys" "i \<noteq> j" for i
  proof (cases "i = h")
    case True
    with slot j h show ?thesis by (simp add: placed_def heap_size_def nth_swap_at)
  next
    case False
    have p: "placed s i (ys ! i)" by (rule holedD(1) [OF s i(1) False])
    then have "?slots ! i = Some (ys ! i)" "i < length ?slots"
      using i(2) False by (auto simp: placed_def heap_size_def nth_append)
    moreover have "ys ! i \<noteq> ys ! j" using h(4) i j by (simp add: nth_eq_iff_index_eq)
    ultimately show ?thesis using p i False j h by (simp add: placed_def heap_size_def nth_swap_at)
  qed
  moreover have "heap_size ?t = length ys + k"
    using s h by (auto simp: holed_def heap_size_def)
  ultimately show ?thesis
    using h j by (simp add: holed_def only_handles_def)
qed

lemma FillHole_ok:
  assumes s: "holed s h ys k"
  shows "resT (\<lambda>t. filled t ys k \<and> only_handles s (set ys) t) (FillHole d h (ys ! h) s)"
proof -
  let ?slots = "if h = heap_size s then heap_slots s @ [Some (ys ! h)] else (heap_slots s)[h := Some (ys ! h)]"
  let ?t = "s\<lparr>heap_slots := ?slots, handle_of := (handle_of s)(ys ! h := h)\<rparr>"
  have h: "h < length ys" "h \<le> heap_size s" "length ys \<le> heap_limit" "distinct ys" using s by (auto simp: holed_def)
  have slot: "h < length ?slots" "?slots ! h = Some (ys ! h)" using h(2) by (auto simp: heap_size_def)
  have "FillHole d h (ys ! h) s = Inr ?t"
    using SetHeapHandle_ok [of h "s\<lparr>heap_slots := ?slots\<rparr>" "ys ! h" d] slot h
    by (cases "h = length (heap_slots s)") (simp_all add: FillHole_def heap_size_def)
  moreover have "placed ?t i (ys ! i)" if i: "i < length ys" for i
  proof (cases "i = h")
    case True
    with slot show ?thesis by (simp add: placed_def heap_size_def)
  next
    case False
    have p: "placed s i (ys ! i)" by (rule holedD(1) [OF s i False])
    then have "?slots ! i = Some (ys ! i)" "i < length ?slots"
      using False by (auto simp: placed_def heap_size_def nth_append)
    moreover have "ys ! i \<noteq> ys ! h" using h False i by (simp add: nth_eq_iff_index_eq)
    ultimately show ?thesis using p False by (simp add: placed_def heap_size_def)
  qed
  moreover have "heap_size ?t = length ys + k"
    using s h by (auto simp: holed_def heap_size_def)
  ultimately show ?thesis
    using h by (simp add: filled_def only_handles_def)
qed

section \<open>Moving up\<close>

definition ge_in :: "('k \<Rightarrow> 'k \<Rightarrow> bool) \<Rightarrow> 'k heap \<Rightarrow> nat \<Rightarrow> nat \<Rightarrow> bool" where
  "ge_in lt s a b \<longleftrightarrow> \<not> lt (value_of s a) (value_of s b)"

lemma ge_in_preorder: "strict_weak lt \<Longrightarrow> total_preorder (ge_in lt s)"
  unfolding strict_weak_def total_preorder_def ge_in_def by blast

lemma ge_in_only_handles: "only_handles s A t \<Longrightarrow> ge_in lt t = ge_in lt s"
  by (simp add: only_handles_def ge_in_def fun_eq_iff)

text \<open>What the moves of a hole end in: the same objects, heap-ordered, \<open>x\<close> at the returned position.\<close>

definition settled :: "('k \<Rightarrow> 'k \<Rightarrow> bool) \<Rightarrow> 'k heap \<Rightarrow> nat list \<Rightarrow> nat \<Rightarrow> nat \<Rightarrow> nat \<times> 'k heap \<Rightarrow> bool" where
  "settled lt s ys k x r \<longleftrightarrow>
     (\<exists>zs. filled (snd r) zs k \<and> mset zs = mset ys \<and> heap_order (ge_in lt s) zs \<and> fst r < length zs \<and> zs ! fst r = x) \<and>
     only_handles s (set ys) (snd r)"

lemma settled_trans:
  "only_handles s (set ys) t \<Longrightarrow> mset ys' = mset ys \<Longrightarrow> settled lt t ys' k x r \<Longrightarrow> settled lt s ys k x r"
  using ge_in_only_handles [of s "set ys" t lt] only_handles_trans [of s "set ys" t "snd r"] mset_eq_setD [of ys' ys]
  by (auto simp: settled_def)

lemma Fill_settled:
  assumes "holed s h ys k" "heap_order (ge_in lt s) ys"
  shows "resT (settled lt s ys k (ys ! h)) (bindR (FillHole d h (ys ! h) s) (\<lambda>s. Inr (h, s)))"
proof -
  have "h < length ys" using assms(1) by (simp add: holed_def)
  then show ?thesis
    using assms(2) by (auto simp: resT_bindR settled_def intro!: resT_mono [OF FillHole_ok [OF assms(1)]])
qed

lemma MoveHoleUpAndFill_ok:
  assumes lt: "strict_weak lt"
  shows "holed s h ys k \<Longrightarrow> up_order (ge_in lt s) ys h \<Longrightarrow> x = ys ! h \<Longrightarrow>
     resT (settled lt s ys k x) (MoveHoleUpAndFill d lt h x s)"
proof (induction h arbitrary: s ys rule: less_induct)
  case (less h)
  note s = less.prems(1) and up = less.prems(2)
  have h: "h < length ys" "h \<le> heap_size s" using s by (auto simp: holed_def)
  show ?case
  proof (cases "h = 0 \<or> ge_in lt s (ys ! par h) (ys ! h)")
    case True
    have order: "heap_order (ge_in lt s) ys" by (rule up_order_heap [OF up True])
    have "0 < h \<Longrightarrow> placed s (par h) (ys ! par h)" using holedD(1) [OF s, of "par h"] par_less [of h] h by simp
    then have "MoveHoleUpAndFill d lt h x s = bindR (FillHole d h x s) (\<lambda>s. Inr (h, s))"
      using True h less.prems(3) placed_slot_object [of s "par h"]
      by (subst MoveHoleUpAndFill.simps) (auto simp: ParentIndex_def par_def Less_than_element_def ge_in_def placed_def)
    with Fill_settled [OF s order] less.prems(3) show ?thesis by simp
  next
    case False
    then have h0: "0 < h" and below: "\<not> ge_in lt s (ys ! par h) (ys ! h)" by auto
    have p: "par h < h" "par h < length ys" using par_less [OF h0] h by auto
    have "placed s (par h) (ys ! par h)" using holedD(1) [OF s p(2)] p by simp
    then have "MoveHoleUpAndFill d lt h x s = bindR (MoveHole d (par h) h s) (MoveHoleUpAndFill d lt (par h) x)"
      using below h0 h less.prems(3) placed_slot_object [of s "par h"]
      by (subst MoveHoleUpAndFill.simps) (simp add: ParentIndex_def par_def Less_than_element_def ge_in_def placed_def)
    moreover have "resT (settled lt s ys k x) (MoveHoleUpAndFill d lt (par h) x t)"
      if t: "holed t (par h) (swap_at (par h) h ys) k \<and> only_handles s (set ys) t" for t
    proof -
      have "up_order (ge_in lt t) (swap_at (par h) h ys) (par h)"
        using up_order_swap [OF ge_in_preorder [OF lt] up h0 h(1) below] ge_in_only_handles [of s "set ys" t] t by simp
      moreover have "x = swap_at (par h) h ys ! par h" using less.prems(3) p h by (simp add: nth_swap_at)
      ultimately have "resT (settled lt t (swap_at (par h) h ys) k x) (MoveHoleUpAndFill d lt (par h) x t)"
        using less.IH [OF p(1)] t by blast
      then show ?thesis
        by (rule resT_mono) (rule settled_trans [of s ys t "swap_at (par h) h ys"], use t p h in simp_all)
    qed
    ultimately show ?thesis
      using MoveHole_ok [OF s p(2)] p by (auto intro: resT_bindI)
  qed
qed

section \<open>Moving down\<close>

text \<open>Where moving down stops: at a leaf, or, for an element from inside, where it may stay.\<close>

definition sunk :: "('k \<Rightarrow> 'k \<Rightarrow> bool) \<Rightarrow> bool \<Rightarrow> 'k heap \<Rightarrow> nat list \<Rightarrow> nat \<Rightarrow> nat \<Rightarrow> nat \<times> 'k heap \<Rightarrow> bool" where
  "sunk lt leaf s ys k x r \<longleftrightarrow>
     (\<exists>zs. holed (snd r) (fst r) zs k \<and> mset zs = mset ys \<and> zs ! fst r = x \<and>
        (if leaf then up_order (ge_in lt s) zs (fst r) else heap_order (ge_in lt s) zs)) \<and>
     only_handles s (set ys) (snd r)"

lemma sunk_trans:
  "only_handles s (set ys) t \<Longrightarrow> mset ys' = mset ys \<Longrightarrow> sunk lt leaf t ys' k x r \<Longrightarrow> sunk lt leaf s ys k x r"
  using ge_in_only_handles [of s "set ys" t lt] only_handles_trans [of s "set ys" t "snd r"] mset_eq_setD [of ys' ys]
  by (auto simp: sunk_def)

lemma largest_child:
  assumes lt: "strict_weak lt" and s: "holed s h ys k" and left: "LeftIndex h < length ys"
  obtains L where "0 < L" "L < length ys" "par L = h" "h < L"
    "\<And>i. 0 < i \<Longrightarrow> i < length ys \<Longrightarrow> par i = h \<Longrightarrow> ge_in lt s (ys ! L) (ys ! i)"
    "(if LeftIndex h + 1 < length ys then Less_at d lt (LeftIndex h) (LeftIndex h + 1) s else Inr False)
       = Inr (L = LeftIndex h + 1)" "L = LeftIndex h \<or> L = LeftIndex h + 1"
proof -
  let ?l = "LeftIndex h" and ?r = "LeftIndex h + 1"
  note refl = total_preorder_refl [OF ge_in_preorder [OF lt]] and cases = total_preorder_cases [OF ge_in_preorder [OF lt]]
  have pos: "h < ?l" "h < ?r" "par ?l = h" "par ?r = h" by (simp_all add: LeftIndex_def)
  have child: "i = ?l \<or> i = ?r" if "0 < i" "par i = h" for i
    using that by (simp add: par_children LeftIndex_def)
  have pl: "placed s ?l (ys ! ?l)" using holedD(1) [OF s left] pos by simp
  show thesis
  proof (cases "?r < length ys")
    case True
    have pr: "placed s ?r (ys ! ?r)" using holedD(1) [OF s True] pos by simp
    then have less: "Less_at d lt ?l ?r s = Inr (lt (value_of s (ys ! ?l)) (value_of s (ys ! ?r)))"
      using pl placed_slot_object [OF pl] placed_slot_object [OF pr] by (simp add: Less_at_def placed_def)
    show thesis
    proof (cases "ge_in lt s (ys ! ?l) (ys ! ?r)")
      case ge: True
      have "ge_in lt s (ys ! ?l) (ys ! i)" if "0 < i" "par i = h" for i
        using child [OF that] ge refl by auto
      then show thesis
        by (rule that [of ?l, rotated 4]) (use pos left less ge True in \<open>simp_all add: ge_in_def\<close>)
    next
      case lt': False
      have "ge_in lt s (ys ! ?r) (ys ! i)" if "0 < i" "par i = h" for i
        using child [OF that] cases [OF lt'] refl by auto
      then show thesis
        by (rule that [of ?r, rotated 4]) (use pos left less lt' True in \<open>simp_all add: ge_in_def\<close>)
    qed
  next
    case False
    have "ge_in lt s (ys ! ?l) (ys ! i)" if "0 < i" "par i = h" "i < length ys" for i
      using child [OF that(1,2)] that(3) False refl by auto
    then show thesis
      by (rule that [of ?l, rotated 4]) (use pos left False in simp_all)
  qed
qed

lemma move_hole_down_ok:
  assumes lt: "strict_weak lt"
  shows "holed s h ys k \<Longrightarrow> loose_order (ge_in lt s) ys h \<Longrightarrow> (\<not> leaf \<Longrightarrow> down_order (ge_in lt s) ys h) \<Longrightarrow>
     x = ys ! h \<Longrightarrow> resT (sunk lt leaf s ys k x) (move_hole_down d lt leaf (length ys) h x s)"
proof (induction "length ys - h" arbitrary: s h ys rule: less_induct)
  case less
  note s = less.prems(1) and loose = less.prems(2) and down = less.prems(3) and x = less.prems(4)
  let ?n = "length ys"
  have h: "h < ?n" using s by (simp add: holed_def)
  show ?case
  proof (cases "LeftIndex h < ?n")
    case False
    then have childless: "\<not> (0 < i \<and> i < ?n \<and> par i = h)" for i
      using par_child_bound [of i h] by (auto simp: LeftIndex_def)
    have "up_order (ge_in lt s) ys h"
      using loose False by (intro loose_order_leaf) (simp_all add: LeftIndex_def)
    moreover have "\<not> leaf \<Longrightarrow> heap_order (ge_in lt s) ys"
      using down_order_heap [OF down] childless by blast
    ultimately have "sunk lt leaf s ys k x (h, s)"
      using s x by (auto simp: sunk_def only_handles_refl)
    then show ?thesis using False by (subst move_hole_down.simps) (simp add: Let_def)
  next
    case True
    obtain L where L: "0 < L" "L < ?n" "par L = h" "h < L"
      and largest: "\<And>i. 0 < i \<Longrightarrow> i < ?n \<Longrightarrow> par i = h \<Longrightarrow> ge_in lt s (ys ! L) (ys ! i)"
      and right: "(if LeftIndex h + 1 < ?n then Less_at d lt (LeftIndex h) (LeftIndex h + 1) s else Inr False)
          = Inr (L = LeftIndex h + 1)" and side: "L = LeftIndex h \<or> L = LeftIndex h + 1"
      by (rule largest_child [OF lt s True, of d]) (rule that)
    have "placed s L (ys ! L)" using holedD(1) [OF s L(2)] L(4) by simp
    then have less: "Less_element d lt x L s = Inr (\<not> ge_in lt s x (ys ! L))"
      using placed_slot_object [of s L] by (simp add: Less_element_def ge_in_def placed_def)
    have step: "move_hole_down d lt leaf ?n h x s =
        (if leaf \<or> \<not> ge_in lt s x (ys ! L) then bindR (MoveHole d L h s) (move_hole_down d lt leaf ?n L x) else Inr (h, s))"
      using True right side less by (subst move_hole_down.simps) (auto simp: Let_def)
    show ?thesis
    proof (cases "leaf \<or> \<not> ge_in lt s x (ys ! L)")
      case False
      then have "heap_order (ge_in lt s) ys"
        using down_order_heap [OF down] total_preorder_trans [OF ge_in_preorder [OF lt]] largest x by blast
      then have "sunk lt leaf s ys k x (h, s)"
        using s x False by (auto simp: sunk_def only_handles_refl)
      then show ?thesis using step False by simp
    next
      case go: True
      let ?ys = "swap_at L h ys"
      have "resT (sunk lt leaf s ys k x) (move_hole_down d lt leaf ?n L x t)"
        if t: "holed t L ?ys k \<and> only_handles s (set ys) t" for t
      proof -
        have same: "ge_in lt t = ge_in lt s" using t ge_in_only_handles by blast
        have "loose_order (ge_in lt t) ?ys L" unfolding same by (rule loose_order_swap [OF loose L(1-3) largest])
        moreover have "down_order (ge_in lt t) ?ys L" if "\<not> leaf"
        proof -
          have above: "ge_in lt s (ys ! L) (ys ! h)"
            using total_preorder_cases [OF ge_in_preorder [OF lt]] go that x by blast
          show ?thesis unfolding same by (rule down_order_swap [OF down [OF that] L(1-3) largest above])
        qed
        moreover have "x = ?ys ! L" using x L h by (simp add: nth_swap_at)
        ultimately have "resT (sunk lt leaf t ?ys k x) (move_hole_down d lt leaf ?n L x t)"
          using less.hyps [of ?ys L t] t L h by simp
        then show ?thesis
          by (rule resT_mono) (rule sunk_trans [of s ys t ?ys], use t L h in simp_all)
      qed
      then show ?thesis
        unfolding step using MoveHole_ok [OF s L(2)] L(4) go by (auto intro: resT_bindI)
    qed
  qed
qed

lemma MoveHoleDownAndFill_ok:
  assumes lt: "strict_weak lt" and s: "holed s h ys (if leaf then 1 else 0)" "heap_size s = length ys + (if leaf then 1 else 0)"
    and loose: "loose_order (ge_in lt s) ys h" and down: "\<not> leaf \<Longrightarrow> down_order (ge_in lt s) ys h"
    and invalid: "GetHeapHandle h s = Inr kInvalidIndex"
  shows "resT (settled lt s ys (if leaf then 1 else 0) (ys ! h)) (MoveHoleDownAndFill d lt leaf h (ys ! h) s)"
proof -
  let ?k = "if leaf then 1 else 0 :: nat" and ?x = "ys ! h"
  have h: "h < length ys" using s by (simp add: holed_def)
  have rest: "resT (settled lt s ys ?k ?x) (if leaf then MoveHoleUpAndFill d lt i ?x t
      else bindR (FillHole d i ?x t) (\<lambda>t. Inr (i, t)))" if "sunk lt leaf s ys ?k ?x (i, t)" for i t
  proof -
    from that [unfolded sunk_def fst_conv snd_conv] obtain zs where zs: "holed t i zs ?k" "mset zs = mset ys" "zs ! i = ?x"
        "if leaf then up_order (ge_in lt s) zs i else heap_order (ge_in lt s) zs"
      and same: "only_handles s (set ys) t" by blast
    note order = ge_in_only_handles [OF same, of lt]
    have "resT (settled lt t zs ?k ?x) (if leaf then MoveHoleUpAndFill d lt i ?x t
        else bindR (FillHole d i ?x t) (\<lambda>t. Inr (i, t)))"
      using MoveHoleUpAndFill_ok [OF lt, of t i zs ?k ?x d] Fill_settled [of t i zs ?k lt d] zs order by auto
    then show ?thesis by (rule resT_mono) (rule settled_trans [OF same zs(2)])
  qed
  have "resT (sunk lt leaf s ys ?k ?x) (move_hole_down d lt leaf (length ys) h ?x s)"
    by (rule move_hole_down_ok [OF lt s(1) loose down refl])
  then have "resT (settled lt s ys ?k ?x) (bindR (move_hole_down d lt leaf (length ys) h ?x s) (\<lambda>(i, t).
      if leaf then MoveHoleUpAndFill d lt i ?x t else bindR (FillHole d i ?x t) (\<lambda>t. Inr (i, t))))"
    by (rule resT_bindI) (use rest in auto)
  moreover have "heap_size s - ?k = length ys" "h < heap_size s" using s(2) h by simp_all
  ultimately show ?thesis
    using h invalid unfolding MoveHoleDownAndFill_def Let_def by (simp only: dcheck_True bindR_Inr HeapHandle_IsValid_def) simp
qed

end
