(* ===== verification/Heap_Props.thy ===== *)
theory Heap_Props
  imports Heap_Holes
begin

text \<open>
  The operations of the intrusive heap, on states that satisfy its invariant: a multiset of objects
  with a greatest one on top, every handle the position of its object.
\<close>

section \<open>Invariant\<close>

definition elements :: "'k heap \<Rightarrow> nat list" where
  "elements s = map the (heap_slots s)"

definition heap_inv :: "('k \<Rightarrow> 'k \<Rightarrow> bool) \<Rightarrow> 'k heap \<Rightarrow> bool" where
  "heap_inv lt s \<longleftrightarrow> filled s (elements s) 0 \<and> heap_order (ge_in lt s) (elements s) \<and>
     (\<forall>e \<in> set (elements s). e < next_object_id s)"

text \<open>
  \<open>heap_to lt s M t\<close>: from \<open>s\<close> the heap came to hold \<open>M\<close> in \<open>t\<close>; objects that left have an invalid
  handle, and no other object is touched.
\<close>

definition heap_to :: "('k \<Rightarrow> 'k \<Rightarrow> bool) \<Rightarrow> 'k heap \<Rightarrow> nat multiset \<Rightarrow> 'k heap \<Rightarrow> bool" where
  "heap_to lt s M t \<longleftrightarrow> heap_inv lt t \<and> mset (elements t) = M \<and> value_of t = value_of s \<and>
     next_object_id t = next_object_id s \<and>
     (\<forall>e. e \<notin> set (elements s) \<and> e \<notin># M \<longrightarrow> handle_of t e = handle_of s e) \<and>
     (\<forall>e. e \<in> set (elements s) \<and> e \<notin># M \<longrightarrow> handle_of t e = kInvalidIndex)"

lemma length_elements [simp]: "length (elements s) = heap_size s"
  by (simp add: elements_def heap_size_def)

lemma elements_upd [simp]:
  "elements (s\<lparr>handle_of := h\<rparr>) = elements s" "elements (s\<lparr>value_of := v\<rparr>) = elements s"
  "elements (s\<lparr>next_object_id := n\<rparr>) = elements s"
  by (simp_all add: elements_def)

lemma filled_elements: "filled s zs 0 \<Longrightarrow> elements s = zs"
  by (auto simp: filled_def elements_def heap_size_def placed_def intro: nth_equalityI)

lemma heap_invD:
  assumes "heap_inv lt s"
  shows "filled s (elements s) 0" "heap_order (ge_in lt s) (elements s)" "distinct (elements s)"
    "i < heap_size s \<Longrightarrow> placed s i (elements s ! i)" "heap_size s \<le> heap_limit"
    "e \<in> set (elements s) \<Longrightarrow> e < next_object_id s"
  using assms by (auto simp: heap_inv_def filled_def)

lemma heap_inv_new: "heap_inv lt (IntrusiveHeap_new s)"
  by (simp add: heap_inv_def filled_def IntrusiveHeap_new_def elements_def heap_size_def heap_order_def heap_limit_def)

text \<open>The elements are the objects whose handle leads back to them.\<close>

lemma heap_inv_handle:
  assumes "heap_inv lt s" "e \<in> set (elements s)"
  shows "HeapHandle_IsValid (handle_of s e) \<and> handle_of s e < heap_size s \<and> elements s ! handle_of s e = e"
proof -
  from assms(2) obtain i where i: "i < heap_size s" "elements s ! i = e" by (auto simp: in_set_conv_nth)
  then have "handle_of s e = i" using heap_invD(4) [OF assms(1) i(1)] by (simp add: placed_def)
  moreover have "i < heap_limit" using i heap_invD(5) [OF assms(1)] by simp
  ultimately show ?thesis using i valid_position by simp
qed

section \<open>First steps\<close>

definition invalidate :: "nat \<Rightarrow> 'k heap \<Rightarrow> 'k heap" where
  "invalidate e s = s\<lparr>handle_of := (handle_of s)(e := kInvalidIndex)\<rparr>"

lemma invalidate_simps [simp]:
  "heap_slots (invalidate e s) = heap_slots s" "value_of (invalidate e s) = value_of s"
  "next_object_id (invalidate e s) = next_object_id s" "heap_size (invalidate e s) = heap_size s"
  "handle_of (invalidate e s) e' = (if e' = e then kInvalidIndex else handle_of s e')"
  "elements (invalidate e s) = elements s" "ge_in lt (invalidate e s) = ge_in lt s"
  "slot_object i (invalidate e s) = slot_object i s"
  by (simp_all add: invalidate_def heap_size_def elements_def ge_in_def fun_eq_iff slot_object_def)

lemma ge_in_upd [simp]: "ge_in lt (s\<lparr>heap_slots := x\<rparr>) = ge_in lt s" "ge_in lt (s\<lparr>next_object_id := n\<rparr>) = ge_in lt s"
  by (simp_all add: ge_in_def fun_eq_iff)

lemma MakeHole_placed: "placed s i e \<Longrightarrow> MakeHole d i s = Inr (invalidate e s)"
  by (simp add: MakeHole_def ClearHeapHandle_def storage_ClearHeapHandle_def GetHeapHandle_def placed_def
      heap_size_def invalidate_def HeapHandle_IsValid_def)

lemma placed_invalidate: "placed s i a \<Longrightarrow> a \<noteq> e \<Longrightarrow> placed (invalidate e s) i a"
  by (simp add: placed_def)

lemma GetHeapHandle_invalidated: "placed s i e \<Longrightarrow> GetHeapHandle i (invalidate e s) = Inr kInvalidIndex"
  by (simp add: GetHeapHandle_def placed_def)

lemma move_out_placed:
  "i < heap_size s \<Longrightarrow> heap_slots s ! i = Some e \<Longrightarrow> move_out i s = Inr (e, s\<lparr>heap_slots := (heap_slots s)[i := None]\<rparr>)"
  by (simp add: move_out_def slot_object_def)

lemma settled_heap_to:
  assumes "settled lt t ys 0 x (i, u)" "value_of t = value_of s" "next_object_id t = next_object_id s"
    "\<And>e. e \<notin> set ys \<Longrightarrow> handle_of t e = (if e \<in> set (elements s) then kInvalidIndex else handle_of s e)"
    "\<forall>e \<in> set ys. e < next_object_id s"
  shows "heap_to lt s (mset ys) u \<and> i < heap_size u \<and> elements u ! i = x"
proof -
  from assms(1) obtain zs where zs: "filled u zs 0" "mset zs = mset ys" "heap_order (ge_in lt t) zs" "i < length zs" "zs ! i = x"
    and same: "only_handles t (set ys) u" by (auto simp: settled_def)
  have "elements u = zs" by (rule filled_elements [OF zs(1)])
  moreover have "set zs = set ys" by (rule mset_eq_setD [OF zs(2)])
  ultimately show ?thesis
    using zs same assms(2-5) ge_in_only_handles [OF same, of lt]
    by (auto simp: heap_to_def heap_inv_def only_handles_def filled_def)
qed

section \<open>Insertion\<close>

lemma InsertImpl_ok:
  assumes lt: "strict_weak lt" and s: "heap_inv lt s"
    and e: "e \<notin> set (elements s)" "e < next_object_id s" and n: "heap_size s < heap_limit"
  shows "resT (\<lambda>(i, t). heap_to lt s (add_mset e (mset (elements s))) t \<and> i < heap_size t \<and> elements t ! i = e)
    (InsertImpl d lt e s)"
proof -
  let ?ys = "elements s @ [e]"
  have "holed s (heap_size s) ?ys 0"
    using heap_invD(3,4) [OF s] e n by (auto simp: holed_def nth_append less_Suc_eq)
  moreover have "up_order (ge_in lt s) ?ys (heap_size s)"
    using heap_order_append [OF heap_invD(2) [OF s], of e] by simp
  moreover have "e = ?ys ! heap_size s" by (simp add: nth_append)
  ultimately have "resT (settled lt s ?ys 0 e) (InsertImpl d lt e s)"
    unfolding InsertImpl_def by (rule MoveHoleUpAndFill_ok [OF lt])
  then show ?thesis
    by (rule resT_mono) (use settled_heap_to [of lt s ?ys e _ _ s] e heap_invD(6) [OF s] in \<open>auto split: prod.split\<close>)
qed

section \<open>Removal\<close>

lemma heap_order_init: "heap_order ge (ws @ [z]) \<Longrightarrow> heap_order ge ws"
proof -
  assume order: "heap_order ge (ws @ [z])"
  have "ge (ws ! par i) (ws ! i)" if "0 < i" "i < length ws" for i
    using heap_orderD [OF order that(1)] that par_less [OF that(1)] by (simp add: nth_append)
  then show ?thesis by (simp add: heap_order_def)
qed

lemma filled_pop_back: "filled s ys (Suc 0) \<Longrightarrow> filled (s\<lparr>heap_slots := butlast (heap_slots s)\<rparr>) ys 0"
  by (auto simp: filled_def placed_def heap_size_def nth_butlast)

text \<open>The vector but for the slot to be removed is in place, and no handle leads to that slot.\<close>

definition hole_at :: "('k \<Rightarrow> 'k \<Rightarrow> bool) \<Rightarrow> 'k heap \<Rightarrow> nat list \<Rightarrow> nat \<Rightarrow> bool" where
  "hole_at lt s xs pos \<longleftrightarrow> distinct xs \<and> length xs \<le> heap_limit \<and> pos < length xs \<and> heap_size s = length xs \<and>
     heap_order (ge_in lt s) xs \<and> (\<forall>i < length xs. i \<noteq> pos \<longrightarrow> placed s i (xs ! i)) \<and>
     GetHeapHandle pos s = Inr kInvalidIndex"

definition removed :: "('k \<Rightarrow> 'k \<Rightarrow> bool) \<Rightarrow> 'k heap \<Rightarrow> nat list \<Rightarrow> nat \<Rightarrow> 'k heap \<Rightarrow> bool" where
  "removed lt s xs pos t \<longleftrightarrow> (\<exists>zs. filled t zs 0 \<and> add_mset (xs ! pos) (mset zs) = mset xs \<and> heap_order (ge_in lt s) zs) \<and>
     only_handles s (set xs - {xs ! pos}) t"

lemma remove_last:
  assumes "hole_at lt s (ws @ [z]) (length ws)"
  shows "resT (removed lt s (ws @ [z]) (length ws)) (remove_hole d lt (length ws) s)"
proof -
  let ?t = "s\<lparr>heap_slots := butlast (heap_slots s)\<rparr>"
  have "filled ?t ws 0"
    using assms by (auto simp: hole_at_def filled_def placed_def heap_size_def nth_butlast nth_append)
  then show ?thesis
    using assms heap_order_init [of "ge_in lt s" ws z]
    by (auto simp: remove_hole_def removed_def hole_at_def only_handles_def)
qed

lemma remove_inner:
  assumes lt: "strict_weak lt" and hole: "hole_at lt s (ws @ [z]) pos" and pos: "pos < length ws"
  shows "resT (removed lt s (ws @ [z]) pos) (remove_hole d lt pos s)"
proof -
  let ?n = "length ws" and ?ys = "ws[pos := z]"
  let ?u = "(invalidate z s)\<lparr>heap_slots := (heap_slots s)[?n := None]\<rparr>"
  have n: "heap_size s = ?n + 1" "distinct ws" "z \<notin> set ws" "?n < heap_limit" "length (heap_slots s) = ?n + 1"
    and order: "heap_order (ge_in lt s) ws"
    using hole heap_order_init [of "ge_in lt s" ws z] by (auto simp: hole_at_def heap_size_def)
  have at: "placed s i (ws ! i)" if "i < ?n" "i \<noteq> pos" for i
    using hole that unfolding hole_at_def by (metis length_append_singleton less_SucI nth_append)
  have last: "placed s ?n z"
    using hole pos unfolding hole_at_def by (metis length_append_singleton lessI less_not_refl nth_append_length)
  have "placed ?u i (?ys ! i)" if i: "i < ?n" "i \<noteq> pos" for i
  proof -
    have "ws ! i \<noteq> z" using n i by auto
    then show ?thesis using at [OF i] i n by (simp add: placed_def heap_size_def)
  qed
  moreover have "distinct ?ys" using n pos by (simp add: distinct_list_update)
  ultimately have "holed ?u pos ?ys 1" using n pos by (simp add: holed_def heap_size_def)
  moreover have "loose_order (ge_in lt ?u) ?ys pos"
    using heap_order_loose [OF ge_in_preorder [OF lt] order pos] by simp
  moreover have "GetHeapHandle pos ?u = Inr kInvalidIndex"
    using hole n pos by (auto simp: hole_at_def GetHeapHandle_def heap_size_def split: option.splits)
  ultimately have down: "resT (settled lt ?u ?ys 1 z) (MoveHoleDownAndFill d lt True pos z ?u)"
    using MoveHoleDownAndFill_ok [OF lt, of ?u pos ?ys True d] n pos by (simp add: heap_size_def)
  have "remove_hole d lt pos s = bindR (MoveHoleDownAndFill d lt True pos z ?u) (\<lambda>(i, t).
      Inr (t\<lparr>heap_slots := butlast (heap_slots t)\<rparr>))"
    using pos n MakeHole_placed [OF last, of d] move_out_placed [of ?n "invalidate z s" z] last
    by (simp add: remove_hole_def Let_def placed_def bindR_assoc split_def)
  moreover have "removed lt s (ws @ [z]) pos (t\<lparr>heap_slots := butlast (heap_slots t)\<rparr>)" if "settled lt ?u ?ys 1 z (i, t)" for i t
  proof -
    from that obtain zs where zs: "filled t zs 1" "mset zs = mset ?ys" "heap_order (ge_in lt ?u) zs"
      and same: "only_handles ?u (set ?ys) t" by (auto simp: settled_def)
    have "add_mset (ws ! pos) (mset zs) = mset (ws @ [z])"
      unfolding zs(2) using pos by (simp add: mset_update)
    moreover have "only_handles s (set (ws @ [z]) - {ws ! pos}) t"
    proof -
      have "set ?ys = insert z (set ws - {ws ! pos})" "z \<noteq> ws ! pos"
        using n pos by (auto simp: set_update_distinct)
      then show ?thesis using same by (auto simp: only_handles_def)
    qed
    moreover have "filled (t\<lparr>heap_slots := butlast (heap_slots t)\<rparr>) zs 0" using zs(1) filled_pop_back by simp
    moreover have "heap_order (ge_in lt s) zs" using zs(3) by simp
    moreover have "(ws @ [z]) ! pos = ws ! pos" using pos by (simp add: nth_append)
    ultimately show ?thesis
      unfolding removed_def by (auto simp: only_handles_def)
  qed
  ultimately show ?thesis using down by (auto intro!: resT_bindI)
qed

lemma remove_hole_ok:
  assumes "strict_weak lt" "hole_at lt s xs pos"
  shows "resT (removed lt s xs pos) (remove_hole d lt pos s)"
proof (cases xs rule: rev_cases)
  case (snoc ws z)
  then have "pos \<le> length ws" using assms(2) by (simp add: hole_at_def)
  then show ?thesis
    using remove_inner [OF assms(1), of s ws z pos d] remove_last [of lt s ws z d] assms(2) snoc
    by (cases "pos = length ws") auto
qed (use assms in \<open>simp add: hole_at_def\<close>)

text \<open>After \<open>MakeHole\<close>, with or without the object moved out, a position can be removed.\<close>

lemma hole_at_made:
  assumes s: "heap_inv lt s" and pos: "pos < heap_size s"
  shows "hole_at lt (invalidate (elements s ! pos) s) (elements s) pos"
    "hole_at lt ((invalidate (elements s ! pos) s)\<lparr>heap_slots := (heap_slots s)[pos := None]\<rparr>) (elements s) pos"
proof -
  have other: "elements s ! i \<noteq> elements s ! pos" if "i < heap_size s" "i \<noteq> pos" for i
    using heap_invD(3) [OF s] that pos by (simp add: nth_eq_iff_index_eq)
  have "placed ((invalidate (elements s ! pos) s)\<lparr>heap_slots := (heap_slots s)[pos := None]\<rparr>) i (elements s ! i)"
    if i: "i < heap_size s" "i \<noteq> pos" for i
    using heap_invD(4) [OF s i(1)] other [OF i] i(2) by (simp add: placed_def heap_size_def)
  then show "hole_at lt ((invalidate (elements s ! pos) s)\<lparr>heap_slots := (heap_slots s)[pos := None]\<rparr>) (elements s) pos"
    using s pos heap_invD(2,3,5) [OF s] by (simp add: hole_at_def GetHeapHandle_def heap_size_def)
  show "hole_at lt (invalidate (elements s ! pos) s) (elements s) pos"
    using pos heap_invD(2,3,5) [OF s] GetHeapHandle_invalidated [OF heap_invD(4) [OF s pos]]
      placed_invalidate [OF heap_invD(4) [OF s] other] by (simp add: hole_at_def)
qed

lemma removed_heap_to:
  assumes s: "heap_inv lt s" and pos: "pos < heap_size s"
    and t: "only_handles (invalidate (elements s ! pos) s) {} t" "ge_in lt t = ge_in lt s"
    and u: "removed lt t (elements s) pos u"
  shows "heap_to lt s (mset (elements s) - {#elements s ! pos#}) u"
proof -
  let ?e = "elements s ! pos"
  from u obtain zs where zs: "filled u zs 0" "add_mset ?e (mset zs) = mset (elements s)" "heap_order (ge_in lt t) zs"
    and same: "only_handles t (set (elements s) - {?e}) u" by (auto simp: removed_def)
  have zs': "mset zs = mset (elements s) - {#?e#}" using zs(2) by (metis add_mset_remove_trivial)
  have "elements u = zs" by (rule filled_elements [OF zs(1)])
  moreover have "set (elements s) = insert ?e (set zs)" using zs(2) by (metis set_mset_add_mset_insert set_mset_mset)
  moreover have "?e \<notin> set zs"
    using zs(2) heap_invD(3) [OF s] mset_eq_imp_distinct_iff [of "?e # zs" "elements s"] by simp
  moreover have "ge_in lt u = ge_in lt s" using ge_in_only_handles [OF same, of lt] t(2) by simp
  ultimately show ?thesis
    unfolding zs' [symmetric] using zs(1,3) same t heap_invD(6) [OF s]
    by (auto simp: heap_to_def heap_inv_def only_handles_def filled_def)
qed

lemma erase_at_ok:
  assumes lt: "strict_weak lt" and s: "heap_inv lt s" and pos: "pos < heap_size s"
  shows "resT (heap_to lt s (mset (elements s) - {#elements s ! pos#})) (erase_at d lt pos s)"
  using remove_hole_ok [OF lt hole_at_made(1) [OF s pos], of d] pos MakeHole_placed [OF heap_invD(4) [OF s pos], of d]
  by (auto simp: erase_at_def only_handles_def elim!: resT_mono intro!: removed_heap_to [OF s pos, of "invalidate (elements s ! pos) s"])

lemma take_at_ok:
  assumes lt: "strict_weak lt" and s: "heap_inv lt s" and pos: "pos < heap_size s"
  shows "resT (\<lambda>(e, t). e = elements s ! pos \<and> heap_to lt s (mset (elements s) - {#elements s ! pos#}) t) (take_at d lt pos s)"
proof -
  let ?e = "elements s ! pos"
  let ?u = "(invalidate ?e s)\<lparr>heap_slots := (heap_slots s)[pos := None]\<rparr>"
  have "take_at d lt pos s = bindR (remove_hole d lt pos ?u) (\<lambda>t. Inr (?e, t))"
    using MakeHole_placed [OF heap_invD(4) [OF s pos], of d] move_out_placed [of pos "invalidate ?e s" ?e]
      heap_invD(4) [OF s pos]
    by (simp add: take_at_def placed_def)
  moreover have "heap_to lt s (mset (elements s) - {#?e#}) t" if "removed lt ?u (elements s) pos t" for t
    using removed_heap_to [OF s pos _ _ that] by (simp add: only_handles_def)
  ultimately show ?thesis
    using remove_hole_ok [OF lt hole_at_made(2) [OF s pos], of d] by (auto simp: resT_bindR elim: resT_mono)
qed

section \<open>Replacing and updating\<close>

lemma ReplaceImpl_start:
  assumes s: "heap_inv lt s" and pos: "pos < heap_size s" and e: "e \<notin> set (elements s)"
  shows "holed (invalidate (elements s ! pos) s) pos ((elements s)[pos := e]) 0"
proof -
  have "placed (invalidate (elements s ! pos) s) i ((elements s)[pos := e] ! i)" if i: "i < heap_size s" "i \<noteq> pos" for i
    using placed_invalidate [OF heap_invD(4) [OF s i(1)]] heap_invD(3) [OF s] i pos by (simp add: nth_eq_iff_index_eq)
  then show ?thesis
    using heap_invD(3,5) [OF s] pos e by (simp add: holed_def distinct_list_update)
qed

lemma settled_replaced:
  assumes s: "heap_inv lt s" and pos: "pos < heap_size s" and e: "e \<notin> set (elements s)" "e < next_object_id s"
    and t: "settled lt (invalidate (elements s ! pos) s) ((elements s)[pos := e]) 0 e (i, t)"
  shows "heap_to lt s (add_mset e (mset (elements s) - {#elements s ! pos#})) t \<and> i < heap_size t \<and> elements t ! i = e"
proof -
  let ?o = "elements s ! pos"
  have set: "set ((elements s)[pos := e]) = insert e (set (elements s) - {?o})"
    using pos by (intro set_update_distinct heap_invD(3) [OF s]) simp
  have o: "?o \<in> set (elements s)" using pos by simp
  have "heap_to lt s (mset ((elements s)[pos := e])) t \<and> i < heap_size t \<and> elements t ! i = e"
  proof (rule settled_heap_to [OF t])
    fix a assume "a \<notin> set ((elements s)[pos := e])"
    then have "a = ?o \<or> a \<notin> set (elements s)" unfolding set by blast
    with o show "handle_of (invalidate ?o s) a = (if a \<in> set (elements s) then kInvalidIndex else handle_of s a)"
      by (cases "a = ?o") simp_all
  next
    show "\<forall>a \<in> set ((elements s)[pos := e]). a < next_object_id s"
      unfolding set using heap_invD(6) [OF s] e by auto
  qed simp_all
  moreover have "mset ((elements s)[pos := e]) = add_mset e (mset (elements s) - {#?o#})"
    using pos by (simp add: mset_update)
  ultimately show ?thesis by simp
qed

lemma heap_order_children:
  "heap_order ge xs \<Longrightarrow> 0 < i \<Longrightarrow> i < length xs \<Longrightarrow> par i = h \<Longrightarrow> ge (xs ! h) (xs ! i)"
  using heap_orderD by blast

lemma ReplaceImpl_ok:
  assumes lt: "strict_weak lt" and s: "heap_inv lt s" and pos: "pos < heap_size s"
    and e: "e \<notin> set (elements s)" "e < next_object_id s"
  shows "resT (\<lambda>(i, t). heap_to lt s (add_mset e (mset (elements s) - {#elements s ! pos#})) t \<and>
      i < heap_size t \<and> elements t ! i = e) (ReplaceImpl d lt pos e s)"
proof -
  let ?xs = "elements s" and ?o = "elements s ! pos" and ?ys = "(elements s)[pos := e]"
  let ?t = "invalidate ?o s" and ?ge = "ge_in lt s"
  have trans: "?ge a b \<Longrightarrow> ?ge b c \<Longrightarrow> ?ge a c" for a b c
    by (rule total_preorder_trans [OF ge_in_preorder [OF lt]])
  have placed: "placed s pos ?o" by (rule heap_invD(4) [OF s pos])
  have loose: "loose_order ?ge ?ys pos"
    by (rule heap_order_loose [OF ge_in_preorder [OF lt] heap_invD(2) [OF s]]) (use pos in simp)
  have kids: "?ge ?o (?xs ! i)" if "0 < i" "i < heap_size s" "par i = pos" for i
    using heap_order_children [OF heap_invD(2) [OF s] that(1)] that by simp
  have "resT (settled lt ?t ?ys 0 e) (ReplaceImpl d lt pos e s)"
  proof (cases "?ge e ?o")
    case True
    have "up_order ?ge ?ys pos"
    proof -
      have "?ge (?ys ! pos) (?ys ! i)" if i: "0 < i" "i < heap_size s" "par i = pos" for i
        using trans [OF True kids [OF i]] par_child_bound [OF i(1,3)] pos by simp
      then show ?thesis using loose by (simp add: up_order_def)
    qed
    then have "resT (settled lt ?t ?ys 0 e) (MoveHoleUpAndFill d lt pos e ?t)"
      using MoveHoleUpAndFill_ok [OF lt ReplaceImpl_start [OF s pos e(1)]] pos by simp
    then show ?thesis
      using True MakeHole_placed [OF placed, of d] placed placed_slot_object [OF placed]
      by (simp add: ReplaceImpl_def Less_element_def ge_in_def placed_def)
  next
    case False
    have "?ge ?o e" by (rule total_preorder_cases [OF ge_in_preorder [OF lt] False])
    then have "down_order ?ge ?ys pos"
      using loose trans [OF heap_orderD [OF heap_invD(2) [OF s], of pos]] pos par_less [of pos]
      by (cases "pos = 0") (simp_all add: down_order_def)
    then have "resT (settled lt ?t ?ys 0 e) (MoveHoleDownAndFill d lt False pos e ?t)"
      using MoveHoleDownAndFill_ok [OF lt, of ?t pos ?ys False d] ReplaceImpl_start [OF s pos e(1)] loose pos
        GetHeapHandle_invalidated [OF placed] by simp
    then show ?thesis
      using False MakeHole_placed [OF placed, of d] placed placed_slot_object [OF placed]
      by (simp add: ReplaceImpl_def Less_element_def ge_in_def placed_def)
  qed
  then show ?thesis by (rule resT_mono) (auto dest!: settled_replaced [OF s pos e])
qed

lemma ReplaceTopImpl_ok:
  assumes lt: "strict_weak lt" and s: "heap_inv lt s" and pos: "0 < heap_size s"
    and e: "e \<notin> set (elements s)" "e < next_object_id s"
  shows "resT (\<lambda>(i, t). heap_to lt s (add_mset e (mset (elements s) - {#elements s ! 0#})) t \<and>
      i < heap_size t \<and> elements t ! i = e) (ReplaceTopImpl d lt e s)"
proof -
  let ?xs = "elements s" and ?o = "elements s ! 0" and ?ys = "(elements s)[0 := e]"
  let ?t = "invalidate ?o s"
  have placed: "placed s 0 ?o" by (rule heap_invD(4) [OF s pos])
  have loose: "loose_order (ge_in lt s) ?ys 0"
    by (rule heap_order_loose [OF ge_in_preorder [OF lt] heap_invD(2) [OF s]]) (use pos in simp)
  then have "resT (settled lt ?t ?ys 0 e) (MoveHoleDownAndFill d lt False 0 e ?t)"
    using MoveHoleDownAndFill_ok [OF lt, of ?t 0 ?ys False d] ReplaceImpl_start [OF s pos e(1)] pos
      GetHeapHandle_invalidated [OF placed] by (simp add: down_order_def)
  then have "resT (settled lt ?t ?ys 0 e) (ReplaceTopImpl d lt e s)"
    using MakeHole_placed [OF placed, of d] by (simp add: ReplaceTopImpl_def)
  then show ?thesis by (rule resT_mono) (auto dest!: settled_replaced [OF s pos e])
qed

text \<open>The state \<open>Update\<close> is for: a heap in which one element's value was changed.\<close>

definition heap_but :: "('k \<Rightarrow> 'k \<Rightarrow> bool) \<Rightarrow> 'k heap \<Rightarrow> nat \<Rightarrow> bool" where
  "heap_but lt s pos \<longleftrightarrow> filled s (elements s) 0 \<and> pos < heap_size s \<and> loose_order (ge_in lt s) (elements s) pos \<and>
     (\<forall>e \<in> set (elements s). e < next_object_id s)"

lemma Update_ok:
  assumes lt: "strict_weak lt" and s: "heap_but lt s pos"
  shows "resT (\<lambda>(i, t). heap_to lt s (mset (elements s)) t \<and> i < heap_size t \<and> elements t ! i = elements s ! pos)
    (Update d lt pos s)"
proof -
  let ?xs = "elements s" and ?e = "elements s ! pos" and ?ge = "ge_in lt s"
  let ?u = "(invalidate ?e s)\<lparr>heap_slots := (heap_slots s)[pos := None]\<rparr>"
  have at: "placed s i (?xs ! i)" if "i < heap_size s" for i using s that by (simp add: heap_but_def filled_def)
  have pos: "pos < heap_size s" "distinct ?xs" "heap_size s \<le> heap_limit" and loose: "loose_order ?ge ?xs pos"
    using s by (auto simp: heap_but_def filled_def)
  have trans: "?ge a b \<Longrightarrow> ?ge b c \<Longrightarrow> ?ge a c" for a b c
    by (rule total_preorder_trans [OF ge_in_preorder [OF lt]])
  have "placed ?u i (?xs ! i)" if i: "i < heap_size s" "i \<noteq> pos" for i
  proof -
    have "?xs ! i \<noteq> ?e" using pos i by (simp add: nth_eq_iff_index_eq)
    then show ?thesis using at [OF i(1)] i(2) by (simp add: placed_def heap_size_def)
  qed
  then have holed: "holed ?u pos ?xs 0" using pos by (simp add: holed_def heap_size_def)
  have none: "GetHeapHandle pos ?u = Inr kInvalidIndex" using pos by (simp add: GetHeapHandle_def heap_size_def)
  have out: "move_out pos (invalidate ?e s) = Inr (?e, ?u)"
    using move_out_placed [of pos "invalidate ?e s" ?e] at [OF pos(1)] by (simp add: placed_def)
  have hole: "MakeHole d pos s = Inr (invalidate ?e s)" by (rule MakeHole_placed [OF at [OF pos(1)]])
  have upd: "resT (settled lt ?u ?xs 0 ?e) (Update d lt pos s)"
  proof (cases "0 < pos \<and> ?ge ?e (?xs ! par pos)")
    case True
    then have p: "par pos < heap_size s" using par_less [of pos] pos by simp
    have "up_order ?ge ?xs pos"
      using loose trans [of ?e "?xs ! par pos"] True loose_orderD(2) [OF loose] by (simp add: up_order_def)
    then have "resT (settled lt ?u ?xs 0 ?e) (MoveHoleUpAndFill d lt pos ?e ?u)"
      using MoveHoleUpAndFill_ok [OF lt holed] by simp
    moreover have "Update d lt pos s = MoveHoleUpAndFill d lt pos ?e ?u"
      using True pos p hole out placed_slot_object [OF at [OF pos(1)]] placed_slot_object [OF at [OF p]]
      by (simp add: Update_def ParentIndex_def par_def Less_at_def ge_in_def)
    ultimately show ?thesis by simp
  next
    case False
    have "down_order ?ge ?xs pos"
      using loose False total_preorder_cases [OF ge_in_preorder [OF lt]] by (auto simp: down_order_def)
    then have "resT (settled lt ?u ?xs 0 ?e) (MoveHoleDownAndFill d lt False pos ?e ?u)"
      using MoveHoleDownAndFill_ok [OF lt, of ?u pos ?xs False d] holed loose none pos by (simp add: heap_size_def)
    moreover have "Update d lt pos s = MoveHoleDownAndFill d lt False pos ?e ?u"
    proof (cases "pos = 0")
      case True
      then show ?thesis using pos hole out by (simp add: Update_def)
    next
      case pos0: False
      then have p: "par pos < heap_size s" using par_less [of pos] pos by simp
      then show ?thesis
        using False pos0 pos hole out placed_slot_object [OF at [OF pos(1)]] placed_slot_object [OF at [OF p]]
        by (simp add: Update_def ParentIndex_def par_def Less_at_def ge_in_def)
    qed
    ultimately show ?thesis by simp
  qed
  have arrived: "heap_to lt s (mset ?xs) t \<and> i < heap_size t \<and> elements t ! i = ?e" if "settled lt ?u ?xs 0 ?e (i, t)" for i t
  proof (rule settled_heap_to [OF that])
    fix a assume a: "a \<notin> set ?xs"
    moreover have "?e \<in> set ?xs" using pos(1) by simp
    ultimately have "a \<noteq> ?e" by metis
    with a show "handle_of ?u a = (if a \<in> set ?xs then kInvalidIndex else handle_of s a)" by simp
  qed (use s in \<open>simp_all add: heap_but_def\<close>)
  show ?thesis
    by (rule resT_mono [OF upd]) (clarify, rule arrived)
qed

lemma heap_but_modified:
  assumes lt: "strict_weak lt" and s: "heap_inv lt s" and pos: "pos < heap_size s"
  shows "heap_but lt (s\<lparr>value_of := (value_of s)(elements s ! pos := v)\<rparr>) pos"
proof -
  let ?t = "s\<lparr>value_of := (value_of s)(elements s ! pos := v)\<rparr>" and ?xs = "elements s"
  have loose: "loose_order (ge_in lt s) ?xs pos"
    using heap_order_loose [OF ge_in_preorder [OF lt] heap_invD(2) [OF s], of pos "?xs ! pos"] pos by simp
  have same: "ge_in lt ?t (?xs ! i) (?xs ! j) = ge_in lt s (?xs ! i) (?xs ! j)"
    if "i < heap_size s" "j < heap_size s" "i \<noteq> pos" "j \<noteq> pos" for i j
    using that pos heap_invD(3) [OF s] by (simp add: ge_in_def nth_eq_iff_index_eq)
  have "loose_order (ge_in lt ?t) ?xs pos"
  proof -
    have "par i < heap_size s" if "i < heap_size s" for i using that par_le [of i] by simp
    moreover have "i \<noteq> pos \<and> par pos \<noteq> pos" if "0 < i" "par i = pos" "0 < pos" for i
      using that par_less [of i] par_less [of pos] by auto
    ultimately show ?thesis
      using loose_orderD [OF loose] same pos unfolding loose_order_def length_elements by metis
  qed
  moreover have "filled ?t ?xs 0" using heap_invD(1) [OF s] by (simp add: filled_def placed_def heap_size_def)
  ultimately show ?thesis using heap_invD(6) [OF s] pos by (simp add: heap_but_def heap_size_def)
qed

lemma Modify_ok:
  assumes lt: "strict_weak lt" and s: "heap_inv lt s" and pos: "pos < heap_size s"
  shows "resT (\<lambda>(i, t). heap_inv lt t \<and> mset (elements t) = mset (elements s) \<and> i < heap_size t \<and>
      elements t ! i = elements s ! pos \<and>
      value_of t = (value_of s)(elements s ! pos := f (value_of s (elements s ! pos)))) (Modify d lt pos f s)"
proof -
  let ?t = "s\<lparr>value_of := (value_of s)(elements s ! pos := f (value_of s (elements s ! pos)))\<rparr>"
  have "Modify d lt pos f s = Update d lt pos ?t"
    using pos placed_slot_object [OF heap_invD(4) [OF s pos]] by (simp add: Modify_def)
  moreover have "resT (\<lambda>(i, t). heap_to lt ?t (mset (elements ?t)) t \<and> i < heap_size t \<and> elements t ! i = elements ?t ! pos)
      (Update d lt pos ?t)"
    by (rule Update_ok [OF lt heap_but_modified [OF lt s pos]])
  ultimately show ?thesis by (auto simp: heap_to_def elim!: resT_mono)
qed

end
