(* ===== verification/Heap_Queue.thy ===== *)
theory Heap_Queue
  imports Heap_Props
begin

text \<open>
  The heap as a priority queue, an interface over the multiset of the values: what is put in comes
  out greatest first, so filling and emptying it sorts.  Then clearing, copying and assigning.
\<close>

section \<open>Priority queues\<close>

fun repeatR :: "('s \<Rightarrow> ('k \<times> 's) res) \<Rightarrow> nat \<Rightarrow> 's \<Rightarrow> ('k list \<times> 's) res" where
  "repeatR get 0 s = Inr ([], s)"
| "repeatR get (Suc n) s = bindR (get s) (\<lambda>(v, s). bindR (repeatR get n s) (\<lambda>(vs, s). Inr (v # vs, s)))"

locale priority_queue =
  fixes put :: "'k \<Rightarrow> 's \<Rightarrow> 's res" and get :: "'s \<Rightarrow> ('k \<times> 's) res"
    and content :: "'s \<Rightarrow> 'k multiset" and inv :: "'s \<Rightarrow> bool" and before :: "'k \<Rightarrow> 'k \<Rightarrow> bool" and limit :: nat
  assumes put_ok: "inv s \<Longrightarrow> size (content s) < limit \<Longrightarrow>
      resT (\<lambda>t. inv t \<and> content t = add_mset v (content s)) (put v s)"
    and get_ok: "inv s \<Longrightarrow> content s \<noteq> {#} \<Longrightarrow>
      resT (\<lambda>(v, t). inv t \<and> content s = add_mset v (content t) \<and> (\<forall>w \<in># content s. before v w)) (get s)"
begin

lemma put_all: "inv s \<Longrightarrow> size (content s) + length vs \<le> limit \<Longrightarrow>
    resT (\<lambda>t. inv t \<and> content t = mset vs + content s) (foldR put vs s)"
proof (induction vs arbitrary: s)
  case (Cons v vs)
  then have "resT (\<lambda>t. inv t \<and> content t = add_mset v (content s)) (put v s)" by (intro put_ok) simp_all
  then obtain t where t: "put v s = Inr t" "inv t" "content t = add_mset v (content s)" by (auto simp: resT_iff)
  with Cons.IH [of t] Cons.prems(2) show ?case by simp
qed simp

lemma get_all: "inv s \<Longrightarrow> size (content s) = n \<Longrightarrow>
    resT (\<lambda>(vs, t). inv t \<and> content t = {#} \<and> mset vs = content s \<and> sorted_wrt before vs) (repeatR get n s)"
proof (induction n arbitrary: s)
  case (Suc n)
  then have "content s \<noteq> {#}" by auto
  from get_ok [OF Suc.prems(1) this] obtain v t
    where t: "get s = Inr (v, t)" "inv t" "content s = add_mset v (content t)" "\<forall>w \<in># content s. before v w"
    by (auto simp: resT_iff)
  then have "size (content t) = n" using Suc.prems(2) by simp
  from Suc.IH [OF t(2) this] obtain vs u where "repeatR get n t = Inr (vs, u)" "inv u" "content u = {#}"
      "mset vs = content t" "sorted_wrt before vs"
    by (auto simp: resT_iff)
  moreover from this(4) t(3,4) have "\<forall>w \<in> set vs. before v w" by (metis insertCI set_mset_add_mset_insert set_mset_mset)
  ultimately show ?case using t by simp
qed simp

lemma put_get_all: "inv s \<Longrightarrow> content s = {#} \<Longrightarrow> length vs \<le> limit \<Longrightarrow>
    resT (\<lambda>(ws, t). mset ws = mset vs \<and> sorted_wrt before ws) (bindR (foldR put vs s) (repeatR get (length vs)))"
proof -
  assume "inv s" "content s = {#}" "length vs \<le> limit"
  then obtain t where t: "foldR put vs s = Inr t" "inv t" "content t = mset vs"
    using put_all [of s vs] by (auto simp: resT_iff)
  then have "size (content t) = length vs" by simp
  from get_all [OF t(2) this] t show ?thesis by (auto elim!: resT_mono)
qed

end

section \<open>The heap is one\<close>

definition values_in :: "'k heap \<Rightarrow> 'k multiset" where
  "values_in s = image_mset (value_of s) (mset (elements s))"

definition put_value :: "bool \<Rightarrow> ('k \<Rightarrow> 'k \<Rightarrow> bool) \<Rightarrow> 'k \<Rightarrow> 'k heap \<Rightarrow> 'k heap res" where
  "put_value d lt v s = bindR (emplace d lt v s) (\<lambda>(i, s). Inr s)"

definition take_value :: "bool \<Rightarrow> ('k \<Rightarrow> 'k \<Rightarrow> bool) \<Rightarrow> 'k heap \<Rightarrow> ('k \<times> 'k heap) res" where
  "take_value d lt s = bindR (take_top d lt s) (\<lambda>(e, s). Inr (value_of s e, s))"

lemma insert_range_put: "insert_range d lt vs s = foldR (put_value d lt) vs s"
  by (induction vs arbitrary: s) (simp_all add: put_value_def bindR_assoc split_def)

lemma size_values_in [simp]: "size (values_in s) = heap_size s"
  by (simp add: values_in_def)

lemma heap_inv_new_object:
  assumes "heap_inv lt s"
  shows "heap_inv lt (s\<lparr>next_object_id := Suc (next_object_id s), value_of := (value_of s)(next_object_id s := v),
           handle_of := (handle_of s)(next_object_id s := h)\<rparr>)" (is "heap_inv lt ?t")
proof -
  let ?e = "next_object_id s"
  have new: "elements s ! i \<noteq> ?e" if "i < heap_size s" for i
    using heap_invD(6) [OF assms, of "elements s ! i"] that by simp
  have "filled ?t (elements s) 0"
    using heap_invD(3,4,5) [OF assms] new by (simp add: filled_def placed_def heap_size_def)
  moreover have "heap_order (ge_in lt ?t) (elements s)"
    using heap_orderD [OF heap_invD(2) [OF assms]] new par_le
    by (simp add: heap_order_def ge_in_def) (metis le_less_trans)
  moreover have "elements ?t = elements s" by (simp add: elements_def)
  ultimately show ?thesis using heap_invD(6) [OF assms] by (auto simp: heap_inv_def less_Suc_eq)
qed

lemma emplace_ok:
  assumes lt: "strict_weak lt" and s: "heap_inv lt s" and n: "heap_size s < heap_limit"
  shows "resT (\<lambda>(i, t). heap_inv lt t \<and> mset (elements t) = add_mset (next_object_id s) (mset (elements s)) \<and>
      value_of t = (value_of s)(next_object_id s := v) \<and> i < heap_size t \<and> elements t ! i = next_object_id s)
    (emplace d lt v s)"
proof -
  let ?e = "next_object_id s"
  let ?t = "s\<lparr>next_object_id := Suc ?e, value_of := (value_of s)(?e := v), handle_of := (handle_of s)(?e := kInvalidIndex)\<rparr>"
  have el: "elements ?t = elements s" "heap_size ?t = heap_size s" by (simp_all add: elements_def heap_size_def)
  have t: "heap_inv lt ?t" by (rule heap_inv_new_object [OF s])
  have "?e \<notin> set (elements s)" using heap_invD(6) [OF s] by blast
  then have "resT (\<lambda>(i, u). heap_to lt ?t (add_mset ?e (mset (elements s))) u \<and> i < heap_size u \<and> elements u ! i = ?e)
      (InsertImpl d lt ?e ?t)"
    using InsertImpl_ok [OF lt t, of ?e d] n el by simp
  then show ?thesis by (auto simp: emplace_def Let_def heap_to_def elim!: resT_mono)
qed

lemma top_greatest:
  assumes lt: "strict_weak lt" and s: "heap_inv lt s" and e: "e \<in> set (elements s)"
  shows "heap_top s = Inr (elements s ! 0) \<and> \<not> lt (value_of s (elements s ! 0)) (value_of s e)"
proof -
  from e obtain i where i: "i < heap_size s" "elements s ! i = e" by (auto simp: in_set_conv_nth)
  then have "0 < heap_size s" by simp
  then have "heap_top s = Inr (elements s ! 0)"
    using placed_slot_object [OF heap_invD(4) [OF s]] by (simp add: heap_top_def)
  moreover have "ge_in lt s (elements s ! 0) e"
    using heap_order_top [OF ge_in_preorder [OF lt] heap_invD(2) [OF s], of i] i by simp
  ultimately show ?thesis by (simp add: ge_in_def)
qed

lemma put_value_ok:
  assumes lt: "strict_weak lt" and s: "heap_inv lt s" and n: "heap_size s < heap_limit"
  shows "resT (\<lambda>t. heap_inv lt t \<and> values_in t = add_mset v (values_in s)) (put_value d lt v s)"
proof -
  have old: "image_mset ((value_of s)(next_object_id s := v)) (mset (elements s)) = values_in s"
    unfolding values_in_def using heap_invD(6) [OF s] by (intro image_mset_cong) auto
  show ?thesis
    using emplace_ok [OF assms, of v d] old by (auto simp: put_value_def resT_bindR values_in_def elim!: resT_mono)
qed

lemma take_value_ok:
  assumes lt: "strict_weak lt" and s: "heap_inv lt s" and ne: "values_in s \<noteq> {#}"
  shows "resT (\<lambda>(v, t). heap_inv lt t \<and> values_in s = add_mset v (values_in t) \<and> (\<forall>w \<in># values_in s. \<not> lt v w))
    (take_value d lt s)"
proof -
  let ?e = "elements s ! 0"
  have size: "0 < heap_size s" using ne by (auto simp: values_in_def simp flip: length_elements)
  then have e: "?e \<in># mset (elements s)" by simp
  have "\<not> lt (value_of s ?e) w" if "w \<in># values_in s" for w
    using that top_greatest [OF lt s] by (auto simp: values_in_def)
  moreover have "values_in s = add_mset (value_of s ?e) (values_in t)" if "heap_to lt s (mset (elements s) - {#?e#}) t" for t
  proof -
    have "values_in t = image_mset (value_of s) (mset (elements s) - {#?e#})" using that by (simp add: heap_to_def values_in_def)
    moreover have "values_in s = image_mset (value_of s) (add_mset ?e (mset (elements s) - {#?e#}))"
      using e by (simp add: values_in_def)
    ultimately show ?thesis by simp
  qed
  ultimately show ?thesis
    using take_at_ok [OF lt s size, of d] unfolding take_value_def take_top_def
    by (auto simp: resT_bindR heap_to_def elim!: resT_mono)
qed

interpretation heap_queue: priority_queue "put_value d lt" "take_value d lt" values_in
  "\<lambda>s. strict_weak lt \<and> heap_inv lt s" "\<lambda>v w. \<not> lt v w" heap_limit
  by unfold_locales
    (auto simp: put_value_ok elim!: resT_mono [OF put_value_ok] resT_mono [OF take_value_ok])

lemma std_less_strict_weak: "strict_weak ((<) :: 'k::linorder \<Rightarrow> _)"
  by (auto simp: strict_weak_def total_preorder_def)

end
