(* ===== verification/Heap_Assign.thy ===== *)
theory Heap_Assign
  imports Heap_Queue
begin

text \<open>
  Clearing, copying and assigning heaps, and the properties of the intrusive heap.
\<close>

section \<open>Loops over all positions\<close>

lemma foldR_append: "foldR f (xs @ ys) s = bindR (foldR f xs s) (foldR f ys)"
proof (induction xs arbitrary: s)
  case (Cons x xs)
  then show ?case by (cases "f x s") simp_all
qed simp

text \<open>The objects \<open>es\<close> in the slots; \<open>reset s A h\<close>: the handles of \<open>A\<close> are as \<open>h\<close> says, nothing else changed.\<close>

definition reset :: "'k heap \<Rightarrow> nat set \<Rightarrow> (nat \<Rightarrow> nat) \<Rightarrow> 'k heap" where
  "reset s A h = s\<lparr>handle_of := (\<lambda>e. if e \<in> A then h e else handle_of s e)\<rparr>"

lemma reset_simps [simp]:
  "heap_slots (reset s A h) = heap_slots s" "value_of (reset s A h) = value_of s"
  "next_object_id (reset s A h) = next_object_id s" "heap_size (reset s A h) = heap_size s"
  "reset s {} h = s"
  by (simp_all add: reset_def heap_size_def)

lemma clear_handles_ok:
  assumes "heap_slots s = map Some es"
  shows "n \<le> length es \<Longrightarrow> foldR (ClearHeapHandle d) [0..<n] s = Inr (reset s (set (take n es)) (\<lambda>e. kInvalidIndex))"
proof (induction n)
  case (Suc n)
  then show ?case
    using assms
    by (auto simp: foldR_append ClearHeapHandle_def storage_ClearHeapHandle_def GetHeapHandle_def HeapHandle_IsValid_def
        heap_size_def reset_def take_Suc_conv_app_nth Let_def fun_eq_iff)
qed simp

lemma set_handles_ok:
  assumes "heap_slots s = map Some es" "distinct es" "length es \<le> heap_limit"
  shows "n \<le> length es \<Longrightarrow> \<exists>h. foldR (SetHeapHandle d) [0..<n] s = Inr (reset s (set (take n es)) h) \<and> (\<forall>i < n. h (es ! i) = i)"
proof (induction n)
  case (Suc n)
  then obtain h where h: "foldR (SetHeapHandle d) [0..<n] s = Inr (reset s (set (take n es)) h)" "\<forall>i < n. h (es ! i) = i"
    by auto
  let ?h = "h(es ! n := n)"
  have "SetHeapHandle d n (reset s (set (take n es)) h) = Inr (reset s (set (take (Suc n) es)) ?h)"
    using assms Suc.prems SetHeapHandle_ok [of n "reset s (set (take n es)) h" "es ! n" d]
    by (auto simp: heap_size_def reset_def take_Suc_conv_app_nth fun_eq_iff)
  moreover have "\<forall>i < Suc n. ?h (es ! i) = i"
    using h(2) assms(2) Suc.prems by (auto simp: nth_eq_iff_index_eq less_Suc_eq)
  ultimately show ?case using h(1) by (auto simp: foldR_append)
qed simp

lemma slots_elements: "heap_inv lt s \<Longrightarrow> heap_slots s = map Some (elements s)"
  using heap_invD(4) [of lt s] by (auto simp: elements_def heap_size_def placed_def intro: nth_equalityI)

lemma heap_clear_ok:
  assumes "heap_inv lt s"
  shows "heap_clear d s = Inr ((reset s (set (elements s)) (\<lambda>e. kInvalidIndex))\<lparr>heap_slots := []\<rparr>)"
  using clear_handles_ok [OF slots_elements [OF assms], of "heap_size s" d] by (simp add: heap_clear_def)

section \<open>Copies\<close>

lemma copy_objects_ok:
  "(\<forall>e \<in> set es. e < next_object_id s) \<Longrightarrow>
     \<exists>t. copy_objects (map Some es) s = (map Some [next_object_id s..<next_object_id s + length es], t) \<and>
       next_object_id t = next_object_id s + length es \<and> heap_slots t = heap_slots s \<and>
       (\<forall>i < length es. value_of t (next_object_id s + i) = value_of s (es ! i)) \<and>
       (\<forall>e < next_object_id s. value_of t e = value_of s e \<and> handle_of t e = handle_of s e)"
proof (induction es arbitrary: s)
  case (Cons e es)
  let ?c = "next_object_id s"
  let ?s = "s\<lparr>next_object_id := ?c + 1, value_of := (value_of s)(?c := value_of s e), handle_of := (handle_of s)(?c := kInvalidIndex)\<rparr>"
  have "\<forall>e \<in> set es. e < next_object_id ?s" using Cons.prems by auto
  from Cons.IH [OF this] obtain t where t: "copy_objects (map Some es) ?s = (map Some [Suc ?c..<Suc ?c + length es], t)"
      "next_object_id t = Suc ?c + length es" "heap_slots t = heap_slots s"
      "\<forall>i < length es. value_of t (Suc ?c + i) = value_of ?s (es ! i)"
      "\<forall>e < Suc ?c. value_of t e = value_of ?s e \<and> handle_of t e = handle_of ?s e"
    by auto
  have "[?c..<?c + length (e # es)] = ?c # [Suc ?c..<Suc ?c + length es]" by (simp add: upt_conv_Cons del: upt_Suc)
  moreover have "value_of t (?c + i) = value_of s ((e # es) ! i)" if "i < length (e # es)" for i
  proof (cases i)
    case 0
    then show ?thesis using t(5) by simp
  next
    case (Suc j)
    then have "value_of t (Suc ?c + j) = value_of ?s (es ! j)" using t(4) that by simp
    moreover have "es ! j \<noteq> ?c" using Cons.prems that Suc nth_mem [of j es] by fastforce
    ultimately show ?thesis using Suc by simp
  qed
  ultimately show ?case using t by (simp add: Let_def)
qed simp

lemma copy_from_ok:
  assumes "\<forall>e \<in> set es. e < next_object_id s" "length es \<le> heap_limit" "heap_order (ge_in lt s) es"
  shows "resT (\<lambda>t. heap_inv lt t \<and> map (value_of t) (elements t) = map (value_of s) es \<and>
      (\<forall>e < next_object_id s. value_of t e = value_of s e \<and> handle_of t e = handle_of s e \<and> e \<notin> set (elements t)))
    (copy_from d (map Some es) s)"
proof -
  let ?c = "next_object_id s" and ?n = "length es"
  from copy_objects_ok [OF assms(1)] obtain t where
      t: "copy_objects (map Some es) s = (map Some [?c..<?c + ?n], t)" "next_object_id t = ?c + ?n"
        "\<forall>i < ?n. value_of t (?c + i) = value_of s (es ! i)"
        "\<forall>e < ?c. value_of t e = value_of s e \<and> handle_of t e = handle_of s e" by blast
  let ?t = "t\<lparr>heap_slots := map Some [?c..<?c + ?n]\<rparr>"
  from set_handles_ok [of ?t "[?c..<?c + ?n]" ?n d] assms(2) obtain h where
      h: "foldR (SetHeapHandle d) [0..<?n] ?t = Inr (reset ?t {?c..<?c + ?n} h)" "\<forall>i < ?n. h (?c + i) = i" by auto
  let ?u = "reset ?t {?c..<?c + ?n} h"
  have el: "elements ?u = [?c..<?c + ?n]" by (simp add: elements_def comp_def)
  have "filled ?u [?c..<?c + ?n] 0"
    using h(2) assms(2) by (simp add: filled_def placed_def heap_size_def reset_def)
  moreover have "heap_order (ge_in lt ?u) [?c..<?c + ?n]"
  proof -
    have val: "value_of ?u ([?c..<?c + ?n] ! i) = value_of s (es ! i)" if "i < ?n" for i
      using t(3) that by simp
    have "ge_in lt ?u ([?c..<?c + ?n] ! par i) ([?c..<?c + ?n] ! i)" if i: "0 < i" "i < ?n" for i
    proof -
      have p: "par i < ?n" using par_less [OF i(1)] i(2) by simp
      show ?thesis using heap_orderD [OF assms(3) i] by (simp only: ge_in_def val [OF p] val [OF i(2)]) simp
    qed
    then show ?thesis by (simp add: heap_order_def)
  qed
  moreover have "map (value_of ?u) [?c..<?c + ?n] = map (value_of s) es"
    using t(3) by (intro nth_equalityI) simp_all
  moreover have "copy_from d (map Some es) s = Inr ?u"
    using t(1) h(1) by (simp add: copy_from_def heap_size_def Let_def)
  moreover have "value_of ?u e = value_of s e \<and> handle_of ?u e = handle_of s e \<and> e \<notin> set (elements ?u)" if "e < ?c" for e
    unfolding el using t(4) that by (simp add: reset_def)
  moreover have "\<forall>e \<in> set (elements ?u). e < next_object_id ?u" unfolding el using t(2) by simp
  ultimately show ?thesis by (simp only: heap_inv_def el resT_Inr) simp
qed

section \<open>Properties\<close>

text \<open>
  C26. The intrusive heap is a multiset of objects with a greatest one on top: for every strict weak
  order, with checks or without, each operation returns, keeps the heap order, and adds, removes,
  exchanges or changes exactly the object it says; inserted, replaced and modified objects are where
  the returned iterator says; every object's handle is its position throughout, the handle of one
  that left is invalid, and other objects are not touched.
\<close>

theorem intrusive_heap:
  assumes "strict_weak lt" "heap_inv lt s"
  shows "(\<forall>e \<in> set (elements s). elements s ! handle_of s e = e \<and> HeapHandle_IsValid (handle_of s e) \<and>
        heap_top s = Inr (elements s ! 0) \<and> \<not> lt (value_of s (elements s ! 0)) (value_of s e))
    \<and> (e \<notin> set (elements s) \<and> e < next_object_id s \<and> heap_size s < heap_limit \<longrightarrow>
        resT (\<lambda>(i, t). heap_to lt s (add_mset e (mset (elements s))) t \<and> elements t ! i = e) (InsertImpl d lt e s))
    \<and> (pos < heap_size s \<longrightarrow>
        resT (heap_to lt s (mset (elements s) - {#elements s ! pos#})) (erase_at d lt pos s) \<and>
        resT (\<lambda>(a, t). a = elements s ! pos \<and> heap_to lt s (mset (elements s) - {#elements s ! pos#}) t) (take_at d lt pos s) \<and>
        resT (\<lambda>(i, t). heap_inv lt t \<and> mset (elements t) = mset (elements s) \<and> elements t ! i = elements s ! pos \<and>
          value_of t = (value_of s)(elements s ! pos := f (value_of s (elements s ! pos)))) (Modify d lt pos f s))
    \<and> (pos < heap_size s \<and> e \<notin> set (elements s) \<and> e < next_object_id s \<longrightarrow>
        resT (\<lambda>(i, t). heap_to lt s (add_mset e (mset (elements s) - {#elements s ! pos#})) t \<and> elements t ! i = e)
          (ReplaceImpl d lt pos e s))
    \<and> (0 < heap_size s \<and> e \<notin> set (elements s) \<and> e < next_object_id s \<longrightarrow>
        resT (\<lambda>(i, t). heap_to lt s (add_mset e (mset (elements s) - {#elements s ! 0#})) t \<and> elements t ! i = e)
          (ReplaceTopImpl d lt e s))"
  (is "?handles \<and> ?insert \<and> ?at \<and> ?replace \<and> ?top")
proof (intro conjI)
  show ?handles using heap_inv_handle [OF assms(2)] top_greatest [OF assms] by blast
  show ?insert using InsertImpl_ok [OF assms, of e d] by (auto elim!: resT_mono)
  show ?at
    using erase_at_ok [OF assms, of pos d] take_at_ok [OF assms, of pos d] Modify_ok [OF assms, of pos f d]
    by (auto elim!: resT_mono)
  show ?replace using ReplaceImpl_ok [OF assms, of pos e d] by (auto elim!: resT_mono)
  show ?top using ReplaceTopImpl_ok [OF assms, of e d] by (auto elim!: resT_mono)
qed

text \<open>
  C27. Filling a heap from a range and taking the top until it is empty sorts: the values come out
  greatest first, each as often as it went in.
\<close>

theorem heap_sort:
  assumes "strict_weak lt" "length vs \<le> heap_limit"
  shows "resT (\<lambda>(ws, t). mset ws = mset vs \<and> sorted_wrt (\<lambda>v w. \<not> lt v w) ws)
    (bindR (insert_range d lt vs (IntrusiveHeap_new s)) (repeatR (take_value d lt) (length vs)))"
proof -
  have "values_in (IntrusiveHeap_new s) = {#}" by (simp add: values_in_def elements_def IntrusiveHeap_new_def)
  then show ?thesis
    using heap_queue.put_get_all [of lt "IntrusiveHeap_new s" vs d] heap_inv_new [of lt s] assms by (simp add: insert_range_put)
qed

text \<open>
  Assigning a heap a copy of another invalidates the handles of its old elements and gives it new
  objects with the other's values, in the same order, the other's own objects and handles untouched;
  but assigned to itself a heap is empty, as it is cleared before it is copied.
\<close>

theorem heap_assignment:
  assumes "heap_inv lt s" "\<forall>e \<in> set es. e < next_object_id s" "length es \<le> heap_limit" "heap_order (ge_in lt s) es"
    "set es \<inter> set (elements s) = {}"
  shows "resT (\<lambda>t. heap_inv lt t \<and> map (value_of t) (elements t) = map (value_of s) es \<and>
      (\<forall>e \<in> set es. value_of t e = value_of s e \<and> handle_of t e = handle_of s e \<and> e \<notin> set (elements t)) \<and>
      (\<forall>e \<in> set (elements s). handle_of t e = kInvalidIndex))
      (heap_copy_assign d (Some (map Some es)) s)
    \<and> resT (\<lambda>t. elements t = [] \<and> (\<forall>e \<in> set (elements s). handle_of t e = kInvalidIndex)) (heap_copy_assign d None s)"
proof -
  let ?c = "(reset s (set (elements s)) (\<lambda>e. kInvalidIndex))\<lparr>heap_slots := []\<rparr>"
  have c: "value_of ?c = value_of s" "next_object_id ?c = next_object_id s" "ge_in lt ?c = ge_in lt s"
    by (simp_all add: ge_in_def fun_eq_iff)
  have "resT (\<lambda>t. heap_inv lt t \<and> map (value_of t) (elements t) = map (value_of s) es \<and>
      (\<forall>e < next_object_id s. value_of t e = value_of s e \<and> handle_of t e = handle_of ?c e \<and> e \<notin> set (elements t)))
      (copy_from d (map Some es) ?c)"
    using copy_from_ok [of es ?c lt d] assms(2-4) unfolding c by blast
  moreover have "handle_of ?c e = (if e \<in> set (elements s) then kInvalidIndex else handle_of s e)" for e
    by (simp add: reset_def)
  moreover have "copy_from d [] ?c = Inr ?c" by (simp add: copy_from_def heap_size_def)
  moreover have "elements ?c = []" by (simp add: elements_def)
  ultimately show ?thesis
    using assms(2,5) heap_invD(6) [OF assms(1)] heap_clear_ok [OF assms(1), of d]
    by (auto simp: heap_copy_assign_def elim!: resT_mono)
qed

section \<open>Witnesses\<close>

text \<open>A heap of the objects 0 and 1 with the values 4 and 1; the object 2 has the value 7.\<close>

definition sample_heap :: "int heap" where
  "sample_heap = \<lparr>heap_slots = [Some 0, Some 1], handle_of = (\<lambda>e. if e \<le> 1 then e else kInvalidIndex),
     value_of = (\<lambda>e. if e = 0 then 4 else if e = 1 then 1 else 7), next_object_id = 3\<rparr>"

lemma sample_elements: "elements sample_heap = [0, 1]" "heap_size sample_heap = 2" "next_object_id sample_heap = 3"
  "value_of sample_heap 2 = 7"
  by (simp_all add: sample_heap_def elements_def heap_size_def)

lemma sample_heap_inv: "heap_inv (<) sample_heap"
proof -
  have "placed sample_heap i ([0, 1] ! i)" if "i < 2" for i
    using that by (auto simp: less_2_cases_iff placed_def sample_heap_def heap_size_def)
  then have "filled sample_heap [0, 1] 0"
    by (simp add: filled_def heap_limit_def sample_elements)
  moreover have "heap_order (ge_in (<) sample_heap) [0, 1]"
    by (auto simp: heap_order_def less_2_cases_iff ge_in_def sample_heap_def par_def)
  ultimately show ?thesis by (simp add: heap_inv_def sample_elements)
qed

theorem intrusive_heap_witness:
  "\<exists>t. take_at True (<) 0 sample_heap = Inr (0, t) \<and> elements t = [1] \<and> handle_of t 0 = kInvalidIndex \<and> handle_of t 1 = 0"
proof -
  have "resT (\<lambda>(a, t). a = 0 \<and> heap_to (<) sample_heap {#1#} t) (take_at True (<) 0 sample_heap)"
    using intrusive_heap [OF std_less_strict_weak sample_heap_inv, of 3 True 0] by (simp add: sample_elements)
  then obtain t where t: "take_at True (<) 0 sample_heap = Inr (0, t)" "heap_to (<) sample_heap {#1#} t"
    by (auto simp: resT_iff)
  from t(2) have "mset (elements t) = {#1#}" by (simp add: heap_to_def)
  then have el: "elements t = [1]" by simp
  moreover have "handle_of t 0 = kInvalidIndex" using t(2) by (simp add: heap_to_def sample_elements)
  moreover have "handle_of t 1 = 0"
    using heap_inv_handle [of "(<)" t 1] t(2) el by (simp add: heap_to_def flip: length_elements)
  ultimately show ?thesis using t(1) by blast
qed

theorem heap_sort_witness:
  "\<exists>ws t. bindR (insert_range True (<) [3, 1, 4] (IntrusiveHeap_new sample_heap)) (repeatR (take_value True (<)) 3) = Inr (ws, t) \<and>
     mset ws = {#1, 3, 4#}"
  using heap_sort [OF std_less_strict_weak, of "[3, 1, 4]" True sample_heap]
  by (auto simp: heap_limit_def resT_iff numeral_3_eq_3)

theorem heap_assignment_witness:
  "\<exists>t. heap_copy_assign True (Some [Some 2]) sample_heap = Inr t \<and> map (value_of t) (elements t) = [7]"
  using heap_assignment [OF sample_heap_inv, of "[2]" True]
  by (auto simp: resT_iff sample_elements heap_limit_def heap_order_def)

end
