(* ===== verification/Spl_Inl.thy ===== *)
theory Spl_Inl
  imports Prelude
begin

text \<open>
  The inline part of the fixed-point signal processing library:
  common_audio/signal_processing/include/spl_inl.h, spl_inl_armv7.h and the macros of
  signal_processing_library.h.  An integer type is a word of its width, a signed one read with
  \<open>sint\<close>; signed overflow of an \<open>int\<close> is the fault \<open>Overflow\<close>.  A macro's arguments have the types
  its casts suppose.
\<close>

unbundle bit_operations_syntax

type_synonym int16 = "16 word"
type_synonym int32 = "32 word"

section \<open>Counting leading zeros\<close>

text \<open>The portable routine; \<open>table\<close> is the extern \<open>kWebRtcSpl_CountLeadingZeros32_Table\<close>.\<close>

definition fill_right :: "nat \<Rightarrow> 'a::len word \<Rightarrow> 'a word" where
  "fill_right k n = n OR drop_bit k n"

definition clz_index :: "int32 \<Rightarrow> int32" where
  "clz_index n = drop_bit 26 (n * 0x8c0b2891)"

definition CountLeadingZeros32_NotBuiltin :: "int list \<Rightarrow> int32 \<Rightarrow> int" where
  "CountLeadingZeros32_NotBuiltin table n =
     (let n = fill_right 1 n; n = fill_right 2 n; n = fill_right 4 n; n = fill_right 8 n; n = fill_right 16 n
      in table ! unat (clz_index n))"

definition CountLeadingZeros64_NotBuiltin :: "int list \<Rightarrow> 64 word \<Rightarrow> int" where
  "CountLeadingZeros64_NotBuiltin table n =
     (let leading_zeros = (if drop_bit 32 n = 0 then 32 else 0)
      in int leading_zeros + CountLeadingZeros32_NotBuiltin table (ucast (drop_bit (32 - leading_zeros) n)))"

text \<open>
  With GCC, \<open>builtin_clz\<close> counts the zeros above the highest one; its value at 0 is undefined and the
  callers do not ask for it.  \<open>gcc\<close> says which compiler is used.
\<close>

definition builtin_clz :: "'a::len word \<Rightarrow> int" where
  "builtin_clz n = int (length (takeWhile (\<lambda>i. \<not> bit n i) (rev [0..<LENGTH('a)])))"

definition CountLeadingZeros32 :: "bool \<Rightarrow> int list \<Rightarrow> int32 \<Rightarrow> int" where
  "CountLeadingZeros32 gcc table n =
     (if gcc then if n = 0 then 32 else builtin_clz n else CountLeadingZeros32_NotBuiltin table n)"

definition CountLeadingZeros64 :: "bool \<Rightarrow> int list \<Rightarrow> 64 word \<Rightarrow> int" where
  "CountLeadingZeros64 gcc table n =
     (if gcc then if n = 0 then 64 else builtin_clz n else CountLeadingZeros64_NotBuiltin table n)"

section \<open>Saturating arithmetic\<close>

definition SatW32ToW16 :: "int32 \<Rightarrow> int16" where
  "SatW32ToW16 value32 =
     (if 32767 < sint value32 then 32767 else if sint value32 < - 32768 then - 32768 else ucast value32)"

definition AddSatW32 :: "int32 \<Rightarrow> int32 \<Rightarrow> int32" where
  "AddSatW32 a b =
     (let sum = a + b
      in if (sint a < 0) = (sint b < 0) \<and> (sint a < 0) \<noteq> (sint sum < 0)
         then if sint sum < 0 then 0x7fffffff else 0x80000000
         else sum)"

definition SubSatW32 :: "int32 \<Rightarrow> int32 \<Rightarrow> int32" where
  "SubSatW32 a b =
     (let diff = a - b
      in if (sint a < 0) \<noteq> (sint b < 0) \<and> (sint a < 0) \<noteq> (sint diff < 0)
         then if sint diff < 0 then 0x7fffffff else 0x80000000
         else diff)"

text \<open>The sum of two \<open>int16_t\<close> is an \<open>int\<close>, which it cannot overflow.\<close>

definition AddSatW16 :: "int16 \<Rightarrow> int16 \<Rightarrow> int16" where
  "AddSatW16 a b = SatW32ToW16 (scast a + scast b)"

definition SubSatW16 :: "int16 \<Rightarrow> int16 \<Rightarrow> int16" where
  "SubSatW16 var1 var2 = SatW32ToW16 (scast var1 - scast var2)"

section \<open>Sizes and normalization\<close>

definition GetSizeInBits :: "bool \<Rightarrow> int list \<Rightarrow> int32 \<Rightarrow> int" where
  "GetSizeInBits gcc table n = 32 - CountLeadingZeros32 gcc table n"

definition NormW32 :: "bool \<Rightarrow> int list \<Rightarrow> int32 \<Rightarrow> int" where
  "NormW32 gcc table a =
     (if a = 0 then 0 else CountLeadingZeros32 gcc table (if sint a < 0 then NOT a else a) - 1)"

definition NormU32 :: "bool \<Rightarrow> int list \<Rightarrow> int32 \<Rightarrow> int" where
  "NormU32 gcc table a = (if a = 0 then 0 else CountLeadingZeros32 gcc table a)"

definition NormW16 :: "bool \<Rightarrow> int list \<Rightarrow> int16 \<Rightarrow> int" where
  "NormW16 gcc table a =
     (let a32 = (scast a :: int32)
      in if a = 0 then 0 else CountLeadingZeros32 gcc table (if sint a < 0 then NOT a32 else a32) - 17)"

definition MulAccumW16 :: "int16 \<Rightarrow> int16 \<Rightarrow> int32 \<Rightarrow> int32 res" where
  "MulAccumW16 a b c =
     bindR (i32 (sint a * sint b)) (\<lambda>ab. bindR (i32 (ab + sint c)) (\<lambda>s. Inr (word_of_int s)))"

section \<open>The macros\<close>

definition SPL_MIN :: "int \<Rightarrow> int \<Rightarrow> int" where
  "SPL_MIN A B = (if A < B then A else B)"

definition SPL_MAX :: "int \<Rightarrow> int \<Rightarrow> int" where
  "SPL_MAX A B = (if A > B then A else B)"

text \<open>The operand of the minus is promoted to \<open>int\<close>.\<close>

definition SPL_ABS_W16 :: "int16 \<Rightarrow> int res" where
  "SPL_ABS_W16 a = (if sint a \<ge> 0 then Inr (sint a) else i32 (- sint a))"

definition SPL_ABS_W32 :: "int32 \<Rightarrow> int res" where
  "SPL_ABS_W32 a = (if sint a \<ge> 0 then Inr (sint a) else i32 (- sint a))"

definition SPL_MUL :: "int32 \<Rightarrow> int32 \<Rightarrow> int res" where
  "SPL_MUL a b = i32 (sint a * sint b)"

definition SPL_UMUL :: "int32 \<Rightarrow> int32 \<Rightarrow> int32" where
  "SPL_UMUL a b = a * b"

definition SPL_UMUL_32_16 :: "int32 \<Rightarrow> int16 \<Rightarrow> int32" where
  "SPL_UMUL_32_16 a b = a * ucast b"

definition SPL_MUL_16_U16 :: "int16 \<Rightarrow> int16 \<Rightarrow> int res" where
  "SPL_MUL_16_U16 a b = i32 (sint a * uint b)"

definition SPL_MUL_16_16 :: "int16 \<Rightarrow> int16 \<Rightarrow> int res" where
  "SPL_MUL_16_16 a b = i32 (sint a * sint b)"

text \<open>\<open>b >> 16\<close> of a signed \<open>b\<close> shifts arithmetically; the cast to \<open>int16_t\<close> keeps it.\<close>

definition high16 :: "int32 \<Rightarrow> int16" where
  "high16 b = ucast (signed_drop_bit 16 b)"

definition SPL_MUL_16_32_RSFT16 :: "int16 \<Rightarrow> int32 \<Rightarrow> int res" where
  "SPL_MUL_16_32_RSFT16 a b =
     bindR (SPL_MUL_16_16 a (high16 b)) (\<lambda>h.
     bindR (SPL_MUL_16_16 a (ucast (drop_bit 1 (b AND 0xffff)))) (\<lambda>l.
     bindR (i32 (l + 0x4000)) (\<lambda>l. i32 (h + drop_bit 15 l))))"

definition SPL_MUL_16_32_RSFT11 :: "int16 \<Rightarrow> int32 \<Rightarrow> int res" where
  "SPL_MUL_16_32_RSFT11 a b =
     bindR (SPL_MUL_16_16 a (high16 b)) (\<lambda>h.
     bindR (i32 (h * 2 ^ 5)) (\<lambda>h.
     bindR (SPL_MUL_16_U16 a (ucast b)) (\<lambda>l.
     bindR (i32 (drop_bit 1 l + 0x0200)) (\<lambda>l. i32 (h + drop_bit 10 l)))))"

definition SPL_MUL_16_32_RSFT14 :: "int16 \<Rightarrow> int32 \<Rightarrow> int res" where
  "SPL_MUL_16_32_RSFT14 a b =
     bindR (SPL_MUL_16_16 a (high16 b)) (\<lambda>h.
     bindR (i32 (h * 2 ^ 2)) (\<lambda>h.
     bindR (SPL_MUL_16_U16 a (ucast b)) (\<lambda>l.
     bindR (i32 (drop_bit 1 l + 0x1000)) (\<lambda>l. i32 (h + drop_bit 13 l)))))"

definition SPL_MUL_16_32_RSFT15 :: "int16 \<Rightarrow> int32 \<Rightarrow> int res" where
  "SPL_MUL_16_32_RSFT15 a b =
     bindR (SPL_MUL_16_16 a (high16 b)) (\<lambda>h.
     bindR (i32 (h * 2 ^ 1)) (\<lambda>h.
     bindR (SPL_MUL_16_U16 a (ucast b)) (\<lambda>l.
     bindR (i32 (drop_bit 1 l + 0x2000)) (\<lambda>l. i32 (h + drop_bit 14 l)))))"

text \<open>A shift by a negative number or by the width and more is undefined, like signed overflow.\<close>

definition shift_right :: "int \<Rightarrow> int \<Rightarrow> int res" where
  "shift_right x c = (if 0 \<le> c \<and> c < 32 then Inr (drop_bit (nat c) x) else Inl Overflow)"

definition shift_left :: "int \<Rightarrow> int \<Rightarrow> int res" where
  "shift_left x c = (if 0 \<le> c \<and> c < 32 \<and> 0 \<le> x then i32 (push_bit (nat c) x) else Inl Overflow)"

definition SPL_MUL_16_16_RSFT :: "int16 \<Rightarrow> int16 \<Rightarrow> int \<Rightarrow> int res" where
  "SPL_MUL_16_16_RSFT a b c = bindR (SPL_MUL_16_16 a b) (\<lambda>p. shift_right p c)"

definition SPL_MUL_16_16_RSFT_WITH_ROUND :: "int16 \<Rightarrow> int16 \<Rightarrow> int \<Rightarrow> int res" where
  "SPL_MUL_16_16_RSFT_WITH_ROUND a b c =
     bindR (SPL_MUL_16_16 a b) (\<lambda>p.
     bindR (shift_left 1 (c - 1)) (\<lambda>r.
     bindR (i32 (p + r)) (\<lambda>s. shift_right s c)))"

text \<open>\<open>A\<close> is an \<open>int\<close>, or promoted to it; the sum with the unsigned low part is unsigned.\<close>

definition SPL_SCALEDIFF32 :: "int \<Rightarrow> int32 \<Rightarrow> int32 \<Rightarrow> int32 res" where
  "SPL_SCALEDIFF32 A B C =
     bindR (i32 (drop_bit 16 (sint B) * A)) (\<lambda>h.
     bindR (i32 (sint C + h)) (\<lambda>s.
       Inr (word_of_int s + drop_bit 16 ((B AND 0x0000FFFF) * word_of_int A))))"

definition SPL_SAT :: "int \<Rightarrow> int \<Rightarrow> int \<Rightarrow> int" where
  "SPL_SAT a b c = (if b > a then a else if b < c then c else b)"

definition SPL_SHIFT_W32 :: "int32 \<Rightarrow> int \<Rightarrow> int res" where
  "SPL_SHIFT_W32 x c =
     (if c \<ge> 0 then bindR (shift_left 1 c) (\<lambda>p. i32 (sint x * p)) else shift_right (sint x) (- c))"

definition SPL_LSHIFT_W32 :: "int32 \<Rightarrow> int \<Rightarrow> int res" where
  "SPL_LSHIFT_W32 x c = shift_left (sint x) c"

definition SPL_RSHIFT_U32 :: "int32 \<Rightarrow> int \<Rightarrow> int res" where
  "SPL_RSHIFT_U32 x c = shift_right (uint x) c"

definition SPL_RAND :: "int16 \<Rightarrow> int res" where
  "SPL_RAND a = bindR (i32 (sint a * 18816)) (\<lambda>p. Inr (signed_take_bit 15 (drop_bit 7 p AND 0x00007fff)))"

end
