(* ===== verification/Spl_Bits.thy ===== *)
theory Spl_Bits
  imports Spl_Inl
begin

text \<open>
  What the fixed-point library computes: the number of leading zeros and the normalizing shifts.
\<close>

section \<open>Filling to the right\<close>

definition spread :: "nat \<Rightarrow> 'a::len word \<Rightarrow> 'a word \<Rightarrow> bool" where
  "spread k n x \<longleftrightarrow> (\<forall>i. bit x i \<longleftrightarrow> (\<exists>j<k. bit n (i + j)))"

lemma spread_1: "spread 1 n n"
  by (simp add: spread_def)

lemma spread_fill_right:
  assumes "spread k n x"
  shows "spread (2 * k) n (fill_right k x)"
  unfolding spread_def
proof
  fix i
  have "bit (fill_right k x) i \<longleftrightarrow> (\<exists>j<k. bit n (i + j)) \<or> (\<exists>j<k. bit n (i + k + j))"
    using assms by (simp add: fill_right_def spread_def bit_or_iff bit_drop_bit_eq ac_simps)
  also have "\<dots> \<longleftrightarrow> (\<exists>j<2 * k. bit n (i + j))"
  proof
    assume "(\<exists>j<k. bit n (i + j)) \<or> (\<exists>j<k. bit n (i + k + j))"
    then show "\<exists>j<2 * k. bit n (i + j)"
    proof
      assume "\<exists>j<k. bit n (i + j)"
      then show ?thesis using trans_less_add1 by fastforce
    next
      assume "\<exists>j<k. bit n (i + k + j)"
      then obtain j where "j < k" "bit n (i + (k + j))" by (auto simp: ac_simps)
      then show ?thesis by (intro exI [of _ "k + j"]) simp
    qed
  next
    assume "\<exists>j<2 * k. bit n (i + j)"
    then obtain j where j: "j < 2 * k" "bit n (i + j)" by blast
    then show "(\<exists>j<k. bit n (i + j)) \<or> (\<exists>j<k. bit n (i + k + j))"
    proof (cases "j < k")
      case False
      then have "j - k < k" "bit n (i + k + (j - k))" using j by simp_all
      then show ?thesis by blast
    qed blast
  qed
  finally show "bit (fill_right k x) i \<longleftrightarrow> (\<exists>j<2 * k. bit n (i + j))" .
qed

section \<open>The number of significant bits\<close>

definition significant_bits :: "'a::len word \<Rightarrow> nat" where
  "significant_bits n = LENGTH('a) - length (takeWhile (\<lambda>i. \<not> bit n i) (rev [0..<LENGTH('a)]))"

lemma prefix_of_downto:
  "i < L - length (takeWhile (\<lambda>i. \<not> P i) (rev [0..<L])) \<longleftrightarrow> (\<exists>m\<ge>i. m < L \<and> P m)"
proof (induction L)
  case (Suc L)
  show ?case
  proof (cases "P L")
    case True
    then show ?thesis by (auto intro!: exI [of _ L])
  next
    case False
    then have "i < Suc L - length (takeWhile (\<lambda>i. \<not> P i) (rev [0..<Suc L])) \<longleftrightarrow> (\<exists>m\<ge>i. m < L \<and> P m)"
      by (simp add: Suc.IH)
    also have "\<dots> \<longleftrightarrow> (\<exists>m\<ge>i. m < Suc L \<and> P m)"
      using False by (metis less_Suc_eq)
    finally show ?thesis .
  qed
qed simp

lemma significant_bits_iff: "i < significant_bits n \<longleftrightarrow> (\<exists>m\<ge>i. bit n m)"
  for n :: "'a::len word"
  unfolding significant_bits_def prefix_of_downto by (auto dest: bit_imp_le_length)

lemma significant_bits_le: "significant_bits n \<le> LENGTH('a)" for n :: "'a::len word"
  by (simp add: significant_bits_def)

lemma builtin_clz_bits: "builtin_clz n = int LENGTH('a) - int (significant_bits n)"
  for n :: "'a::len word"
proof -
  have "length (takeWhile (\<lambda>i. \<not> bit n i) (rev [0..<LENGTH('a)])) \<le> LENGTH('a)"
    using length_takeWhile_le [of _ "rev [0..<LENGTH('a)]"] by simp
  then show ?thesis by (simp add: builtin_clz_def significant_bits_def of_nat_diff)
qed

lemma spread_mask:
  fixes n x :: "'a::len word"
  assumes "spread LENGTH('a) n x"
  shows "x = mask (significant_bits n)"
proof (rule bit_word_eqI)
  fix i
  assume "i < LENGTH('a)"
  have "bit x i \<longleftrightarrow> (\<exists>m\<ge>i. bit n m)"
  proof
    assume "bit x i"
    then obtain j where "bit n (i + j)" using assms unfolding spread_def by blast
    then show "\<exists>m\<ge>i. bit n m" by (intro exI [of _ "i + j"]) simp
  next
    assume "\<exists>m\<ge>i. bit n m"
    then obtain m where "i \<le> m" "bit n m" by blast
    then have "m - i < LENGTH('a)" "bit n (i + (m - i))"
      using bit_imp_le_length [of n m] by simp_all
    then show "bit x i" using assms unfolding spread_def by blast
  qed
  then show "bit x i \<longleftrightarrow> bit (mask (significant_bits n) :: 'a word) i"
    using significant_bits_le [of n] \<open>i < LENGTH('a)\<close> by (simp add: bit_mask_iff significant_bits_iff)
qed

lemma uint_significant_bits: "uint n < 2 ^ k \<longleftrightarrow> significant_bits n \<le> k" for n :: "'a::len word"
proof -
  have "uint n < 2 ^ k \<longleftrightarrow> take_bit k (uint n) = uint n"
    by (simp add: take_bit_int_eq_self_iff)
  also have "\<dots> \<longleftrightarrow> (\<forall>m. bit n m \<longrightarrow> m < k)"
    by (auto simp: bit_eq_iff bit_take_bit_iff bit_uint_iff dest: bit_imp_le_length)
  also have "\<dots> \<longleftrightarrow> \<not> k < significant_bits n"
    unfolding significant_bits_iff using linorder_not_le by blast
  finally show ?thesis by (simp add: not_less)
qed

section \<open>The table\<close>

text \<open>What the comment says of the table: under the products of the 33 filled numbers stands the answer.\<close>

definition table_ok :: "int list \<Rightarrow> bool" where
  "table_ok table \<longleftrightarrow> length table = 64 \<and> (\<forall>m\<in>{..32}. table ! unat (clz_index (mask m)) = 32 - int m)"

lemma clz32_table:
  assumes "table_ok table"
  shows "CountLeadingZeros32_NotBuiltin table n = builtin_clz n"
proof -
  have "spread 32 n (fill_right 16 (fill_right 8 (fill_right 4 (fill_right 2 (fill_right 1 n)))))"
    using spread_fill_right [OF spread_fill_right [OF spread_fill_right [OF spread_fill_right
      [OF spread_fill_right [OF spread_1 [of n]]]]]] by simp
  then have "fill_right 16 (fill_right 8 (fill_right 4 (fill_right 2 (fill_right 1 n)))) = mask (significant_bits n)"
    by (intro spread_mask) simp
  moreover have "significant_bits n \<in> {..32}" using significant_bits_le [of n] by simp
  ultimately show ?thesis
    using assms by (simp add: CountLeadingZeros32_NotBuiltin_def table_ok_def builtin_clz_bits)
qed

lemma significant_bits_eqI:
  "(\<And>k. uint n < 2 ^ k \<longleftrightarrow> s \<le> k) \<Longrightarrow> significant_bits n = s"
  by (metis uint_significant_bits order_antisym order_refl)

lemma uint_drop: "uint (drop_bit k n) = uint n div 2 ^ k" for n :: "'a::len word"
proof -
  have "uint (drop_bit k n) = drop_bit k (uint n)"
    by (rule bit_eqI) (auto simp: bit_uint_iff bit_drop_bit_eq dest: bit_imp_le_length)
  then show ?thesis by (simp add: drop_bit_eq_div)
qed

lemma div_less_iff:
  fixes x m K :: int
  assumes "0 < m"
  shows "x div m < K \<longleftrightarrow> x < K * m"
proof -
  have x: "x = x div m * m + x mod m" "0 \<le> x mod m" "x mod m < m"
    using assms by simp_all
  show ?thesis
  proof (cases "x div m < K")
    case True
    then have "(x div m + 1) * m \<le> K * m" using assms by simp
    then have "x div m * m + m \<le> K * m" by (simp add: algebra_simps)
    then show ?thesis using x True by linarith
  next
    case False
    then have "K * m \<le> x div m * m" using assms by simp
    then show ?thesis using x False by linarith
  qed
qed

lemma significant_bits_ucast:
  fixes n :: "64 word"
  shows "significant_bits (ucast (drop_bit 32 n) :: 32 word) = significant_bits n - 32"
    and "drop_bit 32 n = 0 \<Longrightarrow> significant_bits (ucast n :: 32 word) = significant_bits n"
proof -
  have "uint (drop_bit 32 n) < 2 ^ 32"
    using uint_lt2p [of n] unfolding uint_drop by simp
  then have div: "uint (ucast (drop_bit 32 n) :: 32 word) = uint n div 2 ^ 32"
    unfolding uint_drop [symmetric] unsigned_ucast_eq by (simp only: take_bit_int_eq_self_iff) simp
  show "significant_bits (ucast (drop_bit 32 n) :: 32 word) = significant_bits n - 32"
  proof (rule significant_bits_eqI)
    fix k
    have "uint n div 2 ^ 32 < 2 ^ k \<longleftrightarrow> uint n < 2 ^ (k + 32)"
      by (simp add: div_less_iff power_add)
    then show "uint (ucast (drop_bit 32 n) :: 32 word) < 2 ^ k \<longleftrightarrow> significant_bits n - 32 \<le> k"
      by (simp only: div uint_significant_bits le_diff_conv)
  qed
  assume "drop_bit 32 n = 0"
  then have "uint n div 2 ^ 32 = 0"
    by (metis unsigned_0 uint_drop)
  then have "uint (ucast n :: 32 word) = uint n"
    by (simp add: unsigned_ucast_eq take_bit_int_eq_self_iff div_int_pos_iff)
  then show "significant_bits (ucast n :: 32 word) = significant_bits n"
    by (intro significant_bits_eqI) (simp add: uint_significant_bits)
qed

lemma clz64_table:
  assumes "table_ok table"
  shows "CountLeadingZeros64_NotBuiltin table n = builtin_clz n"
proof (cases "drop_bit 32 n = 0")
  case True
  then show ?thesis
    by (simp add: CountLeadingZeros64_NotBuiltin_def clz32_table [OF assms] builtin_clz_bits significant_bits_ucast)
next
  case False
  then have "\<not> uint n < 2 ^ 32"
    using uint_drop [of 32 n] by (metis div_pos_pos_trivial uint_0_iff uint_ge_0)
  then have "32 < significant_bits n"
    using uint_significant_bits [of n 32] by simp
  then show ?thesis using False
    by (simp add: CountLeadingZeros64_NotBuiltin_def clz32_table [OF assms] builtin_clz_bits significant_bits_ucast)
qed

lemma builtin_clz_0: "builtin_clz (0 :: 'a::len word) = int LENGTH('a)"
  using uint_significant_bits [of "0 :: 'a word" 0] by (simp add: builtin_clz_bits)

lemma clz_any:
  assumes "table_ok table"
  shows "CountLeadingZeros32 gcc table n = builtin_clz n" "CountLeadingZeros64 gcc table m = builtin_clz m"
  by (simp_all add: CountLeadingZeros32_def CountLeadingZeros64_def clz32_table clz64_table assms builtin_clz_0)

section \<open>Normalizing shifts\<close>

text \<open>The largest number of steps an integer is shifted to the left within \<open>L\<close> bits and a sign.\<close>

definition largest_shift :: "nat \<Rightarrow> int \<Rightarrow> nat \<Rightarrow> bool" where
  "largest_shift L x k \<longleftrightarrow>
     (\<forall>j. - (2 ^ L) \<le> x * 2 ^ j \<and> x * 2 ^ j < 2 ^ L \<longleftrightarrow> j \<le> k)"

definition largest_unsigned_shift :: "nat \<Rightarrow> int \<Rightarrow> nat \<Rightarrow> bool" where
  "largest_unsigned_shift L x k \<longleftrightarrow> (\<forall>j. x * 2 ^ j < 2 ^ L \<longleftrightarrow> j \<le> k)"

lemma shifted_less_power:
  fixes x :: int
  assumes "\<And>k. x < 2 ^ k \<longleftrightarrow> s \<le> k" "x > 0" "s \<le> L"
  shows "x * 2 ^ j < 2 ^ L \<longleftrightarrow> j \<le> L - s"
proof (cases "j \<le> L")
  case True
  have "x * 2 ^ j < 2 ^ L \<longleftrightarrow> x * 2 ^ j < 2 ^ (L - j) * 2 ^ j"
    using True by (simp flip: power_add)
  also have "\<dots> \<longleftrightarrow> s \<le> L - j" using assms(1) by simp
  finally show ?thesis using True assms(3) by linarith
next
  case False
  then have "(2::int) ^ L \<le> 2 ^ j" by simp
  also have "\<dots> \<le> x * 2 ^ j" using assms(2) by simp
  finally show ?thesis using False by simp
qed

lemma largest_shift_magnitude:
  fixes x :: int
  assumes "\<And>k. (if x < 0 then - x - 1 else x) < 2 ^ k \<longleftrightarrow> s \<le> k" "x \<noteq> 0" "s \<le> L"
  shows "largest_shift L x (L - s)"
  unfolding largest_shift_def
proof
  fix j
  show "- (2 ^ L) \<le> x * 2 ^ j \<and> x * 2 ^ j < 2 ^ L \<longleftrightarrow> j \<le> L - s"
  proof (cases "x < 0")
    case False
    then have "x * 2 ^ j < 2 ^ L \<longleftrightarrow> j \<le> L - s"
      using assms by (intro shifted_less_power) simp_all
    moreover have "0 \<le> x * 2 ^ j" "(0::int) \<le> 2 ^ L" using False by simp_all
    ultimately show ?thesis by linarith
  next
    case True
    have less: "x * 2 ^ j < 2 ^ L" using True by (smt (verit) mult_neg_pos zero_less_power)
    show ?thesis
    proof (cases "j \<le> L")
      case jL: True
      have "- (2 ^ L) \<le> x * 2 ^ j \<longleftrightarrow> (- x) * 2 ^ j \<le> 2 ^ (L - j) * 2 ^ j"
        using jL by (simp flip: power_add) linarith
      also have "\<dots> \<longleftrightarrow> - x \<le> 2 ^ (L - j)" by (rule mult_le_cancel_right_pos) simp
      also have "\<dots> \<longleftrightarrow> s \<le> L - j" using assms(1) [of "L - j"] True by auto
      finally show ?thesis using less jL assms(3) by linarith
    next
      case False
      then have "(2::int) ^ L < 2 ^ j" by simp
      also have "\<dots> \<le> - x * 2 ^ j" using True by (intro mult_le_cancel_right1 [THEN iffD2]) simp
      finally show ?thesis using False by linarith
    qed
  qed
qed

lemma NormU32_largest:
  assumes "table_ok table" "a \<noteq> 0"
  shows "NormU32 gcc table a \<ge> 0" "largest_unsigned_shift 32 (uint a) (nat (NormU32 gcc table a))"
proof -
  have s: "significant_bits a \<le> 32" using significant_bits_le [of a] by simp
  have N: "NormU32 gcc table a = 32 - int (significant_bits a)"
    using assms by (simp add: NormU32_def clz_any builtin_clz_bits)
  then show "NormU32 gcc table a \<ge> 0" using s by simp
  have "uint a > 0" using assms(2) uint_ge_0 [of a] by (metis order_less_le unsigned_eq_0_iff)
  then have "uint a * 2 ^ j < 2 ^ 32 \<longleftrightarrow> j \<le> 32 - significant_bits a" for j
    using s by (intro shifted_less_power) (simp_all add: uint_significant_bits)
  moreover have "nat (NormU32 gcc table a) = 32 - significant_bits a"
    using N s by simp
  ultimately show "largest_unsigned_shift 32 (uint a) (nat (NormU32 gcc table a))"
    by (simp add: largest_unsigned_shift_def)
qed

lemma uint_magnitude:
  "uint (if sint a < 0 then NOT a else a) = (if sint a < 0 then - sint a - 1 else sint a)"
  "uint (if sint a < 0 then NOT a else a) < 2 ^ (LENGTH('a) - 1)" for a :: "'a::len word"
proof -
  have r: "- (2 ^ (LENGTH('a) - 1)) \<le> sint a" "sint a < 2 ^ (LENGTH('a) - 1)"
    using sint_ge [of a] sint_lt [of a] by simp_all
  have p: "(2::int) ^ LENGTH('a) = 2 * 2 ^ (LENGTH('a) - 1)"
    by (simp flip: power_Suc)
  have u: "uint a = sint a mod 2 ^ LENGTH('a)"
    by (simp add: uint_sint take_bit_eq_mod)
  have "uint (NOT a) = take_bit LENGTH('a) (NOT (uint a))"
    by (simp add: unsigned_not_eq)
  also have "\<dots> = take_bit LENGTH('a) (NOT (sint a))"
    by (simp only: uint_sint [of a] take_bit_not_take_bit)
  finally have n: "uint (NOT a) = (- sint a - 1) mod 2 ^ LENGTH('a)"
    by (simp add: not_int_def take_bit_eq_mod)
  show "uint (if sint a < 0 then NOT a else a) = (if sint a < 0 then - sint a - 1 else sint a)"
    using r p by (auto simp: u n intro!: mod_pos_pos_trivial)
  then show "uint (if sint a < 0 then NOT a else a) < 2 ^ (LENGTH('a) - 1)"
    using r by (simp split: if_splits)
qed

lemma magnitude_bits:
  fixes a :: "'a::len word"
  defines "b \<equiv> if sint a < 0 then NOT a else a"
  assumes "a \<noteq> 0"
  shows "largest_shift (LENGTH('a) - 1) (sint a) (LENGTH('a) - 1 - significant_bits b)"
    and "significant_bits b \<le> LENGTH('a) - 1"
proof -
  show s: "significant_bits b \<le> LENGTH('a) - 1"
    using uint_magnitude(2) [of a] by (simp add: b_def uint_significant_bits)
  have "(if sint a < 0 then - sint a - 1 else sint a) < 2 ^ k \<longleftrightarrow> significant_bits b \<le> k" for k
    using uint_significant_bits [of b k] uint_magnitude(1) [of a] unfolding b_def by simp
  moreover have "sint a \<noteq> 0" using assms(2) by (simp add: signed_eq_0_iff)
  ultimately show "largest_shift (LENGTH('a) - 1) (sint a) (LENGTH('a) - 1 - significant_bits b)"
    using s by (intro largest_shift_magnitude) simp_all
qed

lemma NormW32_largest:
  assumes "table_ok table" "a \<noteq> 0"
  shows "NormW32 gcc table a \<ge> 0" "largest_shift 31 (sint a) (nat (NormW32 gcc table a))"
proof -
  let ?s = "significant_bits (if sint a < 0 then NOT a else a)"
  have s: "?s \<le> 31" and l: "largest_shift 31 (sint a) (31 - ?s)"
    using magnitude_bits [OF assms(2)] by simp_all
  have N: "NormW32 gcc table a = 31 - int ?s"
    using assms by (simp add: NormW32_def clz_any builtin_clz_bits)
  then show "NormW32 gcc table a \<ge> 0" using s by simp
  have "nat (NormW32 gcc table a) = 31 - ?s" using N s by simp
  then show "largest_shift 31 (sint a) (nat (NormW32 gcc table a))" using l by simp
qed

lemma NormW16_largest:
  assumes "table_ok table" "a \<noteq> 0"
  shows "NormW16 gcc table a \<ge> 0" "largest_shift 15 (sint a) (nat (NormW16 gcc table a))"
proof -
  let ?b = "if sint a < 0 then NOT a else a" and ?c = "if sint a < 0 then NOT (scast a) else scast a :: int32"
  have sc: "sint (scast a :: int32) = sint a"
    using sint_ge [of a] sint_lt [of a] by (simp add: signed_scast_eq signed_take_bit_int_eq_self_iff)
  have "uint ?c = uint ?b"
    using uint_magnitude(1) [of a] uint_magnitude(1) [of "scast a :: int32"] by (simp add: sc)
  then have c: "significant_bits ?c = significant_bits ?b"
    by (intro significant_bits_eqI) (simp add: uint_significant_bits)
  have s: "significant_bits ?b \<le> 15" and l: "largest_shift 15 (sint a) (15 - significant_bits ?b)"
    using magnitude_bits [OF assms(2)] by simp_all
  have N: "NormW16 gcc table a = 15 - int (significant_bits ?b)"
    using assms c by (simp add: NormW16_def clz_any builtin_clz_bits Let_def)
  then show "NormW16 gcc table a \<ge> 0" using s by simp
  have "nat (NormW16 gcc table a) = 15 - significant_bits ?b" using N s by simp
  then show "largest_shift 15 (sint a) (nat (NormW16 gcc table a))" using l by simp
qed

lemma clz_products_distinct:
  "distinct (map (\<lambda>m. clz_index (mask m)) [0..<33])"
  by code_simp

section \<open>The property\<close>

text \<open>A table the routine is right with: the 33 answers, and -1 where no product leads.\<close>

definition sample_table :: "int list" where
  "sample_table =
    [32, 8, 17, -1, -1, 14, -1, -1, -1, 20, -1, -1, -1, 28, -1, 18,
     -1, -1, -1, -1, -1, -1, -1, -1, -1, -1, -1, -1, 0, 26, 25, 24,
     4, 11, 23, 31, 3, 7, 10, 16, 22, 30, -1, -1, 2, 6, 13, 9,
     -1, 15, -1, 21, -1, 29, 19, -1, -1, -1, -1, -1, 1, 27, 5, 12]"

lemma sample_table_ok: "table_ok sample_table"
  by code_simp

text \<open>
  The leading zeros counted by smearing the highest bit, multiplying and looking up the product's
  highest six bits are those of the compiler's builtin, for 32 and 64 bits and with either compiler;
  the size in bits is the least number of bits the value fits in; and the normalizing shifts
  of a value other than 0 are the largest shifts to the left that do not overflow: of -1 it is the
  sign bit's, 31 or 15.  Of 0 they are 0.  Assumed of the extern table is what its comment says: at
  the 33 products of filled numbers it has their leading zeros.  The products are distinct, so that
  there is such a table.
\<close>

theorem normalization:
  assumes "table_ok table"
  shows "CountLeadingZeros32 gcc table n = builtin_clz n \<and>
    CountLeadingZeros64 gcc table m = builtin_clz m \<and>
    (\<forall>k. uint n < 2 ^ k \<longleftrightarrow> GetSizeInBits gcc table n \<le> int k) \<and>
    (if a = 0 then NormW32 gcc table a = 0
     else NormW32 gcc table a \<ge> 0 \<and> largest_shift 31 (sint a) (nat (NormW32 gcc table a))) \<and>
    (if n = 0 then NormU32 gcc table n = 0
     else NormU32 gcc table n \<ge> 0 \<and> largest_unsigned_shift 32 (uint n) (nat (NormU32 gcc table n))) \<and>
    (if b = 0 then NormW16 gcc table b = 0
     else NormW16 gcc table b \<ge> 0 \<and> largest_shift 15 (sint b) (nat (NormW16 gcc table b))) \<and>
    distinct (map (\<lambda>m. clz_index (mask m)) [0..<33])"
proof (intro conjI)
  show "\<forall>k. uint n < 2 ^ k \<longleftrightarrow> GetSizeInBits gcc table n \<le> int k"
    using assms by (simp add: GetSizeInBits_def clz_any builtin_clz_bits uint_significant_bits)
qed (use assms in \<open>simp_all add: clz_any NormW32_largest NormU32_largest NormW16_largest NormW32_def [of _ _ 0]
    NormU32_def [of _ _ 0] NormW16_def [of _ _ 0] clz_products_distinct\<close>)

theorem normalization_witness:
  "CountLeadingZeros32 False sample_table 0x1234 = builtin_clz (0x1234 :: int32) \<and>
   CountLeadingZeros32 False sample_table 0x1234 = 19 \<and>
   largest_shift 31 (- 1) (nat (NormW32 False sample_table (- 1))) \<and> NormW32 False sample_table (- 1) = 31"
proof (intro conjI)
  show "CountLeadingZeros32 False sample_table 0x1234 = builtin_clz (0x1234 :: int32)"
    using normalization [OF sample_table_ok, of False "0x1234"] by blast
  show "largest_shift 31 (- 1) (nat (NormW32 False sample_table (- 1)))"
    using normalization [OF sample_table_ok, of False _ _ "- 1"] by simp
  show "CountLeadingZeros32 False sample_table 0x1234 = 19" by code_simp
  show "NormW32 False sample_table (- 1) = 31" by code_simp
qed

end
