(* ===== verification/Spl_Arith.thy ===== *)
theory Spl_Arith
  imports Spl_Bits
begin

text \<open>
  Saturation and fixed-point products: the portable code, and the ARMv7 code of
  spl_inl_armv7.h beside it.
\<close>

unbundle bit_operations_syntax

section \<open>The ARMv7 code\<close>

text \<open>
  The instructions the inline assembly consists of are fields of a record; \<open>reg\<close> is the register the
  compiler puts an \<open>int16_t\<close> operand in.  \<open>armv7_ok\<close> is what the architecture manual says of them: the
  lower half of \<open>reg a\<close> is \<open>a\<close> and the upper half is not determined, \<open>smulwb\<close> multiplies a word
  by the lower half of another and keeps the upper 32 of the 48 bits, and so on.
\<close>

record armv7 =
  reg :: "int16 \<Rightarrow> int32"
  smulwb :: "int32 \<Rightarrow> int32 \<Rightarrow> int32"
  smulbb :: "int32 \<Rightarrow> int32 \<Rightarrow> int32"
  smlabb :: "int32 \<Rightarrow> int32 \<Rightarrow> int32 \<Rightarrow> int32"
  qadd16 :: "int32 \<Rightarrow> int32 \<Rightarrow> int32"
  qsub16 :: "int32 \<Rightarrow> int32 \<Rightarrow> int32"
  qadd :: "int32 \<Rightarrow> int32 \<Rightarrow> int32"
  qsub :: "int32 \<Rightarrow> int32 \<Rightarrow> int32"
  clz :: "int32 \<Rightarrow> int32"
  ssat_16 :: "int32 \<Rightarrow> int32"

definition low16 :: "int32 \<Rightarrow> int16" where
  "low16 x = ucast x"

definition clamp :: "nat \<Rightarrow> int \<Rightarrow> int" where
  "clamp w x = max (- (2 ^ (w - 1))) (min (2 ^ (w - 1) - 1) x)"

definition armv7_ok :: "armv7 \<Rightarrow> bool" where
  "armv7_ok I \<longleftrightarrow>
     (\<forall>a. low16 (reg I a) = a) \<and>
     (\<forall>x y. sint (smulwb I x y) = sint x * sint (low16 y) div 2 ^ 16) \<and>
     (\<forall>x y. sint (smulbb I x y) = sint (low16 x) * sint (low16 y)) \<and>
     (\<forall>x y z. smlabb I x y z = word_of_int (sint (low16 x) * sint (low16 y) + sint z)) \<and>
     (\<forall>x y. sint (low16 (qadd16 I x y)) = clamp 16 (sint (low16 x) + sint (low16 y))) \<and>
     (\<forall>x y. sint (low16 (qsub16 I x y)) = clamp 16 (sint (low16 x) - sint (low16 y))) \<and>
     (\<forall>x y. sint (qadd I x y) = clamp 32 (sint x + sint y)) \<and>
     (\<forall>x y. sint (qsub I x y) = clamp 32 (sint x - sint y)) \<and>
     (\<forall>x. sint (clz I x) = builtin_clz x) \<and>
     (\<forall>x. sint (ssat_16 I x) = clamp 16 (sint x))"

definition arm_MUL_16_32_RSFT16 :: "armv7 \<Rightarrow> int16 \<Rightarrow> int32 \<Rightarrow> int32" where
  "arm_MUL_16_32_RSFT16 I a b = smulwb I b (reg I a)"

definition arm_MUL_16_16 :: "armv7 \<Rightarrow> int16 \<Rightarrow> int16 \<Rightarrow> int32" where
  "arm_MUL_16_16 I a b = smulbb I (reg I a) (reg I b)"

definition arm_MulAccumW16 :: "armv7 \<Rightarrow> int16 \<Rightarrow> int16 \<Rightarrow> int32 \<Rightarrow> int32" where
  "arm_MulAccumW16 I a b c = smlabb I (reg I a) (reg I b) c"

definition arm_AddSatW16 :: "armv7 \<Rightarrow> int16 \<Rightarrow> int16 \<Rightarrow> int16" where
  "arm_AddSatW16 I a b = ucast (qadd16 I (reg I a) (reg I b))"

definition arm_AddSatW32 :: "armv7 \<Rightarrow> int32 \<Rightarrow> int32 \<Rightarrow> int32" where
  "arm_AddSatW32 I l_var1 l_var2 = qadd I l_var1 l_var2"

definition arm_SubSatW32 :: "armv7 \<Rightarrow> int32 \<Rightarrow> int32 \<Rightarrow> int32" where
  "arm_SubSatW32 I l_var1 l_var2 = qsub I l_var1 l_var2"

definition arm_SubSatW16 :: "armv7 \<Rightarrow> int16 \<Rightarrow> int16 \<Rightarrow> int16" where
  "arm_SubSatW16 I var1 var2 = ucast (qsub16 I (reg I var1) (reg I var2))"

definition arm_GetSizeInBits :: "armv7 \<Rightarrow> int32 \<Rightarrow> int" where
  "arm_GetSizeInBits I n = signed_take_bit 15 (32 - sint (clz I n))"

definition arm_NormW32 :: "armv7 \<Rightarrow> int32 \<Rightarrow> int" where
  "arm_NormW32 I a =
     (if a = 0 then 0
      else let a = (if sint a < 0 then a XOR 0xFFFFFFFF else a) in signed_take_bit 15 (sint (clz I a) - 1))"

definition arm_NormU32 :: "armv7 \<Rightarrow> int32 \<Rightarrow> int" where
  "arm_NormU32 I a = (if a = 0 then 0 else signed_take_bit 15 (sint (clz I a)))"

definition arm_NormW16 :: "armv7 \<Rightarrow> int16 \<Rightarrow> int" where
  "arm_NormW16 I a =
     (let a_32 = (scast a :: int32)
      in if a_32 = 0 then 0
         else let a_32 = (if sint a_32 < 0 then a_32 XOR 0xFFFFFFFF else a_32)
              in signed_take_bit 15 (sint (clz I a_32) - 17))"

definition arm_SatW32ToW16 :: "armv7 \<Rightarrow> int32 \<Rightarrow> int16" where
  "arm_SatW32ToW16 I value32 = ucast (ssat_16 I value32)"

section \<open>Words as integers\<close>

lemma int32_range: "- (2 ^ 31) \<le> sint a" "sint a < 2 ^ 31" for a :: int32
  using sint_ge [of a] sint_lt [of a] by simp_all

lemma int16_range: "- (2 ^ 15) \<le> sint a" "sint a < 2 ^ 15" for a :: int16
  using sint_ge [of a] sint_lt [of a] by simp_all

lemma sint_of_int32:
  assumes "- (2 ^ 32) \<le> x" "x < 2 ^ 32"
  shows "sint (word_of_int x :: int32) =
    (if x < - (2 ^ 31) then x + 2 ^ 32 else if x < 2 ^ 31 then x else x - 2 ^ 32)"
proof -
  have "sint (word_of_int x :: int32) = (x + 2 ^ 31) mod 2 ^ 32 - 2 ^ 31"
    by (simp add: sint_sbintrunc' signed_take_bit_eq_take_bit_shift take_bit_eq_mod)
  moreover have "(x + 2 ^ 31) mod 2 ^ 32 =
    (if x < - (2 ^ 31) then x + 2 ^ 31 + 2 ^ 32 else if x < 2 ^ 31 then x + 2 ^ 31 else x + 2 ^ 31 - 2 ^ 32)"
    using assms mod_add_self2 [of "x + 2 ^ 31" "2 ^ 32"] minus_mod_self2 [of "x + 2 ^ 31" "2 ^ 32"]
    by (auto simp: mod_pos_pos_trivial simp del: mod_add_self2 minus_mod_self2)
  ultimately show ?thesis by simp
qed

lemma AddSatW32_clamp: "sint (AddSatW32 a b) = clamp 32 (sint a + sint b)"
proof -
  have s: "a + b = word_of_int (sint a + sint b)" by simp
  have "sint (a + b) = (if sint a + sint b < - (2 ^ 31) then sint a + sint b + 2 ^ 32
    else if sint a + sint b < 2 ^ 31 then sint a + sint b else sint a + sint b - 2 ^ 32)"
    unfolding s using int32_range [of a] int32_range [of b] by (intro sint_of_int32) simp_all
  then show ?thesis
    using int32_range [of a] int32_range [of b]
    by (simp add: AddSatW32_def clamp_def Let_def del: word_add_def) linarith
qed

lemma SubSatW32_clamp: "sint (SubSatW32 a b) = clamp 32 (sint a - sint b)"
proof -
  have s: "a - b = word_of_int (sint a - sint b)" by simp
  have "sint (a - b) = (if sint a - sint b < - (2 ^ 31) then sint a - sint b + 2 ^ 32
    else if sint a - sint b < 2 ^ 31 then sint a - sint b else sint a - sint b - 2 ^ 32)"
    unfolding s using int32_range [of a] int32_range [of b] by (intro sint_of_int32) simp_all
  then show ?thesis
    using int32_range [of a] int32_range [of b]
    by (simp add: SubSatW32_def clamp_def Let_def) linarith
qed

lemma sint_ucast_int16:
  fixes x :: int32
  assumes "- (2 ^ 15) \<le> sint x" "sint x < 2 ^ 15"
  shows "sint (ucast x :: int16) = sint x"
  using assms by (simp add: signed_ucast_eq uint_sint signed_take_bit_take_bit signed_take_bit_int_eq_self_iff)

lemma SatW32ToW16_clamp: "sint (SatW32ToW16 x) = clamp 16 (sint x)"
  by (auto simp: SatW32ToW16_def clamp_def sint_ucast_int16)

lemma sint_scast_int32: "sint (scast a :: int32) = sint a" for a :: int16
  using int16_range [of a] by (simp add: signed_scast_eq signed_take_bit_int_eq_self_iff)

lemma AddSatW16_clamp: "sint (AddSatW16 a b) = clamp 16 (sint a + sint b)"
proof -
  have s: "scast a + scast b = (word_of_int (sint a + sint b) :: int32)"
    by (simp only: scast_eq of_int_add of_int_diff)
  have "sint (scast a + scast b :: int32) = sint a + sint b"
    unfolding s using int16_range [of a] int16_range [of b] by (subst sint_of_int32) simp_all
  then show ?thesis by (simp add: AddSatW16_def SatW32ToW16_clamp)
qed

lemma SubSatW16_clamp: "sint (SubSatW16 a b) = clamp 16 (sint a - sint b)"
proof -
  have s: "scast a - scast b = (word_of_int (sint a - sint b) :: int32)"
    by (simp only: scast_eq of_int_add of_int_diff)
  have "sint (scast a - scast b :: int32) = sint a - sint b"
    unfolding s using int16_range [of a] int16_range [of b] by (subst sint_of_int32) simp_all
  then show ?thesis by (simp add: SubSatW16_def SatW32ToW16_clamp)
qed

section \<open>Products\<close>

lemma i32_eq: "- (2 ^ 31) \<le> x \<Longrightarrow> x < 2 ^ 31 \<Longrightarrow> i32 x = Inr x"
  by (simp add: i32_def)

lemma product_range:
  fixes x y :: int
  assumes "- m \<le> x" "x \<le> m" "- n \<le> y" "y \<le> n"
  shows "- (m * n) \<le> x * y" "x * y \<le> m * n"
proof -
  have "\<bar>x * y\<bar> \<le> m * n"
    unfolding abs_mult using assms by (intro mult_mono) auto
  then show "- (m * n) \<le> x * y" "x * y \<le> m * n" by auto
qed

lemma MUL_16_16_eq: "SPL_MUL_16_16 a b = Inr (sint a * sint b)"
  using product_range [of "2 ^ 15" "sint a" "2 ^ 15" "sint b"] int16_range [of a] int16_range [of b]
  by (simp add: SPL_MUL_16_16_def i32_eq)

lemma MUL_16_U16_eq: "SPL_MUL_16_U16 a b = Inr (sint a * uint b)"
proof -
  have "uint b < 2 ^ 16" using uint_lt2p [of b] by simp
  then show ?thesis
    using product_range [of "2 ^ 15" "sint a" "2 ^ 16 - 1" "uint b"] int16_range [of a] uint_ge_0 [of b]
    by (simp add: SPL_MUL_16_U16_def i32_eq)
qed

text \<open>A 32-bit factor is its upper half, signed, and its lower half, unsigned.\<close>

lemma halves: "sint b = sint (high16 b) * 2 ^ 16 + uint (low16 b)" for b :: int32
proof -
  have "sint (high16 b) = sint b div 2 ^ 16"
  proof -
    have "sint (signed_drop_bit 16 b) = sint b div 2 ^ 16"
      by (simp add: sint_signed_drop_bit_eq drop_bit_eq_div)
    moreover have "- (2 ^ 15) \<le> sint b div 2 ^ 16" "sint b div 2 ^ 16 < 2 ^ 15"
      using int32_range [of b] div_less_iff [of "2 ^ 16" "sint b" "- (2 ^ 15)"]
        div_less_iff [of "2 ^ 16" "sint b" "2 ^ 15"] by simp_all
    ultimately show ?thesis by (simp add: high16_def sint_ucast_int16)
  qed
  moreover have "uint (low16 b) = sint b mod 2 ^ 16"
    by (simp add: low16_def unsigned_ucast_eq uint_sint [of b] take_bit_eq_mod mod_mod_cancel)
  ultimately show ?thesis by simp
qed

text \<open>The nearest integer to \<open>x / 2 ^ k\<close>, the upper one of two.\<close>

definition rounded :: "nat \<Rightarrow> int \<Rightarrow> int" where
  "rounded k x = (x + 2 ^ (k - 1)) div 2 ^ k"

definition fits32 :: "int \<Rightarrow> bool" where
  "fits32 x \<longleftrightarrow> - (2 ^ 31) \<le> x \<and> x < 2 ^ 31"

lemma i32_fits: "i32 x = (if fits32 x then Inr x else Inl Overflow)"
  by (simp add: i32_def fits32_def)

lemma rounded_half: "1 < k \<Longrightarrow> (l div 2 + 2 ^ (k - 2)) div 2 ^ (k - 1) = rounded k l"
proof -
  assume "1 < k"
  then obtain j where k: "k = Suc (Suc j)" using less_imp_Suc_add [of 1 k] by auto
  have "l div 2 + 2 ^ j = (l + 2 ^ Suc j) div 2" by simp
  moreover have "(l + 2 ^ Suc j) div 2 div 2 ^ Suc j = (l + 2 ^ Suc j) div (2 * 2 ^ Suc j)"
    by (rule zdiv_zmult2_eq [symmetric]) simp
  ultimately have "(l div 2 + 2 ^ j) div 2 ^ Suc j = (l + 2 ^ Suc j) div 2 ^ k"
    by (simp only: k power_Suc)
  then show ?thesis by (simp only: rounded_def k diff_Suc_Suc diff_zero diff_Suc_1 numeral_2_eq_2)
qed

lemma rounded_shift: "k \<le> 16 \<Longrightarrow> h * 2 ^ (16 - k) + rounded k l = rounded k (h * 2 ^ 16 + l)"
proof -
  assume "k \<le> 16"
  then have "h * 2 ^ 16 = h * 2 ^ (16 - k) * 2 ^ k" by (simp flip: power_add)
  then show ?thesis by (simp only: rounded_def add.assoc) simp
qed

lemma low_product_range: "- (2 ^ 31) < sint a * uint b" "sint a * uint b < 2 ^ 31" for a b :: int16
proof -
  have "uint b < 2 ^ 16" using uint_lt2p [of b] by simp
  then show "- (2 ^ 31) < sint a * uint b" "sint a * uint b < 2 ^ 31"
    using product_range [of "2 ^ 15" "sint a" "2 ^ 16 - 1" "uint b"] int16_range [of a] uint_ge_0 [of b]
    by simp_all
qed

definition rounded_product :: "nat \<Rightarrow> int16 \<Rightarrow> int32 \<Rightarrow> int res" where
  "rounded_product k a b =
     bindR (i32 (sint a * sint (high16 b) * 2 ^ (16 - k))) (\<lambda>_. i32 (rounded k (sint a * sint b)))"

lemma RSFT_rounded:
  assumes "1 < k" "k \<le> 16"
  shows "bindR (i32 (sint a * sint (high16 b) * 2 ^ (16 - k))) (\<lambda>h.
     i32 (h + rounded k (sint a * uint (low16 b)))) = rounded_product k a b"
proof -
  have "sint a * sint b = sint a * sint (high16 b) * 2 ^ 16 + sint a * uint (low16 b)"
    by (subst halves) (simp add: algebra_simps)
  then have "sint a * sint (high16 b) * 2 ^ (16 - k) + rounded k (sint a * uint (low16 b)) =
     rounded k (sint a * sint b)"
    using assms(2) by (simp add: rounded_shift)
  then show ?thesis
    by (simp add: rounded_product_def i32_def)
qed

lemma RSFT_low:
  fixes a b :: int16
  assumes "c \<in> {0..<2 ^ 30}"
  shows "i32 (sint a * uint b div 2 + c) = Inr (sint a * uint b div 2 + c)"
proof -
  have "- (2 ^ 30) \<le> sint a * uint b div 2" "sint a * uint b div 2 < 2 ^ 30"
    using low_product_range [of a b] div_less_iff [of 2 "sint a * uint b" "2 ^ 30"]
      div_less_iff [of 2 "sint a * uint b" "- (2 ^ 30)"] by simp_all
  then show ?thesis using assms by (simp add: i32_eq drop_bit_eq_div)
qed

lemma MUL_16_32_RSFT_rounded:
  "SPL_MUL_16_32_RSFT11 a b = rounded_product 11 a b"
  "SPL_MUL_16_32_RSFT14 a b = rounded_product 14 a b"
  "SPL_MUL_16_32_RSFT15 a b = rounded_product 15 a b"
  using RSFT_rounded [of 11 a b] RSFT_rounded [of 14 a b] RSFT_rounded [of 15 a b]
  by (simp_all add: SPL_MUL_16_32_RSFT11_def SPL_MUL_16_32_RSFT14_def SPL_MUL_16_32_RSFT15_def
      MUL_16_16_eq MUL_16_U16_eq RSFT_low drop_bit_eq_div rounded_half [of 11, simplified]
      rounded_half [of 14, simplified] rounded_half [of 15, simplified] flip: low16_def)

lemma largest_product: "sint a * sint b = 2 ^ 30 \<longleftrightarrow> a = - (2 ^ 15) \<and> b = - (2 ^ 15)" for a b :: int16
proof
  assume p: "sint a * sint b = 2 ^ 30"
  have "sint x = - (2 ^ 15)" if "sint x * sint y = 2 ^ 30" for x y :: int16
    using product_range [of "2 ^ 15 - 1" "sint x" "2 ^ 15" "sint y"] int16_range [of x] int16_range [of y] that
    by fastforce
  from this [of a b] this [of b a] p have "sint a = sint (- (2 ^ 15) :: int16)" "sint b = sint (- (2 ^ 15) :: int16)"
    by (simp_all add: mult.commute)
  then show "a = - (2 ^ 15) \<and> b = - (2 ^ 15)" by (simp add: signed_word_eqI)
qed simp

lemma MUL_16_16_ROUND_rounded:
  assumes "1 \<le> c" "c \<le> 31"
  shows "SPL_MUL_16_16_RSFT_WITH_ROUND a b c =
    (if c = 31 \<and> a = - (2 ^ 15) \<and> b = - (2 ^ 15) then Inl Overflow else Inr (rounded (nat c) (sint a * sint b)))"
proof -
  have r: "- (2 ^ 30) \<le> sint a * sint b" "sint a * sint b \<le> 2 ^ 30"
    using product_range [of "2 ^ 15" "sint a" "2 ^ 15" "sint b"] int16_range [of a] int16_range [of b] by simp_all
  have s: "shift_left 1 (c - 1) = Inr (2 ^ (nat c - 1))"
  proof -
    have "nat c - 1 \<le> 30" using assms by simp
    then have "(2::int) ^ (nat c - 1) \<le> 2 ^ 30" by (rule power_increasing) simp
    then have "i32 (2 ^ (nat c - 1)) = Inr (2 ^ (nat c - 1))"
      by (intro i32_eq) (simp_all add: order_trans [of _ 0])
    moreover have "nat (c - 1) = nat c - 1" by simp
    ultimately show ?thesis using assms by (simp add: shift_left_def push_bit_eq_mult)
  qed
  show ?thesis
  proof (cases "c = 31")
    case True
    have "fits32 (sint a * sint b + 2 ^ 30) \<longleftrightarrow> sint a * sint b \<noteq> 2 ^ 30"
      using r by (auto simp: fits32_def)
    then show ?thesis using True largest_product [of a b] s
      by (simp add: SPL_MUL_16_16_RSFT_WITH_ROUND_def MUL_16_16_eq i32_fits shift_right_def rounded_def drop_bit_eq_div)
  next
    case False
    then have "nat c - 1 \<le> 29" using assms by simp
    then have "(2::int) ^ (nat c - 1) \<le> 2 ^ 29" by (rule power_increasing) simp
    moreover have "(0::int) < 2 ^ (nat c - 1)" by simp
    ultimately have "fits32 (sint a * sint b + 2 ^ (nat c - 1))"
      using r unfolding fits32_def by (simp del: zero_less_power)
    then show ?thesis using False s assms
      by (simp add: SPL_MUL_16_16_RSFT_WITH_ROUND_def MUL_16_16_eq i32_fits shift_right_def rounded_def drop_bit_eq_div)
  qed
qed

lemma uint_low16: "uint (b AND 0xffff) = uint (low16 b)" for b :: int32
proof -
  have "b AND 0xffff = take_bit 16 b" by (simp add: take_bit_eq_mask mask_eq_exp_minus_1)
  then show ?thesis by (simp add: low16_def unsigned_ucast_eq unsigned_take_bit_eq)
qed

lemma MUL_16_32_RSFT16_eq:
  "SPL_MUL_16_32_RSFT16 a b =
    Inr (sint a * sint (high16 b) + (sint a * (uint (low16 b) div 2) + 2 ^ 14) div 2 ^ 15)"
proof -
  have u: "0 \<le> uint (low16 b) div 2" "uint (low16 b) div 2 \<le> 2 ^ 15 - 1"
    using uint_lt2p [of "low16 b"] by simp_all
  have l: "sint (ucast (drop_bit 1 (b AND 0xffff)) :: int16) = uint (low16 b) div 2"
  proof -
    have "uint (drop_bit 1 (b AND 0xffff)) = uint (low16 b) div 2"
      by (simp only: uint_drop uint_low16 power_one_right)
    then have "sint (drop_bit 1 (b AND 0xffff)) = uint (low16 b) div 2"
      using order_trans [OF _ u(1), of "- (2 ^ 31)"] u(2) by (simp add: sint_uint signed_take_bit_int_eq_self_iff)
    then show ?thesis using order_trans [OF _ u(1), of "- (2 ^ 15)"] u(2) by (subst sint_ucast_int16) simp_all
  qed
  have p: "- (2 ^ 30) \<le> sint a * (uint (low16 b) div 2)" "sint a * (uint (low16 b) div 2) < 2 ^ 30"
    using product_range [of "2 ^ 15" "sint a" "2 ^ 15 - 1" "uint (low16 b) div 2"] int16_range [of a] u by simp_all
  have h: "- (2 ^ 30) \<le> sint a * sint (high16 b)" "sint a * sint (high16 b) \<le> 2 ^ 30"
    using product_range [of "2 ^ 15" "sint a" "2 ^ 15" "sint (high16 b)"] int16_range [of a]
      int16_range [of "high16 b"] by simp_all
  let ?l = "(sint a * (uint (low16 b) div 2) + 2 ^ 14) div 2 ^ 15"
  have "- (2 ^ 15) \<le> ?l" "?l < 2 ^ 16"
    using p div_less_iff [of "2 ^ 15" "sint a * (uint (low16 b) div 2) + 2 ^ 14" "2 ^ 16"]
      div_less_iff [of "2 ^ 15" "sint a * (uint (low16 b) div 2) + 2 ^ 14" "- (2 ^ 15)"] by simp_all
  then have "fits32 (sint a * (uint (low16 b) div 2) + 2 ^ 14)" "fits32 (sint a * sint (high16 b) + ?l)"
    using p h by (simp_all add: fits32_def)
  then show ?thesis
    unfolding SPL_MUL_16_32_RSFT16_def MUL_16_16_eq l bindR_Inr i32_fits by (simp add: drop_bit_eq_div)
qed

lemma low_scaled:
  fixes B :: int32
  assumes "- (2 ^ 15) \<le> A" "A < 2 ^ 16"
  shows "uint (drop_bit 16 ((B AND 0xFFFF) * word_of_int A)) =
    uint (low16 B) * A div 2 ^ 16 + (if A < 0 \<and> low16 B \<noteq> 0 then 2 ^ 16 else 0)"
proof -
  let ?l = "uint (low16 B)"
  have l: "0 \<le> ?l" "?l \<le> 2 ^ 16 - 1" using uint_lt2p [of "low16 B"] by simp_all
  have p: "- (2 ^ 32) < ?l * A" "?l * A < 2 ^ 32"
    using product_range [of "2 ^ 16 - 1" ?l "2 ^ 16 - 1" A] l assms by simp_all
  have "uint ((B AND 0xFFFF) * word_of_int A) = ?l * A mod 2 ^ 32"
    by (simp only: uint_word_ariths uint_low16 uint_word_of_int mod_mult_right_eq) simp
  also have "\<dots> = ?l * A + (if A < 0 \<and> low16 B \<noteq> 0 then 2 ^ 32 else 0)"
  proof (cases "A < 0 \<and> low16 B \<noteq> 0")
    case True
    then have "?l > 0" using l(1) by (simp add: order_less_le unsigned_eq_0_iff)
    then have "?l * A < 0" using True by (simp add: mult_pos_neg)
    then have "(?l * A + 2 ^ 32) mod 2 ^ 32 = ?l * A + 2 ^ 32" using p by (intro mod_pos_pos_trivial) simp_all
    then show ?thesis using True by simp
  next
    case False
    then have "0 \<le> ?l * A" using l(1) by (cases "A < 0") auto
    then show ?thesis using p False by (subst mod_pos_pos_trivial) auto
  qed
  finally have "uint ((B AND 0xFFFF) * word_of_int A) =
    ?l * A + (if A < 0 \<and> low16 B \<noteq> 0 then 2 ^ 16 else 0) * 2 ^ 16" by simp
  then show ?thesis by (simp only: uint_drop) (simp add: add.commute)
qed

text \<open>
  The sum with the low product, taken modulo the width, is right for a factor from 0 on; for a negative
  one the low product is taken for a large number, and its upper half is too large by 2 to the power 16.
\<close>

lemma SCALEDIFF32_eq:
  assumes "- (2 ^ 15) \<le> A" "A < 2 ^ 16" "fits32 (sint C + sint (high16 B) * A)"
  shows "SPL_SCALEDIFF32 A B C =
    Inr (word_of_int (sint C + A * sint B div 2 ^ 16 + (if A < 0 \<and> low16 B \<noteq> 0 then 2 ^ 16 else 0)))"
proof -
  let ?h = "sint (high16 B)" and ?l = "uint (low16 B)"
  have l: "0 \<le> ?l" "?l \<le> 2 ^ 16 - 1" using uint_lt2p [of "low16 B"] by simp_all
  have "drop_bit 16 (sint B) = ?h"
    using l by (subst halves) (simp add: drop_bit_eq_div)
  moreover have "fits32 (?h * A)"
    using product_range [of "2 ^ 15" ?h "2 ^ 16 - 1" A] int16_range [of "high16 B"] assms(1,2)
    by (simp add: fits32_def)
  moreover have "SPL_SCALEDIFF32 A B C = Inr (word_of_int (sint C + ?h * A) +
      drop_bit 16 ((B AND 0xFFFF) * word_of_int A))" if "drop_bit 16 (sint B) = ?h" "fits32 (?h * A)"
    using assms(3) that by (simp add: SPL_SCALEDIFF32_def i32_fits)
  moreover have "A * sint B div 2 ^ 16 = ?h * A + ?l * A div 2 ^ 16"
    by (subst halves) (simp add: algebra_simps)
  moreover have "drop_bit 16 ((B AND 0xFFFF) * word_of_int A) =
    word_of_int (?l * A div 2 ^ 16 + (if A < 0 \<and> low16 B \<noteq> 0 then 2 ^ 16 else 0))"
    using low_scaled [OF assms(1,2)] by (metis word_of_int_uint)
  ultimately show ?thesis by (simp add: add.assoc flip: of_int_add)
qed

lemma half_error:
  fixes h p e :: int
  shows "\<bar>2 ^ 16 * (h + (p + 2 ^ 14) div 2 ^ 15) - (2 ^ 16 * h + (2 * p + e))\<bar> \<le> 2 ^ 15 + \<bar>e\<bar>"
proof -
  define d m where "d = (p + 2 ^ 14) div 2 ^ 15" and "m = (p + 2 ^ 14) mod 2 ^ 15"
  then have "p + 2 ^ 14 = d * 2 ^ 15 + m" "0 \<le> m" "m < 2 ^ 15"
    by (simp_all only: div_mult_mod_eq pos_mod_sign pos_mod_bound zero_less_power zero_less_numeral)
  then show ?thesis
    unfolding d_def [symmetric] abs_le_iff using abs_ge_self [of e] abs_ge_minus_self [of e] by simp
qed

lemma MUL_16_32_RSFT16_error:
  fixes a :: int16 and b :: int32
  defines "r \<equiv> sint a * sint (high16 b) + (sint a * (uint (low16 b) div 2) + 2 ^ 14) div 2 ^ 15"
  shows "\<bar>2 ^ 16 * r - sint a * sint b\<bar> \<le> (if even (uint (low16 b)) then 2 ^ 15 else 2 ^ 16)"
proof -
  let ?q = "uint (low16 b) div 2" and ?e = "uint (low16 b) mod 2"
  have "sint a * (2 * ?q + ?e) = 2 * (sint a * ?q) + sint a * ?e" by (simp only: algebra_simps)
  then have "sint a * uint (low16 b) = 2 * (sint a * ?q) + sint a * ?e" by (simp only: mult_div_mod_eq)
  moreover have "sint a * sint b = 2 ^ 16 * (sint a * sint (high16 b)) + sint a * uint (low16 b)"
    by (subst halves) (simp add: algebra_simps)
  ultimately have "\<bar>2 ^ 16 * r - sint a * sint b\<bar> \<le> 2 ^ 15 + \<bar>sint a * ?e\<bar>"
    unfolding r_def by (simp only: half_error)
  moreover have "\<bar>sint a * ?e\<bar> \<le> (if even (uint (low16 b)) then 0 else 2 ^ 15)"
    using int16_range [of a] by (simp add: even_iff_mod_2_eq_zero odd_iff_mod_2_eq_one abs_le_iff)
  ultimately show ?thesis by (simp split: if_splits)
qed

section \<open>Other macros\<close>

lemma ABS_W16_eq: "SPL_ABS_W16 a = Inr \<bar>sint a\<bar>"
  using int16_range [of a] by (simp add: SPL_ABS_W16_def i32_def)

lemma ABS_W32_eq: "SPL_ABS_W32 a = (if sint a = - (2 ^ 31) then Inl Overflow else Inr \<bar>sint a\<bar>)"
  using int32_range [of a] by (simp add: SPL_ABS_W32_def i32_def)

lemma SAT_clamp: "c \<le> a \<Longrightarrow> SPL_SAT a b c = max c (min a b)"
  by (simp add: SPL_SAT_def)

lemma RAND_range: "resT (\<lambda>r. 0 \<le> r \<and> r \<le> 32767) (SPL_RAND a)"
proof -
  have "fits32 (sint a * 18816)" using int16_range [of a] by (simp add: fits32_def)
  moreover have "drop_bit 7 (sint a * 18816) AND 0x7fff = take_bit 15 (drop_bit 7 (sint a * 18816))"
    by (simp add: take_bit_eq_mask mask_eq_exp_minus_1)
  moreover have "signed_take_bit 15 (take_bit 15 x) = take_bit 15 x" "take_bit 15 x \<le> 32767" for x :: int
    using take_bit_int_less_exp [of 15 x] by (simp_all add: signed_take_bit_take_bit)
  ultimately show ?thesis
    by (simp add: SPL_RAND_def i32_fits)
qed

lemma SHIFT_W32_right: "0 < c \<Longrightarrow> c < 32 \<Longrightarrow> SPL_SHIFT_W32 x (- c) = Inr (sint x div 2 ^ nat c)"
  by (simp add: SPL_SHIFT_W32_def shift_right_def drop_bit_eq_div)

section \<open>The ARMv7 code against the portable code\<close>

lemma sint_eqI: "sint a = sint b \<Longrightarrow> a = b" for a b :: "'a::len word"
  by (rule signed_word_eqI)

lemma builtin_clz_range: "0 \<le> builtin_clz n" "builtin_clz n \<le> 32" for n :: int32
  using significant_bits_le [of n] by (simp_all add: builtin_clz_bits)

lemma arm_complement: "(a XOR 0xFFFFFFFF) = NOT a" for a :: int32
proof -
  have "(0xFFFFFFFF :: int32) = - 1" by simp
  then show ?thesis by (simp only: bit.xor_one_right)
qed

lemma arm_norms:
  assumes "armv7_ok I"
  shows "arm_GetSizeInBits I n = GetSizeInBits True table n"
    "arm_NormW32 I n = NormW32 True table n"
    "arm_NormU32 I n = NormU32 True table n"
    "arm_NormW16 I a = NormW16 True table a"
proof -
  have c: "sint (clz I x) = builtin_clz x" for x using assms by (simp add: armv7_ok_def)
  have g: "CountLeadingZeros32 True table x = builtin_clz x" for x
    by (simp add: CountLeadingZeros32_def builtin_clz_0)
  have k: "signed_take_bit 15 (32 - builtin_clz x) = 32 - builtin_clz x"
    "signed_take_bit 15 (builtin_clz x) = builtin_clz x"
    "signed_take_bit 15 (builtin_clz x - 1) = builtin_clz x - 1"
    "signed_take_bit 15 (builtin_clz x - 17) = builtin_clz x - 17" for x :: int32
    using builtin_clz_range [of x] by (simp_all add: signed_take_bit_int_eq_self_iff)
  show "arm_GetSizeInBits I n = GetSizeInBits True table n"
    by (simp add: arm_GetSizeInBits_def GetSizeInBits_def c g k)
  show "arm_NormW32 I n = NormW32 True table n"
    by (simp only: arm_NormW32_def NormW32_def Let_def c g k arm_complement)
  show "arm_NormU32 I n = NormU32 True table n"
    by (simp only: arm_NormU32_def NormU32_def c g k)
  have "(scast a :: int32) = 0 \<longleftrightarrow> a = 0"
    by (metis sint_scast_int32 signed_eq_0_iff)
  then show "arm_NormW16 I a = NormW16 True table a"
    by (simp only: arm_NormW16_def NormW16_def Let_def c g k arm_complement sint_scast_int32)
qed

text \<open>Instructions as the manual describes them.\<close>

definition sample_armv7 :: armv7 where
  "sample_armv7 = \<lparr>reg = scast,
     smulwb = (\<lambda>x y. word_of_int (sint x * sint (low16 y) div 2 ^ 16)),
     smulbb = (\<lambda>x y. word_of_int (sint (low16 x) * sint (low16 y))),
     smlabb = (\<lambda>x y z. word_of_int (sint (low16 x) * sint (low16 y) + sint z)),
     qadd16 = (\<lambda>x y. word_of_int (clamp 16 (sint (low16 x) + sint (low16 y)))),
     qsub16 = (\<lambda>x y. word_of_int (clamp 16 (sint (low16 x) - sint (low16 y)))),
     qadd = (\<lambda>x y. word_of_int (clamp 32 (sint x + sint y))),
     qsub = (\<lambda>x y. word_of_int (clamp 32 (sint x - sint y))),
     clz = (\<lambda>x. word_of_int (builtin_clz x)),
     ssat_16 = (\<lambda>x. word_of_int (clamp 16 (sint x)))\<rparr>"

lemma sint_word_of_int32: "fits32 x \<Longrightarrow> sint (word_of_int x :: int32) = x"
  by (simp add: fits32_def sint_sbintrunc' signed_take_bit_int_eq_self_iff)

lemma clamp_fits: "fits32 (clamp 16 x)" "fits32 (clamp 32 x)" "- (2 ^ 15) \<le> clamp 16 x" "clamp 16 x < 2 ^ 15"
  by (auto simp: fits32_def clamp_def)

lemma sint_low16_clamp: "sint (low16 (word_of_int (clamp 16 x))) = clamp 16 x"
  unfolding low16_def using clamp_fits [of x]
  by (subst sint_ucast_int16) (simp_all only: sint_word_of_int32)

lemma smulwb_fits: "fits32 (sint x * sint y div 2 ^ 16)" for x :: int32 and y :: int16
  using product_range [of "2 ^ 31" "sint x" "2 ^ 15" "sint y"] int32_range [of x] int16_range [of y]
    div_less_iff [of "2 ^ 16" "sint x * sint y" "2 ^ 31"] div_less_iff [of "2 ^ 16" "sint x * sint y" "- (2 ^ 31)"]
  unfolding fits32_def by simp

lemma smulbb_fits: "fits32 (sint x * sint y)" for x y :: int16
  using product_range [of "2 ^ 15" "sint x" "2 ^ 15" "sint y"] int16_range [of x] int16_range [of y]
  by (simp add: fits32_def)

lemma sample_armv7_ok: "armv7_ok sample_armv7"
proof -
  have "low16 (scast a) = a" for a :: int16
    by (rule sint_eqI) (use int16_range [of a] in \<open>simp add: low16_def sint_ucast_int16 sint_scast_int32\<close>)
  moreover have "fits32 (builtin_clz x)" for x :: int32
    using builtin_clz_range [of x] by (simp add: fits32_def)
  ultimately show ?thesis
    unfolding armv7_ok_def sample_armv7_def
    by (simp add: sint_low16_clamp sint_word_of_int32 clamp_fits smulwb_fits [simplified] smulbb_fits del: of_int_add of_int_mult)
qed

section \<open>The properties\<close>

text \<open>The shifted product against the quotient rounded down.\<close>

lemma within_one:
  fixes r p :: int
  assumes "\<bar>2 ^ 16 * r - p\<bar> \<le> 2 ^ 16"
  shows "\<bar>r - p div 2 ^ 16\<bar> \<le> 1"
proof -
  have "p = 65536 * (p div 65536) + p mod 65536" "0 \<le> p mod 65536" "p mod 65536 < 65536" by simp_all
  with assms show ?thesis by simp
qed

lemma MUL_16_32_RSFT16_close:
  "resT (\<lambda>r. \<bar>r - sint a * sint b div 2 ^ 16\<bar> \<le> 1) (SPL_MUL_16_32_RSFT16 a b)"
  unfolding MUL_16_32_RSFT16_eq resT_Inr
  by (rule within_one, rule order_trans [OF MUL_16_32_RSFT16_error]) simp

text \<open>
  C40. The saturating operations of 16 and 32 bits give the sum or difference of the integers, clamped to
  the type, although the 32-bit ones compute with wrapped sums and judge the overflow by signs.  Of
  the twelve operations of the ARMv7 header eleven give the portable one's result: the five that saturate,
  the size, the three normalizing shifts and the product of 16 bits everywhere, multiply-accumulate wherever the portable
  one is defined, that is where its sum fits.  The twelfth, the product shifted by 16, is not bit exact: it is
  within one of the portable result and for 1 and 65534 gives 0 against 1.
\<close>

theorem saturation:
  assumes "armv7_ok I"
  shows "sint (AddSatW32 a b) = clamp 32 (sint a + sint b) \<and>
    sint (SubSatW32 a b) = clamp 32 (sint a - sint b) \<and>
    sint (SatW32ToW16 a) = clamp 16 (sint a) \<and>
    sint (AddSatW16 x y) = clamp 16 (sint x + sint y) \<and>
    sint (SubSatW16 x y) = clamp 16 (sint x - sint y) \<and>
    arm_AddSatW32 I a b = AddSatW32 a b \<and> arm_SubSatW32 I a b = SubSatW32 a b \<and>
    arm_SatW32ToW16 I a = SatW32ToW16 a \<and>
    arm_AddSatW16 I x y = AddSatW16 x y \<and> arm_SubSatW16 I x y = SubSatW16 x y \<and>
    arm_GetSizeInBits I a = GetSizeInBits True table a \<and> arm_NormW32 I a = NormW32 True table a \<and>
    arm_NormU32 I a = NormU32 True table a \<and> arm_NormW16 I x = NormW16 True table x \<and>
    MulAccumW16 x y a = (if fits32 (sint x * sint y + sint a) then Inr (arm_MulAccumW16 I x y a) else Inl Overflow) \<and>
    SPL_MUL_16_16 x y = Inr (sint (arm_MUL_16_16 I x y)) \<and>
    resT (\<lambda>r. \<bar>r - sint (arm_MUL_16_32_RSFT16 I x b)\<bar> \<le> 1) (SPL_MUL_16_32_RSFT16 x b) \<and>
    SPL_MUL_16_32_RSFT16 1 0xfffe = Inr 1 \<and> sint (arm_MUL_16_32_RSFT16 I 1 0xfffe) = 0"
proof -
  have low: "low16 (reg I z) = z" for z using assms by (simp add: armv7_ok_def)
  have c: "- (2 ^ 15) \<le> clamp 16 (sint a)" "clamp 16 (sint a) < 2 ^ 15" by (rule clamp_fits)+
  have "arm_AddSatW32 I a b = AddSatW32 a b" "arm_SubSatW32 I a b = SubSatW32 a b"
    by (rule sint_eqI, use assms in \<open>simp add: armv7_ok_def arm_AddSatW32_def arm_SubSatW32_def
        AddSatW32_clamp SubSatW32_clamp\<close>)+
  moreover have "arm_SatW32ToW16 I a = SatW32ToW16 a"
    by (rule sint_eqI) (use assms c in \<open>simp add: armv7_ok_def arm_SatW32ToW16_def SatW32ToW16_clamp sint_ucast_int16\<close>)
  moreover have "arm_AddSatW16 I x y = AddSatW16 x y" "arm_SubSatW16 I x y = SubSatW16 x y"
    by (rule sint_eqI, use assms in \<open>simp add: armv7_ok_def arm_AddSatW16_def arm_SubSatW16_def low16_def
        AddSatW16_clamp SubSatW16_clamp\<close>)+
  moreover have "MulAccumW16 x y a =
      (if fits32 (sint x * sint y + sint a) then Inr (arm_MulAccumW16 I x y a) else Inl Overflow)"
    using assms by (simp add: MulAccumW16_def i32_fits smulbb_fits arm_MulAccumW16_def armv7_ok_def low del: of_int_add of_int_mult)
  moreover have shifted: "sint (arm_MUL_16_32_RSFT16 I z b) = sint z * sint b div 2 ^ 16" for z b
    using assms by (simp add: armv7_ok_def arm_MUL_16_32_RSFT16_def mult.commute)
  then have "resT (\<lambda>r. \<bar>r - sint (arm_MUL_16_32_RSFT16 I x b)\<bar> \<le> 1) (SPL_MUL_16_32_RSFT16 x b)"
    by (simp only: shifted) (rule resT_mono [OF MUL_16_32_RSFT16_close], simp)
  moreover have "SPL_MUL_16_32_RSFT16 1 0xfffe = Inr 1" by code_simp
  moreover have "sint (arm_MUL_16_32_RSFT16 I 1 0xfffe) = 0" by (simp add: shifted)
  moreover have "SPL_MUL_16_16 x y = Inr (sint (arm_MUL_16_16 I x y))"
    using assms by (simp add: armv7_ok_def arm_MUL_16_16_def MUL_16_16_eq)
  ultimately show ?thesis
    using arm_norms [OF assms]
    by (simp add: AddSatW32_clamp SubSatW32_clamp SatW32ToW16_clamp AddSatW16_clamp SubSatW16_clamp)
qed

theorem saturation_witness:
  "arm_AddSatW32 sample_armv7 0x7fffffff 1 = AddSatW32 0x7fffffff 1 \<and> AddSatW32 0x7fffffff 1 = 0x7fffffff \<and>
   MulAccumW16 (- 32768) (- 32768) 0x7fffffff = Inl Overflow"
proof (intro conjI)
  show "arm_AddSatW32 sample_armv7 0x7fffffff 1 = AddSatW32 0x7fffffff 1"
    using saturation [OF sample_armv7_ok, of "0x7fffffff" 1] by blast
qed code_simp+

text \<open>
  The products of a 16-bit and a 32-bit factor that are shifted by 11, 14 and 15 are the product
  over that power of two rounded to the nearest integer, wherever the upper partial product and
  the result fit.  The one shifted by 16 never overflows and is within one of the quotient, within half
  where the lower half of the factor is even; the ARMv7 instruction rounds down.  A shift with rounding
  overflows for one product only.  Adding a scaled difference adds the scaled product, rounded down,
  for a factor from 0 on; a negative factor gives 65536 too much unless the lower half of the
  difference is 0.
\<close>

theorem fixed_point_products:
  assumes "armv7_ok I" "1 \<le> c" "c \<le> 31" "- (2 ^ 15) \<le> A" "A < 2 ^ 16" "fits32 (sint C + sint (high16 B) * A)"
  shows "SPL_MUL_16_32_RSFT11 a b = rounded_product 11 a b \<and>
    SPL_MUL_16_32_RSFT14 a b = rounded_product 14 a b \<and>
    SPL_MUL_16_32_RSFT15 a b = rounded_product 15 a b \<and>
    resT (\<lambda>r. \<bar>2 ^ 16 * r - sint a * sint b\<bar> \<le> (if even (uint (low16 b)) then 2 ^ 15 else 2 ^ 16))
      (SPL_MUL_16_32_RSFT16 a b) \<and>
    sint (arm_MUL_16_32_RSFT16 I a b) = sint a * sint b div 2 ^ 16 \<and>
    SPL_MUL_16_16 a a' = Inr (sint (arm_MUL_16_16 I a a')) \<and>
    SPL_MUL_16_16_RSFT_WITH_ROUND a a' c =
      (if c = 31 \<and> a = - (2 ^ 15) \<and> a' = - (2 ^ 15) then Inl Overflow else Inr (rounded (nat c) (sint a * sint a'))) \<and>
    SPL_SCALEDIFF32 A B C =
      Inr (word_of_int (sint C + A * sint B div 2 ^ 16 + (if A < 0 \<and> low16 B \<noteq> 0 then 2 ^ 16 else 0)))"
proof (intro conjI)
  show "resT (\<lambda>r. \<bar>2 ^ 16 * r - sint a * sint b\<bar> \<le> (if even (uint (low16 b)) then 2 ^ 15 else 2 ^ 16))
      (SPL_MUL_16_32_RSFT16 a b)"
    using MUL_16_32_RSFT16_error [where a = a and b = b] by (simp add: MUL_16_32_RSFT16_eq)
  show "sint (arm_MUL_16_32_RSFT16 I a b) = sint a * sint b div 2 ^ 16"
    using assms(1) by (simp add: armv7_ok_def arm_MUL_16_32_RSFT16_def mult.commute)
  show "SPL_MUL_16_16 a a' = Inr (sint (arm_MUL_16_16 I a a'))"
    using assms(1) by (simp add: armv7_ok_def arm_MUL_16_16_def MUL_16_16_eq)
qed (use assms MUL_16_32_RSFT_rounded MUL_16_16_ROUND_rounded SCALEDIFF32_eq in blast)+

text \<open>For 65534 / 65536 the portable code gives 1 and the ARMv7 code 0.\<close>

theorem fixed_point_products_witness:
  "SPL_MUL_16_32_RSFT16 1 0xfffe = Inr 1 \<and> sint (arm_MUL_16_32_RSFT16 sample_armv7 1 0xfffe) = 0 \<and>
   SPL_SCALEDIFF32 (- 1) 1 0 = Inr (word_of_int (0 + (- 1) + 65536))"
proof (intro conjI)
  have p: "sint (arm_MUL_16_32_RSFT16 sample_armv7 1 0xfffe) = sint (1 :: int16) * sint (0xfffe :: int32) div 2 ^ 16 \<and>
     SPL_SCALEDIFF32 (- 1) 1 0 = Inr (word_of_int (sint (0 :: int32) + (- 1) * sint (1 :: int32) div 2 ^ 16 +
       (if (- 1 :: int) < 0 \<and> low16 1 \<noteq> 0 then 2 ^ 16 else 0)))"
    using fixed_point_products [OF sample_armv7_ok, of 1 "- 1" 0 1 1 "0xfffe"] by (simp add: fits32_def high16_def)
  show "sint (arm_MUL_16_32_RSFT16 sample_armv7 1 0xfffe) = 0" using p by simp
  show "SPL_SCALEDIFF32 (- 1) 1 0 = Inr (word_of_int (0 + (- 1) + 65536))" using p by (simp add: low16_def)
  show "SPL_MUL_16_32_RSFT16 1 0xfffe = Inr 1" by code_simp
qed

end
