(* ===== verification/Mru_Cache.thy ===== *)
theory Mru_Cache
  imports Prelude "HOL-Library.AList"
begin

text \<open>
  The cache of base/containers/mru_cache.h: a list of key and payload, most recent first, and an index from
  keys to list nodes.  A node has an address, its name for iterators and references; an address is
  not used twice, so that a reference to a node that was erased is recognised.  An iterator is the
  address of a node, or \<open>None\<close> for \<open>end()\<close>; a reverse iterator is its \<open>base()\<close>.  The index is \<open>std::map\<close>
  or \<open>std::unordered_map\<close>, an association list here, for keys that compare by equality.
\<close>

section \<open>State\<close>

type_synonym iter = "nat option"

record ('k, 'v) mru_cache =
  ordering_list :: "(nat \<times> 'k \<times> 'v) list"
  index :: "('k \<times> nat) list"
  max_size :: nat
  next_node :: nat

definition MRUCache_new :: "nat \<Rightarrow> ('k, 'v) mru_cache" where
  "MRUCache_new n = \<lparr>ordering_list = [], index = [], max_size = n, next_node = 0\<rparr>"

section \<open>The list\<close>

text \<open>Dereferencing \<open>end()\<close> or an iterator to an erased node is a fault.\<close>

definition deref :: "iter \<Rightarrow> ('k, 'v) mru_cache \<Rightarrow> ('k \<times> 'v) res" where
  "deref pos c = (case pos of None \<Rightarrow> Inl Bad_memory
     | Some a \<Rightarrow> (case map_of (ordering_list c) a of None \<Rightarrow> Inl Bad_memory | Some e \<Rightarrow> Inr e))"

definition mru_begin :: "('k, 'v) mru_cache \<Rightarrow> iter" where
  "mru_begin c = (case ordering_list c of [] \<Rightarrow> None | x # xs \<Rightarrow> Some (fst x))"

definition mru_end :: "('k, 'v) mru_cache \<Rightarrow> iter" where
  "mru_end c = None"

definition mru_rbegin :: "('k, 'v) mru_cache \<Rightarrow> iter" where
  "mru_rbegin c = mru_end c"

definition mru_rend :: "('k, 'v) mru_cache \<Rightarrow> iter" where
  "mru_rend c = mru_begin c"

definition mru_empty :: "('k, 'v) mru_cache \<Rightarrow> bool" where
  "mru_empty c \<longleftrightarrow> ordering_list c = []"

fun node_after :: "nat \<Rightarrow> (nat \<times> 'e) list \<Rightarrow> iter" where
  "node_after a [] = None"
| "node_after a (x # xs) =
     (if fst x = a then (case xs of [] \<Rightarrow> None | y # ys \<Rightarrow> Some (fst y)) else node_after a xs)"

fun node_before :: "iter \<Rightarrow> (nat \<times> 'e) list \<Rightarrow> iter" where
  "node_before i [] = None"
| "node_before i [x] = (if i = None then Some (fst x) else None)"
| "node_before i (x # y # ys) = (if i = Some (fst y) then Some (fst x) else node_before i (y # ys))"

section \<open>Operations\<close>

definition mru_size :: "bool \<Rightarrow> ('k, 'v) mru_cache \<Rightarrow> nat res" where
  "mru_size d c = dcheck d (length (index c) = length (ordering_list c)) (length (index c))"

text \<open>\<open>Erase\<close> returns the following node.\<close>

definition mru_Erase :: "iter \<Rightarrow> ('k, 'v) mru_cache \<Rightarrow> (('k, 'v) mru_cache \<times> iter) res" where
  "mru_Erase pos c =
     bindR (deref pos c) (\<lambda>e.
       Inr (c\<lparr>index := AList.delete (fst e) (index c), ordering_list := AList.delete (the pos) (ordering_list c)\<rparr>,
            node_after (the pos) (ordering_list c)))"

text \<open>The node a reverse iterator refers to is the one before its base.\<close>

definition mru_Erase_reverse :: "iter \<Rightarrow> ('k, 'v) mru_cache \<Rightarrow> (('k, 'v) mru_cache \<times> iter) res" where
  "mru_Erase_reverse pos c = mru_Erase (node_before pos (ordering_list c)) c"

fun shrink_loop :: "nat \<Rightarrow> nat \<Rightarrow> ('k, 'v) mru_cache \<Rightarrow> ('k, 'v) mru_cache res" where
  "shrink_loop 0 new_size c = Inr c"
| "shrink_loop (Suc i) new_size c =
     (if Suc i > new_size
      then bindR (mru_Erase_reverse (mru_rbegin c) c) (\<lambda>(c, _). shrink_loop i new_size c)
      else Inr c)"

definition ShrinkToSize :: "bool \<Rightarrow> nat \<Rightarrow> ('k, 'v) mru_cache \<Rightarrow> ('k, 'v) mru_cache res" where
  "ShrinkToSize d new_size c = bindR (mru_size d c) (\<lambda>i. shrink_loop i new_size c)"

text \<open>
  \<open>Put\<close> takes its key and payload by reference: an object of the caller's, or the key or payload of a
  node of the cache.
\<close>

datatype 'a reference = Own 'a | In_node nat

definition read_ref :: "('k \<times> 'v \<Rightarrow> 'a) \<Rightarrow> 'a reference \<Rightarrow> ('k, 'v) mru_cache \<Rightarrow> 'a res" where
  "read_ref part r c = (case r of Own x \<Rightarrow> Inr x | In_node a \<Rightarrow> bindR (deref (Some a) c) (\<lambda>e. Inr (part e)))"

text \<open>\<open>emplace\<close> of a map leaves an entry with the key as it is.\<close>

definition map_emplace :: "'k \<Rightarrow> 'a \<Rightarrow> ('k \<times> 'a) list \<Rightarrow> ('k \<times> 'a) list" where
  "map_emplace k x m = (if map_of m k = None then (k, x) # m else m)"

definition mru_Put ::
  "bool \<Rightarrow> 'k reference \<Rightarrow> 'v reference \<Rightarrow> ('k, 'v) mru_cache \<Rightarrow> (('k, 'v) mru_cache \<times> iter) res" where
  "mru_Put d key payload c =
     bindR (read_ref fst key c) (\<lambda>k.
     bindR (case map_of (index c) k of
              Some a \<Rightarrow> bindR (mru_Erase (Some a) c) (\<lambda>(c, _). Inr c)
            | None \<Rightarrow> if max_size c \<noteq> 0 then ShrinkToSize d (max_size c - 1) c else Inr c) (\<lambda>c.
     bindR (read_ref fst key c) (\<lambda>k.
     bindR (read_ref snd payload c) (\<lambda>v.
       let c = c\<lparr>ordering_list := (next_node c, k, v) # ordering_list c, next_node := Suc (next_node c)\<rparr> in
     bindR (read_ref fst key c) (\<lambda>k.
       let c = (case mru_begin c of Some a \<Rightarrow> c\<lparr>index := map_emplace k a (index c)\<rparr> | None \<Rightarrow> c)
       in Inr (c, mru_begin c))))))"

definition mru_Get :: "'k \<Rightarrow> ('k, 'v) mru_cache \<Rightarrow> (('k, 'v) mru_cache \<times> iter) res" where
  "mru_Get key c =
     (case map_of (index c) key of
        None \<Rightarrow> Inr (c, mru_end c)
      | Some a \<Rightarrow>
          bindR (deref (Some a) c) (\<lambda>e.
            let c = c\<lparr>ordering_list := (a, e) # AList.delete a (ordering_list c)\<rparr> in Inr (c, mru_begin c)))"

definition mru_Peek :: "'k \<Rightarrow> ('k, 'v) mru_cache \<Rightarrow> iter" where
  "mru_Peek key c = (case map_of (index c) key of None \<Rightarrow> mru_end c | Some a \<Rightarrow> Some a)"

definition mru_Swap :: "('k, 'v) mru_cache \<Rightarrow> ('k, 'v) mru_cache \<Rightarrow> ('k, 'v) mru_cache \<times> ('k, 'v) mru_cache" where
  "mru_Swap this other = (other, this)"

definition mru_Clear :: "('k, 'v) mru_cache \<Rightarrow> ('k, 'v) mru_cache" where
  "mru_Clear c = c\<lparr>index := [], ordering_list := []\<rparr>"

end
