(* ===== verification/Mru_Props.thy ===== *)
theory Mru_Props
  imports Mru_Cache "HOL-Library.Multiset"
begin

text \<open>
  The cache as a list of keys and payloads, most recent first, and what it holds after a program of
  calls: the locale \<open>recency_cache\<close>.
\<close>

section \<open>The invariant\<close>

definition index_of :: "(nat \<times> 'k \<times> 'v) list \<Rightarrow> ('k \<times> nat) list" where
  "index_of xs = map (\<lambda>(a, k, v). (k, a)) xs"

definition entries :: "('k, 'v) mru_cache \<Rightarrow> ('k \<times> 'v) list" where
  "entries c = map snd (ordering_list c)"

definition mru_ok :: "('k, 'v) mru_cache \<Rightarrow> bool" where
  "mru_ok c \<longleftrightarrow> distinct (map fst (ordering_list c)) \<and> distinct (map fst (entries c)) \<and>
     mset (index c) = mset (index_of (ordering_list c)) \<and> (\<forall>a \<in> fst ` set (ordering_list c). a < next_node c)"

definition mru_inv :: "('k, 'v) mru_cache \<Rightarrow> bool" where
  "mru_inv c \<longleftrightarrow> mru_ok c \<and> (max_size c = 0 \<or> length (entries c) \<le> max_size c)"

lemma map_of_mset:
  assumes "mset xs = mset ys" "distinct (map fst ys)"
  shows "map_of xs = map_of ys"
proof
  fix k
  have "distinct (map fst xs)"
    using assms by (metis mset_eq_imp_distinct_iff mset_map)
  then have "map_of xs k = Some v \<longleftrightarrow> map_of ys k = Some v" for v
    using assms by (metis map_of_eq_Some_iff mset_eq_setD)
  then show "map_of xs k = map_of ys k" by (metis not_Some_eq)
qed

lemma keys_index_of: "map fst (index_of xs) = map fst (map snd xs)"
  by (simp add: index_of_def comp_def case_prod_beta)

lemma map_of_index_of: "map_of (index_of xs) k = Some a \<Longrightarrow> \<exists>v. (a, k, v) \<in> set xs"
  by (auto simp: index_of_def dest!: map_of_SomeD)

lemma index_lookup:
  assumes "mru_ok c"
  shows "map_of (index c) k = Some a \<longleftrightarrow> (\<exists>v. (a, k, v) \<in> set (ordering_list c))"
    and "map_of (index c) k = None \<longleftrightarrow> k \<notin> fst ` set (entries c)"
proof -
  have d: "distinct (map fst (index_of (ordering_list c)))"
    using assms by (simp add: keys_index_of mru_ok_def entries_def)
  then have m: "map_of (index c) = map_of (index_of (ordering_list c))"
    using assms by (intro map_of_mset) (simp_all add: mru_ok_def)
  show "map_of (index c) k = Some a \<longleftrightarrow> (\<exists>v. (a, k, v) \<in> set (ordering_list c))"
    unfolding m map_of_eq_Some_iff [OF d] by (force simp: index_of_def)
  show "map_of (index c) k = None \<longleftrightarrow> k \<notin> fst ` set (entries c)"
    unfolding m map_of_eq_None_iff set_map [symmetric] keys_index_of entries_def ..
qed

lemma deref_eq:
  assumes "mru_ok c"
  shows "deref i c = Inr e \<longleftrightarrow> (\<exists>a. i = Some a \<and> (a, e) \<in> set (ordering_list c))"
proof -
  have m: "map_of (ordering_list c) a = Some e \<longleftrightarrow> (a, e) \<in> set (ordering_list c)" for a e
    using assms by (intro map_of_eq_Some_iff) (simp add: mru_ok_def)
  show ?thesis by (auto simp: deref_def simp flip: m split: option.splits)
qed

lemma deref_gone: "a \<notin> fst ` set (ordering_list c) \<Longrightarrow> deref (Some a) c = Inl Bad_memory"
  by (simp add: deref_def map_of_eq_None_iff [symmetric])

section \<open>Erasing\<close>

lemma delete_node:
  assumes "distinct (map fst xs)" "distinct (map fst (map snd xs))" "(a, k, v) \<in> set xs"
  shows "AList.delete a xs = filter (\<lambda>x. fst (snd x) \<noteq> k) xs"
  unfolding AList.delete_eq
proof (rule filter_cong [OF refl])
  fix x
  assume x: "x \<in> set xs"
  have "fst x = a \<longleftrightarrow> fst (snd x) = k"
  proof
    assume "fst x = a"
    then have "x = (a, k, v)" using x assms(1,3) by (metis eq_key_imp_eq_value prod.collapse)
    then show "fst (snd x) = k" by simp
  next
    assume "fst (snd x) = k"
    moreover have "inj_on (fst \<circ> snd) (set xs)" using assms(2) by (simp add: distinct_map)
    ultimately have "x = (a, k, v)" using x assms(3) inj_onD [of "fst \<circ> snd" "set xs" x "(a, k, v)"] by simp
    then show "fst x = a" by simp
  qed
  then show "(case x of (k', _) \<Rightarrow> a \<noteq> k') \<longleftrightarrow> fst (snd x) \<noteq> k" by (auto simp: case_prod_beta)
qed

lemma filter_index_of: "filter (\<lambda>x. fst x \<noteq> k) (index_of xs) = index_of (filter (\<lambda>x. fst (snd x) \<noteq> k) xs)"
  by (induction xs) (auto simp: index_of_def)

lemma entries_filter:
  "map snd (filter (\<lambda>x. fst (snd x) \<noteq> k) xs) = filter (\<lambda>e. fst e \<noteq> k) (map snd xs)"
  by (simp add: filter_map comp_def)

lemma mru_ok_filter:
  assumes "mru_ok c"
  shows "mru_ok (c\<lparr>index := AList.delete k (index c), ordering_list := filter (\<lambda>x. fst (snd x) \<noteq> k) (ordering_list c)\<rparr>)"
proof -
  have "mset (AList.delete k (index c)) = filter_mset (\<lambda>x. fst x \<noteq> k) (mset (index c))"
    by (simp add: AList.delete_eq case_prod_beta eq_commute)
  also have "\<dots> = filter_mset (\<lambda>x. fst x \<noteq> k) (mset (index_of (ordering_list c)))"
    using assms by (simp only: mru_ok_def)
  also have "\<dots> = mset (index_of (filter (\<lambda>x. fst (snd x) \<noteq> k) (ordering_list c)))"
    by (simp only: filter_index_of mset_filter [symmetric])
  finally show ?thesis
    using assms by (simp add: mru_ok_def entries_def entries_filter distinct_map_filter del: map_map)
qed

lemma mru_Erase_eq:
  assumes "mru_ok c" "(a, k, v) \<in> set (ordering_list c)"
  shows "mru_Erase (Some a) c =
    Inr (c\<lparr>index := AList.delete k (index c), ordering_list := filter (\<lambda>x. fst (snd x) \<noteq> k) (ordering_list c)\<rparr>,
      node_after a (ordering_list c))"
proof -
  have "deref (Some a) c = Inr (k, v)" using assms deref_eq [OF assms(1)] by blast
  moreover have "AList.delete a (ordering_list c) = filter (\<lambda>x. fst (snd x) \<noteq> k) (ordering_list c)"
    using assms by (intro delete_node) (auto simp: mru_ok_def entries_def)
  ultimately show ?thesis by (simp add: mru_Erase_def)
qed

lemma node_before_last: "xs \<noteq> [] \<Longrightarrow> node_before None xs = Some (fst (last xs))"
  by (induction "None :: iter" xs rule: node_before.induct) auto

lemma filter_without: "k \<notin> (\<lambda>x. fst (snd x)) ` set xs \<Longrightarrow> filter (\<lambda>x. fst (snd x) \<noteq> k) xs = xs"
  by (induction xs) auto

lemma filter_butlast:
  assumes "distinct (map fst (map snd xs))" "xs \<noteq> []"
  shows "filter (\<lambda>x. fst (snd x) \<noteq> fst (snd (last xs))) xs = butlast xs"
proof -
  obtain ys y where xs: "xs = ys @ [y]" using assms(2) by (metis append_butlast_last_id)
  have "fst (snd y) \<notin> (\<lambda>x. fst (snd x)) ` set ys" using assms(1) by (simp add: xs image_image)
  then have "filter (\<lambda>x. fst (snd x) \<noteq> fst (snd y)) ys = ys" by (rule filter_without)
  then show ?thesis by (simp add: xs)
qed

lemma shrink_loop_ok:
  "mru_ok c \<Longrightarrow> length (ordering_list c) = i \<Longrightarrow>
    resT (\<lambda>t. mru_ok t \<and> ordering_list t = take n (ordering_list c) \<and> max_size t = max_size c \<and> next_node t = next_node c)
      (shrink_loop i n c)"
proof (induction i arbitrary: c)
  case (Suc i)
  show ?case
  proof (cases "Suc i > n")
    case True
    define k where "k = fst (snd (last (ordering_list c)))"
    define c' where "c' = c\<lparr>index := AList.delete k (index c), ordering_list := filter (\<lambda>x. fst (snd x) \<noteq> k) (ordering_list c)\<rparr>"
    have ne: "ordering_list c \<noteq> []" using Suc.prems(2) by auto
    then have l: "(fst (last (ordering_list c)), k, snd (snd (last (ordering_list c)))) \<in> set (ordering_list c)"
      by (simp add: k_def)
    have c': "mru_ok c'" "max_size c' = max_size c" "next_node c' = next_node c"
      using mru_ok_filter [OF Suc.prems(1)] by (simp_all add: c'_def)
    have o: "ordering_list c' = butlast (ordering_list c)"
      using filter_butlast [OF _ ne] Suc.prems(1) by (simp add: mru_ok_def entries_def c'_def k_def)
    then have "length (ordering_list c') = i" "take n (ordering_list c') = take n (ordering_list c)"
      using True Suc.prems(2) by (simp_all add: take_butlast)
    moreover have "shrink_loop (Suc i) n c = shrink_loop i n c'"
      using True mru_Erase_eq [OF Suc.prems(1) l] node_before_last [OF ne]
      by (simp add: mru_Erase_reverse_def mru_rbegin_def mru_end_def c'_def)
    ultimately show ?thesis using Suc.IH [OF c'(1)] c'(2,3) by simp
  next
    case False
    then show ?thesis using Suc.prems by simp
  qed
qed simp

lemma mru_size_eq: "mru_ok c \<Longrightarrow> mru_size d c = Inr (length (ordering_list c))"
proof -
  assume "mru_ok c"
  then have "size (mset (index c)) = size (mset (index_of (ordering_list c)))" by (simp only: mru_ok_def)
  then have "length (index c) = length (ordering_list c)" by (simp add: index_of_def)
  then show ?thesis by (simp add: mru_size_def)
qed

lemma ShrinkToSize_ok:
  "mru_ok c \<Longrightarrow>
    resT (\<lambda>t. mru_ok t \<and> ordering_list t = take n (ordering_list c) \<and> max_size t = max_size c \<and> next_node t = next_node c)
      (ShrinkToSize d n c)"
  using shrink_loop_ok [of c] by (simp add: ShrinkToSize_def mru_size_eq)

section \<open>Putting and getting\<close>

text \<open>The nodes \<open>Put\<close> leaves, before it adds its own.\<close>

definition kept :: "'k \<Rightarrow> ('k, 'v) mru_cache \<Rightarrow> (nat \<times> 'k \<times> 'v) list" where
  "kept k c =
     (if k \<in> fst ` set (entries c) then filter (\<lambda>x. fst (snd x) \<noteq> k) (ordering_list c)
      else if max_size c \<noteq> 0 then take (max_size c - 1) (ordering_list c) else ordering_list c)"

definition make_room :: "bool \<Rightarrow> 'k \<Rightarrow> ('k, 'v) mru_cache \<Rightarrow> ('k, 'v) mru_cache res" where
  "make_room d k c =
     (case map_of (index c) k of
        Some a \<Rightarrow> bindR (mru_Erase (Some a) c) (\<lambda>(c, _). Inr c)
      | None \<Rightarrow> if max_size c \<noteq> 0 then ShrinkToSize d (max_size c - 1) c else Inr c)"

lemma make_room_ok:
  assumes "mru_ok c"
  shows "resT (\<lambda>t. mru_ok t \<and> ordering_list t = kept k c \<and> max_size t = max_size c \<and> next_node t = next_node c)
    (make_room d k c)"
proof (cases "map_of (index c) k")
  case None
  then have "k \<notin> fst ` set (entries c)" using index_lookup(2) [OF assms] by blast
  then show ?thesis
    using None assms ShrinkToSize_ok [OF assms, of "max_size c - 1" d] by (simp add: make_room_def kept_def)
next
  case (Some a)
  then obtain v where v: "(a, k, v) \<in> set (ordering_list c)" using index_lookup(1) [OF assms] by blast
  then have "k \<in> fst ` set (entries c)" by (force simp: entries_def)
  then show ?thesis
    using Some mru_Erase_eq [OF assms v] mru_ok_filter [OF assms, of k] by (simp add: make_room_def kept_def)
qed

lemma kept_fresh: "mru_inv c \<Longrightarrow> k \<notin> fst ` set (map snd (kept k c))"
  by (auto simp: kept_def entries_def dest!: in_set_takeD)

lemma kept_subset: "set (kept k c) \<subseteq> set (ordering_list c)"
  by (auto simp: kept_def dest: in_set_takeD)

lemma kept_length: "mru_inv c \<Longrightarrow> max_size c \<noteq> 0 \<Longrightarrow> length (kept k c) < max_size c"
proof (cases "k \<in> fst ` set (entries c)")
  case True
  assume "mru_inv c" "max_size c \<noteq> 0"
  then have "length (ordering_list c) \<le> max_size c" by (simp add: mru_inv_def entries_def)
  moreover have "length (filter (\<lambda>x. fst (snd x) \<noteq> k) (ordering_list c)) < length (ordering_list c)"
    using True by (auto simp: entries_def intro!: length_filter_less)
  ultimately show ?thesis using True by (simp add: kept_def)
qed (auto simp: kept_def mru_inv_def entries_def)

lemma make_room_obtain:
  assumes "mru_inv c"
  obtains t where "make_room d k c = Inr t" "mru_ok t" "ordering_list t = kept k c" "max_size t = max_size c"
    "next_node t = next_node c"
  using make_room_ok [where c = c and d = d and k = k] assms by (auto simp: mru_inv_def resT_iff)

text \<open>The new node in front of those left.\<close>

definition pushed :: "'k \<Rightarrow> 'v \<Rightarrow> ('k, 'v) mru_cache \<Rightarrow> ('k, 'v) mru_cache" where
  "pushed k v t = t\<lparr>ordering_list := (next_node t, k, v) # ordering_list t, next_node := Suc (next_node t),
     index := (k, next_node t) # index t\<rparr>"

lemma mru_Put_own:
  assumes "mru_inv c" "make_room d k c = Inr t" "mru_ok t" "ordering_list t = kept k c"
  shows "mru_Put d (Own k) payload c =
    bindR (read_ref snd payload t) (\<lambda>v. Inr (pushed k v t, Some (next_node t)))"
proof -
  have "map_of (index t) k = None"
    unfolding index_lookup(2) [OF assms(3)] using kept_fresh [OF assms(1)] by (simp add: entries_def assms(4))
  then have "mru_Put d (Own k) payload c = bindR (make_room d k c) (\<lambda>t.
      bindR (read_ref snd payload t) (\<lambda>v. Inr (pushed k v t, Some (next_node t))))"
    unfolding assms(2)
    using assms(2) by (simp add: mru_Put_def make_room_def read_ref_def mru_begin_def map_emplace_def pushed_def)
  then show ?thesis by (simp add: assms(2))
qed

lemma pushed_ok:
  assumes "mru_inv c" "mru_ok t" "ordering_list t = kept k c" "max_size t = max_size c"
  shows "mru_inv (pushed k v t)"
proof -
  have "next_node t \<notin> fst ` set (ordering_list t)" using assms(2) by (auto simp: mru_ok_def)
  moreover have "k \<notin> fst ` set (entries t)"
    using kept_fresh [OF assms(1)] by (simp add: entries_def assms(3))
  ultimately have "mru_ok (pushed k v t)"
    using assms(2) by (auto simp: mru_ok_def pushed_def entries_def index_of_def less_Suc_eq)
  moreover have "max_size c = 0 \<or> length (entries (pushed k v t)) \<le> max_size c"
    using kept_length [OF assms(1), of k] by (auto simp: pushed_def entries_def assms(3) Suc_le_eq)
  ultimately show ?thesis by (simp add: mru_inv_def pushed_def assms(4))
qed

section \<open>The list of keys and payloads\<close>

definition recent_put :: "nat \<Rightarrow> 'k \<Rightarrow> 'v \<Rightarrow> ('k \<times> 'v) list \<Rightarrow> ('k \<times> 'v) list" where
  "recent_put n k v l =
     (k, v) # (if k \<in> fst ` set l then AList.delete k l else if n \<noteq> 0 then take (n - 1) l else l)"

definition recent_get :: "'k \<Rightarrow> ('k \<times> 'v) list \<Rightarrow> ('k \<times> 'v) list" where
  "recent_get k l = (case map_of l k of None \<Rightarrow> l | Some v \<Rightarrow> (k, v) # AList.delete k l)"

lemma delete_filter: "AList.delete k l = filter (\<lambda>e. fst e \<noteq> k) l"
  by (induction l) auto

lemma entries_pushed:
  assumes "ordering_list t = kept k c"
  shows "entries (pushed k v t) = recent_put (max_size c) k v (entries c)"
  by (simp add: pushed_def entries_def recent_put_def kept_def assms delete_filter filter_map comp_def take_map)

lemma mset_move_front:
  "distinct (map f xs) \<Longrightarrow> x \<in> set xs \<Longrightarrow> mset (x # filter (\<lambda>y. f y \<noteq> f x) xs) = mset xs"
proof (induction xs)
  case (Cons y ys)
  show ?case
  proof (cases "y = x")
    case True
    then have "filter (\<lambda>z. f z \<noteq> f x) ys = ys" using Cons.prems(1) by (auto simp: filter_id_conv image_iff)
    then show ?thesis using True by simp
  next
    case False
    then have "x \<in> set ys" "f y \<noteq> f x" using Cons.prems by auto
    then show ?thesis using Cons by simp
  qed
qed simp

lemma mru_ok_mset:
  assumes "mru_ok c" "mset xs = mset (ordering_list c)"
  shows "mru_ok (c\<lparr>ordering_list := xs\<rparr>)"
proof -
  have "mset (index_of xs) = mset (index_of (ordering_list c))"
    using assms(2) by (simp add: index_of_def)
  moreover have "set xs = set (ordering_list c)" using assms(2) by (rule mset_eq_setD)
  ultimately show ?thesis
    using assms(1) mset_eq_imp_distinct_iff [of "map (fst \<circ> snd) xs" "map (fst \<circ> snd) (ordering_list c)"]
      mset_eq_imp_distinct_iff [of "map fst xs" "map fst (ordering_list c)"] assms(2)
    by (simp add: mru_ok_def entries_def)
qed

lemma mru_Get_ok:
  assumes "mru_inv c"
  shows "resT (\<lambda>(t, i). mru_inv t \<and> max_size t = max_size c \<and> entries t = recent_get k (entries c) \<and>
    (case map_of (entries c) k of None \<Rightarrow> i = mru_end t | Some v \<Rightarrow> i = mru_begin t \<and> deref i t = Inr (k, v)) \<and>
    (\<forall>j. deref j t = deref j c)) (mru_Get k c)"
proof (cases "map_of (index c) k")
  case None
  then have "map_of (entries c) k = None"
    using index_lookup(2) [of c k] assms by (simp add: mru_inv_def map_of_eq_None_iff)
  then show ?thesis using None assms by (simp add: mru_Get_def recent_get_def)
next
  case (Some a)
  have ok: "mru_ok c" using assms by (simp add: mru_inv_def)
  obtain v where v: "(a, k, v) \<in> set (ordering_list c)" using Some index_lookup(1) [OF ok] by blast
  have e: "map_of (entries c) k = Some v"
    using v ok by (force simp: mru_ok_def entries_def intro!: map_of_is_SomeI)
  have d: "deref (Some a) c = Inr (k, v)" using deref_eq [OF ok] v by blast
  define t where "t = c\<lparr>ordering_list := (a, k, v) # filter (\<lambda>x. fst (snd x) \<noteq> k) (ordering_list c)\<rparr>"
  have o: "AList.delete a (ordering_list c) = filter (\<lambda>x. fst (snd x) \<noteq> k) (ordering_list c)"
    using v ok by (intro delete_node) (auto simp: mru_ok_def entries_def)
  have "mru_Get k c = Inr (t, Some a)"
    using Some d by (simp add: mru_Get_def t_def mru_begin_def o)
  moreover have "entries t = recent_get k (entries c)"
    by (simp add: t_def entries_def entries_filter recent_get_def delete_filter e [unfolded entries_def])
  moreover have "mset (ordering_list t) = mset (ordering_list c)"
    using mset_move_front [of "fst \<circ> snd" "ordering_list c" "(a, k, v)"] v ok
    by (simp add: t_def mru_ok_def entries_def)
  moreover from this have "mru_ok t"
    using mru_ok_mset [OF ok] by (simp add: t_def)
  moreover have "deref (Some j) t = deref (Some j) c" for j
  proof (cases "j = a")
    case False
    have "map_of (ordering_list t) j = map_of (AList.delete a (ordering_list c)) j"
      unfolding o t_def using False by simp
    then show ?thesis using False by (simp add: deref_def AList.delete_conv)
  qed (simp add: d, simp add: deref_def t_def)
  moreover from this have "deref j t = deref j c" for j by (cases j) (simp_all add: deref_def)
  moreover have "length (entries t) = length (entries c)"
    using \<open>mset (ordering_list t) = mset (ordering_list c)\<close> by (metis entries_def length_map size_mset)
  ultimately show ?thesis
    using e d assms by (simp add: mru_inv_def t_def mru_begin_def)
qed

section \<open>Iterators\<close>

lemma node_after_split:
  "a \<notin> fst ` set xs \<Longrightarrow> node_after a (xs @ (a, e) # ys) = (case ys of [] \<Rightarrow> None | y # zs \<Rightarrow> Some (fst y))"
  by (induction xs) (auto split: list.splits)

lemma node_after_nth:
  assumes "distinct (map fst xs)" "n < length xs"
  shows "node_after (fst (xs ! n)) xs = (if Suc n < length xs then Some (fst (xs ! Suc n)) else None)"
proof -
  have "distinct (map fst (take n xs @ xs ! n # drop (Suc n) xs))"
    using assms by (simp only: id_take_nth_drop [symmetric])
  then have "fst (xs ! n) \<notin> fst ` set (take n xs)" by auto
  then have "node_after (fst (xs ! n)) (take n xs @ xs ! n # drop (Suc n) xs) =
      (case drop (Suc n) xs of [] \<Rightarrow> None | y # zs \<Rightarrow> Some (fst y))"
    using node_after_split [of "fst (xs ! n)" "take n xs" "snd (xs ! n)" "drop (Suc n) xs"] by simp
  then have "node_after (fst (xs ! n)) xs = (case drop (Suc n) xs of [] \<Rightarrow> None | y # zs \<Rightarrow> Some (fst y))"
    by (simp only: id_take_nth_drop [OF assms(2), symmetric])
  moreover have "Suc n < length xs \<Longrightarrow> drop (Suc n) xs = xs ! Suc n # drop (Suc (Suc n)) xs"
    by (rule Cons_nth_drop_Suc [symmetric])
  ultimately show ?thesis by (cases "Suc n < length xs") simp_all
qed

lemma node_before_first: "a \<notin> fst ` set (tl xs) \<Longrightarrow> node_before (Some a) xs = None"
  by (induction "Some a" xs rule: node_before.induct) auto

lemma node_before_nth:
  "distinct (map fst xs) \<Longrightarrow> n \<le> length xs \<Longrightarrow>
     node_before (if n < length xs then Some (fst (xs ! n)) else None) xs = (if n = 0 then None else Some (fst (xs ! (n - 1))))"
proof (induction xs arbitrary: n rule: induct_list012)
  case (3 x y ys)
  show ?case
  proof (cases n)
    case 0
    then show ?thesis using 3(3) node_before_first [of "fst x" "x # y # ys"] by simp
  next
    case (Suc m)
    have "fst (ys ! j) \<noteq> fst y" if "j < length ys" for j
      using 3(3) nth_mem [OF that] by (metis distinct.simps(2) image_eqI image_set list.map(2))
    then show ?thesis
      using Suc 3(2) [of m] 3(3,4) by (cases m) auto
  qed
qed (auto simp: less_Suc_eq le_Suc_eq)

text \<open>The iterator \<open>n\<close> entries after \<open>begin()\<close>.\<close>

definition position :: "nat \<Rightarrow> ('k, 'v) mru_cache \<Rightarrow> iter" where
  "position n c = (if n < length (ordering_list c) then Some (fst (ordering_list c ! n)) else mru_end c)"

lemma deref_position:
  assumes "mru_ok c"
  shows "deref (position n c) c = (if n < length (entries c) then Inr (entries c ! n) else Inl Bad_memory)"
proof (cases "n < length (ordering_list c)")
  case True
  then have "(fst (ordering_list c ! n), snd (ordering_list c ! n)) \<in> set (ordering_list c)" by simp
  then have "deref (Some (fst (ordering_list c ! n))) c = Inr (snd (ordering_list c ! n))"
    unfolding deref_eq [OF assms] by blast
  with True show ?thesis by (simp add: position_def entries_def)
qed (simp add: position_def entries_def deref_def mru_end_def)

lemma position_exists:
  assumes "mru_ok c" "deref i c = Inr e"
  shows "\<exists>n < length (entries c). i = position n c"
proof -
  obtain a where "i = Some a" "(a, e) \<in> set (ordering_list c)" using assms by (auto simp: deref_eq)
  then obtain n where "n < length (ordering_list c)" "ordering_list c ! n = (a, e)" by (auto simp: in_set_conv_nth)
  with \<open>i = Some a\<close> show ?thesis by (intro exI [of _ n]) (simp add: position_def entries_def)
qed

text \<open>Of the iterators to entries of \<open>c\<close>, those to the entries \<open>l\<close> still are in \<open>t\<close>, and no other.\<close>

definition keeps_iterators :: "('k \<times> 'v) list \<Rightarrow> ('k, 'v) mru_cache \<Rightarrow> ('k, 'v) mru_cache \<Rightarrow> bool" where
  "keeps_iterators l c t \<longleftrightarrow>
     (\<forall>i e. deref i c = Inr e \<longrightarrow> deref i t = (if e \<in> set l then Inr e else Inl Bad_memory))"

lemma keeps_iteratorsI:
  assumes "mru_ok c" "mru_ok t" "ordering_list t = new @ xs" "set xs \<subseteq> set (ordering_list c)"
    and "\<forall>a \<in> fst ` set new. a \<notin> fst ` set (ordering_list c)"
  shows "keeps_iterators (map snd xs) c t"
  unfolding keeps_iterators_def
proof (intro allI impI)
  fix i e assume "deref i c = Inr e"
  then obtain a where i: "i = Some a" and a: "(a, e) \<in> set (ordering_list c)" using assms(1) by (auto simp: deref_eq)
  have keys: "inj_on snd (set (ordering_list c))" "inj_on fst (set (ordering_list c))"
    using assms(1) by (simp_all add: mru_ok_def entries_def distinct_map inj_on_imageI2 image_image [symmetric])
      (auto simp: inj_on_def)
  show "deref i t = (if e \<in> set (map snd xs) then Inr e else Inl Bad_memory)"
  proof (cases "e \<in> set (map snd xs)")
    case True
    then obtain b where b: "(b, e) \<in> set xs" by auto
    then have "b = a" using assms(4) a inj_onD [OF keys(1), of "(b, e)" "(a, e)"] by auto
    then show ?thesis using True b by (simp add: i deref_eq [OF assms(2)] assms(3))
  next
    case False
    have "a \<notin> fst ` set xs"
    proof
      assume "a \<in> fst ` set xs"
      then obtain f where f: "(a, f) \<in> set xs" by auto
      then have "f = e" using assms(4) a inj_onD [OF keys(2), of "(a, f)" "(a, e)"] by auto
      with f False show False by force
    qed
    moreover have "a \<notin> fst ` set new" using assms(5) a by force
    ultimately show ?thesis using False by (simp add: i deref_gone assms(3) image_Un)
  qed
qed

text \<open>Erasing at a position, forwards and in reverse.\<close>

lemma mru_Erase_at:
  assumes "mru_inv c" "n < length (entries c)"
  shows "resT (\<lambda>(t, j). mru_inv t \<and> max_size t = max_size c \<and> entries t = take n (entries c) @ drop (Suc n) (entries c) \<and>
    j = position (Suc n) c \<and> j = position n t \<and> keeps_iterators (entries t) c t) (mru_Erase (position n c) c)"
proof -
  let ?xs = "ordering_list c"
  have ok: "mru_ok c" and n: "n < length ?xs" using assms by (simp_all add: mru_inv_def entries_def)
  obtain a k v where x: "?xs ! n = (a, k, v)" by (cases "?xs ! n")
  then have a: "(a, k, v) \<in> set ?xs" using nth_mem [OF n] by simp
  define t where "t = c\<lparr>index := AList.delete k (index c), ordering_list := filter (\<lambda>x. fst (snd x) \<noteq> k) ?xs\<rparr>"
  have split: "?xs = take n ?xs @ (a, k, v) # drop (Suc n) ?xs" using id_take_nth_drop [OF n] by (simp add: x)
  have "distinct (map fst (map snd (take n ?xs @ (a, k, v) # drop (Suc n) ?xs)))"
    using ok unfolding split [symmetric] by (simp add: mru_ok_def entries_def)
  then have "filter (\<lambda>x. fst (snd x) \<noteq> k) (take n ?xs @ (a, k, v) # drop (Suc n) ?xs) = take n ?xs @ drop (Suc n) ?xs"
    by (auto simp: filter_without)
  then have ot: "ordering_list t = take n ?xs @ drop (Suc n) ?xs" unfolding split [symmetric] by (simp add: t_def)
  have t: "mru_ok t" unfolding t_def by (rule mru_ok_filter [OF ok])
  have "mru_Erase (position n c) c = Inr (t, node_after a ?xs)"
    using mru_Erase_eq [OF ok a] n by (simp add: position_def x t_def)
  moreover have after: "node_after a ?xs = position (Suc n) c"
    using node_after_nth [of ?xs n] ok n by (simp add: x position_def mru_end_def mru_ok_def)
  moreover have "position (Suc n) c = position n t"
    using n by (auto simp: position_def ot nth_append mru_end_def)
  moreover have "entries t = take n (entries c) @ drop (Suc n) (entries c)"
    by (simp add: entries_def ot take_map drop_map)
  moreover have "keeps_iterators (entries t) c t"
    unfolding entries_def [of t]
    by (rule keeps_iteratorsI [OF ok t, where new = "[]"]) (auto simp: t_def)
  moreover have "max_size t = max_size c" by (simp add: t_def)
  moreover from calculation have "mru_inv t" using assms t by (auto simp: mru_inv_def)
  ultimately show ?thesis by simp
qed

lemma mru_Erase_reverse_at:
  assumes "mru_ok c" "n \<le> length (entries c)"
  shows "mru_Erase_reverse (position n c) c =
    (if n = 0 then Inl Bad_memory else mru_Erase (position (n - 1) c) c)"
  using node_before_nth [of "ordering_list c" n] assms
  by (auto simp: mru_Erase_reverse_def position_def mru_ok_def mru_end_def entries_def mru_Erase_def deref_def split: if_splits)

lemma mru_Put_ok:
  assumes "mru_inv c"
  shows "resT (\<lambda>(t, i). mru_inv t \<and> max_size t = max_size c \<and> entries t = recent_put (max_size c) k v (entries c) \<and>
    i = mru_begin t \<and> deref i t = Inr (k, v) \<and> deref i c = Inl Bad_memory \<and> keeps_iterators (tl (entries t)) c t)
    (mru_Put d (Own k) (Own v) c)"
proof -
  obtain t where t: "make_room d k c = Inr t" "mru_ok t" "ordering_list t = kept k c" "max_size t = max_size c"
      "next_node t = next_node c"
    using make_room_obtain [OF assms] by blast
  let ?t = "pushed k v t"
  have ok: "mru_ok c" using assms by (simp add: mru_inv_def)
  have new: "next_node t \<notin> fst ` set (ordering_list c)" using ok t(5) by (auto simp: mru_ok_def)
  have inv: "mru_inv ?t" by (rule pushed_ok [OF assms t(2-4)])
  then have "keeps_iterators (map snd (kept k c)) c ?t"
    by (intro keeps_iteratorsI [OF ok, where new = "[(next_node t, k, v)]"])
      (use new kept_subset [of k c] t(3) in \<open>simp_all add: mru_inv_def pushed_def\<close>)
  moreover have "tl (entries ?t) = map snd (kept k c)" by (simp add: entries_def pushed_def t(3))
  ultimately show ?thesis
    using inv entries_pushed [OF t(3)] t(4) deref_gone [OF new]
    by (simp add: mru_Put_own [OF assms t(1-3)] read_ref_def) (simp add: pushed_def mru_begin_def deref_def)
qed

lemma ShrinkToSize_entries:
  assumes "mru_inv c"
  shows "resT (\<lambda>t. mru_inv t \<and> max_size t = max_size c \<and> entries t = take n (entries c) \<and> keeps_iterators (entries t) c t)
    (ShrinkToSize d n c)"
proof -
  have ok: "mru_ok c" using assms by (simp add: mru_inv_def)
  obtain t where t: "ShrinkToSize d n c = Inr t" "mru_ok t" "ordering_list t = take n (ordering_list c)"
      "max_size t = max_size c"
    using ShrinkToSize_ok [OF ok, of n d] by (auto simp: resT_iff)
  have "keeps_iterators (entries t) c t"
    unfolding entries_def [of t]
    by (rule keeps_iteratorsI [OF ok t(2), where new = "[]"]) (auto simp: t(3) dest: in_set_takeD)
  with t assms show ?thesis by (auto simp: mru_inv_def entries_def take_map)
qed

section \<open>References into the cache\<close>

lemma kept_nodes:
  assumes "mru_inv c" "(j, k', w) \<in> set (ordering_list c)"
  shows "j \<in> fst ` set (kept k c) \<longleftrightarrow> (j, k', w) \<in> set (kept k c)"
proof
  assume "j \<in> fst ` set (kept k c)"
  then obtain e where e: "(j, e) \<in> set (kept k c)" by auto
  then have "(j, e) \<in> set (ordering_list c)" using kept_subset [of k c] by blast
  then have "e = (k', w)" using assms by (auto simp: mru_inv_def mru_ok_def dest: eq_key_imp_eq_value)
  then show "(j, k', w) \<in> set (kept k c)" using e by simp
qed force

lemma mru_Put_key_in_node:
  assumes "mru_inv c" "deref (Some j) c = Inr (k, w)"
  shows "mru_Put d (In_node j) payload c = Inl Bad_memory"
proof -
  obtain t where t: "make_room d k c = Inr t" "mru_ok t" "ordering_list t = kept k c"
    using make_room_obtain [OF assms(1)] by blast
  have "(j, k, w) \<in> set (ordering_list c)" using assms by (auto simp: mru_inv_def deref_eq)
  moreover have "(j, k, w) \<notin> set (kept k c)" using kept_fresh [OF assms(1), of k] by force
  ultimately have "deref (Some j) t = Inl Bad_memory"
    using kept_nodes [OF assms(1), of j k w k] by (simp add: deref_gone t(3))
  then show ?thesis
    using t(1) by (simp add: mru_Put_def read_ref_def assms(2) make_room_def)
qed

lemma mru_Put_payload_in_node:
  assumes "mru_inv c" "deref (Some j) c = Inr (k', w)"
  shows "mru_Put d (Own k) (In_node j) c =
    (if (k', w) \<in> set (map snd (kept k c)) then mru_Put d (Own k) (Own w) c else Inl Bad_memory)"
proof -
  obtain t where t: "make_room d k c = Inr t" "mru_ok t" "ordering_list t = kept k c"
    using make_room_obtain [OF assms(1)] by blast
  have j: "(j, k', w) \<in> set (ordering_list c)" using assms by (auto simp: mru_inv_def deref_eq)
  have "(k', w) \<in> set (map snd (kept k c)) \<longleftrightarrow> (j, k', w) \<in> set (kept k c)"
  proof
    assume "(k', w) \<in> set (map snd (kept k c))"
    then obtain i where i: "(i, k', w) \<in> set (kept k c)" by auto
    then have "(i, k', w) \<in> set (ordering_list c)" using kept_subset [of k c] by blast
    moreover have "inj_on (fst \<circ> snd) (set (ordering_list c))"
      using assms(1) by (simp add: mru_inv_def mru_ok_def entries_def distinct_map)
    ultimately have "i = j" using j by (auto dest!: inj_onD [where x = "(i, k', w)" and y = "(j, k', w)"])
    then show "(j, k', w) \<in> set (kept k c)" using i by simp
  qed force
  moreover have "deref (Some j) t = Inr (k', w)" if "(j, k', w) \<in> set (kept k c)"
    using that by (simp add: deref_eq [OF t(2)] t(3))
  moreover have "deref (Some j) t = Inl Bad_memory" if "(j, k', w) \<notin> set (kept k c)"
    using that kept_nodes [OF assms(1) j, of k] by (simp add: deref_gone t(3))
  ultimately show ?thesis by (simp add: mru_Put_own [OF assms(1) t] read_ref_def)
qed

end
