(* ===== verification/Mru_Recency.thy ===== *)
theory Mru_Recency
  imports Mru_Props
begin

text \<open>
  What a cache holds after a program of calls: the keys touched last.  The locale \<open>recency_cache\<close>
  states what a user of such a cache relies on.
\<close>

section \<open>Recency\<close>

text \<open>The keys of a sequence of touches, the latest first; at most \<open>n\<close> of them, or all where \<open>n\<close> is 0.\<close>

definition recency :: "'k list \<Rightarrow> 'k list" where
  "recency ts = rev (remdups ts)"

definition at_most :: "nat \<Rightarrow> 'a list \<Rightarrow> 'a list" where
  "at_most n xs = (if n = 0 then xs else take n xs)"

lemma remdups_snoc: "remdups (ts @ [k]) = removeAll k (remdups ts) @ [k]"
  by (induction ts) auto

lemma recency_snoc: "recency (ts @ [k]) = k # removeAll k (recency ts)"
  by (simp add: recency_def remdups_snoc removeAll_filter_not_eq rev_filter)

lemma distinct_recency: "distinct (recency ts)"
  by (simp add: recency_def)

lemma removeAll_take:
  "distinct xs \<Longrightarrow> k \<in> set (take n xs) \<Longrightarrow> removeAll k (take n xs) = take (n - 1) (removeAll k xs)"
proof (induction xs arbitrary: n)
  case (Cons x xs)
  then obtain m where n: "n = Suc m" by (cases n) auto
  show ?case
  proof (cases "x = k")
    case True
    then have "k \<notin> set xs" "k \<notin> set (take m xs)" using Cons.prems(1) by (auto dest: in_set_takeD)
    then show ?thesis using True by (simp add: n)
  next
    case False
    then have "k \<in> set (take m xs)" using Cons.prems(2) by (simp add: n)
    moreover from this have "m \<noteq> 0" by (cases m) auto
    ultimately show ?thesis using Cons False by (simp add: n take_Cons')
  qed
qed simp

lemma take_removeAll: "k \<notin> set (take n xs) \<Longrightarrow> take (n - 1) (removeAll k xs) = take (n - 1) xs"
proof (induction xs arbitrary: n)
  case (Cons x xs)
  show ?case
  proof (cases n)
    case (Suc m)
    then have "x \<noteq> k" "k \<notin> set (take m xs)" using Cons.prems by auto
    then show ?thesis using Cons.IH [of m] Suc by (cases m) (simp_all add: take_Cons')
  qed simp
qed simp

lemma at_most_touch:
  assumes "distinct xs"
  shows "at_most n (k # removeAll k xs) =
    k # (if k \<in> set (at_most n xs) then removeAll k (at_most n xs)
         else if n \<noteq> 0 then take (n - 1) (at_most n xs) else at_most n xs)"
proof (cases n)
  case (Suc m)
  have "min n m = m" using Suc by simp
  then show ?thesis
    using removeAll_take [OF assms, of k n] take_removeAll [of k n xs] Suc
    by (simp add: at_most_def)
qed (simp add: at_most_def)

lemma set_recent_put:
  "(k', v') \<in> set (recent_put n k v l) \<Longrightarrow> k' = k \<and> v' = v \<or> k' \<noteq> k \<and> (k', v') \<in> set l"
  by (auto simp: recent_put_def delete_filter image_iff dest!: in_set_takeD split: if_splits)

lemma set_recent_get: "set (recent_get k l) \<subseteq> set l"
  by (auto simp: recent_get_def delete_filter dest: map_of_SomeD split: option.splits)

section \<open>Programs of calls\<close>

datatype ('k, 'v) cache_call = Store 'k 'v | Fetch 'k

text \<open>The keys that were touched: the stored ones, and the fetched ones that were found.\<close>

fun run_calls ::
  "('k \<Rightarrow> 'v \<Rightarrow> 's \<Rightarrow> 's res) \<Rightarrow> ('k \<Rightarrow> 's \<Rightarrow> ('s \<times> 'v option) res) \<Rightarrow> ('k, 'v) cache_call list \<Rightarrow> 's \<Rightarrow>
     ('s \<times> 'k list) res" where
  "run_calls put get [] s = Inr (s, [])"
| "run_calls put get (Store k v # cs) s =
     bindR (put k v s) (\<lambda>s. bindR (run_calls put get cs s) (\<lambda>(s, ts). Inr (s, k # ts)))"
| "run_calls put get (Fetch k # cs) s =
     bindR (get k s) (\<lambda>(s, r). bindR (run_calls put get cs s) (\<lambda>(s, ts). Inr (s, if r = None then ts else k # ts)))"

text \<open>The payload stored last under each key.\<close>

fun stored :: "('k, 'v) cache_call list \<Rightarrow> ('k \<rightharpoonup> 'v) \<Rightarrow> 'k \<rightharpoonup> 'v" where
  "stored [] m = m"
| "stored (Store k v # cs) m = stored cs (m(k \<mapsto> v))"
| "stored (Fetch k # cs) m = stored cs m"

locale recency_cache =
  fixes put :: "'k \<Rightarrow> 'v \<Rightarrow> 's \<Rightarrow> 's res" and get :: "'k \<Rightarrow> 's \<Rightarrow> ('s \<times> 'v option) res"
    and content :: "'s \<Rightarrow> ('k \<times> 'v) list" and capacity :: "'s \<Rightarrow> nat" and inv :: "'s \<Rightarrow> bool"
  assumes put_ok: "inv s \<Longrightarrow>
      resT (\<lambda>t. inv t \<and> capacity t = capacity s \<and> content t = recent_put (capacity s) k v (content s)) (put k v s)"
    and get_ok: "inv s \<Longrightarrow>
      resT (\<lambda>(t, r). inv t \<and> capacity t = capacity s \<and> content t = recent_get k (content s) \<and>
        r = map_of (content s) k) (get k s)"
begin

definition holds :: "'k list \<Rightarrow> ('k \<rightharpoonup> 'v) \<Rightarrow> 's \<Rightarrow> bool" where
  "holds ts m s \<longleftrightarrow> inv s \<and> map fst (content s) = at_most (capacity s) (recency ts) \<and>
     (\<forall>(k, v) \<in> set (content s). m k = Some v)"

lemma put_holds:
  assumes "holds ts m s"
  shows "resT (\<lambda>t. holds (ts @ [k]) (m(k \<mapsto> v)) t \<and> capacity t = capacity s) (put k v s)"
proof (rule resT_mono [OF put_ok])
  show "inv s" using assms by (simp add: holds_def)
next
  fix t
  assume t: "inv t \<and> capacity t = capacity s \<and> content t = recent_put (capacity s) k v (content s)"
  have ks: "map fst (content s) = at_most (capacity s) (recency ts)" using assms by (simp add: holds_def)
  have "map fst (recent_put (capacity s) k v (content s)) = at_most (capacity s) (recency (ts @ [k]))"
    unfolding recency_snoc at_most_touch [OF distinct_recency] ks [symmetric]
    by (simp add: recent_put_def AList.delete_keys take_map)
  moreover have "\<forall>(k', v') \<in> set (recent_put (capacity s) k v (content s)). (m(k \<mapsto> v)) k' = Some v'"
    using assms by (auto simp: holds_def dest!: set_recent_put)
  ultimately show "holds (ts @ [k]) (m(k \<mapsto> v)) t \<and> capacity t = capacity s"
    using t by (simp add: holds_def)
qed

lemma get_holds:
  assumes "holds ts m s"
  shows "resT (\<lambda>(t, r). holds (if r = None then ts else ts @ [k]) m t \<and> capacity t = capacity s) (get k s)"
proof (rule resT_mono [OF get_ok])
  show "inv s" using assms by (simp add: holds_def)
next
  fix p
  assume p: "case p of (t, r) \<Rightarrow> inv t \<and> capacity t = capacity s \<and> content t = recent_get k (content s) \<and>
      r = map_of (content s) k"
  have ks: "map fst (content s) = at_most (capacity s) (recency ts)" using assms by (simp add: holds_def)
  have "map fst (recent_get k (content s)) = at_most (capacity s) (recency (ts @ [k]))" if "map_of (content s) k = Some v" for v
  proof -
    have "k \<in> set (map fst (content s))" using that by (force dest: map_of_SomeD)
    then show ?thesis
      unfolding recency_snoc at_most_touch [OF distinct_recency] ks [symmetric]
      using that by (simp add: recent_get_def AList.delete_keys)
  qed
  moreover have "\<forall>(k', v') \<in> set (recent_get k (content s)). m k' = Some v'"
    using assms set_recent_get [of k "content s"] by (auto simp: holds_def)
  ultimately show "case p of (t, r) \<Rightarrow> holds (if r = None then ts else ts @ [k]) m t \<and> capacity t = capacity s"
    using p assms by (auto simp: holds_def recent_get_def split: option.splits)
qed

lemma run_holds:
  "holds ts m s \<Longrightarrow>
    resT (\<lambda>(t, us). holds (ts @ us) (stored cs m) t \<and> capacity t = capacity s) (run_calls put get cs s)"
proof (induction cs arbitrary: ts m s)
  case (Cons c cs)
  show ?case
  proof (cases c)
    case (Store k v)
    from put_holds [OF Cons.prems, of k v] obtain t
      where t: "put k v s = Inr t" "holds (ts @ [k]) (m(k \<mapsto> v)) t" "capacity t = capacity s"
      by (auto simp: resT_iff)
    from Cons.IH [OF t(2)] show ?thesis
      using t(1,3) Store by (auto simp: resT_iff fun_upd_def)
  next
    case (Fetch k)
    from get_holds [OF Cons.prems, of k] obtain t r
      where t: "get k s = Inr (t, r)" "holds (if r = None then ts else ts @ [k]) m t" "capacity t = capacity s"
      by (auto simp: resT_iff)
    from Cons.IH [OF t(2)] show ?thesis
      using t(1,3) Fetch by (auto simp: resT_iff)
  qed
qed simp

end

section \<open>The cache\<close>

definition mru_store :: "bool \<Rightarrow> 'k \<Rightarrow> 'v \<Rightarrow> ('k, 'v) mru_cache \<Rightarrow> ('k, 'v) mru_cache res" where
  "mru_store d k v c = bindR (mru_Put d (Own k) (Own v) c) (\<lambda>(c, i). Inr c)"

definition mru_fetch :: "'k \<Rightarrow> ('k, 'v) mru_cache \<Rightarrow> (('k, 'v) mru_cache \<times> 'v option) res" where
  "mru_fetch k c =
     bindR (mru_Get k c) (\<lambda>(c, i).
       if i = mru_end c then Inr (c, None) else bindR (deref i c) (\<lambda>e. Inr (c, Some (snd e))))"

interpretation mru: recency_cache "mru_store d" mru_fetch entries max_size mru_inv for d
proof unfold_locales
  fix s :: "('k, 'v) mru_cache" and k v
  assume s: "mru_inv s"
  show "resT (\<lambda>t. mru_inv t \<and> max_size t = max_size s \<and> entries t = recent_put (max_size s) k v (entries s))
      (mru_store d k v s)"
    using mru_Put_ok [OF s, where d = d and k = k and v = v] by (auto simp: mru_store_def resT_iff)
  show "resT (\<lambda>(t, r). mru_inv t \<and> max_size t = max_size s \<and> entries t = recent_get k (entries s) \<and>
      r = map_of (entries s) k) (mru_fetch k s)"
  proof -
    obtain t i where t: "mru_Get k s = Inr (t, i)" "mru_inv t" "max_size t = max_size s"
        "entries t = recent_get k (entries s)"
        "case map_of (entries s) k of None \<Rightarrow> i = mru_end t | Some v \<Rightarrow> i = mru_begin t \<and> deref i t = Inr (k, v)"
      using mru_Get_ok [OF s, of k] by (auto simp: resT_iff)
    then have "i = mru_end t \<longleftrightarrow> map_of (entries s) k = None"
      by (cases "map_of (entries s) k"; cases "mru_begin t") (auto simp: mru_end_def deref_def)
    with t show ?thesis by (auto simp: mru_fetch_def split: option.splits)
  qed
qed

lemma ok_of: "mru_inv c \<Longrightarrow> mru_ok c"
  by (simp add: mru_inv_def)

lemma mru_new_inv: "mru_inv (MRUCache_new n)"
  by (simp add: mru_inv_def mru_ok_def MRUCache_new_def entries_def index_of_def)

lemma mru_new_simps: "entries (MRUCache_new n) = []" "max_size (MRUCache_new n) = n"
  by (simp_all add: MRUCache_new_def entries_def)

lemma mru_Peek_ok:
  assumes "mru_inv c"
  shows "case map_of (entries c) k of None \<Rightarrow> mru_Peek k c = mru_end c | Some v \<Rightarrow> deref (mru_Peek k c) c = Inr (k, v)"
proof -
  have ok: "mru_ok c" using assms by (simp add: mru_inv_def)
  show ?thesis
  proof (cases "map_of (index c) k")
    case None
    then show ?thesis using index_lookup(2) [OF ok, of k] by (simp add: mru_Peek_def map_of_eq_None_iff [THEN iffD2])
  next
    case (Some a)
    then obtain v where v: "(a, k, v) \<in> set (ordering_list c)" using index_lookup(1) [OF ok] by blast
    then have "map_of (entries c) k = Some v"
      using ok by (force simp: mru_ok_def entries_def intro!: map_of_is_SomeI)
    then show ?thesis using Some v by (simp add: mru_Peek_def deref_eq [OF ok])
  qed
qed

section \<open>The properties\<close>

text \<open>
  C29. The cache is its list of keys and payloads, most recent first, with each key once and, unless its size
  is left to the caller, at most \<open>max_size\<close> of them; the index always agrees with it.  An iterator to an
  entry is one of its positions.  \<open>Put\<close> puts its entry, under a new iterator, in front and removes the
  key's old entry, or else the entries beyond the size; \<open>Get\<close> moves the entry to the front and leaves
  every iterator as it is; \<open>Peek\<close> finds it and moves nothing; \<open>ShrinkToSize\<close> keeps the most recent;
  \<open>Erase\<close> takes out the entry at its iterator and returns the one that followed; the reverse \<open>Erase\<close> takes
  out the entry before its base and returns the iterator it was given; the end and the reverse end are
  faults.  Whatever an operation leaves in the cache keeps its iterators, and those to the entries removed
  are invalid.
\<close>

theorem mru_refines:
  assumes "mru_inv c"
  shows "(\<forall>n. deref (position n c) c = (if n < length (entries c) then Inr (entries c ! n) else Inl Bad_memory)) \<and>
    (\<forall>i e. deref i c = Inr e \<longrightarrow> (\<exists>n < length (entries c). i = position n c)) \<and>
    mru_begin c = position 0 c \<and> mru_end c = position (length (entries c)) c \<and>
    resT (\<lambda>(t, j). mru_inv t \<and> max_size t = max_size c \<and> entries t = recent_put (max_size c) k v (entries c) \<and>
      j = mru_begin t \<and> deref j t = Inr (k, v) \<and> deref j c = Inl Bad_memory \<and> keeps_iterators (tl (entries t)) c t)
      (mru_Put d (Own k) (Own v) c) \<and>
    resT (\<lambda>(t, j). mru_inv t \<and> max_size t = max_size c \<and> entries t = recent_get k (entries c) \<and>
      (case map_of (entries c) k of None \<Rightarrow> j = mru_end t | Some v \<Rightarrow> j = mru_begin t \<and> deref j t = Inr (k, v)) \<and>
      (\<forall>j. deref j t = deref j c)) (mru_Get k c) \<and>
    (case map_of (entries c) k of None \<Rightarrow> mru_Peek k c = mru_end c | Some v \<Rightarrow> deref (mru_Peek k c) c = Inr (k, v)) \<and>
    resT (\<lambda>t. mru_inv t \<and> max_size t = max_size c \<and> entries t = take n (entries c) \<and> keeps_iterators (entries t) c t)
      (ShrinkToSize d n c) \<and>
    (if n < length (entries c)
     then resT (\<lambda>(t, j). mru_inv t \<and> max_size t = max_size c \<and> entries t = take n (entries c) @ drop (Suc n) (entries c) \<and>
       j = position (Suc n) c \<and> j = position n t \<and> keeps_iterators (entries t) c t) (mru_Erase (position n c) c)
     else mru_Erase (position n c) c = Inl Bad_memory) \<and>
    mru_Erase_reverse (mru_rend c) c = Inl Bad_memory \<and>
    (n < length (entries c) \<longrightarrow>
     resT (\<lambda>(t, j). mru_inv t \<and> max_size t = max_size c \<and> entries t = take n (entries c) @ drop (Suc n) (entries c) \<and>
       j = position (Suc n) c \<and> keeps_iterators (entries t) c t) (mru_Erase_reverse (position (Suc n) c) c)) \<and>
    mru_size d c = Inr (length (entries c)) \<and>
    mru_inv (mru_Clear c) \<and> entries (mru_Clear c) = [] \<and> keeps_iterators [] c (mru_Clear c) \<and> mru_inv (MRUCache_new m)"
proof (intro conjI)
  have ok: "mru_ok c" using assms by (simp add: mru_inv_def)
  show "mru_begin c = position 0 c" by (simp add: mru_begin_def position_def mru_end_def split: list.split)
  then show "mru_Erase_reverse (mru_rend c) c = Inl Bad_memory"
    using mru_Erase_reverse_at [OF ok, of 0] by (simp add: mru_rend_def)
  show "mru_end c = position (length (entries c)) c" by (simp add: position_def entries_def)
  show "n < length (entries c) \<longrightarrow>
     resT (\<lambda>(t, j). mru_inv t \<and> max_size t = max_size c \<and> entries t = take n (entries c) @ drop (Suc n) (entries c) \<and>
       j = position (Suc n) c \<and> keeps_iterators (entries t) c t) (mru_Erase_reverse (position (Suc n) c) c)"
    using mru_Erase_at [OF assms, of n] mru_Erase_reverse_at [OF ok, of "Suc n"] by (auto simp: resT_iff)
  show "if n < length (entries c)
     then resT (\<lambda>(t, j). mru_inv t \<and> max_size t = max_size c \<and> entries t = take n (entries c) @ drop (Suc n) (entries c) \<and>
       j = position (Suc n) c \<and> j = position n t \<and> keeps_iterators (entries t) c t) (mru_Erase (position n c) c)
     else mru_Erase (position n c) c = Inl Bad_memory"
    using mru_Erase_at [OF assms, of n] deref_position [OF ok, of n] by (auto simp: mru_Erase_def)
  show "mru_size d c = Inr (length (entries c))" using ok by (simp add: mru_size_eq entries_def)
  show "mru_inv (mru_Clear c)" by (simp add: mru_inv_def mru_ok_def mru_Clear_def entries_def index_of_def)
  show "entries (mru_Clear c) = []" by (simp add: mru_Clear_def entries_def)
  show "keeps_iterators [] c (mru_Clear c)" by (simp add: keeps_iterators_def mru_Clear_def deref_def split: option.split)
qed (use deref_position [OF ok_of [OF assms]] position_exists [OF ok_of [OF assms]] in blast |
    fact mru_Put_ok [OF assms] mru_Get_ok [OF assms] mru_Peek_ok [OF assms] ShrinkToSize_entries [OF assms] mru_new_inv)+

text \<open>A cache for two entries after three were put into it.\<close>

definition sample_cache :: "(nat, string) mru_cache" where
  "sample_cache = \<lparr>ordering_list = [(2, 3, ''c''), (1, 2, ''b'')], index = [(3, 2), (2, 1)], max_size = 2, next_node = 3\<rparr>"

lemma sample_cache_inv: "mru_inv sample_cache"
  by (simp add: mru_inv_def mru_ok_def sample_cache_def entries_def index_of_def)

theorem mru_refines_witness:
  "resT (\<lambda>(t, j). entries t = [(3, ''c'')] \<and> j = None \<and> deref (Some 2) t = Inr (3, ''c'') \<and> deref (Some 1) t = Inl Bad_memory)
     (mru_Erase_reverse None sample_cache)"
proof -
  have e: "entries sample_cache = [(3, ''c''), (2, ''b'')]" "position (Suc (Suc 0)) sample_cache = None"
    by (simp_all add: entries_def sample_cache_def position_def mru_end_def)
  have d: "deref (Some 1) sample_cache = Inr (2, ''b'')" "deref (Some 2) sample_cache = Inr (3, ''c'')"
    by (simp_all add: deref_def sample_cache_def)
  have "1 < length (entries sample_cache) \<longrightarrow>
     resT (\<lambda>(t, j). mru_inv t \<and> max_size t = max_size sample_cache \<and>
       entries t = take 1 (entries sample_cache) @ drop (Suc 1) (entries sample_cache) \<and>
       j = position (Suc 1) sample_cache \<and> keeps_iterators (entries t) sample_cache t)
     (mru_Erase_reverse (position (Suc 1) sample_cache) sample_cache)"
    using mru_refines [OF sample_cache_inv, where n = 1] by blast
  then show ?thesis
    using d by (auto simp: resT_iff e keeps_iterators_def)
qed

text \<open>
  C28. After any sequence of puts and gets on a new cache, no call faults and the cache holds exactly the keys touched
  most recently, the latest first, as many as it is for, or all of them where its size is left to the caller;
  the payload under each key is the one put last.
\<close>

theorem mru_recency:
  "resT (\<lambda>(c, ts). map fst (entries c) = at_most n (recency ts) \<and>
     (\<forall>(k, v) \<in> set (entries c). stored cs Map.empty k = Some v))
    (run_calls (mru_store d) mru_fetch cs (MRUCache_new n))"
proof -
  have "mru.holds [] Map.empty (MRUCache_new n)"
    unfolding mru.holds_def by (simp add: mru_new_inv mru_new_simps at_most_def recency_def)
  from mru.run_holds [OF this, where d = d and cs = cs] show ?thesis
    unfolding mru.holds_def by (auto simp: resT_iff mru_new_simps)
qed

theorem mru_recency_witness:
  "resT (\<lambda>(c, ts). map fst (entries c) = at_most 2 (recency ts))
     (run_calls (mru_store True) mru_fetch [Store 1 ''a'', Store 2 ''b'', Fetch 1, Store (3::nat) ''c''] (MRUCache_new 2)) \<and>
   at_most 2 (recency [1, 2, 1, 3 :: nat]) = [3, 1]"
proof
  show "resT (\<lambda>(c, ts). map fst (entries c) = at_most 2 (recency ts))
     (run_calls (mru_store True) mru_fetch [Store 1 ''a'', Store 2 ''b'', Fetch 1, Store (3::nat) ''c''] (MRUCache_new 2))"
    by (rule resT_mono [OF mru_recency]) auto
  show "at_most 2 (recency [1, 2, 1, 3 :: nat]) = [3, 1]" by (simp add: at_most_def recency_def)
qed

text \<open>
  \<open>Put\<close> takes its arguments by reference and makes room before it copies them.  A reference to the key
  of one of the cache's own entries always ends in a read of a freed node; a reference to the
  payload of an entry does exactly if that entry makes room: it is the key's own old entry, or
  the key is new, the cache limited and the entry among those beyond one less than its size.
  Otherwise the payload is copied as if it were the caller's.
\<close>

theorem mru_references:
  assumes "mru_inv c" "deref (Some j) c = Inr (k', w)"
  shows "mru_Put d (In_node j) payload c = Inl Bad_memory \<and>
    mru_Put d (Own k) (In_node j) c =
      (if k' = k \<or> k \<notin> fst ` set (entries c) \<and> max_size c \<noteq> 0 \<and> (k', w) \<notin> set (take (max_size c - 1) (entries c))
       then Inl Bad_memory else mru_Put d (Own k) (Own w) c)"
proof -
  have "(k', w) \<in> set (entries c)" using assms by (force simp: mru_inv_def deref_eq entries_def)
  then have "(k', w) \<in> set (map snd (kept k c)) \<longleftrightarrow>
      \<not> (k' = k \<or> k \<notin> fst ` set (entries c) \<and> max_size c \<noteq> 0 \<and> (k', w) \<notin> set (take (max_size c - 1) (entries c)))"
    unfolding kept_def by (auto simp: entries_def take_map entries_filter image_iff dest: in_set_takeD)
  then show ?thesis
    using mru_Put_key_in_node [OF assms] mru_Put_payload_in_node [OF assms] by simp
qed

theorem mru_references_witness:
  "mru_Put True (Own 4) (In_node 1) sample_cache = Inl Bad_memory \<and>
   mru_Put True (Own 4) (In_node 2) sample_cache = mru_Put True (Own 4) (Own ''c'') sample_cache"
proof
  have d: "deref (Some 1) sample_cache = Inr (2, ''b'')" "deref (Some 2) sample_cache = Inr (3, ''c'')"
    by (simp_all add: deref_def sample_cache_def)
  have e: "entries sample_cache = [(3, ''c''), (2, ''b'')]" "max_size sample_cache = 2"
    by (simp_all add: entries_def sample_cache_def)
  show "mru_Put True (Own 4) (In_node 1) sample_cache = Inl Bad_memory"
    using mru_references [OF sample_cache_inv d(1), of True _ 4] by (simp add: e)
  show "mru_Put True (Own 4) (In_node 2) sample_cache = mru_Put True (Own 4) (Own ''c'') sample_cache"
    using mru_references [OF sample_cache_inv d(2), of True _ 4] by (simp add: e)
qed

end
