(* ===== verification/Flat_Tree.thy ===== *)
theory Flat_Tree
  imports Prelude
begin

text \<open>
  The sorted vector of base/containers/flat_tree.h, on which flat_set and flat_map are built, and
  flat_map.h.  The template argument \<open>GetKeyFromValue\<close> is the parameter \<open>key\<close>; an iterator is an index.
\<close>

section \<open>Algorithms on ranges\<close>

text \<open>
  \<open>std::lower_bound\<close> and \<open>std::upper_bound\<close> halve the range; \<open>p\<close> holds of a prefix of it.  \<open>first\<close> and
  \<open>count\<close> are the range that is left.
\<close>

function partition_search :: "('a \<Rightarrow> bool) \<Rightarrow> 'a list \<Rightarrow> nat \<Rightarrow> nat \<Rightarrow> nat" where
  "partition_search p xs first count =
     (if count = 0 then first
      else let step = count div 2
           in if p (xs ! (first + step)) then partition_search p xs (first + step + 1) (count - (step + 1))
              else partition_search p xs first step)"
  by pat_completeness auto
termination by (relation "measure (\<lambda>(p, xs, first, count). count)") auto

declare partition_search.simps [simp del]

text \<open>\<open>std::stable_sort\<close>, \<open>std::unique\<close> and \<open>std::inplace_merge\<close>, as what the standard says they compute.\<close>

definition insert_stable :: "('a \<Rightarrow> 'a \<Rightarrow> bool) \<Rightarrow> 'a \<Rightarrow> 'a list \<Rightarrow> 'a list" where
  "insert_stable lt v xs = takeWhile (\<lambda>x. lt x v) xs @ v # dropWhile (\<lambda>x. lt x v) xs"

definition stable_sort :: "('a \<Rightarrow> 'a \<Rightarrow> bool) \<Rightarrow> 'a list \<Rightarrow> 'a list" where
  "stable_sort lt xs = foldr (insert_stable lt) xs []"

fun unique :: "('a \<Rightarrow> 'a \<Rightarrow> bool) \<Rightarrow> 'a list \<Rightarrow> 'a list" where
  "unique eq [] = []"
| "unique eq [x] = [x]"
| "unique eq (x # y # ys) = (if eq x y then unique eq (x # ys) else x # unique eq (y # ys))"

fun merge :: "('a \<Rightarrow> 'a \<Rightarrow> bool) \<Rightarrow> 'a list \<Rightarrow> 'a list \<Rightarrow> 'a list" where
  "merge lt [] ys = ys"
| "merge lt xs [] = xs"
| "merge lt (x # xs) (y # ys) = (if lt y x then y # merge lt (x # xs) ys else x # merge lt xs (y # ys))"

text \<open>The header's own sort: each element is swapped down past the greater ones before it.\<close>

fun swap_down :: "('a \<Rightarrow> 'a \<Rightarrow> bool) \<Rightarrow> nat \<Rightarrow> 'a list \<Rightarrow> 'a list" where
  "swap_down lt 0 xs = xs"
| "swap_down lt (Suc i) xs =
     (if lt (xs ! Suc i) (xs ! i)
      then swap_down lt i (xs[Suc i := xs ! i, i := xs ! Suc i]) else xs)"

definition InsertionSort :: "('a \<Rightarrow> 'a \<Rightarrow> bool) \<Rightarrow> 'a list \<Rightarrow> 'a list" where
  "InsertionSort lt xs = fold (swap_down lt) [1..<length xs] xs"

fun is_sorted_and_unique :: "('a \<Rightarrow> 'a \<Rightarrow> bool) \<Rightarrow> 'a list \<Rightarrow> bool" where
  "is_sorted_and_unique lt (x # y # ys) = (lt x y \<and> is_sorted_and_unique lt (y # ys))"
| "is_sorted_and_unique lt xs = True"

section \<open>The tree and its searches\<close>

record ('k, 'v) flat_tree =
  comp :: "'k \<Rightarrow> 'k \<Rightarrow> bool"
  body :: "'v list"

definition value_comp :: "('v \<Rightarrow> 'k) \<Rightarrow> ('k, 'v) flat_tree \<Rightarrow> 'v \<Rightarrow> 'v \<Rightarrow> bool" where
  "value_comp key t left right = comp t (key left) (key right)"

definition flat_end :: "('k, 'v) flat_tree \<Rightarrow> nat" where
  "flat_end t = length (body t)"

definition lower_bound :: "('v \<Rightarrow> 'k) \<Rightarrow> 'k \<Rightarrow> ('k, 'v) flat_tree \<Rightarrow> nat" where
  "lower_bound key k t = partition_search (\<lambda>x. comp t (key x) k) (body t) 0 (flat_end t)"

definition upper_bound :: "('v \<Rightarrow> 'k) \<Rightarrow> 'k \<Rightarrow> ('k, 'v) flat_tree \<Rightarrow> nat" where
  "upper_bound key k t = partition_search (\<lambda>x. \<not> comp t k (key x)) (body t) 0 (flat_end t)"

definition equal_range :: "('v \<Rightarrow> 'k) \<Rightarrow> 'k \<Rightarrow> ('k, 'v) flat_tree \<Rightarrow> nat \<times> nat" where
  "equal_range key k t =
     (let lower = lower_bound key k t
      in if lower = flat_end t \<or> comp t k (key (body t ! lower)) then (lower, lower) else (lower, lower + 1))"

definition flat_count :: "('v \<Rightarrow> 'k) \<Rightarrow> 'k \<Rightarrow> ('k, 'v) flat_tree \<Rightarrow> nat" where
  "flat_count key k t = (let (i, j) = equal_range key k t in j - i)"

definition flat_find :: "('v \<Rightarrow> 'k) \<Rightarrow> 'k \<Rightarrow> ('k, 'v) flat_tree \<Rightarrow> nat" where
  "flat_find key k t = (let (i, j) = equal_range key k t in if i = j then flat_end t else i)"

definition flat_contains :: "('v \<Rightarrow> 'k) \<Rightarrow> 'k \<Rightarrow> ('k, 'v) flat_tree \<Rightarrow> bool" where
  "flat_contains key k t =
     (let lower = lower_bound key k t in lower \<noteq> flat_end t \<and> \<not> comp t k (key (body t ! lower)))"

section \<open>Inserting one element\<close>

text \<open>An iterator past the end is not valid.\<close>

definition unsafe_emplace :: "nat \<Rightarrow> 'v \<Rightarrow> ('k, 'v) flat_tree \<Rightarrow> (nat \<times> ('k, 'v) flat_tree) res" where
  "unsafe_emplace position v t =
     (if position \<le> flat_end t
      then Inr (position, t\<lparr>body := take position (body t) @ v # drop position (body t)\<rparr>) else Inl Bad_memory)"

definition emplace_key_args ::
  "('v \<Rightarrow> 'k) \<Rightarrow> 'k \<Rightarrow> 'v \<Rightarrow> ('k, 'v) flat_tree \<Rightarrow> ((nat \<times> bool) \<times> ('k, 'v) flat_tree) res" where
  "emplace_key_args key k v t =
     (let lower = lower_bound key k t
      in if lower = flat_end t \<or> comp t k (key (body t ! lower))
         then bindR (unsafe_emplace lower v t) (\<lambda>(i, t). Inr ((i, True), t))
         else Inr ((lower, False), t))"

definition emplace_hint_key_args ::
  "('v \<Rightarrow> 'k) \<Rightarrow> nat \<Rightarrow> 'k \<Rightarrow> 'v \<Rightarrow> ('k, 'v) flat_tree \<Rightarrow> ((nat \<times> bool) \<times> ('k, 'v) flat_tree) res" where
  "emplace_hint_key_args key hint k v t =
     (if hint > flat_end t then Inl Bad_memory
      else if hint = 0 \<or> comp t (key (body t ! (hint - 1))) k then
        if hint = flat_end t \<or> comp t k (key (body t ! hint))
        then bindR (unsafe_emplace hint v t) (\<lambda>(i, t). Inr ((i, True), t))
        else if \<not> comp t (key (body t ! hint)) k then Inr ((hint, False), t)
        else emplace_key_args key k v t
      else emplace_key_args key k v t)"

definition flat_insert ::
  "('v \<Rightarrow> 'k) \<Rightarrow> 'v \<Rightarrow> ('k, 'v) flat_tree \<Rightarrow> ((nat \<times> bool) \<times> ('k, 'v) flat_tree) res" where
  "flat_insert key v t = emplace_key_args key (key v) v t"

definition flat_insert_hint ::
  "('v \<Rightarrow> 'k) \<Rightarrow> nat \<Rightarrow> 'v \<Rightarrow> ('k, 'v) flat_tree \<Rightarrow> (nat \<times> ('k, 'v) flat_tree) res" where
  "flat_insert_hint key hint v t =
     bindR (emplace_hint_key_args key hint (key v) v t) (\<lambda>((i, _), t). Inr (i, t))"

definition insert_or_assign ::
  "('v \<Rightarrow> 'k) \<Rightarrow> 'v \<Rightarrow> ('k, 'v) flat_tree \<Rightarrow> (nat \<times> bool) \<times> ('k, 'v) flat_tree" where
  "insert_or_assign key v t =
     (let position = lower_bound key (key v) t
      in if position = flat_end t \<or> value_comp key t v (body t ! position)
         then ((position, True), t\<lparr>body := take position (body t) @ v # drop position (body t)\<rparr>)
         else ((position, False), t\<lparr>body := (body t)[position := v]\<rparr>))"

section \<open>Inserting a range\<close>

text \<open>
  The first \<open>middle\<close> elements are the old ones.  A value without an equivalent among them is
  appended, and the place it belongs to returned.
\<close>

definition append_unique ::
  "('v \<Rightarrow> 'k) \<Rightarrow> nat \<Rightarrow> 'v \<Rightarrow> ('k, 'v) flat_tree \<Rightarrow> (nat \<times> bool) \<times> ('k, 'v) flat_tree" where
  "append_unique key middle v t =
     (let position = partition_search (\<lambda>x. value_comp key t x v) (body t) 0 middle
      in if position = middle \<or> value_comp key t v (body t ! position)
         then ((position, True), t\<lparr>body := body t @ [v]\<rparr>)
         else ((position, False), t))"

definition append_or_assign ::
  "('v \<Rightarrow> 'k) \<Rightarrow> nat \<Rightarrow> 'v \<Rightarrow> ('k, 'v) flat_tree \<Rightarrow> (nat \<times> bool) \<times> ('k, 'v) flat_tree" where
  "append_or_assign key middle v t =
     (let position = partition_search (\<lambda>x. value_comp key t x v) (body t) 0 middle
      in if position = middle \<or> value_comp key t v (body t ! position)
         then ((position, True), t\<lparr>body := body t @ [v]\<rparr>)
         else ((position, False), t\<lparr>body := (body t)[position := v]\<rparr>))"

text \<open>\<open>sort_and_unique(first, end())\<close>.\<close>

definition sort_and_unique :: "('v \<Rightarrow> 'k) \<Rightarrow> nat \<Rightarrow> ('k, 'v) flat_tree \<Rightarrow> ('k, 'v) flat_tree" where
  "sort_and_unique key first t =
     t\<lparr>body := take first (body t) @
       unique (\<lambda>a b. \<not> value_comp key t a b) (stable_sort (value_comp key t) (drop first (body t)))\<rparr>"

fun append_range :: "('v \<Rightarrow> 'k) \<Rightarrow> nat \<Rightarrow> 'v list \<Rightarrow> nat \<times> ('k, 'v) flat_tree \<Rightarrow> nat \<times> ('k, 'v) flat_tree" where
  "append_range key middle [] (pos_first_new, t) = (pos_first_new, t)"
| "append_range key middle (v # vs) (pos_first_new, t) =
     (let ((i, new), t) = append_unique key middle v t
      in append_range key middle vs (if new then min pos_first_new i else pos_first_new, t))"

text \<open>\<open>multipass\<close>: the range's iterators are at least forward iterators.\<close>

definition flat_insert_range :: "('v \<Rightarrow> 'k) \<Rightarrow> bool \<Rightarrow> 'v list \<Rightarrow> ('k, 'v) flat_tree \<Rightarrow> ('k, 'v) flat_tree res" where
  "flat_insert_range key multipass vs t =
     (if vs = [] then Inr t
      else if multipass \<and> length vs = 1 then bindR (flat_insert_hint key (flat_end t) (hd vs) t) (\<lambda>(_, t). Inr t)
      else
        let middle = flat_end t;
            (pos_first_new, t) = append_range key middle vs (middle, t);
            t = sort_and_unique key middle t
        in Inr (t\<lparr>body := take pos_first_new (body t) @
             merge (value_comp key t) (drop pos_first_new (take middle (body t))) (drop middle (body t))\<rparr>))"

section \<open>Construction, replacement, erasing\<close>

definition flat_new :: "('k \<Rightarrow> 'k \<Rightarrow> bool) \<Rightarrow> ('k, 'v) flat_tree" where
  "flat_new c = \<lparr>comp = c, body = []\<rparr>"

definition flat_from :: "('v \<Rightarrow> 'k) \<Rightarrow> ('k \<Rightarrow> 'k \<Rightarrow> bool) \<Rightarrow> 'v list \<Rightarrow> ('k, 'v) flat_tree" where
  "flat_from key c items = sort_and_unique key 0 \<lparr>comp = c, body = items\<rparr>"

definition flat_from_sorted ::
  "bool \<Rightarrow> ('v \<Rightarrow> 'k) \<Rightarrow> ('k \<Rightarrow> 'k \<Rightarrow> bool) \<Rightarrow> 'v list \<Rightarrow> ('k, 'v) flat_tree res" where
  "flat_from_sorted d key c items =
     (let t = \<lparr>comp = c, body = items\<rparr> in dcheck d (is_sorted_and_unique (value_comp key t) (body t)) t)"

definition flat_assign :: "('v \<Rightarrow> 'k) \<Rightarrow> 'v list \<Rightarrow> ('k, 'v) flat_tree \<Rightarrow> ('k, 'v) flat_tree" where
  "flat_assign key ilist t = sort_and_unique key 0 (t\<lparr>body := ilist\<rparr>)"

definition flat_extract :: "('k, 'v) flat_tree \<Rightarrow> 'v list \<times> ('k, 'v) flat_tree" where
  "flat_extract t = (body t, t\<lparr>body := []\<rparr>)"

definition flat_replace :: "bool \<Rightarrow> ('v \<Rightarrow> 'k) \<Rightarrow> 'v list \<Rightarrow> ('k, 'v) flat_tree \<Rightarrow> ('k, 'v) flat_tree res" where
  "flat_replace d key b t = dcheck d (is_sorted_and_unique (value_comp key t) b) (t\<lparr>body := b\<rparr>)"

definition flat_clear :: "('k, 'v) flat_tree \<Rightarrow> ('k, 'v) flat_tree" where
  "flat_clear t = t\<lparr>body := []\<rparr>"

text \<open>The \<open>CHECK\<close> of the first is in every build.\<close>

definition flat_erase :: "nat \<Rightarrow> ('k, 'v) flat_tree \<Rightarrow> (nat \<times> ('k, 'v) flat_tree) res" where
  "flat_erase position t =
     (if position = flat_end t then Inl Check_failed
      else if position > flat_end t then Inl Bad_memory
      else Inr (position, t\<lparr>body := take position (body t) @ drop (position + 1) (body t)\<rparr>))"

definition flat_erase_range :: "nat \<Rightarrow> nat \<Rightarrow> ('k, 'v) flat_tree \<Rightarrow> (nat \<times> ('k, 'v) flat_tree) res" where
  "flat_erase_range i j t =
     (if i \<le> j \<and> j \<le> flat_end t
      then Inr (i, t\<lparr>body := take i (body t) @ drop j (body t)\<rparr>) else Inl Bad_memory)"

definition flat_erase_key :: "('v \<Rightarrow> 'k) \<Rightarrow> 'k \<Rightarrow> ('k, 'v) flat_tree \<Rightarrow> (nat \<times> ('k, 'v) flat_tree) res" where
  "flat_erase_key key k t =
     (let (i, j) = equal_range key k t
      in bindR (flat_erase_range i j t) (\<lambda>(_, t). Inr (j - i, t)))"

text \<open>\<open>remove_if\<close> moves the elements that stay to the front, in their order.\<close>

definition flat_EraseIf :: "('v \<Rightarrow> bool) \<Rightarrow> ('k, 'v) flat_tree \<Rightarrow> (nat \<times> ('k, 'v) flat_tree) res" where
  "flat_EraseIf pred t =
     (let kept = filter (\<lambda>x. \<not> pred x) (body t); it = length kept; removed = flat_end t - it
      in bindR (flat_erase_range it (flat_end t) (t\<lparr>body := kept @ drop it (body t)\<rparr>)) (\<lambda>(_, t). Inr (removed, t)))"

definition flat_swap :: "('k, 'v) flat_tree \<Rightarrow> ('k, 'v) flat_tree \<Rightarrow> ('k, 'v) flat_tree \<times> ('k, 'v) flat_tree" where
  "flat_swap this other = (other, this)"

text \<open>
  \<open>MakeFixedFlatSet\<close> and \<open>MakeFixedFlatMap\<close>: the array is sorted in place and, in every build, checked.
\<close>

definition MakeFixedFlat ::
  "bool \<Rightarrow> ('v \<Rightarrow> 'k) \<Rightarrow> ('k \<Rightarrow> 'k \<Rightarrow> bool) \<Rightarrow> 'v list \<Rightarrow> ('k, 'v) flat_tree res" where
  "MakeFixedFlat d key c data =
     (let lt = value_comp key \<lparr>comp = c, body = []\<rparr>; data = InsertionSort lt data
      in if is_sorted_and_unique lt data then flat_from_sorted d key c data else Inl Check_failed)"

section \<open>flat_map\<close>

type_synonym ('k, 'm) flat_map = "('k, 'k \<times> 'm) flat_tree"

definition map_at :: "'k \<Rightarrow> ('k, 'm) flat_map \<Rightarrow> 'm res" where
  "map_at k t = (let found = flat_find fst k t in if found = flat_end t then Inl Check_failed else Inr (snd (body t ! found)))"

text \<open>\<open>operator[]\<close> returns a reference, here the place of the entry; \<open>m\<close> is \<open>mapped_type()\<close>.\<close>

definition map_index :: "'m \<Rightarrow> 'k \<Rightarrow> ('k, 'm) flat_map \<Rightarrow> (nat \<times> ('k, 'm) flat_map) res" where
  "map_index m k t =
     (let found = lower_bound fst k t
      in if found = flat_end t \<or> comp t k (fst (body t ! found)) then unsafe_emplace found (k, m) t else Inr (found, t))"

definition map_assign_at :: "nat \<Rightarrow> 'm \<Rightarrow> ('k, 'm) flat_map \<Rightarrow> ('k, 'm) flat_map" where
  "map_assign_at i m t = t\<lparr>body := (body t)[i := (fst (body t ! i), m)]\<rparr>"

definition map_insert_or_assign ::
  "'k \<Rightarrow> 'm \<Rightarrow> ('k, 'm) flat_map \<Rightarrow> ((nat \<times> bool) \<times> ('k, 'm) flat_map) res" where
  "map_insert_or_assign k m t =
     bindR (emplace_key_args fst k (k, m) t) (\<lambda>((i, new), t).
       Inr ((i, new), if new then t else map_assign_at i m t))"

definition map_insert_or_assign_hint ::
  "nat \<Rightarrow> 'k \<Rightarrow> 'm \<Rightarrow> ('k, 'm) flat_map \<Rightarrow> (nat \<times> ('k, 'm) flat_map) res" where
  "map_insert_or_assign_hint hint k m t =
     bindR (emplace_hint_key_args fst hint k (k, m) t) (\<lambda>((i, new), t).
       Inr (i, if new then t else map_assign_at i m t))"

definition try_emplace :: "'k \<Rightarrow> 'm \<Rightarrow> ('k, 'm) flat_map \<Rightarrow> ((nat \<times> bool) \<times> ('k, 'm) flat_map) res" where
  "try_emplace k m t = emplace_key_args fst k (k, m) t"

definition try_emplace_hint :: "nat \<Rightarrow> 'k \<Rightarrow> 'm \<Rightarrow> ('k, 'm) flat_map \<Rightarrow> (nat \<times> ('k, 'm) flat_map) res" where
  "try_emplace_hint hint k m t = bindR (emplace_hint_key_args fst hint k (k, m) t) (\<lambda>((i, _), t). Inr (i, t))"

end
