(* ===== verification/Flat_Order.thy ===== *)
theory Flat_Order
  imports Flat_Tree
begin

text \<open>
  Lists under a comparison that is a strict weak order: strictly sorted lists, the first of each class of equivalents, and
  what the library's algorithms compute.
\<close>

section \<open>Strict weak orders\<close>

lemma sw_irrefl: "strict_weak lt \<Longrightarrow> \<not> lt a a"
  unfolding strict_weak_def total_preorder_def by blast

lemma sw_asym: "strict_weak lt \<Longrightarrow> lt a b \<Longrightarrow> \<not> lt b a"
  unfolding strict_weak_def total_preorder_def by blast

lemma sw_less_le: "strict_weak lt \<Longrightarrow> lt a b \<Longrightarrow> \<not> lt c b \<Longrightarrow> lt a c"
  unfolding strict_weak_def total_preorder_def by blast

lemma sw_le_less: "strict_weak lt \<Longrightarrow> \<not> lt b a \<Longrightarrow> lt b c \<Longrightarrow> lt a c"
  unfolding strict_weak_def total_preorder_def by blast

lemma sw_le_trans: "strict_weak lt \<Longrightarrow> \<not> lt b a \<Longrightarrow> \<not> lt c b \<Longrightarrow> \<not> lt c a"
  unfolding strict_weak_def total_preorder_def by blast

lemma sw_trans: "strict_weak lt \<Longrightarrow> lt a b \<Longrightarrow> lt b c \<Longrightarrow> lt a c"
  using sw_less_le sw_asym by metis

definition equivalent :: "('a \<Rightarrow> 'a \<Rightarrow> bool) \<Rightarrow> 'a \<Rightarrow> 'a \<Rightarrow> bool" where
  "equivalent lt a b \<longleftrightarrow> \<not> lt a b \<and> \<not> lt b a"

lemma equivalent_refl: "strict_weak lt \<Longrightarrow> equivalent lt a a"
  by (simp add: equivalent_def sw_irrefl)

lemma equivalent_sym: "equivalent lt a b \<longleftrightarrow> equivalent lt b a"
  by (auto simp: equivalent_def)

lemma equivalent_trans: "strict_weak lt \<Longrightarrow> equivalent lt a b \<Longrightarrow> equivalent lt b c \<Longrightarrow> equivalent lt a c"
  unfolding equivalent_def strict_weak_def total_preorder_def by blast

lemma equivalent_less: "strict_weak lt \<Longrightarrow> equivalent lt a b \<Longrightarrow> lt a c \<longleftrightarrow> lt b c"
  "strict_weak lt \<Longrightarrow> equivalent lt a b \<Longrightarrow> lt c a \<longleftrightarrow> lt c b"
  unfolding equivalent_def strict_weak_def total_preorder_def by blast+

text \<open>No element of \<open>xs\<close> is equivalent to \<open>v\<close>.\<close>

definition fresh_in :: "('a \<Rightarrow> 'a \<Rightarrow> bool) \<Rightarrow> 'a list \<Rightarrow> 'a \<Rightarrow> bool" where
  "fresh_in lt xs v \<longleftrightarrow> (\<forall>x \<in> set xs. \<not> equivalent lt x v)"

section \<open>Searching\<close>

lemma partition_search_bounds:
  assumes "\<forall>i j. i \<le> j \<and> j < first + count \<and> p (xs ! j) \<longrightarrow> p (xs ! i)"
  shows "first \<le> partition_search p xs first count \<and> partition_search p xs first count \<le> first + count \<and>
    (\<forall>i. first \<le> i \<and> i < partition_search p xs first count \<longrightarrow> p (xs ! i)) \<and>
    (\<forall>i. partition_search p xs first count \<le> i \<and> i < first + count \<longrightarrow> \<not> p (xs ! i))"
  using assms
proof (induction p xs first count rule: partition_search.induct)
  case (1 p xs first count)
  show ?case
  proof (cases "count = 0")
    case False
    let ?step = "count div 2"
    have lt: "?step < count" using False by simp
    show ?thesis
    proof (cases "p (xs ! (first + ?step))")
      case True
      then have e: "partition_search p xs first count = partition_search p xs (first + ?step + 1) (count - (?step + 1))"
        using False by (subst partition_search.simps) (simp add: Let_def)
      have b: "first + ?step + 1 + (count - (?step + 1)) = first + count" using lt by simp
      have m: "\<forall>i j. i \<le> j \<and> j < first + ?step + 1 + (count - (?step + 1)) \<and> p (xs ! j) \<longrightarrow> p (xs ! i)"
        using "1.prems" unfolding b .
      note IH = "1.IH"(1) [OF False refl True m, unfolded b]
      have lo: "p (xs ! i)" if "i < first + ?step + 1" for i
        using "1.prems" [rule_format, of i "first + ?step"] True that lt by simp
      from IH have "first \<le> partition_search p xs first count" unfolding e by linarith
      moreover from IH have "partition_search p xs first count \<le> first + count" unfolding e by linarith
      moreover have "p (xs ! i)" if "i < partition_search p xs first count" for i
        using IH lo [of i] that unfolding e by (meson not_less)
      moreover have "\<not> p (xs ! i)" if "partition_search p xs first count \<le> i" "i < first + count" for i
        using IH that unfolding e by blast
      ultimately show ?thesis by blast
    next
      case no: False
      then have e: "partition_search p xs first count = partition_search p xs first ?step"
        using False by (subst partition_search.simps) (simp add: Let_def)
      have m: "\<forall>i j. i \<le> j \<and> j < first + ?step \<and> p (xs ! j) \<longrightarrow> p (xs ! i)"
        using "1.prems" lt by (meson add_strict_left_mono less_trans)
      note IH = "1.IH"(2) [OF False refl no m]
      have hi: "\<not> p (xs ! i)" if "first + ?step \<le> i" "i < first + count" for i
        using "1.prems" [rule_format, of "first + ?step" i] no that by blast
      from IH have "first \<le> partition_search p xs first count" unfolding e by blast
      moreover from IH lt have "partition_search p xs first count \<le> first + count" unfolding e by linarith
      moreover from IH have "p (xs ! i)" if "first \<le> i" "i < partition_search p xs first count" for i
        using that unfolding e by blast
      moreover have "\<not> p (xs ! i)" if "partition_search p xs first count \<le> i" "i < first + count" for i
        using IH hi [of i] that unfolding e by (meson not_less)
      ultimately show ?thesis by blast
    qed
  qed (auto simp: partition_search.simps [of p xs first 0])
qed

lemma partition_search_eq:
  assumes "sorted_wrt (\<lambda>a b. p b \<longrightarrow> p a) (take n xs)" "n \<le> length xs"
  shows "partition_search p xs 0 n = length (takeWhile p (take n xs))"
proof -
  have "p (xs ! i)" if "i \<le> j" "j < 0 + n" "p (xs ! j)" for i j
    using assms that sorted_wrt_nth_less [OF assms(1), of i j] by (cases "i = j") simp_all
  then have "\<forall>i j. i \<le> j \<and> j < 0 + n \<and> p (xs ! j) \<longrightarrow> p (xs ! i)" by blast
  from partition_search_bounds [OF this]
  have r: "partition_search p xs 0 n \<le> n" "\<And>i. i < partition_search p xs 0 n \<Longrightarrow> p (xs ! i)"
      "\<And>i. partition_search p xs 0 n \<le> i \<Longrightarrow> i < n \<Longrightarrow> \<not> p (xs ! i)"
    by auto
  show ?thesis
  proof (rule antisym)
    show "partition_search p xs 0 n \<le> length (takeWhile p (take n xs))"
      using r(1,2) assms(2) by (intro length_takeWhile_less_P_nth) simp_all
    show "length (takeWhile p (take n xs)) \<le> partition_search p xs 0 n"
    proof (rule ccontr)
      assume "\<not> ?thesis"
      then have l: "partition_search p xs 0 n < length (takeWhile p (take n xs))" by simp
      moreover have "length (takeWhile p (take n xs)) \<le> n" by (rule order_trans [OF length_takeWhile_le]) simp
      ultimately have "\<not> p (xs ! partition_search p xs 0 n)" using r(3) by simp
      moreover have "p (take n xs ! partition_search p xs 0 n)"
        using takeWhile_nth [OF l] nth_mem [OF l] by (metis set_takeWhileD)
      ultimately show False using \<open>length (takeWhile p (take n xs)) \<le> n\<close> l by simp
    qed
  qed
qed

section \<open>Strictly sorted lists\<close>

lemma sorted_set_unique:
  assumes "strict_weak lt"
  shows "sorted_wrt lt xs \<Longrightarrow> sorted_wrt lt ys \<Longrightarrow> set xs = set ys \<Longrightarrow> xs = ys"
proof (induction xs arbitrary: ys)
  case (Cons x xs)
  then obtain y zs where ys: "ys = y # zs" by (cases ys) auto
  have "x = y"
  proof (rule ccontr)
    assume "x \<noteq> y"
    then have "y \<in> set xs" "x \<in> set zs" using Cons.prems(3) ys by auto
    then have "lt x y" "lt y x" using Cons.prems ys by auto
    then show False using sw_asym [OF assms] by blast
  qed
  moreover have "x \<notin> set xs" "y \<notin> set zs" using Cons.prems ys sw_irrefl [OF assms] by auto
  ultimately have "set xs = set zs" using Cons.prems(3) ys by auto
  then show ?case using Cons.IH [of zs] Cons.prems ys \<open>x = y\<close> by simp
qed simp

text \<open>Inserting a value unless an equivalent one is there: what a set promises.\<close>

definition insert_new :: "('a \<Rightarrow> 'a \<Rightarrow> bool) \<Rightarrow> 'a \<Rightarrow> 'a list \<Rightarrow> 'a list" where
  "insert_new lt v xs = (if fresh_in lt xs v then insert_stable lt v xs else xs)"

lemma set_insert_stable: "set (insert_stable lt v xs) = insert v (set xs)"
  unfolding insert_stable_def by (metis Un_insert_right list.simps(15) set_append takeWhile_dropWhile_id)

lemma set_insert_new: "set (insert_new lt v xs) = (if fresh_in lt xs v then insert v (set xs) else set xs)"
  by (simp add: insert_new_def set_insert_stable)

lemma sorted_dropWhile_le:
  assumes "strict_weak lt" "sorted_wrt (\<lambda>a b. \<not> lt b a) xs" "x \<in> set (dropWhile (\<lambda>x. lt x v) xs)"
  shows "\<not> lt x v"
  using assms(2,3)
proof (induction xs)
  case (Cons y ys)
  show ?case
  proof (cases "lt y v")
    case False
    then have "x = y \<or> x \<in> set ys \<and> \<not> lt x y" using Cons.prems by auto
    then show ?thesis using False sw_le_trans [OF assms(1), of y v x] by blast
  qed (use Cons in simp)
qed simp

lemma sorted_strict_weak: "strict_weak lt \<Longrightarrow> sorted_wrt lt xs \<Longrightarrow> sorted_wrt (\<lambda>a b. \<not> lt b a) xs"
  by (rule sorted_wrt_mono_rel [of _ lt]) (auto dest: sw_asym)

lemma sorted_append_parts:
  assumes "sorted_wrt P xs"
  shows "sorted_wrt P (takeWhile q xs)" "sorted_wrt P (dropWhile q xs)"
    "\<forall>a \<in> set (takeWhile q xs). \<forall>b \<in> set (dropWhile q xs). P a b"
  using assms sorted_wrt_append [of P "takeWhile q xs" "dropWhile q xs"] by simp_all

lemma sorted_wrt_middle:
  assumes "sorted_wrt P xs" "\<forall>a \<in> set (takeWhile q xs). P a v" "\<forall>b \<in> set (dropWhile q xs). P v b"
  shows "sorted_wrt P (takeWhile q xs @ v # dropWhile q xs)"
  unfolding sorted_wrt_append sorted_wrt.simps using sorted_append_parts [OF assms(1), of q] assms(2,3) by simp

lemma insert_stable_sorted:
  assumes "strict_weak lt" "sorted_wrt (\<lambda>a b. \<not> lt b a) xs"
  shows "sorted_wrt (\<lambda>a b. \<not> lt b a) (insert_stable lt v xs)"
proof -
  have "\<not> lt v x" if "x \<in> set (takeWhile (\<lambda>x. lt x v) xs)" for x
    using sw_asym [OF assms(1)] set_takeWhileD [OF that] by blast
  moreover have "\<not> lt x v" if "x \<in> set (dropWhile (\<lambda>x. lt x v) xs)" for x
    using sorted_dropWhile_le [OF assms that] .
  ultimately show ?thesis unfolding insert_stable_def using sorted_wrt_middle [OF assms(2)] by blast
qed

lemma insert_new_sorted:
  assumes "strict_weak lt" "sorted_wrt lt xs"
  shows "sorted_wrt lt (insert_new lt v xs)"
proof (cases "fresh_in lt xs v")
  case True
  have "lt v x" if x: "x \<in> set (dropWhile (\<lambda>x. lt x v) xs)" for x
    using True x sorted_dropWhile_le [OF assms(1) sorted_strict_weak [OF assms] x] set_dropWhileD [OF x]
    by (auto simp: fresh_in_def equivalent_def)
  moreover have "insert_new lt v xs = insert_stable lt v xs" using True by (simp add: insert_new_def)
  moreover have "\<forall>x \<in> set (takeWhile (\<lambda>x. lt x v) xs). lt x v" by (blast dest: set_takeWhileD)
  ultimately show ?thesis unfolding insert_stable_def using sorted_wrt_middle [OF assms(2)] by simp
qed (simp add: insert_new_def assms)

lemma fold_insert_new_sorted:
  "strict_weak lt \<Longrightarrow> sorted_wrt lt xs \<Longrightarrow> sorted_wrt lt (fold (insert_new lt) vs xs)"
  by (induction vs arbitrary: xs) (simp_all add: insert_new_sorted)

section \<open>The first of each class\<close>

fun firsts :: "('a \<Rightarrow> 'a \<Rightarrow> bool) \<Rightarrow> 'a list \<Rightarrow> 'a list" where
  "firsts lt [] = []"
| "firsts lt (v # vs) = v # filter (\<lambda>x. \<not> equivalent lt v x) (firsts lt vs)"

lemma set_firsts: "set (firsts lt vs) \<subseteq> set vs"
  by (induction vs) auto

lemma set_fold_insert_new:
  assumes "strict_weak lt"
  shows "set (fold (insert_new lt) vs xs) = set xs \<union> {x \<in> set (firsts lt vs). fresh_in lt xs x}"
proof (induction vs arbitrary: xs)
  case (Cons v vs)
  show ?case
  proof (cases "fresh_in lt xs v")
    case True
    then show ?thesis
      using Cons.IH [of "insert_new lt v xs"] by (auto simp: set_insert_new fresh_in_def)
  next
    case False
    then obtain y where y: "y \<in> set xs" "equivalent lt y v" by (auto simp: fresh_in_def)
    have "\<not> equivalent lt v x" if "fresh_in lt xs x" for x
      using that y equivalent_trans [OF assms y(2), of x] by (auto simp: fresh_in_def)
    then show ?thesis using Cons.IH [of xs] False by (auto simp: insert_new_def)
  qed
qed simp

lemma firsts_append:
  "firsts lt (xs @ ys) = firsts lt xs @ filter (fresh_in lt xs) (firsts lt ys)"
  by (induction xs) (auto simp: fresh_in_def intro!: filter_cong)

lemma set_firsts_insert_stable:
  assumes "strict_weak lt"
  shows "set (firsts lt (insert_stable lt v xs)) = insert v {x \<in> set (firsts lt xs). \<not> equivalent lt v x}"
proof -
  let ?lo = "takeWhile (\<lambda>x. lt x v) xs" and ?hi = "dropWhile (\<lambda>x. lt x v) xs"
  have lo: "\<not> equivalent lt v x" "\<not> equivalent lt x v" if "x \<in> set ?lo" for x
    using set_takeWhileD [OF that] by (auto simp: equivalent_def)
  have "set (firsts lt (insert_stable lt v xs)) =
      insert v (set (firsts lt ?lo) \<union> {x \<in> set (firsts lt ?hi). \<not> equivalent lt v x \<and> fresh_in lt ?lo x})"
    unfolding insert_stable_def firsts_append using lo by (auto simp: fresh_in_def)
  also have "\<dots> = insert v {x \<in> set (firsts lt (?lo @ ?hi)). \<not> equivalent lt v x}"
    unfolding firsts_append using lo set_firsts [of lt ?lo] by auto
  finally show ?thesis by simp
qed

lemma set_firsts_stable_sort:
  assumes "strict_weak lt"
  shows "set (firsts lt (stable_sort lt xs)) = set (firsts lt xs)"
proof (induction xs)
  case (Cons x xs)
  have "stable_sort lt (x # xs) = insert_stable lt x (stable_sort lt xs)" by (simp add: stable_sort_def)
  then show ?case using Cons set_firsts_insert_stable [OF assms, of x "stable_sort lt xs"] by simp
qed (simp add: stable_sort_def)

lemma set_stable_sort: "set (stable_sort lt xs) = set xs"
  by (induction xs) (simp_all add: stable_sort_def set_insert_stable)

lemma stable_sort_sorted: "strict_weak lt \<Longrightarrow> sorted_wrt (\<lambda>a b. \<not> lt b a) (stable_sort lt xs)"
  by (induction xs) (simp_all add: stable_sort_def insert_stable_sorted)

lemma unique_firsts:
  assumes "strict_weak lt"
  shows "sorted_wrt (\<lambda>a b. \<not> lt b a) xs \<Longrightarrow> unique (\<lambda>a b. \<not> lt a b) xs = firsts lt xs"
proof (induction "\<lambda>a b. \<not> lt a b" xs rule: unique.induct)
  case (3 x y ys)
  show ?case
  proof (cases "lt x y")
    case False
    then have xy: "equivalent lt x y" using 3(3) by (simp add: equivalent_def)
    have "unique (\<lambda>a b. \<not> lt a b) (x # ys) = firsts lt (x # ys)"
      using 3(1) [OF False] 3(3) by simp
    moreover have "equivalent lt y z \<longleftrightarrow> equivalent lt x z" for z
      using equivalent_trans [OF assms] xy equivalent_sym by metis
    ultimately show ?thesis using False xy by (simp add: conj_absorb cong: filter_cong)
  next
    case True
    then have "unique (\<lambda>a b. \<not> lt a b) (y # ys) = firsts lt (y # ys)"
      using 3(2) 3(3) by simp
    have "\<not> equivalent lt x z" if "z \<in> set (firsts lt (y # ys))" for z
    proof -
      have "z \<in> set (y # ys)" using that set_firsts [of lt "y # ys"] by blast
      then have "\<not> lt z y" using 3(3) sw_irrefl [OF assms] by auto
      then show ?thesis using sw_less_le [OF assms True] by (simp add: equivalent_def)
    qed
    then have "filter (\<lambda>z. \<not> equivalent lt x z) (firsts lt (y # ys)) = firsts lt (y # ys)"
      by (intro filter_True) blast
    with \<open>unique _ (y # ys) = _\<close> show ?thesis using True by (simp only: unique.simps firsts.simps(2) [of lt x] if_False not_not simp_thms if_True)
  qed
qed simp_all

lemma firsts_sorted:
  assumes "strict_weak lt"
  shows "sorted_wrt (\<lambda>a b. \<not> lt b a) xs \<Longrightarrow> sorted_wrt lt (firsts lt xs)"
proof (induction xs)
  case (Cons x xs)
  have "lt x y" if "y \<in> set (firsts lt xs)" "\<not> equivalent lt x y" for y
    using that Cons.prems set_firsts [of lt xs] by (auto simp: equivalent_def)
  then show ?case using Cons by (simp add: sorted_wrt_filter)
qed simp

lemma set_merge: "set (merge lt xs ys) = set xs \<union> set ys"
  by (induction lt xs ys rule: merge.induct) auto

lemma merge_sorted:
  shows "strict_weak lt \<Longrightarrow> sorted_wrt lt xs \<Longrightarrow> sorted_wrt lt ys \<Longrightarrow> (\<forall>y \<in> set ys. fresh_in lt xs y) \<Longrightarrow> sorted_wrt lt (merge lt xs ys)"
proof (induction lt xs ys rule: merge.induct)
  case (3 lt x xs y ys)
  note assms = "3.prems"(1)
  show ?case
  proof (cases "lt y x")
    case True
    have "lt y z" if "z \<in> set (x # xs)" for z
      using that True "3.prems"(2) sw_trans [OF assms True, of z] by auto
    then show ?thesis using True 3 by (auto simp: set_merge)
  next
    case False
    have "lt x y" using False "3.prems"(4) by (auto simp: fresh_in_def equivalent_def)
    then have "lt x z" if "z \<in> set (y # ys)" for z
      using that "3.prems"(3) sw_trans [OF assms, of x y z] by auto
    moreover have "\<forall>z \<in> set (y # ys). fresh_in lt xs z" using "3.prems"(4) by (simp add: fresh_in_def)
    ultimately show ?thesis using False 3 by (auto simp: set_merge)
  qed
qed simp_all

end
