(* ===== verification/Flat_Props.thy ===== *)
theory Flat_Props
  imports Flat_Order
begin

text \<open>
  The invariant of a flat tree, where a key stands in it, and what every insertion does to it: the
  one that searches, the one that trusts a hint, the batch that appends, sorts and merges.
\<close>

section \<open>The invariant\<close>

definition flat_ok :: "('v \<Rightarrow> 'k) \<Rightarrow> ('k, 'v) flat_tree \<Rightarrow> bool" where
  "flat_ok key t \<longleftrightarrow> strict_weak (comp t) \<and> sorted_wrt (value_comp key t) (body t)"

lemma value_comp_strict_weak: "strict_weak (comp t) \<Longrightarrow> strict_weak (value_comp key t)"
  unfolding strict_weak_def total_preorder_def value_comp_def by blast

lemma flat_ok_D:
  assumes "flat_ok key t"
  shows "strict_weak (comp t)" "strict_weak (value_comp key t)" "sorted_wrt (value_comp key t) (body t)"
  using assms value_comp_strict_weak by (auto simp: flat_ok_def)

lemma value_comp_body [simp]: "value_comp key (t\<lparr>body := b\<rparr>) = value_comp key t"
  by (simp add: value_comp_def fun_eq_iff)

lemma flat_ok_body [simp]:
  "flat_ok key (t\<lparr>body := b\<rparr>) \<longleftrightarrow> strict_weak (comp t) \<and> sorted_wrt (value_comp key t) b"
  by (simp add: flat_ok_def)

lemma is_sorted_and_unique_iff: "strict_weak lt \<Longrightarrow> is_sorted_and_unique lt xs \<longleftrightarrow> sorted_wrt lt xs"
  by (induction lt xs rule: is_sorted_and_unique.induct) (auto intro: sw_trans)

section \<open>Searching\<close>

lemma lower_bound_eq:
  assumes "flat_ok key t"
  shows "lower_bound key k t = length (takeWhile (\<lambda>x. comp t (key x) k) (body t))"
proof -
  have "sorted_wrt (\<lambda>a b. comp t (key b) k \<longrightarrow> comp t (key a) k) (body t)"
    by (rule sorted_wrt_mono_rel [OF _ flat_ok_D(3) [OF assms]])
      (use sw_trans [OF flat_ok_D(1) [OF assms]] in \<open>auto simp: value_comp_def\<close>)
  then show ?thesis
    using partition_search_eq [of "\<lambda>x. comp t (key x) k" "length (body t)" "body t"]
    by (simp add: lower_bound_def flat_end_def)
qed

lemma upper_bound_eq:
  assumes "flat_ok key t"
  shows "upper_bound key k t = length (takeWhile (\<lambda>x. \<not> comp t k (key x)) (body t))"
proof -
  have "sorted_wrt (\<lambda>a b. \<not> comp t k (key b) \<longrightarrow> \<not> comp t k (key a)) (body t)"
    by (rule sorted_wrt_mono_rel [OF _ flat_ok_D(3) [OF assms]])
      (use sw_trans [OF flat_ok_D(1) [OF assms]] in \<open>auto simp: value_comp_def\<close>)
  then show ?thesis
    using partition_search_eq [of "\<lambda>x. \<not> comp t k (key x)" "length (body t)" "body t"]
    by (simp add: upper_bound_def flat_end_def)
qed

text \<open>Where a key stands: between the lesser and the greater elements, or at its equivalent.\<close>

lemma flat_cases:
  assumes "flat_ok key t"
  obtains (absent) lo hi where "body t = lo @ hi" "lower_bound key k t = length lo"
      "\<forall>x \<in> set lo. comp t (key x) k" "\<forall>x \<in> set hi. comp t k (key x)"
  | (present) lo x hi where "body t = lo @ x # hi" "lower_bound key k t = length lo"
      "\<forall>x \<in> set lo. comp t (key x) k" "\<forall>x \<in> set hi. comp t k (key x)" "equivalent (comp t) (key x) k"
proof -
  let ?p = "\<lambda>x. comp t (key x) k"
  let ?lo = "takeWhile ?p (body t)" and ?hi = "dropWhile ?p (body t)"
  note sw = flat_ok_D(1) [OF assms]
  have b: "body t = ?lo @ ?hi" by simp
  have l: "lower_bound key k t = length ?lo" by (rule lower_bound_eq [OF assms])
  have lo: "\<forall>x \<in> set ?lo. comp t (key x) k" by (blast dest: set_takeWhileD)
  have sorted: "sorted_wrt (value_comp key t) ?hi"
    using sorted_append_parts(2) [OF flat_ok_D(3) [OF assms]] .
  show thesis
  proof (cases ?hi)
    case Nil
    then have "\<forall>x \<in> set ?hi. comp t k (key x)" unfolding Nil by simp
    then show thesis by (rule absent [OF b l lo])
  next
    case (Cons y ys)
    have y: "\<not> comp t (key y) k" using hd_dropWhile [of ?p "body t"] Cons by simp
    have after: "\<forall>x \<in> set ys. comp t (key y) (key x)" using sorted Cons by (simp add: value_comp_def)
    show thesis
    proof (cases "comp t k (key y)")
      case True
      then have "\<forall>x \<in> set ?hi. comp t k (key x)" using after sw_trans [OF sw True] Cons by auto
      then show thesis using absent [of ?lo ?hi] b l lo by simp
    next
      case False
      then have e: "equivalent (comp t) (key y) k" using y by (simp add: equivalent_def)
      then have "\<forall>x \<in> set ys. comp t k (key x)" using after equivalent_less(1) [OF sw e] by blast
      then show thesis using present [of ?lo y ys] b l lo e Cons by simp
    qed
  qed
qed

lemma equivalent_comp_not [simp]:
  "strict_weak lt \<Longrightarrow> lt a b \<Longrightarrow> \<not> equivalent lt a b" "strict_weak lt \<Longrightarrow> lt a b \<Longrightarrow> \<not> equivalent lt b a"
  by (simp_all add: equivalent_def)

definition key_in :: "('v \<Rightarrow> 'k) \<Rightarrow> 'k \<Rightarrow> ('k, 'v) flat_tree \<Rightarrow> bool" where
  "key_in key k t \<longleftrightarrow> (\<exists>x \<in> set (body t). equivalent (comp t) (key x) k)"

lemma lower_bound_key_in:
  assumes "flat_ok key t"
  shows "(lower_bound key k t = flat_end t \<or> comp t k (key (body t ! lower_bound key k t))) \<longleftrightarrow> \<not> key_in key k t"
  using assms
proof (cases rule: flat_cases [of key t k])
  case (absent lo hi)
  then have "\<not> key_in key k t" using flat_ok_D(1) [OF assms] by (auto simp: key_in_def)
  moreover have "hi = [] \<or> comp t k (key (hi ! 0))" using absent(4) by (cases hi) auto
  ultimately show ?thesis using absent by (auto simp: flat_end_def nth_append)
next
  case (present lo x hi)
  then have "key_in key k t" by (auto simp: key_in_def)
  then show ?thesis using present by (simp add: flat_end_def equivalent_def)
qed

lemma flat_contains_iff: "flat_ok key t \<Longrightarrow> flat_contains key k t \<longleftrightarrow> key_in key k t"
  using lower_bound_key_in [of key t k] by (auto simp: flat_contains_def Let_def)

lemma equal_range_eq:
  "flat_ok key t \<Longrightarrow>
     equal_range key k t = (lower_bound key k t, lower_bound key k t + (if key_in key k t then 1 else 0))"
  using lower_bound_key_in [of key t k] by (auto simp: equal_range_def Let_def)

lemma equal_range_bounds:
  assumes "flat_ok key t"
  shows "equal_range key k t = (lower_bound key k t, upper_bound key k t)"
  using assms
proof (cases rule: flat_cases [of key t k])
  case (absent lo hi)
  then have "takeWhile (\<lambda>x. \<not> comp t k (key x)) (body t) = lo"
    using sw_asym [OF flat_ok_D(1) [OF assms]] by (cases hi) (auto simp: takeWhile_append2)
  moreover have "\<not> key_in key k t" using absent flat_ok_D(1) [OF assms] by (auto simp: key_in_def)
  ultimately show ?thesis using absent by (simp add: equal_range_eq assms upper_bound_eq)
next
  case (present lo x hi)
  then have "takeWhile (\<lambda>x. \<not> comp t k (key x)) (body t) = lo @ [x]"
    using sw_asym [OF flat_ok_D(1) [OF assms]] by (cases hi) (auto simp: takeWhile_append2 equivalent_def)
  moreover have "key_in key k t" using present by (auto simp: key_in_def)
  ultimately show ?thesis using present by (simp add: equal_range_eq assms upper_bound_eq)
qed

section \<open>Inserting one element\<close>

lemma key_in_fresh: "key_in key (key v) t \<longleftrightarrow> \<not> fresh_in (value_comp key t) (body t) v"
  by (simp add: key_in_def fresh_in_def equivalent_def value_comp_def)

text \<open>What insertion promises: the value goes to its place, unless an equivalent one is there.\<close>

definition set_insert :: "('v \<Rightarrow> 'k) \<Rightarrow> 'v \<Rightarrow> ('k, 'v) flat_tree \<Rightarrow> ('k, 'v) flat_tree" where
  "set_insert key v t = t\<lparr>body := insert_new (value_comp key t) v (body t)\<rparr>"

lemma insert_stable_split:
  "\<forall>x \<in> set lo. lt x v \<Longrightarrow> \<forall>x \<in> set hi. \<not> lt x v \<Longrightarrow> insert_stable lt v (lo @ hi) = lo @ v # hi"
  unfolding insert_stable_def by (cases hi) (simp_all add: takeWhile_append2 dropWhile_append2)

lemma set_insert_fresh:
  assumes "flat_ok key t" "\<not> key_in key (key v) t"
  shows "set_insert key v t =
    t\<lparr>body := take (lower_bound key (key v) t) (body t) @ v # drop (lower_bound key (key v) t) (body t)\<rparr>"
  using assms(1)
proof (cases rule: flat_cases [of key t "key v"])
  case (absent lo hi)
  then have "insert_stable (value_comp key t) v (lo @ hi) = lo @ v # hi"
    using sw_asym [OF flat_ok_D(1) [OF assms(1)]] by (intro insert_stable_split) (auto simp: value_comp_def)
  then show ?thesis using absent assms(2) by (simp add: set_insert_def insert_new_def key_in_fresh)
next
  case (present lo x hi)
  then show ?thesis using assms(2) by (auto simp: key_in_def)
qed

lemma lower_bound_le: "flat_ok key t \<Longrightarrow> lower_bound key k t \<le> length (body t)"
  by (simp add: lower_bound_eq length_takeWhile_le)

lemma emplace_key_args_ok:
  assumes "flat_ok key t"
  shows "emplace_key_args key (key v) v t =
    Inr ((lower_bound key (key v) t, \<not> key_in key (key v) t), set_insert key v t)"
proof (cases "key_in key (key v) t")
  case True
  moreover have "set_insert key v t = t"
    using True by (simp add: set_insert_def insert_new_def key_in_fresh)
  ultimately show ?thesis
    using lower_bound_key_in [OF assms, of "key v"] by (simp add: emplace_key_args_def Let_def)
next
  case False
  then show ?thesis
    using lower_bound_key_in [OF assms, of "key v"] lower_bound_le [OF assms, of "key v"]
    by (simp add: emplace_key_args_def Let_def unsafe_emplace_def flat_end_def set_insert_fresh [OF assms])
qed

lemma set_insert_ok: "flat_ok key t \<Longrightarrow> flat_ok key (set_insert key v t)"
  using insert_new_sorted flat_ok_D [of key t] by (simp add: set_insert_def)

lemma set_insert_comp [simp]: "comp (set_insert key v t) = comp t"
  by (simp add: set_insert_def)

text \<open>A hint that is accepted is the place the search finds.\<close>

lemma hint_place:
  assumes ok: "flat_ok key t" and le: "hint \<le> length (body t)"
    and before: "hint = 0 \<or> comp t (key (body t ! (hint - 1))) k"
    and at: "hint = length (body t) \<or> \<not> comp t (key (body t ! hint)) k"
  shows "lower_bound key k t = hint"
proof -
  have "comp t (key (body t ! i)) k" if "i < hint" for i
  proof (cases "i = hint - 1")
    case False
    then have "comp t (key (body t ! i)) (key (body t ! (hint - 1)))"
      using sorted_wrt_nth_less [OF flat_ok_D(3) [OF ok], of i "hint - 1"] that le by (simp add: value_comp_def)
    then show ?thesis using before that sw_trans [OF flat_ok_D(1) [OF ok]] by blast
  qed (use before that in simp)
  then have "takeWhile (\<lambda>x. comp t (key x) k) (body t) = take hint (body t)"
    using at by (intro takeWhile_eq_take_P_nth) auto
  then show ?thesis using le by (simp add: lower_bound_eq [OF ok])
qed

lemma emplace_hint_ok:
  assumes ok: "flat_ok key t" and le: "hint \<le> flat_end t"
  shows "emplace_hint_key_args key hint (key v) v t = emplace_key_args key (key v) v t"
proof (cases "hint = 0 \<or> comp t (key (body t ! (hint - 1))) (key v)")
  case before: True
  show ?thesis
  proof (cases "hint = flat_end t \<or> comp t (key v) (key (body t ! hint))")
    case True
    then have "hint = length (body t) \<or> \<not> comp t (key (body t ! hint)) (key v)"
      using sw_asym [OF flat_ok_D(1) [OF ok]] by (auto simp: flat_end_def)
    then have "lower_bound key (key v) t = hint"
      using hint_place [OF ok _ before] le by (simp add: flat_end_def)
    then show ?thesis
      using True before le by (simp add: emplace_hint_key_args_def emplace_key_args_def)
  next
    case no: False
    show ?thesis
    proof (cases "comp t (key (body t ! hint)) (key v)")
      case False
      then have "lower_bound key (key v) t = hint"
        using hint_place [OF ok _ before] le by (simp add: flat_end_def)
      then show ?thesis
        using False no before le by (simp add: emplace_hint_key_args_def emplace_key_args_def)
    qed (use no before le in \<open>simp add: emplace_hint_key_args_def\<close>)
  qed
qed (use le in \<open>simp add: emplace_hint_key_args_def\<close>)

end
