(* ===== verification/Flat_Batch.thy ===== *)
theory Flat_Batch
  imports Flat_Props
begin

text \<open>
  Inserting a range into a flat tree, building one from unsorted items, and erasing: the routine that
  appends, sorts, drops duplicates and merges leaves the tree that inserting the values one at a
  time leaves.
\<close>

section \<open>Appending what is new\<close>

lemma lower_position:
  assumes ok: "flat_ok key t" and old: "body t = old"
  shows "partition_search (\<lambda>x. value_comp key t x v) (old @ app) 0 (length old) =
    length (takeWhile (\<lambda>x. value_comp key t x v) old)"
proof -
  have "sorted_wrt (\<lambda>a b. value_comp key t b v \<longrightarrow> value_comp key t a v) old"
    by (rule sorted_wrt_mono_rel [OF _ flat_ok_D(3) [OF ok, unfolded old]])
      (use sw_trans [OF flat_ok_D(2) [OF ok]] in blast)
  then show ?thesis
    using partition_search_eq [of "\<lambda>x. value_comp key t x v" "length old" "old @ app"] by simp
qed

lemma append_unique_ok:
  assumes ok: "flat_ok key t"
  defines "old \<equiv> body t" and "lt \<equiv> value_comp key t"
  shows "append_unique key (length old) v (t\<lparr>body := old @ app\<rparr>) =
    ((length (takeWhile (\<lambda>x. lt x v) old), fresh_in lt old v),
     t\<lparr>body := old @ app @ (if fresh_in lt old v then [v] else [])\<rparr>)"
proof -
  let ?n = "length (takeWhile (\<lambda>x. lt x v) old)"
  have n: "lower_bound key (key v) t = ?n"
    using lower_bound_eq [OF ok, of "key v"] by (simp add: old_def lt_def value_comp_def)
  have "(?n = length old \<or> lt v ((old @ app) ! ?n)) \<longleftrightarrow> (?n = length old \<or> lt v (old ! ?n))"
    using length_takeWhile_le [of "\<lambda>x. lt x v" old] by (auto simp: nth_append)
  also have "\<dots> \<longleftrightarrow> fresh_in lt old v"
    using lower_bound_key_in [OF ok, of "key v"] n
    by (simp add: key_in_fresh old_def lt_def flat_end_def value_comp_def [abs_def])
  finally show ?thesis
    using lower_position [OF ok refl, of v app]
    by (simp add: append_unique_def Let_def old_def lt_def)
qed

lemma append_range_ok:
  assumes ok: "flat_ok key t"
  defines "old \<equiv> body t" and "lt \<equiv> value_comp key t"
  shows "\<exists>p' \<le> p. append_range key (length old) vs (p, t\<lparr>body := old @ app\<rparr>) =
      (p', t\<lparr>body := old @ app @ filter (fresh_in lt old) vs\<rparr>) \<and>
    (\<forall>v \<in> set (filter (fresh_in lt old) vs). p' \<le> length (takeWhile (\<lambda>x. lt x v) old))"
proof (induction vs arbitrary: p app)
  case (Cons v vs)
  let ?n = "length (takeWhile (\<lambda>x. lt x v) old)"
  note a = append_unique_ok [OF ok, of v app, folded old_def lt_def]
  show ?case
  proof (cases "fresh_in lt old v")
    case True
    obtain p' where "p' \<le> min p ?n" "append_range key (length old) vs (min p ?n, t\<lparr>body := old @ app @ [v]\<rparr>) =
      (p', t\<lparr>body := old @ (app @ [v]) @ filter (fresh_in lt old) vs\<rparr>)"
      "\<forall>v \<in> set (filter (fresh_in lt old) vs). p' \<le> length (takeWhile (\<lambda>x. lt x v) old)"
      using Cons.IH [of "min p ?n" "app @ [v]"] by blast
    then show ?thesis using True a by (intro exI [of _ p']) (simp add: min.commute)
  next
    case False
    then show ?thesis using Cons.IH [of p app] a by simp
  qed
qed simp

section \<open>The order does not matter\<close>

lemma firsts_filter:
  assumes "\<And>v x. equivalent lt v x \<Longrightarrow> q v \<longleftrightarrow> q x"
  shows "firsts lt (filter q vs) = filter q (firsts lt vs)"
proof (induction vs)
  case (Cons v vs)
  show ?case
  proof (cases "q v")
    case True
    then show ?thesis using Cons by (simp add: conj_commute)
  next
    case False
    then have "filter q (filter (\<lambda>x. \<not> equivalent lt v x) (firsts lt vs)) = filter q (firsts lt vs)"
      using assms [of v] by (auto intro!: filter_cong)
    then show ?thesis using Cons False by simp
  qed
qed simp

lemma fresh_in_cong: "strict_weak lt \<Longrightarrow> equivalent lt v x \<Longrightarrow> fresh_in lt xs v \<longleftrightarrow> fresh_in lt xs x"
  unfolding fresh_in_def using equivalent_trans [of lt] equivalent_sym by metis

text \<open>What is merged: the old elements, and the first of each class that is new to them.\<close>

lemma batch_body:
  assumes sw: "strict_weak lt" and old: "sorted_wrt lt old"
    and p: "\<forall>v \<in> set (filter (fresh_in lt old) vs). p \<le> length (takeWhile (\<lambda>x. lt x v) old)"
  defines "new \<equiv> firsts lt (stable_sort lt (filter (fresh_in lt old) vs))"
  shows "take p old @ merge lt (drop p old) new = fold (insert_new lt) vs old"
proof (rule sorted_set_unique [OF sw])
  have set_new: "set new = {x \<in> set (firsts lt vs). fresh_in lt old x}"
    using firsts_filter [of lt "fresh_in lt old" vs] fresh_in_cong [OF sw]
    unfolding new_def set_firsts_stable_sort [OF sw] by simp
  have sorted_new: "sorted_wrt lt new"
    unfolding new_def by (rule firsts_sorted [OF sw stable_sort_sorted [OF sw]])
  have below: "lt x v" if "x \<in> set (take p old)" "v \<in> set new" for x v
  proof -
    have "v \<in> set (filter (fresh_in lt old) vs)" using that(2) set_new set_firsts [of lt vs] by auto
    then have "p \<le> length (takeWhile (\<lambda>x. lt x v) old)" using p by blast
    then have "set (take p old) \<subseteq> set (takeWhile (\<lambda>x. lt x v) old)"
      using takeWhile_eq_take [of "\<lambda>x. lt x v" old] by (metis set_take_subset_set_take)
    then show ?thesis using that(1) by (blast dest: set_takeWhileD)
  qed
  have parts: "sorted_wrt lt (take p old)" "sorted_wrt lt (drop p old)"
    "\<forall>a \<in> set (take p old). \<forall>b \<in> set (drop p old). lt a b"
    using old sorted_wrt_append [of lt "take p old" "drop p old"] by simp_all
  have "\<forall>y \<in> set new. fresh_in lt (drop p old) y"
    using set_new in_set_dropD [of _ p old] by (auto simp: fresh_in_def)
  then have "sorted_wrt lt (merge lt (drop p old) new)" by (rule merge_sorted [OF sw parts(2) sorted_new])
  then show "sorted_wrt lt (take p old @ merge lt (drop p old) new)"
    using parts below by (auto simp: sorted_wrt_append set_merge)
  show "sorted_wrt lt (fold (insert_new lt) vs old)" by (rule fold_insert_new_sorted [OF sw old])
  have "set (take p old) \<union> set (drop p old) = set old" by (metis append_take_drop_id set_append)
  then show "set (take p old @ merge lt (drop p old) new) = set (fold (insert_new lt) vs old)"
    using set_new by (auto simp: set_merge set_fold_insert_new [OF sw])
qed

lemma sort_and_unique_ok:
  assumes "strict_weak (comp t)"
  shows "sort_and_unique key first t =
    t\<lparr>body := take first (body t) @ firsts (value_comp key t) (stable_sort (value_comp key t) (drop first (body t)))\<rparr>"
proof -
  note sw = value_comp_strict_weak [OF assms, of key]
  have "unique (\<lambda>a b. \<not> value_comp key t a b) (stable_sort (value_comp key t) (drop first (body t))) =
      firsts (value_comp key t) (stable_sort (value_comp key t) (drop first (body t)))"
    by (rule unique_firsts [OF sw stable_sort_sorted [OF sw]])
  then show ?thesis by (simp add: sort_and_unique_def)
qed

lemma fold_set_insert:
  "fold (set_insert key) vs t = t\<lparr>body := fold (insert_new (value_comp key t)) vs (body t)\<rparr>"
  by (induction vs arbitrary: t) (simp_all add: set_insert_def)

lemma flat_insert_range_ok:
  assumes ok: "flat_ok key t"
  shows "flat_insert_range key multipass vs t = Inr (fold (set_insert key) vs t)"
proof -
  let ?lt = "value_comp key t"
  consider "vs = []" | v where "multipass" "vs = [v]" | "vs \<noteq> []" "\<not> (multipass \<and> length vs = 1)"
    by (cases vs rule: remdups_adj.cases) auto
  then show ?thesis
  proof cases
    case 2
    then show ?thesis
      using emplace_hint_ok [OF ok, of "flat_end t" v] emplace_key_args_ok [OF ok, of v]
      by (simp add: flat_insert_range_def flat_insert_hint_def)
  next
    case 3
    obtain p where p: "append_range key (length (body t)) vs (length (body t), t) =
        (p, t\<lparr>body := body t @ filter (fresh_in ?lt (body t)) vs\<rparr>)" "p \<le> length (body t)"
      "\<forall>v \<in> set (filter (fresh_in ?lt (body t)) vs). p \<le> length (takeWhile (\<lambda>x. ?lt x v) (body t))"
      using append_range_ok [OF ok, of "length (body t)" vs "[]"] by auto
    have "flat_insert_range key multipass vs t = Inr (t\<lparr>body := take p (body t) @
        merge ?lt (drop p (body t)) (firsts ?lt (stable_sort ?lt (filter (fresh_in ?lt (body t)) vs)))\<rparr>)"
      using 3 p(1,2) flat_ok_D(1) [OF ok]
      by (auto simp: flat_insert_range_def flat_end_def sort_and_unique_ok drop_take Let_def)
    then show ?thesis
      unfolding fold_set_insert using batch_body [OF flat_ok_D(2,3) [OF ok] p(3)] by simp
  qed (simp add: flat_insert_range_def)
qed

lemma flat_from_ok:
  assumes "strict_weak c"
  shows "flat_from key c items = fold (set_insert key) items (flat_new c)"
    "flat_ok key (flat_from key c items)"
proof -
  have ok: "flat_ok key (flat_new c)" using assms by (simp add: flat_ok_def flat_new_def)
  have "filter (fresh_in (value_comp key (flat_new c)) []) items = items"
    by (rule filter_True) (simp add: fresh_in_def)
  then show e: "flat_from key c items = fold (set_insert key) items (flat_new c)"
    using batch_body [OF flat_ok_D(2) [OF ok], of "[]" items 0] assms
    by (simp add: fold_set_insert flat_from_def sort_and_unique_ok flat_new_def value_comp_def [abs_def])
  have "flat_ok key (fold (set_insert key) items t)" if "flat_ok key t" for t
    using that by (induction items arbitrary: t) (simp_all add: set_insert_ok)
  then show "flat_ok key (flat_from key c items)" unfolding e using ok .
qed

end
