(* ===== verification/Flat_Sort.thy ===== *)
theory Flat_Sort
  imports Flat_Order
begin

text \<open>
  The header's insertion sort computes the stable sort: each swap-down puts the next element behind
  the last one that is not greater.
\<close>

section \<open>Swapping down\<close>

definition insert_after :: "('a \<Rightarrow> 'a \<Rightarrow> bool) \<Rightarrow> 'a \<Rightarrow> 'a list \<Rightarrow> 'a list" where
  "insert_after lt v xs = takeWhile (\<lambda>x. \<not> lt v x) xs @ v # dropWhile (\<lambda>x. \<not> lt v x) xs"

lemma insert_after_simps [simp]:
  "insert_after lt v [] = [v]"
  "insert_after lt v (x # xs) = (if lt v x then v # x # xs else x # insert_after lt v xs)"
  by (simp_all add: insert_after_def)

lemma insert_stable_simps [simp]:
  "insert_stable lt v [] = [v]"
  "insert_stable lt v (x # xs) = (if lt x v then x # insert_stable lt v xs else v # x # xs)"
  by (simp_all add: insert_stable_def)

lemma length_insert_after [simp]: "length (insert_after lt v xs) = Suc (length xs)"
  by (induction xs) simp_all

lemma insert_after_snoc_less: "lt v y \<Longrightarrow> insert_after lt v (xs @ [y]) = insert_after lt v xs @ [y]"
  by (induction xs) simp_all

lemma insert_after_end: "\<forall>x \<in> set xs. \<not> lt v x \<Longrightarrow> insert_after lt v xs = xs @ [v]"
  by (induction xs) simp_all

lemma swap_down_insert:
  assumes "strict_weak lt"
  shows "sorted_wrt (\<lambda>a b. \<not> lt b a) xs \<Longrightarrow>
    swap_down lt (length xs) (xs @ v # ys) = insert_after lt v xs @ ys"
proof (induction xs arbitrary: ys rule: rev_induct)
  case (snoc y xs)
  have nth: "(xs @ y # v # ys) ! Suc (length xs) = v" "(xs @ y # v # ys) ! length xs = y"
    by (simp_all add: nth_append)
  have upd: "(xs @ y # v # ys)[Suc (length xs) := y, length xs := v] = xs @ v # y # ys"
    by (simp add: list_update_append)
  show ?case
  proof (cases "lt v y")
    case True
    then show ?thesis
      using snoc upd nth by (simp add: sorted_wrt_append insert_after_snoc_less)
  next
    case False
    then have "\<forall>x \<in> set (xs @ [y]). \<not> lt v x"
      using snoc.prems sw_le_trans [OF assms, of y _ v] by (auto simp: sorted_wrt_append)
    then show ?thesis using False nth by (simp add: insert_after_end del: set_append)
  qed
qed simp

section \<open>The whole sort\<close>

lemma insert_after_stable:
  assumes "strict_weak lt"
  shows "insert_after lt a (insert_stable lt b xs) = insert_stable lt b (insert_after lt a xs)"
proof (induction xs)
  case (Cons y ys)
  have "lt a b" if "lt a y" "lt y b" using sw_trans [OF assms] that by blast
  moreover have "\<not> lt a b" if "\<not> lt a y" "\<not> lt y b" using sw_le_trans [OF assms] that by blast
  ultimately show ?case using Cons by auto
qed auto

lemma stable_sort_snoc:
  assumes "strict_weak lt"
  shows "stable_sort lt (xs @ [v]) = insert_after lt v (stable_sort lt xs)"
  by (induction xs) (simp_all add: stable_sort_def insert_after_stable [OF assms])

lemma length_insert_stable: "length (insert_stable lt v xs) = Suc (length xs)"
  by (induction xs) simp_all

lemma length_stable_sort [simp]: "length (stable_sort lt xs) = length xs"
  by (induction xs) (simp_all add: stable_sort_def length_insert_stable)

lemma swap_down_all:
  assumes "strict_weak lt" "n \<le> length xs"
  shows "fold (swap_down lt) [0..<n] xs = stable_sort lt (take n xs) @ drop n xs"
  using assms(2)
proof (induction n)
  case (Suc n)
  have x: "drop n xs = xs ! n # drop (Suc n) xs" "take (Suc n) xs = take n xs @ [xs ! n]"
    using Suc.prems by (simp_all add: Cons_nth_drop_Suc take_Suc_conv_app_nth)
  have "swap_down lt n (stable_sort lt (take n xs) @ xs ! n # drop (Suc n) xs) =
      insert_after lt (xs ! n) (stable_sort lt (take n xs)) @ drop (Suc n) xs"
    using swap_down_insert [OF assms(1) stable_sort_sorted [OF assms(1)], of "take n xs" "xs ! n" "drop (Suc n) xs"]
      Suc.prems by simp
  then show ?case using Suc x by (simp add: stable_sort_snoc [OF assms(1)])
qed (simp add: stable_sort_def)

lemma InsertionSort_eq: "strict_weak lt \<Longrightarrow> InsertionSort lt xs = stable_sort lt xs"
proof (cases xs)
  case (Cons y ys)
  assume sw: "strict_weak lt"
  have "[0..<length xs] = 0 # [1..<length xs]" using upt_conv_Cons [of 0 "length xs"] Cons by (simp del: upt_Suc)
  then show ?thesis using swap_down_all [OF sw, of "length xs" xs] by (simp add: InsertionSort_def)
qed (simp add: InsertionSort_def stable_sort_def)

lemma filter_insert_stable:
  assumes "strict_weak lt"
  shows "filter (equivalent lt w) (insert_stable lt v xs) = filter (equivalent lt w) (v # xs)"
proof -
  have "filter (equivalent lt w) (takeWhile (\<lambda>x. lt x v) xs) = []" if e: "equivalent lt w v"
  proof (rule filter_False, rule ballI)
    fix x assume "x \<in> set (takeWhile (\<lambda>x. lt x v) xs)"
    then have "lt x v" by (blast dest: set_takeWhileD)
    then show "\<not> equivalent lt w x"
      using equivalent_trans [OF assms, of x w v] e by (auto simp: equivalent_def)
  qed
  then show ?thesis
    unfolding insert_stable_def
    by (metis (no_types, lifting) append_Nil filter.simps(2) filter_append takeWhile_dropWhile_id)
qed

lemma filter_stable_sort:
  assumes "strict_weak lt"
  shows "filter (equivalent lt w) (stable_sort lt xs) = filter (equivalent lt w) xs"
proof (induction xs)
  case (Cons x xs)
  have "stable_sort lt (x # xs) = insert_stable lt x (stable_sort lt xs)" by (simp add: stable_sort_def)
  then show ?case using Cons filter_insert_stable [OF assms] by simp
qed (simp add: stable_sort_def)

end
