(* ===== verification/Flat_Map.thy ===== *)
theory Flat_Map
  imports Flat_Batch Flat_Sort
begin

text \<open>
  The properties of the flat containers: a batch is the insertion of its values one at a time, a
  fixed container is the one its items build, and a flat map is a finite map.
\<close>

section \<open>One place for each key\<close>

text \<open>The tree around the place of \<open>k\<close>: \<open>mid\<close> holds the element equivalent to it, or nothing.\<close>

definition placed :: "('v \<Rightarrow> 'k) \<Rightarrow> 'k \<Rightarrow> ('k, 'v) flat_tree \<Rightarrow> 'v list \<Rightarrow> 'v list \<Rightarrow> 'v list \<Rightarrow> bool" where
  "placed key k t lo mid hi \<longleftrightarrow> body t = lo @ mid @ hi \<and> lower_bound key k t = length lo \<and>
     (\<forall>x \<in> set lo. comp t (key x) k) \<and> (\<forall>x \<in> set hi. comp t k (key x)) \<and>
     (\<forall>x \<in> set mid. equivalent (comp t) (key x) k) \<and> length mid = (if key_in key k t then 1 else 0)"

lemma flat_place:
  assumes "flat_ok key t"
  obtains lo mid hi where "placed key k t lo mid hi"
  using assms
proof (cases rule: flat_cases [of key t k])
  case (absent lo hi)
  then have "\<not> key_in key k t" using flat_ok_D(1) [OF assms] by (auto simp: key_in_def)
  then show thesis using that [of lo "[]" hi] absent by (simp add: placed_def)
next
  case (present lo x hi)
  then have "key_in key k t" by (auto simp: key_in_def)
  then show thesis using that [of lo "[x]" hi] present by (simp add: placed_def)
qed

text \<open>Whatever stands at the place of \<open>k\<close> keeps the order.\<close>

lemma placed_ok:
  assumes ok: "flat_ok key t" and p: "placed key k t lo mid hi"
  shows "flat_ok key (t\<lparr>body := lo @ hi\<rparr>)"
    "equivalent (comp t) (key y) k \<Longrightarrow> flat_ok key (t\<lparr>body := lo @ y # hi\<rparr>)"
proof -
  note sw = flat_ok_D(1) [OF ok]
  have parts: "sorted_wrt (value_comp key t) lo" "sorted_wrt (value_comp key t) hi"
    "\<forall>a \<in> set lo. \<forall>b \<in> set hi. value_comp key t a b"
    using flat_ok_D(3) [OF ok] p by (simp_all add: placed_def sorted_wrt_append)
  then show "flat_ok key (t\<lparr>body := lo @ hi\<rparr>)" using sw by (simp add: sorted_wrt_append)
  assume "equivalent (comp t) (key y) k"
  from equivalent_less [OF sw this]
  have "\<forall>x \<in> set lo. value_comp key t x y" "\<forall>x \<in> set hi. value_comp key t y x"
    using p by (simp_all add: placed_def value_comp_def)
  then show "flat_ok key (t\<lparr>body := lo @ y # hi\<rparr>)" using parts sw by (simp add: sorted_wrt_append)
qed

section \<open>A flat map as a finite map\<close>

fun place_value :: "('k \<times> 'm) list \<Rightarrow> 'm option" where
  "place_value [] = None"
| "place_value (x # xs) = Some (snd x)"

definition map_lookup :: "('k, 'm) flat_map \<Rightarrow> 'k \<Rightarrow> 'm option" where
  "map_lookup t k = place_value (filter (\<lambda>x. equivalent (comp t) (fst x) k) (body t))"

lemma lookup_around:
  assumes sw: "strict_weak (comp t)" and p: "placed fst k t lo mid hi"
    and new: "\<forall>x \<in> set new. equivalent (comp t) (fst x) k"
  shows "map_lookup (t\<lparr>body := lo @ new @ hi\<rparr>) k' =
    (if equivalent (comp t) k k' then place_value new else map_lookup t k')"
proof (cases "equivalent (comp t) k k'")
  case True
  have same: "equivalent (comp t) a k' \<longleftrightarrow> equivalent (comp t) a k" for a
    using True equivalent_trans [OF sw] equivalent_sym by metis
  have "filter (\<lambda>x. equivalent (comp t) (fst x) k') lo = []" "filter (\<lambda>x. equivalent (comp t) (fst x) k') hi = []"
    "filter (\<lambda>x. equivalent (comp t) (fst x) k') new = new"
    unfolding same using sw p new by (auto simp: placed_def filter_empty_conv intro!: filter_True)
  then show ?thesis using True by (simp add: map_lookup_def)
next
  case False
  then have none: "filter (\<lambda>x. equivalent (comp t) (fst x) k') xs = []"
    if "\<forall>x \<in> set xs. equivalent (comp t) (fst x) k" for xs
    using that equivalent_trans [OF sw] equivalent_sym by (metis filter_False)
  have "\<forall>x \<in> set mid. equivalent (comp t) (fst x) k" "body t = lo @ mid @ hi" using p by (simp_all add: placed_def)
  then show ?thesis using False none [of mid] none [OF new] by (simp add: map_lookup_def)
qed

lemma map_lookup_cong:
  assumes "strict_weak (comp t)" "equivalent (comp t) k k'"
  shows "map_lookup t k = map_lookup t k'"
proof -
  have "equivalent (comp t) a k \<longleftrightarrow> equivalent (comp t) a k'" for a
    using assms(2) equivalent_trans [OF assms(1)] equivalent_sym by metis
  then show ?thesis by (simp add: map_lookup_def)
qed

lemma lookup_placed:
  assumes "strict_weak (comp t)" "placed fst k t lo mid hi"
  shows "map_lookup t k = place_value mid"
proof -
  have "t = t\<lparr>body := lo @ mid @ hi\<rparr>" using assms(2) by (simp add: placed_def)
  then have "map_lookup t k = map_lookup (t\<lparr>body := lo @ mid @ hi\<rparr>) k" by (rule arg_cong)
  then show ?thesis
    using lookup_around [OF assms, of mid k] assms(2) equivalent_refl [OF assms(1)] by (simp add: placed_def)
qed

section \<open>The operations of the map\<close>

lemma key_in_lookup:
  assumes "flat_ok fst t"
  shows "key_in fst k t \<longleftrightarrow> map_lookup t k \<noteq> None"
proof -
  obtain lo mid hi where p: "placed fst k t lo mid hi" by (rule flat_place [OF assms])
  then show ?thesis
    using lookup_placed [OF flat_ok_D(1) [OF assms] p] by (cases mid) (auto simp: placed_def split: if_splits)
qed

lemma map_at_ok:
  assumes ok: "flat_ok fst t"
  shows "map_at k t = (case map_lookup t k of None \<Rightarrow> Inl Check_failed | Some m \<Rightarrow> Inr m)"
proof -
  obtain lo mid hi where p: "placed fst k t lo mid hi" by (rule flat_place [OF ok])
  then show ?thesis
    using lookup_placed [OF flat_ok_D(1) [OF ok] p] by (cases mid)
      (auto simp: placed_def map_at_def flat_find_def equal_range_eq [OF ok] flat_end_def split: if_splits)
qed

lemma set_insert_present: "key_in key (key v) t \<Longrightarrow> set_insert key v t = t"
  by (simp add: set_insert_def insert_new_def key_in_fresh)

lemma emplace_pair:
  assumes ok: "flat_ok fst t" and p: "placed fst k t lo mid hi"
  shows "emplace_key_args fst k (k, m) t = Inr ((length lo, \<not> key_in fst k t),
    t\<lparr>body := lo @ (if key_in fst k t then mid else [(k, m)]) @ hi\<rparr>)"
proof -
  have "emplace_key_args fst k (k, m) t = Inr ((length lo, \<not> key_in fst k t), set_insert fst (k, m) t)"
    using emplace_key_args_ok [OF ok, of "(k, m)"] p by (simp add: placed_def)
  then show ?thesis
    using set_insert_fresh [OF ok, of "(k, m)"] set_insert_present [of fst "(k, m)" t] p
    by (cases mid) (auto simp: placed_def)
qed

text \<open>Every operation that puts a pair in place has this shape.\<close>

lemma put_around:
  assumes ok: "flat_ok fst t" and p: "placed fst k t lo mid hi" and y: "equivalent (comp t) (fst y) k"
  defines "t' \<equiv> t\<lparr>body := lo @ y # hi\<rparr>"
  shows "length lo < flat_end t'" "body t' ! length lo = y" "flat_ok fst t'" "comp t' = comp t"
    "map_lookup t' = (\<lambda>k'. if equivalent (comp t) k k' then Some (snd y) else map_lookup t k')"
  using lookup_around [OF flat_ok_D(1) [OF ok] p, of "[y]"] placed_ok(2) [OF ok p y] y
  by (auto simp: t'_def flat_end_def simp del: flat_ok_body)

lemma map_insert_or_assign_ok:
  assumes ok: "flat_ok fst t"
  shows "resT (\<lambda>((i, new), t'). new = (map_lookup t k = None) \<and> i < flat_end t' \<and> snd (body t' ! i) = m \<and>
      flat_ok fst t' \<and> comp t' = comp t \<and>
      map_lookup t' = (\<lambda>k'. if equivalent (comp t) k k' then Some m else map_lookup t k'))
    (map_insert_or_assign k m t)"
proof -
  obtain lo mid hi where p: "placed fst k t lo mid hi" by (rule flat_place [OF ok])
  let ?y = "case mid of [] \<Rightarrow> (k, m) | x # _ \<Rightarrow> (fst x, m)"
  have y: "equivalent (comp t) (fst ?y) k" "snd ?y = m"
    using p equivalent_refl [OF flat_ok_D(1) [OF ok]] by (auto simp: placed_def split: list.splits)
  have "map_insert_or_assign k m t = Inr ((length lo, map_lookup t k = None), t\<lparr>body := lo @ ?y # hi\<rparr>)"
    using emplace_pair [OF ok p] p key_in_lookup [OF ok, of k]
    by (cases mid) (auto simp: map_insert_or_assign_def map_assign_at_def placed_def split: if_splits)
  then show ?thesis using put_around [OF ok p y(1)] y(2) by auto
qed

lemma map_index_ok:
  assumes ok: "flat_ok fst t"
  shows "resT (\<lambda>(i, t'). i < flat_end t' \<and> Some (snd (body t' ! i)) = map_lookup t' k \<and>
      flat_ok fst t' \<and> comp t' = comp t \<and>
      map_lookup t' = (\<lambda>k'. if equivalent (comp t) k k' \<and> map_lookup t k = None then Some m else map_lookup t k'))
    (map_index m k t)"
proof -
  obtain lo mid hi where p: "placed fst k t lo mid hi" by (rule flat_place [OF ok])
  let ?y = "case mid of [] \<Rightarrow> (k, m) | x # _ \<Rightarrow> x"
  let ?t' = "t\<lparr>body := lo @ ?y # hi\<rparr>"
  note sw = flat_ok_D(1) [OF ok]
  have y: "equivalent (comp t) (fst ?y) k"
    using p equivalent_refl [OF sw] by (auto simp: placed_def split: list.splits)
  have e: "map_index m k t = Inr (length lo, ?t')"
    using lower_bound_key_in [OF ok, of k] p
    by (cases mid) (auto simp: map_index_def Let_def unsafe_emplace_def flat_end_def placed_def split: if_splits)
  have snd: "Some (snd ?y) = (if map_lookup t k = None then Some m else map_lookup t k)"
    using lookup_placed [OF sw p] by (cases mid) auto
  note around = put_around [OF ok p y]
  have l: "map_lookup ?t' =
      (\<lambda>k'. if equivalent (comp t) k k' \<and> map_lookup t k = None then Some m else map_lookup t k')"
  proof (rule ext)
    fix k'
    show "map_lookup ?t' k' =
        (if equivalent (comp t) k k' \<and> map_lookup t k = None then Some m else map_lookup t k')"
      unfolding around(5) snd using map_lookup_cong [OF sw, of k k'] by (cases "equivalent (comp t) k k'") simp_all
  qed
  show ?thesis
    unfolding e resT_Inr case_prod_conv
  proof (intro conjI)
    show "Some (snd (body ?t' ! length lo)) = map_lookup ?t' k"
      unfolding around(2) unfolding around(5) using equivalent_refl [OF sw, of k] by simp
  qed (rule around(1,3,4) l)+
qed

lemma flat_erase_key_ok:
  assumes ok: "flat_ok fst t"
  shows "resT (\<lambda>(n, t'). n = (if map_lookup t k = None then 0 else 1) \<and> flat_ok fst t' \<and> comp t' = comp t \<and>
      map_lookup t' = (\<lambda>k'. if equivalent (comp t) k k' then None else map_lookup t k'))
    (flat_erase_key fst k t)"
proof -
  obtain lo mid hi where p: "placed fst k t lo mid hi" by (rule flat_place [OF ok])
  have "flat_erase_key fst k t = Inr (if map_lookup t k = None then 0 else 1, t\<lparr>body := lo @ hi\<rparr>)"
    using p key_in_lookup [OF ok, of k]
    by (simp add: placed_def flat_erase_key_def equal_range_eq [OF ok] flat_erase_range_def flat_end_def)
  moreover have "map_lookup (t\<lparr>body := lo @ hi\<rparr>) k' = (if equivalent (comp t) k k' then None else map_lookup t k')" for k'
    using lookup_around [OF flat_ok_D(1) [OF ok] p, of "[]" k'] by simp
  ultimately show ?thesis using placed_ok(1) [OF ok p] by auto
qed

end
