(* ===== verification/Flat_Containers.thy ===== *)
theory Flat_Containers
  imports Flat_Map
begin

text \<open>
  The two properties of the flat containers: every way to put values in gives the same tree, and a
  flat map is a finite map, under the interface of ordered maps when keys are compared by \<open><\<close>.
\<close>

section \<open>Every way to put values in\<close>

text \<open>\<open>insert\<close> for each value of a range, in order.\<close>

fun insert_each :: "('v \<Rightarrow> 'k) \<Rightarrow> 'v list \<Rightarrow> ('k, 'v) flat_tree \<Rightarrow> ('k, 'v) flat_tree res" where
  "insert_each key [] t = Inr t"
| "insert_each key (v # vs) t = bindR (flat_insert key v t) (\<lambda>(_, t). insert_each key vs t)"

lemma insert_each_fold:
  "flat_ok key t \<Longrightarrow> insert_each key vs t = Inr (fold (set_insert key) vs t) \<and> flat_ok key (fold (set_insert key) vs t)"
  by (induction vs arbitrary: t) (simp_all add: flat_insert_def emplace_key_args_ok set_insert_ok)

definition all_different :: "('v \<Rightarrow> 'k) \<Rightarrow> ('k \<Rightarrow> 'k \<Rightarrow> bool) \<Rightarrow> 'v list \<Rightarrow> bool" where
  "all_different key c vs \<longleftrightarrow> sorted_wrt (\<lambda>a b. \<not> equivalent c (key a) (key b)) vs"

lemma pairwise_iff:
  assumes "strict_weak lt"
  shows "sorted_wrt (\<lambda>a b. \<not> equivalent lt a b) xs \<longleftrightarrow> (\<forall>w. length (filter (equivalent lt w) xs) \<le> 1)"
proof (induction xs)
  case (Cons x xs)
  show ?case
  proof
    assume x: "sorted_wrt (\<lambda>a b. \<not> equivalent lt a b) (x # xs)"
    have "filter (equivalent lt w) xs = []" if "equivalent lt w x" for w
    proof (rule filter_False, rule ballI)
      fix y assume "y \<in> set xs"
      then have "\<not> equivalent lt x y" using x by simp
      then show "\<not> equivalent lt w y" using that equivalent_trans [OF assms, of x w y] equivalent_sym [of lt x w] by blast
    qed
    moreover have "length (filter (equivalent lt w) xs) \<le> 1" for w using Cons x by simp
    ultimately show "\<forall>w. length (filter (equivalent lt w) (x # xs)) \<le> 1" by simp
  next
    assume a: "\<forall>w. length (filter (equivalent lt w) (x # xs)) \<le> 1"
    have "length (filter (equivalent lt w) xs) \<le> 1" for w
      using spec [OF a, of w] by (simp split: if_splits)
    moreover have "filter (equivalent lt x) xs = []"
      using spec [OF a, of x] equivalent_refl [OF assms] by simp
    ultimately show "sorted_wrt (\<lambda>a b. \<not> equivalent lt a b) (x # xs)"
      using Cons by (simp add: filter_empty_conv)
  qed
qed simp

lemma sorted_all_different:
  assumes "strict_weak lt"
  shows "sorted_wrt (\<lambda>a b. \<not> lt b a) xs \<Longrightarrow>
    sorted_wrt lt xs \<longleftrightarrow> sorted_wrt (\<lambda>a b. \<not> equivalent lt a b) xs"
  using sw_asym [OF assms] by (induction xs) (auto simp: equivalent_def)

lemma stable_sort_strict:
  assumes "strict_weak lt"
  shows "sorted_wrt lt (stable_sort lt xs) \<longleftrightarrow> sorted_wrt (\<lambda>a b. \<not> equivalent lt a b) xs"
  unfolding sorted_all_different [OF assms stable_sort_sorted [OF assms]] pairwise_iff [OF assms]
    filter_stable_sort [OF assms] ..

lemma firsts_id: "strict_weak lt \<Longrightarrow> sorted_wrt lt xs \<Longrightarrow> firsts lt xs = xs"
  by (induction xs) (simp_all add: filter_id_conv)

lemma MakeFixedFlat_ok:
  assumes "strict_weak c"
  shows "MakeFixedFlat d key c data =
    (if all_different key c data then Inr (flat_from key c data) else Inl Check_failed)"
proof -
  let ?lt = "value_comp key \<lparr>comp = c, body = []\<rparr>"
  have any: "value_comp key \<lparr>comp = c, body = b\<rparr> = ?lt" for b by (simp add: value_comp_def fun_eq_iff)
  have sw: "strict_weak ?lt" using value_comp_strict_weak [of "\<lparr>comp = c, body = []\<rparr>" key] assms by simp
  have "all_different key c data \<longleftrightarrow> sorted_wrt ?lt (stable_sort ?lt data)"
    unfolding stable_sort_strict [OF sw] by (simp add: all_different_def equivalent_def value_comp_def)
  moreover have "MakeFixedFlat d key c data =
      (if sorted_wrt ?lt (stable_sort ?lt data) then Inr \<lparr>comp = c, body = stable_sort ?lt data\<rparr> else Inl Check_failed)"
    using is_sorted_and_unique_iff [OF sw, of "stable_sort ?lt data"] any [of "stable_sort ?lt data"]
    by (simp add: MakeFixedFlat_def Let_def InsertionSort_eq [OF sw] flat_from_sorted_def)
  moreover have "flat_from key c data = \<lparr>comp = c, body = firsts ?lt (stable_sort ?lt data)\<rparr>"
    using sort_and_unique_ok [of "\<lparr>comp = c, body = data\<rparr>" key 0] any [of data] assms
    by (simp add: flat_from_def)
  ultimately show ?thesis using firsts_id [OF sw, of "stable_sort ?lt data"] by simp
qed

text \<open>
  C30.  Inserting a range, by whatever iterators, is inserting its values one at a time, and never
  faults; a hint, right or wrong, does not change the result; building a tree from
  unsorted items, or assigning them, is inserting them into an empty one; and a fixed container is
  built, by the header's own sort, exactly when no two keys are equivalent, and is then that tree.
\<close>

theorem flat_inserts:
  assumes "flat_ok key t"
  shows "flat_insert_range key multipass vs t = insert_each key vs t \<and>
    resT (flat_ok key) (insert_each key vs t) \<and>
    (hint \<le> flat_end t \<longrightarrow>
      flat_insert_hint key hint v t = bindR (flat_insert key v t) (\<lambda>((i, _), t'). Inr (i, t'))) \<and>
    insert_each key vs (flat_new (comp t)) = Inr (flat_from key (comp t) vs) \<and>
    flat_assign key vs t = flat_from key (comp t) vs \<and>
    MakeFixedFlat d key (comp t) vs =
      (if all_different key (comp t) vs then Inr (flat_from key (comp t) vs) else Inl Check_failed)"
proof -
  note sw = flat_ok_D(1) [OF assms]
  have new: "flat_ok key (flat_new (comp t))" using sw by (simp add: flat_ok_def flat_new_def)
  have "flat_assign key vs t = flat_from key (comp t) vs"
    by (cases t) (simp add: flat_assign_def flat_from_def sort_and_unique_def value_comp_def [abs_def])
  then show ?thesis
    using insert_each_fold [OF assms, of vs] insert_each_fold [OF new, of vs] flat_from_ok [OF sw, of key vs]
    by (simp add: flat_insert_range_ok [OF assms] emplace_hint_ok [OF assms] MakeFixedFlat_ok [OF sw]
        flat_insert_hint_def flat_insert_def)
qed

definition by_key :: "(nat \<times> nat) list \<Rightarrow> (nat, nat \<times> nat) flat_tree" where
  "by_key b = \<lparr>comp = (<), body = b\<rparr>"

lemma by_key_ok: "sorted_wrt (\<lambda>a b. fst a < fst b) b \<Longrightarrow> flat_ok fst (by_key b)"
  by (auto simp: flat_ok_def by_key_def strict_weak_def total_preorder_def value_comp_def [abs_def])

lemma flat_inserts_witness:
  "flat_insert_range fst True [(5, 0), (1, 7), (3, 9), (1, 8)] (by_key [(3, 2)]) =
     Inr (by_key [(1, 7), (3, 2), (5, 0)])"
proof -
  have ok: "flat_ok fst (by_key [(3, 2)])" by (rule by_key_ok) simp
  have "insert_each fst [(5, 0), (1, 7), (3, 9), (1, 8)] (by_key [(3, 2)]) = Inr (by_key [(1, 7), (3, 2), (5, 0)])"
    by (simp add: flat_insert_def emplace_key_args_def lower_bound_def partition_search.simps by_key_def
        flat_end_def unsafe_emplace_def Let_def)
  then show ?thesis
    using flat_inserts [OF ok, of True "[(5, 0), (1, 7), (3, 9), (1, 8)]" 0 "(0, 0)" True] by simp
qed

section \<open>A flat map is a finite map\<close>

lemma map_index_try: "map_index m k t = bindR (try_emplace k m t) (\<lambda>((i, _), t'). Inr (i, t'))"
  by (auto simp: map_index_def try_emplace_def emplace_key_args_def unsafe_emplace_def Let_def)

lemma map_hint_ok:
  assumes "flat_ok fst t" "hint \<le> flat_end t"
  shows "map_insert_or_assign_hint hint k m t = bindR (map_insert_or_assign k m t) (\<lambda>((i, _), t'). Inr (i, t'))"
    "try_emplace_hint hint k m t = bindR (try_emplace k m t) (\<lambda>((i, _), t'). Inr (i, t'))"
  using emplace_hint_ok [OF assms, of "(k, m)"] emplace_key_args_ok [OF assms(1), of "(k, m)"]
  by (simp_all add: map_insert_or_assign_hint_def map_insert_or_assign_def try_emplace_hint_def try_emplace_def)

text \<open>
  C31.  A flat map is a finite map over the classes of its comparison: \<open>at\<close> returns what is stored and
  stops the process when there is nothing; \<open>insert_or_assign\<close> stores, says whether the key is new and
  returns the place; \<open>operator[]\<close> and \<open>try_emplace\<close> store only when there is nothing; \<open>erase\<close> removes
  and counts; each keeps the order, none faults, and a valid hint changes nothing.
\<close>

theorem flat_map_refines:
  assumes "flat_ok fst t"
  shows "map_at k t = (case map_lookup t k of None \<Rightarrow> Inl Check_failed | Some m' \<Rightarrow> Inr m') \<and>
    resT (\<lambda>((i, new), t'). new = (map_lookup t k = None) \<and> i < flat_end t' \<and> snd (body t' ! i) = m \<and>
        flat_ok fst t' \<and> comp t' = comp t \<and>
        map_lookup t' = (\<lambda>k'. if equivalent (comp t) k k' then Some m else map_lookup t k'))
      (map_insert_or_assign k m t) \<and>
    resT (\<lambda>(i, t'). i < flat_end t' \<and> Some (snd (body t' ! i)) = map_lookup t' k \<and>
        flat_ok fst t' \<and> comp t' = comp t \<and>
        map_lookup t' = (\<lambda>k'. if equivalent (comp t) k k' \<and> map_lookup t k = None then Some m else map_lookup t k'))
      (map_index m k t) \<and>
    resT (\<lambda>(n, t'). n = (if map_lookup t k = None then 0 else 1) \<and> flat_ok fst t' \<and> comp t' = comp t \<and>
        map_lookup t' = (\<lambda>k'. if equivalent (comp t) k k' then None else map_lookup t k'))
      (flat_erase_key fst k t) \<and>
    map_index m k t = bindR (try_emplace k m t) (\<lambda>((i, _), t'). Inr (i, t')) \<and>
    (hint \<le> flat_end t \<longrightarrow>
      map_insert_or_assign_hint hint k m t = bindR (map_insert_or_assign k m t) (\<lambda>((i, _), t'). Inr (i, t')) \<and>
      try_emplace_hint hint k m t = bindR (try_emplace k m t) (\<lambda>((i, _), t'). Inr (i, t')))"
  using map_at_ok [OF assms] map_insert_or_assign_ok [OF assms] map_index_ok [OF assms]
    flat_erase_key_ok [OF assms] map_index_try map_hint_ok [OF assms]
  by (intro conjI impI)

text \<open>With keys compared by \<open><\<close>, a flat map provides the interface of ordered maps.\<close>

definition flat_put :: "'k::linorder \<Rightarrow> 'm \<Rightarrow> ('k, 'm) flat_map \<Rightarrow> ('k, 'm) flat_map" where
  "flat_put k m t = (case map_insert_or_assign k m t of Inl _ \<Rightarrow> t | Inr (_, t') \<Rightarrow> t')"

definition flat_drop :: "'k::linorder \<Rightarrow> ('k, 'm) flat_map \<Rightarrow> ('k, 'm) flat_map" where
  "flat_drop k t = (case flat_erase_key fst k t of Inl _ \<Rightarrow> t | Inr (_, t') \<Rightarrow> t')"

definition flat_linear :: "('k::linorder, 'm) flat_map \<Rightarrow> bool" where
  "flat_linear t \<longleftrightarrow> flat_ok fst t \<and> comp t = (<)"

lemma equivalent_less_eq [simp]: "equivalent (<) a b \<longleftrightarrow> a = (b :: 'k::linorder)"
  by (auto simp: equivalent_def)

interpretation fm: ordered_map flat_put flat_drop map_lookup flat_linear
proof
  fix t :: "('k::linorder, 'm) flat_map" and k m
  assume t: "flat_linear t"
  then have ok: "flat_ok fst t" and c: "comp t = (<)" by (simp_all add: flat_linear_def)
  show "map_lookup (flat_put k m t) = (map_lookup t)(k \<mapsto> m)" "flat_linear (flat_put k m t)"
    using map_insert_or_assign_ok [OF ok, of k m] c by (auto simp: flat_put_def flat_linear_def resT_iff)
  show "map_lookup (flat_drop k t) = (map_lookup t)(k := None)" "flat_linear (flat_drop k t)"
    using flat_erase_key_ok [OF ok, of k] c by (auto simp: flat_drop_def flat_linear_def resT_iff)
qed

lemma flat_map_filled:
  fixes kvs :: "('k::linorder \<times> 'm) list"
  shows "map_lookup (foldr (\<lambda>(k, m). flat_put k m) kvs (flat_new (<))) = map_of kvs"
proof -
  have "flat_linear (flat_new (<) :: ('k::linorder, 'm) flat_map)"
    by (auto simp: flat_linear_def flat_ok_def flat_new_def strict_weak_def total_preorder_def)
  moreover have "map_lookup (flat_new (<) :: ('k::linorder, 'm) flat_map) = Map.empty"
    by (simp add: map_lookup_def flat_new_def fun_eq_iff)
  ultimately show ?thesis using fm.foldr_put [of "flat_new (<)" kvs] by simp
qed

lemma flat_map_refines_witness:
  "map_at 3 (by_key [(1, 7), (3, 2)]) = Inr 2 \<and> map_at 2 (by_key [(1, 7), (3, 2)]) = Inl Check_failed"
proof -
  have ok: "flat_ok fst (by_key [(1, 7), (3, 2)])" by (rule by_key_ok) simp
  show ?thesis
    using flat_map_refines [OF ok, of 3 0 0] flat_map_refines [OF ok, of 2 0 0]
    by (simp add: map_lookup_def by_key_def)
qed

end
