(* ===== verification/Circular_Deque.thy ===== *)
theory Circular_Deque
  imports Prelude
begin

text \<open>
  The ring of base/containers/circular_deque.h on the raw memory of vector_buffer.h.  A cell is \<open>None\<close>
  while it holds no object: reading, moving or destroying it is a fault.  \<open>d\<close> says whether the build has
  \<open>DCHECK\<close>s, \<open>sz\<close> is the size of the element type.  \<open>malloc\<close> is taken to succeed.  The element type is one
  with a destructor; of a type without one nothing is destroyed.
\<close>

section \<open>VectorBuffer\<close>

type_synonym 'a dq_cells = "'a option list"

definition VectorBuffer_new :: "nat \<Rightarrow> nat \<Rightarrow> 'a dq_cells res" where
  "VectorBuffer_new sz count = (if sz * count < 2 ^ 64 then Inr (replicate count None) else Inl Check_failed)"

text \<open>\<open>operator[]\<close> allows the place past the end; using an object there is another matter.\<close>

definition cell_index :: "'a dq_cells \<Rightarrow> nat \<Rightarrow> unit res" where
  "cell_index b i = (if i \<le> length b then Inr () else Inl Check_failed)"

definition cell_read :: "nat \<Rightarrow> 'a dq_cells \<Rightarrow> 'a res" where
  "cell_read i b =
     bindR (cell_index b i) (\<lambda>_.
       if i < length b then (case b ! i of Some x \<Rightarrow> Inr x | None \<Rightarrow> Inl Bad_memory) else Inl Bad_memory)"

text \<open>Placement new.\<close>

definition cell_new :: "nat \<Rightarrow> 'a \<Rightarrow> 'a dq_cells \<Rightarrow> 'a dq_cells res" where
  "cell_new i x b =
     bindR (cell_index b i) (\<lambda>_. if i < length b then Inr (b[i := Some x]) else Inl Bad_memory)"

fun destroy_cells :: "nat \<Rightarrow> nat \<Rightarrow> 'a dq_cells \<Rightarrow> 'a dq_cells res" where
  "destroy_cells 0 i b = Inr b"
| "destroy_cells (Suc n) i b =
     (if i < length b \<and> b ! i \<noteq> None then destroy_cells n (Suc i) (b[i := None]) else Inl Bad_memory)"

definition buf_DestructRange :: "nat \<Rightarrow> nat \<Rightarrow> 'a dq_cells \<Rightarrow> 'a dq_cells res" where
  "buf_DestructRange i j b =
     bindR (cell_index b i) (\<lambda>_. bindR (cell_index b j) (\<lambda>_.
       if i \<le> j then destroy_cells (j - i) i b else Inl Check_failed))"

text \<open>\<open>MoveRange\<close> of \<open>n\<close> objects to another buffer, and of one object within a buffer.\<close>

fun move_cells :: "nat \<Rightarrow> nat \<Rightarrow> nat \<Rightarrow> 'a dq_cells \<Rightarrow> 'a dq_cells \<Rightarrow> ('a dq_cells \<times> 'a dq_cells) res" where
  "move_cells 0 i k from to = Inr (from, to)"
| "move_cells (Suc n) i k from to =
     (if i < length from \<and> from ! i \<noteq> None \<and> k < length to
      then move_cells n (Suc i) (Suc k) (from[i := None]) (to[k := from ! i]) else Inl Bad_memory)"

definition move_cell :: "nat \<Rightarrow> nat \<Rightarrow> 'a dq_cells \<Rightarrow> 'a dq_cells res" where
  "move_cell i k b =
     bindR (cell_index b i) (\<lambda>_. bindR (cell_index b (i + 1)) (\<lambda>_. bindR (cell_index b k) (\<lambda>_.
       if k = i then Inl Check_failed
       else if b ! i \<noteq> None \<and> k < length b then Inr (b[k := b ! i, i := None]) else Inl Bad_memory)))"

section \<open>The deque and its iterators\<close>

record 'a deque =
  dq_buffer :: "'a dq_cells"
  dq_begin :: nat
  dq_end :: nat
  dq_generation :: nat

abbreviation dq_cap :: "'a deque \<Rightarrow> nat" where
  "dq_cap q \<equiv> length (dq_buffer q)"

definition dq_new :: "'a deque" where
  "dq_new = \<lparr>dq_buffer = [], dq_begin = 0, dq_end = 0, dq_generation = 0\<rparr>"

definition dq_capacity :: "'a deque \<Rightarrow> nat" where
  "dq_capacity q = (if dq_cap q = 0 then 0 else dq_cap q - 1)"

definition dq_empty :: "'a deque \<Rightarrow> bool" where
  "dq_empty q = (dq_begin q = dq_end q)"

definition dq_size :: "'a deque \<Rightarrow> nat" where
  "dq_size q = (if dq_begin q \<le> dq_end q then dq_end q - dq_begin q else dq_cap q - dq_begin q + dq_end q)"

definition IncrementGeneration :: "bool \<Rightarrow> 'a deque \<Rightarrow> 'a deque" where
  "IncrementGeneration d q = (if d then q\<lparr>dq_generation := (dq_generation q + 1) mod 2 ^ 64\<rparr> else q)"

definition CheckValidIndex :: "bool \<Rightarrow> nat \<Rightarrow> 'a deque \<Rightarrow> unit res" where
  "CheckValidIndex d i q =
     dcheck d (if dq_begin q \<le> dq_end q then i \<ge> dq_begin q \<and> i < dq_end q
               else i \<ge> dq_begin q \<and> i < dq_cap q \<or> i < dq_end q) ()"

definition CheckValidIndexOrEnd :: "bool \<Rightarrow> nat \<Rightarrow> 'a deque \<Rightarrow> unit res" where
  "CheckValidIndexOrEnd d i q = (if i \<noteq> dq_end q then CheckValidIndex d i q else Inr ())"

record dq_iter =
  it_index :: nat
  it_generation :: nat

definition dq_iterator :: "'a deque \<Rightarrow> nat \<Rightarrow> dq_iter" where
  "dq_iterator q i = \<lparr>it_index = i, it_generation = dq_generation q\<rparr>"

definition begin_it :: "'a deque \<Rightarrow> dq_iter" where
  "begin_it q = dq_iterator q (dq_begin q)"

definition end_it :: "'a deque \<Rightarrow> dq_iter" where
  "end_it q = dq_iterator q (dq_end q)"

text \<open>The deque an iterator belongs to is the one it is used with.\<close>

definition CheckUnstableUsage :: "bool \<Rightarrow> dq_iter \<Rightarrow> 'a deque \<Rightarrow> unit res" where
  "CheckUnstableUsage d it q = dcheck d (it_generation it = dq_generation q) ()"

definition CheckComparable :: "bool \<Rightarrow> dq_iter \<Rightarrow> dq_iter \<Rightarrow> unit res" where
  "CheckComparable d x y = dcheck d (it_generation x = it_generation y) ()"

definition OffsetFromBegin :: "dq_iter \<Rightarrow> 'a deque \<Rightarrow> nat" where
  "OffsetFromBegin it q =
     (if it_index it \<ge> dq_begin q then it_index it - dq_begin q else dq_cap q - dq_begin q + it_index it)"

definition it_deref :: "bool \<Rightarrow> dq_iter \<Rightarrow> 'a deque \<Rightarrow> 'a res" where
  "it_deref d it q =
     bindR (CheckUnstableUsage d it q) (\<lambda>_. bindR (CheckValidIndex d (it_index it) q) (\<lambda>_.
       cell_read (it_index it) (dq_buffer q)))"

definition it_eq :: "bool \<Rightarrow> dq_iter \<Rightarrow> dq_iter \<Rightarrow> bool res" where
  "it_eq d x y = bindR (CheckComparable d x y) (\<lambda>_. Inr (it_index x = it_index y))"

definition it_less :: "bool \<Rightarrow> dq_iter \<Rightarrow> dq_iter \<Rightarrow> 'a deque \<Rightarrow> bool res" where
  "it_less d x y q = bindR (CheckComparable d x y) (\<lambda>_. Inr (OffsetFromBegin x q < OffsetFromBegin y q))"

definition it_minus :: "bool \<Rightarrow> dq_iter \<Rightarrow> dq_iter \<Rightarrow> 'a deque \<Rightarrow> int res" where
  "it_minus d x y q =
     bindR (CheckComparable d x y) (\<lambda>_. Inr (int (OffsetFromBegin x q) - int (OffsetFromBegin y q)))"

definition it_Increment :: "bool \<Rightarrow> dq_iter \<Rightarrow> 'a deque \<Rightarrow> dq_iter res" where
  "it_Increment d it q =
     bindR (CheckUnstableUsage d it q) (\<lambda>_. bindR (CheckValidIndex d (it_index it) q) (\<lambda>_.
       Inr (it\<lparr>it_index := (if it_index it + 1 = dq_cap q then 0 else it_index it + 1)\<rparr>)))"

definition it_Decrement :: "bool \<Rightarrow> dq_iter \<Rightarrow> 'a deque \<Rightarrow> dq_iter res" where
  "it_Decrement d it q =
     bindR (CheckUnstableUsage d it q) (\<lambda>_. bindR (CheckValidIndexOrEnd d (it_index it) q) (\<lambda>_.
       Inr (it\<lparr>it_index := (if it_index it = 0 then dq_cap q - 1 else it_index it - 1)\<rparr>)))"

text \<open>The sum of the signed offset and \<open>begin_\<close> is taken modulo \<open>2\<^sup>64\<close>.\<close>

definition it_Add :: "bool \<Rightarrow> int \<Rightarrow> dq_iter \<Rightarrow> 'a deque \<Rightarrow> dq_iter res" where
  "it_Add d delta it q =
     bindR (CheckUnstableUsage d it q) (\<lambda>_.
     bindR (if delta \<le> 0 then CheckValidIndexOrEnd d (it_index it) q else CheckValidIndex d (it_index it) q) (\<lambda>_.
       if delta = 0 then Inr it
       else
         let new_offset = int (OffsetFromBegin it q) + delta
         in bindR (dcheck d (new_offset \<ge> 0 \<and> new_offset \<le> int (dq_size q)) ()) (\<lambda>_.
              if dq_cap q = 0 then Inl Div_zero
              else Inr (it\<lparr>it_index := nat ((new_offset + int (dq_begin q)) mod 2 ^ 64) mod dq_cap q\<rparr>))))"

section \<open>Capacity\<close>

text \<open>\<open>MoveBuffer\<close>: the new buffer and the end index in it; the begin index is 0.\<close>

definition MoveBuffer :: "'a dq_cells \<Rightarrow> nat \<Rightarrow> nat \<Rightarrow> 'a dq_cells \<Rightarrow> ('a dq_cells \<times> nat) res" where
  "MoveBuffer from_buf from_begin from_end to_buf =
     (if from_begin < from_end then
        bindR (cell_index from_buf from_begin) (\<lambda>_. bindR (cell_index from_buf from_end) (\<lambda>_.
        bindR (move_cells (from_end - from_begin) from_begin 0 from_buf to_buf) (\<lambda>(_, to).
        Inr (to, from_end - from_begin))))
      else if from_begin > from_end then
        bindR (cell_index from_buf from_begin) (\<lambda>_.
        bindR (move_cells (length from_buf - from_begin) from_begin 0 from_buf to_buf) (\<lambda>(from, to).
        let right_size = length from_buf - from_begin
        in bindR (cell_index to right_size) (\<lambda>_.
           bindR (move_cells from_end 0 right_size from to) (\<lambda>(_, to).
           Inr (to, right_size + from_end)))))
      else Inr (to_buf, 0))"

definition SetCapacityTo :: "nat \<Rightarrow> nat \<Rightarrow> 'a deque \<Rightarrow> 'a deque res" where
  "SetCapacityTo sz new_capacity q =
     bindR (VectorBuffer_new sz ((new_capacity + 1) mod 2 ^ 64)) (\<lambda>new_buffer.
     bindR (MoveBuffer (dq_buffer q) (dq_begin q) (dq_end q) new_buffer) (\<lambda>(b, e).
     Inr (q\<lparr>dq_buffer := b, dq_begin := 0, dq_end := e\<rparr>)))"

definition ExpandCapacityIfNecessary :: "nat \<Rightarrow> nat \<Rightarrow> 'a deque \<Rightarrow> 'a deque res" where
  "ExpandCapacityIfNecessary sz additional_elts q =
     (let min_new_capacity = (dq_size q + additional_elts) mod 2 ^ 64
      in if dq_capacity q \<ge> min_new_capacity then Inr q
         else SetCapacityTo sz
           (max (max min_new_capacity 3) ((dq_capacity q + dq_capacity q div 4) mod 2 ^ 64)) q)"

definition ShrinkCapacityIfNecessary :: "nat \<Rightarrow> 'a deque \<Rightarrow> 'a deque res" where
  "ShrinkCapacityIfNecessary sz q =
     (if dq_capacity q \<le> 3 then Inr q
      else if dq_capacity q - dq_size q < dq_size q then Inr q
      else
        let new_capacity = max 3 ((dq_size q + dq_size q div 4) mod 2 ^ 64)
        in if new_capacity < dq_capacity q then SetCapacityTo sz new_capacity q else Inr q)"

definition dq_reserve :: "nat \<Rightarrow> nat \<Rightarrow> 'a deque \<Rightarrow> 'a deque res" where
  "dq_reserve sz new_capacity q =
     (if new_capacity > dq_capacity q then SetCapacityTo sz new_capacity q else Inr q)"

definition dq_shrink_to_fit :: "nat \<Rightarrow> 'a deque \<Rightarrow> 'a deque res" where
  "dq_shrink_to_fit sz q =
     (if dq_empty q then Inr (if dq_cap q \<noteq> 0 then q\<lparr>dq_buffer := []\<rparr> else q)
      else SetCapacityTo sz (dq_size q) q)"

definition dq_DestructRange :: "nat \<Rightarrow> nat \<Rightarrow> 'a deque \<Rightarrow> 'a deque res" where
  "dq_DestructRange i j q =
     (if j = i then Inr q
      else if j > i then bindR (buf_DestructRange i j (dq_buffer q)) (\<lambda>b. Inr (q\<lparr>dq_buffer := b\<rparr>))
      else bindR (buf_DestructRange i (dq_cap q) (dq_buffer q)) (\<lambda>b.
           bindR (buf_DestructRange 0 j b) (\<lambda>b. Inr (q\<lparr>dq_buffer := b\<rparr>))))"

definition ClearRetainCapacity :: "bool \<Rightarrow> 'a deque \<Rightarrow> 'a deque res" where
  "ClearRetainCapacity d q =
     bindR (dq_DestructRange (dq_begin q) (dq_end q) q) (\<lambda>q.
       Inr (IncrementGeneration d (q\<lparr>dq_begin := 0, dq_end := 0\<rparr>)))"

definition dq_clear :: "bool \<Rightarrow> 'a deque \<Rightarrow> 'a deque res" where
  "dq_clear d q = bindR (ClearRetainCapacity d q) (\<lambda>q. Inr (q\<lparr>dq_buffer := []\<rparr>))"

section \<open>The ends\<close>

definition dq_at :: "bool \<Rightarrow> nat \<Rightarrow> 'a deque \<Rightarrow> 'a res" where
  "dq_at d i q =
     bindR (dcheck d (i < dq_size q) ()) (\<lambda>_.
       let right_size = dq_cap q - dq_begin q
       in if dq_begin q \<le> dq_end q \<or> i < right_size then cell_read (dq_begin q + i) (dq_buffer q)
          else cell_read (i - right_size) (dq_buffer q))"

definition dq_front :: "bool \<Rightarrow> 'a deque \<Rightarrow> 'a res" where
  "dq_front d q = bindR (dcheck d (\<not> dq_empty q) ()) (\<lambda>_. cell_read (dq_begin q) (dq_buffer q))"

definition dq_back :: "bool \<Rightarrow> 'a deque \<Rightarrow> 'a res" where
  "dq_back d q =
     bindR (dcheck d (\<not> dq_empty q) ()) (\<lambda>_.
     bindR (it_Decrement d (end_it q) q) (\<lambda>it. it_deref d it q))"

text \<open>\<open>emplace_front\<close> and \<open>emplace_back\<close> return \<open>front()\<close> and \<open>back()\<close>: the value is what the reference shows.\<close>

definition emplace_front :: "nat \<Rightarrow> bool \<Rightarrow> 'a \<Rightarrow> 'a deque \<Rightarrow> ('a \<times> 'a deque) res" where
  "emplace_front sz d x q =
     bindR (ExpandCapacityIfNecessary sz 1 q) (\<lambda>q.
       let q = IncrementGeneration d
             (q\<lparr>dq_begin := (if dq_begin q = 0 then dq_cap q - 1 else dq_begin q - 1)\<rparr>)
       in bindR (cell_new (dq_begin q) x (dq_buffer q)) (\<lambda>b.
          let q = q\<lparr>dq_buffer := b\<rparr> in bindR (dq_front d q) (\<lambda>y. Inr (y, q))))"

definition emplace_back :: "nat \<Rightarrow> bool \<Rightarrow> 'a \<Rightarrow> 'a deque \<Rightarrow> ('a \<times> 'a deque) res" where
  "emplace_back sz d x q =
     bindR (ExpandCapacityIfNecessary sz 1 q) (\<lambda>q.
     bindR (cell_new (dq_end q) x (dq_buffer q)) (\<lambda>b.
       let q = IncrementGeneration d
             (q\<lparr>dq_buffer := b, dq_end := (if dq_end q = dq_cap q - 1 then 0 else dq_end q + 1)\<rparr>)
       in bindR (dq_back d q) (\<lambda>y. Inr (y, q))))"

definition push_front :: "nat \<Rightarrow> bool \<Rightarrow> 'a \<Rightarrow> 'a deque \<Rightarrow> 'a deque res" where
  "push_front sz d x q = bindR (emplace_front sz d x q) (\<lambda>(_, q). Inr q)"

definition push_back :: "nat \<Rightarrow> bool \<Rightarrow> 'a \<Rightarrow> 'a deque \<Rightarrow> 'a deque res" where
  "push_back sz d x q = bindR (emplace_back sz d x q) (\<lambda>(_, q). Inr q)"

definition pop_front :: "nat \<Rightarrow> bool \<Rightarrow> 'a deque \<Rightarrow> 'a deque res" where
  "pop_front sz d q =
     bindR (dcheck d (dq_size q \<noteq> 0) ()) (\<lambda>_.
     bindR (buf_DestructRange (dq_begin q) (dq_begin q + 1) (dq_buffer q)) (\<lambda>b.
     bindR (ShrinkCapacityIfNecessary sz (q\<lparr>dq_buffer := b,
       dq_begin := (if dq_begin q + 1 = dq_cap q then 0 else dq_begin q + 1)\<rparr>)) (\<lambda>q.
     Inr (IncrementGeneration d q))))"

definition pop_back :: "nat \<Rightarrow> bool \<Rightarrow> 'a deque \<Rightarrow> 'a deque res" where
  "pop_back sz d q =
     bindR (dcheck d (dq_size q \<noteq> 0) ()) (\<lambda>_.
       let e = (if dq_end q = 0 then dq_cap q - 1 else dq_end q - 1)
       in bindR (buf_DestructRange e (e + 1) (dq_buffer q)) (\<lambda>b.
          bindR (ShrinkCapacityIfNecessary sz (q\<lparr>dq_buffer := b, dq_end := e\<rparr>)) (\<lambda>q.
          Inr (IncrementGeneration d q))))"

section \<open>Construction and assignment\<close>

fun push_all :: "nat \<Rightarrow> bool \<Rightarrow> 'a list \<Rightarrow> 'a deque \<Rightarrow> 'a deque res" where
  "push_all sz d [] q = Inr q"
| "push_all sz d (x # xs) q = bindR (push_back sz d x q) (push_all sz d xs)"

definition assign_range :: "nat \<Rightarrow> bool \<Rightarrow> 'a list \<Rightarrow> 'a deque \<Rightarrow> 'a deque res" where
  "assign_range sz d xs q =
     bindR (ClearRetainCapacity d q) (\<lambda>q. bindR (push_all sz d xs q) (\<lambda>q. Inr (IncrementGeneration d q)))"

definition assign_count :: "nat \<Rightarrow> bool \<Rightarrow> nat \<Rightarrow> 'a \<Rightarrow> 'a deque \<Rightarrow> 'a deque res" where
  "assign_count sz d count v q =
     bindR (ClearRetainCapacity d q) (\<lambda>q.
     bindR (dq_reserve sz count q) (\<lambda>q.
     bindR (push_all sz d (replicate count v) q) (\<lambda>q. Inr (IncrementGeneration d q))))"

definition assign_list :: "nat \<Rightarrow> bool \<Rightarrow> 'a list \<Rightarrow> 'a deque \<Rightarrow> 'a deque res" where
  "assign_list sz d xs q = bindR (dq_reserve sz (length xs) q) (assign_range sz d xs)"

text \<open>The elements from \<open>begin()\<close> to \<open>end()\<close>, as an iteration reads them.\<close>

definition dq_elements :: "bool \<Rightarrow> 'a deque \<Rightarrow> 'a list res" where
  "dq_elements d q = mapR (\<lambda>i. bindR (it_Add d (int i) (begin_it q) q) (\<lambda>it. it_deref d it q)) [0..<dq_size q]"

definition deque_copy :: "nat \<Rightarrow> bool \<Rightarrow> 'a deque \<Rightarrow> 'a deque res" where
  "deque_copy sz d other =
     bindR (VectorBuffer_new sz ((dq_size other + 1) mod 2 ^ 64)) (\<lambda>b.
     bindR (dq_elements d other) (\<lambda>xs. assign_range sz d xs (dq_new\<lparr>dq_buffer := b\<rparr>)))"

definition copy_assign :: "nat \<Rightarrow> bool \<Rightarrow> 'a deque \<Rightarrow> 'a deque \<Rightarrow> 'a deque res" where
  "copy_assign sz d other q =
     bindR (dq_reserve sz (dq_size other) q) (\<lambda>q.
     bindR (dq_elements d other) (\<lambda>xs. assign_range sz d xs q))"

definition dq_moved_from :: "'a deque \<Rightarrow> 'a deque" where
  "dq_moved_from other = other\<lparr>dq_buffer := [], dq_begin := 0, dq_end := 0\<rparr>"

definition deque_move :: "'a deque \<Rightarrow> 'a deque \<times> 'a deque" where
  "deque_move other =
     (\<lparr>dq_buffer = dq_buffer other, dq_begin = dq_begin other, dq_end = dq_end other, dq_generation = 0\<rparr>,
      dq_moved_from other)"

definition move_assign :: "bool \<Rightarrow> 'a deque \<Rightarrow> 'a deque \<Rightarrow> ('a deque \<times> 'a deque) res" where
  "move_assign d other q =
     bindR (ClearRetainCapacity d q) (\<lambda>q.
       Inr (IncrementGeneration d
         (q\<lparr>dq_buffer := dq_buffer other, dq_begin := dq_begin other, dq_end := dq_end other\<rparr>), dq_moved_from other))"

definition dq_swap :: "bool \<Rightarrow> 'a deque \<Rightarrow> 'a deque \<Rightarrow> 'a deque \<times> 'a deque" where
  "dq_swap d q other =
     (IncrementGeneration d
        (q\<lparr>dq_buffer := dq_buffer other, dq_begin := dq_begin other, dq_end := dq_end other\<rparr>),
      other\<lparr>dq_buffer := dq_buffer q, dq_begin := dq_begin q, dq_end := dq_end q\<rparr>)"

text \<open>The loop of \<open>resize\<close>; as many rounds as elements are missing are allowed.\<close>

fun push_until :: "nat \<Rightarrow> nat \<Rightarrow> bool \<Rightarrow> nat \<Rightarrow> 'a \<Rightarrow> 'a deque \<Rightarrow> 'a deque res" where
  "push_until 0 sz d count v q = (if dq_size q < count then Inl No_return else Inr q)"
| "push_until (Suc n) sz d count v q =
     (if dq_size q < count then bindR (push_back sz d v q) (push_until n sz d count v) else Inr q)"

definition dq_resize :: "nat \<Rightarrow> bool \<Rightarrow> nat \<Rightarrow> 'a \<Rightarrow> 'a deque \<Rightarrow> 'a deque res" where
  "dq_resize sz d count v q =
     bindR
       (if count > dq_size q then
          bindR (ExpandCapacityIfNecessary sz (count - dq_size q) q) (push_until (count - dq_size q) sz d count v)
        else if count < dq_size q then
          (if dq_cap q = 0 then Inl Div_zero
           else
             let new_end = (dq_begin q + count) mod dq_cap q
             in bindR (dq_DestructRange new_end (dq_end q) q) (\<lambda>q.
                ShrinkCapacityIfNecessary sz (q\<lparr>dq_end := new_end\<rparr>)))
        else Inr q)
       (\<lambda>q. Inr (IncrementGeneration d q))"

section \<open>Inserting and erasing in the middle\<close>

text \<open>The shifting loop of \<open>MakeRoomFor\<close>, from right to left; one time around the ring is allowed.\<close>

fun move_right :: "nat \<Rightarrow> bool \<Rightarrow> dq_iter \<Rightarrow> dq_iter \<Rightarrow> dq_iter \<Rightarrow> 'a deque \<Rightarrow> 'a deque res" where
  "move_right 0 d insert_begin src dest q = Inl No_return"
| "move_right (Suc n) d insert_begin src dest q =
     bindR (it_eq d src insert_begin) (\<lambda>finished.
       if finished then Inr q
       else
         bindR (it_Decrement d src q) (\<lambda>src.
         bindR (it_Decrement d dest q) (\<lambda>dest.
         bindR (move_cell (it_index src) (it_index dest) (dq_buffer q)) (\<lambda>b.
         move_right n d insert_begin src dest (q\<lparr>dq_buffer := b\<rparr>)))))"

definition MakeRoomFor ::
  "nat \<Rightarrow> bool \<Rightarrow> nat \<Rightarrow> dq_iter \<Rightarrow> 'a deque \<Rightarrow> (dq_iter \<times> dq_iter \<times> 'a deque) res" where
  "MakeRoomFor sz d count insert_begin q =
     (if count = 0 then Inr (insert_begin, insert_begin, q)
      else
        let begin_offset = OffsetFromBegin insert_begin q
        in bindR (ExpandCapacityIfNecessary sz count q) (\<lambda>q.
             if dq_cap q = 0 then Inl Div_zero
             else
               let insert_begin = insert_begin\<lparr>it_index := (dq_begin q + begin_offset) mod dq_cap q\<rparr>;
                   insert_end = dq_iterator q ((it_index insert_begin + count) mod dq_cap q);
                   src = end_it q;
                   q = q\<lparr>dq_end := (dq_end q + count) mod dq_cap q\<rparr>;
                   dest = end_it q
               in bindR (move_right (Suc (dq_cap q)) d insert_begin src dest q) (\<lambda>q.
                  Inr (insert_begin, insert_end, q))))"

text \<open>The filling loop of \<open>insert\<close>: the values are read in order as long as there is room.\<close>

fun fill_room :: "bool \<Rightarrow> 'a list \<Rightarrow> dq_iter \<Rightarrow> dq_iter \<Rightarrow> 'a deque \<Rightarrow> 'a deque res" where
  "fill_room d [] insert_cur insert_end q =
     bindR (it_less d insert_cur insert_end q) (\<lambda>room. if room then Inl Bad_memory else Inr q)"
| "fill_room d (x # xs) insert_cur insert_end q =
     bindR (it_less d insert_cur insert_end q) (\<lambda>room.
       if room then
         bindR (cell_new (it_index insert_cur) x (dq_buffer q)) (\<lambda>b.
         bindR (it_Increment d insert_cur (q\<lparr>dq_buffer := b\<rparr>)) (\<lambda>insert_cur.
         fill_room d xs insert_cur insert_end (q\<lparr>dq_buffer := b\<rparr>)))
       else Inr q)"

fun push_front_times :: "nat \<Rightarrow> bool \<Rightarrow> nat \<Rightarrow> 'a \<Rightarrow> 'a deque \<Rightarrow> 'a deque res" where
  "push_front_times sz d 0 v q = Inr q"
| "push_front_times sz d (Suc n) v q = bindR (push_front sz d v q) (push_front_times sz d n v)"

definition insert_count :: "nat \<Rightarrow> bool \<Rightarrow> dq_iter \<Rightarrow> nat \<Rightarrow> 'a \<Rightarrow> 'a deque \<Rightarrow> 'a deque res" where
  "insert_count sz d pos count v q =
     bindR (CheckUnstableUsage d pos q) (\<lambda>_. bindR (it_eq d pos (begin_it q)) (\<lambda>at_begin.
       if at_begin then bindR (ExpandCapacityIfNecessary sz count q) (push_front_times sz d count v)
       else
         bindR (MakeRoomFor sz d count (dq_iterator q (it_index pos)) q) (\<lambda>(insert_cur, insert_end, q).
         bindR (fill_room d (replicate count v) insert_cur insert_end q) (\<lambda>q.
         Inr (IncrementGeneration d q)))))"

definition dq_insert_range :: "nat \<Rightarrow> bool \<Rightarrow> dq_iter \<Rightarrow> 'a list \<Rightarrow> 'a deque \<Rightarrow> 'a deque res" where
  "dq_insert_range sz d pos xs q =
     bindR (CheckUnstableUsage d pos q) (\<lambda>_.
       let inserted_items = length xs
       in if inserted_items = 0 then Inr q
          else bindR (it_eq d pos (begin_it q)) (\<lambda>at_begin.
            bindR
              (if at_begin then
                 bindR (ExpandCapacityIfNecessary sz inserted_items q) (\<lambda>q.
                   if dq_cap q = 0 then Inl Div_zero
                   else
                     let insert_end = begin_it q;
                         q = q\<lparr>dq_begin := (dq_begin q + dq_cap q - inserted_items) mod dq_cap q\<rparr>
                     in Inr (begin_it q, insert_end, q))
               else MakeRoomFor sz d inserted_items (dq_iterator q (it_index pos)) q)
              (\<lambda>(insert_cur, insert_end, q).
               bindR (fill_room d xs insert_cur insert_end q) (\<lambda>q. Inr (IncrementGeneration d q)))))"

definition dq_emplace :: "nat \<Rightarrow> bool \<Rightarrow> dq_iter \<Rightarrow> 'a \<Rightarrow> 'a deque \<Rightarrow> (dq_iter \<times> 'a deque) res" where
  "dq_emplace sz d pos x q =
     bindR (CheckUnstableUsage d pos q) (\<lambda>_. bindR (it_eq d pos (begin_it q)) (\<lambda>at_begin.
       if at_begin then bindR (emplace_front sz d x q) (\<lambda>(_, q). Inr (begin_it q, q))
       else
         let q = IncrementGeneration d q
         in bindR (MakeRoomFor sz d 1 (dq_iterator q (it_index pos)) q) (\<lambda>(insert_begin, _, q).
            bindR (cell_new (it_index insert_begin) x (dq_buffer q)) (\<lambda>b.
            Inr (insert_begin, q\<lparr>dq_buffer := b\<rparr>)))))"

text \<open>The shifting loop of \<open>erase\<close>, from left to right.\<close>

fun move_left :: "nat \<Rightarrow> bool \<Rightarrow> dq_iter \<Rightarrow> dq_iter \<Rightarrow> dq_iter \<Rightarrow> 'a deque \<Rightarrow> (dq_iter \<times> 'a deque) res" where
  "move_left 0 d move_src move_src_end move_dest q = Inl No_return"
| "move_left (Suc n) d move_src move_src_end move_dest q =
     bindR (it_less d move_src move_src_end q) (\<lambda>more.
       if more then
         bindR (move_cell (it_index move_src) (it_index move_dest) (dq_buffer q)) (\<lambda>b.
         bindR (it_Increment d move_src (q\<lparr>dq_buffer := b\<rparr>)) (\<lambda>move_src.
         bindR (it_Increment d move_dest (q\<lparr>dq_buffer := b\<rparr>)) (\<lambda>move_dest.
         move_left n d move_src move_src_end move_dest (q\<lparr>dq_buffer := b\<rparr>))))
       else Inr (move_dest, q))"

definition dq_erase_range :: "bool \<Rightarrow> dq_iter \<Rightarrow> dq_iter \<Rightarrow> 'a deque \<Rightarrow> (dq_iter \<times> 'a deque) res" where
  "dq_erase_range d i j q =
     bindR (CheckUnstableUsage d i q) (\<lambda>_. bindR (CheckUnstableUsage d j q) (\<lambda>_.
       let q = IncrementGeneration d q
       in if it_index i = it_index j then Inr (dq_iterator q (it_index i), q)
          else
            bindR (dq_DestructRange (it_index i) (it_index j) q) (\<lambda>q.
              if it_index i = dq_begin q then
                Inr (dq_iterator q (it_index j), q\<lparr>dq_begin := it_index j\<rparr>)
              else
                bindR (move_left (Suc (dq_cap q)) d (dq_iterator q (it_index j)) (end_it q) (dq_iterator q (it_index i)) q)
                  (\<lambda>(move_dest, q).
                   let q = q\<lparr>dq_end := it_index move_dest\<rparr> in Inr (dq_iterator q (it_index i), q)))))"

definition dq_erase :: "bool \<Rightarrow> dq_iter \<Rightarrow> 'a deque \<Rightarrow> (dq_iter \<times> 'a deque) res" where
  "dq_erase d pos q = bindR (it_Add d 1 pos q) (\<lambda>next_pos. dq_erase_range d pos next_pos q)"

text \<open>\<open>remove_if\<close> assigns the elements that stay to the first places, in their order.\<close>

fun assign_from :: "bool \<Rightarrow> nat \<Rightarrow> 'a list \<Rightarrow> 'a deque \<Rightarrow> 'a deque res" where
  "assign_from d i [] q = Inr q"
| "assign_from d i (x # xs) q =
     bindR (it_Add d (int i) (begin_it q) q) (\<lambda>it. bindR (it_deref d it q) (\<lambda>_.
       assign_from d (Suc i) xs (q\<lparr>dq_buffer := (dq_buffer q)[it_index it := Some x]\<rparr>)))"

definition dq_EraseIf :: "bool \<Rightarrow> ('a \<Rightarrow> bool) \<Rightarrow> 'a deque \<Rightarrow> (nat \<times> 'a deque) res" where
  "dq_EraseIf d pred q =
     bindR (dq_elements d q) (\<lambda>xs.
       let kept = filter (\<lambda>x. \<not> pred x) xs
       in bindR (assign_from d 0 kept q) (\<lambda>q.
          bindR (it_Add d (int (length kept)) (begin_it q) q) (\<lambda>it.
          bindR (it_minus d (end_it q) it q) (\<lambda>removed.
          bindR (dq_erase_range d it (end_it q) q) (\<lambda>(_, q). Inr (nat removed, q))))))"

definition dq_Erase :: "bool \<Rightarrow> 'a \<Rightarrow> 'a deque \<Rightarrow> (nat \<times> 'a deque) res" where
  "dq_Erase d v q = dq_EraseIf d (\<lambda>x. x = v) q"

section \<open>References into the deque\<close>

text \<open>
  \<open>push_back(q[i])\<close>: the argument is a reference to a cell of the old buffer; when the buffer was replaced,
  its memory is freed before the value is copied.
\<close>

definition push_back_own :: "nat \<Rightarrow> bool \<Rightarrow> nat \<Rightarrow> 'a deque \<Rightarrow> 'a deque res" where
  "push_back_own sz d i q =
     bindR (dq_at d i q) (\<lambda>_.
       let a = (if dq_begin q \<le> dq_end q \<or> i < dq_cap q - dq_begin q then dq_begin q + i else i - (dq_cap q - dq_begin q))
       in bindR (ExpandCapacityIfNecessary sz 1 q) (\<lambda>q'.
          if dq_capacity q \<ge> (dq_size q + 1) mod 2 ^ 64
          then bindR (cell_read a (dq_buffer q')) (\<lambda>x. push_back sz d x q') else Inl Bad_memory))"

end
