(* ===== verification/Deque_Ring.thy ===== *)
theory Deque_Ring
  imports Circular_Deque
begin

text \<open>
  The ring in logical order: the buffer rotated so that the first element is at 0.  Every operation on the
  cell at the physical place of a logical index is an operation on the rotated list.
\<close>

section \<open>Places\<close>

lemma mod_once: "b < c \<Longrightarrow> n \<le> c \<Longrightarrow> (b + n) mod c = (if b + n < c then b + n else b + n - c)" for b n c :: nat
  by (auto simp: mod_if)

definition spot :: "'a deque \<Rightarrow> nat \<Rightarrow> nat" where
  "spot q i = (dq_begin q + i) mod dq_cap q"

definition on_ring :: "'a deque \<Rightarrow> bool" where
  "on_ring q \<longleftrightarrow> dq_begin q < dq_cap q"

definition cells_of :: "'a deque \<Rightarrow> 'a dq_cells" where
  "cells_of q = rotate (dq_begin q) (dq_buffer q)"

lemma length_cells_of [simp]: "length (cells_of q) = dq_cap q"
  by (simp add: cells_of_def)

lemma spot_less: "on_ring q \<Longrightarrow> spot q i < dq_cap q"
  unfolding on_ring_def spot_def by (rule mod_less_divisor) linarith

lemma spot_if: "on_ring q \<Longrightarrow> i \<le> dq_cap q \<Longrightarrow>
    spot q i = (if dq_begin q + i < dq_cap q then dq_begin q + i else dq_begin q + i - dq_cap q)"
  by (simp add: spot_def on_ring_def mod_once)

lemma spot_0: "on_ring q \<Longrightarrow> spot q 0 = dq_begin q"
  by (simp add: spot_def on_ring_def)

lemma spot_eq: "on_ring q \<Longrightarrow> i < dq_cap q \<Longrightarrow> j < dq_cap q \<Longrightarrow> spot q i = spot q j \<longleftrightarrow> i = j"
  by (auto simp: spot_if on_ring_def split: if_splits)

lemma offset_spot: "on_ring q \<Longrightarrow> i < dq_cap q \<Longrightarrow> it_index it = spot q i \<Longrightarrow> OffsetFromBegin it q = i"
  by (auto simp: OffsetFromBegin_def spot_if on_ring_def split: if_splits)

lemma spot_Suc: "on_ring q \<Longrightarrow> (if spot q i + 1 = dq_cap q then 0 else spot q i + 1) = spot q (Suc i)"
  by (simp add: spot_def on_ring_def mod_Suc)

lemma spot_pred: "on_ring q \<Longrightarrow> (if spot q (Suc i) = 0 then dq_cap q - 1 else spot q (Suc i) - 1) = spot q i"
  by (cases "spot q i + 1 = dq_cap q") (use spot_Suc [of q i] in \<open>simp_all split: if_splits\<close>)

lemma spot_add: "(spot q i + n) mod dq_cap q = spot q (i + n)"
  by (simp add: spot_def mod_add_left_eq add.assoc)

lemma spot_cong: "dq_begin q' = dq_begin q \<Longrightarrow> dq_cap q' = dq_cap q \<Longrightarrow> spot q' i = spot q i"
  by (simp add: spot_def)

lemma spot_update [simp]:
  "spot (q\<lparr>dq_end := e\<rparr>) i = spot q i" "spot (q\<lparr>dq_generation := g\<rparr>) i = spot q i"
  by (simp_all add: spot_def)

lemma cells_nth: "on_ring q \<Longrightarrow> i < dq_cap q \<Longrightarrow> cells_of q ! i = dq_buffer q ! spot q i"
  by (simp add: cells_of_def spot_def nth_rotate)

lemma cells_update:
  assumes "on_ring q" "i < dq_cap q"
  shows "cells_of (q\<lparr>dq_buffer := (dq_buffer q)[spot q i := v]\<rparr>) = (cells_of q)[i := v]"
proof (rule nth_equalityI)
  fix k
  assume "k < length (cells_of (q\<lparr>dq_buffer := (dq_buffer q)[spot q i := v]\<rparr>))"
  then show "cells_of (q\<lparr>dq_buffer := (dq_buffer q)[spot q i := v]\<rparr>) ! k = (cells_of q)[i := v] ! k"
    using assms spot_eq [OF assms(1), of k i] spot_less [OF assms(1), of i]
    by (auto simp: cells_of_def nth_rotate nth_list_update spot_def)
qed simp

section \<open>What a deque holds\<close>

text \<open>
  \<open>xs\<close> is in the cells from \<open>begin_\<close> on, the others are raw memory, and there is at least one of
  them; or there is no buffer, and then both indices are equal but need not be 0.  A block of memory is
  smaller than \<open>2\<^sup>63\<close> bytes.
\<close>

definition holds_list :: "nat \<Rightarrow> 'a deque \<Rightarrow> 'a list \<Rightarrow> bool" where
  "holds_list sz q xs \<longleftrightarrow> sz > 0 \<and> sz * dq_cap q < 2 ^ 63 \<and>
     (if dq_cap q = 0 then xs = [] \<and> dq_begin q = dq_end q
      else on_ring q \<and> length xs < dq_cap q \<and> dq_end q = spot q (length xs) \<and>
        cells_of q = map Some xs @ replicate (dq_cap q - length xs) None)"

lemma holds_end: "holds_list sz q xs \<Longrightarrow> dq_end q = spot q (length xs)"
  by (auto simp: holds_list_def spot_def split: if_splits)

lemma holds_size: "holds_list sz q xs \<Longrightarrow> dq_size q = length xs"
  by (auto simp: holds_list_def dq_size_def spot_if on_ring_def split: if_splits)

lemma holds_empty: "holds_list sz q xs \<Longrightarrow> dq_empty q \<longleftrightarrow> xs = []"
  by (auto simp: holds_list_def dq_empty_def spot_if on_ring_def split: if_splits)

lemma holds_cell: "holds_list sz q xs \<Longrightarrow> i < length xs \<Longrightarrow> on_ring q \<and> cells_of q ! i = Some (xs ! i) \<and> i < dq_cap q"
  by (auto simp: holds_list_def nth_append split: if_splits)

lemma holds_capacity: "holds_list sz q xs \<Longrightarrow> length xs \<le> dq_capacity q"
  by (auto simp: holds_list_def dq_capacity_def split: if_splits)

lemma holds_generation [simp]: "holds_list sz (q\<lparr>dq_generation := g\<rparr>) xs \<longleftrightarrow> holds_list sz q xs"
  by (simp add: holds_list_def on_ring_def spot_def cells_of_def)

lemma capacity_generation [simp]: "dq_capacity (q\<lparr>dq_generation := g\<rparr>) = dq_capacity q"
  by (simp add: dq_capacity_def)

lemma holds_Increment [simp]: "holds_list sz (IncrementGeneration d q) xs \<longleftrightarrow> holds_list sz q xs"
  by (simp add: IncrementGeneration_def)

lemma holds_limit: "holds_list sz q xs \<Longrightarrow> length xs < 2 ^ 63 \<and> dq_cap q < 2 ^ 63"
  by (cases sz) (auto simp: holds_list_def split: if_splits intro: le_less_trans [of _ "sz * dq_cap q"])

section \<open>Iterators\<close>

text \<open>\<open>n\<close> elements from \<open>begin_\<close> to \<open>end_\<close>, whatever the cells hold.\<close>

definition spans :: "'a deque \<Rightarrow> nat \<Rightarrow> bool" where
  "spans q n \<longleftrightarrow> on_ring q \<and> n < dq_cap q \<and> dq_end q = spot q n \<and> dq_cap q < 2 ^ 63"

definition it_at :: "'a deque \<Rightarrow> dq_iter \<Rightarrow> nat \<Rightarrow> bool" where
  "it_at q it i \<longleftrightarrow> it_index it = spot q i \<and> it_generation it = dq_generation q"

lemma holds_spans: "holds_list sz q xs \<Longrightarrow> dq_cap q \<noteq> 0 \<Longrightarrow> spans q (length xs)"
  using holds_limit [of sz q xs] by (simp add: holds_list_def spans_def)

lemma holds_spans_elem: "holds_list sz q xs \<Longrightarrow> i < length xs \<Longrightarrow> spans q (length xs)"
  using holds_limit [of sz q xs] by (auto simp: holds_list_def spans_def split: if_splits)

lemma spans_size: "spans q n \<Longrightarrow> dq_size q = n"
  by (auto simp: spans_def dq_size_def spot_if on_ring_def split: if_splits)

lemma spans_ring: "spans q n \<Longrightarrow> on_ring q"
  by (simp add: spans_def)

lemma spans_buffer [simp]: "length b = dq_cap q \<Longrightarrow> spans (q\<lparr>dq_buffer := b\<rparr>) n \<longleftrightarrow> spans q n"
  by (simp add: spans_def on_ring_def spot_def)

lemma it_at_buffer [simp]: "length b = dq_cap q \<Longrightarrow> it_at (q\<lparr>dq_buffer := b\<rparr>) it n \<longleftrightarrow> it_at q it n"
  by (simp add: it_at_def spot_def)

lemma valid_index: "spans q n \<Longrightarrow> i < n \<Longrightarrow> CheckValidIndex d (spot q i) q = Inr ()"
  by (auto simp: CheckValidIndex_def dcheck_def spans_def spot_if on_ring_def split: if_splits)

lemma valid_index_or_end: "spans q n \<Longrightarrow> i \<le> n \<Longrightarrow> CheckValidIndexOrEnd d (spot q i) q = Inr ()"
  using valid_index [of q n i d] by (cases "i = n") (auto simp: CheckValidIndexOrEnd_def spans_def)

lemma it_usable: "it_at q it i \<Longrightarrow> CheckUnstableUsage d it q = Inr ()"
  by (simp add: it_at_def CheckUnstableUsage_def)

lemma it_offset: "spans q n \<Longrightarrow> it_at q it i \<Longrightarrow> i \<le> n \<Longrightarrow> OffsetFromBegin it q = i"
  by (rule offset_spot) (auto simp: spans_def it_at_def)

lemma it_Increment_ok:
  "spans q n \<Longrightarrow> it_at q it i \<Longrightarrow> i < n \<Longrightarrow>
    \<exists>it'. it_Increment d it q = Inr it' \<and> it_at q it' (Suc i) \<and> it_generation it' = it_generation it"
  using spot_Suc [OF spans_ring, of q n i] valid_index [of q n i d] it_usable [of q it i d]
  by (auto simp: it_Increment_def it_at_def)

lemma it_Decrement_ok:
  "spans q n \<Longrightarrow> it_at q it (Suc i) \<Longrightarrow> Suc i \<le> n \<Longrightarrow>
    \<exists>it'. it_Decrement d it q = Inr it' \<and> it_at q it' i \<and> it_generation it' = it_generation it"
  using spot_pred [OF spans_ring, of q n i] valid_index_or_end [of q n "Suc i" d] it_usable [of q it "Suc i" d]
  by (auto simp: it_Decrement_def it_at_def)

lemma it_eq_ok: "spans q n \<Longrightarrow> it_at q x i \<Longrightarrow> it_at q y j \<Longrightarrow> i \<le> n \<Longrightarrow> j \<le> n \<Longrightarrow> it_eq d x y = Inr (i = j)"
  using spot_eq [of q i j] by (simp add: it_eq_def CheckComparable_def it_at_def spans_def)

lemma it_less_ok:
  "spans q n \<Longrightarrow> it_at q x i \<Longrightarrow> it_at q y j \<Longrightarrow> i \<le> n \<Longrightarrow> j \<le> n \<Longrightarrow> it_less d x y q = Inr (i < j)"
  using it_offset [of q n x i] it_offset [of q n y j] by (simp add: it_less_def CheckComparable_def it_at_def)

lemma it_minus_ok:
  "spans q n \<Longrightarrow> it_at q x i \<Longrightarrow> it_at q y j \<Longrightarrow> i \<le> n \<Longrightarrow> j \<le> n \<Longrightarrow> it_minus d x y q = Inr (int i - int j)"
  using it_offset [of q n x i] it_offset [of q n y j] by (simp add: it_minus_def CheckComparable_def it_at_def)

lemma it_Add_ok:
  assumes s: "spans q n" and it: "it_at q it i" and i: "i \<le> n" and j: "int j = int i + delta" "j \<le> n"
  shows "\<exists>it'. it_Add d delta it q = Inr it' \<and> it_at q it' j"
proof -
  have v: "bindR (if delta \<le> 0 then CheckValidIndexOrEnd d (it_index it) q else CheckValidIndex d (it_index it) q) f = f ()"
    for f :: "unit \<Rightarrow> dq_iter res"
    using valid_index_or_end [OF s i] valid_index [OF s, of i d] i j it by (auto simp: it_at_def)
  have "int j + int (dq_begin q) < 2 ^ 64" using s j(2) by (simp add: spans_def on_ring_def)
  then have m: "nat ((int j + int (dq_begin q)) mod 2 ^ 64) = dq_begin q + j" by (simp add: mod_pos_pos_trivial)
  have "dq_cap q \<noteq> 0" using s by (auto simp: spans_def)
  moreover have new: "int (OffsetFromBegin it q) + delta = int j" using it_offset [OF s it i] j(1) by simp
  ultimately have "it_Add d delta it q = Inr (if delta = 0 then it else it\<lparr>it_index := (dq_begin q + j) mod dq_cap q\<rparr>)"
    using j(2) m by (simp add: it_Add_def Let_def it_usable [OF it] v new spans_size [OF s] nat_int_add add.commute)
  then show ?thesis using it j by (auto simp: it_at_def spot_def)
qed

lemma elem_at_spot: "holds_list sz q xs \<Longrightarrow> i < length xs \<Longrightarrow> dq_buffer q ! spot q i = Some (xs ! i) \<and> spot q i < dq_cap q"
  using holds_cell [of sz q xs i] cells_nth [of q i] spot_less [of q i] by simp

lemma read_elem: "holds_list sz q xs \<Longrightarrow> i < length xs \<Longrightarrow> cell_read (spot q i) (dq_buffer q) = Inr (xs ! i)"
  using elem_at_spot [of sz q xs i] by (simp add: cell_read_def cell_index_def)

lemma it_deref_ok: "holds_list sz q xs \<Longrightarrow> it_at q it i \<Longrightarrow> i < length xs \<Longrightarrow> it_deref d it q = Inr (xs ! i)"
  using valid_index [OF holds_spans_elem, of sz q xs i i d] it_usable [of q it i d] read_elem [of sz q xs i]
  by (auto simp: it_deref_def it_at_def)

lemma begin_it_at: "it_at q (begin_it q) 0 \<longleftrightarrow> dq_begin q = spot q 0"
  by (simp add: it_at_def begin_it_def dq_iterator_def)

lemma begin_at: "holds_list sz q xs \<Longrightarrow> it_at q (begin_it q) 0"
  by (auto simp: begin_it_at holds_list_def on_ring_def spot_def split: if_splits)

lemma end_at: "holds_list sz q xs \<Longrightarrow> it_at q (end_it q) (length xs)"
  by (simp add: it_at_def end_it_def dq_iterator_def holds_end)

end
