(* ===== verification/Deque_Capacity.thy ===== *)
theory Deque_Capacity
  imports Deque_Ring
begin

text \<open>Replacing the buffer: what is held stays, also when it wrapped around the end of the old one.\<close>

section \<open>Moving to another buffer\<close>

lemma move_cells_ok:
  "i + n \<le> length from \<Longrightarrow> \<forall>j. i \<le> j \<and> j < i + n \<longrightarrow> from ! j \<noteq> None \<Longrightarrow> k + n \<le> length to \<Longrightarrow>
    \<exists>from' to'. move_cells n i k from to = Inr (from', to') \<and> length from' = length from \<and> length to' = length to \<and>
      (\<forall>j. from' ! j = (if i \<le> j \<and> j < i + n then None else from ! j)) \<and>
      (\<forall>j. to' ! j = (if k \<le> j \<and> j < k + n then from ! (i + (j - k)) else to ! j))"
proof (induction n arbitrary: i k "from" to)
  case (Suc n)
  let ?from = "from[i := None]" and ?to = "to[k := from ! i]"
  have "\<forall>j. Suc i \<le> j \<and> j < Suc i + n \<longrightarrow> ?from ! j \<noteq> None" using Suc.prems(2) by simp
  moreover have "Suc i + n \<le> length ?from" "Suc k + n \<le> length ?to" using Suc.prems(1,3) by simp_all
  ultimately obtain from' to' where r: "move_cells n (Suc i) (Suc k) ?from ?to = Inr (from', to')"
      "length from' = length from" "length to' = length to"
      "\<forall>j. from' ! j = (if Suc i \<le> j \<and> j < Suc i + n then None else ?from ! j)"
      "\<forall>j. to' ! j = (if Suc k \<le> j \<and> j < Suc k + n then ?from ! (Suc i + (j - Suc k)) else ?to ! j)"
    using Suc.IH [of "Suc i" ?from "Suc k" ?to] by auto
  have "from' ! j = (if i \<le> j \<and> j < i + Suc n then None else from ! j)" for j
    using spec [OF r(4), of j] Suc.prems(1) by (auto simp: nth_list_update)
  moreover have "to' ! j = (if k \<le> j \<and> j < k + Suc n then from ! (i + (j - k)) else to ! j)" for j
  proof (cases "Suc k \<le> j \<and> j < Suc k + n")
    case True
    then have "Suc i + (j - Suc k) = i + (j - k)" "i + (j - k) \<noteq> i" by auto
    then show ?thesis using spec [OF r(5), of j] True by simp
  next
    case False
    then show ?thesis using spec [OF r(5), of j] Suc.prems(3) by (auto simp: nth_list_update)
  qed
  ultimately show ?case using Suc.prems r(1-3) by simp
qed auto

lemma MoveBuffer_ok:
  assumes h: "holds_list sz q xs" and to: "length xs \<le> length to"
  shows "\<exists>to'. MoveBuffer (dq_buffer q) (dq_begin q) (dq_end q) to = Inr (to', length xs) \<and> length to' = length to \<and>
    (\<forall>j < length to. to' ! j = (if j < length xs then Some (xs ! j) else to ! j))"
proof (cases "dq_begin q = dq_end q")
  case True
  then have "xs = []" using holds_empty [OF h] by (simp add: dq_empty_def)
  then show ?thesis using True by (simp add: MoveBuffer_def)
next
  case False
  then have ring: "on_ring q" and e: "dq_end q = spot q (length xs)" "length xs < dq_cap q"
    and c: "cells_of q = map Some xs @ replicate (dq_cap q - length xs) None"
    using h by (auto simp: holds_list_def split: if_splits)
  let ?f = "dq_buffer q" and ?b = "dq_begin q" and ?e = "dq_end q"
  have b: "?b < dq_cap q" using ring by (simp add: on_ring_def)
  have cell: "?f ! (if ?b + j < dq_cap q then ?b + j else ?b + j - dq_cap q) = Some (xs ! j)" if "j < length xs" for j
    using holds_cell [OF h that] cells_nth [OF ring, of j] spot_if [OF ring, of j] by simp
  show ?thesis
  proof (cases "?b < ?e")
    case True
    then have l: "?e = ?b + length xs" "?b + length xs \<le> dq_cap q"
      using e spot_if [OF ring, of "length xs"] b by (auto split: if_splits)
    have "\<forall>j. ?b \<le> j \<and> j < ?b + length xs \<longrightarrow> ?f ! j \<noteq> None"
    proof (intro allI impI)
      fix j assume j: "?b \<le> j \<and> j < ?b + length xs"
      then have "j - ?b < length xs" by linarith
      then show "?f ! j \<noteq> None" using cell [of "j - ?b"] l j by simp
    qed
    then obtain f' to' where "move_cells (length xs) ?b 0 ?f to = Inr (f', to')" "length to' = length to"
        "\<forall>j. to' ! j = (if j < length xs then ?f ! (?b + j) else to ! j)"
      using move_cells_ok [of ?b "length xs" ?f 0 to] l to by auto
    moreover have "?f ! (?b + j) = Some (xs ! j)" if "j < length xs" for j
      using cell [OF that] l that by (simp split: if_splits)
    ultimately show ?thesis using True l b by (simp add: MoveBuffer_def cell_index_def)
  next
    case not_less: False
    let ?r = "dq_cap q - ?b"
    have l: "?e = ?b + length xs - dq_cap q" "dq_cap q \<le> ?b + length xs" "?e < ?b"
      using e spot_if [OF ring, of "length xs"] b not_less False by (auto split: if_splits)
    then have n: "?r + ?e = length xs" using b by simp
    have "\<forall>j. ?b \<le> j \<and> j < ?b + ?r \<longrightarrow> ?f ! j \<noteq> None"
    proof (intro allI impI)
      fix j assume j: "?b \<le> j \<and> j < ?b + ?r"
      then have "j - ?b < length xs" using l(2) by linarith
      then show "?f ! j \<noteq> None" using cell [of "j - ?b"] l b j by simp
    qed
    then obtain f1 t1 where m1: "move_cells ?r ?b 0 ?f to = Inr (f1, t1)" "length f1 = dq_cap q" "length t1 = length to"
        "\<forall>j. f1 ! j = (if ?b \<le> j \<and> j < dq_cap q then None else ?f ! j)"
        "\<forall>j. t1 ! j = (if j < ?r then ?f ! (?b + j) else to ! j)"
      using move_cells_ok [of ?b ?r ?f 0 to] n to b by auto
    have low: "f1 ! j = Some (xs ! (?r + j))" if "j < ?e" for j
      using cell [of "?r + j"] that l b spec [OF m1(4), of j] by simp
    then have "\<forall>j. 0 \<le> j \<and> j < 0 + ?e \<longrightarrow> f1 ! j \<noteq> None" by simp
    then obtain f2 t2 where m2: "move_cells ?e 0 ?r f1 t1 = Inr (f2, t2)" "length t2 = length to"
        "\<forall>j. t2 ! j = (if ?r \<le> j \<and> j < ?r + ?e then f1 ! (j - ?r) else t1 ! j)"
      using move_cells_ok [of 0 ?e f1 ?r t1] l(3) b n to m1(2,3) by auto
    have "t2 ! j = (if j < length xs then Some (xs ! j) else to ! j)" for j
      using spec [OF m2(3), of j] spec [OF m1(5), of j] low [of "j - ?r"] cell [of j] n b l by (auto split: if_splits)
    moreover have "MoveBuffer ?f ?b ?e to = Inr (t2, length xs)"
      using not_less False b m1(1,3) m2(1) n to l by (simp add: MoveBuffer_def cell_index_def)
    ultimately show ?thesis using m2(2) by simp
  qed
qed

section \<open>Changing the capacity\<close>

lemma SetCapacityTo_ok:
  assumes h: "holds_list sz q xs" and n: "length xs \<le> n" "sz * (n + 1) < 2 ^ 63"
  shows "\<exists>q'. SetCapacityTo sz n q = Inr q' \<and> holds_list sz q' xs \<and> dq_capacity q' = n \<and> dq_begin q' = 0 \<and>
    dq_generation q' = dq_generation q"
proof -
  have sz: "sz > 0" using h by (simp add: holds_list_def)
  then have "n + 1 \<le> sz * (n + 1)" by (cases sz) simp_all
  from le_less_trans [OF this n(2)] have small: "n + 1 < 2 ^ 64" and big: "sz * (n + 1) < 2 ^ 64" using n(2) by simp_all
  obtain to' where m: "MoveBuffer (dq_buffer q) (dq_begin q) (dq_end q) (replicate (n + 1) None) = Inr (to', length xs)"
    "length to' = n + 1" "\<forall>j < n + 1. to' ! j = (if j < length xs then Some (xs ! j) else replicate (n + 1) None ! j)"
    using MoveBuffer_ok [OF h, of "replicate (n + 1) None"] n(1) by auto
  let ?q = "q\<lparr>dq_buffer := to', dq_begin := 0, dq_end := length xs\<rparr>"
  have "SetCapacityTo sz n q = Inr ?q"
    using m(1) big small by (simp add: SetCapacityTo_def VectorBuffer_new_def)
  moreover have "to' = map Some xs @ replicate (n + 1 - length xs) None"
    using m(2,3) n(1) by (intro nth_equalityI) (auto simp: nth_append simp del: replicate_Suc)
  then have "holds_list sz ?q xs"
    using sz n m(2) by (auto simp: holds_list_def on_ring_def spot_def cells_of_def)
  ultimately show ?thesis using m(2) by (auto simp: dq_capacity_def)
qed

text \<open>Room for \<open>n\<close> elements in all, within what can be allocated.\<close>

definition fits :: "nat \<Rightarrow> nat \<Rightarrow> bool" where
  "fits sz n \<longleftrightarrow> sz * (n + n div 4 + 4) < 2 ^ 63"

lemma fits_mono: "fits sz n \<Longrightarrow> m \<le> n \<Longrightarrow> fits sz m"
proof -
  assume "fits sz n" "m \<le> n"
  moreover have "sz * (m + m div 4 + 4) \<le> sz * (n + n div 4 + 4)"
    using \<open>m \<le> n\<close> by (intro mult_le_mono2 add_le_mono div_le_mono) simp_all
  ultimately show ?thesis unfolding fits_def by linarith
qed

lemma fits_less: "fits sz n \<Longrightarrow> sz > 0 \<Longrightarrow> n + n div 4 + 4 < 2 ^ 64"
  by (cases sz) (auto simp: fits_def intro: le_less_trans [of _ "sz * (n + n div 4 + 4)"])

lemma ExpandCapacity_ok:
  assumes h: "holds_list sz q xs" and fit: "fits sz (length xs + n)"
  shows "\<exists>q'. ExpandCapacityIfNecessary sz n q = Inr q' \<and> holds_list sz q' xs \<and> length xs + n \<le> dq_capacity q' \<and>
    dq_generation q' = dq_generation q \<and>
    (q' = q \<or> dq_capacity q < length xs + n \<and> dq_begin q' = 0) \<and>
    dq_capacity q' = (if length xs + n \<le> dq_capacity q then dq_capacity q
      else max (max (length xs + n) 3) (dq_capacity q + dq_capacity q div 4))"
proof -
  have sz: "sz > 0" using h by (simp add: holds_list_def)
  have small: "length xs + n + (length xs + n) div 4 + 4 < 2 ^ 64" using fits_less [OF fit sz] by simp
  then have mod: "(length xs + n) mod 2 ^ 64 = length xs + n" by (intro mod_less) linarith
  show ?thesis
  proof (cases "dq_capacity q \<ge> length xs + n")
    case True
    then show ?thesis using h holds_size [OF h] mod by (simp add: ExpandCapacityIfNecessary_def)
  next
    case False
    let ?c = "dq_capacity q" and ?m = "length xs + n"
    let ?new = "max (max ?m 3) (?c + ?c div 4)"
    have c: "?c + ?c div 4 \<le> ?m + ?m div 4" using False by (intro add_le_mono div_le_mono) simp_all
    then have "(?c + ?c div 4) mod 2 ^ 64 = ?c + ?c div 4" using small by (intro mod_less) linarith
    then have e: "ExpandCapacityIfNecessary sz n q = SetCapacityTo sz ?new q"
      using False holds_size [OF h] mod by (simp add: ExpandCapacityIfNecessary_def)
    have "?new + 1 \<le> ?m + ?m div 4 + 4" using c by simp
    then have "sz * (?new + 1) \<le> sz * (?m + ?m div 4 + 4)" by (rule mult_le_mono2)
    then have room: "sz * (?new + 1) < 2 ^ 63" using fit by (simp add: fits_def)
    have le: "length xs \<le> ?new" by (simp add: le_max_iff_disj)
    obtain q' where "SetCapacityTo sz ?new q = Inr q'" "holds_list sz q' xs" "dq_capacity q' = ?new" "dq_begin q' = 0"
        "dq_generation q' = dq_generation q"
      using SetCapacityTo_ok [OF h le room] by blast
    then show ?thesis using e False by (auto simp: le_max_iff_disj)
  qed
qed

lemma ShrinkCapacity_ok:
  assumes h: "holds_list sz q xs"
  shows "\<exists>q'. ShrinkCapacityIfNecessary sz q = Inr q' \<and> holds_list sz q' xs \<and> dq_generation q' = dq_generation q \<and>
    dq_capacity q' \<le> max 3 (2 * length xs)"
proof -
  let ?c = "dq_capacity q" and ?n = "length xs"
  consider "?c \<le> 3" | "3 < ?c" "?c - ?n < ?n" | "3 < ?c" "?n \<le> ?c - ?n" by linarith
  then show ?thesis
  proof cases
    case 3
    let ?new = "max 3 (?n + ?n div 4)"
    have cap: "dq_cap q = ?c + 1" using 3(1) by (auto simp: dq_capacity_def split: if_splits)
    have less: "?n + ?n div 4 < 2 ^ 64 \<and> ?new < ?c"
      using 3 holds_limit [OF h] cap by (auto simp: max_def)
    have "sz * (?new + 1) \<le> sz * dq_cap q" using less cap by (intro mult_le_mono2) simp
    then have room: "sz * (?new + 1) < 2 ^ 63" using h by (simp add: holds_list_def)
    have le: "length xs \<le> ?new" by (simp add: le_max_iff_disj)
    obtain q' where "SetCapacityTo sz ?new q = Inr q'" "holds_list sz q' xs" "dq_capacity q' = ?new"
        "dq_generation q' = dq_generation q"
      using SetCapacityTo_ok [OF h le room] by blast
    moreover have "?new \<le> max 3 (2 * ?n)" by (intro max.mono) linarith+
    ultimately show ?thesis using 3 less holds_size [OF h]
      by (simp add: ShrinkCapacityIfNecessary_def Let_def)
  qed (use h holds_size [OF h] in \<open>simp_all add: ShrinkCapacityIfNecessary_def\<close>)
qed

end
