(* ===== verification/Deque_Ends.thy ===== *)
theory Deque_Ends
  imports Deque_Capacity
begin

text \<open>
  Access, and adding and removing at the ends: on a deque that holds a list each operation returns, and leaves
  one that holds the list the operation on lists gives.
\<close>

section \<open>Reading\<close>

lemma dq_at_ok:
  assumes h: "holds_list sz q xs" and i: "i < length xs"
  shows "dq_at d i q = Inr (xs ! i)"
proof -
  have s: "spans q (length xs)" by (rule holds_spans_elem [OF h i])
  then have "(if dq_begin q \<le> dq_end q \<or> i < dq_cap q - dq_begin q then dq_begin q + i else i - (dq_cap q - dq_begin q)) = spot q i"
    using i by (auto simp: spans_def spot_if on_ring_def split: if_splits)
  then show ?thesis
    using read_elem [OF h i] i holds_size [OF h] by (auto simp: dq_at_def Let_def split: if_splits)
qed

lemma dq_front_ok: "holds_list sz q xs \<Longrightarrow> xs \<noteq> [] \<Longrightarrow> dq_front d q = Inr (hd xs)"
  using read_elem [of sz q xs 0] holds_empty [of sz q xs] holds_spans_elem [of sz q xs 0]
  by (simp add: dq_front_def spans_def spot_0 hd_conv_nth)

lemma dq_back_ok:
  assumes h: "holds_list sz q xs" and ne: "xs \<noteq> []"
  shows "dq_back d q = Inr (last xs)"
proof -
  obtain n where n: "length xs = Suc n" using ne by (cases xs) auto
  have s: "spans q (Suc n)" using holds_spans_elem [OF h, of 0] n by simp
  obtain it where "it_Decrement d (end_it q) q = Inr it" "it_at q it n"
    using it_Decrement_ok [OF s] end_at [OF h] n by fastforce
  then show ?thesis
    using it_deref_ok [OF h, of it n] n ne holds_empty [OF h] by (simp add: dq_back_def last_conv_nth)
qed

section \<open>Adding\<close>

text \<open>The generation after a change.\<close>

definition next_gen :: "bool \<Rightarrow> nat \<Rightarrow> nat" where
  "next_gen d g = (if d then (g + 1) mod 2 ^ 64 else g)"

lemma IncrementGeneration_eq: "IncrementGeneration d q = q\<lparr>dq_generation := next_gen d (dq_generation q)\<rparr>"
  by (simp add: IncrementGeneration_def next_gen_def)

lemma holds_cells: "holds_list sz q xs \<Longrightarrow> dq_cap q \<noteq> 0 \<Longrightarrow> cells_of q = map Some xs @ replicate (dq_cap q - length xs) None"
  by (simp add: holds_list_def)

lemma room_cells:
  assumes "holds_list sz q xs" "length xs + 1 < dq_cap q"
  shows "cells_of q = map Some xs @ None # replicate (dq_cap q - Suc (length xs)) None"
proof -
  have "dq_cap q - length xs = Suc (dq_cap q - Suc (length xs))" "dq_cap q \<noteq> 0" using assms(2) by linarith+
  then show ?thesis using holds_cells [OF assms(1)] by (metis replicate_Suc)
qed

lemma holdsI:
  "sz > 0 \<Longrightarrow> sz * dq_cap q < 2 ^ 63 \<Longrightarrow> on_ring q \<Longrightarrow> length xs < dq_cap q \<Longrightarrow> dq_end q = spot q (length xs) \<Longrightarrow>
    cells_of q = map Some xs @ replicate (dq_cap q - length xs) None \<Longrightarrow> holds_list sz q xs"
  by (auto simp: holds_list_def on_ring_def)

lemma emplace_back_ok:
  assumes h: "holds_list sz q xs" and fit: "fits sz (length xs + 1)"
  shows "\<exists>q'. emplace_back sz d x q = Inr (x, q') \<and> holds_list sz q' (xs @ [x]) \<and>
    dq_generation q' = next_gen d (dq_generation q)"
proof -
  obtain q1 where q1: "ExpandCapacityIfNecessary sz 1 q = Inr q1" "holds_list sz q1 xs" "length xs + 1 \<le> dq_capacity q1"
    "dq_generation q1 = dq_generation q"
    using ExpandCapacity_ok [OF h, of 1] fit by auto
  then have cap: "length xs + 1 < dq_cap q1" by (auto simp: dq_capacity_def split: if_splits)
  then have s: "spans q1 (length xs)" using holds_spans [OF q1(2)] by fastforce
  then have ring: "on_ring q1" by (rule spans_ring)
  let ?b = "(dq_buffer q1)[spot q1 (length xs) := Some x]"
  let ?e = "if dq_end q1 = dq_cap q1 - 1 then 0 else dq_end q1 + 1"
  let ?q = "IncrementGeneration d (q1\<lparr>dq_buffer := ?b, dq_end := ?e\<rparr>)"
  have e: "dq_end q1 = spot q1 (length xs)" by (rule holds_end [OF q1(2)])
  have new: "cell_new (dq_end q1) x (dq_buffer q1) = Inr ?b"
    using spot_less [OF ring, of "length xs"] by (simp add: cell_new_def cell_index_def e)
  have "dq_end q1 = dq_cap q1 - 1 \<longleftrightarrow> spot q1 (length xs) + 1 = dq_cap q1" using cap e by auto
  then have "?e = spot q1 (Suc (length xs))" using spot_Suc [OF ring, of "length xs"] e by (auto split: if_splits)
  moreover have "cells_of (q1\<lparr>dq_buffer := ?b\<rparr>) = map Some (xs @ [x]) @ replicate (dq_cap q1 - length (xs @ [x])) None"
    using room_cells [OF q1(2) cap] cells_update [OF ring, of "length xs" "Some x"] cap
    by (simp add: list_update_append)
  ultimately have h': "holds_list sz ?q (xs @ [x])"
    using q1(2) cap ring unfolding holds_Increment
    by (intro holdsI) (auto simp: holds_list_def on_ring_def spot_def cells_of_def)
  then show ?thesis
    using q1(1,4) new dq_back_ok [OF h'] by (simp add: emplace_back_def Let_def IncrementGeneration_eq)
qed

text \<open>Moving the begin index by one rotates the cells by one.\<close>

lemma cells_rotate:
  assumes "on_ring q" and b: "b < dq_cap q" "dq_begin q = (if b + 1 = dq_cap q then 0 else b + 1)"
  shows "cells_of q = rotate1 (cells_of (q\<lparr>dq_begin := b\<rparr>))"
proof -
  have "cells_of q = rotate (Suc b) (dq_buffer q)"
    using b by (cases "b + 1 = dq_cap q") (auto simp: cells_of_def rotate_id simp del: rotate_Suc)
  then show ?thesis by (simp add: cells_of_def)
qed

lemma emplace_front_ok:
  assumes h: "holds_list sz q xs" and fit: "fits sz (length xs + 1)"
  shows "\<exists>q'. emplace_front sz d x q = Inr (x, q') \<and> holds_list sz q' (x # xs) \<and>
    dq_generation q' = next_gen d (dq_generation q)"
proof -
  obtain q1 where q1: "ExpandCapacityIfNecessary sz 1 q = Inr q1" "holds_list sz q1 xs" "length xs + 1 \<le> dq_capacity q1"
    "dq_generation q1 = dq_generation q"
    using ExpandCapacity_ok [OF h, of 1] fit by auto
  then have cap: "length xs + 1 < dq_cap q1" by (auto simp: dq_capacity_def split: if_splits)
  then have s: "spans q1 (length xs)" using holds_spans [OF q1(2)] by fastforce
  then have ring: "on_ring q1" by (rule spans_ring)
  define a where "a = (if dq_begin q1 = 0 then dq_cap q1 - 1 else dq_begin q1 - 1)"
  let ?q2 = "q1\<lparr>dq_begin := a\<rparr>"
  let ?b = "(dq_buffer q1)[a := Some x]"
  let ?q = "(IncrementGeneration d ?q2)\<lparr>dq_buffer := ?b\<rparr>"
  have a: "a < dq_cap q1" "dq_begin q1 = (if a + 1 = dq_cap q1 then 0 else a + 1)"
    using ring cap by (auto simp: on_ring_def a_def)
  have ring2: "on_ring ?q2" using a(1) by (simp add: on_ring_def)
  have "map Some xs @ None # replicate (dq_cap q1 - Suc (length xs)) None =
      (map Some xs @ replicate (dq_cap q1 - Suc (length xs)) None) @ [None]"
    by (simp add: replicate_append_same)
  then have "rotate1 (cells_of ?q2) = (map Some xs @ replicate (dq_cap q1 - Suc (length xs)) None) @ [None]"
    using cells_rotate [OF ring a] room_cells [OF q1(2) cap] by simp
  then have c2: "cells_of ?q2 = None # map Some xs @ replicate (dq_cap q1 - Suc (length xs)) None"
    by (cases "cells_of ?q2") (auto simp del: replicate_append_same)
  have "spot ?q2 0 = a" by (simp add: spot_0 [OF ring2])
  then have "cells_of (?q2\<lparr>dq_buffer := ?b\<rparr>) = (cells_of ?q2)[0 := Some x]"
    using cells_update [OF ring2, of 0 "Some x"] a(1) by (cases "dq_buffer q1 = []") simp_all
  then have c: "cells_of ?q = map Some (x # xs) @ replicate (dq_cap q1 - length (x # xs)) None"
    using c2 by (simp add: IncrementGeneration_eq cells_of_def)
  have "dq_begin q1 = Suc a mod dq_cap q1" using a by (auto split: if_splits)
  then have "dq_end q1 = spot ?q2 (Suc (length xs))"
    using holds_end [OF q1(2)] by (simp add: spot_def mod_add_left_eq)
  then have h': "holds_list sz ?q (x # xs)"
    using q1(2) cap ring2 c
    by (intro holdsI) (auto simp: holds_list_def on_ring_def spot_def IncrementGeneration_eq)
  moreover have "cell_new a x (dq_buffer q1) = Inr ?b" using a(1) by (simp add: cell_new_def cell_index_def)
  ultimately show ?thesis
    using q1(1,4) dq_front_ok [OF h'] by (simp add: emplace_front_def Let_def IncrementGeneration_eq flip: a_def)
qed

end
