(* ===== verification/Deque_Remove.thy ===== *)
theory Deque_Remove
  imports Deque_Ends
begin

text \<open>Destroying elements: the ends, a range, everything.\<close>

section \<open>Destroying a range\<close>

lemma destroy_cells_ok:
  "i + n \<le> length b \<Longrightarrow> \<forall>j. i \<le> j \<and> j < i + n \<longrightarrow> b ! j \<noteq> None \<Longrightarrow>
    \<exists>b'. destroy_cells n i b = Inr b' \<and> length b' = length b \<and>
      (\<forall>j. b' ! j = (if i \<le> j \<and> j < i + n then None else b ! j))"
proof (induction n arbitrary: i b)
  case (Suc n)
  let ?b = "b[i := None]"
  have "\<forall>j. Suc i \<le> j \<and> j < Suc i + n \<longrightarrow> ?b ! j \<noteq> None" using Suc.prems(2) by simp
  then obtain b' where r: "destroy_cells n (Suc i) ?b = Inr b'" "length b' = length b"
      "\<forall>j. b' ! j = (if Suc i \<le> j \<and> j < Suc i + n then None else ?b ! j)"
    using Suc.IH [of "Suc i" ?b] Suc.prems(1) by auto
  have "b' ! j = (if i \<le> j \<and> j < i + Suc n then None else b ! j)" for j
    using spec [OF r(3), of j] Suc.prems(1) by (auto simp: nth_list_update)
  then show ?case using Suc.prems r(1,2) by simp
qed auto

lemma buf_DestructRange_ok:
  assumes "i \<le> j" "j \<le> length b" "\<forall>m. i \<le> m \<and> m < j \<longrightarrow> b ! m \<noteq> None"
  shows "\<exists>b'. buf_DestructRange i j b = Inr b' \<and> length b' = length b \<and>
    (\<forall>m. b' ! m = (if i \<le> m \<and> m < j then None else b ! m))"
  using destroy_cells_ok [of i "j - i" b] assms by (simp add: buf_DestructRange_def cell_index_def)

text \<open>Between two places the elements are destroyed, in one piece or around the end of the buffer.\<close>

lemma dq_DestructRange_ok:
  assumes ring: "on_ring q" and ij: "i \<le> j" "j < dq_cap q" and live: "\<forall>m. i \<le> m \<and> m < j \<longrightarrow> cells_of q ! m \<noteq> None"
  shows "\<exists>b'. dq_DestructRange (spot q i) (spot q j) q = Inr (q\<lparr>dq_buffer := b'\<rparr>) \<and> length b' = dq_cap q \<and>
    (\<forall>m < dq_cap q. cells_of (q\<lparr>dq_buffer := b'\<rparr>) ! m = (if i \<le> m \<and> m < j then None else cells_of q ! m))"
proof -
  let ?P = "\<lambda>p. if spot q i \<le> spot q j then spot q i \<le> p \<and> p < spot q j else spot q i \<le> p \<or> p < spot q j"
  have places: "?P (spot q m) \<longleftrightarrow> i \<le> m \<and> m < j" if "m < dq_cap q" for m
    using that ij ring by (auto simp: spot_if on_ring_def split: if_splits)
  have phys: "\<exists>m < dq_cap q. p = spot q m" if "p < dq_cap q" for p
  proof (cases "dq_begin q \<le> p")
    case True
    then show ?thesis using that ring by (intro exI [of _ "p - dq_begin q"]) (auto simp: spot_if on_ring_def)
  next
    case False
    then show ?thesis using that ring by (intro exI [of _ "dq_cap q - dq_begin q + p"]) (auto simp: spot_if on_ring_def)
  qed
  have live': "dq_buffer q ! p \<noteq> None" if p: "p < dq_cap q" "?P p" for p
  proof -
    obtain m where m: "m < dq_cap q" "p = spot q m" using phys [OF p(1)] by blast
    then have "i \<le> m \<and> m < j" using places p(2) by blast
    then have "cells_of q ! m \<noteq> None" using live by blast
    then show ?thesis using cells_nth [OF ring m(1)] m(2) by simp
  qed
  have less: "spot q i < dq_cap q" "spot q j < dq_cap q" using spot_less [OF ring] by auto
  obtain b' where b': "dq_DestructRange (spot q i) (spot q j) q = Inr (q\<lparr>dq_buffer := b'\<rparr>)" "length b' = dq_cap q"
    "\<forall>p < dq_cap q. b' ! p = (if ?P p then None else dq_buffer q ! p)"
  proof (cases "spot q i < spot q j")
    case True
    then obtain b' where "buf_DestructRange (spot q i) (spot q j) (dq_buffer q) = Inr b'" "length b' = dq_cap q"
        "\<forall>m. b' ! m = (if spot q i \<le> m \<and> m < spot q j then None else dq_buffer q ! m)"
      using buf_DestructRange_ok [of "spot q i" "spot q j" "dq_buffer q"] live' less by auto
    then show thesis using that [of b'] True by (simp add: dq_DestructRange_def)
  next
    case not_less: False
    show thesis
    proof (cases "spot q i = spot q j")
      case True
      show thesis by (rule that [of "dq_buffer q"]) (use True in \<open>auto simp: dq_DestructRange_def\<close>)
    next
      case False
      then have gt: "\<not> spot q i \<le> spot q j" using not_less by simp
      then obtain b1 where b1: "buf_DestructRange (spot q i) (dq_cap q) (dq_buffer q) = Inr b1" "length b1 = dq_cap q"
          "\<forall>m. b1 ! m = (if spot q i \<le> m \<and> m < dq_cap q then None else dq_buffer q ! m)"
        using buf_DestructRange_ok [of "spot q i" "dq_cap q" "dq_buffer q"] live' less by auto
      then obtain b2 where "buf_DestructRange 0 (spot q j) b1 = Inr b2" "length b2 = dq_cap q"
          "\<forall>m. b2 ! m = (if m < spot q j then None else b1 ! m)"
        using buf_DestructRange_ok [of 0 "spot q j" b1] live' less gt by auto
      then show thesis using that [of b2] gt b1 by (auto simp: dq_DestructRange_def)
    qed
  qed
  have "cells_of (q\<lparr>dq_buffer := b'\<rparr>) ! m = (if i \<le> m \<and> m < j then None else cells_of q ! m)" if m: "m < dq_cap q" for m
  proof -
    have "on_ring (q\<lparr>dq_buffer := b'\<rparr>)" using ring b'(2) by (simp add: on_ring_def)
    then have "cells_of (q\<lparr>dq_buffer := b'\<rparr>) ! m = b' ! spot q m"
      using cells_nth [of "q\<lparr>dq_buffer := b'\<rparr>" m] m b'(2) by (simp add: spot_def)
    then show ?thesis
      using b'(3) places [OF m] cells_nth [OF ring m] spot_less [OF ring, of m] by simp
  qed
  then show ?thesis using b'(1,2) by blast
qed

section \<open>Taking elements away\<close>

lemma destroy_elems:
  assumes h: "holds_list sz q xs" and ring: "on_ring q" and ij: "i \<le> j" "j \<le> length xs"
  shows "\<exists>b'. dq_DestructRange (spot q i) (spot q j) q = Inr (q\<lparr>dq_buffer := b'\<rparr>) \<and> length b' = dq_cap q \<and>
    cells_of (q\<lparr>dq_buffer := b'\<rparr>) =
      map Some (take i xs) @ replicate (j - i) None @ map Some (drop j xs) @ replicate (dq_cap q - length xs) None"
proof -
  have nz: "dq_cap q \<noteq> 0" using ring by (auto simp: on_ring_def)
  have len: "length xs < dq_cap q" and c: "cells_of q = map Some xs @ replicate (dq_cap q - length xs) None"
    using h nz by (auto simp: holds_list_def split: if_splits)
  have "\<forall>m. i \<le> m \<and> m < j \<longrightarrow> cells_of q ! m \<noteq> None" using c ij by (simp add: nth_append)
  then obtain b' where b': "dq_DestructRange (spot q i) (spot q j) q = Inr (q\<lparr>dq_buffer := b'\<rparr>)" "length b' = dq_cap q"
      "\<forall>m < dq_cap q. cells_of (q\<lparr>dq_buffer := b'\<rparr>) ! m = (if i \<le> m \<and> m < j then None else cells_of q ! m)"
    using dq_DestructRange_ok [OF ring ij(1)] ij(2) len by fastforce
  have "cells_of (q\<lparr>dq_buffer := b'\<rparr>) =
      map Some (take i xs) @ replicate (j - i) None @ map Some (drop j xs) @ replicate (dq_cap q - length xs) None"
  proof (rule nth_equalityI)
    fix m assume "m < length (cells_of (q\<lparr>dq_buffer := b'\<rparr>))"
    then have m: "m < dq_cap q" using b'(2) by simp
    then show "cells_of (q\<lparr>dq_buffer := b'\<rparr>) ! m =
        (map Some (take i xs) @ replicate (j - i) None @ map Some (drop j xs) @ replicate (dq_cap q - length xs) None) ! m"
      using b'(3) ij len c by (auto simp: nth_append)
  qed (use b'(2) ij len in simp)
  then show ?thesis using b'(1,2) by blast
qed

lemma cells_begin: "on_ring q \<Longrightarrow> cells_of (q\<lparr>dq_begin := spot q j\<rparr>) = rotate j (cells_of q)"
proof -
  have "rotate (spot q j) (dq_buffer q) = rotate (dq_begin q + j) (dq_buffer q)"
    unfolding spot_def by (rule rotate_conv_mod [symmetric])
  then show ?thesis by (simp add: cells_of_def rotate_rotate add.commute)
qed

lemma drop_front:
  assumes "sz > 0" "sz * dq_cap q < 2 ^ 63" and ring: "on_ring q"
    and c: "cells_of q = replicate j None @ map Some ys @ replicate k None" and k: "j + k > 0"
    and e: "dq_end q = spot q (j + length ys)"
  shows "holds_list sz (q\<lparr>dq_begin := spot q j\<rparr>) ys"
proof (rule holdsI)
  let ?q = "q\<lparr>dq_begin := spot q j\<rparr>"
  have n: "dq_cap q = j + length ys + k" using arg_cong [OF c, of length] by simp
  show "on_ring ?q" using spot_less [OF ring] by (simp add: on_ring_def)
  show "length ys < dq_cap ?q" using n k by simp
  show "dq_end ?q = spot ?q (length ys)" using e by (simp add: spot_def mod_add_left_eq add.assoc)
  have "rotate j (cells_of q) = (map Some ys @ replicate k None) @ replicate j None"
    using rotate_append [of "replicate j None" "map Some ys @ replicate k None"] c by simp
  then show "cells_of ?q = map Some ys @ replicate (dq_cap ?q - length ys) None"
    using n by (simp add: cells_begin [OF ring] add.commute flip: replicate_add)
qed (use assms in simp_all)

lemma drop_back:
  assumes "sz > 0" "sz * dq_cap q < 2 ^ 63" and ring: "on_ring q"
    and c: "cells_of q = map Some ys @ replicate k None" and k: "k > 0"
  shows "holds_list sz (q\<lparr>dq_end := spot q (length ys)\<rparr>) ys"
proof (rule holdsI)
  have n: "dq_cap q = length ys + k" using arg_cong [OF c, of length] by simp
  then show "cells_of (q\<lparr>dq_end := spot q (length ys)\<rparr>) =
      map Some ys @ replicate (dq_cap (q\<lparr>dq_end := spot q (length ys)\<rparr>) - length ys) None"
    using c by (simp add: cells_of_def)
  show "length ys < dq_cap (q\<lparr>dq_end := spot q (length ys)\<rparr>)" using n k by simp
qed (use assms in \<open>simp_all add: on_ring_def spot_def\<close>)

text \<open>After a pop at most as much room is unused as there are elements, above the smallest capacity.\<close>

lemma destroy_one:
  assumes h: "holds_list sz q xs" and i: "i < length xs"
  shows "buf_DestructRange (spot q i) (spot q i + 1) (dq_buffer q) = Inr ((dq_buffer q)[spot q i := None])"
    "cells_of (q\<lparr>dq_buffer := (dq_buffer q)[spot q i := None]\<rparr>) =
      (map Some xs @ replicate (dq_cap q - length xs) None)[i := None]"
proof -
  have c: "on_ring q" "i < dq_cap q" using holds_cell [OF h i] by auto
  then have "dq_cap q \<noteq> 0" by linarith
  then show "cells_of (q\<lparr>dq_buffer := (dq_buffer q)[spot q i := None]\<rparr>) =
      (map Some xs @ replicate (dq_cap q - length xs) None)[i := None]"
    using cells_update [OF c, of None] holds_cells [OF h] by simp
  show "buf_DestructRange (spot q i) (spot q i + 1) (dq_buffer q) = Inr ((dq_buffer q)[spot q i := None])"
    using elem_at_spot [OF h i] by (simp add: buf_DestructRange_def cell_index_def)
qed

lemma pop_front_ok:
  assumes h: "holds_list sz q (x # xs)"
  shows "\<exists>q'. pop_front sz d q = Inr q' \<and> holds_list sz q' xs \<and> dq_generation q' = next_gen d (dq_generation q) \<and>
    dq_capacity q' \<le> max 3 (2 * length xs)"
proof -
  have s: "spans q (Suc (length xs))" using holds_spans_elem [OF h, of 0] by simp
  then have ring: "on_ring q" by (rule spans_ring)
  have e: "dq_end q = spot q (Suc (length xs))" and len: "Suc (length xs) < dq_cap q" using s by (simp_all add: spans_def)
  let ?b = "(dq_buffer q)[spot q 0 := None]"
  let ?q = "q\<lparr>dq_buffer := ?b, dq_begin := spot q 1\<rparr>"
  note one = destroy_one [OF h, of 0, simplified]
  have "holds_list sz ((q\<lparr>dq_buffer := ?b\<rparr>)\<lparr>dq_begin := spot (q\<lparr>dq_buffer := ?b\<rparr>) 1\<rparr>) xs"
    using one(2) h ring e len by (intro drop_front) (auto simp: holds_list_def on_ring_def spot_def)
  then have h1: "holds_list sz ?q xs" by (simp add: spot_def)
  have next_begin: "(if dq_begin q + 1 = dq_cap q then 0 else dq_begin q + 1) = spot q 1"
    using spot_Suc [OF ring, of 0] spot_0 [OF ring] by (auto split: if_splits)
  obtain q' where "ShrinkCapacityIfNecessary sz ?q = Inr q'" "holds_list sz q' xs" "dq_generation q' = dq_generation q"
      "dq_capacity q' \<le> max 3 (2 * length xs)"
    using ShrinkCapacity_ok [OF h1] by auto
  then show ?thesis using holds_size [OF h] next_begin one(1) spot_0 [OF ring]
    by (simp add: pop_front_def IncrementGeneration_eq)
qed

lemma pop_back_ok:
  assumes h: "holds_list sz q (xs @ [x])"
  shows "\<exists>q'. pop_back sz d q = Inr q' \<and> holds_list sz q' xs \<and> dq_generation q' = next_gen d (dq_generation q) \<and>
    dq_capacity q' \<le> max 3 (2 * length xs)"
proof -
  have s: "spans q (Suc (length xs))" using holds_spans_elem [OF h, of 0] by simp
  then have ring: "on_ring q" by (rule spans_ring)
  have e: "dq_end q = spot q (Suc (length xs))" and len: "Suc (length xs) < dq_cap q" using s by (simp_all add: spans_def)
  let ?b = "(dq_buffer q)[spot q (length xs) := None]"
  let ?q = "q\<lparr>dq_buffer := ?b, dq_end := spot q (length xs)\<rparr>"
  note one = destroy_one [OF h, of "length xs", simplified]
  have "holds_list sz ((q\<lparr>dq_buffer := ?b\<rparr>)\<lparr>dq_end := spot (q\<lparr>dq_buffer := ?b\<rparr>) (length xs)\<rparr>) xs"
  proof (rule drop_back [where k = "Suc (dq_cap q - Suc (length xs))"])
    show "cells_of (q\<lparr>dq_buffer := ?b\<rparr>) = map Some xs @ replicate (Suc (dq_cap q - Suc (length xs))) None"
      using one(2) by (simp add: list_update_append)
  qed (use h ring in \<open>simp_all add: holds_list_def on_ring_def\<close>)
  then have h1: "holds_list sz ?q xs" by (simp add: spot_def)
  have last_place: "(if dq_end q = 0 then dq_cap q - 1 else dq_end q - 1) = spot q (length xs)"
    unfolding e by (rule spot_pred [OF ring])
  obtain q' where "ShrinkCapacityIfNecessary sz ?q = Inr q'" "holds_list sz q' xs" "dq_generation q' = dq_generation q"
      "dq_capacity q' \<le> max 3 (2 * length xs)"
    using ShrinkCapacity_ok [OF h1] by auto
  then show ?thesis using holds_size [OF h] last_place one(1)
    by (simp add: pop_back_def Let_def IncrementGeneration_eq)
qed

section \<open>Clearing, assigning, resizing\<close>

text \<open>The places of a deque's ends, with or without a buffer.\<close>

lemma destroy_all:
  assumes h: "holds_list sz q xs"
  shows "\<exists>b'. dq_DestructRange (dq_begin q) (dq_end q) q = Inr (q\<lparr>dq_buffer := b'\<rparr>) \<and> length b' = dq_cap q \<and>
    (\<forall>m < dq_cap q. b' ! m = None)"
proof (cases "dq_cap q = 0")
  case True
  then have "dq_begin q = dq_end q" using h by (simp add: holds_list_def)
  then show ?thesis using True by (intro exI [of _ "dq_buffer q"]) (simp add: dq_DestructRange_def)
next
  case False
  then have ring: "on_ring q" and e: "dq_end q = spot q (length xs)" and len: "length xs < dq_cap q"
    using h by (simp_all add: holds_list_def)
  obtain b' where b': "dq_DestructRange (spot q 0) (spot q (length xs)) q = Inr (q\<lparr>dq_buffer := b'\<rparr>)" "length b' = dq_cap q"
      "cells_of (q\<lparr>dq_buffer := b'\<rparr>) = replicate (length xs) None @ replicate (dq_cap q - length xs) None"
    using destroy_elems [OF h ring, of 0 "length xs"] by auto
  have "set b' = {None}"
  proof -
    have "set (rotate (dq_begin q) b') = set (replicate (dq_cap q) None :: 'a dq_cells)"
      using b'(3) len by (simp add: cells_of_def flip: replicate_add)
    then show ?thesis using False by simp
  qed
  then have "b' ! m = None" if "m < dq_cap q" for m using that b'(2) nth_mem [of m b'] by simp
  then show ?thesis using b' e spot_0 [OF ring] by auto
qed

lemma Clear_ok:
  assumes h: "holds_list sz q xs"
  shows "\<exists>q'. ClearRetainCapacity d q = Inr q' \<and> holds_list sz q' [] \<and> dq_cap q' = dq_cap q \<and>
    dq_begin q' = 0 \<and> dq_end q' = 0 \<and> dq_generation q' = next_gen d (dq_generation q)"
proof -
  obtain b' where b': "dq_DestructRange (dq_begin q) (dq_end q) q = Inr (q\<lparr>dq_buffer := b'\<rparr>)" "length b' = dq_cap q"
      "\<forall>m < dq_cap q. b' ! m = None"
    using destroy_all [OF h] by auto
  let ?q = "q\<lparr>dq_buffer := b', dq_begin := 0, dq_end := 0\<rparr>"
  have "b' = replicate (dq_cap q) None" using b'(2,3) by (intro nth_equalityI) simp_all
  then have "holds_list sz ?q []" using h by (auto simp: holds_list_def on_ring_def spot_def cells_of_def)
  then show ?thesis using b'(1,2) by (simp add: ClearRetainCapacity_def IncrementGeneration_eq)
qed

lemma dq_clear_ok:
  assumes h: "holds_list sz q xs"
  shows "\<exists>q'. dq_clear d q = Inr q' \<and> holds_list sz q' [] \<and> dq_capacity q' = 0"
proof -
  obtain q' where "ClearRetainCapacity d q = Inr q'" "dq_begin q' = 0" "dq_end q' = 0" using Clear_ok [OF h] by blast
  then show ?thesis using h by (simp add: dq_clear_def holds_list_def dq_capacity_def)
qed

lemma push_back_ok:
  "holds_list sz q xs \<Longrightarrow> fits sz (length xs + 1) \<Longrightarrow>
    \<exists>q'. push_back sz d x q = Inr q' \<and> holds_list sz q' (xs @ [x]) \<and> dq_generation q' = next_gen d (dq_generation q)"
  using emplace_back_ok [of sz q xs d x] by (auto simp: push_back_def)

lemma push_front_ok:
  "holds_list sz q xs \<Longrightarrow> fits sz (length xs + 1) \<Longrightarrow>
    \<exists>q'. push_front sz d x q = Inr q' \<and> holds_list sz q' (x # xs) \<and> dq_generation q' = next_gen d (dq_generation q)"
  using emplace_front_ok [of sz q xs d x] by (auto simp: push_front_def)

lemma push_all_ok:
  "holds_list sz q xs \<Longrightarrow> fits sz (length xs + length ys) \<Longrightarrow> \<exists>q'. push_all sz d ys q = Inr q' \<and> holds_list sz q' (xs @ ys)"
proof (induction ys arbitrary: q xs)
  case (Cons y ys)
  have "fits sz (length xs + 1)" by (rule fits_mono [OF Cons.prems(2)]) simp
  then obtain q1 where q1: "push_back sz d y q = Inr q1" "holds_list sz q1 (xs @ [y])"
    using push_back_ok [OF Cons.prems(1)] by blast
  then show ?case using Cons.IH [OF q1(2)] Cons.prems(2) by simp
qed simp

lemma reserve_ok:
  assumes h: "holds_list sz q xs" and n: "sz * (n + 1) < 2 ^ 63"
  shows "\<exists>q'. dq_reserve sz n q = Inr q' \<and> holds_list sz q' xs \<and> n \<le> dq_capacity q' \<and> dq_generation q' = dq_generation q"
proof (cases "n > dq_capacity q")
  case True
  then show ?thesis using SetCapacityTo_ok [OF h _ n] holds_capacity [OF h] by (auto simp: dq_reserve_def)
qed (use h in \<open>simp add: dq_reserve_def\<close>)

lemma shrink_to_fit_ok:
  assumes h: "holds_list sz q xs"
  shows "\<exists>q'. dq_shrink_to_fit sz q = Inr q' \<and> holds_list sz q' xs \<and> dq_capacity q' = length xs \<and>
    dq_generation q' = dq_generation q"
proof (cases "xs = []")
  case True
  then have "dq_empty q" "dq_begin q = dq_end q" using holds_empty [OF h] by (simp_all add: dq_empty_def)
  then show ?thesis using True h by (auto simp: dq_shrink_to_fit_def holds_list_def dq_capacity_def)
next
  case False
  have "length xs + 1 \<le> dq_cap q" using h False by (auto simp: holds_list_def split: if_splits)
  then have "sz * (length xs + 1) \<le> sz * dq_cap q" by (rule mult_le_mono2)
  then have "sz * (length xs + 1) < 2 ^ 63" using h unfolding holds_list_def by linarith
  then show ?thesis
    using SetCapacityTo_ok [OF h order_refl] False holds_empty [OF h] holds_size [OF h] by (auto simp: dq_shrink_to_fit_def)
qed

lemma assign_range_ok:
  assumes h: "holds_list sz q xs" and fit: "fits sz (length ys)"
  shows "\<exists>q'. assign_range sz d ys q = Inr q' \<and> holds_list sz q' ys"
proof -
  obtain q1 where q1: "ClearRetainCapacity d q = Inr q1" "holds_list sz q1 []" using Clear_ok [OF h] by blast
  then obtain q2 where "push_all sz d ys q1 = Inr q2" "holds_list sz q2 ys" using push_all_ok [OF q1(2)] fit by auto
  then show ?thesis using q1 by (simp add: assign_range_def)
qed

lemma fits_exact: "fits sz n \<Longrightarrow> sz * (n + 1) < 2 ^ 63"
proof -
  assume f: "fits sz n"
  have "sz * (n + 1) \<le> sz * (n + n div 4 + 4)" by (rule mult_le_mono2) simp
  then show ?thesis using f unfolding fits_def by linarith
qed

lemma assign_count_ok:
  assumes h: "holds_list sz q xs" and fit: "fits sz n"
  shows "\<exists>q'. assign_count sz d n v q = Inr q' \<and> holds_list sz q' (replicate n v)"
proof -
  obtain q1 where q1: "ClearRetainCapacity d q = Inr q1" "holds_list sz q1 []" using Clear_ok [OF h] by blast
  obtain q2 where q2: "dq_reserve sz n q1 = Inr q2" "holds_list sz q2 []" using reserve_ok [OF q1(2) fits_exact [OF fit]] by blast
  obtain q3 where "push_all sz d (replicate n v) q2 = Inr q3" "holds_list sz q3 (replicate n v)"
    using push_all_ok [OF q2(2), of "replicate n v"] fit by auto
  then show ?thesis using q1 q2 by (simp add: assign_count_def)
qed

lemma assign_list_ok:
  assumes h: "holds_list sz q xs" and fit: "fits sz (length ys)"
  shows "\<exists>q'. assign_list sz d ys q = Inr q' \<and> holds_list sz q' ys"
proof -
  obtain q1 where q1: "dq_reserve sz (length ys) q = Inr q1" "holds_list sz q1 xs"
    using reserve_ok [OF h fits_exact [OF fit]] by blast
  then show ?thesis using assign_range_ok [OF q1(2) fit] by (simp add: assign_list_def)
qed

lemma push_until_ok:
  "holds_list sz q xs \<Longrightarrow> fits sz (length xs + n) \<Longrightarrow>
    \<exists>q'. push_until n sz d (length xs + n) v q = Inr q' \<and> holds_list sz q' (xs @ replicate n v)"
proof (induction n arbitrary: q xs)
  case 0
  then show ?case using holds_size by fastforce
next
  case (Suc n)
  have "fits sz (length xs + 1)" by (rule fits_mono [OF Suc.prems(2)]) simp
  then obtain q1 where q1: "push_back sz d v q = Inr q1" "holds_list sz q1 (xs @ [v])"
    using push_back_ok [OF Suc.prems(1)] by blast
  then show ?case using Suc.IH [OF q1(2)] Suc.prems holds_size [OF Suc.prems(1)] by simp
qed

lemma resize_ok:
  assumes h: "holds_list sz q xs" and fit: "fits sz n"
  shows "\<exists>q'. dq_resize sz d n v q = Inr q' \<and> holds_list sz q' (take n xs @ replicate (n - length xs) v)"
proof (cases n "length xs" rule: linorder_cases)
  case greater
  then have "fits sz (length xs + (n - length xs))" using fit by simp
  then obtain q1 where q1: "ExpandCapacityIfNecessary sz (n - length xs) q = Inr q1" "holds_list sz q1 xs"
    using ExpandCapacity_ok [OF h] by blast
  then obtain q2 where "push_until (n - length xs) sz d n v q1 = Inr q2" "holds_list sz q2 (xs @ replicate (n - length xs) v)"
    using push_until_ok [OF q1(2), of "n - length xs" d v] fit greater by auto
  then show ?thesis using greater q1(1) holds_size [OF h] by (simp add: dq_resize_def)
next
  case less
  then have s: "spans q (length xs)" by (rule holds_spans_elem [OF h])
  then have ring: "on_ring q" and e: "dq_end q = spot q (length xs)" and nz: "dq_cap q \<noteq> 0" by (auto simp: spans_def)
  obtain b where b: "dq_DestructRange (spot q n) (spot q (length xs)) q = Inr (q\<lparr>dq_buffer := b\<rparr>)" "length b = dq_cap q"
      "cells_of (q\<lparr>dq_buffer := b\<rparr>) =
        map Some (take n xs) @ replicate (length xs - n) None @ replicate (dq_cap q - length xs) None"
    using destroy_elems [OF h ring, of n "length xs"] less by auto
  have len: "length (take n xs) = n" using less by simp
  have "holds_list sz ((q\<lparr>dq_buffer := b\<rparr>)\<lparr>dq_end := spot (q\<lparr>dq_buffer := b\<rparr>) (length (take n xs))\<rparr>) (take n xs)"
  proof (rule drop_back [where k = "(length xs - n) + (dq_cap q - length xs)"])
    show "cells_of (q\<lparr>dq_buffer := b\<rparr>) = map Some (take n xs) @ replicate ((length xs - n) + (dq_cap q - length xs)) None"
      using b(3) by (simp only: replicate_add)
  qed (use h b(2) ring less in \<open>auto simp: holds_list_def on_ring_def\<close>)
  then have h1: "holds_list sz (q\<lparr>dq_buffer := b, dq_end := spot q n\<rparr>) (take n xs)" using b(2) len by (simp add: spot_def)
  obtain q' where "ShrinkCapacityIfNecessary sz (q\<lparr>dq_buffer := b, dq_end := spot q n\<rparr>) = Inr q'" "holds_list sz q' (take n xs)"
    using ShrinkCapacity_ok [OF h1] by auto
  then show ?thesis using less nz b(1) e holds_size [OF h] by (simp add: dq_resize_def Let_def flip: spot_def)
qed (use h holds_size [OF h] in \<open>simp add: dq_resize_def\<close>)

end
