(* ===== verification/Deque_Middle.thy ===== *)
theory Deque_Middle
  imports Deque_Remove
begin

text \<open>
  Inserting and erasing in the middle: a hole in the list is moved element by element, in either
  direction.
\<close>

section \<open>A list with a hole\<close>

text \<open>\<open>xs\<close> with \<open>c\<close> cells of raw memory before its element \<open>s\<close>.\<close>

definition hole :: "'a list \<Rightarrow> nat \<Rightarrow> nat \<Rightarrow> nat \<Rightarrow> 'a option" where
  "hole xs c s m =
     (if m < s then Some (xs ! m) else if m < s + c then None
      else if m < length xs + c then Some (xs ! (m - c)) else None)"

definition shaped :: "'a deque \<Rightarrow> (nat \<Rightarrow> 'a option) \<Rightarrow> bool" where
  "shaped q f \<longleftrightarrow> (\<forall>m < dq_cap q. cells_of q ! m = f m)"

lemma holds_shaped: "holds_list sz q xs \<Longrightarrow> c + length xs < dq_cap q \<Longrightarrow> shaped q (hole xs c (length xs))"
  by (auto simp: holds_list_def shaped_def hole_def nth_append split: if_splits)

lemma shaped_holds:
  assumes "spans q n" "shaped q (\<lambda>m. if m < n then Some (xs ! m) else None)" "length xs = n" "sz > 0" "sz * dq_cap q < 2 ^ 63"
  shows "holds_list sz q xs"
proof (rule holdsI)
  show "cells_of q = map Some xs @ replicate (dq_cap q - length xs) None"
    using assms(1-3) by (intro nth_equalityI) (auto simp: shaped_def spans_def nth_append)
qed (use assms in \<open>auto simp: spans_def\<close>)

text \<open>Moving an element over the hole, one cell to either side.\<close>

lemma move_cell_logical:
  assumes ring: "on_ring q" and ik: "i < dq_cap q" "k < dq_cap q" "i \<noteq> k" and live: "cells_of q ! i \<noteq> None"
  shows "\<exists>b. move_cell (spot q i) (spot q k) (dq_buffer q) = Inr b \<and> length b = dq_cap q \<and>
    cells_of (q\<lparr>dq_buffer := b\<rparr>) = (cells_of q)[k := cells_of q ! i, i := None]"
proof -
  let ?b1 = "(dq_buffer q)[spot q k := dq_buffer q ! spot q i]"
  let ?q1 = "q\<lparr>dq_buffer := ?b1\<rparr>"
  have r1: "on_ring ?q1" using ring by (simp add: on_ring_def)
  have s1: "spot ?q1 i = spot q i" by (simp add: spot_def)
  have c1: "cells_of ?q1 = (cells_of q)[k := cells_of q ! i]"
    using cells_update [OF ring ik(2)] cells_nth [OF ring ik(1)] by simp
  have "cells_of (?q1\<lparr>dq_buffer := (dq_buffer ?q1)[spot ?q1 i := None]\<rparr>) = (cells_of ?q1)[i := None]"
    by (rule cells_update [OF r1]) (use ik in simp)
  then have "cells_of (q\<lparr>dq_buffer := ?b1[spot q i := None]\<rparr>) = (cells_of q)[k := cells_of q ! i, i := None]"
    using c1 s1 by simp
  moreover have "dq_buffer q ! spot q i \<noteq> None" using live cells_nth [OF ring ik(1)] by simp
  moreover have "spot q k \<noteq> spot q i" using spot_eq [OF ring ik(1,2)] ik(3) by auto
  ultimately show ?thesis
    using spot_less [OF ring, of i] spot_less [OF ring, of k] by (simp add: move_cell_def cell_index_def)
qed

lemma hole_step:
  assumes "shaped q (hole xs c (Suc s))" "s < length xs" "c > 0" "length xs + c < dq_cap q"
    "cells_of q' = (cells_of q)[s + c := cells_of q ! s, s := None]" "dq_cap q' = dq_cap q"
  shows "shaped q' (hole xs c s)"
  using assms by (auto simp: shaped_def hole_def nth_list_update)

lemma hole_step_back:
  assumes "shaped q (hole xs c s)" "s < length xs" "c > 0" "length xs + c < dq_cap q"
    "cells_of q' = (cells_of q)[s := cells_of q ! (s + c), s + c := None]" "dq_cap q' = dq_cap q"
  shows "shaped q' (hole xs c (Suc s))"
  using assms by (auto simp: shaped_def hole_def nth_list_update)

section \<open>The shifting loops\<close>

lemma move_right_ok:
  assumes "c > 0" "i \<le> s" "s \<le> length xs" "s - i < fuel"
  shows "spans q (length xs + c) \<Longrightarrow> it_at q ib i \<Longrightarrow> it_at q src s \<Longrightarrow> it_at q dest (s + c) \<Longrightarrow>
    shaped q (hole xs c s) \<Longrightarrow>
    \<exists>b. move_right fuel d ib src dest q = Inr (q\<lparr>dq_buffer := b\<rparr>) \<and> length b = dq_cap q \<and>
      shaped (q\<lparr>dq_buffer := b\<rparr>) (hole xs c i)"
  using assms(2-4)
proof (induction fuel arbitrary: s src dest q)
  case (Suc fuel)
  note s = Suc.prems(1)
  have eq: "it_eq d src ib = Inr (s = i)"
    using it_eq_ok [OF s Suc.prems(3,2)] Suc.prems(6,7) by simp
  show ?case
  proof (cases "s = i")
    case True
    then show ?thesis using eq Suc.prems(5) by (intro exI [of _ "dq_buffer q"]) simp
  next
    case False
    then obtain s' where s': "s = Suc s'" "i \<le> s'" using Suc.prems(6) by (cases s) auto
    obtain src' where src': "it_Decrement d src q = Inr src'" "it_at q src' s'"
      using it_Decrement_ok [OF s, of src s'] Suc.prems(3,7) s' by auto
    obtain dest' where dest': "it_Decrement d dest q = Inr dest'" "it_at q dest' (s' + c)"
      using it_Decrement_ok [OF s, of dest "s' + c"] Suc.prems(4,7) s' by auto
    have cap: "length xs + c < dq_cap q" and ring: "on_ring q" using s by (simp_all add: spans_def)
    have "cells_of q ! s' \<noteq> None" using Suc.prems(5,7) s' cap by (simp add: shaped_def hole_def)
    then obtain b where b: "move_cell (it_index src') (it_index dest') (dq_buffer q) = Inr b" "length b = dq_cap q"
        "cells_of (q\<lparr>dq_buffer := b\<rparr>) = (cells_of q)[s' + c := cells_of q ! s', s' := None]"
      using move_cell_logical [OF ring, of s' "s' + c"] src'(2) dest'(2) assms(1) Suc.prems(7) s' cap by (auto simp: it_at_def)
    let ?q = "q\<lparr>dq_buffer := b\<rparr>"
    have "shaped ?q (hole xs c s')"
      using hole_step [of q xs c s' ?q] Suc.prems(5,7) s' assms(1) cap b(2,3) by simp
    moreover have "s' - i < fuel" using Suc.prems(8) s' by arith
    ultimately obtain b' where "move_right fuel d ib src' dest' ?q = Inr (?q\<lparr>dq_buffer := b'\<rparr>)" "length b' = dq_cap ?q"
        "shaped (?q\<lparr>dq_buffer := b'\<rparr>) (hole xs c i)"
      using Suc.IH [of ?q src' s' dest'] s src'(2) dest'(2) Suc.prems(2,7,8) s' b(2) by auto
    then show ?thesis using eq False src'(1) dest'(1) b(1,2) by auto
  qed
qed simp

lemma move_left_ok:
  assumes "c > 0" "s \<le> length ys" "length ys - s < fuel"
  shows "spans q (length ys + c) \<Longrightarrow> it_at q src (s + c) \<Longrightarrow> it_at q src_end (length ys + c) \<Longrightarrow> it_at q dest s \<Longrightarrow>
    shaped q (hole ys c s) \<Longrightarrow>
    \<exists>it b. move_left fuel d src src_end dest q = Inr (it, q\<lparr>dq_buffer := b\<rparr>) \<and> length b = dq_cap q \<and>
      it_index it = spot q (length ys) \<and> shaped (q\<lparr>dq_buffer := b\<rparr>) (hole ys c (length ys))"
  using assms(2,3)
proof (induction fuel arbitrary: s src dest q)
  case (Suc fuel)
  note s = Suc.prems(1)
  have more: "it_less d src src_end q = Inr (s < length ys)"
    using it_less_ok [OF s Suc.prems(2,3)] Suc.prems(6) by simp
  show ?case
  proof (cases "s < length ys")
    case False
    then have "s = length ys" using Suc.prems(6) by simp
    then show ?thesis using more Suc.prems(4,5) by (auto simp: it_at_def intro!: exI [of _ "dq_buffer q"])
  next
    case True
    have cap: "length ys + c < dq_cap q" and ring: "on_ring q" using s by (simp_all add: spans_def)
    have "cells_of q ! (s + c) \<noteq> None" using Suc.prems(5) True cap by (simp add: shaped_def hole_def)
    then obtain b where b: "move_cell (it_index src) (it_index dest) (dq_buffer q) = Inr b" "length b = dq_cap q"
        "cells_of (q\<lparr>dq_buffer := b\<rparr>) = (cells_of q)[s := cells_of q ! (s + c), s + c := None]"
      using move_cell_logical [OF ring, of "s + c" s] Suc.prems(2,4) assms(1) True cap by (auto simp: it_at_def)
    let ?q = "q\<lparr>dq_buffer := b\<rparr>"
    have s1: "spans ?q (length ys + c)" using s b(2) by simp
    obtain src' where src': "it_Increment d src ?q = Inr src'" "it_at ?q src' (Suc s + c)"
      using it_Increment_ok [OF s1, of src "s + c"] Suc.prems(2) True b(2) by auto
    obtain dest' where dest': "it_Increment d dest ?q = Inr dest'" "it_at ?q dest' (Suc s)"
      using it_Increment_ok [OF s1, of dest s] Suc.prems(4) True b(2) by auto
    have "shaped ?q (hole ys c (Suc s))"
      using hole_step_back [of q ys c s ?q] Suc.prems(5) True assms(1) cap b(2,3) by simp
    moreover have "length ys - Suc s < fuel" using Suc.prems(7) True by arith
    ultimately obtain it b' where "move_left fuel d src' src_end dest' ?q = Inr (it, ?q\<lparr>dq_buffer := b'\<rparr>)" "length b' = dq_cap ?q"
        "it_index it = spot ?q (length ys)" "shaped (?q\<lparr>dq_buffer := b'\<rparr>) (hole ys c (length ys))"
      using Suc.IH [OF s1 src'(2) _ dest'(2)] Suc.prems(3,7) True b(2) by auto
    then show ?thesis using more True src'(1) dest'(1) b(1,2) by (auto simp: spot_def)
  qed
qed simp

section \<open>Making room and filling it\<close>

text \<open>A deque with a hole: room for \<open>c\<close> elements at \<open>i\<close>, raw memory still.\<close>

definition roomy :: "nat \<Rightarrow> 'a deque \<Rightarrow> 'a list \<Rightarrow> nat \<Rightarrow> nat \<Rightarrow> bool" where
  "roomy sz q xs c i \<longleftrightarrow> sz > 0 \<and> sz * dq_cap q < 2 ^ 63 \<and> spans q (length xs + c) \<and> shaped q (hole xs c i)"

lemma MakeRoomFor_ok:
  assumes h: "holds_list sz q xs" and fit: "fits sz (length xs + c)" and c: "c > 0"
    and ib: "it_at q ib i" "0 < i" "i \<le> length xs"
  shows "\<exists>ib' ie q'. MakeRoomFor sz d c ib q = Inr (ib', ie, q') \<and> it_at q' ib' i \<and> it_at q' ie (i + c) \<and>
    roomy sz q' xs c i \<and> dq_generation q' = dq_generation q"
proof -
  have "xs \<noteq> []" using ib(2,3) by auto
  then have sp: "spans q (length xs)" using holds_spans_elem [OF h, of 0] by simp
  obtain q1 where q1: "ExpandCapacityIfNecessary sz c q = Inr q1" "holds_list sz q1 xs" "length xs + c \<le> dq_capacity q1"
    "dq_generation q1 = dq_generation q"
    using ExpandCapacity_ok [OF h fit] by blast
  then have cap: "length xs + c < dq_cap q1" using c by (auto simp: dq_capacity_def split: if_splits)
  then have sp1: "spans q1 (length xs)" using holds_spans [OF q1(2)] by fastforce
  let ?ib = "ib\<lparr>it_index := spot q1 i\<rparr>"
  let ?q2 = "q1\<lparr>dq_end := (dq_end q1 + c) mod dq_cap q1\<rparr>"
  have e2: "dq_end ?q2 = spot q1 (length xs + c)" using holds_end [OF q1(2)] spot_add [of q1 "length xs" c] by simp
  have sp2: "spans ?q2 (length xs + c)" using sp1 cap e2 by (simp add: spans_def on_ring_def spot_def)
  have "shaped q1 (hole xs c (length xs))" by (rule holds_shaped [OF q1(2)]) (use cap in simp)
  then have sh2: "shaped ?q2 (hole xs c (length xs))" by (simp add: shaped_def cells_of_def)
  have at2: "it_at ?q2 ?ib i" "it_at ?q2 (end_it q1) (length xs)" "it_at ?q2 (end_it ?q2) (length xs + c)"
    using ib(1) q1(4) end_at [OF q1(2)] e2 by (simp_all add: it_at_def end_it_def dq_iterator_def)
  have "length xs - i < Suc (dq_cap ?q2)" using cap by simp
  from move_right_ok [OF c ib(3) order_refl this sp2 at2 sh2, of d]
  obtain b where b: "move_right (Suc (dq_cap ?q2)) d ?ib (end_it q1) (end_it ?q2) ?q2 = Inr (?q2\<lparr>dq_buffer := b\<rparr>)"
      "length b = dq_cap ?q2" "shaped (?q2\<lparr>dq_buffer := b\<rparr>) (hole xs c i)"
    by auto
  let ?q3 = "?q2\<lparr>dq_buffer := b\<rparr>" and ?ie = "dq_iterator q1 ((spot q1 i + c) mod dq_cap q1)"
  have off: "OffsetFromBegin ib q = i" by (rule it_offset [OF sp ib(1,3)])
  have "MakeRoomFor sz d c ib q = Inr (?ib, ?ie, ?q3)"
    using c q1(1) off cap b(1) by (auto simp: MakeRoomFor_def Let_def spot_def [symmetric] simp del: move_right.simps)
  moreover have "it_at ?q3 ?ib i" "it_at ?q3 ?ie (i + c)"
    using b(2) at2(1) spot_add [of q1 i c] by (auto simp: it_at_def dq_iterator_def spot_def)
  moreover have "roomy sz ?q3 xs c i" using sp2 b(2,3) q1(2) by (simp add: roomy_def holds_list_def)
  ultimately show ?thesis using q1(4) by (intro exI [of _ ?ib] exI [of _ ?ie] exI [of _ ?q3]) simp
qed

lemma fill_room_ok:
  "spans q n \<Longrightarrow> it_at q cur p \<Longrightarrow> it_at q e (p + length ys) \<Longrightarrow> p + length ys \<le> n \<Longrightarrow> shaped q f \<Longrightarrow>
    \<exists>b. fill_room d ys cur e q = Inr (q\<lparr>dq_buffer := b\<rparr>) \<and> length b = dq_cap q \<and>
      shaped (q\<lparr>dq_buffer := b\<rparr>) (\<lambda>m. if p \<le> m \<and> m < p + length ys then Some (ys ! (m - p)) else f m)"
proof (induction ys arbitrary: cur p q f)
  case Nil
  then have "it_less d cur e q = Inr False" using it_less_ok [OF Nil(1-3)] by simp
  then show ?case using Nil(5) by (auto simp: shaped_def intro!: exI [of _ "dq_buffer q"])
next
  case (Cons y ys)
  note s = Cons.prems(1)
  have less: "it_less d cur e q = Inr True" using it_less_ok [OF s Cons.prems(2,3)] Cons.prems(4) by simp
  have cap: "n < dq_cap q" and ring: "on_ring q" using s by (simp_all add: spans_def)
  let ?b = "(dq_buffer q)[spot q p := Some y]" and ?f = "\<lambda>m. if m = p then Some y else f m"
  let ?q = "q\<lparr>dq_buffer := ?b\<rparr>"
  have new: "cell_new (it_index cur) y (dq_buffer q) = Inr ?b"
    using Cons.prems(2) spot_less [OF ring, of p] by (simp add: it_at_def cell_new_def cell_index_def)
  have s1: "spans ?q n" using s by simp
  obtain cur' where cur': "it_Increment d cur ?q = Inr cur'" "it_at ?q cur' (Suc p)"
    using it_Increment_ok [OF s1, of cur p] Cons.prems(2,4) by auto
  have "cells_of ?q = (cells_of q)[p := Some y]"
    using cells_update [OF ring, of p "Some y"] Cons.prems(4) cap by simp
  then have "shaped ?q ?f" using Cons.prems(4,5) cap by (auto simp: shaped_def nth_list_update)
  then obtain b where b: "fill_room d ys cur' e ?q = Inr (?q\<lparr>dq_buffer := b\<rparr>)" "length b = dq_cap ?q"
      "shaped (?q\<lparr>dq_buffer := b\<rparr>) (\<lambda>m. if Suc p \<le> m \<and> m < Suc p + length ys then Some (ys ! (m - Suc p)) else ?f m)"
    using Cons.IH [OF s1 cur'(2)] Cons.prems(3,4) by auto
  have "shaped (q\<lparr>dq_buffer := b\<rparr>) (\<lambda>m. if p \<le> m \<and> m < p + length (y # ys) then Some ((y # ys) ! (m - p)) else f m)"
    using b(2,3) by (auto simp: shaped_def nth_Cons' Suc_le_eq)
  then show ?case using less new cur'(1) b(1,2) by auto
qed

text \<open>Filling the room exactly.\<close>

lemma fill_exactly:
  assumes r: "roomy sz q xs (length ys) i" and i: "i \<le> length xs" and it: "it_at q cur i" "it_at q e (i + length ys)"
  shows "\<exists>q'. fill_room d ys cur e q = Inr q' \<and> holds_list sz q' (take i xs @ ys @ drop i xs) \<and> dq_generation q' = dq_generation q"
proof -
  have sp: "spans q (length xs + length ys)" using r by (simp add: roomy_def)
  obtain b where b: "fill_room d ys cur e q = Inr (q\<lparr>dq_buffer := b\<rparr>)" "length b = dq_cap q"
      "shaped (q\<lparr>dq_buffer := b\<rparr>) (\<lambda>m. if i \<le> m \<and> m < i + length ys then Some (ys ! (m - i)) else hole xs (length ys) i m)"
    using fill_room_ok [OF sp it] r i by (auto simp: roomy_def)
  let ?zs = "take i xs @ ys @ drop i xs"
  have "(if i \<le> m \<and> m < i + length ys then Some (ys ! (m - i)) else hole xs (length ys) i m) =
      (if m < length xs + length ys then Some (?zs ! m) else None)" for m
    using i by (auto simp: hole_def nth_append)
  then have "shaped (q\<lparr>dq_buffer := b\<rparr>) (\<lambda>m. if m < length xs + length ys then Some (?zs ! m) else None)" using b(3) by simp
  then have "holds_list sz (q\<lparr>dq_buffer := b\<rparr>) ?zs"
    using shaped_holds [of "q\<lparr>dq_buffer := b\<rparr>" "length xs + length ys" ?zs sz] sp b(2) r i by (simp add: roomy_def)
  then show ?thesis using b(1) by simp
qed

end
