(* ===== verification/Deque_Insert.thy ===== *)
theory Deque_Insert
  imports Deque_Middle
begin

text \<open>Inserting, emplacing and erasing at an iterator, and the free functions that erase.\<close>

section \<open>Inserting\<close>

lemma at_begin_iff:
  assumes h: "holds_list sz q xs" and it: "it_at q pos i" "i \<le> length xs"
  shows "it_eq d pos (begin_it q) = Inr (i = 0)"
proof (cases "dq_cap q = 0")
  case True
  then show ?thesis
    using h it begin_at [OF h] by (auto simp: holds_list_def it_eq_def CheckComparable_def it_at_def spot_def)
next
  case False
  then show ?thesis using it_eq_ok [OF holds_spans [OF h] it(1) begin_at [OF h] it(2)] by simp
qed

lemma push_front_times_ok:
  "holds_list sz q xs \<Longrightarrow> fits sz (length xs + n) \<Longrightarrow>
    \<exists>q'. push_front_times sz d n v q = Inr q' \<and> holds_list sz q' (replicate n v @ xs)"
proof (induction n arbitrary: q xs)
  case (Suc n)
  have "fits sz (length xs + 1)" by (rule fits_mono [OF Suc.prems(2)]) simp
  then obtain q1 where q1: "push_front sz d v q = Inr q1" "holds_list sz q1 (v # xs)"
    using push_front_ok [OF Suc.prems(1)] by blast
  then show ?case using Suc.IH [OF q1(2)] Suc.prems(2) by (simp add: replicate_app_Cons_same)
qed simp

lemma it_at_self: "it_at q pos i \<Longrightarrow> it_at q (dq_iterator q (it_index pos)) i"
  by (simp add: it_at_def dq_iterator_def)

lemma insert_count_ok:
  assumes h: "holds_list sz q xs" and fit: "fits sz (length xs + n)" and pos: "it_at q pos i" "i \<le> length xs"
  shows "\<exists>q'. insert_count sz d pos n v q = Inr q' \<and> holds_list sz q' (take i xs @ replicate n v @ drop i xs)"
proof (cases "i = 0")
  case True
  obtain q1 where q1: "ExpandCapacityIfNecessary sz n q = Inr q1" "holds_list sz q1 xs"
    using ExpandCapacity_ok [OF h fit] by blast
  then show ?thesis
    using push_front_times_ok [OF q1(2) fit] at_begin_iff [OF h pos] it_usable [OF pos(1)] True
    by (simp add: insert_count_def)
next
  case False
  note [simp] = at_begin_iff [OF h pos] it_usable [OF pos(1)]
  show ?thesis
  proof (cases "n = 0")
    case True
    have "fill_room d [] (dq_iterator q (it_index pos)) (dq_iterator q (it_index pos)) q = Inr q"
      by (simp add: it_less_def CheckComparable_def)
    then show ?thesis using True False h by (simp add: insert_count_def MakeRoomFor_def)
  next
    case some: False
    obtain ib ie q1 where q1: "MakeRoomFor sz d n (dq_iterator q (it_index pos)) q = Inr (ib, ie, q1)"
      "it_at q1 ib i" "it_at q1 ie (i + n)" "roomy sz q1 xs n i"
      using MakeRoomFor_ok [OF h fit _ it_at_self [OF pos(1)] _ pos(2)] False some by blast
    then show ?thesis
      using fill_exactly [of sz q1 xs "replicate n v" i ib ie d] pos(2) False by (auto simp: insert_count_def)
  qed
qed

text \<open>At the beginning the room is made by moving the begin index back.\<close>

lemma room_before:
  assumes h: "holds_list sz q xs" and c: "length xs + c < dq_cap q" "c > 0"
  defines "q' \<equiv> q\<lparr>dq_begin := (dq_begin q + dq_cap q - c) mod dq_cap q\<rparr>"
  shows "roomy sz q' xs c 0" "it_at q' (begin_it q') 0" "it_at q' (begin_it q) (0 + c)"
proof -
  have nz: "dq_cap q \<noteq> 0" using c by linarith
  have ring: "on_ring q" and e: "dq_end q = spot q (length xs)"
    and cells: "cells_of q = map Some xs @ replicate (dq_cap q - length xs) None"
    using h nz by (simp_all add: holds_list_def)
  have b: "dq_begin q < dq_cap q" using ring by (simp add: on_ring_def)
  have ring': "on_ring q'" using nz by (simp add: q'_def on_ring_def)
  have base: "spot q' c = dq_begin q" using b c
    by (simp add: q'_def spot_def mod_add_left_eq)
  have "q = q'\<lparr>dq_begin := spot q' c\<rparr>" unfolding base by (simp add: q'_def)
  then have rot: "cells_of q = rotate c (cells_of q')" using cells_begin [OF ring', of c] by simp
  have cap': "dq_cap q' = dq_cap q" "dq_end q' = dq_end q" "dq_generation q' = dq_generation q" by (simp_all add: q'_def)
  have "dq_end q' = spot q' (length xs + c)"
    using e cap' base spot_add [of q' c "length xs"] by (simp add: spot_def add.commute)
  then have "spans q' (length xs + c)"
    using ring' c cap' holds_limit [OF h] by (simp add: spans_def)
  moreover have "shaped q' (hole xs c 0)"
  proof -
    have "cells_of q' ! m = hole xs c 0 m" if m: "m < dq_cap q" for m
    proof (cases "m < c")
      case True
      then have "(c + (dq_cap q - c + m)) mod dq_cap q = m" "dq_cap q - c + m < dq_cap q" using c m by simp_all
      then have "cells_of q ! (dq_cap q - c + m) = cells_of q' ! m"
        unfolding rot using cap' by (simp add: nth_rotate)
      moreover have "cells_of q ! (dq_cap q - c + m) = None"
        unfolding cells using True c by (simp add: nth_append)
      ultimately show ?thesis using True by (simp add: hole_def)
    next
      case False
      then have "cells_of q ! (m - c) = cells_of q' ! m"
        unfolding rot using cap' m by (simp add: nth_rotate)
      moreover have "cells_of q ! (m - c) = hole xs c 0 m"
        unfolding cells using False m c by (auto simp: hole_def nth_append)
      ultimately show ?thesis by simp
    qed
    then show ?thesis using cap' by (simp add: shaped_def)
  qed
  ultimately show "roomy sz q' xs c 0" using h cap' by (simp add: roomy_def holds_list_def)
  show "it_at q' (begin_it q') 0" using spot_0 [OF ring'] by (simp add: begin_it_at)
  show "it_at q' (begin_it q) (0 + c)" using base cap' by (simp add: it_at_def begin_it_def dq_iterator_def)
qed

lemma dq_insert_range_ok:
  assumes h: "holds_list sz q xs" and fit: "fits sz (length xs + length ys)" and pos: "it_at q pos i" "i \<le> length xs"
  shows "\<exists>q'. dq_insert_range sz d pos ys q = Inr q' \<and> holds_list sz q' (take i xs @ ys @ drop i xs)"
proof (cases "ys = []")
  case True
  then show ?thesis using h it_usable [OF pos(1)] by (simp add: dq_insert_range_def)
next
  case some: False
  note [simp] = at_begin_iff [OF h pos] it_usable [OF pos(1)]
  show ?thesis
  proof (cases "i = 0")
    case True
    obtain q1 where q1: "ExpandCapacityIfNecessary sz (length ys) q = Inr q1" "holds_list sz q1 xs"
      "length xs + length ys \<le> dq_capacity q1"
      using ExpandCapacity_ok [OF h fit] by blast
    have "length ys > 0" using some by simp
    have cap: "length xs + length ys < dq_cap q1"
      using q1(3) \<open>length ys > 0\<close> by (cases "dq_cap q1") (auto simp: dq_capacity_def)
    note room = room_before [OF q1(2) cap \<open>length ys > 0\<close>]
    show ?thesis
      using fill_exactly [OF room(1) _ room(2,3), of d] q1(1) cap True some
      by (auto simp: dq_insert_range_def Let_def)
  next
    case False
    obtain ib ie q1 where q1: "MakeRoomFor sz d (length ys) (dq_iterator q (it_index pos)) q = Inr (ib, ie, q1)"
      "it_at q1 ib i" "it_at q1 ie (i + length ys)" "roomy sz q1 xs (length ys) i"
      using MakeRoomFor_ok [OF h fit _ it_at_self [OF pos(1)] _ pos(2)] False some by blast
    then show ?thesis
      using fill_exactly [of sz q1 xs ys i ib ie d] pos(2) False some by (auto simp: dq_insert_range_def Let_def)
  qed
qed

lemma dq_emplace_ok:
  assumes h: "holds_list sz q xs" and fit: "fits sz (length xs + 1)" and pos: "it_at q pos i" "i \<le> length xs"
  shows "\<exists>it q'. dq_emplace sz d pos x q = Inr (it, q') \<and> holds_list sz q' (take i xs @ x # drop i xs) \<and> it_at q' it i"
proof (cases "i = 0")
  case True
  obtain q1 where q1: "emplace_front sz d x q = Inr (x, q1)" "holds_list sz q1 (x # xs)"
    using emplace_front_ok [OF h fit] by blast
  then show ?thesis using at_begin_iff [OF h pos] it_usable [OF pos(1)] True begin_at [OF q1(2)]
    by (simp add: dq_emplace_def)
next
  case False
  let ?q = "IncrementGeneration d q"
  have h1: "holds_list sz ?q xs" using h by simp
  have pos1: "it_at ?q (dq_iterator ?q (it_index pos)) i"
    using pos(1) by (simp add: it_at_def dq_iterator_def IncrementGeneration_eq)
  obtain ib ie q1 where q1: "MakeRoomFor sz d 1 (dq_iterator ?q (it_index pos)) ?q = Inr (ib, ie, q1)"
    "it_at q1 ib i" "roomy sz q1 xs 1 i"
    using MakeRoomFor_ok [OF h1 fit _ pos1 _ pos(2), of d] False by fastforce
  have sp: "spans q1 (length xs + 1)" using q1(3) by (simp add: roomy_def)
  then have ring: "on_ring q1" and cap: "length xs + 1 < dq_cap q1" by (simp_all add: spans_def)
  let ?b = "(dq_buffer q1)[spot q1 i := Some x]"
  have "cell_new (it_index ib) x (dq_buffer q1) = Inr ?b"
    using q1(2) spot_less [OF ring, of i] by (simp add: it_at_def cell_new_def cell_index_def)
  moreover have "holds_list sz (q1\<lparr>dq_buffer := ?b\<rparr>) (take i xs @ x # drop i xs)"
  proof (rule shaped_holds)
    show "spans (q1\<lparr>dq_buffer := ?b\<rparr>) (length xs + 1)" using sp by simp
    have "cells_of (q1\<lparr>dq_buffer := ?b\<rparr>) = (cells_of q1)[i := Some x]"
      using cells_update [OF ring, of i "Some x"] cap pos(2) by simp
    then show "shaped (q1\<lparr>dq_buffer := ?b\<rparr>) (\<lambda>m. if m < length xs + 1 then Some ((take i xs @ x # drop i xs) ! m) else None)"
      using q1(3) pos(2) cap by (auto simp: roomy_def shaped_def hole_def nth_list_update nth_append nth_Cons')
  qed (use q1(3) pos(2) in \<open>simp_all add: roomy_def\<close>)
  ultimately show ?thesis
    using at_begin_iff [OF h pos] it_usable [OF pos(1)] False q1(1,2) by (auto simp: dq_emplace_def Let_def)
qed

end
