(* ===== verification/Deque_Erase.thy ===== *)
theory Deque_Erase
  imports Deque_Insert
begin

text \<open>Erasing a range, one element, and all elements with a property; copies, moves and swaps.\<close>

section \<open>Erasing a range\<close>

lemma erase_front:
  assumes h: "holds_list sz q xs" and ring: "on_ring q" and j: "0 < j" "j \<le> length xs"
  shows "\<exists>b. dq_DestructRange (spot q 0) (spot q j) q = Inr (q\<lparr>dq_buffer := b\<rparr>) \<and> length b = dq_cap q \<and>
    holds_list sz (q\<lparr>dq_buffer := b, dq_begin := spot q j\<rparr>) (drop j xs)"
proof -
  obtain b where b: "dq_DestructRange (spot q 0) (spot q j) q = Inr (q\<lparr>dq_buffer := b\<rparr>)" "length b = dq_cap q"
      "cells_of (q\<lparr>dq_buffer := b\<rparr>) = replicate j None @ map Some (drop j xs) @ replicate (dq_cap q - length xs) None"
    using destroy_elems [OF h ring, of 0 j] j by auto
  let ?q = "q\<lparr>dq_buffer := b\<rparr>"
  have ring': "on_ring ?q" and s: "spot ?q m = spot q m" for m using ring b(2) by (simp_all add: on_ring_def spot_def)
  have "holds_list sz (?q\<lparr>dq_begin := spot ?q j\<rparr>) (drop j xs)"
  proof (rule drop_front [OF _ _ ring' b(3)])
    show "dq_end ?q = spot ?q (j + length (drop j xs))" using j(2) holds_end [OF h] s by simp
  qed (use h j b(2) in \<open>simp_all add: holds_list_def\<close>)
  then show ?thesis using b(1,2) s by auto
qed

lemma erase_middle:
  assumes h: "holds_list sz q xs" and ij: "0 < i" "i < j" "j \<le> length xs"
  shows "\<exists>b it q'. dq_DestructRange (spot q i) (spot q j) q = Inr (q\<lparr>dq_buffer := b\<rparr>) \<and> length b = dq_cap q \<and>
    move_left (Suc (dq_cap q)) d (dq_iterator q (spot q j)) (end_it q) (dq_iterator q (spot q i)) (q\<lparr>dq_buffer := b\<rparr>) =
      Inr (it, q') \<and>
    holds_list sz (q'\<lparr>dq_end := it_index it\<rparr>) (take i xs @ drop j xs) \<and> dq_cap q' = dq_cap q \<and>
    dq_begin q' = dq_begin q \<and> dq_generation q' = dq_generation q"
proof -
  let ?ys = "take i xs @ drop j xs" and ?c = "j - i"
  have sp: "spans q (length xs)" using holds_spans_elem [OF h, of 0] ij by fastforce
  then have ring: "on_ring q" and cap: "length xs < dq_cap q" by (simp_all add: spans_def)
  obtain b where b: "dq_DestructRange (spot q i) (spot q j) q = Inr (q\<lparr>dq_buffer := b\<rparr>)" "length b = dq_cap q"
      "cells_of (q\<lparr>dq_buffer := b\<rparr>) =
        map Some (take i xs) @ replicate ?c None @ map Some (drop j xs) @ replicate (dq_cap q - length xs) None"
    using destroy_elems [OF h ring, of i j] ij by auto
  let ?q = "q\<lparr>dq_buffer := b\<rparr>"
  have len: "length ?ys + ?c = length xs" using ij by simp
  have sp1: "spans ?q (length ?ys + ?c)" using sp b(2) len by simp
  have at1: "it_at ?q (dq_iterator q (spot q j)) (i + ?c)" "it_at ?q (end_it q) (length ?ys + ?c)"
    "it_at ?q (dq_iterator q (spot q i)) i"
    using ij b(2) len end_at [OF h] by (simp_all add: it_at_def dq_iterator_def spot_def)
  have shape: "shaped ?q (hole ?ys ?c i)"
    unfolding shaped_def b(3) using ij b(2) by (auto simp: hole_def nth_append)
  have le: "?c > 0" "i \<le> length ?ys" "length ?ys - i < Suc (dq_cap q)" using ij cap by auto
  obtain it b' where m: "move_left (Suc (dq_cap q)) d (dq_iterator q (spot q j)) (end_it q) (dq_iterator q (spot q i)) ?q =
        Inr (it, ?q\<lparr>dq_buffer := b'\<rparr>)" "length b' = dq_cap q" "it_index it = spot q (length ?ys)"
      "shaped (?q\<lparr>dq_buffer := b'\<rparr>) (hole ?ys ?c (length ?ys))"
    using move_left_ok [OF le sp1 at1 shape, of d] b(2) spot_cong [of ?q q] by auto
  let ?q' = "q\<lparr>dq_buffer := b'\<rparr>"
  let ?q2 = "?q'\<lparr>dq_end := spot q (length ?ys)\<rparr>"
  have "holds_list sz ?q2 ?ys"
  proof (rule shaped_holds)
    show "spans ?q2 (length ?ys)" using sp len m(2) by (simp add: spans_def on_ring_def spot_def)
    show "shaped ?q2 (\<lambda>m. if m < length ?ys then Some (?ys ! m) else None)"
      using m(4) by (auto simp: shaped_def hole_def cells_of_def)
  qed (use h m(2) in \<open>simp_all add: holds_list_def\<close>)
  then show ?thesis using b(1,2) m(1-3) by (intro exI [of _ b] exI [of _ it] exI [of _ ?q']) simp
qed

lemma spots_eq:
  assumes h: "holds_list sz q xs" and ij: "it_at q i a" "it_at q j b" "a \<le> length xs" "b \<le> length xs"
  shows "it_index i = it_index j \<longleftrightarrow> a = b"
proof (cases "dq_cap q = 0")
  case True
  then show ?thesis using h ij by (simp add: holds_list_def it_at_def)
next
  case False
  then show ?thesis using spot_eq [of q a b] holds_spans [OF h] ij by (auto simp: spans_def it_at_def)
qed

lemma erase_range_ok:
  assumes h: "holds_list sz q xs" and ij: "it_at q i a" "it_at q j b" "a \<le> b" "b \<le> length xs"
  shows "\<exists>it q'. dq_erase_range d i j q = Inr (it, q') \<and> holds_list sz q' (take a xs @ drop b xs) \<and> it_at q' it a"
proof -
  let ?q = "IncrementGeneration d q"
  have spots: "spot ?q m = spot q m" for m by (simp add: IncrementGeneration_eq)
  have fields: "dq_cap ?q = dq_cap q" "dq_begin ?q = dq_begin q" by (simp_all add: IncrementGeneration_eq)
  note ok [simp] = it_usable [OF ij(1)] it_usable [OF ij(2)]
  have same: "it_index i = it_index j \<longleftrightarrow> a = b" using spots_eq [OF h ij(1,2)] ij(3,4) by simp
  have idx: "it_index i = spot ?q a" "it_index j = spot ?q b" using ij(1,2) spots by (simp_all add: it_at_def)
  have h1: "holds_list sz ?q xs" using h by simp
  show ?thesis
  proof (cases "a = b")
    case True
    then show ?thesis using same h ij(1) by (simp add: dq_erase_range_def Let_def it_at_def dq_iterator_def spots)
  next
    case False
    then have sp: "spans q (length xs)" using holds_spans_elem [OF h, of a] ij(3,4) by simp
    have ring: "on_ring ?q" using sp fields by (simp add: spans_def on_ring_def)
    have first: "it_index i = dq_begin ?q \<longleftrightarrow> a = 0"
      using spots_eq [OF h ij(1) begin_at [OF h]] ij(3,4) fields by (simp add: begin_it_def dq_iterator_def)
    show ?thesis
    proof (cases "a = 0")
      case True
      obtain b' where b': "dq_DestructRange (spot ?q 0) (spot ?q b) ?q = Inr (?q\<lparr>dq_buffer := b'\<rparr>)" "length b' = dq_cap ?q"
          "holds_list sz (?q\<lparr>dq_buffer := b', dq_begin := spot ?q b\<rparr>) (drop b xs)"
        using erase_front [OF h1 ring, of b] False True ij(3,4) by auto
      then show ?thesis
        using False True same first idx begin_at [OF b'(3)]
        by (simp add: dq_erase_range_def Let_def begin_it_def dq_iterator_def)
    next
      case middle: False
      obtain b' it q' where b': "dq_DestructRange (spot ?q a) (spot ?q b) ?q = Inr (?q\<lparr>dq_buffer := b'\<rparr>)" "length b' = dq_cap ?q"
          "move_left (Suc (dq_cap ?q)) d (dq_iterator ?q (spot ?q b)) (end_it ?q) (dq_iterator ?q (spot ?q a)) (?q\<lparr>dq_buffer := b'\<rparr>) =
            Inr (it, q')"
          "holds_list sz (q'\<lparr>dq_end := it_index it\<rparr>) (take a xs @ drop b xs)" "dq_cap q' = dq_cap ?q"
          "dq_begin q' = dq_begin ?q" "dq_generation q' = dq_generation ?q"
        using erase_middle [OF h1, of a b d] False middle ij(3,4) by auto
      have "spot ?q a = spot q' a" using b'(5,6) by (simp add: spot_def)
      then show ?thesis
        using b' False middle same first idx
        by (simp add: dq_erase_range_def Let_def it_at_def dq_iterator_def end_it_def del: move_left.simps)
    qed
  qed
qed

lemma erase_ok:
  assumes h: "holds_list sz q xs" and i: "it_at q pos i" "i < length xs"
  shows "\<exists>it q'. dq_erase d pos q = Inr (it, q') \<and> holds_list sz q' (take i xs @ drop (Suc i) xs) \<and> it_at q' it i"
proof -
  obtain nxt where n: "it_Add d 1 pos q = Inr nxt" "it_at q nxt (Suc i)"
    using it_Add_ok [OF holds_spans_elem [OF h i(2)] i(1), of "Suc i" 1 d] i(2) by auto
  show ?thesis using erase_range_ok [OF h i(1) n(2)] n(1) i(2) by (simp add: dq_erase_def)
qed

section \<open>Erasing by a predicate\<close>

text \<open>The iterator \<open>begin() + i\<close>, in an empty deque too.\<close>

lemma begin_plus_ok:
  assumes h: "holds_list sz q xs" and i: "i \<le> length xs"
  shows "\<exists>it. it_Add d (int i) (begin_it q) q = Inr it \<and> it_at q it i"
proof (cases "xs = []")
  case True
  then have "it_Add d (int i) (begin_it q) q = Inr (begin_it q)"
    using holds_empty [OF h] i
    by (simp add: it_Add_def CheckUnstableUsage_def begin_it_def dq_iterator_def CheckValidIndexOrEnd_def dq_empty_def)
  then show ?thesis using begin_at [OF h] True i by simp
next
  case False
  then show ?thesis
    using it_Add_ok [OF holds_spans_elem [OF h] begin_at [OF h], of 0 i "int i" d] i by simp
qed

lemma elements_ok:
  assumes h: "holds_list sz q xs"
  shows "dq_elements d q = Inr xs"
proof -
  have "bindR (it_Add d (int i) (begin_it q) q) (\<lambda>it. it_deref d it q) = Inr (xs ! i)" if i: "i < length xs" for i
  proof -
    obtain it where "it_Add d (int i) (begin_it q) q = Inr it" "it_at q it i"
      using begin_plus_ok [OF h, of i d] i by auto
    then show ?thesis using it_deref_ok [OF h _ i] by simp
  qed
  then have "dq_elements d q = Inr (map ((!) xs) [0..<length xs])"
    unfolding dq_elements_def holds_size [OF h] by (intro mapR_Inr) simp
  then show ?thesis by (simp add: map_nth)
qed

lemma holds_put:
  assumes h: "holds_list sz q xs" and i: "i < length xs"
  shows "holds_list sz (q\<lparr>dq_buffer := (dq_buffer q)[spot q i := Some x]\<rparr>) (xs[i := x])"
proof -
  have sp: "spans q (length xs)" by (rule holds_spans_elem [OF h i])
  let ?q = "q\<lparr>dq_buffer := (dq_buffer q)[spot q i := Some x]\<rparr>"
  show ?thesis
  proof (rule holdsI)
    have "cells_of ?q = (cells_of q)[i := Some x]"
      using cells_update [of q i "Some x"] sp i by (simp add: spans_def)
    then show "cells_of ?q = map Some (xs[i := x]) @ replicate (dq_cap ?q - length (xs[i := x])) None"
      using holds_cells [OF h] sp i by (fastforce simp: spans_def list_update_append map_update)
  qed (use sp h in \<open>auto simp: spans_def holds_list_def on_ring_def spot_def\<close>)
qed

lemma assign_from_ok:
  "holds_list sz q xs \<Longrightarrow> i + length ys \<le> length xs \<Longrightarrow>
    \<exists>q'. assign_from d i ys q = Inr q' \<and> holds_list sz q' (take i xs @ ys @ drop (i + length ys) xs)"
proof (induction ys arbitrary: i q xs)
  case (Cons y ys)
  note h = Cons.prems(1)
  have i: "i < length xs" using Cons.prems(2) by simp
  obtain it where it: "it_Add d (int i) (begin_it q) q = Inr it" "it_at q it i"
    using begin_plus_ok [OF h, of i d] i by auto
  have "it_index it = spot q i" using it(2) by (simp add: it_at_def)
  moreover obtain q' where "assign_from d (Suc i) ys (q\<lparr>dq_buffer := (dq_buffer q)[spot q i := Some y]\<rparr>) = Inr q'"
      "holds_list sz q' (take (Suc i) (xs[i := y]) @ ys @ drop (Suc i + length ys) (xs[i := y]))"
    using Cons.IH [OF holds_put [OF h i], of "Suc i" y] Cons.prems(2) by auto
  ultimately show ?case
    using it it_deref_ok [OF h it(2) i] i by (simp add: take_Suc_conv_app_nth)
qed simp

lemma EraseIf_ok:
  assumes h: "holds_list sz q xs"
  shows "\<exists>q'. dq_EraseIf d pred q = Inr (length (filter pred xs), q') \<and> holds_list sz q' (filter (\<lambda>x. \<not> pred x) xs)"
proof -
  let ?ys = "filter (\<lambda>x. \<not> pred x) xs"
  have len: "length ?ys \<le> length xs" "length (filter pred xs) = length xs - length ?ys"
    using sum_length_filter_compl [of pred xs] by simp_all
  obtain q1 where q1: "assign_from d 0 ?ys q = Inr q1" "holds_list sz q1 (?ys @ drop (length ?ys) xs)"
    using assign_from_ok [OF h, of 0 ?ys d] len by auto
  show ?thesis
  proof (cases "xs = []")
    case True
    have "dq_erase_range d (begin_it q) (end_it q) q = Inr (dq_iterator (IncrementGeneration d q) (dq_begin q), IncrementGeneration d q)"
      using holds_empty [OF h] True
      by (simp add: dq_erase_range_def Let_def begin_it_def end_it_def dq_iterator_def CheckUnstableUsage_def dq_empty_def)
    moreover have "it_minus d (end_it q) (begin_it q) q = Inr 0"
      using holds_empty [OF h] True
      by (simp add: it_minus_def CheckComparable_def begin_it_def end_it_def dq_iterator_def dq_empty_def OffsetFromBegin_def)
    moreover have "it_Add d 0 (begin_it q) q = Inr (begin_it q)"
      using holds_empty [OF h] True
      by (simp add: it_Add_def CheckUnstableUsage_def begin_it_def dq_iterator_def CheckValidIndexOrEnd_def dq_empty_def)
    ultimately show ?thesis using elements_ok [OF h] True h by (simp add: dq_EraseIf_def)
  next
    case False
    let ?zs = "?ys @ drop (length ?ys) xs"
    have zs: "length ?zs = length xs" using len by simp
    have sp: "spans q1 (length ?zs)" using holds_spans_elem [OF q1(2), of 0] False zs by simp
    obtain it where it: "it_Add d (int (length ?ys)) (begin_it q1) q1 = Inr it" "it_at q1 it (length ?ys)"
      using begin_plus_ok [OF q1(2), of "length ?ys" d] by auto
    have "it_minus d (end_it q1) it q1 = Inr (int (length xs) - int (length ?ys))"
      using it_minus_ok [OF sp end_at [OF q1(2)] it(2)] zs by simp
    moreover obtain it' q2 where "dq_erase_range d it (end_it q1) q1 = Inr (it', q2)" "holds_list sz q2 ?ys"
      using erase_range_ok [OF q1(2) it(2) end_at [OF q1(2)], of d] by auto
    ultimately show ?thesis
      using elements_ok [OF h] q1(1) it(1) len by (simp add: dq_EraseIf_def nat_diff_distrib' flip: of_nat_diff)
  qed
qed

section \<open>Copies, moves and swaps\<close>

lemma dq_new_holds: "sz > 0 \<Longrightarrow> holds_list sz dq_new []"
  by (simp add: holds_list_def dq_new_def)

lemma deque_copy_ok:
  assumes h: "holds_list sz q xs" and fit: "fits sz (length xs)"
  shows "\<exists>q'. deque_copy sz d q = Inr q' \<and> holds_list sz q' xs"
proof -
  let ?n = "length xs + 1"
  have n: "sz * ?n < 2 ^ 63" by (rule fits_exact [OF fit])
  moreover have "?n mod 2 ^ 64 = ?n" using holds_limit [OF h] by simp
  ultimately have buf: "VectorBuffer_new sz ((dq_size q + 1) mod 2 ^ 64) = Inr (replicate ?n None)"
    using holds_size [OF h] by (simp add: VectorBuffer_new_def)
  have "holds_list sz (dq_new\<lparr>dq_buffer := replicate ?n None\<rparr>) []"
    using h n by (intro holdsI) (auto simp: holds_list_def dq_new_def on_ring_def spot_def cells_of_def)
  from assign_range_ok [OF this fit, of d] show ?thesis
    unfolding deque_copy_def buf elements_ok [OF h] by simp
qed

lemma copy_assign_ok:
  assumes h: "holds_list sz other ys" and q: "holds_list sz q xs" and fit: "fits sz (length ys)"
  shows "\<exists>q'. copy_assign sz d other q = Inr q' \<and> holds_list sz q' ys"
proof -
  obtain q1 where "dq_reserve sz (length ys) q = Inr q1" "holds_list sz q1 xs"
    using reserve_ok [OF q fits_exact [OF fit]] by blast
  then show ?thesis
    using assign_range_ok [of sz q1 xs ys d] fit elements_ok [OF h, of d] holds_size [OF h] by (simp add: copy_assign_def)
qed

text \<open>What a deque holds does not depend on its generation.\<close>

lemma holds_fields:
  "holds_list sz q xs \<Longrightarrow> dq_buffer q' = dq_buffer q \<Longrightarrow> dq_begin q' = dq_begin q \<Longrightarrow> dq_end q' = dq_end q \<Longrightarrow> holds_list sz q' xs"
  by (auto simp: holds_list_def on_ring_def spot_def cells_of_def)

lemma dq_moved_from_holds: "sz > 0 \<Longrightarrow> holds_list sz (dq_moved_from q) []"
  by (simp add: holds_list_def dq_moved_from_def)

lemma deque_move_ok: "holds_list sz q xs \<Longrightarrow> holds_list sz (fst (deque_move q)) xs \<and> holds_list sz (snd (deque_move q)) []"
  using holds_fields [of sz q xs "fst (deque_move q)"] dq_moved_from_holds [of sz q]
  by (simp add: deque_move_def) (simp add: holds_list_def)

lemma move_assign_ok:
  assumes h: "holds_list sz other ys" and q: "holds_list sz q xs"
  shows "\<exists>q' other'. move_assign d other q = Inr (q', other') \<and> holds_list sz q' ys \<and> holds_list sz other' []"
proof -
  obtain q1 where q1: "ClearRetainCapacity d q = Inr q1" using Clear_ok [OF q, of d] by auto
  have "sz > 0" using h by (simp add: holds_list_def)
  then have "holds_list sz (dq_moved_from other) []" by (rule dq_moved_from_holds)
  moreover have "holds_list sz (q1\<lparr>dq_buffer := dq_buffer other, dq_begin := dq_begin other, dq_end := dq_end other\<rparr>) ys"
    by (rule holds_fields [OF h]) simp_all
  ultimately show ?thesis by (simp add: move_assign_def q1)
qed

lemma swap_ok:
  "holds_list sz q xs \<Longrightarrow> holds_list sz other ys \<Longrightarrow> holds_list sz (fst (dq_swap d q other)) ys \<and> holds_list sz (snd (dq_swap d q other)) xs"
  using holds_fields [of sz q xs "snd (dq_swap d q other)"] holds_fields [of sz other ys "fst (dq_swap d q other)"]
  by (simp add: dq_swap_def IncrementGeneration_eq)

end
