(* ===== verification/Deque_Props.thy ===== *)
theory Deque_Props
  imports Deque_Erase
begin

text \<open>
  The circular deque as a sequence: every operation does to the elements what its counterpart does to a
  list, from any place of the ring and in every build.  Then what callers must know of the capacity, of
  iterators kept over a change and of references into the deque.
\<close>

section \<open>Operations on a list\<close>

datatype 'a dq_op =
    Push_front 'a | Push_back 'a | Pop_front | Pop_back
  | Resize nat 'a | Reserve nat | Shrink_to_fit | Clear_all
  | Assign_count nat 'a | Assign_range "'a list" | Assign_list "'a list"
  | Insert_count nat nat 'a | Insert_range nat "'a list" | Emplace nat 'a
  | Erase_at nat | Erase_between nat nat | Erase_if "'a \<Rightarrow> bool"

text \<open>What the operation is to do, and when it may be called: there is an element or place, and room.\<close>

definition in_room :: "nat \<Rightarrow> 'a list \<Rightarrow> 'a list option" where
  "in_room sz xs = (if fits sz (length xs) then Some xs else None)"

fun list_op :: "nat \<Rightarrow> 'a dq_op \<Rightarrow> 'a list \<Rightarrow> 'a list option" where
  "list_op sz (Push_front x) xs = in_room sz (x # xs)"
| "list_op sz (Push_back x) xs = in_room sz (xs @ [x])"
| "list_op sz Pop_front xs = (if xs = [] then None else Some (tl xs))"
| "list_op sz Pop_back xs = (if xs = [] then None else Some (butlast xs))"
| "list_op sz (Resize n v) xs = in_room sz (take n xs @ replicate (n - length xs) v)"
| "list_op sz (Reserve n) xs = (if sz * (n + 1) < 2 ^ 63 then Some xs else None)"
| "list_op sz Shrink_to_fit xs = Some xs"
| "list_op sz Clear_all xs = Some []"
| "list_op sz (Assign_count n v) xs = in_room sz (replicate n v)"
| "list_op sz (Assign_range ys) xs = in_room sz ys"
| "list_op sz (Assign_list ys) xs = in_room sz ys"
| "list_op sz (Insert_count i n v) xs =
     (if i \<le> length xs then in_room sz (take i xs @ replicate n v @ drop i xs) else None)"
| "list_op sz (Insert_range i ys) xs = (if i \<le> length xs then in_room sz (take i xs @ ys @ drop i xs) else None)"
| "list_op sz (Emplace i x) xs = (if i \<le> length xs then in_room sz (take i xs @ x # drop i xs) else None)"
| "list_op sz (Erase_at i) xs = (if i < length xs then Some (take i xs @ drop (Suc i) xs) else None)"
| "list_op sz (Erase_between i j) xs = (if i \<le> j \<and> j \<le> length xs then Some (take i xs @ drop j xs) else None)"
| "list_op sz (Erase_if p) xs = Some (filter (\<lambda>x. \<not> p x) xs)"

fun list_run :: "nat \<Rightarrow> 'a dq_op list \<Rightarrow> 'a list \<Rightarrow> 'a list option" where
  "list_run sz [] xs = Some xs"
| "list_run sz (op # ops) xs = Option.bind (list_op sz op xs) (list_run sz ops)"

section \<open>The same operations on the deque\<close>

text \<open>A place is the iterator \<open>begin() + i\<close>; the iterators that are returned are not used again.\<close>

definition place :: "bool \<Rightarrow> nat \<Rightarrow> 'a deque \<Rightarrow> dq_iter res" where
  "place d i q = it_Add d (int i) (begin_it q) q"

fun deque_op :: "nat \<Rightarrow> bool \<Rightarrow> 'a dq_op \<Rightarrow> 'a deque \<Rightarrow> 'a deque res" where
  "deque_op sz d (Push_front x) q = push_front sz d x q"
| "deque_op sz d (Push_back x) q = push_back sz d x q"
| "deque_op sz d Pop_front q = pop_front sz d q"
| "deque_op sz d Pop_back q = pop_back sz d q"
| "deque_op sz d (Resize n v) q = dq_resize sz d n v q"
| "deque_op sz d (Reserve n) q = dq_reserve sz n q"
| "deque_op sz d Shrink_to_fit q = dq_shrink_to_fit sz q"
| "deque_op sz d Clear_all q = dq_clear d q"
| "deque_op sz d (Assign_count n v) q = assign_count sz d n v q"
| "deque_op sz d (Assign_range ys) q = assign_range sz d ys q"
| "deque_op sz d (Assign_list ys) q = assign_list sz d ys q"
| "deque_op sz d (Insert_count i n v) q = bindR (place d i q) (\<lambda>it. insert_count sz d it n v q)"
| "deque_op sz d (Insert_range i ys) q = bindR (place d i q) (\<lambda>it. dq_insert_range sz d it ys q)"
| "deque_op sz d (Emplace i x) q =
     bindR (place d i q) (\<lambda>it. bindR (dq_emplace sz d it x q) (\<lambda>(_, q). Inr q))"
| "deque_op sz d (Erase_at i) q = bindR (place d i q) (\<lambda>it. bindR (dq_erase d it q) (\<lambda>(_, q). Inr q))"
| "deque_op sz d (Erase_between i j) q =
     bindR (place d i q) (\<lambda>it. bindR (place d j q) (\<lambda>jt. bindR (dq_erase_range d it jt q) (\<lambda>(_, q). Inr q)))"
| "deque_op sz d (Erase_if p) q = bindR (dq_EraseIf d p q) (\<lambda>(_, q). Inr q)"

fun deque_run :: "nat \<Rightarrow> bool \<Rightarrow> 'a dq_op list \<Rightarrow> 'a deque \<Rightarrow> 'a deque res" where
  "deque_run sz d [] q = Inr q"
| "deque_run sz d (op # ops) q = bindR (deque_op sz d op q) (deque_run sz d ops)"

lemma place_ok: "holds_list sz q xs \<Longrightarrow> i \<le> length xs \<Longrightarrow> \<exists>it. place d i q = Inr it \<and> it_at q it i"
  unfolding place_def by (rule begin_plus_ok)

lemma in_room_Some: "in_room sz xs = Some ys \<longleftrightarrow> fits sz (length xs) \<and> ys = xs"
  by (auto simp: in_room_def)

section \<open>Each operation implements its counterpart\<close>

lemma op_ends:
  assumes h: "holds_list sz q xs" and op: "op \<in> {Push_front x, Push_back x, Pop_front, Pop_back}" "list_op sz op xs = Some ys"
  shows "\<exists>q'. deque_op sz d op q = Inr q' \<and> holds_list sz q' ys"
  using op push_front_ok [OF h, of d x] push_back_ok [OF h, of d x]
    pop_front_ok [of sz q "hd xs" "tl xs" d] pop_back_ok [of sz q "butlast xs" "last xs" d] h
  by (auto simp: in_room_Some split: if_splits)

lemma op_places:
  assumes h: "holds_list sz q xs" and i: "i \<le> length xs"
  shows "fits sz (length xs + n) \<Longrightarrow>
      \<exists>q'. deque_op sz d (Insert_count i n v) q = Inr q' \<and> holds_list sz q' (take i xs @ replicate n v @ drop i xs)"
    "fits sz (length xs + length ys) \<Longrightarrow>
      \<exists>q'. deque_op sz d (Insert_range i ys) q = Inr q' \<and> holds_list sz q' (take i xs @ ys @ drop i xs)"
    "fits sz (length xs + 1) \<Longrightarrow> \<exists>q'. deque_op sz d (Emplace i v) q = Inr q' \<and> holds_list sz q' (take i xs @ v # drop i xs)"
    "i < length xs \<Longrightarrow> \<exists>q'. deque_op sz d (Erase_at i) q = Inr q' \<and> holds_list sz q' (take i xs @ drop (Suc i) xs)"
    "i \<le> j \<Longrightarrow> j \<le> length xs \<Longrightarrow>
      \<exists>q'. deque_op sz d (Erase_between i j) q = Inr q' \<and> holds_list sz q' (take i xs @ drop j xs)"
proof -
  obtain it where it: "place d i q = Inr it" "it_at q it i" using place_ok [OF h i] by blast
  note ok = insert_count_ok [OF h _ it(2) i, of n d v] dq_insert_range_ok [OF h _ it(2) i, of ys d]
    dq_emplace_ok [OF h _ it(2) i, of d v] erase_ok [OF h it(2), of d]
  show "fits sz (length xs + n) \<Longrightarrow>
      \<exists>q'. deque_op sz d (Insert_count i n v) q = Inr q' \<and> holds_list sz q' (take i xs @ replicate n v @ drop i xs)"
    using it(1) ok(1) by simp
  show "fits sz (length xs + length ys) \<Longrightarrow>
      \<exists>q'. deque_op sz d (Insert_range i ys) q = Inr q' \<and> holds_list sz q' (take i xs @ ys @ drop i xs)"
    using it(1) ok(2) by simp
  show "fits sz (length xs + 1) \<Longrightarrow> \<exists>q'. deque_op sz d (Emplace i v) q = Inr q' \<and> holds_list sz q' (take i xs @ v # drop i xs)"
    using it(1) ok(3) by auto
  show "i < length xs \<Longrightarrow> \<exists>q'. deque_op sz d (Erase_at i) q = Inr q' \<and> holds_list sz q' (take i xs @ drop (Suc i) xs)"
    using it(1) ok(4) by auto
  assume j: "i \<le> j" "j \<le> length xs"
  obtain jt where "place d j q = Inr jt" "it_at q jt j" using place_ok [OF h j(2)] by blast
  then show "\<exists>q'. deque_op sz d (Erase_between i j) q = Inr q' \<and> holds_list sz q' (take i xs @ drop j xs)"
    using it erase_range_ok [OF h it(2) _ j, of jt d] by auto
qed

lemma deque_op_ok:
  assumes h: "holds_list sz q xs" and op: "list_op sz op xs = Some ys"
  shows "\<exists>q'. deque_op sz d op q = Inr q' \<and> holds_list sz q' ys"
proof (cases op)
  case (Resize n v)
  then have "fits sz n" "ys = take n xs @ replicate (n - length xs) v"
    using op fits_mono [of sz "min n (length xs) + (n - length xs)" n]
    by (auto simp: in_room_Some min_def split: if_splits)
  then show ?thesis using resize_ok [OF h, of n d v] Resize by simp
next
  case (Erase_if p)
  then show ?thesis using EraseIf_ok [OF h, of d p] op by auto
next
  case (Reserve n)
  then show ?thesis using reserve_ok [OF h, of n] op by (auto split: if_splits)
qed (use h op op_ends [OF h _ op, of _ d] op_places [OF h, where d = d] dq_clear_ok [OF h, of d] shrink_to_fit_ok [OF h]
       assign_count_ok [OF h] assign_range_ok [OF h] assign_list_ok [OF h]
     in \<open>auto simp: in_room_Some add.commute split: if_splits\<close>)

lemma deque_run_ok:
  "holds_list sz q xs \<Longrightarrow> list_run sz ops xs = Some ys \<Longrightarrow> \<exists>q'. deque_run sz d ops q = Inr q' \<and> holds_list sz q' ys"
proof (induction ops arbitrary: q xs)
  case (Cons op ops)
  then obtain zs where "list_op sz op xs = Some zs" "list_run sz ops zs = Some ys"
    by (auto simp: bind_eq_Some_conv)
  then show ?case using deque_op_ok [OF Cons.prems(1), of op zs d] Cons.IH by fastforce
qed simp

section \<open>A growing sequence\<close>

text \<open>The elements as a function of the deque, for the shared interface of containers that are appended to.\<close>

definition content :: "'a deque \<Rightarrow> 'a list" where
  "content q = map the (take (dq_size q) (cells_of q))"

lemma content_holds: "holds_list sz q xs \<Longrightarrow> content q = xs"
  using holds_size [of sz q xs] by (auto simp: content_def holds_list_def split: if_splits)

interpretation ring_end: growing_sequence "push_all sz d" content "\<lambda>q. fits sz limit \<and> holds_list sz q (content q)" limit
  for sz limit :: nat and d :: bool
proof
  fix q :: "'a deque" and ys :: "'a list"
  assume inv: "fits sz limit \<and> holds_list sz q (content q)" and room: "length (content q) + length ys \<le> limit"
  have fit: "fits sz (length (content q) + length ys)" using inv fits_mono [OF _ room] by simp
  obtain q' where q': "push_all sz d ys q = Inr q'" "holds_list sz q' (content q @ ys)"
    using push_all_ok [OF _ fit, of q d] inv by blast
  then show "resT (\<lambda>q'. (fits sz limit \<and> holds_list sz q' (content q')) \<and> content q' = content q @ ys) (push_all sz d ys q)"
    using inv content_holds [OF q'(2)] by (simp add: resT_iff)
qed

section \<open>Capacity\<close>

lemma cell_new_length: "cell_new i x b = Inr b' \<Longrightarrow> length b' = length b"
  by (auto simp: cell_new_def bindR_eq_Inr split: if_splits)

lemma push_back_capacity:
  assumes "push_back sz d x q = Inr q'"
  shows "\<exists>q1. ExpandCapacityIfNecessary sz 1 q = Inr q1 \<and> dq_capacity q' = dq_capacity q1"
proof -
  obtain y where "emplace_back sz d x q = Inr (y, q')" using assms by (auto simp: push_back_def bindR_eq_Inr)
  then obtain q1 b where q1: "ExpandCapacityIfNecessary sz 1 q = Inr q1" "cell_new (dq_end q1) x (dq_buffer q1) = Inr b"
      "dq_buffer q' = b"
    unfolding emplace_back_def Let_def IncrementGeneration_eq by (auto simp: bindR_eq_Inr)
  then show ?thesis using cell_new_length [OF q1(2)] by (auto simp: dq_capacity_def)
qed

lemma push_front_capacity:
  assumes "push_front sz d x q = Inr q'"
  shows "\<exists>q1. ExpandCapacityIfNecessary sz 1 q = Inr q1 \<and> dq_capacity q' = dq_capacity q1"
proof -
  obtain y where "emplace_front sz d x q = Inr (y, q')" using assms by (auto simp: push_front_def bindR_eq_Inr)
  then obtain q1 i b where q1: "ExpandCapacityIfNecessary sz 1 q = Inr q1" "cell_new i x (dq_buffer q1) = Inr b"
      "dq_buffer q' = b"
    unfolding emplace_front_def Let_def IncrementGeneration_eq by (auto simp: bindR_eq_Inr)
  then show ?thesis using cell_new_length [OF q1(2)] by (auto simp: dq_capacity_def)
qed

text \<open>The largest \<open>size_t\<close> wraps to an empty block, and the elements are moved past its end.\<close>

lemma reserve_wraps:
  assumes h: "holds_list sz q xs" and ne: "xs \<noteq> []"
  shows "dq_reserve sz (2 ^ 64 - 1) q = Inl Bad_memory"
proof -
  have sp: "spans q (length xs)" using holds_spans_elem [OF h, of 0] ne by simp
  have lim: "dq_capacity q < 2 ^ 64 - 1" using holds_limit [OF h] by (auto simp: dq_capacity_def)
  have b: "dq_begin q < dq_cap q" "dq_end q < dq_cap q" "dq_begin q \<noteq> dq_end q"
    using sp spot_less [of q "length xs"] holds_empty [OF h] ne by (auto simp: spans_def on_ring_def dq_empty_def)
  have none: "move_cells n i 0 from [] = Inl Bad_memory" if "n > 0" for n i and "from" :: "'a dq_cells"
    using that by (cases n) simp_all
  have "MoveBuffer (dq_buffer q) (dq_begin q) (dq_end q) [] = Inl Bad_memory"
    using b none by (cases "dq_begin q < dq_end q") (simp_all add: MoveBuffer_def cell_index_def)
  then show ?thesis using lim by (simp add: dq_reserve_def SetCapacityTo_def VectorBuffer_new_def)
qed

section \<open>Iterators kept over a change\<close>

lemma next_gen_differs: "next_gen True g \<noteq> g"
proof (cases "g + 1 < 2 ^ 64")
  case False
  have "(g + 1) mod 2 ^ 64 < 2 ^ 64" by simp
  then show ?thesis using False by (cases "g + 1 = 2 ^ 64") (simp_all add: next_gen_def)
qed (simp add: next_gen_def)

lemma stale_detected:
  "it_at q it i \<Longrightarrow> dq_generation q' = next_gen True (dq_generation q) \<Longrightarrow> it_deref True it q' = Inl Check_failed"
  using next_gen_differs [of "dq_generation q"]
  by (simp add: it_deref_def CheckUnstableUsage_def dcheck_def it_at_def eq_commute)

text \<open>After a new buffer was made without a new generation, an old index is used in it.\<close>

lemma stale_undetected:
  assumes h: "holds_list sz q xs" and it: "it_at q it i" "i < length xs"
    and new: "holds_list sz q' xs" "dq_begin q' = 0" "dq_generation q' = dq_generation q"
  shows "it_deref True it q' = (if spot q i < length xs then Inr (xs ! spot q i) else Inl Check_failed)"
proof -
  have sp: "spans q' (length xs)" using holds_spans_elem [OF new(1)] it(2) by simp
  then have s: "spot q' m = m" if "m < dq_cap q'" for m using that new(2) by (simp add: spot_def)
  have e: "dq_end q' = length xs" using sp s by (simp add: spans_def)
  have idx: "it_index it = spot q i" "CheckUnstableUsage True it q' = Inr ()"
    using it(1) new(3) by (simp_all add: it_at_def CheckUnstableUsage_def)
  show ?thesis
  proof (cases "spot q i < length xs")
    case True
    then have "it_at q' it (spot q i)" using it(1) new(3) s sp by (simp add: it_at_def spans_def)
    then show ?thesis using it_deref_ok [OF new(1) _ True] True by simp
  next
    case False
    then show ?thesis using idx e new(2) by (simp add: it_deref_def CheckValidIndex_def dcheck_def)
  qed
qed

section \<open>The properties\<close>

text \<open>A deque that is full and wraps around, for the examples.\<close>

definition full_ring :: "nat deque" where
  "full_ring = \<lparr>dq_buffer = [Some 7, Some 8, None, Some 6], dq_begin = 3, dq_end = 2, dq_generation = 4\<rparr>"

lemma full_ring_ok: "holds_list 8 full_ring [6, 7, 8]" "dq_capacity full_ring = 3" "dq_begin full_ring = 3"
    "it_at full_ring \<lparr>it_index = 0, it_generation = 4\<rparr> 1"
  by (simp_all add: full_ring_def holds_list_def on_ring_def spot_def cells_of_def rotate_drop_take dq_capacity_def it_at_def)

lemma small_fits: "n \<le> 100 \<Longrightarrow> fits 8 n"
  by (simp add: fits_def)

text \<open>C32. A circular deque implements a list.  Any sequence of pushes, pops, resizes, reservations, clears,
  assignments, insertions and erasures that a list allows and that has room, run on a deque in any
  position of its ring, with or without debug checks, returns without a fault or a failed check; the loops
  end within their bounds; and the elements that iteration, \<open>at\<close>, \<open>front\<close> and \<open>back\<close> then read are those of
  the list after the same operations.\<close>

theorem deque_refines:
  assumes "holds_list sz q xs" and "list_run sz ops xs = Some ys"
  shows "\<exists>q'. deque_run sz d ops q = Inr q' \<and> holds_list sz q' ys \<and> dq_elements d q' = Inr ys \<and>
    dq_size q' = length ys \<and> dq_empty q' = (ys = []) \<and> (\<forall>i < length ys. dq_at d i q' = Inr (ys ! i)) \<and>
    (ys \<noteq> [] \<longrightarrow> dq_front d q' = Inr (hd ys) \<and> dq_back d q' = Inr (last ys))"
proof -
  obtain q' where q': "deque_run sz d ops q = Inr q'" "holds_list sz q' ys" using deque_run_ok [OF assms] by blast
  then show ?thesis
    using elements_ok [OF q'(2)] holds_size [OF q'(2)] holds_empty [OF q'(2)] dq_at_ok [OF q'(2)]
      dq_front_ok [OF q'(2)] dq_back_ok [OF q'(2)] by blast
qed

lemma deque_refines_witness:
  "\<exists>q'. deque_run 8 True
      [Push_back 1, Push_front 0, Insert_range 1 [5, 6, 7], Pop_back, Erase_at 1, Emplace 2 (9 :: nat), Shrink_to_fit,
       Insert_count 1 2 4, Resize 7 3, Erase_between 0 2, Erase_if (\<lambda>x. x = 7)] dq_new = Inr q' \<and>
    dq_elements True q' = Inr [4, 6, 9, 3]"
proof -
  have "list_run 8
      [Push_back 1, Push_front 0, Insert_range 1 [5, 6, 7], Pop_back, Erase_at 1, Emplace 2 (9 :: nat), Shrink_to_fit,
       Insert_count 1 2 4, Resize 7 3, Erase_between 0 2, Erase_if (\<lambda>x. x = 7)] [] = Some [4, 6, 9, 3]"
    by (simp add: in_room_def small_fits take_Cons' drop_Cons' replicate_app_Cons_same numeral_2_eq_2)
  from deque_refines [OF dq_new_holds this, of True] show ?thesis by auto
qed

text \<open>C33. What the capacity is.  \<open>reserve\<close> gives exactly what was asked for or leaves it; \<open>shrink_to_fit\<close> leaves no
  spare place and \<open>clear\<close> no memory; a push keeps it or lets it grow to what is needed, to three, or by a quarter; and a
  pop leaves at most twice as many places as elements, or three.  All keep the elements.  Reserving the
  largest \<open>size_t\<close> is no failed allocation: the sum with the spare place wraps to 0 and the elements are
  written past an empty block.\<close>

theorem deque_capacity:
  assumes h: "holds_list sz q xs"
  shows "(sz * (n + 1) < 2 ^ 63 \<longrightarrow>
      (\<exists>q'. dq_reserve sz n q = Inr q' \<and> holds_list sz q' xs \<and> dq_capacity q' = max n (dq_capacity q))) \<and>
    (\<exists>q'. dq_shrink_to_fit sz q = Inr q' \<and> holds_list sz q' xs \<and> dq_capacity q' = length xs) \<and>
    (\<exists>q'. dq_clear d q = Inr q' \<and> holds_list sz q' [] \<and> dq_capacity q' = 0) \<and>
    (fits sz (length xs + 1) \<longrightarrow>
      (let grown = (if length xs < dq_capacity q then dq_capacity q
                    else max (max (length xs + 1) 3) (dq_capacity q + dq_capacity q div 4))
       in (\<exists>q'. push_back sz d x q = Inr q' \<and> holds_list sz q' (xs @ [x]) \<and> dq_capacity q' = grown) \<and>
          (\<exists>q'. push_front sz d x q = Inr q' \<and> holds_list sz q' (x # xs) \<and> dq_capacity q' = grown))) \<and>
    (xs \<noteq> [] \<longrightarrow>
      (\<exists>q'. pop_front sz d q = Inr q' \<and> holds_list sz q' (tl xs) \<and> dq_capacity q' \<le> max 3 (2 * (length xs - 1))) \<and>
      (\<exists>q'. pop_back sz d q = Inr q' \<and> holds_list sz q' (butlast xs) \<and> dq_capacity q' \<le> max 3 (2 * (length xs - 1))) \<and>
      dq_reserve sz (2 ^ 64 - 1) q = Inl Bad_memory)"
proof (intro conjI impI)
  assume n: "sz * (n + 1) < 2 ^ 63"
  show "\<exists>q'. dq_reserve sz n q = Inr q' \<and> holds_list sz q' xs \<and> dq_capacity q' = max n (dq_capacity q)"
    using SetCapacityTo_ok [OF h _ n] holds_capacity [OF h] h by (cases "n > dq_capacity q") (auto simp: dq_reserve_def)
next
  assume fit: "fits sz (length xs + 1)"
  show "let grown = (if length xs < dq_capacity q then dq_capacity q
                    else max (max (length xs + 1) 3) (dq_capacity q + dq_capacity q div 4))
       in (\<exists>q'. push_back sz d x q = Inr q' \<and> holds_list sz q' (xs @ [x]) \<and> dq_capacity q' = grown) \<and>
          (\<exists>q'. push_front sz d x q = Inr q' \<and> holds_list sz q' (x # xs) \<and> dq_capacity q' = grown)"
    using push_back_ok [OF h fit, of d x] push_front_ok [OF h fit, of d x] ExpandCapacity_ok [OF h fit]
      push_back_capacity [of sz d x q] push_front_capacity [of sz d x q] by (fastforce simp: Let_def)
next
  assume ne: "xs \<noteq> []"
  show "\<exists>q'. pop_front sz d q = Inr q' \<and> holds_list sz q' (tl xs) \<and> dq_capacity q' \<le> max 3 (2 * (length xs - 1))"
    using pop_front_ok [of sz q "hd xs" "tl xs" d] h ne by auto
  show "\<exists>q'. pop_back sz d q = Inr q' \<and> holds_list sz q' (butlast xs) \<and> dq_capacity q' \<le> max 3 (2 * (length xs - 1))"
    using pop_back_ok [of sz q "butlast xs" "last xs" d] h ne by auto
  show "dq_reserve sz (2 ^ 64 - 1) q = Inl Bad_memory" by (rule reserve_wraps [OF h ne])
qed (use dq_clear_ok [OF h] shrink_to_fit_ok [OF h] in blast)+

lemma deque_capacity_witness:
  "(\<exists>q'. dq_reserve 8 10 full_ring = Inr q' \<and> dq_capacity q' = 10) \<and>
   (\<exists>q'. push_back 8 True 9 full_ring = Inr q' \<and> holds_list 8 q' [6, 7, 8, 9] \<and> dq_capacity q' = 4) \<and>
   (\<exists>q'. pop_front 8 True full_ring = Inr q' \<and> holds_list 8 q' [7, 8] \<and> dq_capacity q' \<le> 4) \<and>
   dq_reserve 8 (2 ^ 64 - 1) full_ring = Inl Bad_memory"
  using deque_capacity [OF full_ring_ok(1), of 10 True 9] small_fits [of "Suc (Suc (Suc (Suc 0)))"] full_ring_ok(2) by (auto simp: Let_def max_def)

text \<open>C34. The debug check for iterators that are kept over a change.  After a push, a pop or \<open>clear\<close> the old
  iterator's use is a failed check.  \<open>reserve\<close> beyond the capacity and \<open>shrink_to_fit\<close> replace the buffer and
  keep the generation: the old iterator passes the check and its index is used in the new buffer, where it
  reads the element whose place it names there, which is another one unless the deque began at 0.\<close>

theorem deque_iterators:
  assumes h: "holds_list sz q xs" and it: "it_at q it i" "i < length xs" and fit: "fits sz (length xs + 1)"
    and n: "n > dq_capacity q" "sz * (n + 1) < 2 ^ 63"
  shows "it_deref True it q = Inr (xs ! i) \<and>
    (\<forall>op \<in> {Push_front x, Push_back x, Pop_front, Pop_back, Clear_all}.
      \<exists>q'. deque_op sz True op q = Inr q' \<and> it_deref True it q' = Inl Check_failed) \<and>
    (\<forall>op \<in> {Reserve n, Shrink_to_fit}.
      \<exists>q'. deque_op sz True op q = Inr q' \<and> holds_list sz q' xs \<and>
        it_deref True it q' = (if it_index it < length xs then Inr (xs ! it_index it) else Inl Check_failed)) \<and>
    (it_index it = i \<longleftrightarrow> dq_begin q = 0)"
proof -
  have ne: "xs \<noteq> []" using it(2) by auto
  have sp: "spans q (length xs)" by (rule holds_spans_elem [OF h it(2)])
  have idx: "it_index it = spot q i" using it(1) by (simp add: it_at_def)
  note gone = stale_detected [OF it(1)]
  obtain q1 where q1: "push_front sz True x q = Inr q1" "it_deref True it q1 = Inl Check_failed"
    using push_front_ok [OF h fit, of True x] gone by blast
  obtain q2 where q2: "push_back sz True x q = Inr q2" "it_deref True it q2 = Inl Check_failed"
    using push_back_ok [OF h fit, of True x] gone by blast
  obtain q3 where q3: "pop_front sz True q = Inr q3" "it_deref True it q3 = Inl Check_failed"
    using pop_front_ok [of sz q "hd xs" "tl xs" True] gone h ne by auto
  obtain q4 where q4: "pop_back sz True q = Inr q4" "it_deref True it q4 = Inl Check_failed"
    using pop_back_ok [of sz q "butlast xs" "last xs" True] gone h ne by auto
  obtain q5 where q5: "dq_clear True q = Inr q5" "it_deref True it q5 = Inl Check_failed"
    using Clear_ok [OF h, of True] stale_detected [OF it(1)] by (fastforce simp: dq_clear_def)
  have new: "\<exists>q'. SetCapacityTo sz m q = Inr q' \<and> holds_list sz q' xs \<and>
      it_deref True it q' = (if it_index it < length xs then Inr (xs ! it_index it) else Inl Check_failed)"
    if "length xs \<le> m" "sz * (m + 1) < 2 ^ 63" for m
    using SetCapacityTo_ok [OF h that] stale_undetected [OF h it] unfolding idx by blast
  have "dq_reserve sz n q = SetCapacityTo sz n q" "length xs \<le> n"
    using n(1) holds_capacity [OF h] by (simp_all add: dq_reserve_def)
  moreover have "dq_shrink_to_fit sz q = SetCapacityTo sz (length xs) q"
    using ne holds_empty [OF h] holds_size [OF h] by (simp add: dq_shrink_to_fit_def)
  moreover have "spot q i = i \<longleftrightarrow> dq_begin q = 0"
    using sp it(2) by (auto simp: spans_def spot_if on_ring_def split: if_splits)
  moreover have "sz * (length xs + 1) < 2 ^ 63" by (rule fits_exact [OF fits_mono [OF fit]]) simp
  ultimately show ?thesis
    using it_deref_ok [OF h it] q1 q2 q3 q4 q5 new [of n] new [of "length xs"] n(2) idx by simp
qed

lemma deque_iterators_witness:
  "let it = \<lparr>it_index = 0, it_generation = 4\<rparr>
   in it_deref True it full_ring = Inr 7 \<and>
     (\<exists>q'. push_back 8 True 9 full_ring = Inr q' \<and> it_deref True it q' = Inl Check_failed) \<and>
     (\<exists>q'. dq_reserve 8 10 full_ring = Inr q' \<and> it_deref True it q' = Inr 6)"
  using deque_iterators [OF full_ring_ok(1,4), of 10 9] small_fits [of "Suc (Suc (Suc (Suc 0)))"] full_ring_ok(2) by (auto simp: Let_def)

text \<open>Pushing a copy of one of the deque's own elements, as \<open>push_back(q[i])\<close> does: when the deque is full the
  element is read in the buffer that was freed to make room; otherwise the element is appended.\<close>

theorem deque_own_element:
  assumes h: "holds_list sz q xs" and i: "i < length xs" and fit: "fits sz (length xs + 1)"
  shows "push_back_own sz d i q = (if length xs = dq_capacity q then Inl Bad_memory else push_back sz d (xs ! i) q)"
proof -
  have sp: "spans q (length xs)" by (rule holds_spans_elem [OF h i])
  have mod: "(length xs + 1) mod 2 ^ 64 = length xs + 1" using holds_limit [OF h] by simp
  obtain q1 where q1: "ExpandCapacityIfNecessary sz 1 q = Inr q1" using ExpandCapacity_ok [OF h fit] by blast
  have place: "(if dq_begin q \<le> dq_end q \<or> i < dq_cap q - dq_begin q then dq_begin q + i else i - (dq_cap q - dq_begin q)) = spot q i"
    using sp i by (auto simp: spans_def on_ring_def spot_if split: if_splits)
  show ?thesis
  proof (cases "length xs = dq_capacity q")
    case True
    then show ?thesis
      using dq_at_ok [OF h i] q1 mod holds_size [OF h] by (simp add: push_back_own_def Let_def)
  next
    case False
    then have room: "length xs + 1 \<le> dq_capacity q" using holds_capacity [OF h] by simp
    then have "ExpandCapacityIfNecessary sz 1 q = Inr q"
      using mod holds_size [OF h] by (simp add: ExpandCapacityIfNecessary_def)
    then show ?thesis
      using False room dq_at_ok [OF h i] read_elem [OF h i] mod holds_size [OF h]
      by (simp add: push_back_own_def Let_def place)
  qed
qed

lemma deque_own_element_witness: "push_back_own 8 True 1 full_ring = Inl Bad_memory"
  using deque_own_element [OF full_ring_ok(1), of 1 True] small_fits [of "Suc (Suc (Suc (Suc 0)))"] full_ring_ok(2) by simp

end
