(* ===== verification/Spec2Isabelle.thy ===== *)
theory Spec2Isabelle
  imports App_Props Window_Props Byte_Props Seq_Props Units_Props Buffer_Props Queue_Props Filter_Props Qt_Props Command_Line
    Qt_Conductor_Props Qt_Menu
    Used_Ids_Props Cow_Programs Safe_Props Heap_Assign Spl_Arith
    Mru_Recency Flat_Containers Deque_Props
begin

text \<open>
  The program is a peer-to-peer video caller on Windows: src/PjWebrtc (and a Qt port of it,
  src/QtWebrtc) on the headers of the WebRTC library, src/webrtc/include, whose compiled part is
  not in the repository.  This library models the application and those parts of the WebRTC
  headers that hold code with a contract of its own.

  The parts and how they interact.  \<open>wWinMain\<close> (main.cc) makes a signalling client, a window and a
  conductor and delivers window messages to them.  The client (peer_connection_client.cc) speaks
  a small HTTP protocol on two sockets with a server and calls its observer, the conductor, on
  sign-in, disconnection, peers and messages.  The window (main_wnd.cc) calls the same conductor
  on the user's actions and posts messages to itself for work on the interface's thread.  The
  conductor (conductor.cc) drives one \<open>PeerConnection\<close> of the library and exchanges
  descriptions and candidates with the peer as JSON through the client.

  Theories of the application, and what they model:
  Prelude: faults and results, \<open>std::map\<close> as a sorted association list, shared interfaces.
  Cpp_String, Signal_Parse: the string functions the client uses; its header, status and entry
  parsers and its printed requests.
  Client, Client_Handlers: the state \<open>client\<close> and the operations and socket handlers.
  Main_Window, Window_Events: the state \<open>window\<close> (an extension of the client's record, as all
  share one process), layout, messages, focus, renderers.
  Conductor, Conductor_Events: the state \<open>conductor\<close>, its operations as observer of the client
  and of the window.
  App: the start, one step per delivered event, and the reachable states \<open>app_reach\<close>.
  Client_Inv, Window_Frame, Window_Inv, Conductor_Inv, App_Inv: the invariants.  What the client
  and the window ask of their observers are the locales \<open>client_observer\<close> and
  \<open>window_observer\<close>; the conductor interprets both.
  Signal_Props, Client_Props, Window_Props, App_Props and this theory: the properties.
  Command_Line: the strings of the command line and the flags (WindowsCommandLineArguments in
  main.cc, flag_defs.h, defaults.cc) and the two message loops.
  App_Sample: a concrete world and the first states in it, on which witnesses run.

  Theories of the Qt port: Qt_Capture and Qt_Capture_Props hold the screen and camera capture and
  the window that shows it (localCapturer.cpp, demo_desktop_capture.cpp, desktop_capture_source.cpp,
  demo_camera_capture.cpp, QtWidgetsLocalVideo.cpp); the library's pictures and their conversion are the
  record \<open>yuv\<close>, and what the comments of api/video and libyuv say of sizes and strides is the hypothesis
  \<open>yuv_documented\<close>; nothing is supposed of how the planes lie in memory.  Qt_Call and Qt_Props
  hold the call's windows and the callback of their connection (PeerConnectionCallback.h,
  QtWidgetsTest.cpp, QtWidgetsSdp.cpp).  Qt_Conductor holds the port's conductor.cpp and
  Qt_Conductor_Props relates it to Conductor through the view \<open>qt_view\<close>; Qt_Menu holds the first
  window and the camera's (QtWebrtc.cpp, QtWidgetsCamera.cpp).

  Theories of the WebRTC headers: Byte_IO and Byte_Props (modules/rtp_rtcp/source/byte_io.h);
  Seq_Num and Seq_Props (rtc_base/numerics/mod_ops.h, sequence_number_util.h,
  modules/include/module_common_types_public.h); Units, Api_Units and Units_Props
  (rtc_base/units/unit_base.h, api/units); Rtc_Buffer and Buffer_Props (rtc_base/buffer.h);
  Safe_Num and Safe_Props (rtc_base/numerics: safe_compare.h, safe_minmax.h, safe_conversions.h,
  safe_conversions_impl.h, with the types chosen at compile time computed by functions);
  Swap_Queue and Queue_Props (rtc_base/swap_queue.h); Moving_Filters and Filter_Props
  (rtc_base/numerics: moving_max_counter.h, percentile_filter.h, moving_median_filter.h);
  Used_Ids and Used_Ids_Props (pc/used_ids.h); Ref_Ptr and Ref_Props (rtc_base/ref_counter.h,
  rtc_base/ref_counted_object.h, api/scoped_refptr.h); Cow_Buffer, Cow_Props and Cow_Programs
  (rtc_base/copy_on_write_buffer.h, whose operations of the absent .cc file are the record
  \<open>cow_lib\<close> with the hypothesis \<open>cow_documented\<close>); Intrusive_Heap, Heap_Order, Heap_Holes,
  Heap_Props, Heap_Queue and Heap_Assign (base/containers/intrusive_heap.h: the vector with holes,
  orders of lists, the algorithm as exchanges in a list, the operations, the priority queue they
  are, and assignment); Mru_Cache, Mru_Props and Mru_Recency (base/containers/mru_cache.h, with list nodes as
  addresses); Flat_Tree, Flat_Order, Flat_Sort, Flat_Props, Flat_Batch, Flat_Map and Flat_Containers
  (base/containers: flat_tree.h, flat_map.h, fixed_flat_map.h, fixed_flat_set.h: the sorted vector, lists under a comparison,
  the header's sort, searches and single insertions, ranges, the map); Circular_Deque, Deque_Ring, Deque_Capacity, Deque_Ends,
  Deque_Remove, Deque_Middle, Deque_Insert, Deque_Erase and Deque_Props (base/containers: circular_deque.h,
  vector_buffer.h: cells of raw memory, the ring in logical order and its iterators, new buffers, the two ends, removal and
  assignment, holes in the middle, insertion, erasure and copies, and the deque as a list); Spl_Inl, Spl_Bits and Spl_Arith (common_audio/signal_processing/include:
  spl_inl.h, the macros of signal_processing_library.h, and spl_inl_armv7.h, whose instructions are the record
  \<open>armv7\<close> with the hypothesis \<open>armv7_ok\<close>; the table of leading zeros is a parameter, \<open>table_ok\<close> says what its
  comment says).
  The interfaces are the locales \<open>ordered_map\<close>, \<open>codec\<close>, \<open>growing_sequence\<close>, \<open>bounded_queue\<close>,
  \<open>unused_id_search\<close>, \<open>viewed_step\<close>, \<open>priority_queue\<close> and \<open>recency_cache\<close>; each is interpreted on the model of the code that provides it.

  Conventions.  A C++ function is a definition with its name, on a state record with the class's
  fields; it returns \<open>'a res\<close>: a value, or the fault that ends the process.  \<open>d\<close> says whether
  the build has \<open>RTC_DCHECK\<close>s.  What the program asks of the world is a parameter: the sockets'
  answers, the window system's, the compiled WebRTC library's and jsoncpp's are fields of an
  environment record, which may differ from event to event; what the program does to the world
  is a log in the state.  Signed overflow and other undefined behaviour are faults, in \<open>int\<close> (\<open>i32\<close>)
  and in \<open>int64_t\<close> (\<open>i64\<close>), and so is a failed check; unsigned arithmetic wraps, and so do the atomic operations
  on a reference count, but not what is computed from their values.

  What the lemmas show.  For each component: an invariant every operation keeps; what each
  operation does on its branches, errors included; equivalence with a reference definition where
  the code is an optimised loop or structure (peer-list parsing, byte access, sequence order, moving
  filters, leading zeros, saturation, range insertion into a sorted vector); refinement of an abstract contract (units as numbers with infinities, the buffer as
  a growing sequence, the ring as a bounded queue, also between two threads, copy-on-write buffers
  as independent byte sequences, the cache as a recency list, the circular deque as a list, the flat map as a finite map, the client's conductor by the Qt port's); round trips of the
  protocol and of the encoders; and, where the code leaves its contract, a theorem that says on
  which inputs.

  Bounds and fuel.  The Tab key's search, the one loop that may not end, is a partial function
  into \<open>option\<close>; the theorem \<open>tab_search_spec\<close> says with exactly which windows it ends.  Receiving
  ends with the list of the chunks the socket gives.  Everything else is total, by structural
  recursion or a measure.  The loops of the circular deque count rounds: \<open>push_until\<close> as many as elements are missing,
  \<open>move_right\<close> and \<open>move_left\<close> one time around the ring; running out is the fault \<open>No_return\<close>, and
  \<open>deque_refines\<close> shows that it does not happen.  Sizes are such that a grown buffer has less than 2 to the power 63
  bytes (\<open>fits\<close>).  A heap holds at most \<open>heap_limit\<close> elements, 2 to the
  power 60: a vector of objects with a pointer in them is not longer, and up to it the position of a
  child does not wrap.

  A buffer's sizes are up to \<open>most sz\<close> elements of \<open>sz\<close> bytes, 2 to the power 62 bytes, and fewer than 2 to the
  power 31, less one, pointers share the objects they count: then no allocation is refused and no count overflows.

  Not modelled.  The events a message box's modal loop dispatches before it is closed; parsing flags (the absl library), drawing pixels, laying out Qt widgets, the
  compiled WebRTC library, Win32, sockets and jsoncpp (parameters); floating-point overloads of the units and of the safe
  comparisons and casts, and the NTP times, which go through floating point; MIPS assembly; the rest of the
  WebRTC headers, which the application does not call into: declarations of abstract classes and data holders,
  wrappers of the standard library (base/ranges), the allocators, tracing and platform code of base, generated tables,
  and the third-party code among them.
\<close>

section \<open>The process\<close>

text \<open>
  C1. In every reachable state: both sockets of the signalling client exist or neither; past the
  resolver they exist; a control socket being connected has its request ready; the peer map is
  in key order without duplicates; in a build with checks a connected client has an id; without
  a peer connection there is no factory, no loopback mode and no local renderer, and with one
  there is its factory.
\<close>

theorem reachable_state_invariant:
  assumes "app_reach d s"
  shows "callback s \<and>
    (control_socket s = None \<longleftrightarrow> hanging_get s = None) \<and>
    (state s \<notin> {NOT_CONNECTED, RESOLVING} \<longrightarrow> control_socket s \<noteq> None \<and> hanging_get s \<noteq> None) \<and>
    (state s = RESOLVING \<longrightarrow> resolver s) \<and>
    (control_socket s = Some CS_CONNECTING \<longrightarrow> onconnect_data s \<noteq> []) \<and>
    sorted_wrt (<) (map fst (peers s)) \<and>
    (d \<and> state s = CONNECTED \<longrightarrow> my_id s \<noteq> - 1) \<and>
    (peer_connection s = None \<longrightarrow> \<not> peer_connection_factory s \<and> \<not> loopback s \<and> local_renderer s = None) \<and>
    (peer_connection s \<noteq> None \<longrightarrow> peer_connection_factory s)"
  using reach_inv [OF assms]
  by (simp add: client_inv_def has_sockets_def smap_ok_def conductor_inv_def)

theorem reachable_state_invariant_witness:
  "\<exists>s. app_reach True s \<and> control_socket s = Some CS_CONNECTING \<and> onconnect_data s \<noteq> []"
  using sample_login [of True] reachable_state_invariant by blast

end
